(* ===== verification/Prelude.thy ===== *)
theory Prelude
  imports Main "HOL-Library.AList"
begin

text \<open>
  Shared vocabulary of the development: the exceptions the Python scripts raise and the
  result type that carries them, insertion-ordered dictionaries, and the list lemmas and
  theorem collections the component theories use.
\<close>

section \<open>Theorem collections\<close>

named_theorems py_simps \<open>evaluation of the Python library operations\<close>
named_theorems res_simps \<open>propagation of exceptions\<close>
named_theorems dict_simps \<open>dictionary lookups after updates\<close>

section \<open>Exceptions and results\<close>

text \<open>
  A Python call either raises or returns. Each exception class the scripts raise or let
  escape is a constructor; the message is kept where the scripts build one.
\<close>

datatype py_exn =
    ValueError string
  | KeyError string
  | IndexError
  | TypeError
  | AttributeError
  | StopIteration
  | FileNotFoundError
  | FileExistsError
  | OSError string
  | RuntimeError string
  | SystemExit string
  | OverflowError
  | SubprocessError
  | LoadGateError string
  | WasmBuildError string
  | WasmExportScanClientError string
  | Unmodelled                   \<comment> \<open>an input the model says nothing about\<close>

type_synonym 'a result = "py_exn + 'a"

text \<open>What \<open>except OSError\<close> catches.\<close>

definition is_os_error :: "py_exn \<Rightarrow> bool" where
  "is_os_error e = (case e of OSError _ \<Rightarrow> True | FileNotFoundError \<Rightarrow> True | FileExistsError \<Rightarrow> True | _ \<Rightarrow> False)"

definition rbind :: "'a result \<Rightarrow> ('a \<Rightarrow> 'b result) \<Rightarrow> 'b result" where
  "rbind m f = (case m of Inl e \<Rightarrow> Inl e | Inr x \<Rightarrow> f x)"

lemma rbind_simps [simp, res_simps]:
  "rbind (Inl e) f = Inl e"
  "rbind (Inr x) f = f x"
  by (simp_all add: rbind_def)

lemma rbind_Inr_conv:
  "rbind m f = Inr y \<longleftrightarrow> (\<exists>x. m = Inr x \<and> f x = Inr y)"
  by (cases m) auto

lemma rbind_Inl_conv:
  "rbind m f = Inl e \<longleftrightarrow> m = Inl e \<or> (\<exists>x. m = Inr x \<and> f x = Inl e)"
  by (cases m) auto

lemma rbind_InrE [elim!]:
  assumes "rbind m f = Inr y"
  obtains x where "m = Inr x" and "f x = Inr y"
  using assms by (auto simp: rbind_Inr_conv)

lemma rbind_cong [fundef_cong]:
  "m = m' \<Longrightarrow> (\<And>x. m' = Inr x \<Longrightarrow> f x = g x) \<Longrightarrow> rbind m f = rbind m' g"
  by (cases m') auto

definition rmap :: "('a \<Rightarrow> 'b) \<Rightarrow> 'a result \<Rightarrow> 'b result" where
  "rmap f m = rbind m (\<lambda>x. Inr (f x))"

lemma rmap_simps [simp, res_simps]:
  "rmap f (Inl e) = Inl e"
  "rmap f (Inr x) = Inr (f x)"
  by (simp_all add: rmap_def)

lemma rmap_Inr: "rmap f m = Inr y \<longleftrightarrow> (\<exists>x. m = Inr x \<and> y = f x)"
  by (auto simp: rmap_def rbind_def split: sum.splits)

lemma rmap_Inl: "rmap f m = Inl e \<longleftrightarrow> m = Inl e"
  by (auto simp: rmap_def rbind_def split: sum.splits)

text \<open>A list comprehension whose element expression may raise: the first exception wins.\<close>

fun traverse :: "('a \<Rightarrow> 'b result) \<Rightarrow> 'a list \<Rightarrow> 'b list result" where
  "traverse f [] = Inr []"
| "traverse f (x # xs) = rbind (f x) (\<lambda>y. rbind (traverse f xs) (\<lambda>ys. Inr (y # ys)))"

lemma traverse_cong [fundef_cong]:
  "xs = ys \<Longrightarrow> (\<And>x. x \<in> set ys \<Longrightarrow> f x = g x) \<Longrightarrow> traverse f xs = traverse g ys"
  by (induction ys arbitrary: xs) (auto simp: rbind_def)

lemma traverse_Inr:
  "traverse f xs = Inr ys \<Longrightarrow> length ys = length xs \<and> (\<forall>i < length xs. f (xs ! i) = Inr (ys ! i))"
proof (induction xs arbitrary: ys)
  case (Cons x xs)
  then show ?case by (auto simp: nth_Cons split: nat.splits)
qed simp

lemma traverse_Inr_set:
  "traverse f xs = Inr ys \<Longrightarrow> y \<in> set ys \<Longrightarrow> \<exists>x \<in> set xs. f x = Inr y"
  by (induction xs arbitrary: ys) auto

section \<open>Dictionaries\<close>

text \<open>
  A Python \<open>dict\<close> keeps its keys in insertion order; assigning to a key that is present
  keeps its place. That is \<^const>\<open>AList.update\<close> on association lists, and deleting a key is
  \<^const>\<open>AList.delete\<close>.
\<close>

type_synonym ('k, 'v) dict = "('k \<times> 'v) list"

definition dget :: "('k, 'v) dict \<Rightarrow> 'k \<Rightarrow> 'v option" where
  "dget d k = map_of d k"

definition dset :: "'k \<Rightarrow> 'v \<Rightarrow> ('k, 'v) dict \<Rightarrow> ('k, 'v) dict" where
  "dset k v d = AList.update k v d"

definition ddel :: "'k \<Rightarrow> ('k, 'v) dict \<Rightarrow> ('k, 'v) dict" where
  "ddel k d = AList.delete k d"

definition dkeys :: "('k, 'v) dict \<Rightarrow> 'k list" where
  "dkeys d = map fst d"

text \<open>The laws every client of a dictionary relies on.\<close>

locale dictionary =
  fixes get :: "'d \<Rightarrow> 'k \<Rightarrow> 'v option"
    and put :: "'k \<Rightarrow> 'v \<Rightarrow> 'd \<Rightarrow> 'd"
    and del :: "'k \<Rightarrow> 'd \<Rightarrow> 'd"
  assumes get_put: "get (put k v d) k' = (if k' = k then Some v else get d k')"
    and get_del: "get (del k d) k' = (if k' = k then None else get d k')"
begin

lemma get_put_same: "get (put k v d) k = Some v"
  by (simp add: get_put)

lemma get_put_other: "k' \<noteq> k \<Longrightarrow> get (put k v d) k' = get d k'"
  by (simp add: get_put)

lemma put_put_get: "get (put k v (put k w d)) = get (put k v d)"
  by (rule ext) (simp add: get_put)

lemma fold_put_get_other:
  "k' \<notin> set ks \<Longrightarrow> get (fold (\<lambda>k d. put k (f k d) d) ks d) k' = get d k'"
  by (induction ks arbitrary: d) (auto simp: get_put)

lemma fold_put_dom:
  "(\<exists>v. get (fold (\<lambda>k d. put k (f k d) d) ks d) k' = Some v) \<longleftrightarrow>
     k' \<in> set ks \<or> (\<exists>v. get d k' = Some v)"
  by (induction ks arbitrary: d) (auto simp: get_put)

end

interpretation pyd: dictionary dget dset ddel
  by unfold_locales (simp_all add: dget_def dset_def ddel_def update_conv' delete_conv')

lemmas dict_laws [simp, dict_simps] = pyd.get_put pyd.get_del

lemma dget_Nil [simp, dict_simps]: "dget [] k = None"
  by (simp add: dget_def)

lemma dget_dom: "(\<exists>v. dget d k = Some v) \<longleftrightarrow> k \<in> set (dkeys d)"
  by (induction d) (auto simp: dget_def dkeys_def)

lemma dget_None_conv: "dget d k = None \<longleftrightarrow> k \<notin> set (dkeys d)"
  using dget_dom [of d k] by (cases "dget d k") auto

lemma dkeys_dset: "dkeys (dset k v d) = (if k \<in> set (dkeys d) then dkeys d else dkeys d @ [k])"
  by (induction d) (auto simp: dkeys_def dset_def)

lemma dget_in_set: "dget d k = Some v \<Longrightarrow> (k, v) \<in> set d"
  by (auto simp: dget_def dest: map_of_SomeD)

text \<open>\<open>d == e\<close> on dictionaries ignores the order.\<close>

definition dict_eq :: "('k, 'v) dict \<Rightarrow> ('k, 'v) dict \<Rightarrow> bool" where
  "dict_eq d e \<longleftrightarrow> list_all (\<lambda>k. dget d k = dget e k) (dkeys d @ dkeys e)"

lemma dict_eq_iff: "dict_eq d e \<longleftrightarrow> dget d = dget e"
proof
  assume a: "dict_eq d e"
  show "dget d = dget e"
  proof
    fix k
    show "dget d k = dget e k"
    proof (cases "k \<in> set (dkeys d @ dkeys e)")
      case True
      then show ?thesis using a by (auto simp: dict_eq_def list_all_iff)
    next
      case False
      then show ?thesis using dget_None_conv [of d k] dget_None_conv [of e k] by auto
    qed
  qed
qed (simp add: dict_eq_def list_all_iff)

lemma dget_filter: "dget (filter (\<lambda>(p, _). P p) fs) q = (if P q then dget fs q else None)"
  by (induction fs) (auto simp: dget_def)

section \<open>Lists\<close>

text \<open>\<open>next (x for x in xs if p x)\<close> with a default of None.\<close>

lemma find_Some_in: "List.find p xs = Some x \<Longrightarrow> x \<in> set xs \<and> p x"
  by (induction xs) (auto split: if_splits)

lemma length_filter_lt:
  "x \<in> set xs \<Longrightarrow> \<not> p x \<Longrightarrow> length (filter p xs) < length xs"
  by (induction xs) (auto simp: less_Suc_eq_le)

lemma take_length_append [simp]: "take (length xs) (xs @ ys) = xs"
  by simp

lemma append_longer: "a @ b = c @ d \<Longrightarrow> length c \<le> length a \<Longrightarrow> \<exists>w. a = c @ w \<and> d = w @ b"
  by (auto simp: append_eq_append_conv2)

end
