(* ===== verification/PyText.thy ===== *)
theory PyText
  imports Prelude "HOL-Library.Char_ord" "HOL-Library.List_Lexorder"
begin

text \<open>
  Python's \<open>str\<close> operations, as the scripts use them. A \<open>str\<close> is modelled as a
  \<^typ>\<open>string\<close>: one \<^typ>\<open>char\<close> per code point, for texts whose code points are below 256
  (Latin-1). The character classes (\<open>isspace\<close>, \<open>isalnum\<close>, \<open>lower\<close>, \<open>isprintable\<close>, \dots)
  are the Unicode ones restricted to that range.
\<close>

section \<open>Character classes\<close>

abbreviation code :: "char \<Rightarrow> nat" where
  "code c \<equiv> of_char c"

definition is_space :: "char \<Rightarrow> bool" where
  "is_space c \<longleftrightarrow> (let n = code c in
     9 \<le> n \<and> n \<le> 13 \<or> 28 \<le> n \<and> n \<le> 32 \<or> n = 133 \<or> n = 160)"

definition is_upper_az :: "char \<Rightarrow> bool" where
  "is_upper_az c \<longleftrightarrow> 65 \<le> code c \<and> code c \<le> 90"

definition is_lower_az :: "char \<Rightarrow> bool" where
  "is_lower_az c \<longleftrightarrow> 97 \<le> code c \<and> code c \<le> 122"

definition is_digit :: "char \<Rightarrow> bool" where
  "is_digit c \<longleftrightarrow> 48 \<le> code c \<and> code c \<le> 57"

text \<open>\<open>str.isalpha\<close>: the ASCII letters and the Latin-1 letters.\<close>

definition is_alpha :: "char \<Rightarrow> bool" where
  "is_alpha c \<longleftrightarrow> is_upper_az c \<or> is_lower_az c \<or>
     (let n = code c in n = 170 \<or> n = 181 \<or> n = 186 \<or> 192 \<le> n \<and> n \<noteq> 215 \<and> n \<noteq> 247)"

text \<open>\<open>str.isdigit\<close> also accepts the superscripts two, three and one.\<close>

definition is_pydigit :: "char \<Rightarrow> bool" where
  "is_pydigit c \<longleftrightarrow> is_digit c \<or> code c \<in> {178, 179, 185}"

text \<open>\<open>str.isalnum\<close> accepts, beside letters and digits, the vulgar fractions.\<close>

definition is_alnum :: "char \<Rightarrow> bool" where
  "is_alnum c \<longleftrightarrow> is_alpha c \<or> is_pydigit c \<or> code c \<in> {188, 189, 190}"

text \<open>The classes on the bits of a character, for evaluation.\<close>

lemma is_digit_code [code]:
  "is_digit (Char b0 b1 b2 b3 b4 b5 b6 b7) \<longleftrightarrow> b5 \<and> b4 \<and> \<not> b7 \<and> \<not> b6 \<and> (\<not> b3 \<or> \<not> b2 \<and> \<not> b1)"
  by (cases b0; cases b1; cases b2; cases b3; cases b4; cases b5; cases b6; cases b7; simp add: is_digit_def)

lemma is_space_code [code]:
  "is_space (Char b0 b1 b2 b3 b4 b5 b6 b7) \<longleftrightarrow> 
   \<not> b7 \<and> \<not> b6 \<and> \<not> b5 \<and> \<not> b4 \<and> b3 \<and> (\<not> b2 \<and> (b0 \<or> b1) \<or> b2 \<and> \<not> b1) \<or>
   \<not> b7 \<and> \<not> b6 \<and> \<not> b5 \<and> b4 \<and> b3 \<and> b2 \<or>
   \<not> b7 \<and> \<not> b6 \<and> b5 \<and> \<not> b4 \<and> \<not> b3 \<and> \<not> b2 \<and> \<not> b1 \<and> \<not> b0 \<or>
   b7 \<and> \<not> b6 \<and> \<not> b5 \<and> \<not> b4 \<and> \<not> b3 \<and> b2 \<and> \<not> b1 \<and> b0 \<or>
   b7 \<and> \<not> b6 \<and> b5 \<and> \<not> b4 \<and> \<not> b3 \<and> \<not> b2 \<and> \<not> b1 \<and> \<not> b0"
  by (cases b0; cases b1; cases b2; cases b3; cases b4; cases b5; cases b6; cases b7; simp add: is_space_def)

lemma is_upper_az_code [code]:
  "is_upper_az (Char b0 b1 b2 b3 b4 b5 b6 b7) \<longleftrightarrow> \<not> b7 \<and> b6 \<and> \<not> b5 \<and>
    (b4 \<and> (\<not> b3 \<or> \<not> b2 \<and> (\<not> b1 \<or> \<not> b0)) \<or> \<not> b4 \<and> (b0 \<or> b1 \<or> b2 \<or> b3))"
  by (cases b0; cases b1; cases b2; cases b3; cases b4; cases b5; cases b6; cases b7; simp add: is_upper_az_def)

lemma is_lower_az_code [code]:
  "is_lower_az (Char b0 b1 b2 b3 b4 b5 b6 b7) \<longleftrightarrow> \<not> b7 \<and> b6 \<and> b5 \<and>
    (b4 \<and> (\<not> b3 \<or> \<not> b2 \<and> (\<not> b1 \<or> \<not> b0)) \<or> \<not> b4 \<and> (b0 \<or> b1 \<or> b2 \<or> b3))"
  by (cases b0; cases b1; cases b2; cases b3; cases b4; cases b5; cases b6; cases b7; simp add: is_lower_az_def)

lemma is_alpha_code [code]:
  "is_alpha (Char b0 b1 b2 b3 b4 b5 b6 b7) \<longleftrightarrow>
    is_upper_az (Char b0 b1 b2 b3 b4 b5 b6 b7) \<or> is_lower_az (Char b0 b1 b2 b3 b4 b5 b6 b7) \<or>
    b7 \<and> (b6 \<and> (\<not> b4 \<or> b3 \<or> \<not> b2 \<or> \<not> b1 \<or> \<not> b0) \<or>
      \<not> b6 \<and> b5 \<and> (\<not> b4 \<and> b3 \<and> \<not> b2 \<and> b1 \<and> \<not> b0 \<or> b4 \<and> \<not> b3 \<and> b2 \<and> \<not> b1 \<and> b0 \<or> b4 \<and> b3 \<and> \<not> b2 \<and> b1 \<and> \<not> b0))"
  by (cases b0; cases b1; cases b2; cases b3; cases b4; cases b5; cases b6; cases b7; simp add: is_alpha_def is_upper_az_def is_lower_az_def)

lemma is_pydigit_code [code]:
  "is_pydigit (Char b0 b1 b2 b3 b4 b5 b6 b7) \<longleftrightarrow>
    is_digit (Char b0 b1 b2 b3 b4 b5 b6 b7) \<or>
    b7 \<and> \<not> b6 \<and> b5 \<and> b4 \<and> (\<not> b3 \<and> \<not> b2 \<and> b1 \<or> b3 \<and> \<not> b2 \<and> \<not> b1 \<and> b0)"
  by (cases b0; cases b1; cases b2; cases b3; cases b4; cases b5; cases b6; cases b7; simp add: is_pydigit_def is_digit_def)

lemma is_alnum_code [code]:
  "is_alnum (Char b0 b1 b2 b3 b4 b5 b6 b7) \<longleftrightarrow>
    is_alpha (Char b0 b1 b2 b3 b4 b5 b6 b7) \<or> is_pydigit (Char b0 b1 b2 b3 b4 b5 b6 b7) \<or>
    b7 \<and> \<not> b6 \<and> b5 \<and> b4 \<and> b3 \<and> b2 \<and> (\<not> b1 \<or> \<not> b0)"
  by (cases b0; cases b1; cases b2; cases b3; cases b4; cases b5; cases b6; cases b7; simp add: is_alnum_def is_alpha_def is_upper_az_def is_lower_az_def is_pydigit_def is_digit_def)

text \<open>The class \<open>\w\<close> of a \<open>str\<close> pattern.\<close>

definition is_word :: "char \<Rightarrow> bool" where
  "is_word c \<longleftrightarrow> is_alnum c \<or> c = CHR ''_''"

text \<open>\<open>str.isidentifier\<close> on one character, first or later.\<close>

definition is_id_start :: "char \<Rightarrow> bool" where
  "is_id_start c \<longleftrightarrow> is_alpha c \<or> c = CHR ''_''"

definition is_id_part :: "char \<Rightarrow> bool" where
  "is_id_part c \<longleftrightarrow> is_id_start c \<or> is_digit c \<or> code c = 183"

definition is_identifier :: "string \<Rightarrow> bool" where
  "is_identifier s \<longleftrightarrow> (case s of [] \<Rightarrow> False | c # cs \<Rightarrow> is_id_start c \<and> list_all is_id_part cs)"

text \<open>\<open>str.lower\<close> on one Latin-1 character.\<close>

definition lower_char :: "char \<Rightarrow> char" where
  "lower_char c = (let n = code c in
     if 65 \<le> n \<and> n \<le> 90 \<or> 192 \<le> n \<and> n \<le> 222 \<and> n \<noteq> 215 then char_of (n + 32) else c)"

definition lower :: "string \<Rightarrow> string" where
  "lower s = map lower_char s"

section \<open>Trimming\<close>

definition lstrip :: "string \<Rightarrow> string" where
  "lstrip s = dropWhile is_space s"

definition rstrip :: "string \<Rightarrow> string" where
  "rstrip s = rev (dropWhile is_space (rev s))"

definition strip :: "string \<Rightarrow> string" where
  "strip s = rstrip (lstrip s)"

definition lstrip_chars :: "char list \<Rightarrow> string \<Rightarrow> string" where
  "lstrip_chars cs s = dropWhile (\<lambda>c. c \<in> set cs) s"

definition rstrip_chars :: "char list \<Rightarrow> string \<Rightarrow> string" where
  "rstrip_chars cs s = rev (dropWhile (\<lambda>c. c \<in> set cs) (rev s))"

section \<open>Prefixes, suffixes and substrings\<close>

definition starts_with :: "string \<Rightarrow> string \<Rightarrow> bool" where
  "starts_with p s \<longleftrightarrow> take (length p) s = p"

definition ends_with :: "string \<Rightarrow> string \<Rightarrow> bool" where
  "ends_with p s \<longleftrightarrow> length p \<le> length s \<and> drop (length s - length p) s = p"

text \<open>\<open>s[:-n]\<close>.\<close>

definition drop_last :: "nat \<Rightarrow> string \<Rightarrow> string" where
  "drop_last n s = take (length s - n) s"

fun has_sub :: "string \<Rightarrow> string \<Rightarrow> bool" where
  "has_sub p [] \<longleftrightarrow> p = []"
| "has_sub p (c # cs) \<longleftrightarrow> starts_with p (c # cs) \<or> has_sub p cs"

section \<open>Splitting and joining\<close>

text \<open>\<open>s.split(c)\<close> for a one-character separator.\<close>

fun split_on :: "char \<Rightarrow> string \<Rightarrow> string list" where
  "split_on d [] = [[]]"
| "split_on d (c # cs) =
     (if c = d then [] # split_on d cs
      else (case split_on d cs of [] \<Rightarrow> [[c]] | p # ps \<Rightarrow> (c # p) # ps))"

text \<open>\<open>s.split(c, 1)\<close>: the part before the first separator and, if there is one, the rest.\<close>

definition split1 :: "char \<Rightarrow> string \<Rightarrow> string \<times> string option" where
  "split1 d s = (let h = takeWhile (\<lambda>c. c \<noteq> d) s; r = dropWhile (\<lambda>c. c \<noteq> d) s
     in (h, case r of [] \<Rightarrow> None | _ # t \<Rightarrow> Some t))"

text \<open>\<open>s.split(None, 1)\<close>: at most two pieces, split at the first run of whitespace.\<close>

definition split_ws1 :: "string \<Rightarrow> string list" where
  "split_ws1 s = (let t = lstrip s; h = takeWhile (\<lambda>c. \<not> is_space c) t;
       r = lstrip (dropWhile (\<lambda>c. \<not> is_space c) t)
     in if h = [] then [] else if r = [] then [h] else [h, r])"

text \<open>\<open>s.split()\<close>.\<close>

function split_ws :: "string \<Rightarrow> string list" where
  "split_ws s = (let t = lstrip s in
     if t = [] then []
     else takeWhile (\<lambda>c. \<not> is_space c) t # split_ws (dropWhile (\<lambda>c. \<not> is_space c) t))"
  by pat_completeness auto
termination
proof (relation "measure length", simp)
  fix s t assume t: "t = lstrip s" "t \<noteq> []"
  then obtain c cs where "t = c # cs" "\<not> is_space c"
    by (metis dropWhile_eq_Cons_conv lstrip_def neq_Nil_conv)
  moreover have "length t \<le> length s" using t by (simp add: lstrip_def length_dropWhile_le)
  moreover have "length (dropWhile (\<lambda>c. \<not> is_space c) cs) \<le> length cs"
    by (rule length_dropWhile_le)
  ultimately show "(dropWhile (\<lambda>c. \<not> is_space c) t, s) \<in> measure length" by auto
qed

declare split_ws.simps [simp del]

fun join :: "string \<Rightarrow> string list \<Rightarrow> string" where
  "join d [] = []"
| "join d [s] = s"
| "join d (s # t # ts) = s @ d @ join d (t # ts)"

text \<open>\<open>s.replace(c, t)\<close> for a one-character pattern.\<close>

definition replace_char :: "char \<Rightarrow> string \<Rightarrow> string \<Rightarrow> string" where
  "replace_char c t s = concat (map (\<lambda>x. if x = c then t else [x]) s)"

text \<open>\<open>s.replace(p, t)\<close> for a longer pattern, left to right without overlap.\<close>

function replace_all :: "string \<Rightarrow> string \<Rightarrow> string \<Rightarrow> string" where
  "replace_all p t s = (case s of [] \<Rightarrow> []
     | c # cs \<Rightarrow> if p \<noteq> [] \<and> starts_with p s then t @ replace_all p t (drop (length p) s)
                 else c # replace_all p t cs)"
  by pat_completeness auto
termination
  by (relation "measure (\<lambda>(p, t, s). length s)") (auto split: list.splits simp: Suc_diff_le)

declare replace_all.simps [simp del]

text \<open>The line boundaries of \<open>str.splitlines\<close> below 256.\<close>

definition is_line_break :: "char \<Rightarrow> bool" where
  "is_line_break c \<longleftrightarrow> (let n = code c in 10 \<le> n \<and> n \<le> 13 \<or> 28 \<le> n \<and> n \<le> 30 \<or> n = 133)"

fun splitlines_acc :: "string \<Rightarrow> string \<Rightarrow> string list" where
  "splitlines_acc acc [] = (if acc = [] then [] else [rev acc])"
| "splitlines_acc acc (c # cs) =
     (if \<not> is_line_break c then splitlines_acc (c # acc) cs
      else rev acc # (case cs of
          d # ds \<Rightarrow> if c = CHR 0x0D \<and> d = CHR 0x0A then splitlines_acc [] ds
                    else splitlines_acc [] cs
        | [] \<Rightarrow> splitlines_acc [] []))"

definition splitlines :: "string \<Rightarrow> string list" where
  "splitlines s = splitlines_acc [] s"

section \<open>Numbers\<close>

definition digit_val :: "char \<Rightarrow> nat option" where
  "digit_val c = (if is_digit c then Some (code c - 48)
     else if is_lower_az c then Some (code c - 87)
     else if is_upper_az c then Some (code c - 55) else None)"

text \<open>
  A run of digits with single underscores between them; the flag says whether an
  underscore may come next.
\<close>

fun digit_run :: "nat \<Rightarrow> bool \<Rightarrow> nat \<Rightarrow> string \<Rightarrow> nat option" where
  "digit_run b p n [] = (if p then Some n else None)"
| "digit_run b p n (c # cs) =
     (if c = CHR ''_'' then (if p then digit_run b False n cs else None)
      else case digit_val c of
          Some d \<Rightarrow> if d < b then digit_run b True (n * b + d) cs else None
        | None \<Rightarrow> None)"

definition split_sign :: "string \<Rightarrow> int \<times> string" where
  "split_sign s = (case s of [] \<Rightarrow> (1, s)
     | c # cs \<Rightarrow> if c = CHR ''-'' then (-1, cs) else if c = CHR ''+'' then (1, cs) else (1, s))"

text \<open>\<open>int(s)\<close>; \<open>None\<close> stands for the ValueError.\<close>

definition py_int10 :: "string \<Rightarrow> int option" where
  "py_int10 s = (case split_sign (strip s) of (sg, t) \<Rightarrow>
     map_option (\<lambda>n. sg * int n) (digit_run 10 False 0 t))"

definition prefixed_run :: "nat \<Rightarrow> string \<Rightarrow> nat option" where
  "prefixed_run b t = (if t = [] then None else digit_run b True 0 t)"

text \<open>\<open>int(s, 0)\<close>: the base comes from the prefix, and a decimal has no leading zero.\<close>

definition py_int0 :: "string \<Rightarrow> int option" where
  "py_int0 s = (case split_sign (strip s) of (sg, t) \<Rightarrow>
     map_option (\<lambda>n. sg * int n)
       (case t of
          c # x # r \<Rightarrow>
            if c = CHR ''0'' \<and> lower_char x = CHR ''x'' then prefixed_run 16 r
            else if c = CHR ''0'' \<and> lower_char x = CHR ''o'' then prefixed_run 8 r
            else if c = CHR ''0'' \<and> lower_char x = CHR ''b'' then prefixed_run 2 r
            else (case digit_run 10 False 0 t of
                None \<Rightarrow> None
              | Some n \<Rightarrow> if c = CHR ''0'' \<and> n \<noteq> 0 then None else Some n)
        | _ \<Rightarrow> digit_run 10 False 0 t))"

definition digit_char :: "nat \<Rightarrow> char" where
  "digit_char d = (if d < 10 then char_of (48 + d) else char_of (87 + d))"

fun show_base :: "nat \<Rightarrow> nat \<Rightarrow> string" where
  "show_base b n = (if b < 2 \<or> n < b then [digit_char n] else show_base b (n div b) @ [digit_char (n mod b)])"

declare show_base.simps [simp del]

definition show_nat :: "nat \<Rightarrow> string" where
  "show_nat n = show_base 10 n"

definition show_int :: "int \<Rightarrow> string" where
  "show_int i = (if i < 0 then CHR ''-'' # show_nat (nat (- i)) else show_nat (nat i))"

section \<open>Lemmas\<close>

lemma length_lstrip [simp]: "length (lstrip s) \<le> length s"
  by (simp add: lstrip_def length_dropWhile_le)

lemma length_rstrip [simp]: "length (rstrip s) \<le> length s"
  using length_dropWhile_le [of is_space "rev s"] by (simp add: rstrip_def)

lemma length_strip [simp]: "length (strip s) \<le> length s"
  using order_trans [OF length_rstrip length_lstrip] by (simp add: strip_def)

lemma rstrip_prefix: "\<exists>w. s = rstrip s @ w \<and> list_all is_space w"
  using takeWhile_dropWhile_id [of is_space "rev s"]
  by (intro exI [of _ "rev (takeWhile is_space (rev s))"])
     (auto simp: rstrip_def list_all_iff simp flip: rev_append dest: set_takeWhileD)

lemma lstrip_id: "s = [] \<or> \<not> is_space (hd s) \<Longrightarrow> lstrip s = s"
  by (cases s) (auto simp: lstrip_def)

lemma rstrip_id: "s = [] \<or> \<not> is_space (last s) \<Longrightarrow> rstrip s = s"
  by (cases s rule: rev_cases) (auto simp: rstrip_def)

lemma lstrip_hd: "lstrip s = [] \<or> \<not> is_space (hd (lstrip s))"
  using hd_dropWhile [of is_space s] by (auto simp: lstrip_def)

lemma rstrip_last: "rstrip s = [] \<or> \<not> is_space (last (rstrip s))"
  using hd_dropWhile [of is_space "rev s"] by (auto simp: rstrip_def last_rev)

lemma strip_ends:
  "strip s = [] \<or> \<not> is_space (hd (strip s)) \<and> \<not> is_space (last (strip s))"
proof -
  obtain w where w: "lstrip s = strip s @ w" using rstrip_prefix [of "lstrip s"] by (auto simp: strip_def)
  show ?thesis
  proof (cases "strip s = []")
    case False
    with w have "hd (strip s) = hd (lstrip s)" "lstrip s \<noteq> []" by (metis hd_append2, simp)
    with lstrip_hd [of s] rstrip_last [of "lstrip s"] False show ?thesis by (simp add: strip_def)
  qed simp
qed

lemma strip_idem [simp]: "strip (strip s) = strip s"
  using strip_ends [of s] by (metis lstrip_id rstrip_id strip_def)

lemma strip_id: "s \<noteq> [] \<Longrightarrow> \<not> is_space (hd s) \<Longrightarrow> \<not> is_space (last s) \<Longrightarrow> strip s = s"
  by (simp add: strip_def lstrip_id rstrip_id)

lemma lstrip_append: "list_all is_space w \<Longrightarrow> lstrip (w @ s) = lstrip s"
  by (simp add: lstrip_def list_all_iff)

lemma strip_indented:
  "list_all is_space w \<Longrightarrow> s \<noteq> [] \<Longrightarrow> \<not> is_space (hd s) \<Longrightarrow> \<not> is_space (last s) \<Longrightarrow> strip (w @ s) = s"
  by (simp add: strip_def lstrip_append lstrip_id rstrip_id)

text \<open>A word: a non-empty text without whitespace.\<close>

definition word_text :: "string \<Rightarrow> bool" where
  "word_text s \<longleftrightarrow> s \<noteq> [] \<and> list_all (\<lambda>c. \<not> is_space c) s"

lemma word_text_ends: "word_text s \<Longrightarrow> s \<noteq> [] \<and> \<not> is_space (hd s) \<and> \<not> is_space (last s)"
  by (auto simp: word_text_def list_all_iff)

lemma split_ws1_word: "word_text s \<Longrightarrow> split_ws1 s = [s]"
  using word_text_ends [of s]
  by (auto simp: split_ws1_def lstrip_id word_text_def list_all_iff Let_def lstrip_def
      takeWhile_eq_all_conv [THEN iffD2] dropWhile_eq_Nil_conv [THEN iffD2])

lemma split_ws1_two:
  assumes "word_text s" and "t \<noteq> []" and "\<not> is_space (hd t)"
  shows "split_ws1 (s @ '' '' @ t) = [s, t]"
proof -
  have sp: "is_space (CHR '' '')" by (simp add: is_space_def)
  have n: "\<forall>c \<in> set s. \<not> is_space c" using assms(1) by (simp add: word_text_def list_all_iff)
  have l: "lstrip (s @ '' '' @ t) = s @ '' '' @ t"
    using word_text_ends [OF assms(1)] by (intro lstrip_id) simp
  have "takeWhile (\<lambda>c. \<not> is_space c) (s @ '' '' @ t) = s"
    "dropWhile (\<lambda>c. \<not> is_space c) (s @ '' '' @ t) = '' '' @ t"
    using n sp by (simp_all add: takeWhile_append2 dropWhile_append2)
  moreover have "lstrip ('' '' @ t) = t" using sp assms(2,3) lstrip_append [of "'' ''" t] by (simp add: lstrip_id)
  ultimately show ?thesis using word_text_ends [OF assms(1)] assms(2) unfolding split_ws1_def Let_def l by simp
qed

lemma starts_with_iff: "starts_with p s \<longleftrightarrow> (\<exists>t. s = p @ t)"
proof
  assume "starts_with p s"
  then have "s = p @ drop (length p) s"
    by (metis append_take_drop_id starts_with_def)
  then show "\<exists>t. s = p @ t" by blast
qed (auto simp: starts_with_def)

lemma ends_with_iff: "ends_with p s \<longleftrightarrow> (\<exists>t. s = t @ p)"
proof
  assume "ends_with p s"
  then have "s = take (length s - length p) s @ p"
    by (metis append_take_drop_id ends_with_def)
  then show "\<exists>t. s = t @ p" by blast
qed (auto simp: ends_with_def)

lemma starts_with_Nil [simp]: "starts_with [] s"
  by (simp add: starts_with_def)

lemma starts_with_Cons [simp]:
  "starts_with (c # p) s \<longleftrightarrow> (case s of [] \<Rightarrow> False | d # t \<Rightarrow> c = d \<and> starts_with p t)"
  by (auto simp: starts_with_def split: list.splits)

lemma split_on_not_Nil [simp]: "split_on d s \<noteq> []"
  by (induction s) (auto split: list.splits)

lemma split_on_free: "p \<in> set (split_on d s) \<Longrightarrow> d \<notin> set p"
  by (induction s arbitrary: p) (auto split: if_splits list.splits)

lemma join_split_on: "join [d] (split_on d s) = s"
proof (induction s)
  case (Cons c cs)
  obtain p ps where "split_on d cs = p # ps"
    by (meson neq_Nil_conv split_on_not_Nil)
  with Cons show ?case by (cases ps) auto
qed simp

lemma split_on_id: "d \<notin> set s \<Longrightarrow> split_on d s = [s]"
  by (induction s) auto

lemma split_on_append:
  "d \<notin> set s \<Longrightarrow> split_on d (s @ d # t) = s # split_on d t"
  by (induction s) (auto split: list.splits)

lemma split_on_join:
  "xs \<noteq> [] \<Longrightarrow> list_all (\<lambda>x. d \<notin> set x) xs \<Longrightarrow> split_on d (join [d] xs) = xs"
  by (induction "[d]" xs rule: join.induct) (auto simp: split_on_append split_on_id)

lemma split1_join:
  "split1 d s = (h, r) \<Longrightarrow> s = h @ (case r of None \<Rightarrow> [] | Some t \<Rightarrow> d # t)"
  using takeWhile_dropWhile_id [of "\<lambda>c. c \<noteq> d" s]
  by (auto simp: split1_def Let_def split: list.splits dest!: dropWhile_eq_Cons_conv [THEN iffD1])

lemma split_sign_length: "split_sign s = (g, t) \<Longrightarrow> length t \<le> length s"
  by (auto simp: split_sign_def split: list.splits if_splits)

lemma show_base_not_Nil [simp]: "show_base b n \<noteq> []"
  by (subst show_base.simps) simp

lemma digit_val_char: "d < 36 \<Longrightarrow> digit_val (digit_char d) = Some d"
  by (auto simp: digit_val_def digit_char_def is_digit_def is_lower_az_def is_upper_az_def)

lemma digit_char_not_underscore: "d < 36 \<Longrightarrow> digit_char d \<noteq> CHR ''_''"
proof
  assume "d < 36" "digit_char d = CHR ''_''"
  then have "digit_val (CHR ''_'') = Some d" using digit_val_char by metis
  then show False by (simp add: digit_val_def is_digit_def is_lower_az_def is_upper_az_def)
qed

lemma digit_run_append:
  "digit_run b p n s = Some m \<Longrightarrow> digit_run b p n (s @ t) = digit_run b True m t"
  by (induction b p n s rule: digit_run.induct)
     (auto split: if_splits option.splits)

lemma digit_run_show_base:
  assumes "2 \<le> b" "b \<le> 36"
  shows "digit_run b p 0 (show_base b n) = Some n"
proof (induction n arbitrary: p rule: less_induct)
  case (less n)
  show ?case
  proof (cases "n < b")
    case True
    with assms show ?thesis
      by (simp add: show_base.simps [of b n] digit_val_char digit_char_not_underscore)
  next
    case False
    with assms have lt: "n div b < n" by simp
    have m: "n mod b < b" using assms by simp
    then have m': "n mod b < 36" using assms by linarith
    show ?thesis
      using False assms m m' digit_run_append [OF less [OF lt]]
      by (simp add: show_base.simps [of b n] digit_val_char digit_char_not_underscore)
  qed
qed

lemma show_base_digits: "list_all is_digit (show_base 10 n)"
proof (induction n rule: less_induct)
  case (less n)
  have d: "is_digit (digit_char k)" if "k < 10" for k using that by (auto simp: is_digit_def digit_char_def)
  show ?case
  proof (cases "n < 10")
    case True
    then show ?thesis by (subst show_base.simps) (simp add: d)
  next
    case False
    then have "list_all is_digit (show_base 10 (n div 10))" by (intro less) simp
    with False show ?thesis by (subst show_base.simps) (simp add: d)
  qed
qed

end
