(* ===== verification/PyRegex.thy ===== *)
theory PyRegex
  imports PyText
begin

text \<open>
  The part of Python's \<open>re\<close> module the scripts use: a pattern is a value of \<open>rx\<close>, and
  matching is backtracking search. \<open>run r st\<close> lists every way \<open>r\<close> can match at the
  state \<open>st\<close>, in the order the backtracking matcher tries them (greedy alternatives first),
  so the match Python returns is the first one.
\<close>

section \<open>Patterns and match states\<close>

datatype rx =
    Cls "char \<Rightarrow> bool"          \<comment> \<open>one character of a class\<close>
  | Eps
  | Seq rx rx
  | Alt rx rx
  | Star bool rx                 \<comment> \<open>zero or more, greedy or not\<close>
  | Grp nat rx                   \<comment> \<open>a capturing group\<close>
  | Bol | Eol | WordB            \<comment> \<open>\<open>^\<close>, \<open>$\<close> and the word boundary\<close>
  | NotBehind "char \<Rightarrow> bool"     \<comment> \<open>one-character negative look-behind\<close>
  | BolM | EolM                  \<comment> \<open>\<open>^\<close> and \<open>$\<close> under \<open>re.M\<close>\<close>

text \<open>
  A match state is the text already consumed (reversed), the text left, and the groups
  captured so far, the latest first.
\<close>

record mstate =
  behind :: string
  ahead :: string
  caps :: "(nat \<times> string) list"

definition at_word :: "mstate \<Rightarrow> bool" where
  "at_word st \<longleftrightarrow>
     (case behind st of [] \<Rightarrow> False | c # _ \<Rightarrow> is_word c) \<noteq>
     (case ahead st of [] \<Rightarrow> False | c # _ \<Rightarrow> is_word c)"

definition at_end :: "mstate \<Rightarrow> bool" where
  "at_end st \<longleftrightarrow> ahead st = [] \<or> ahead st = [CHR 0x0A]"

text \<open>Repetition: each further iteration must consume something.\<close>

fun repeat :: "nat \<Rightarrow> bool \<Rightarrow> (mstate \<Rightarrow> mstate list) \<Rightarrow> mstate \<Rightarrow> mstate list" where
  "repeat 0 g f st = [st]"
| "repeat (Suc n) g f st =
     (let more = concat (map (repeat n g f)
                   (filter (\<lambda>t. length (ahead t) < length (ahead st)) (f st)))
      in if g then more @ [st] else st # more)"

fun run :: "rx \<Rightarrow> mstate \<Rightarrow> mstate list" where
  "run (Cls p) st = (case ahead st of [] \<Rightarrow> []
     | c # cs \<Rightarrow> if p c then [st\<lparr>behind := c # behind st, ahead := cs\<rparr>] else [])"
| "run Eps st = [st]"
| "run (Seq r s) st = concat (map (run s) (run r st))"
| "run (Alt r s) st = run r st @ run s st"
| "run (Star g r) st = repeat (length (ahead st)) g (run r) st"
| "run (Grp n r) st =
     map (\<lambda>t. t\<lparr>caps := (n, take (length (ahead st) - length (ahead t)) (ahead st)) # caps t\<rparr>)
       (run r st)"
| "run Bol st = (if behind st = [] then [st] else [])"
| "run Eol st = (if at_end st then [st] else [])"
| "run WordB st = (if at_word st then [st] else [])"
| "run (NotBehind p) st =
     (case behind st of [] \<Rightarrow> [st] | c # _ \<Rightarrow> if p c then [] else [st])"
| "run BolM st = (case behind st of [] \<Rightarrow> [st] | c # _ \<Rightarrow> if c = CHR 0x0A then [st] else [])"
| "run EolM st = (case ahead st of [] \<Rightarrow> [st] | c # _ \<Rightarrow> if c = CHR 0x0A then [st] else [])"

section \<open>Derived patterns\<close>

definition Chr :: "char \<Rightarrow> rx" where
  "Chr c = Cls (\<lambda>x. x = c)"

fun Lit :: "string \<Rightarrow> rx" where
  "Lit [] = Eps"
| "Lit (c # cs) = Seq (Chr c) (Lit cs)"

fun Seqs :: "rx list \<Rightarrow> rx" where
  "Seqs [] = Eps"
| "Seqs [r] = r"
| "Seqs (r # s # rs) = Seq r (Seqs (s # rs))"

fun Alts :: "rx list \<Rightarrow> rx" where
  "Alts [] = Cls (\<lambda>_. False)"
| "Alts [r] = r"
| "Alts (r # s # rs) = Alt r (Alts (s # rs))"

definition Opt :: "rx \<Rightarrow> rx" where
  "Opt r = Alt r Eps"

definition Times :: "nat \<Rightarrow> rx \<Rightarrow> rx" where
  "Times n r = Seqs (replicate n r)"

definition Plus :: "rx \<Rightarrow> rx" where
  "Plus r = Seq r (Star True r)"

abbreviation Many :: "rx \<Rightarrow> rx" where
  "Many r \<equiv> Star True r"

definition Spaces0 :: rx where "Spaces0 = Many (Cls is_space)"
definition Spaces1 :: rx where "Spaces1 = Plus (Cls is_space)"

text \<open>The dot: any character but a newline.\<close>

definition Dot :: rx where "Dot = Cls (\<lambda>c. c \<noteq> CHR 0x0A)"

definition is_ident_start :: "char \<Rightarrow> bool" where
  "is_ident_start c \<longleftrightarrow> is_upper_az c \<or> is_lower_az c \<or> c = CHR ''_''"

definition is_ident_part :: "char \<Rightarrow> bool" where
  "is_ident_part c \<longleftrightarrow> is_ident_start c \<or> is_digit c"

text \<open>\<open>[A-Za-z_][A-Za-z0-9_]*\<close>\<close>

definition Ident :: rx where
  "Ident = Seq (Cls is_ident_start) (Many (Cls is_ident_part))"

section \<open>Matching functions\<close>

definition start :: "string \<Rightarrow> mstate" where
  "start s = \<lparr>behind = [], ahead = s, caps = []\<rparr>"

definition first_match :: "mstate list \<Rightarrow> mstate option" where
  "first_match ts = (case ts of [] \<Rightarrow> None | t # _ \<Rightarrow> Some t)"

text \<open>\<open>re.match\<close> and \<open>re.fullmatch\<close>.\<close>

definition re_match :: "rx \<Rightarrow> string \<Rightarrow> mstate option" where
  "re_match r s = first_match (run r (start s))"

definition re_fullmatch :: "rx \<Rightarrow> string \<Rightarrow> mstate option" where
  "re_fullmatch r s = first_match (filter (\<lambda>t. ahead t = []) (run r (start s)))"

definition group :: "mstate \<Rightarrow> nat \<Rightarrow> string option" where
  "group t n = map_of (caps t) n"

text \<open>\<open>m.group(n) or d\<close>: an unset or empty group gives the default.\<close>

definition group_or :: "mstate \<Rightarrow> nat \<Rightarrow> string \<Rightarrow> string" where
  "group_or t n d = (case group t n of None \<Rightarrow> d | Some s \<Rightarrow> if s = [] then d else s)"

text \<open>\<open>re.search\<close> from a state: the leftmost match, as the text before it and the match state.\<close>

fun search_from :: "rx \<Rightarrow> string \<Rightarrow> string \<Rightarrow> (string \<times> mstate) option" where
  "search_from r b [] =
     map_option (\<lambda>t. (b, t)) (first_match (run r \<lparr>behind = b, ahead = [], caps = []\<rparr>))"
| "search_from r b (c # cs) =
     (case first_match (run r \<lparr>behind = b, ahead = c # cs, caps = []\<rparr>) of
        Some t \<Rightarrow> Some (b, t)
      | None \<Rightarrow> search_from r (c # b) cs)"

definition re_search :: "rx \<Rightarrow> string \<Rightarrow> mstate option" where
  "re_search r s = map_option snd (search_from r [] s)"

section \<open>The matcher consumes a prefix\<close>

definition consumes :: "mstate \<Rightarrow> mstate \<Rightarrow> bool" where
  "consumes st t \<longleftrightarrow> rev (behind t) @ ahead t = rev (behind st) @ ahead st \<and>
     length (ahead t) \<le> length (ahead st)"

lemma consumes_refl [simp]: "consumes st st"
  by (simp add: consumes_def)

lemma consumes_trans: "consumes a b \<Longrightarrow> consumes b c \<Longrightarrow> consumes a c"
  by (auto simp: consumes_def)

lemma repeat_consumes:
  assumes "\<And>a t. t \<in> set (f a) \<Longrightarrow> consumes a t"
  shows "t \<in> set (repeat n g f st) \<Longrightarrow> consumes st t"
proof (induction n arbitrary: st)
  case (Suc n)
  then show ?case
    using assms by (auto simp: Let_def split: if_splits dest!: Suc.IH intro: consumes_trans)
qed simp

lemma run_consumes: "t \<in> set (run r st) \<Longrightarrow> consumes st t"
proof (induction r arbitrary: st t)
  case (Cls p)
  then show ?case by (cases "ahead st") (auto simp: consumes_def split: if_splits)
next
  case (Seq r s)
  from Seq.prems obtain u where "u \<in> set (run r st)" "t \<in> set (run s u)" by auto
  with Seq.IH show ?case by (blast intro: consumes_trans)
next
  case (Star g r)
  then show ?case using repeat_consumes [of "run r"] by auto
qed (auto simp: consumes_def split: list.splits if_splits)

lemma first_match_Some: "first_match ts = Some t \<Longrightarrow> t \<in> set ts"
  by (auto simp: first_match_def split: list.splits)

lemma first_match_None: "first_match ts = None \<longleftrightarrow> ts = []"
  by (auto simp: first_match_def split: list.splits)

lemma re_match_split: "re_match r s = Some t \<Longrightarrow> s = rev (behind t) @ ahead t"
  by (auto simp: re_match_def start_def consumes_def dest!: first_match_Some run_consumes)

lemma re_fullmatch_split: "re_fullmatch r s = Some t \<Longrightarrow> s = rev (behind t) \<and> ahead t = []"
  by (auto simp: re_fullmatch_def start_def consumes_def dest!: first_match_Some run_consumes)

section \<open>All matches of a pattern\<close>

text \<open>
  \<open>finditer\<close> and \<open>sub\<close>: matches are found left to right without overlap. After an empty
  match the next one may not be empty at the same place. Each match comes with the text
  between it and the one before; the last component is the text after the last match.
\<close>

fun find_from :: "rx \<Rightarrow> bool \<Rightarrow> string \<Rightarrow> string \<Rightarrow> (string \<times> mstate) option" where
  "find_from r must b [] = (if must then None
     else map_option (\<lambda>t. ([], t)) (first_match (run r \<lparr>behind = b, ahead = [], caps = []\<rparr>)))"
| "find_from r must b (c # cs) =
     (case first_match (filter (\<lambda>t. must \<longrightarrow> length (ahead t) < length (c # cs))
          (run r \<lparr>behind = b, ahead = c # cs, caps = []\<rparr>)) of
        Some t \<Rightarrow> Some ([], t)
      | None \<Rightarrow> map_option (\<lambda>(gap, t). (c # gap, t)) (find_from r False (c # b) cs))"

lemma find_from_sound:
  "find_from r must b s = Some (gap, t) \<Longrightarrow>
     rev b @ s = rev (behind t) @ ahead t \<and> (\<exists>w. s = gap @ w @ ahead t) \<and>
     (must \<longrightarrow> length (ahead t) < length s)"
proof (induction s arbitrary: must b gap)
  case Nil
  then show ?case
    by (auto dest!: first_match_Some run_consumes simp: consumes_def split: if_splits)
next
  case (Cons c cs)
  show ?case
  proof (cases "first_match (filter (\<lambda>t. must \<longrightarrow> length (ahead t) < length (c # cs))
          (run r \<lparr>behind = b, ahead = c # cs, caps = []\<rparr>))")
    case None
    with Cons.prems obtain gap' where g: "gap = c # gap'" "find_from r False (c # b) cs = Some (gap', t)"
      by auto
    from Cons.IH [OF g(2)] obtain w where "rev (c # b) @ cs = rev (behind t) @ ahead t" "cs = gap' @ w @ ahead t"
      by blast
    with g(1) show ?thesis by auto
  next
    case (Some u)
    with Cons.prems have gu: "gap = []" "t = u" by auto
    from Some have "u \<in> set (run r \<lparr>behind = b, ahead = c # cs, caps = []\<rparr>)"
      and m: "must \<longrightarrow> length (ahead u) < length (c # cs)"
      by (auto dest!: first_match_Some)
    from run_consumes [OF this(1)] have co: "rev (behind u) @ ahead u = rev b @ c # cs" "length (ahead u) \<le> length (c # cs)"
      by (auto simp: consumes_def)
    from co(1) have "(\<exists>w. w @ ahead u = c # cs) \<or> (\<exists>w. ahead u = w @ c # cs)"
      by (auto simp: append_eq_append_conv2)
    with co(2) have "\<exists>w. c # cs = w @ ahead u" by (auto intro: sym)
    with gu m co(1) show ?thesis by auto
  qed
qed

function rx_iter :: "rx \<Rightarrow> bool \<Rightarrow> string \<Rightarrow> string \<Rightarrow> (string \<times> mstate) list \<times> string" where
  "rx_iter r must b s = (case find_from r must b s of
     None \<Rightarrow> ([], s)
   | Some (gap, t) \<Rightarrow>
       (case rx_iter r (length s = length gap + length (ahead t)) (behind t) (ahead t) of
          (ms, tail) \<Rightarrow> ((gap, t) # ms, tail)))"
  by pat_completeness auto
termination
proof (relation "measure (\<lambda>(r, must, b, s). 2 * length s + (if must then 0 else 1))", simp, clarify)
  fix r must b s gap t
  assume "find_from r must b s = Some (gap, t)"
  from find_from_sound [OF this] obtain w where "s = gap @ w @ ahead t" "must \<longrightarrow> length (ahead t) < length s"
    by blast
  then show "((r, length s = length gap + length (ahead t), behind t, ahead t), r, must, b, s)
      \<in> measure (\<lambda>(r, must, b, s). 2 * length s + (if must then 0 else 1))"
    by (cases w) auto
qed

declare rx_iter.simps [simp del]

definition re_finditer :: "rx \<Rightarrow> string \<Rightarrow> mstate list" where
  "re_finditer r s = map snd (fst (rx_iter r False [] s))"

definition re_sub :: "rx \<Rightarrow> (mstate \<Rightarrow> string) \<Rightarrow> string \<Rightarrow> string" where
  "re_sub r f s = (case rx_iter r False [] s of
     (ms, tail) \<Rightarrow> concat (map (\<lambda>(gap, t). gap @ f t) ms) @ tail)"

lemma re_sub_id: "find_from r False [] s = None \<Longrightarrow> re_sub r f s = s"
  by (simp add: re_sub_def rx_iter.simps [of r False])

section \<open>Classes repeated\<close>

lemma repeat_cls_ends:
  assumes "list_all p w" and "length w \<le> n"
  shows "st\<lparr>behind := rev w @ behind st, ahead := u\<rparr>
           \<in> set (repeat n g (run (Cls p)) (st\<lparr>ahead := w @ u\<rparr>))"
  using assms
proof (induction n arbitrary: st w)
  case 0
  then show ?case by (cases st) simp
next
  case (Suc n)
  show ?case
  proof (cases w)
    case Nil
    then show ?thesis by (cases st) (simp add: Let_def)
  next
    case (Cons c v)
    with Suc.prems have "list_all p v" "length v \<le> n" "p c" by auto
    from Suc.IH [OF this(1,2), of "st\<lparr>behind := c # behind st\<rparr>"] Cons \<open>p c\<close>
    show ?thesis by (cases st) (auto simp: Let_def)
  qed
qed

lemma run_Cls_conv:
  "t \<in> set (run (Cls p) st) \<longleftrightarrow>
     (\<exists>c cs. ahead st = c # cs \<and> p c \<and> t = st\<lparr>behind := c # behind st, ahead := cs\<rparr>)"
  by (cases "ahead st") auto

lemma repeat_SucE:
  assumes "t \<in> set (repeat (Suc n) g f st)"
  obtains "t = st" | u where "u \<in> set (f st)" "t \<in> set (repeat n g f u)"
  using assms by (auto simp: Let_def split: if_splits)

lemma repeat_cls_all:
  "t \<in> set (repeat n g (run (Cls p)) st) \<Longrightarrow>
     \<exists>w. list_all p w \<and> ahead st = w @ ahead t \<and> behind t = rev w @ behind st \<and> caps t = caps st"
proof (induction n arbitrary: st)
  case 0
  then show ?case by (intro exI [of _ "[]"]) simp
next
  case (Suc n)
  from Suc.prems show ?case
  proof (rule repeat_SucE)
    assume "t = st"
    then show ?thesis by (intro exI [of _ "[]"]) simp
  next
    fix u assume u: "u \<in> set (run (Cls p) st)" and t: "t \<in> set (repeat n g (run (Cls p)) u)"
    from u obtain c cs where c: "ahead st = c # cs" "p c"
      "u = st\<lparr>behind := c # behind st, ahead := cs\<rparr>"
      by (auto simp only: run_Cls_conv)
    from Suc.IH [OF t] obtain w where "list_all p w" "cs = w @ ahead t"
      "behind t = rev w @ c # behind st" "caps t = caps st" using c by auto
    with c show ?thesis by (intro exI [of _ "c # w"]) simp
  qed
qed

lemma fullmatch_cls_many:
  "(\<exists>t. re_fullmatch (Seq (Cls p) (Many (Cls q))) s = Some t) \<longleftrightarrow> (case s of [] \<Rightarrow> False | c # cs \<Rightarrow> p c \<and> list_all q cs)"
proof
  assume "\<exists>t. re_fullmatch (Seq (Cls p) (Many (Cls q))) s = Some t"
  then obtain t where "t \<in> set (run (Seq (Cls p) (Many (Cls q))) (start s))" "ahead t = []"
    by (auto simp: re_fullmatch_def simp del: run.simps dest!: first_match_Some)
  then show "case s of [] \<Rightarrow> False | c # cs \<Rightarrow> p c \<and> list_all q cs"
    by (auto simp: start_def split: list.splits if_splits dest!: repeat_cls_all)
next
  assume "case s of [] \<Rightarrow> False | c # cs \<Rightarrow> p c \<and> list_all q cs"
  then obtain c cs where s: "s = c # cs" "p c" "list_all q cs"
    by (auto split: list.splits)
  let ?t = "\<lparr>behind = rev cs @ [c], ahead = [], caps = []\<rparr>" and ?r = "Seq (Cls p) (Many (Cls q))"
  have "?t \<in> set (run ?r (start s))"
    using s repeat_cls_ends [OF s(3), where n = "length cs" and u = "[]" and g = True
        and st = "\<lparr>behind = [c], ahead = cs, caps = []\<rparr>"]
    by (simp add: start_def)
  then have "?t \<in> set (filter (\<lambda>t. ahead t = []) (run ?r (start s)))" by simp
  then have "filter (\<lambda>t. ahead t = []) (run ?r (start s)) \<noteq> []" by (metis empty_iff empty_set)
  then show "\<exists>t. re_fullmatch ?r s = Some t"
    by (auto simp: re_fullmatch_def first_match_def split: list.splits)
qed

text \<open>\<open>re.fullmatch(r"[A-Za-z_][A-Za-z0-9_]*", s)\<close> decides the ASCII identifiers.\<close>

definition ascii_ident :: "string \<Rightarrow> bool" where
  "ascii_ident s \<longleftrightarrow> (case s of [] \<Rightarrow> False | c # cs \<Rightarrow> is_ident_start c \<and> list_all is_ident_part cs)"

lemma fullmatch_Ident: "(\<exists>t. re_fullmatch Ident s = Some t) \<longleftrightarrow> ascii_ident s"
  unfolding Ident_def fullmatch_cls_many ascii_ident_def ..

section \<open>Captured groups\<close>

fun groups :: "rx \<Rightarrow> (nat \<times> rx) list" where
  "groups (Grp n r) = (n, r) # groups r"
| "groups (Seq r s) = groups r @ groups s"
| "groups (Alt r s) = groups r @ groups s"
| "groups (Star g r) = groups r"
| "groups _ = []"

definition consumed :: "mstate \<Rightarrow> mstate \<Rightarrow> string" where
  "consumed st t = take (length (ahead st) - length (ahead t)) (ahead st)"

lemma repeat_invariant:
  assumes "\<And>u v. I u \<Longrightarrow> v \<in> set (f u) \<Longrightarrow> I v"
  shows "I st \<Longrightarrow> t \<in> set (repeat n g f st) \<Longrightarrow> I t"
proof (induction n arbitrary: st)
  case (Suc n)
  from Suc.prems(2) show ?case
    by (rule repeat_SucE) (use Suc assms in blast)+
qed simp

text \<open>What every text that a group can match satisfies, its capture satisfies.\<close>

lemma run_captures:
  assumes "\<And>r' u v. (k, r') \<in> set (groups r) \<Longrightarrow> v \<in> set (run r' u) \<Longrightarrow> P (consumed u v)"
    and "\<forall>s. (k, s) \<in> set (caps st) \<longrightarrow> P s" and "t \<in> set (run r st)"
  shows "\<forall>s. (k, s) \<in> set (caps t) \<longrightarrow> P s"
  using assms
proof (induction r arbitrary: st t)
  case (Seq r1 r2)
  from Seq.prems(3) obtain u where u: "u \<in> set (run r1 st)" "t \<in> set (run r2 u)" by auto
  have "\<forall>s. (k, s) \<in> set (caps u) \<longrightarrow> P s"
    by (rule Seq.IH(1) [OF _ Seq.prems(2) u(1)]) (use Seq.prems(1) in auto)
  then show ?case by (rule Seq.IH(2) [OF _ _ u(2), rotated]) (use Seq.prems(1) in auto)
next
  case (Alt r1 r2)
  from Alt.prems(3) have "t \<in> set (run r1 st) \<or> t \<in> set (run r2 st)" by simp
  then show ?case
  proof
    assume t: "t \<in> set (run r1 st)"
    show ?thesis by (rule Alt.IH(1) [OF _ Alt.prems(2) t]) (use Alt.prems(1) in auto)
  next
    assume t: "t \<in> set (run r2 st)"
    show ?thesis by (rule Alt.IH(2) [OF _ Alt.prems(2) t]) (use Alt.prems(1) in auto)
  qed
next
  case (Star g r)
  have step: "\<forall>s. (k, s) \<in> set (caps v) \<longrightarrow> P s" if "\<forall>s. (k, s) \<in> set (caps u) \<longrightarrow> P s" "v \<in> set (run r u)" for u v
    by (rule Star.IH [OF _ that]) (use Star.prems(1) in auto)
  from repeat_invariant [of "\<lambda>u. \<forall>s. (k, s) \<in> set (caps u) \<longrightarrow> P s" "run r", OF step Star.prems(2)] Star.prems(3)
  show ?case by simp
next
  case (Grp n r)
  from Grp.prems(3) obtain u where u: "u \<in> set (run r st)" "caps t = (n, consumed st u) # caps u"
    by (auto simp: consumed_def)
  have "\<forall>s. (k, s) \<in> set (caps u) \<longrightarrow> P s"
    by (rule Grp.IH [OF _ Grp.prems(2) u(1)]) (use Grp.prems(1) in auto)
  moreover have "n = k \<Longrightarrow> P (consumed st u)" using Grp.prems(1) [of r u st] u(1) by simp
  ultimately show ?case using u(2) by auto
qed (auto split: list.splits if_splits)

text \<open>Groups that every match sets.\<close>

fun must_set :: "nat \<Rightarrow> rx \<Rightarrow> bool" where
  "must_set k (Grp n r) \<longleftrightarrow> n = k \<or> must_set k r"
| "must_set k (Seq r s) \<longleftrightarrow> must_set k r \<or> must_set k s"
| "must_set k (Alt r s) \<longleftrightarrow> must_set k r \<and> must_set k s"
| "must_set k _ \<longleftrightarrow> False"

lemma run_keeps_caps: "t \<in> set (run r st) \<Longrightarrow> set (caps st) \<subseteq> set (caps t)"
proof (induction r arbitrary: st t)
  case (Star g r)
  from repeat_invariant [of "\<lambda>u. set (caps st) \<subseteq> set (caps u)" "run r" st] Star show ?case by fastforce
next
  case (Seq r1 r2)
  then show ?case by fastforce
qed (auto split: list.splits if_splits, blast+)

lemma run_must_set: "must_set k r \<Longrightarrow> t \<in> set (run r st) \<Longrightarrow> \<exists>s. (k, s) \<in> set (caps t)"
proof (induction r arbitrary: st t)
  case (Seq r1 r2)
  from Seq.prems(2) obtain u where u: "u \<in> set (run r1 st)" "t \<in> set (run r2 u)" by auto
  from Seq.prems(1) consider "must_set k r1" | "must_set k r2" by auto
  then show ?case
  proof cases
    case 1
    with Seq.IH(1) u(1) obtain s where "(k, s) \<in> set (caps u)" by blast
    with run_keeps_caps [OF u(2)] show ?thesis by blast
  next
    case 2
    with Seq.IH(2) u(2) show ?thesis by blast
  qed
next
  case (Alt r1 r2)
  then show ?case by auto
next
  case (Grp n r)
  then show ?case by fastforce
qed auto

lemma match_group:
  assumes "re_match r s = Some m" and "\<And>r' u v. (k, r') \<in> set (groups r) \<Longrightarrow> v \<in> set (run r' u) \<Longrightarrow> P (consumed u v)"
  shows "group m k = Some x \<Longrightarrow> P x"
proof -
  from assms(1) have "m \<in> set (run r (start s))" by (auto simp: re_match_def dest: first_match_Some)
  from run_captures [of k r P, OF assms(2) _ this] have "\<forall>s. (k, s) \<in> set (caps m) \<longrightarrow> P s" by (simp add: start_def)
  then show "group m k = Some x \<Longrightarrow> P x" by (auto simp: group_def dest: map_of_SomeD)
qed

lemma match_sets_group:
  assumes "re_match r s = Some m" and "must_set k r"
  shows "group m k \<noteq> None"
proof -
  from assms(1) have "m \<in> set (run r (start s))" by (auto simp: re_match_def dest: first_match_Some)
  from run_must_set [OF assms(2) this] show ?thesis by (auto simp: group_def map_of_eq_None_iff rev_image_eqI)
qed

lemma consumed_cls_many:
  assumes "t \<in> set (run (Seq (Cls p) (Many (Cls q))) st)"
  shows "case consumed st t of [] \<Rightarrow> False | c # cs \<Rightarrow> p c \<and> list_all q cs"
proof -
  from assms obtain c cs where c: "ahead st = c # cs" by (cases "ahead st") auto
  let ?u = "st\<lparr>behind := c # behind st, ahead := cs\<rparr>"
  from assms c have u: "p c" "t \<in> set (repeat (length cs) True (run (Cls q)) ?u)" by (auto split: if_splits)
  from repeat_cls_all [OF u(2)] obtain w where "list_all q w" "cs = w @ ahead t" by auto
  with u(1) c show ?thesis by (simp add: consumed_def)
qed

end
