(* ===== verification/EasmSymbolic.thy ===== *)
theory EasmSymbolic
  imports PyRegex "HOL-Library.Word"
begin

text \<open>
  \<open>scripts/easm_lockstep_symbolic.py\<close>: the symbolic encoder that turns an EASM body into
  SMT bit-vector terms per register, and the prover that compares a reference body with its
  lockstep target. The terms the script builds as text are a datatype here;
  \<open>show_term\<close> is the text of a term and is injective, so comparing and pattern
  matching terms is the same as comparing and matching their texts.
\<close>

section \<open>Registers and operands\<close>

definition REG_ALIASES :: "(string, string) dict" where
  "REG_ALIASES = [
     (''eax'', ''rax''), (''ebx'', ''rbx''), (''ecx'', ''rcx''), (''edx'', ''rdx''),
     (''esi'', ''rsi''), (''edi'', ''rdi''), (''ebp'', ''rbp''),
     (''r8d'', ''r8''), (''r9d'', ''r9''), (''r10d'', ''r10''), (''r11d'', ''r11''),
     (''r12d'', ''r12''), (''r13d'', ''r13''), (''r14d'', ''r14''), (''r15d'', ''r15'')]"

definition REGS :: "string list" where
  "REGS = [''rax'', ''rbx'', ''rcx'', ''rdx'', ''rsi'', ''rdi'', ''rbp'', ''rsp'',
           ''r8'', ''r9'', ''r10'', ''r11'', ''r12'', ''r13'', ''r14'', ''r15'']"

datatype pred = Eq | Ne | Ult | Uge | Ule | Ugt | Slt | Sge | Sle | Sgt

definition COND_JUMPS :: "(string, pred) dict" where
  "COND_JUMPS = [
     (''je'', Eq), (''jz'', Eq), (''jne'', Ne), (''jnz'', Ne),
     (''jb'', Ult), (''jnae'', Ult), (''jae'', Uge), (''jnb'', Uge),
     (''jbe'', Ule), (''jna'', Ule), (''ja'', Ugt), (''jnbe'', Ugt),
     (''jl'', Slt), (''jnge'', Slt), (''jge'', Sge), (''jnl'', Sge),
     (''jle'', Sle), (''jng'', Sle), (''jg'', Sgt), (''jnle'', Sgt)]"

definition MAX_UNROLL :: int where
  "MAX_UNROLL = 64"

definition reg :: "string \<Rightarrow> string option" where
  "reg operand = (let operand = lower (strip operand) in
     if \<not> starts_with ''%'' operand then None
     else let key = drop 1 operand;
              name = (case dget REG_ALIASES key of Some n \<Rightarrow> n | None \<Rightarrow> key)
          in if name \<in> set REGS then Some name else None)"

definition immediate :: "string \<Rightarrow> int option" where
  "immediate operand = (let operand = lower (strip operand) in
     if \<not> starts_with ''$'' operand then None else py_int0 (drop 1 operand))"

text \<open>\<open>r(?:[89]|1[0-5])d\<close>\<close>

definition R32_RE :: rx where
  "R32_RE = Seqs [Chr (CHR ''r''),
     Alt (Cls (\<lambda>c. c = CHR ''8'' \<or> c = CHR ''9''))
         (Seq (Chr (CHR ''1'')) (Cls (\<lambda>c. 48 \<le> code c \<and> code c \<le> 53))),
     Chr (CHR ''d'')]"

definition is_32bit_register :: "string \<Rightarrow> bool" where
  "is_32bit_register operand = (let name = lstrip_chars ''%'' (lower (strip operand)) in
     name \<in> set [''eax'', ''ebx'', ''ecx'', ''edx'', ''esi'', ''edi'', ''ebp'']
     \<or> re_fullmatch R32_RE name \<noteq> None)"

text \<open>\<open>\s*(-?(?:0x[0-9a-f]+|[0-9]+))?\(%([a-z][a-z0-9]*)\)\s*\<close>\<close>

definition LEA_RE :: rx where
  "LEA_RE = Seqs [Spaces0,
     Opt (Grp 1 (Seq (Opt (Chr (CHR ''-'')))
       (Alt (Seq (Lit ''0x'') (Plus (Cls (\<lambda>c. is_digit c \<or> 97 \<le> code c \<and> code c \<le> 102))))
            (Plus (Cls is_digit))))),
     Lit ''(%'', Grp 2 (Seq (Cls is_lower_az) (Many (Cls (\<lambda>c. is_lower_az c \<or> is_digit c)))),
     Chr (CHR '')''), Spaces0]"

text \<open>\<open>int\<close> on a displacement such as \<open>010\<close> raises: the ValueError escapes.\<close>

definition lea_displacement :: "string \<Rightarrow> (string \<times> int) option result" where
  "lea_displacement operand = (case re_fullmatch LEA_RE (lower operand) of
     None \<Rightarrow> Inr None
   | Some m \<Rightarrow> (case py_int0 (group_or m 1 ''0'') of
        None \<Rightarrow> Inl (ValueError ''invalid literal for int()'')
      | Some displacement \<Rightarrow> (case reg (''%'' @ group_or m 2 []) of
            None \<Rightarrow> Inr None
          | Some base \<Rightarrow> Inr (Some (base, displacement)))))"

definition split_operands :: "string \<Rightarrow> string list" where
  "split_operands text = map strip (split_on (CHR '','') text)"

section \<open>Terms\<close>

datatype binop = BvAdd | BvSub | BvAnd | BvOr | BvXor | BvShl | BvLshr | BvAshr

datatype unop = BvNot | BvNeg

datatype bvterm =
    In string                    \<comment> \<open>\<open>in_NAME\<close>\<close>
  | Bv nat                       \<comment> \<open>\<open>(_ bvN 64)\<close>\<close>
  | Low32 bvterm                 \<comment> \<open>\<open>(concat (_ bv0 32) ((_ extract 31 0) T))\<close>\<close>
  | Bin binop bvterm bvterm
  | Unop unop bvterm
  | Ite pred bvterm bvterm bvterm bvterm   \<comment> \<open>\<open>(ite COND T E)\<close>, COND over two terms\<close>

definition bv :: "int \<Rightarrow> bvterm" where
  "bv value = Bv (nat (value mod 2 ^ 64))"

fun binop_name :: "binop \<Rightarrow> string" where
  "binop_name BvAdd = ''bvadd''"
| "binop_name BvSub = ''bvsub''"
| "binop_name BvAnd = ''bvand''"
| "binop_name BvOr = ''bvor''"
| "binop_name BvXor = ''bvxor''"
| "binop_name BvShl = ''bvshl''"
| "binop_name BvLshr = ''bvlshr''"
| "binop_name BvAshr = ''bvashr''"

fun unop_name :: "unop \<Rightarrow> string" where
  "unop_name BvNot = ''bvnot''"
| "unop_name BvNeg = ''bvneg''"

text \<open>The condition text for two operand texts.\<close>

fun flag_cond :: "pred \<Rightarrow> string \<Rightarrow> string \<Rightarrow> string" where
  "flag_cond Eq l r = ''(= '' @ l @ '' '' @ r @ '')''"
| "flag_cond Ne l r = ''(not (= '' @ l @ '' '' @ r @ ''))''"
| "flag_cond Ult l r = ''(bvult '' @ l @ '' '' @ r @ '')''"
| "flag_cond Uge l r = ''(bvuge '' @ l @ '' '' @ r @ '')''"
| "flag_cond Ule l r = ''(bvule '' @ l @ '' '' @ r @ '')''"
| "flag_cond Ugt l r = ''(bvugt '' @ l @ '' '' @ r @ '')''"
| "flag_cond Slt l r = ''(bvslt '' @ l @ '' '' @ r @ '')''"
| "flag_cond Sge l r = ''(bvsge '' @ l @ '' '' @ r @ '')''"
| "flag_cond Sle l r = ''(bvsle '' @ l @ '' '' @ r @ '')''"
| "flag_cond Sgt l r = ''(bvsgt '' @ l @ '' '' @ r @ '')''"

fun show_term :: "bvterm \<Rightarrow> string" where
  "show_term (In n) = ''in_'' @ n"
| "show_term (Bv n) = ''(_ bv'' @ show_nat n @ '' 64)''"
| "show_term (Low32 t) = ''(concat (_ bv0 32) ((_ extract 31 0) '' @ show_term t @ ''))''"
| "show_term (Bin f a b) =
     ''('' @ binop_name f @ '' '' @ show_term a @ '' '' @ show_term b @ '')''"
| "show_term (Unop f a) = ''('' @ unop_name f @ '' '' @ show_term a @ '')''"
| "show_term (Ite p l r a b) =
     ''(ite '' @ flag_cond p (show_term l) (show_term r) @ '' '' @ show_term a @ '' ''
        @ show_term b @ '')''"

section \<open>The symbolic state\<close>

record sym_state =
  terms :: "(string, bvterm) dict"
  inputs :: "string list"
  flags :: "(bvterm \<times> bvterm) option"
  ambient :: "(string, string) dict"

definition init_state :: sym_state where
  "init_state = \<lparr>terms = [], inputs = [], flags = None, ambient = []\<rparr>"

text \<open>\<open>State.read\<close>: a register not seen before becomes an input.\<close>

definition read_op :: "string \<Rightarrow> sym_state \<Rightarrow> bvterm option \<times> sym_state" where
  "read_op operand st = (case reg operand of
     Some name \<Rightarrow> (case dget (terms st) name of
         None \<Rightarrow> (Some (In name),
                  st\<lparr>terms := dset name (In name) (terms st), inputs := List.insert name (inputs st)\<rparr>)
       | Some t \<Rightarrow> (Some t, st))
   | None \<Rightarrow> (map_option bv (immediate operand), st))"

text \<open>\<open>State.write\<close>: None stands for the result False.\<close>

definition write_op :: "string \<Rightarrow> bvterm \<Rightarrow> sym_state \<Rightarrow> sym_state option" where
  "write_op operand t st = (case reg operand of
     None \<Rightarrow> None
   | Some name \<Rightarrow> Some (st\<lparr>terms := dset name t (terms st)\<rparr>))"

text \<open>
  \<open>State.merge_ite\<close>. Python iterates over a \<open>set\<close> of keys in an unspecified order, so
  the order is the parameter \<open>order\<close>. No key starts with \<open>in_\<close>, and the branch of the
  script for such keys is kept for the record.
\<close>

definition merge_key :: "pred \<Rightarrow> bvterm \<times> bvterm \<Rightarrow> sym_state \<Rightarrow> sym_state \<Rightarrow> string \<Rightarrow> sym_state \<Rightarrow> sym_state" where
  "merge_key p lr taken fall key self =
     (let dflt = (case dget (terms self) key of Some t \<Rightarrow> t | None \<Rightarrow> In key);
          left = (case dget (terms taken) key of Some t \<Rightarrow> t
                  | None \<Rightarrow> (case dget (terms fall) key of Some t \<Rightarrow> t | None \<Rightarrow> dflt));
          right = (case dget (terms fall) key of Some t \<Rightarrow> t
                  | None \<Rightarrow> (case dget (terms taken) key of Some t \<Rightarrow> t | None \<Rightarrow> dflt));
          self' = self\<lparr>terms := dset key
             (if left = right then left else Ite p (fst lr) (snd lr) left right) (terms self)\<rparr>
      in if starts_with ''in_'' key then self'\<lparr>inputs := List.insert (drop 3 key) (inputs self')\<rparr>
         else self')"

definition merge_ite :: "(string list \<Rightarrow> string list) \<Rightarrow> pred \<Rightarrow> bvterm \<times> bvterm \<Rightarrow>
    sym_state \<Rightarrow> sym_state \<Rightarrow> sym_state \<Rightarrow> sym_state" where
  "merge_ite order p lr taken fall self =
     (let keys = remdups (dkeys (terms taken) @ dkeys (terms fall) @ dkeys (terms self));
          self1 = fold (merge_key p lr taken fall) (order keys) self;
          ins = List.union (inputs taken) (List.union (inputs fall) (inputs self1));
          amb = (if dict_eq (ambient taken) (ambient fall) then ambient taken
                 else [(''__conflict__'', ''1'')])
      in self1\<lparr>inputs := ins, ambient := amb, flags := None\<rparr>)"

section \<open>Instructions\<close>

text \<open>A parsed line: mnemonic, operands, and the name when the line is a label.\<close>

type_synonym opline = "string \<times> string list \<times> string option"

definition parse_line :: "string \<Rightarrow> opline option" where
  "parse_line raw = (let text = strip (fst (split1 (CHR ''#'') raw)) in
     if text = [] then None
     else if ends_with '':'' text \<and> \<not> starts_with ''.'' text
       then Some (''label'', [], Some (drop_last 1 text))
     else case split_ws1 text of
         [] \<Rightarrow> None
       | op # rest \<Rightarrow> Some (lower op, (case rest of [] \<Rightarrow> [] | r # _ \<Rightarrow> split_operands r), None))"

definition parse_lines :: "string list \<Rightarrow> opline list" where
  "parse_lines body = List.map_filter parse_line body"

definition alu_op :: "string \<Rightarrow> binop option" where
  "alu_op op = map_of [(''addq'', BvAdd), (''subq'', BvSub), (''andq'', BvAnd),
                       (''orq'', BvOr), (''xorq'', BvXor)] op"

definition shift_op :: "string \<Rightarrow> binop option" where
  "shift_op op = map_of [(''shlq'', BvShl), (''salq'', BvShl), (''shrq'', BvLshr),
                         (''sarq'', BvAshr)] op"

text \<open>
  The instruction groups of \<open>apply_op\<close>, each returning the reason for giving up (None on
  success) and the state after it.
\<close>

type_synonym op_result = "(string option \<times> sym_state) result"

definition apply_state :: "sym_state \<Rightarrow> string list \<Rightarrow> op_result" where
  "apply_state st operands = (let text = join '' '' operands in
     if has_sub ''direction'' text then
       (if has_sub ''bwd'' text \<or> has_sub ''1'' (last (split_on (CHR ''='') text))
        then Inr (None, st\<lparr>ambient := dset ''direction'' ''1'' (ambient st)\<rparr>)
        else Inr (None, st\<lparr>ambient := dset ''direction'' ''0'' (ambient st)\<rparr>))
     else Inr (Some ''unsupported ambient state form'', st))"

definition apply_movq :: "sym_state \<Rightarrow> string \<Rightarrow> string list \<Rightarrow> op_result" where
  "apply_movq st op operands =
     (if length operands \<noteq> 2 then Inr (Some (''malformed '' @ op), st)
      else case read_op (operands ! 0) st of
          (None, st1) \<Rightarrow> Inr (Some (op @ '' has an unsupported operand''), st1)
        | (Some source, st1) \<Rightarrow> (case write_op (operands ! 1) source st1 of
              None \<Rightarrow> Inr (Some (op @ '' has an unsupported operand''), st1)
            | Some st2 \<Rightarrow> Inr (None, st2)))"

definition apply_movl :: "sym_state \<Rightarrow> string list \<Rightarrow> op_result" where
  "apply_movl st operands =
     (if length operands \<noteq> 2 \<or> \<not> is_32bit_register (operands ! 1)
      then Inr (Some ''movl destination is not a 32-bit register'', st)
      else case read_op (operands ! 0) st of
          (None, st1) \<Rightarrow> Inr (Some ''movl source is not modelable'', st1)
        | (Some source, st1) \<Rightarrow> (case write_op (operands ! 1) (Low32 source) st1 of
              None \<Rightarrow> Inr (Some ''movl source is not modelable'', st1)
            | Some st2 \<Rightarrow> Inr (None, st2)))"

text \<open>The result of the final \<open>state.write\<close> of this group is not looked at.\<close>

definition apply_alu :: "sym_state \<Rightarrow> string \<Rightarrow> binop \<Rightarrow> string list \<Rightarrow> op_result" where
  "apply_alu st op fn operands =
     (if length operands \<noteq> 2 then Inr (Some (''malformed '' @ op), st)
      else case read_op (operands ! 0) st of (source, st1) \<Rightarrow>
        case read_op (operands ! 1) st1 of (destination, st2) \<Rightarrow>
        case (source, destination) of
          (Some s, Some d) \<Rightarrow> Inr (None, case write_op (operands ! 1) (Bin fn d s) st2 of
              None \<Rightarrow> st2 | Some st3 \<Rightarrow> st3)
        | _ \<Rightarrow> Inr (Some (op @ '' has an unsupported operand''), st2))"

definition unary_term :: "string \<Rightarrow> bvterm \<Rightarrow> bvterm" where
  "unary_term op old = (if op = ''incq'' then Bin BvAdd old (bv 1)
     else if op = ''decq'' then Bin BvSub old (bv 1)
     else Unop (if op = ''notq'' then BvNot else BvNeg) old)"

definition apply_unary :: "sym_state \<Rightarrow> string \<Rightarrow> string list \<Rightarrow> op_result" where
  "apply_unary st op operands =
     (if length operands \<noteq> 1 then Inr (Some (''malformed '' @ op), st)
      else case read_op (operands ! 0) st of
          (None, st1) \<Rightarrow> Inr (Some (op @ '' destination is not modelable''), st1)
        | (Some old, st1) \<Rightarrow> (case write_op (operands ! 0) (unary_term op old) st1 of
              None \<Rightarrow> Inr (Some (op @ '' destination is not a register''), st1)
            | Some st2 \<Rightarrow> Inr (None, if op \<in> {''incq'', ''decq''}
                 then st2\<lparr>flags := Some (unary_term op old, bv 0)\<rparr> else st2)))"

definition apply_shift :: "sym_state \<Rightarrow> string \<Rightarrow> binop \<Rightarrow> string list \<Rightarrow> op_result" where
  "apply_shift st op fn operands =
     (if length operands \<noteq> 2 then Inr (Some (''malformed '' @ op), st)
      else case read_op (operands ! 1) st of (old, st1) \<Rightarrow>
        case (immediate (operands ! 0), old) of
          (Some count, Some t) \<Rightarrow> (case write_op (operands ! 1) (Bin fn t (bv count)) st1 of
              None \<Rightarrow> Inr (Some (op @ '' destination is not a register''), st1)
            | Some st2 \<Rightarrow> Inr (None, st2))
        | _ \<Rightarrow> Inr (Some (op @ '' requires an immediate and GPR destination''), st1))"

definition apply_xchg :: "sym_state \<Rightarrow> string list \<Rightarrow> op_result" where
  "apply_xchg st operands =
     (if length operands \<noteq> 2 \<or> reg (operands ! 0) = None \<or> reg (operands ! 1) = None
      then Inr (Some ''xchg operands are not registers'', st)
      else case read_op (operands ! 0) st of (left, st1) \<Rightarrow>
        case read_op (operands ! 1) st1 of (right, st2) \<Rightarrow>
        case (left, right) of
          (Some l, Some r) \<Rightarrow> (case write_op (operands ! 0) r st2 of
              None \<Rightarrow> Inr (Some ''xchg operands are not modelable'', st2)
            | Some st3 \<Rightarrow> (case write_op (operands ! 1) l st3 of
                  None \<Rightarrow> Inr (Some ''xchg operands are not modelable'', st3)
                | Some st4 \<Rightarrow> Inr (None, st4)))
        | _ \<Rightarrow> Inr (Some ''xchg operands are not modelable'', st2))"

definition apply_lea :: "sym_state \<Rightarrow> string list \<Rightarrow> op_result" where
  "apply_lea st operands =
     (if length operands \<noteq> 2 then Inr (Some ''malformed lea'', st)
      else rbind (lea_displacement (operands ! 0)) (\<lambda>address. case address of
          None \<Rightarrow> Inr (Some ''lea addressing form is not modelable'', st)
        | Some (base, displacement) \<Rightarrow> (case read_op (''%'' @ base) st of
              (None, st1) \<Rightarrow> Inr (Some ''lea operands are not modelable'', st1)
            | (Some old, st1) \<Rightarrow>
                (case write_op (operands ! 1) (Bin BvAdd old (bv displacement)) st1 of
                   None \<Rightarrow> Inr (Some ''lea operands are not modelable'', st1)
                 | Some st2 \<Rightarrow> Inr (None, st2)))))"

text \<open>AT\&T operand order: \<open>cmp src, dst\<close> compares \<open>dst\<close> with \<open>src\<close>.\<close>

definition apply_compare :: "sym_state \<Rightarrow> string \<Rightarrow> string list \<Rightarrow> op_result" where
  "apply_compare st op operands =
     (if length operands \<noteq> 2 then Inr (Some (''malformed '' @ op), st)
      else case read_op (operands ! 1) st of (left, st1) \<Rightarrow>
        case read_op (operands ! 0) st1 of (right, st2) \<Rightarrow>
        if starts_with ''test'' op then
          (case read_op (operands ! 0) st2 of (tleft, st3) \<Rightarrow>
           case read_op (operands ! 1) st3 of (tright, st4) \<Rightarrow>
           case (tleft, tright) of
             (Some l, Some r) \<Rightarrow> Inr (None, st4\<lparr>flags := Some (Bin BvAnd l r, bv 0)\<rparr>)
           | _ \<Rightarrow> Inr (Some ''test operands not modelable'', st4))
        else (case (left, right) of
            (Some l, Some r) \<Rightarrow> Inr (None, st2\<lparr>flags := Some (l, r)\<rparr>)
          | _ \<Rightarrow> Inr (Some ''cmp operands not modelable'', st2)))"

definition apply_op :: "sym_state \<Rightarrow> string \<Rightarrow> string list \<Rightarrow> op_result" where
  "apply_op st op operands =
     (if op \<in> {''ret'', ''retq''} then Inr (None, st)
      else if op = ''state'' \<or> starts_with ''state'' op then apply_state st operands
      else if op = ''movq'' then apply_movq st op operands
      else if op = ''movl'' then apply_movl st operands
      else case alu_op op of Some fn \<Rightarrow> apply_alu st op fn operands | None \<Rightarrow>
      if op \<in> {''incq'', ''decq'', ''notq'', ''negq''} then apply_unary st op operands
      else case shift_op op of Some fn \<Rightarrow> apply_shift st op fn operands | None \<Rightarrow>
      if op \<in> {''xchgq'', ''xchg''} then apply_xchg st operands
      else if op \<in> {''leaq'', ''lea''} then apply_lea st operands
      else if op \<in> {''cmpq'', ''cmp'', ''testq'', ''test''} then apply_compare st op operands
      else if op \<in> {''jmp'', ''jmpq''} then
        Inr (Some ''unconditional jump outside modeled diamond/loop form'', st)
      else if dget COND_JUMPS op \<noteq> None then Inr (Some ''orphan conditional jump'', st)
      else Inr (Some (''unsupported instruction '' @ op), st))"

section \<open>Encoding a body\<close>

text \<open>The label table; None when a label is declared twice.\<close>

fun label_table :: "nat \<Rightarrow> opline list \<Rightarrow> (string, nat) dict \<Rightarrow> (string, nat) dict option" where
  "label_table i [] labels = Some labels"
| "label_table i ((op, _, lab) # ops) labels =
     (if op = ''label'' then (case lab of
          None \<Rightarrow> label_table (Suc i) ops labels
        | Some name \<Rightarrow> (case dget labels name of
              Some _ \<Rightarrow> None
            | None \<Rightarrow> label_table (Suc i) ops (dset name i labels)))
      else label_table (Suc i) ops labels)"

definition labels_of :: "opline list \<Rightarrow> (string, nat) dict" where
  "labels_of ops = (case label_table 0 ops [] of None \<Rightarrow> [] | Some labels \<Rightarrow> labels)"

text \<open>A constant term, or a constant just decremented, as the loop trips left.\<close>

fun remaining_trips :: "bvterm \<Rightarrow> int option" where
  "remaining_trips (Bv n) = Some (int n)"
| "remaining_trips (Bin BvSub (Bv n) (Bv m)) = (if m = 1 then Some (int n - 1) else None)"
| "remaining_trips _ = None"

fun find_trip :: "(string, bvterm) dict \<Rightarrow> (string \<times> int) option \<Rightarrow> (string \<times> int) option" where
  "find_trip [] trip = trip"
| "find_trip ((reg_name, t) # rest) trip =
     find_trip rest (case remaining_trips t of
         None \<Rightarrow> trip
       | Some count \<Rightarrow> if 0 \<le> count \<and> count \<le> MAX_UNROLL \<and> (trip = None \<or> reg_name = ''rcx'')
                       then Some (reg_name, count) else trip)"

text \<open>One more run of the loop body: labels and conditional jumps are skipped.\<close>

fun run_loop_body :: "sym_state \<Rightarrow> opline list \<Rightarrow> op_result" where
  "run_loop_body st [] = Inr (None, st)"
| "run_loop_body st ((op, operands, _) # ops) =
     (if op = ''label'' \<or> dget COND_JUMPS op \<noteq> None then run_loop_body st ops
      else rbind (apply_op st op operands) (\<lambda>(reason, st'). case reason of
          Some r \<Rightarrow> Inr (Some r, st')
        | None \<Rightarrow> run_loop_body st' ops))"

fun unroll :: "nat \<Rightarrow> sym_state \<Rightarrow> opline list \<Rightarrow> op_result" where
  "unroll 0 st body = Inr (None, st)"
| "unroll (Suc n) st body =
     rbind (run_loop_body st body) (\<lambda>(reason, st'). case reason of
         Some r \<Rightarrow> Inr (Some r, st')
       | None \<Rightarrow> unroll n st' body)"

text \<open>The fall-through side of a forward branch.\<close>

fun run_fall :: "sym_state \<Rightarrow> opline list \<Rightarrow> op_result" where
  "run_fall st [] = Inr (None, st)"
| "run_fall st ((op, operands, _) # ops) =
     (if op = ''label'' then run_fall st ops
      else if dget COND_JUMPS op \<noteq> None \<or> op \<in> {''jmp'', ''jmpq''}
        then Inr (Some ''nested control flow in diamond'', st)
      else rbind (apply_op st op operands) (\<lambda>(reason, st'). case reason of
          Some r \<Rightarrow> Inr (Some r, st')
        | None \<Rightarrow> run_fall st' ops))"

definition jump_target :: "string list \<Rightarrow> string" where
  "jump_target operands = (case operands of [] \<Rightarrow> [] | o1 # _ \<Rightarrow> lstrip_chars ''.'' o1)"

definition conflict :: "sym_state \<Rightarrow> bool" where
  "conflict st = (case dget (ambient st) ''__conflict__'' of None \<Rightarrow> False | Some s \<Rightarrow> s \<noteq> [])"

text \<open>Labels point at label lines: this is what makes every step of the encoder move forward.\<close>

lemma label_table_sound:
  assumes "label_table i ops labels = Some ls"
    and "dget ls t = Some k"
  shows "dget labels t = Some k \<or> (i \<le> k \<and> k < i + length ops \<and> fst (ops ! (k - i)) = ''label'')"
  using assms
proof (induction i ops labels arbitrary: ls rule: label_table.induct)
  case (1 i labels)
  then show ?case by simp
next
  case (2 i op args lab ops labels)
  have shift: "fst (((op, args, lab) # ops) ! (k - i)) = ''label''"
    if "Suc i \<le> k" "fst (ops ! (k - Suc i)) = ''label''"
    using that by (simp add: nth_Cons' Suc_diff_le)
  show ?case
  proof (cases "op = ''label'' \<and> lab \<noteq> None")
    case True
    then obtain name where lab: "op = ''label''" "lab = Some name" by auto
    with 2(4) have new: "dget labels name = None"
      and tab: "label_table (Suc i) ops (dset name i labels) = Some ls"
      by (auto split: option.splits)
    have "dget (dset name i labels) t = Some k \<or>
        (Suc i \<le> k \<and> k < Suc i + length ops \<and> fst (ops ! (k - Suc i)) = ''label'')"
      using "2.IH"(2) lab new tab 2(5) by simp
    with lab shift show ?thesis by (auto split: if_splits)
  next
    case False
    with 2(4) have tab: "label_table (Suc i) ops labels = Some ls"
      by (auto split: option.splits if_splits)
    from False have "op \<noteq> ''label'' \<or> op = ''label'' \<and> lab = None" by auto
    then have "dget labels t = Some k \<or>
        (Suc i \<le> k \<and> k < Suc i + length ops \<and> fst (ops ! (k - Suc i)) = ''label'')"
    proof
      assume "op \<noteq> ''label''"
      then show ?thesis using "2.IH"(3) tab 2(5) by simp
    next
      assume "op = ''label'' \<and> lab = None"
      then show ?thesis using "2.IH"(1) tab 2(5) by simp
    qed
    with shift show ?thesis by auto
  qed
qed

lemma labels_of_label:
  "dget (labels_of ops) t = Some k \<Longrightarrow> k < length ops \<and> fst (ops ! k) = ''label''"
  using label_table_sound [of 0 ops "[]" _ t k]
  by (auto simp: labels_of_def split: option.splits)

lemma COND_JUMPS_not_label [simp]: "dget COND_JUMPS ''label'' = None"
  by (simp add: COND_JUMPS_def dget_def)

lemma jump_elsewhere:
  assumes "dget (labels_of ops) x = Some t" and "(op, rest) = ops ! i" and "op \<noteq> ''label''"
  shows "t < i \<or> (i < t \<and> t < length ops)"
  using assms(2,3) labels_of_label [OF assms(1)] by (cases t i rule: linorder_cases) (auto dest: sym)

text \<open>
  The main loop of \<open>encode\<close>. \<open>Inl reason\<close> is the script's \<open>(None, reason)\<close> and
  \<open>Inr state\<close> its \<open>(state, None)\<close>.
\<close>

type_synonym enc_result = "(string + sym_state) result"

definition after_op :: "op_result \<Rightarrow> (string \<Rightarrow> string) \<Rightarrow> (sym_state \<Rightarrow> enc_result) \<Rightarrow> enc_result" where
  "after_op m say k = rbind m (\<lambda>(reason, st'). case reason of
      Some r \<Rightarrow> Inr (Inl (say r)) | None \<Rightarrow> k st')"

lemma after_op_cong [fundef_cong]:
  "m = m' \<Longrightarrow> say = say' \<Longrightarrow> (\<And>st'. m' = Inr (None, st') \<Longrightarrow> k st' = k' st') \<Longrightarrow>
     after_op m say k = after_op m' say' k'"
  by (auto simp: after_op_def rbind_def split: sum.splits option.splits)

function encode_loop :: "(string list \<Rightarrow> string list) \<Rightarrow> opline list \<Rightarrow> nat \<Rightarrow> sym_state \<Rightarrow> enc_result" where
  "encode_loop order ops index st =
     (if length ops \<le> index then Inr (Inr st)
      else case ops ! index of (op, operands, lab) \<Rightarrow>
        if op = ''label'' then encode_loop order ops (Suc index) st
        else case dget COND_JUMPS op of
          Some p \<Rightarrow> (case flags st of
              None \<Rightarrow> Inr (Inl ''conditional jump without live flags'')
            | Some lr \<Rightarrow> (case dget (labels_of ops) (jump_target operands) of
                  None \<Rightarrow> Inr (Inl ''unknown jump target'')
                | Some target_index \<Rightarrow>
                    if target_index < index then
                      (case find_trip (terms st) None of
                         None \<Rightarrow> Inr (Inl ''loop trip count not a small constant'')
                       | Some (counter, count) \<Rightarrow>
                           if count = 0 then encode_loop order ops (Suc index) st
                           else after_op
                             (unroll (nat count) st (drop target_index (take index ops)))
                             (\<lambda>r. ''loop body: '' @ r) (encode_loop order ops (Suc index)))
                    else after_op (run_fall st (drop (Suc index) (take target_index ops))) id
                      (\<lambda>fall. if conflict fall \<or> conflict st
                         then Inr (Inl ''ambient state conflict on branch'')
                         else let merged = merge_ite order p lr st fall st in
                           if conflict merged
                           then Inr (Inl ''ambient state diverges across branch'')
                           else encode_loop order ops target_index merged)))
        | None \<Rightarrow>
            if op \<in> {''jmp'', ''jmpq''} then
              (case dget (labels_of ops) (jump_target operands) of
                 None \<Rightarrow> Inr (Inl ''unknown jmp target'')
               | Some target_index \<Rightarrow>
                   if target_index \<le> index then Inr (Inl ''backward jmp not a counted loop form'')
                   else encode_loop order ops target_index st)
            else after_op (apply_op st op operands) id (encode_loop order ops (Suc index)))"
  by pat_completeness auto
termination
  by (relation "measure (\<lambda>(order, ops, index, st). length ops - index)")
     (auto, drule (2) jump_elsewhere, auto)

declare encode_loop.simps [simp del]

definition encode :: "(string list \<Rightarrow> string list) \<Rightarrow> string list \<Rightarrow> enc_result" where
  "encode order body = (let ops = parse_lines body in
     if label_table 0 ops [] = None then Inr (Inl ''duplicate label'')
     else encode_loop order ops 0 init_state)"

section \<open>Lockstep pairs\<close>

text \<open>\<open>^export\s+def\s+([A-Za-z_][A-Za-z0-9_]*)\b\<close>\<close>

definition HEADER :: rx where
  "HEADER = Seqs [Bol, Lit ''export'', Spaces1, Lit ''def'', Spaces1, Grp 1 Ident, WordB]"

record lockstep_pair =
  pair_name :: string
  pair_outputs :: "string list"
  pair_reference :: "string list"
  pair_target :: "string list"
  ambient_check :: bool

datatype sect = SOutputs | SReference | STarget

record pairs_state =
  found :: "lockstep_pair list"
  current :: "lockstep_pair option"
  cur_section :: "sect option"

definition new_pair :: "string \<Rightarrow> lockstep_pair" where
  "new_pair name = \<lparr>pair_name = name, pair_outputs = [], pair_reference = [], pair_target = [],
     ambient_check = True\<rparr>"

text \<open>A pair is kept when both bodies are non-empty.\<close>

definition close_pair :: "pairs_state \<Rightarrow> lockstep_pair list" where
  "close_pair ps = (case current ps of
     None \<Rightarrow> found ps
   | Some c \<Rightarrow> if pair_reference c \<noteq> [] \<and> pair_target c \<noteq> [] then found ps @ [c] else found ps)"

text \<open>\<open>part.strip().split("=")[-1].strip().lstrip("%")\<close>\<close>

definition output_name :: "string \<Rightarrow> string" where
  "output_name part = lstrip_chars ''%'' (strip (last (split_on (CHR ''='') (strip part))))"

fun append_line :: "sect \<Rightarrow> string \<Rightarrow> lockstep_pair \<Rightarrow> lockstep_pair" where
  "append_line SReference t c = c\<lparr>pair_reference := pair_reference c @ [t]\<rparr>"
| "append_line STarget t c = c\<lparr>pair_target := pair_target c @ [t]\<rparr>"
| "append_line SOutputs t c = c"

definition pairs_step :: "pairs_state \<Rightarrow> string \<Rightarrow> pairs_state" where
  "pairs_step ps raw = (let text = strip (fst (split1 (CHR ''#'') raw)) in
     case re_match HEADER text of
       Some m \<Rightarrow> \<lparr>found = close_pair ps, current = Some (new_pair (group_or m 1 [])),
                   cur_section = None\<rparr>
     | None \<Rightarrow> (case current ps of None \<Rightarrow> ps | Some c \<Rightarrow>
         if starts_with ''outputs:'' text then
           ps\<lparr>cur_section := Some SOutputs,
              current := Some (c\<lparr>pair_outputs := map output_name
                (filter (\<lambda>part. has_sub ''='' part) (split_on (CHR '','') (drop 8 text)))\<rparr>)\<rparr>
         else if text = ''reference:'' then ps\<lparr>cur_section := Some SReference\<rparr>
         else if starts_with ''target '' text \<and> has_sub '' lockstep '' text
           then ps\<lparr>cur_section := Some STarget\<rparr>
         else if cur_section ps = Some SOutputs \<and> has_sub ''='' text then
           ps\<lparr>current := Some (c\<lparr>pair_outputs :=
                pair_outputs c @ map output_name (split_on (CHR '','') text)\<rparr>)\<rparr>
         else if ends_with '':'' text \<and> \<not> (starts_with ''reference'' text \<or> starts_with ''target'' text) then
           (if cur_section ps \<in> {Some SReference, Some STarget}
            then ps\<lparr>current := Some (append_line (the (cur_section ps)) text c)\<rparr>
            else ps\<lparr>cur_section := None\<rparr>)
         else if cur_section ps \<in> {Some SReference, Some STarget} \<and> text \<noteq> []
           then ps\<lparr>current := Some (append_line (the (cur_section ps)) text c)\<rparr>
         else ps))"

definition pairs :: "string \<Rightarrow> lockstep_pair list" where
  "pairs source = close_pair
     (foldl pairs_step \<lparr>found = [], current = None, cur_section = None\<rparr> (splitlines source))"

section \<open>Proving a pair\<close>

datatype verdict = Proved | Diverged string | Skip string

text \<open>The obligations of a pair: the term texts per output and the input names.\<close>

record obligation =
  ref_terms :: "(string, bvterm) dict"
  tgt_terms :: "(string, bvterm) dict"
  ob_inputs :: "string list"
  ob_terms :: "(bvterm \<times> bvterm) list"

definition add_output :: "obligation \<Rightarrow> string \<Rightarrow> obligation" where
  "add_output ob out =
     (let ob1 = (if dget (ref_terms ob) out = None
                 then ob\<lparr>ref_terms := dset out (In out) (ref_terms ob), ob_inputs := ob_inputs ob @ [out]\<rparr>
                 else ob);
          ob2 = (if dget (tgt_terms ob1) out = None
                 then ob1\<lparr>tgt_terms := dset out (In out) (tgt_terms ob1),
                          ob_inputs := (if out \<in> set (ob_inputs ob1) then ob_inputs ob1
                                        else ob_inputs ob1 @ [out])\<rparr>
                 else ob1)
      in ob2\<lparr>ob_terms := ob_terms ob2 @
           [(the (dget (ref_terms ob2) out), the (dget (tgt_terms ob2) out))]\<rparr>)"

definition obligations :: "sym_state \<Rightarrow> sym_state \<Rightarrow> string list \<Rightarrow> obligation" where
  "obligations r t outputs = foldl add_output
     \<lparr>ref_terms = terms r, tgt_terms = terms t,
      ob_inputs = sorted_list_of_set (set (inputs r) \<union> set (inputs t)), ob_terms = []\<rparr>
     (if outputs = [] then [''rax''] else outputs)"

definition query_lines :: "obligation \<Rightarrow> string list" where
  "query_lines ob = [''(set-logic QF_BV)'']
     @ map (\<lambda>name. ''(declare-fun in_'' @ name @ '' () (_ BitVec 64))'')
         (sorted_list_of_set (set (ob_inputs ob)))
     @ [''(assert (or '' @ join '' '' (map (\<lambda>(l, r).
           ''(distinct '' @ show_term l @ '' '' @ show_term r @ '')'') (ob_terms ob)) @ '')))'']
     @ [''(check-sat)'']"

definition query_text :: "obligation \<Rightarrow> string" where
  "query_text ob = join [CHR 0x0A] (query_lines ob) @ [CHR 0x0A]"

text \<open>\<open>bytes.strip\<close> removes ASCII whitespace only.\<close>

definition is_byte_space :: "char \<Rightarrow> bool" where
  "is_byte_space c \<longleftrightarrow> 9 \<le> code c \<and> code c \<le> 13 \<or> c = CHR '' ''"

text \<open>
  The solver is a parameter: from the query to its standard output and standard error.
\<close>

type_synonym solver = "string \<Rightarrow> string \<times> string"

definition solver_answer :: "string \<Rightarrow> string result" where
  "solver_answer out = (if list_all is_byte_space out then Inr ''unknown''
     else case splitlines (strip out) of [] \<Rightarrow> Inl IndexError | ls \<Rightarrow> Inr (last ls))"

definition prove :: "(string list \<Rightarrow> string list) \<Rightarrow> solver \<Rightarrow> lockstep_pair \<Rightarrow> verdict result" where
  "prove order z3 pair =
     rbind (encode order (pair_reference pair)) (\<lambda>reference.
     rbind (encode order (pair_target pair)) (\<lambda>target.
       case reference of
         Inl r \<Rightarrow> Inr (Skip r)
       | Inr r \<Rightarrow> (case target of
           Inl reason \<Rightarrow> Inr (Skip reason)
         | Inr t \<Rightarrow>
             if \<not> dict_eq (ambient r) (ambient t) then Inr (Diverged ''ambient machine state differs'')
             else (case z3 (query_text (obligations r t (pair_outputs pair))) of (out, err) \<Rightarrow>
               rbind (solver_answer out) (\<lambda>answer.
                 if answer = ''unsat'' then Inr Proved
                 else if answer = ''sat'' then Inr (Diverged [])
                 else Inr (Skip (if strip err \<noteq> [] then strip err else answer)))))))"

text \<open>\<open>main\<close>: the results printed and the exit status. Without a solver nothing is decided.\<close>

definition lockstep_main ::
    "(string list \<Rightarrow> string list) \<Rightarrow> solver option \<Rightarrow> string \<Rightarrow> (verdict list \<times> int) result" where
  "lockstep_main order z3 source = (case z3 of
     None \<Rightarrow> Inr ([Skip ''z3 not found''], 0)
   | Some solve \<Rightarrow> rmap (\<lambda>results. (results, if \<exists>r \<in> set results. (case r of Diverged _ \<Rightarrow> True | _ \<Rightarrow> False)
        then 1 else 0)) (traverse (prove order solve) (pairs source)))"

end
