(* ===== verification/EasmMachine.thy ===== *)
theory EasmMachine
  imports EasmSymbolic
begin

text \<open>
  What the encoder of \<^theory_text>\<open>EasmSymbolic\<close> promises: the meaning of its terms over 64-bit words and
  the x86-64 behaviour of the instructions it accepts, as a machine with registers, the
  arithmetic flags and a program counter. Flags an instruction leaves in a state that is
  not described here (shifts) are \<open>None\<close>, and no conditional jump may look at them.
\<close>

unbundle bit_operations_syntax

type_synonym word64 = "64 word"

section \<open>Meaning of terms\<close>

fun eval_binop :: "binop \<Rightarrow> word64 \<Rightarrow> word64 \<Rightarrow> word64" where
  "eval_binop BvAdd a b = a + b"
| "eval_binop BvSub a b = a - b"
| "eval_binop BvAnd a b = a AND b"
| "eval_binop BvOr a b = a OR b"
| "eval_binop BvXor a b = a XOR b"
| "eval_binop BvShl a b = (if unat b < 64 then push_bit (unat b) a else 0)"
| "eval_binop BvLshr a b = (if unat b < 64 then drop_bit (unat b) a else 0)"
| "eval_binop BvAshr a b = signed_drop_bit (min 63 (unat b)) a"

fun eval_unop :: "unop \<Rightarrow> word64 \<Rightarrow> word64" where
  "eval_unop BvNot a = NOT a"
| "eval_unop BvNeg a = - a"

fun eval_pred :: "pred \<Rightarrow> word64 \<Rightarrow> word64 \<Rightarrow> bool" where
  "eval_pred Eq a b \<longleftrightarrow> a = b"
| "eval_pred Ne a b \<longleftrightarrow> a \<noteq> b"
| "eval_pred Ult a b \<longleftrightarrow> a < b"
| "eval_pred Uge a b \<longleftrightarrow> b \<le> a"
| "eval_pred Ule a b \<longleftrightarrow> a \<le> b"
| "eval_pred Ugt a b \<longleftrightarrow> b < a"
| "eval_pred Slt a b \<longleftrightarrow> sint a < sint b"
| "eval_pred Sge a b \<longleftrightarrow> sint b \<le> sint a"
| "eval_pred Sle a b \<longleftrightarrow> sint a \<le> sint b"
| "eval_pred Sgt a b \<longleftrightarrow> sint b < sint a"

definition low32 :: "word64 \<Rightarrow> word64" where
  "low32 a = take_bit 32 a"

fun eval :: "(string \<Rightarrow> word64) \<Rightarrow> bvterm \<Rightarrow> word64" where
  "eval env (In n) = env n"
| "eval env (Bv n) = of_nat n"
| "eval env (Low32 t) = low32 (eval env t)"
| "eval env (Bin f a b) = eval_binop f (eval env a) (eval env b)"
| "eval env (Unop f a) = eval_unop f (eval env a)"
| "eval env (Ite p l r a b) =
     (if eval_pred p (eval env l) (eval env r) then eval env a else eval env b)"

lemma eval_bv [simp]: "eval env (bv i) = word_of_int i"
proof -
  have "word_of_int (i mod 2 ^ 64) = (word_of_int i :: word64)"
    by (simp add: word_of_int_eq_iff take_bit_eq_mod)
  then show ?thesis by (simp add: bv_def)
qed

section \<open>The machine\<close>

record mflags =
  zf :: bool
  sf :: bool
  cf :: bool
  ovf :: bool

record mach =
  regs :: "string \<Rightarrow> word64"
  mfl :: "mflags option"

text \<open>The flags of \<open>a - b\<close>, of \<open>a + b\<close> and of a logical result.\<close>

definition sub_flags :: "word64 \<Rightarrow> word64 \<Rightarrow> mflags" where
  "sub_flags a b = \<lparr>zf = (a = b), sf = (sint (a - b) < 0), cf = (a < b),
     ovf = (sint a - sint b \<noteq> sint (a - b))\<rparr>"

definition add_flags :: "word64 \<Rightarrow> word64 \<Rightarrow> mflags" where
  "add_flags a b = \<lparr>zf = (a + b = 0), sf = (sint (a + b) < 0), cf = (2 ^ 64 \<le> uint a + uint b),
     ovf = (sint a + sint b \<noteq> sint (a + b))\<rparr>"

definition logic_flags :: "word64 \<Rightarrow> mflags" where
  "logic_flags r = \<lparr>zf = (r = 0), sf = (sint r < 0), cf = False, ovf = False\<rparr>"

fun alu_flags :: "binop \<Rightarrow> word64 \<Rightarrow> word64 \<Rightarrow> mflags option" where
  "alu_flags BvAdd a b = Some (add_flags a b)"
| "alu_flags BvSub a b = Some (sub_flags a b)"
| "alu_flags BvAnd a b = Some (logic_flags (a AND b))"
| "alu_flags BvOr a b = Some (logic_flags (a OR b))"
| "alu_flags BvXor a b = Some (logic_flags (a XOR b))"
| "alu_flags _ a b = None"

text \<open>\<open>inc\<close> and \<open>dec\<close> keep the carry.\<close>

definition keep_carry :: "mflags option \<Rightarrow> mflags \<Rightarrow> mflags option" where
  "keep_carry old new = (case old of None \<Rightarrow> Some (new\<lparr>cf := False\<rparr>) | Some f \<Rightarrow> Some (new\<lparr>cf := cf f\<rparr>))"

fun cond :: "pred \<Rightarrow> mflags \<Rightarrow> bool" where
  "cond Eq f \<longleftrightarrow> zf f"
| "cond Ne f \<longleftrightarrow> \<not> zf f"
| "cond Ult f \<longleftrightarrow> cf f"
| "cond Uge f \<longleftrightarrow> \<not> cf f"
| "cond Ule f \<longleftrightarrow> cf f \<or> zf f"
| "cond Ugt f \<longleftrightarrow> \<not> cf f \<and> \<not> zf f"
| "cond Slt f \<longleftrightarrow> sf f \<noteq> ovf f"
| "cond Sge f \<longleftrightarrow> sf f = ovf f"
| "cond Sle f \<longleftrightarrow> zf f \<or> sf f \<noteq> ovf f"
| "cond Sgt f \<longleftrightarrow> \<not> zf f \<and> sf f = ovf f"

text \<open>Register operands by their 64-bit name, and operand values.\<close>

definition qreg :: "string \<Rightarrow> string option" where
  "qreg a = (if is_32bit_register a then None else reg a)"

definition qval :: "string \<Rightarrow> mach \<Rightarrow> word64 option" where
  "qval a m = (case reg a of
     Some r \<Rightarrow> (if is_32bit_register a then None else Some (regs m r))
   | None \<Rightarrow> map_option word_of_int (immediate a))"

definition dval :: "string \<Rightarrow> mach \<Rightarrow> word64 option" where
  "dval a m = (case reg a of
     Some r \<Rightarrow> (if is_32bit_register a then Some (low32 (regs m r)) else None)
   | None \<Rightarrow> map_option (\<lambda>i. low32 (word_of_int i)) (immediate a))"

definition set_reg :: "string \<Rightarrow> word64 \<Rightarrow> mach \<Rightarrow> mach" where
  "set_reg r v m = m\<lparr>regs := (regs m)(r := v)\<rparr>"

text \<open>The base register and displacement of an address with a 64-bit base.\<close>

definition qaddress :: "string \<Rightarrow> (string \<times> int) option" where
  "qaddress a = (case re_fullmatch LEA_RE (lower a) of
     None \<Rightarrow> None
   | Some m \<Rightarrow> if group_or m 2 [] \<in> set REGS then
       map_option (\<lambda>d. (group_or m 2 [], d)) (py_int0 (group_or m 1 ''0'')) else None)"

text \<open>
  One instruction that is not a jump: None when it is not an instruction of the described
  subset.
\<close>

definition exec_move :: "string \<Rightarrow> string list \<Rightarrow> mach \<Rightarrow> mach option" where
  "exec_move op args m = (case args of
     [src, dst] \<Rightarrow>
       if op = ''movl'' then
         (case (dval src m, reg dst) of
            (Some v, Some d) \<Rightarrow> if is_32bit_register dst then Some (set_reg d v m) else None
          | _ \<Rightarrow> None)
       else if op \<in> {''leaq'', ''lea''} then
         (case (qaddress src, qreg dst) of
            (Some (b, disp), Some d) \<Rightarrow> Some (set_reg d (regs m b + word_of_int disp) m)
          | _ \<Rightarrow> None)
       else if op \<in> {''xchgq'', ''xchg''} then
         (case (qreg src, qreg dst) of
            (Some a, Some b) \<Rightarrow> Some (set_reg b (regs m a) (set_reg a (regs m b) m))
          | _ \<Rightarrow> None)
       else
         (case (qval src m, qreg dst) of
            (Some v, Some d) \<Rightarrow> Some (set_reg d v m)
          | _ \<Rightarrow> None)
   | _ \<Rightarrow> None)"

definition exec_binary :: "binop \<Rightarrow> string list \<Rightarrow> mach \<Rightarrow> mach option" where
  "exec_binary f args m = (case args of
     [src, dst] \<Rightarrow> (case (qval src m, qreg dst) of
         (Some v, Some d) \<Rightarrow>
           Some ((set_reg d (eval_binop f (regs m d) v) m)\<lparr>mfl := alu_flags f (regs m d) v\<rparr>)
       | _ \<Rightarrow> None)
   | _ \<Rightarrow> None)"

text \<open>A shift takes its count modulo 64; only counts below 64 are written.\<close>

definition exec_shift :: "binop \<Rightarrow> string list \<Rightarrow> mach \<Rightarrow> mach option" where
  "exec_shift f args m = (case args of
     [src, dst] \<Rightarrow> (case (immediate src, qreg dst) of
         (Some n, Some d) \<Rightarrow> if 0 \<le> n \<and> n < 64
           then Some ((set_reg d (eval_binop f (regs m d) (word_of_int n)) m)\<lparr>mfl := None\<rparr>) else None
       | _ \<Rightarrow> None)
   | _ \<Rightarrow> None)"

definition exec_unary :: "string \<Rightarrow> string list \<Rightarrow> mach \<Rightarrow> mach option" where
  "exec_unary op args m = (case args of
     [dst] \<Rightarrow> (case qreg dst of
         None \<Rightarrow> None
       | Some d \<Rightarrow> let v = regs m d in
           Some (if op = ''incq'' then (set_reg d (v + 1) m)\<lparr>mfl := keep_carry (mfl m) (add_flags v 1)\<rparr>
                 else if op = ''decq'' then (set_reg d (v - 1) m)\<lparr>mfl := keep_carry (mfl m) (sub_flags v 1)\<rparr>
                 else if op = ''notq'' then set_reg d (NOT v) m
                 else (set_reg d (- v) m)\<lparr>mfl := Some (sub_flags 0 v)\<rparr>))
   | _ \<Rightarrow> None)"

definition exec_compare :: "string \<Rightarrow> string list \<Rightarrow> mach \<Rightarrow> mach option" where
  "exec_compare op args m = (case args of
     [src, dst] \<Rightarrow> (case (qval src m, qreg dst) of
         (Some v, Some d) \<Rightarrow> Some (m\<lparr>mfl := Some (if op \<in> {''testq'', ''test''}
              then logic_flags (regs m d AND v) else sub_flags (regs m d) v)\<rparr>)
       | _ \<Rightarrow> None)
   | _ \<Rightarrow> None)"

definition exec_op :: "string \<Rightarrow> string list \<Rightarrow> mach \<Rightarrow> mach option" where
  "exec_op op args m =
     (if starts_with ''state'' op then Some m
      else if op \<in> {''movq'', ''movl'', ''xchgq'', ''xchg'', ''leaq'', ''lea''} then exec_move op args m
      else case alu_op op of Some f \<Rightarrow> exec_binary f args m | None \<Rightarrow>
      if op \<in> {''incq'', ''decq'', ''notq'', ''negq''} then exec_unary op args m
      else case shift_op op of Some f \<Rightarrow> exec_shift f args m | None \<Rightarrow>
      if op \<in> {''cmpq'', ''cmp'', ''testq'', ''test''} then exec_compare op args m
      else None)"

text \<open>
  One step at a program counter: halt (past the end, or at \<open>ret\<close>), go on, or stuck (an
  instruction outside the subset, a jump on undescribed flags, or to an unknown label).
\<close>

datatype outcome = Halt | Goto nat mach | Stuck

definition mstep :: "opline list \<Rightarrow> nat \<Rightarrow> mach \<Rightarrow> outcome" where
  "mstep ops pc m = (if length ops \<le> pc then Halt
     else case ops ! pc of (op, args, lab) \<Rightarrow>
       if op \<in> {''ret'', ''retq''} then Halt
       else if op = ''label'' then Goto (Suc pc) m
       else case dget COND_JUMPS op of
         Some p \<Rightarrow> (case (mfl m, dget (labels_of ops) (jump_target args)) of
             (Some f, Some t) \<Rightarrow> Goto (if cond p f then t else Suc pc) m
           | _ \<Rightarrow> Stuck)
       | None \<Rightarrow> if op \<in> {''jmp'', ''jmpq''} then
             (case dget (labels_of ops) (jump_target args) of Some t \<Rightarrow> Goto t m | None \<Rightarrow> Stuck)
           else (case exec_op op args m of Some m' \<Rightarrow> Goto (Suc pc) m' | None \<Rightarrow> Stuck))"

text \<open>Running a body from a program counter until it halts.\<close>

inductive mexec :: "opline list \<Rightarrow> nat \<Rightarrow> mach \<Rightarrow> mach \<Rightarrow> bool" for ops where
  halt: "mstep ops pc m = Halt \<Longrightarrow> mexec ops pc m m"
| step: "mstep ops pc m = Goto pc' m1 \<Longrightarrow> mexec ops pc' m1 m' \<Longrightarrow> mexec ops pc m m'"

inductive_cases mexec_haltE: "mexec ops pc m m'"

section \<open>Flags and comparisons\<close>

lemma sint_bounds64: "- (2 ^ 63) \<le> sint (a :: word64) \<and> sint a < 2 ^ 63"
  using sint_greater_eq [of a] sint_less [of a] by simp

lemma sint_sub_wrap:
  "sint (a - b :: word64) = sint a - sint b \<or>
   sint (a - b) = sint a - sint b - 2 ^ 64 \<or> sint (a - b) = sint a - sint b + 2 ^ 64"
proof -
  have e: "sint (a - b) = signed_take_bit 63 (sint a - sint b)"
    by (simp add: sint_word_ariths)
  let ?d = "sint a - sint b"
  have "signed_take_bit 63 ?d mod 2 ^ 64 = ?d mod 2 ^ 64"
    using take_bit_signed_take_bit [of 64 63 ?d] by (simp add: take_bit_eq_mod)
  then obtain k where k: "?d = signed_take_bit 63 ?d + 2 ^ 64 * k"
    by (metis mod_eqE)
  have "- (2 ^ 63) \<le> signed_take_bit 63 ?d \<and> signed_take_bit 63 ?d < 2 ^ 63"
    using sint_bounds64 [of "a - b"] e by simp
  moreover have "- (2 ^ 64) < ?d \<and> ?d < 2 ^ 64"
    using sint_bounds64 [of a] sint_bounds64 [of b] by simp
  ultimately have "- 2 < k \<and> k < 2" using k by auto
  then have "k = - 1 \<or> k = 0 \<or> k = 1" by auto
  with k e show ?thesis by auto
qed

lemma sub_flags_signed: "(sint (a - b :: word64) < 0) \<noteq> (sint a - sint b \<noteq> sint (a - b)) \<longleftrightarrow> sint a < sint b"
proof -
  define x y d where "x = sint a" and "y = sint b" and "d = sint (a - b)"
  have d: "d = x - y \<or> d = x - y - 2 ^ 64 \<or> d = x - y + 2 ^ 64"
    unfolding x_def y_def d_def by (rule sint_sub_wrap)
  have b: "- (2 ^ 63) \<le> x" "x < 2 ^ 63" "- (2 ^ 63) \<le> y" "y < 2 ^ 63" "- (2 ^ 63) \<le> d" "d < 2 ^ 63"
    using sint_bounds64 [of a] sint_bounds64 [of b] sint_bounds64 [of "a - b"]
    unfolding x_def y_def d_def by blast+
  have "(d < 0) \<noteq> (x - y \<noteq> d) \<longleftrightarrow> x < y"
    using d
  proof (elim disjE)
    assume "d = x - y"
    then show ?thesis by simp
  next
    assume e: "d = x - y - 2 ^ 64"
    with b have "d < 0" "x - y \<noteq> d" "\<not> x < y" by simp_all
    then show ?thesis by simp
  next
    assume e: "d = x - y + 2 ^ 64"
    with b have "\<not> d < 0" "x - y \<noteq> d" "x < y" by simp_all
    then show ?thesis by simp
  qed
  then show ?thesis unfolding x_def y_def d_def .
qed

lemma sint_eq_iff64: "sint (a :: word64) = sint b \<longleftrightarrow> a = b"
  by (metis word_eq_iff_signed)

text \<open>The condition codes after a comparison are the comparisons of the two words.\<close>

lemma cond_sub_flags: "cond p (sub_flags a b) \<longleftrightarrow> eval_pred p a b"
proof (cases p)
  case Slt
  then show ?thesis using sub_flags_signed [of a b] by (simp add: sub_flags_def)
next
  case Sge
  then show ?thesis using sub_flags_signed [of a b] by (auto simp: sub_flags_def)
next
  case Sle
  then show ?thesis using sub_flags_signed [of a b] sint_eq_iff64 [of a b]
    by (auto simp: sub_flags_def)
next
  case Sgt
  then show ?thesis using sub_flags_signed [of a b] sint_eq_iff64 [of a b]
    by (auto simp: sub_flags_def)
qed (auto simp: sub_flags_def word_le_less_eq)

lemma cond_logic_flags: "cond p (logic_flags r) \<longleftrightarrow> eval_pred p r 0"
  using sint_eq_iff64 [of r 0] by (cases p) (auto simp: logic_flags_def word_neq_0_conv)

section \<open>The machine is deterministic\<close>

lemma mexec_deterministic:
  assumes "mexec ops pc m m1" and "mexec ops pc m m2"
  shows "m1 = m2"
  using assms
proof (induction arbitrary: m2 rule: mexec.induct)
  case (halt pc m)
  from halt.prems show ?case
    by (rule mexec_haltE) (use halt.hyps in simp_all)
next
  case (step pc m pc' m1 m')
  from step.prems show ?case
  proof (rule mexec_haltE)
    fix pc2 m3 assume "mstep ops pc m = Goto pc2 m3" and "mexec ops pc2 m3 m2"
    with step.hyps(1) have "mexec ops pc' m1 m2" by simp
    then show ?thesis by (rule step.IH)
  qed (use step.hyps(1) in simp)
qed

end
