(* ===== verification/EasmSound.thy ===== *)
theory EasmSound
  imports EasmMachine
begin

text \<open>
  The encoder of \<^theory_text>\<open>EasmSymbolic\<close> against the machine of \<^theory_text>\<open>EasmMachine\<close>. A body that keeps
  to \<open>disciplined\<close> (64-bit register names, forward branches on flags set by a
  comparison, no register first written inside a skipped region, \<open>ret\<close> last) is encoded
  to terms whose values are the machine's final registers.
\<close>

section \<open>Agreement of a symbolic state with a machine state\<close>

definition val :: "(string \<Rightarrow> word64) \<Rightarrow> sym_state \<Rightarrow> string \<Rightarrow> word64" where
  "val env st r = (case dget (terms st) r of Some t \<Rightarrow> eval env t | None \<Rightarrow> env r)"

definition keys :: "sym_state \<Rightarrow> string set" where
  "keys st = set (dkeys (terms st))"

definition agrees :: "(string \<Rightarrow> word64) \<Rightarrow> sym_state \<Rightarrow> mach \<Rightarrow> bool" where
  "agrees env st m \<longleftrightarrow> val env st = regs m"

definition flags_agree :: "(string \<Rightarrow> word64) \<Rightarrow> pred set \<Rightarrow> sym_state \<Rightarrow> mach \<Rightarrow> bool" where
  "flags_agree env P st m \<longleftrightarrow> (\<forall>p\<in>P. \<exists>l r f. flags st = Some (l, r) \<and> mfl m = Some f \<and>
     (cond p f \<longleftrightarrow> eval_pred p (eval env l) (eval env r)))"

lemma flags_agree_empty [simp]: "flags_agree env {} st m"
  by (simp add: flags_agree_def)

lemma flags_agree_cong:
  "flags st' = flags st \<Longrightarrow> mfl m' = mfl m \<Longrightarrow> flags_agree env P st' m' = flags_agree env P st m"
  by (simp add: flags_agree_def)

text \<open>The bundle each instruction group establishes.\<close>

definition sound_step ::
    "(string \<Rightarrow> word64) \<Rightarrow> pred set \<Rightarrow> string set \<Rightarrow> string set \<Rightarrow> sym_state \<Rightarrow> sym_state \<Rightarrow> mach \<Rightarrow> bool" where
  "sound_step env Q D K st st' m' \<longleftrightarrow> agrees env st' m' \<and> flags_agree env Q st' m' \<and>
     keys st \<union> K \<subseteq> keys st' \<and> (\<forall>r. r \<notin> D \<longrightarrow> val env st' r = val env st r)"

lemma val_upd [simp]:
  "val env (st\<lparr>terms := dset r t (terms st)\<rparr>) = (val env st)(r := eval env t)"
  by (rule ext) (simp add: val_def)

lemma val_flags [simp]: "val env (st\<lparr>flags := f\<rparr>) = val env st"
  by (rule ext) (simp add: val_def)

lemma val_ambient [simp]: "val env (st\<lparr>ambient := a\<rparr>) = val env st"
  by (rule ext) (simp add: val_def)

lemma keys_upd [simp]: "keys (st\<lparr>terms := dset r t (terms st)\<rparr>) = insert r (keys st)"
  by (auto simp: keys_def dkeys_dset)

lemma keys_other [simp]:
  "keys (st\<lparr>flags := f\<rparr>) = keys st" "keys (st\<lparr>ambient := a\<rparr>) = keys st"
  by (simp_all add: keys_def)

lemma val_not_key: "r \<notin> keys st \<Longrightarrow> val env st r = env r"
  by (simp add: val_def keys_def dget_None_conv [THEN iffD2])

section \<open>Reading and writing operands\<close>

lemma read_op_frame:
  assumes "read_op a st = (x, st')"
  shows "val env st' = val env st \<and> flags st' = flags st \<and> ambient st' = ambient st \<and>
    keys st' = keys st \<union> set_option (reg a)"
proof (cases "reg a")
  case None
  then show ?thesis using assms by (auto simp: read_op_def)
next
  case (Some r)
  show ?thesis
  proof (cases "dget (terms st) r")
    case None
    have "val env (st\<lparr>terms := dset r (In r) (terms st), inputs := i\<rparr>) = val env st" for i
      by (rule ext) (simp add: val_def None)
    then show ?thesis using assms Some None
      by (auto simp: read_op_def keys_def dkeys_dset split: if_splits)
  next
    case t: (Some t)
    then have "r \<in> keys st" using dget_dom [of "terms st" r] by (auto simp: keys_def)
    then show ?thesis using assms Some t by (auto simp: read_op_def)
  qed
qed

lemma read_op_reg:
  "read_op a st = (Some t, st') \<Longrightarrow> reg a = Some r \<Longrightarrow> eval env t = val env st r"
  by (auto simp: read_op_def val_def split: option.splits)

lemma read_op_imm:
  "read_op a st = (Some t, st') \<Longrightarrow> reg a = None \<Longrightarrow> \<exists>i. immediate a = Some i \<and> eval env t = word_of_int i"
  by (auto simp: read_op_def)

text \<open>The machine reads the same operand.\<close>

lemma read_op_qval:
  assumes "read_op a st = (Some t, st')" and "agrees env st m" and "\<not> is_32bit_register a"
  shows "qval a m = Some (eval env t)"
  using assms read_op_reg [OF assms(1), of _ env] read_op_imm [OF assms(1), of env]
  by (auto simp: qval_def agrees_def split: option.splits)

lemma read_op_dval:
  assumes "read_op a st = (Some t, st')" and "agrees env st m"
    and "reg a \<noteq> None \<Longrightarrow> is_32bit_register a"
  shows "dval a m = Some (low32 (eval env t))"
  using assms read_op_reg [OF assms(1), of _ env] read_op_imm [OF assms(1), of env]
  by (auto simp: dval_def agrees_def split: option.splits)

lemma write_op_state:
  assumes "write_op a t st = Some st'"
  obtains r where "reg a = Some r" "st' = st\<lparr>terms := dset r t (terms st)\<rparr>"
  using assms by (auto simp: write_op_def split: option.splits)

section \<open>What the soundness theorem asks of a line\<close>

definition same_size :: "string list \<Rightarrow> bool" where
  "same_size args \<longleftrightarrow> list_all (\<lambda>a. \<not> is_32bit_register a) args"

definition wf_line :: "string \<Rightarrow> string list \<Rightarrow> bool" where
  "wf_line op args \<longleftrightarrow>
     (if starts_with ''state'' op then True
      else if op = ''movl'' then
        length args = 2 \<and> (reg (args ! 0) \<noteq> None \<longrightarrow> is_32bit_register (args ! 0))
      else if op \<in> {''leaq'', ''lea''} then
        same_size args \<and> length args = 2 \<and> qaddress (args ! 0) \<noteq> None
      else args \<noteq> [] \<and> same_size args \<and> reg (last args) \<noteq> None \<and>
        (shift_op op \<noteq> None \<longrightarrow> (case immediate (hd args) of None \<Rightarrow> False | Some n \<Rightarrow> 0 \<le> n \<and> n < 64)))"

text \<open>The registers a line names, and those it may change.\<close>

definition named :: "string list \<Rightarrow> string set" where
  "named args = set (List.map_filter reg args)"

definition dests :: "string \<Rightarrow> string list \<Rightarrow> string set" where
  "dests op args =
     (if starts_with ''state'' op \<or> op \<in> {''cmpq'', ''cmp'', ''testq'', ''test'', ''ret'', ''retq''} then {}
      else if op \<in> {''xchgq'', ''xchg''} then named args
      else case args of [] \<Rightarrow> {} | _ \<Rightarrow> set_option (reg (last args)))"

text \<open>The predicates the encoder's flags are right for after a line.\<close>

definition fvalid :: "string \<Rightarrow> pred set \<Rightarrow> pred set" where
  "fvalid op P =
     (if op \<in> {''cmpq'', ''cmp'', ''testq'', ''test''} then UNIV
      else if op \<in> {''incq'', ''decq''} then {Eq, Ne}
      else if alu_op op \<noteq> None \<or> shift_op op \<noteq> None \<or> op = ''negq'' then {}
      else P)"

lemma length2: "length xs = 2 \<Longrightarrow> \<exists>a b. xs = [a, b]"
  by (cases xs; cases "tl xs") auto

lemma length1: "length xs = 1 \<Longrightarrow> \<exists>a. xs = [a]"
  by (cases xs) auto

lemma named_simps [simp]:
  "named [] = {}" "named (a # as) = set_option (reg a) \<union> named as"
  by (auto simp: named_def List.map_filter_def split: option.splits)

lemma reg_of_REGS: "r \<in> set REGS \<Longrightarrow> reg (CHR ''%'' # r) = Some r"
  unfolding REGS_def by (simp, elim disjE; simp; code_simp)

section \<open>Instruction groups\<close>

lemma movq_sound:
  assumes ap: "apply_movq st op args = Inr (None, st')" and sz: "same_size args"
    and ag: "agrees env st m" and fl: "flags_agree env P st m"
    and op: "op = ''movq''"
  shows "\<exists>m'. exec_move op args m = Some m' \<and>
    sound_step env P (set_option (reg (last args))) (named args) st st' m'"
proof -
  from ap obtain a b where args: "args = [a, b]"
    using length2 by (auto simp: apply_movq_def split: if_splits)
  from ap args obtain t st1 where rd: "read_op a st = (Some t, st1)"
    and wr: "write_op b t st1 = Some st'"
    by (auto simp: apply_movq_def split: prod.splits option.splits)
  from wr obtain r where r: "reg b = Some r" "st' = st1\<lparr>terms := dset r t (terms st1)\<rparr>"
    by (rule write_op_state)
  have "qval a m = Some (eval env t)"
    using rd ag sz args by (auto intro: read_op_qval simp: same_size_def)
  moreover have "qreg b = Some r" using r sz args by (simp add: qreg_def same_size_def)
  ultimately have "exec_move op args m = Some (set_reg r (eval env t) m)"
    using args op by (simp add: exec_move_def)
  moreover have "sound_step env P (set_option (reg (last args))) (named args) st st' (set_reg r (eval env t) m)"
    using read_op_frame [OF rd, of env] r args ag fl
    by (auto simp: sound_step_def agrees_def set_reg_def flags_agree_def)
  ultimately show ?thesis by blast
qed

lemma movl_sound:
  assumes ap: "apply_movl st args = Inr (None, st')"
    and sz: "reg (args ! 0) \<noteq> None \<Longrightarrow> is_32bit_register (args ! 0)"
    and ag: "agrees env st m" and fl: "flags_agree env P st m"
  shows "\<exists>m'. exec_move ''movl'' args m = Some m' \<and>
    sound_step env P (set_option (reg (last args))) (named args) st st' m'"
proof -
  from ap obtain a b where args: "args = [a, b]"
    using length2 by (auto simp: apply_movl_def split: if_splits)
  from ap args obtain t st1 where rd: "read_op a st = (Some t, st1)"
    and wr: "write_op b (Low32 t) st1 = Some st'" and b: "is_32bit_register b"
    by (auto simp: apply_movl_def split: prod.splits option.splits if_splits)
  from wr obtain r where r: "reg b = Some r" "st' = st1\<lparr>terms := dset r (Low32 t) (terms st1)\<rparr>"
    by (rule write_op_state)
  have "dval a m = Some (low32 (eval env t))"
    using rd ag sz args by (auto intro: read_op_dval)
  then have "exec_move ''movl'' args m = Some (set_reg r (low32 (eval env t)) m)"
    using args r b by (simp add: exec_move_def)
  moreover have "sound_step env P (set_option (reg (last args))) (named args) st st'
      (set_reg r (low32 (eval env t)) m)"
    using read_op_frame [OF rd, of env] r args ag fl
    by (auto simp: sound_step_def agrees_def set_reg_def flags_agree_def)
  ultimately show ?thesis by blast
qed

lemma alu_sound:
  assumes ap: "apply_alu st op f args = Inr (None, st')" and sz: "same_size args"
    and ds: "reg (last args) \<noteq> None" and ag: "agrees env st m"
  shows "\<exists>m'. exec_binary f args m = Some m' \<and>
    sound_step env {} (set_option (reg (last args))) (named args) st st' m'"
proof -
  from ap obtain a b where args: "args = [a, b]"
    using length2 by (auto simp: apply_alu_def split: if_splits)
  with ds obtain r where r: "reg b = Some r" by auto
  from ap args r obtain s d st1 st2 where rd: "read_op a st = (Some s, st1)"
    and rd2: "read_op b st1 = (Some d, st2)"
    and st': "st' = st2\<lparr>terms := dset r (Bin f d s) (terms st2)\<rparr>"
    by (auto simp: apply_alu_def write_op_def split: prod.splits option.splits)
  have q: "qval a m = Some (eval env s)"
    using rd ag sz args by (auto intro: read_op_qval simp: same_size_def)
  have d: "eval env d = regs m r"
    using read_op_reg [OF rd2 r, of env] read_op_frame [OF rd, of env] ag by (simp add: agrees_def)
  have "qreg b = Some r" using r sz args by (simp add: qreg_def same_size_def)
  with q have "exec_binary f args m = Some ((set_reg r (eval_binop f (regs m r) (eval env s)) m)
      \<lparr>mfl := alu_flags f (regs m r) (eval env s)\<rparr>)"
    using args by (simp add: exec_binary_def)
  moreover have "sound_step env {} (set_option (reg (last args))) (named args) st st'
      ((set_reg r (eval_binop f (regs m r) (eval env s)) m)
      \<lparr>mfl := alu_flags f (regs m r) (eval env s)\<rparr>)"
    using read_op_frame [OF rd, of env] read_op_frame [OF rd2, of env] r args ag d st'
    by (auto simp: sound_step_def agrees_def set_reg_def)
  ultimately show ?thesis by blast
qed

lemma shift_sound:
  assumes ap: "apply_shift st op f args = Inr (None, st')" and sz: "same_size args"
    and n: "immediate (hd args) = Some n" "0 \<le> n" "n < 64" and ag: "agrees env st m"
  shows "\<exists>m'. exec_shift f args m = Some m' \<and>
    sound_step env {} (set_option (reg (last args))) (named args) st st' m'"
proof -
  from ap obtain a b where args: "args = [a, b]"
    using length2 by (auto simp: apply_shift_def split: if_splits)
  with n have na: "reg a = None" by (auto simp: immediate_def reg_def Let_def split: if_splits list.splits)
  from ap args n obtain t st1 where rd: "read_op b st = (Some t, st1)"
    and wr: "write_op b (Bin f t (bv n)) st1 = Some st'"
    by (auto simp: apply_shift_def split: prod.splits option.splits)
  from wr obtain r where r: "reg b = Some r" "st' = st1\<lparr>terms := dset r (Bin f t (bv n)) (terms st1)\<rparr>"
    by (rule write_op_state)
  have t: "eval env t = regs m r"
    using read_op_reg [OF rd r(1), of env] ag by (simp add: agrees_def)
  have "qreg b = Some r" using r sz args by (simp add: qreg_def same_size_def)
  then have "exec_shift f args m = Some ((set_reg r (eval_binop f (regs m r) (word_of_int n)) m)\<lparr>mfl := None\<rparr>)"
    using args n by (simp add: exec_shift_def)
  moreover have "sound_step env {} (set_option (reg (last args))) (named args) st st'
      ((set_reg r (eval_binop f (regs m r) (word_of_int n)) m)\<lparr>mfl := None\<rparr>)"
    using read_op_frame [OF rd, of env] r args ag t na
    by (auto simp: sound_step_def agrees_def set_reg_def)
  ultimately show ?thesis by blast
qed

lemma zf_keep [simp]: "keep_carry old f = Some g \<Longrightarrow> zf g = zf f"
  by (auto simp: keep_carry_def split: option.splits)

lemma keep_carry_Some: "\<exists>g. keep_carry old f = Some g \<and> zf g = zf f"
  by (cases old) (auto simp: keep_carry_def)

text \<open>After \<open>inc\<close> and \<open>dec\<close> the result compared with zero decides the zero flag.\<close>

lemma flags_agree_zero:
  assumes "flags st = Some (t, bv 0)" and "mfl m = keep_carry old f"
    and "zf f \<longleftrightarrow> eval env t = 0"
  shows "flags_agree env {Eq, Ne} st m"
  using assms keep_carry_Some [of old f] by (auto simp: flags_agree_def)

lemma unary_sound:
  assumes ap: "apply_unary st op args = Inr (None, st')" and sz: "same_size args"
    and op: "op \<in> {''incq'', ''decq'', ''notq'', ''negq''}"
    and ag: "agrees env st m" and fl: "flags_agree env P st m"
  shows "\<exists>m'. exec_unary op args m = Some m' \<and>
    sound_step env (fvalid op P) (set_option (reg (last args))) (named args) st st' m'"
proof -
  from ap obtain a where args: "args = [a]"
    using length1 by (auto simp: apply_unary_def split: if_splits)
  from ap args obtain t st1 st2 where rd: "read_op a st = (Some t, st1)"
    and wr: "write_op a (unary_term op t) st1 = Some st2"
    and st': "st' = (if op \<in> {''incq'', ''decq''} then st2\<lparr>flags := Some (unary_term op t, bv 0)\<rparr> else st2)"
    by (auto simp: apply_unary_def split: prod.splits option.splits)
  from wr obtain r where r: "reg a = Some r" "st2 = st1\<lparr>terms := dset r (unary_term op t) (terms st1)\<rparr>"
    by (rule write_op_state)
  have t: "eval env t = regs m r"
    using read_op_reg [OF rd r(1), of env] ag by (simp add: agrees_def)
  have q: "qreg a = Some r" using r sz args by (simp add: qreg_def same_size_def)
  note frame = read_op_frame [OF rd, of env]
  from op consider "op = ''incq''" | "op = ''decq''" | "op = ''notq''" | "op = ''negq''" by blast
  then show ?thesis
  proof cases
    case 1
    let ?m = "(set_reg r (regs m r + 1) m)\<lparr>mfl := keep_carry (mfl m) (add_flags (regs m r) 1)\<rparr>"
    have "exec_unary op args m = Some ?m" using args q 1 by (simp add: exec_unary_def Let_def)
    moreover have "flags_agree env {Eq, Ne} st' ?m"
      by (rule flags_agree_zero [where t = "unary_term op t" and old = "mfl m" and f = "add_flags (regs m r) 1"])
         (use st' 1 t in \<open>simp_all add: unary_term_def add_flags_def\<close>)
    ultimately show ?thesis using frame args r st' 1 t ag
      by (auto simp: sound_step_def agrees_def set_reg_def fvalid_def unary_term_def)
  next
    case 2
    let ?m = "(set_reg r (regs m r - 1) m)\<lparr>mfl := keep_carry (mfl m) (sub_flags (regs m r) 1)\<rparr>"
    have "exec_unary op args m = Some ?m" using args q 2 by (simp add: exec_unary_def Let_def)
    moreover have "flags_agree env {Eq, Ne} st' ?m"
      by (rule flags_agree_zero [where t = "unary_term op t" and old = "mfl m" and f = "sub_flags (regs m r) 1"])
         (use st' 2 t in \<open>simp_all add: unary_term_def sub_flags_def\<close>)
    ultimately show ?thesis using frame args r st' 2 t ag
      by (auto simp: sound_step_def agrees_def set_reg_def fvalid_def unary_term_def)
  next
    case 3
    have "exec_unary op args m = Some (set_reg r (NOT (regs m r)) m)"
      using args q 3 by (simp add: exec_unary_def Let_def)
    moreover have "fvalid op P = P" using 3 by (simp add: fvalid_def alu_op_def shift_op_def)
    ultimately show ?thesis using frame args r st' 3 t ag fl
      by (auto simp: sound_step_def agrees_def set_reg_def unary_term_def flags_agree_def)
  next
    case 4
    have "exec_unary op args m = Some ((set_reg r (- regs m r) m)\<lparr>mfl := Some (sub_flags 0 (regs m r))\<rparr>)"
      using args q 4 by (simp add: exec_unary_def Let_def)
    moreover have "fvalid op P = {}" using 4 by (simp add: fvalid_def)
    ultimately show ?thesis using frame args r st' 4 t ag
      by (auto simp: sound_step_def agrees_def set_reg_def unary_term_def)
  qed
qed

lemma xchg_sound:
  assumes ap: "apply_xchg st args = Inr (None, st')" and sz: "same_size args"
    and op: "op \<in> {''xchgq'', ''xchg''}"
    and ag: "agrees env st m" and fl: "flags_agree env P st m"
  shows "\<exists>m'. exec_move op args m = Some m' \<and> sound_step env P (named args) (named args) st st' m'"
proof -
  from ap obtain a b where args: "args = [a, b]"
    using length2 by (auto simp: apply_xchg_def split: if_splits)
  from ap args obtain ra rb where ra: "reg a = Some ra" and rb: "reg b = Some rb"
    by (auto simp: apply_xchg_def split: if_splits)
  from ap args ra rb obtain l r st1 st2 where rd: "read_op a st = (Some l, st1)"
    and rd2: "read_op b st1 = (Some r, st2)"
    and st': "st' = st2\<lparr>terms := dset rb l (dset ra r (terms st2))\<rparr>"
    by (auto simp: apply_xchg_def write_op_def split: prod.splits option.splits)
  note f1 = read_op_frame [OF rd, of env] and f2 = read_op_frame [OF rd2, of env]
  have l: "eval env l = regs m ra" using read_op_reg [OF rd ra, of env] ag by (simp add: agrees_def)
  have r: "eval env r = regs m rb"
    using read_op_reg [OF rd2 rb, of env] f1 ag by (simp add: agrees_def)
  have "qreg a = Some ra" "qreg b = Some rb" using ra rb sz args by (simp_all add: qreg_def same_size_def)
  then have ex: "exec_move op args m = Some (set_reg rb (regs m ra) (set_reg ra (regs m rb) m))"
    using args op by (auto simp: exec_move_def)
  have v: "val env st' = ((val env st2)(ra := eval env r))(rb := eval env l)"
    unfolding st' by (rule ext) (simp add: val_def)
  have k: "keys st' = keys st2 \<union> {ra, rb}" by (auto simp: st' keys_def dkeys_dset)
  show ?thesis
    using ex v k f1 f2 l r ag fl args ra rb st'
    by (auto simp: sound_step_def agrees_def set_reg_def flags_agree_def)
qed

lemma lea_sound:
  assumes ap: "apply_lea st args = Inr (None, st')" and sz: "same_size args"
    and op: "op \<in> {''leaq'', ''lea''}" and qa: "qaddress (args ! 0) \<noteq> None"
    and ag: "agrees env st m" and fl: "flags_agree env P st m"
  shows "\<exists>m'. exec_move op args m = Some m' \<and>
    sound_step env P (set_option (reg (last args))) (named [last args]) st st' m'"
proof -
  from ap obtain a b where args: "args = [a, b]"
    using length2 by (auto simp: apply_lea_def split: if_splits)
  from ap args obtain base disp t st1 where ad: "lea_displacement a = Inr (Some (base, disp))"
    and rd: "read_op (''%'' @ base) st = (Some t, st1)"
    and wr: "write_op b (Bin BvAdd t (bv disp)) st1 = Some st'"
    by (auto simp: apply_lea_def split: prod.splits option.splits)
  from wr obtain r where r: "reg b = Some r" "st' = st1\<lparr>terms := dset r (Bin BvAdd t (bv disp)) (terms st1)\<rparr>"
    by (rule write_op_state)
  have q: "qaddress a = Some (base, disp)" and bs: "base \<in> set REGS"
    using qa ad args reg_of_REGS
    by (auto simp: qaddress_def lea_displacement_def split: option.splits if_splits)
  have t: "eval env t = regs m base"
    using read_op_reg [OF rd, of base env] reg_of_REGS [OF bs] ag by (simp add: agrees_def)
  have "qreg b = Some r" using r sz args by (simp add: qreg_def same_size_def)
  with q have "exec_move op args m = Some (set_reg r (regs m base + word_of_int disp) m)"
    using args op by (auto simp: exec_move_def)
  moreover have "sound_step env P (set_option (reg (last args))) (named [last args]) st st'
      (set_reg r (regs m base + word_of_int disp) m)"
    using read_op_frame [OF rd, of env] r args ag fl t
    by (auto simp: sound_step_def agrees_def set_reg_def flags_agree_def)
  ultimately show ?thesis by blast
qed

lemma flags_agree_all:
  assumes "flags st = Some (l, r)" and "mfl m = Some f"
    and "\<And>p. cond p f \<longleftrightarrow> eval_pred p (eval env l) (eval env r)"
  shows "flags_agree env Q st m"
  using assms by (simp add: flags_agree_def)

lemma compare_sound:
  assumes ap: "apply_compare st op args = Inr (None, st')" and sz: "same_size args"
    and ds: "reg (last args) \<noteq> None"
    and op: "op \<in> {''cmpq'', ''cmp'', ''testq'', ''test''}" and ag: "agrees env st m"
  shows "\<exists>m'. exec_compare op args m = Some m' \<and> sound_step env UNIV {} (named args) st st' m'"
proof -
  from ap obtain a b where args: "args = [a, b]"
    using length2 by (auto simp: apply_compare_def split: if_splits)
  with ds obtain d where d: "reg b = Some d" by auto
  obtain lf st1 where rd: "read_op b st = (lf, st1)" by (metis surj_pair)
  obtain rt st2 where rd2: "read_op a st1 = (rt, st2)" by (metis surj_pair)
  note f1 = read_op_frame [OF rd, of env] and f2 = read_op_frame [OF rd2, of env]
  have q: "qreg b = Some d" using d sz args by (simp add: qreg_def same_size_def)
  have ag1: "agrees env st1 m" and ag2: "agrees env st2 m" using ag f1 f2 by (simp_all add: agrees_def)
  show ?thesis
  proof (cases "starts_with ''test'' op")
    case True
    obtain x st3 where rd3: "read_op a st2 = (x, st3)" by (metis surj_pair)
    obtain y st4 where rd4: "read_op b st3 = (y, st4)" by (metis surj_pair)
    note f3 = read_op_frame [OF rd3, of env] and f4 = read_op_frame [OF rd4, of env]
    from ap True args rd rd2 rd3 rd4 obtain l r where xy: "x = Some l" "y = Some r"
      and st': "st' = st4\<lparr>flags := Some (Bin BvAnd l r, bv 0)\<rparr>"
      by (auto simp: apply_compare_def split: option.splits)
    have "qval a m = Some (eval env l)"
      using rd3 xy ag2 sz args by (auto intro: read_op_qval simp: same_size_def)
    moreover have e: "eval env r = regs m d"
      using read_op_reg [OF rd4 [unfolded xy] d, of env] f3 ag2 by (simp add: agrees_def)
    moreover have "op \<in> {''testq'', ''test''}" using True op by auto
    ultimately have ex: "exec_compare op args m = Some (m\<lparr>mfl := Some (logic_flags (regs m d AND eval env l))\<rparr>)"
      using args q by (simp add: exec_compare_def)
    have "flags_agree env UNIV st' (m\<lparr>mfl := Some (logic_flags (regs m d AND eval env l))\<rparr>)"
      by (rule flags_agree_all [where l = "Bin BvAnd l r" and r = "bv 0"])
         (use st' e cond_logic_flags [of _ "eval env l AND regs m d"] in
            \<open>simp_all add: and.commute [of "regs m d"]\<close>)
    then show ?thesis using ex f1 f2 f3 f4 st' ag args d
      by (auto simp: sound_step_def agrees_def)
  next
    case False
    from ap False args rd rd2 obtain l r where xy: "lf = Some l" "rt = Some r"
      and st': "st' = st2\<lparr>flags := Some (l, r)\<rparr>"
      by (auto simp: apply_compare_def split: option.splits)
    have "qval a m = Some (eval env r)"
      using rd2 xy ag1 sz args by (auto intro: read_op_qval simp: same_size_def)
    moreover have e: "eval env l = regs m d"
      using read_op_reg [OF rd [unfolded xy] d, of env] ag by (simp add: agrees_def)
    moreover have "op \<notin> {''testq'', ''test''}" using False by auto
    ultimately have ex: "exec_compare op args m = Some (m\<lparr>mfl := Some (sub_flags (regs m d) (eval env r))\<rparr>)"
      using args q by (simp add: exec_compare_def)
    have "flags_agree env UNIV st' (m\<lparr>mfl := Some (sub_flags (regs m d) (eval env r))\<rparr>)"
      by (rule flags_agree_all [where l = l and r = r]) (use st' e cond_sub_flags [of _ "regs m d" "eval env r"] in simp_all)
    then show ?thesis using ex f1 f2 st' ag args d
      by (auto simp: sound_step_def agrees_def)
  qed
qed

section \<open>Any instruction\<close>

definition seen :: "string \<Rightarrow> string list \<Rightarrow> string set" where
  "seen op args = (if starts_with ''state'' op then {}
     else if op \<in> {''leaq'', ''lea''} then named [last args] else named args)"

lemma alu_op_names: "alu_op op = Some f \<Longrightarrow> op \<in> set [''addq'', ''subq'', ''andq'', ''orq'', ''xorq'']"
  by (auto simp: alu_op_def split: if_splits)

lemma shift_op_names: "shift_op op = Some f \<Longrightarrow> op \<in> set [''shlq'', ''salq'', ''shrq'', ''sarq'']"
  by (auto simp: shift_op_def split: if_splits)

text \<open>The mnemonics of each group, and that the groups do not overlap.\<close>

lemma op_groups:
  assumes "apply_op st op args = Inr (None, st')"
  obtains
    (ret) "op \<in> {''ret'', ''retq''}"
  | (state) "starts_with ''state'' op" "apply_state st args = Inr (None, st')"
  | (movq) "op = ''movq''" "apply_movq st op args = Inr (None, st')"
  | (movl) "op = ''movl''" "apply_movl st args = Inr (None, st')"
  | (alu) f where "alu_op op = Some f" "apply_alu st op f args = Inr (None, st')"
  | (unary) "op \<in> {''incq'', ''decq'', ''notq'', ''negq''}" "apply_unary st op args = Inr (None, st')"
  | (shift) f where "shift_op op = Some f" "apply_shift st op f args = Inr (None, st')"
  | (xchg) "op \<in> {''xchgq'', ''xchg''}" "apply_xchg st args = Inr (None, st')"
  | (lea) "op \<in> {''leaq'', ''lea''}" "apply_lea st args = Inr (None, st')"
  | (compare) "op \<in> {''cmpq'', ''cmp'', ''testq'', ''test''}" "apply_compare st op args = Inr (None, st')"
  using assms unfolding apply_op_def by (auto split: if_splits option.splits)

lemma apply_state_sound:
  assumes "apply_state st args = Inr (None, st')" "agrees env st m" "flags_agree env P st m"
  shows "sound_step env P {} {} st st' m"
  using assms
  by (auto simp: apply_state_def Let_def sound_step_def agrees_def flags_agree_def split: if_splits)

text \<open>What the tables say of each group of mnemonics.\<close>

lemma last_dest: "args \<noteq> [] \<Longrightarrow> (case args of [] \<Rightarrow> {} | _ # _ \<Rightarrow> set_option (reg (last args))) = set_option (reg (last args))"
  by (cases args) simp_all

lemmas table_defs = dests_def seen_def fvalid_def exec_op_def wf_line_def

lemma alu_facts:
  assumes "alu_op op = Some f" and "wf_line op args"
  shows "same_size args \<and> reg (last args) \<noteq> None \<and> exec_op op args m = exec_binary f args m \<and>
    fvalid op P = {} \<and> dests op args = set_option (reg (last args)) \<and> seen op args = named args"
proof -
  have "op = ''addq'' \<or> op = ''subq'' \<or> op = ''andq'' \<or> op = ''orq'' \<or> op = ''xorq''"
    using alu_op_names [OF assms(1)] by simp
  then show ?thesis using assms by (elim disjE; simp add: table_defs last_dest)
qed

lemma shift_facts:
  assumes "shift_op op = Some f" and "wf_line op args"
  shows "same_size args \<and> (\<exists>n. immediate (hd args) = Some n \<and> 0 \<le> n \<and> n < 64) \<and>
    exec_op op args m = exec_shift f args m \<and>
    fvalid op P = {} \<and> dests op args = set_option (reg (last args)) \<and> seen op args = named args"
proof -
  have "op = ''shlq'' \<or> op = ''salq'' \<or> op = ''shrq'' \<or> op = ''sarq''"
    using shift_op_names [OF assms(1)] by simp
  then show ?thesis using assms
    by (elim disjE; simp add: table_defs last_dest alu_op_def split: option.splits)
qed

lemma unary_facts:
  assumes "op \<in> {''incq'', ''decq'', ''notq'', ''negq''}" and "wf_line op args"
  shows "same_size args \<and> exec_op op args m = exec_unary op args m \<and>
    dests op args = set_option (reg (last args)) \<and> seen op args = named args"
proof -
  have "op = ''incq'' \<or> op = ''decq'' \<or> op = ''notq'' \<or> op = ''negq''" using assms(1) by blast
  then show ?thesis using assms(2)
    by (elim disjE; simp add: table_defs last_dest alu_op_def shift_op_def)
qed

lemma move_facts:
  assumes "op = ''movq'' \<or> op = ''leaq'' \<or> op = ''lea''" and "wf_line op args"
  shows "same_size args \<and> exec_op op args m = exec_move op args m \<and> fvalid op P = P \<and>
    dests op args = set_option (reg (last args)) \<and>
    (op = ''movq'' \<longrightarrow> seen op args = named args) \<and>
    (op \<noteq> ''movq'' \<longrightarrow> seen op args = named [last args] \<and> qaddress (args ! 0) \<noteq> None)"
  using assms
  by (elim disjE; cases args) (simp_all add: table_defs last_dest alu_op_def shift_op_def)

lemma xchg_facts:
  assumes "op = ''xchgq'' \<or> op = ''xchg''" and "wf_line op args"
  shows "same_size args \<and> exec_op op args m = exec_move op args m \<and> fvalid op P = P \<and>
    dests op args = named args \<and> seen op args = named args"
  using assms by (elim disjE; simp add: table_defs alu_op_def shift_op_def)

lemma compare_facts:
  assumes "op \<in> {''cmpq'', ''cmp'', ''testq'', ''test''}" and "wf_line op args"
  shows "same_size args \<and> reg (last args) \<noteq> None \<and> exec_op op args m = exec_compare op args m \<and>
    fvalid op P = UNIV \<and> dests op args = {} \<and> seen op args = named args"
proof -
  have "op = ''cmpq'' \<or> op = ''cmp'' \<or> op = ''testq'' \<or> op = ''test''" using assms(1) by blast
  then show ?thesis using assms(2) by (elim disjE; simp add: table_defs alu_op_def shift_op_def)
qed

lemma apply_op_sound:
  assumes ap: "apply_op st op args = Inr (None, st')" and wf: "wf_line op args"
    and nr: "op \<notin> {''ret'', ''retq''}"
    and ag: "agrees env st m" and fl: "flags_agree env P st m"
  shows "\<exists>m'. exec_op op args m = Some m' \<and>
    sound_step env (fvalid op P) (dests op args) (seen op args) st st' m'"
  using ap
proof (cases rule: op_groups)
  case ret
  with nr show ?thesis by simp
next
  case state
  obtain t where op: "op = ''state'' @ t" using state(1) unfolding starts_with_iff by blast
  have "fvalid op P = P" "dests op args = {}" "seen op args = {}" "exec_op op args m = Some m"
    unfolding op by (simp_all add: fvalid_def alu_op_def shift_op_def dests_def seen_def exec_op_def)
  then show ?thesis using apply_state_sound [OF state(2) ag fl] by simp
next
  case movq
  note f = move_facts [of op args m P, OF _ wf] and m = movq(1)
  show ?thesis using movq_sound [OF movq(2) _ ag fl m] f m by simp
next
  case movl
  have w: "reg (args ! 0) \<noteq> None \<Longrightarrow> is_32bit_register (args ! 0)" "args \<noteq> []"
    using wf movl(1) by (auto simp: wf_line_def)
  have "exec_op op args m = exec_move ''movl'' args m" "fvalid op P = P"
    "dests op args = set_option (reg (last args))" "seen op args = named args"
    unfolding movl(1) using w(2) by (simp_all add: table_defs last_dest alu_op_def shift_op_def)
  then show ?thesis using movl_sound [OF movl(2) w(1) ag fl] by simp
next
  case (alu f)
  show ?thesis using alu_facts [OF alu(1) wf, of m P] alu_sound [OF alu(2) _ _ ag] by simp
next
  case unary
  show ?thesis using unary_facts [OF unary(1) wf, of m] unary_sound [OF unary(2) _ unary(1) ag fl] by simp
next
  case (shift f)
  from shift_facts [OF shift(1) wf, of m P] obtain n
    where f: "same_size args" "immediate (hd args) = Some n" "0 \<le> n" "n < 64" by blast
  show ?thesis using shift_facts [OF shift(1) wf, of m P] shift_sound [OF shift(2) f ag] by simp
next
  case xchg
  then have "op = ''xchgq'' \<or> op = ''xchg''" by blast
  then show ?thesis using xchg_facts [OF _ wf, of m P] xchg_sound [OF xchg(2) _ xchg(1) ag fl] by simp
next
  case lea
  then have o: "op = ''movq'' \<or> op = ''leaq'' \<or> op = ''lea''" and "op \<noteq> ''movq''" by auto
  then show ?thesis
    using move_facts [OF o wf, of m P] lea_sound [OF lea(2) _ lea(1) _ ag fl] by simp
next
  case compare
  show ?thesis
    using compare_facts [OF compare(1) wf, of m P] compare_sound [OF compare(2) _ _ compare(1) ag] by simp
qed

section \<open>Forward branches\<close>

text \<open>
  A skipped region the machine can run straight through: no jump, no \<open>ret\<close>, and every
  register it changes is one the encoder already has a term for.
\<close>

definition plain_line :: "string set \<Rightarrow> opline \<Rightarrow> bool" where
  "plain_line known l = (case l of (op, args, lab) \<Rightarrow> op = ''label'' \<or>
     (wf_line op args \<and> op \<notin> {''ret'', ''retq''} \<and> dests op args \<subseteq> known))"

inductive straight :: "opline list \<Rightarrow> mach \<Rightarrow> mach \<Rightarrow> bool" where
  nil: "straight [] m m"
| label: "straight ops m m' \<Longrightarrow> straight ((''label'', args, lab) # ops) m m'"
| instr: "dget COND_JUMPS op = None \<Longrightarrow> op \<notin> {''label'', ''ret'', ''retq'', ''jmp'', ''jmpq''} \<Longrightarrow>
    exec_op op args m = Some m1 \<Longrightarrow> straight ops m1 m' \<Longrightarrow> straight ((op, args, lab) # ops) m m'"

lemma run_fall_sound:
  assumes "run_fall st ops = Inr (None, st')" and "list_all (plain_line known) ops"
    and "agrees env st m" and "known \<subseteq> keys st"
  shows "\<exists>m'. straight ops m m' \<and> agrees env st' m' \<and> keys st \<subseteq> keys st' \<and>
    (\<forall>r. r \<notin> known \<longrightarrow> val env st' r = val env st r)"
  using assms
proof (induction st ops arbitrary: m rule: run_fall.induct)
  case (1 st)
  then show ?case by (auto intro: straight.nil)
next
  case (2 st op args lab ops)
  show ?case
  proof (cases "op = ''label''")
    case True
    with 2(3,4) have "run_fall st ops = Inr (None, st')" "list_all (plain_line known) ops" by simp_all
    from 2(1) [OF True this 2(5,6)] True show ?thesis by (blast intro: straight.label)
  next
    case False
    with 2(3) have nj: "dget COND_JUMPS op = None" "op \<notin> {''jmp'', ''jmpq''}"
      by (auto split: if_splits)
    with False 2(3) obtain st1 where ap: "apply_op st op args = Inr (None, st1)"
      and rest: "run_fall st1 ops = Inr (None, st')"
      by (auto split: option.splits)
    from 2(4) False have wf: "wf_line op args" "op \<notin> {''ret'', ''retq''}" "dests op args \<subseteq> known"
      by (auto simp: plain_line_def)
    from apply_op_sound [OF ap wf(1,2) 2(5) flags_agree_empty] obtain m1 where
      ex: "exec_op op args m = Some m1" and ss: "sound_step env (fvalid op {}) (dests op args) (seen op args) st st1 m1"
      by blast
    have "\<exists>m'. straight ops m1 m' \<and> agrees env st' m' \<and> keys st1 \<subseteq> keys st' \<and>
        (\<forall>r. r \<notin> known \<longrightarrow> val env st' r = val env st1 r)"
      using 2(2) False nj ap rest 2(4,6) ss by (auto simp: sound_step_def)
    then obtain m' where m': "straight ops m1 m'" "agrees env st' m'" "keys st1 \<subseteq> keys st'"
      "\<forall>r. r \<notin> known \<longrightarrow> val env st' r = val env st1 r" by blast
    have "straight ((op, args, lab) # ops) m m'"
      using nj False wf(2) ex m'(1) by (intro straight.instr) auto
    moreover have "\<forall>r. r \<notin> known \<longrightarrow> val env st' r = val env st r"
      using m'(4) ss wf(3) by (auto simp: sound_step_def)
    moreover have "keys st \<subseteq> keys st'" using ss m'(3) by (auto simp: sound_step_def)
    ultimately show ?thesis using m'(2) by blast
  qed
qed

lemma Cons_eq_drop_take:
  assumes "y # ys = drop i (take t ops)" and "t \<le> length ops"
  shows "i < t \<and> ops ! i = y \<and> ys = drop (Suc i) (take t ops)"
proof -
  have "i < t" using assms by (metis drop_all length_take list.distinct(1) min.absorb2 not_le)
  then have "drop i (take t ops) = ops ! i # drop (Suc i) (take t ops)"
    using assms(2) by (subst Cons_nth_drop_Suc [symmetric]) auto
  with assms \<open>i < t\<close> show ?thesis by simp
qed

lemma straight_mexec:
  assumes "straight xs m m1" and "xs = drop i (take t ops)" and "i \<le> t" and "t \<le> length ops"
    and "mexec ops t m1 m'"
  shows "mexec ops i m m'"
  using assms
proof (induction arbitrary: i rule: straight.induct)
  case (nil m)
  then have "i = t" by auto
  with nil show ?case by simp
next
  case (label ys m m1 args lab)
  from Cons_eq_drop_take [OF label.prems(1,3)]
  have i: "i < t" "ops ! i = (''label'', args, lab)" "ys = drop (Suc i) (take t ops)" by auto
  have "mexec ops (Suc i) m m'" using label.IH [OF i(3) _ label.prems(3,4)] i(1) by simp
  moreover have "mstep ops i m = Goto (Suc i) m" using i label.prems(3) by (simp add: mstep_def)
  ultimately show ?case by (rule mexec.step [rotated])
next
  case (instr op args m m2 ys m1 lab)
  from Cons_eq_drop_take [OF instr.prems(1,3)]
  have i: "i < t" "ops ! i = (op, args, lab)" "ys = drop (Suc i) (take t ops)" by auto
  have "mexec ops (Suc i) m2 m'" using instr.IH [OF i(3) _ instr.prems(3,4)] i(1) by simp
  moreover have "mstep ops i m = Goto (Suc i) m2"
    using i instr.prems(3) instr.hyps by (simp add: mstep_def)
  ultimately show ?case by (rule mexec.step [rotated])
qed

section \<open>Merging the two sides of a branch\<close>

definition merged_term :: "pred \<Rightarrow> bvterm \<times> bvterm \<Rightarrow> sym_state \<Rightarrow> sym_state \<Rightarrow> string \<Rightarrow> bvterm" where
  "merged_term p lr taken fall k =
     (let left = (case dget (terms taken) k of Some t \<Rightarrow> t | None \<Rightarrow> the (dget (terms fall) k));
          right = (case dget (terms fall) k of Some t \<Rightarrow> t | None \<Rightarrow> the (dget (terms taken) k))
      in if left = right then left else Ite p (fst lr) (snd lr) left right)"

lemma merge_fold:
  assumes "\<And>k. k \<in> set ks \<Longrightarrow> dget (terms taken) k \<noteq> None \<or> dget (terms fall) k \<noteq> None"
  shows "dget (terms (fold (merge_key p lr taken fall) ks self)) k =
    (if k \<in> set ks then Some (merged_term p lr taken fall k) else dget (terms self) k)"
  using assms
proof (induction ks arbitrary: self)
  case (Cons x ks)
  have "dget (terms (merge_key p lr taken fall x self)) k =
      (if k = x then Some (merged_term p lr taken fall k) else dget (terms self) k)" for k
    using Cons.prems [of x] by (auto simp: merge_key_def merged_term_def Let_def split: option.splits)
  with Cons show ?case by auto
qed simp

lemma merge_terms:
  assumes "\<And>ks. set (order ks) = set ks"
  shows "dget (terms (merge_ite order p lr st fall st)) k =
    (if k \<in> keys st \<union> keys fall then Some (merged_term p lr st fall k) else None)"
proof -
  let ?ks = "order (remdups (dkeys (terms st) @ dkeys (terms fall) @ dkeys (terms st)))"
  have ks: "set ?ks = keys st \<union> keys fall" by (auto simp: assms keys_def)
  have "dget (terms (fold (merge_key p lr st fall) ?ks st)) k =
      (if k \<in> set ?ks then Some (merged_term p lr st fall k) else dget (terms st) k)"
    by (rule merge_fold) (auto simp: ks keys_def dget_None_conv)
  then show ?thesis
    unfolding merge_ite_def Let_def using ks dget_None_conv [of "terms st" k] by (auto simp: keys_def)
qed

lemma keys_iff: "k \<in> keys st \<longleftrightarrow> dget (terms st) k \<noteq> None"
  by (simp add: keys_def dget_None_conv)

lemma merge_keys:
  "(\<And>ks. set (order ks) = set ks) \<Longrightarrow> keys (merge_ite order p lr st fall st) = keys st \<union> keys fall"
  by (rule set_eqI) (simp add: keys_iff [of _ "merge_ite order p lr st fall st"] merge_terms)

text \<open>
  Where every register the region changes had a term before the branch, the merged state is
  the taken side if the condition holds and the fall-through side otherwise.
\<close>

lemma merge_val:
  assumes ord: "\<And>ks. set (order ks) = set ks" and sub: "keys st \<subseteq> keys fall"
    and same: "\<And>r. r \<notin> keys st \<Longrightarrow> val env fall r = val env st r"
  shows "val env (merge_ite order p (l, r) st fall st) x =
    (if eval_pred p (eval env l) (eval env r) then val env st x else val env fall x)"
proof (cases "x \<in> keys st")
  case True
  with sub obtain t u where "dget (terms st) x = Some t" "dget (terms fall) x = Some u"
    using dget_dom [of "terms st" x] dget_dom [of "terms fall" x] by (auto simp: keys_def)
  then show ?thesis using True
    by (simp add: val_def merge_terms [OF ord] merged_term_def)
next
  case False
  then have n: "dget (terms st) x = None" by (simp add: keys_def dget_None_conv)
  show ?thesis
    using False n same [OF False] dget_dom [of "terms fall" x]
    by (auto simp: val_def merge_terms [OF ord] merged_term_def keys_def split: option.splits)
qed

section \<open>Disciplined bodies\<close>

text \<open>
  \<open>disciplined ops i known P\<close>: from line \<open>i\<close> on, with terms for the registers \<open>known\<close> and
  the encoder's flags right for the predicates \<open>P\<close>, the path the encoder follows meets
  only lines and branches for which its terms are exact.
\<close>

function disciplined :: "opline list \<Rightarrow> nat \<Rightarrow> string set \<Rightarrow> pred set \<Rightarrow> bool" where
  "disciplined ops i known P =
     (if length ops \<le> i then True
      else case ops ! i of (op, args, lab) \<Rightarrow>
        if op = ''label'' then disciplined ops (Suc i) known P
        else if op \<in> {''ret'', ''retq''} then Suc i = length ops
        else case dget COND_JUMPS op of
          Some p \<Rightarrow> (case dget (labels_of ops) (jump_target args) of
              None \<Rightarrow> False
            | Some t \<Rightarrow> if i < t then p \<in> P \<and> list_all (plain_line known) (drop (Suc i) (take t ops)) \<and>
                  disciplined ops t known {} else False)
        | None \<Rightarrow>
            if op \<in> {''jmp'', ''jmpq''} then
              (case dget (labels_of ops) (jump_target args) of
                 None \<Rightarrow> False
               | Some t \<Rightarrow> if i < t then disciplined ops t known P else False)
            else wf_line op args \<and> disciplined ops (Suc i) (known \<union> seen op args) (fvalid op P))"
  by pat_completeness auto
termination
  by (relation "measure (\<lambda>(ops, i, known, P). length ops - i)") (auto dest: labels_of_label)

declare disciplined.simps [simp del]

text \<open>The encoder, the discipline and the machine, unfolded together on each kind of line.\<close>

lemma at_label:
  assumes "i < length ops" and "ops ! i = (''label'', args, lab)"
  shows "encode_loop order ops i st = encode_loop order ops (Suc i) st"
    and "disciplined ops i known P = disciplined ops (Suc i) known P"
    and "mstep ops i m = Goto (Suc i) m"
  using assms
  by (simp_all add: encode_loop.simps [of order ops i] disciplined.simps [of ops i] mstep_def)

lemma no_cond_ret [simp]: "dget COND_JUMPS ''ret'' = None" "dget COND_JUMPS ''retq'' = None"
  by (simp_all add: COND_JUMPS_def dget_def)

lemma at_ret:
  assumes "i < length ops" and "ops ! i = (op, args, lab)" and "op = ''ret'' \<or> op = ''retq''"
    and "disciplined ops i known P"
  shows "encode_loop order ops i st = Inr (Inr st)" and "mstep ops i m = Halt"
  using assms
  by (elim disjE; simp add: encode_loop.simps [of order ops i] disciplined.simps [of ops i] mstep_def
      after_op_def apply_op_def encode_loop.simps [of order ops "length ops"])+

lemma at_jump:
  assumes "i < length ops" and "ops ! i = (op, args, lab)" and "op = ''jmp'' \<or> op = ''jmpq''"
    and "disciplined ops i known P" and "dget COND_JUMPS op = None"
  shows "\<exists>t. i < t \<and> t < length ops \<and> disciplined ops t known P \<and> mstep ops i m = Goto t m \<and>
    encode_loop order ops i st = encode_loop order ops t st"
  using assms
  by (elim disjE; auto simp: encode_loop.simps [of order ops i] disciplined.simps [of ops i] mstep_def
      split: option.splits if_splits dest: labels_of_label)

lemma at_instr:
  assumes "i < length ops" and "ops ! i = (op, args, lab)"
    and "op \<notin> {''label'', ''ret'', ''retq'', ''jmp'', ''jmpq''}" and "dget COND_JUMPS op = None"
  shows "disciplined ops i known P \<longleftrightarrow>
      wf_line op args \<and> disciplined ops (Suc i) (known \<union> seen op args) (fvalid op P)"
    and "mstep ops i m = (case exec_op op args m of Some m' \<Rightarrow> Goto (Suc i) m' | None \<Rightarrow> Stuck)"
    and "encode_loop order ops i st = after_op (apply_op st op args) id (encode_loop order ops (Suc i))"
  using assms
  by (simp_all add: encode_loop.simps [of order ops i] disciplined.simps [of ops i] mstep_def)

lemma at_branch:
  assumes "i < length ops" and "ops ! i = (op, args, lab)"
    and "op \<notin> {''label'', ''ret'', ''retq''}" and "dget COND_JUMPS op = Some p"
    and "disciplined ops i known P" and "encode_loop order ops i st = Inr (Inr st')"
  obtains t lr fall where "i < t" "t < length ops" "p \<in> P"
    "list_all (plain_line known) (drop (Suc i) (take t ops))" "disciplined ops t known {}"
    "flags st = Some lr" "run_fall st (drop (Suc i) (take t ops)) = Inr (None, fall)"
    "encode_loop order ops t (merge_ite order p lr st fall st) = Inr (Inr st')"
    "\<And>m f. mfl m = Some f \<Longrightarrow> mstep ops i m = Goto (if cond p f then t else Suc i) m"
proof -
  from assms obtain t where t: "dget (labels_of ops) (jump_target args) = Some t" "i < t"
    and d: "p \<in> P" "list_all (plain_line known) (drop (Suc i) (take t ops))" "disciplined ops t known {}"
    by (auto simp: disciplined.simps [of ops i] split: option.splits if_splits)
  have ms: "mstep ops i m = Goto (if cond p f then t else Suc i) m" if "mfl m = Some f" for m f
    using assms t that by (simp add: mstep_def)
  have tl: "t < length ops" using labels_of_label [OF t(1)] by simp
  from assms t obtain lr fall where "flags st = Some lr"
    "run_fall st (drop (Suc i) (take t ops)) = Inr (None, fall)"
    "encode_loop order ops t (merge_ite order p lr st fall st) = Inr (Inr st')"
    by (auto simp: encode_loop.simps [of order ops i] after_op_def Let_def split: option.splits if_splits)
  with that t d ms tl show ?thesis by blast
qed

text \<open>One branch: the machine takes one side, and the merged state is that side.\<close>

lemma branch_sound:
  assumes ord: "\<And>ks. set (order ks) = set ks"
    and t: "i < t" "t < length ops"
    and pl: "list_all (plain_line known) (drop (Suc i) (take t ops))"
    and fall: "run_fall st (drop (Suc i) (take t ops)) = Inr (None, fall)"
    and fl: "flags st = Some (l, r)" "mfl m = Some f" "cond p f \<longleftrightarrow> eval_pred p (eval env l) (eval env r)"
    and ms: "mstep ops i m = Goto (if cond p f then t else Suc i) m"
    and kn: "known \<subseteq> keys st" and ag: "agrees env st m"
  shows "\<exists>m1. agrees env (merge_ite order p (l, r) st fall st) m1 \<and>
    (\<forall>m'. mexec ops t m1 m' \<longrightarrow> mexec ops i m m')"
proof -
  from run_fall_sound [OF fall pl ag kn] obtain m2 where
    m2: "straight (drop (Suc i) (take t ops)) m m2" "agrees env fall m2" "keys st \<subseteq> keys fall"
      "\<forall>x. x \<notin> known \<longrightarrow> val env fall x = val env st x" by blast
  have mv: "val env (merge_ite order p (l, r) st fall st) =
      (if cond p f then val env st else val env fall)"
    by (rule ext, subst merge_val [OF ord m2(3)]) (use m2(4) kn fl(3) in auto)
  show ?thesis
  proof (cases "cond p f")
    case True
    then show ?thesis using mv ag ms by (intro exI [of _ m]) (auto simp: agrees_def intro: mexec.step)
  next
    case False
    have "mexec ops i m m'" if "mexec ops t m2 m'" for m'
      by (rule mexec.step [of ops i m "Suc i" m])
         (use False ms t straight_mexec [OF m2(1) refl _ _ that] in auto)
    then show ?thesis using False mv m2(2) by (intro exI [of _ m2]) (auto simp: agrees_def)
  qed
qed

lemma line_kinds:
  obtains (past) "length ops \<le> i" | (label) "i < length ops" "op = ''label''"
    | (ret) "i < length ops" "op = ''ret'' \<or> op = ''retq''"
    | (branch) p where "i < length ops" "op \<notin> {''label'', ''ret'', ''retq''}" "dget COND_JUMPS op = Some p"
    | (jump) "i < length ops" "op = ''jmp'' \<or> op = ''jmpq''" "dget COND_JUMPS op = None"
    | (instr) "i < length ops" "op \<notin> {''label'', ''ret'', ''retq'', ''jmp'', ''jmpq''}" "dget COND_JUMPS op = None"
proof (cases "length ops \<le> i")
  case False
  then have i: "i < length ops" by simp
  show ?thesis
  proof (cases "op \<in> {''label'', ''ret'', ''retq''}")
    case True
    then show ?thesis using that(2,3) i by blast
  next
    case other: False
    show ?thesis
    proof (cases "dget COND_JUMPS op")
      case None
      then show ?thesis using that(5,6) i other by blast
    next
      case (Some p)
      then show ?thesis using that(4) i other by blast
    qed
  qed
qed (rule that(1))

text \<open>
  The two recursive cases of the soundness proof, with the induction hypothesis for the
  rest of the path as their last premise.
\<close>

lemma instr_case:
  assumes i: "i < length ops" and l: "ops ! i = (op, args, lab)"
    and op: "op \<notin> {''label'', ''ret'', ''retq'', ''jmp'', ''jmpq''}" "dget COND_JUMPS op = None"
    and enc: "encode_loop order ops i st = Inr (Inr st')" and dis: "disciplined ops i known P"
    and kn: "known \<subseteq> keys st" and ag: "agrees env st m" and fl: "flags_agree env P st m"
    and IH: "\<And>st1 known1 P1 m1. encode_loop order ops (Suc i) st1 = Inr (Inr st') \<Longrightarrow>
      disciplined ops (Suc i) known1 P1 \<Longrightarrow> known1 \<subseteq> keys st1 \<Longrightarrow> agrees env st1 m1 \<Longrightarrow>
      flags_agree env P1 st1 m1 \<Longrightarrow> \<exists>m'. mexec ops (Suc i) m1 m' \<and> agrees env st' m'"
  shows "\<exists>m'. mexec ops i m m' \<and> agrees env st' m'"
proof -
  note u = at_instr [OF i l op]
  from dis have d: "wf_line op args" "disciplined ops (Suc i) (known \<union> seen op args) (fvalid op P)"
    by (simp_all add: u(1))
  from enc obtain st1 where s1: "apply_op st op args = Inr (None, st1)"
    "encode_loop order ops (Suc i) st1 = Inr (Inr st')"
    by (auto simp: u(3) after_op_def split: option.splits)
  from apply_op_sound [OF s1(1) d(1) _ ag fl] op obtain m1 where
    ex: "exec_op op args m = Some m1"
    and ss: "sound_step env (fvalid op P) (dests op args) (seen op args) st st1 m1" by auto
  from IH [OF s1(2) d(2), of m1] ss kn obtain m' where
    "mexec ops (Suc i) m1 m'" "agrees env st' m'" by (auto simp: sound_step_def)
  with mexec.step [of ops i m "Suc i" m1 m'] ex show ?thesis by (auto simp: u(2))
qed

lemma branch_case:
  assumes ord: "\<And>ks. set (order ks) = set ks"
    and i: "i < length ops" and l: "ops ! i = (op, args, lab)"
    and op: "op \<notin> {''label'', ''ret'', ''retq''}" "dget COND_JUMPS op = Some p"
    and enc: "encode_loop order ops i st = Inr (Inr st')" and dis: "disciplined ops i known P"
    and kn: "known \<subseteq> keys st" and ag: "agrees env st m" and fl: "flags_agree env P st m"
    and IH: "\<And>t st1 known1 P1 m1. length ops - t < length ops - i \<Longrightarrow>
      encode_loop order ops t st1 = Inr (Inr st') \<Longrightarrow>
      disciplined ops t known1 P1 \<Longrightarrow> known1 \<subseteq> keys st1 \<Longrightarrow> agrees env st1 m1 \<Longrightarrow>
      flags_agree env P1 st1 m1 \<Longrightarrow> \<exists>m'. mexec ops t m1 m' \<and> agrees env st' m'"
  shows "\<exists>m'. mexec ops i m m' \<and> agrees env st' m'"
proof -
  from at_branch [OF i l op dis enc] obtain t lr fall where b: "i < t" "t < length ops"
    "p \<in> P" "list_all (plain_line known) (drop (Suc i) (take t ops))" "disciplined ops t known {}"
    "flags st = Some lr" "run_fall st (drop (Suc i) (take t ops)) = Inr (None, fall)"
    "encode_loop order ops t (merge_ite order p lr st fall st) = Inr (Inr st')"
    "\<And>m f. mfl m = Some f \<Longrightarrow> mstep ops i m = Goto (if cond p f then t else Suc i) m" by metis
  from fl b(3) obtain a c f where f: "flags st = Some (a, c)" "mfl m = Some f"
    "cond p f \<longleftrightarrow> eval_pred p (eval env a) (eval env c)" by (auto simp: flags_agree_def)
  with b(6) have lr: "lr = (a, c)" by simp
  from branch_sound [OF ord b(1,2,4,7) f b(9) [OF f(2)] kn ag] obtain m1
    where m1: "agrees env (merge_ite order p (a, c) st fall st) m1"
      "\<And>m'. mexec ops t m1 m' \<Longrightarrow> mexec ops i m m'" by blast
  have "known \<subseteq> keys (merge_ite order p (a, c) st fall st)" using kn by (auto simp: merge_keys [OF ord])
  moreover have "length ops - t < length ops - i" using b(1,2) by simp
  ultimately show ?thesis
    using IH [OF _ b(8) [unfolded lr] b(5) _ m1(1) flags_agree_empty] m1(2) by blast
qed

lemma encode_loop_sound:
  assumes ord: "\<And>ks. set (order ks) = set ks"
  shows "encode_loop order ops i st = Inr (Inr st') \<Longrightarrow> disciplined ops i known P \<Longrightarrow>
    known \<subseteq> keys st \<Longrightarrow> agrees env st m \<Longrightarrow> flags_agree env P st m \<Longrightarrow>
    \<exists>m'. mexec ops i m m' \<and> agrees env st' m'"
proof (induction "length ops - i" arbitrary: i st known P m rule: less_induct)
  case (less i st known P m)
  note enc = less.prems(1) and dis = less.prems(2) and kn = less.prems(3)
    and ag = less.prems(4) and fl = less.prems(5)
  obtain op args lab where l: "ops ! i = (op, args, lab)" by (metis surj_pair)
  show ?case
  proof (rule line_kinds [where ops = ops and i = i and op = op])
    assume "length ops \<le> i"
    then have "st' = st" "mexec ops i m m"
      using enc by (simp_all add: encode_loop.simps mexec.halt mstep_def)
    with ag show ?thesis by blast
  next
    assume "i < length ops" "op = ''label''"
    with l have a: "i < length ops" "ops ! i = (''label'', args, lab)" by simp_all
    from less.hyps [of "Suc i" st known P m] enc dis kn ag fl
    show ?thesis unfolding at_label(1,2) [OF a] using a(1) mexec.step [OF at_label(3) [OF a]] by fastforce
  next
    assume ret: "i < length ops" "op = ''ret'' \<or> op = ''retq''"
    from at_ret [OF ret(1) l ret(2) dis] enc ag show ?thesis by (fastforce intro: mexec.halt)
  next
    fix p assume br: "i < length ops" "op \<notin> {''label'', ''ret'', ''retq''}" "dget COND_JUMPS op = Some p"
    show ?thesis by (rule branch_case [OF ord br(1) l br(2,3) enc dis kn ag fl less.hyps])
  next
    assume jump: "i < length ops" "op = ''jmp'' \<or> op = ''jmpq''" "dget COND_JUMPS op = None"
    from at_jump [OF jump(1) l jump(2) dis jump(3), of m order st] obtain t where t: "i < t" "t < length ops"
      "disciplined ops t known P" "mstep ops i m = Goto t m"
      "encode_loop order ops i st = encode_loop order ops t st" by blast
    have "length ops - t < length ops - i" using t(1,2) by simp
    from less.hyps [OF this _ t(3) kn ag fl] enc obtain m' where "mexec ops t m m'" "agrees env st' m'"
      unfolding t(5) by blast
    with mexec.step [OF t(4)] show ?thesis by blast
  next
    assume ins: "i < length ops" "op \<notin> {''label'', ''ret'', ''retq'', ''jmp'', ''jmpq''}"
      "dget COND_JUMPS op = None"
    show ?thesis
      by (rule instr_case [OF ins(1) l ins(2,3) enc dis kn ag fl less.hyps]) (use ins(1) in auto)
  qed
qed

lemma encode_sound_ex:
  assumes "\<And>ks. set (order ks) = set ks"
    and "encode order body = Inr (Inr st)" and "disciplined (parse_lines body) 0 {} {}"
  shows "\<exists>m'. mexec (parse_lines body) 0 m m' \<and> regs m' = val (regs m) st"
proof -
  have "encode_loop order (parse_lines body) 0 init_state = Inr (Inr st)"
    using assms(2) by (simp add: encode_def Let_def split: if_splits)
  moreover have "agrees (regs m) init_state m" by (simp add: agrees_def val_def init_state_def fun_eq_iff)
  ultimately show ?thesis
    using encode_loop_sound [OF assms(1) _ assms(3), of init_state st "regs m" m]
    by (auto simp: agrees_def)
qed

end
