(* ===== verification/EasmLockstep.thy ===== *)
theory EasmLockstep
  imports EasmSound
begin

text \<open>
  What the lockstep prover of \<open>scripts/easm_lockstep_symbolic.py\<close> guarantees, over the
  definitions of \<^theory_text>\<open>EasmSymbolic\<close> and the machine of \<^theory_text>\<open>EasmMachine\<close>, and where it does not.
\<close>

section \<open>The obligations of a pair\<close>

definition out_term :: "(string, bvterm) dict \<Rightarrow> string \<Rightarrow> bvterm" where
  "out_term d out = (case dget d out of Some t \<Rightarrow> t | None \<Rightarrow> In out)"

lemma out_term_dset_In: "dget d x = None \<Longrightarrow> out_term (dset x (In x) d) = out_term d"
  by (rule ext) (simp add: out_term_def)

lemma add_output_frame:
  "out_term (ref_terms (add_output ob x)) = out_term (ref_terms ob)"
  "out_term (tgt_terms (add_output ob x)) = out_term (tgt_terms ob)"
  "ob_terms (add_output ob x) = ob_terms ob @ [(out_term (ref_terms ob) x, out_term (tgt_terms ob) x)]"
  by (auto simp: add_output_def Let_def out_term_dset_In out_term_def split: option.splits)

lemma foldl_add_output:
  "ob_terms (foldl add_output ob outs) =
     ob_terms ob @ map (\<lambda>x. (out_term (ref_terms ob) x, out_term (tgt_terms ob) x)) outs"
  by (induction outs arbitrary: ob) (simp_all add: add_output_frame)

lemma obligations_terms:
  "ob_terms (obligations r t outs) =
     map (\<lambda>x. (out_term (terms r) x, out_term (terms t) x)) (if outs = [] then [''rax''] else outs)"
  by (simp add: obligations_def foldl_add_output)

lemma eval_out_term: "eval env (out_term (terms st) x) = val env st x"
  by (simp add: out_term_def val_def split: option.splits)

text \<open>The outputs a pair is compared on.\<close>

definition compared :: "lockstep_pair \<Rightarrow> string list" where
  "compared pair = (if pair_outputs pair = [] then [''rax''] else pair_outputs pair)"

text \<open>
  What the prover relies on: when the solver's last line for a query is \<open>unsat\<close>, the query
  has no model, so every pair of terms it lists agrees on every input.
\<close>

definition solver_sound :: "solver \<Rightarrow> obligation \<Rightarrow> bool" where
  "solver_sound z3 ob \<longleftrightarrow>
     (solver_answer (fst (z3 (query_text ob))) = Inr ''unsat'' \<longrightarrow>
       (\<forall>env l r. (l, r) \<in> set (ob_terms ob) \<longrightarrow> eval env l = eval env r))"

lemma prove_Proved:
  assumes "prove order z3 pair = Inr Proved"
  obtains r t where "encode order (pair_reference pair) = Inr (Inr r)"
    "encode order (pair_target pair) = Inr (Inr t)" "dget (ambient r) = dget (ambient t)"
    "solver_answer (fst (z3 (query_text (obligations r t (pair_outputs pair))))) = Inr ''unsat''"
proof -
  from assms obtain a b where a: "encode order (pair_reference pair) = Inr a"
    and b: "encode order (pair_target pair) = Inr b"
    by (auto simp: prove_def)
  from assms a b obtain r t where r: "a = Inr r" "b = Inr t"
    by (auto simp: prove_def split: sum.splits)
  with assms a b have d: "dict_eq (ambient r) (ambient t)"
    by (auto simp: prove_def split: if_splits)
  obtain out err where o: "z3 (query_text (obligations r t (pair_outputs pair))) = (out, err)"
    by (metis surj_pair)
  with assms a b r d have "solver_answer out = Inr ''unsat''"
    by (auto simp: prove_def split: if_splits)
  with that a b r d o show ?thesis by (simp add: dict_eq_iff)
qed

section \<open>Example bodies\<close>

text \<open>The maximum of two unsigned arguments, written twice.\<close>

definition ex_body :: "string list" where
  "ex_body = [''movq %rdi, %rax'', ''cmpq %rsi, %rdi'', ''jae done'', ''movq %rsi, %rax'', ''done:'', ''ret'']"

definition ex_target :: "string list" where
  "ex_target = [''movq %rdi, %rax'', ''cmpq %rdi, %rsi'', ''jbe out'', ''movq %rsi, %rax'', ''out:'', ''ret'']"

definition ex_state :: "pred \<Rightarrow> bvterm \<Rightarrow> bvterm \<Rightarrow> sym_state" where
  "ex_state p l r = \<lparr>terms = [(''rdi'', In ''rdi''), (''rax'', Ite p l r (In ''rdi'') (In ''rsi'')),
     (''rsi'', In ''rsi'')], inputs = [''rsi'', ''rdi''], flags = None, ambient = []\<rparr>"

definition ex_ob :: obligation where
  "ex_ob = obligations (ex_state Uge (In ''rdi'') (In ''rsi'')) (ex_state Ule (In ''rsi'') (In ''rdi'')) []"

definition ex_z3 :: solver where
  "ex_z3 q = (if q = query_text ex_ob then (''unsat'' @ [CHR 0x0A], []) else (''unknown'', []))"

definition ex_pair :: lockstep_pair where
  "ex_pair = \<lparr>pair_name = ''umax'', pair_outputs = [], pair_reference = ex_body,
     pair_target = ex_target, ambient_check = True\<rparr>"

lemma ex_encode:
  "encode id ex_body = Inr (Inr (ex_state Uge (In ''rdi'') (In ''rsi'')))"
  "encode id ex_target = Inr (Inr (ex_state Ule (In ''rsi'') (In ''rdi'')))"
  by code_simp+

lemma ex_disciplined:
  "disciplined (parse_lines ex_body) 0 {} {}" "disciplined (parse_lines ex_target) 0 {} {}"
  by code_simp+

lemma ex_prove: "prove id ex_z3 ex_pair = Inr Proved"
proof -
  have "prove id ex_z3 ex_pair = (case ex_z3 (query_text ex_ob) of (out, err) \<Rightarrow>
      rbind (solver_answer out) (\<lambda>answer. if answer = ''unsat'' then Inr Proved
        else if answer = ''sat'' then Inr (Diverged [])
        else Inr (Skip (if strip err \<noteq> [] then strip err else answer))))"
    by (simp add: prove_def ex_pair_def ex_encode ex_ob_def dict_eq_def ex_state_def dkeys_def)
  moreover have "solver_answer (''unsat'' @ [CHR 0x0A]) = Inr ''unsat''" by code_simp
  ultimately show ?thesis by (simp add: ex_z3_def)
qed

lemma ex_solver: "solver_sound ex_z3 ex_ob"
proof -
  have "ob_terms ex_ob = [(Ite Uge (In ''rdi'') (In ''rsi'') (In ''rdi'') (In ''rsi''),
      Ite Ule (In ''rsi'') (In ''rdi'') (In ''rdi'') (In ''rsi''))]"
    unfolding ex_ob_def obligations_terms by (simp add: ex_state_def out_term_def dget_def)
  then show ?thesis by (simp add: solver_sound_def)
qed

section \<open>Soundness\<close>

text \<open>
  C1. The encoder is exact on disciplined bodies: from every initial machine the body
  halts, in exactly one machine, and that one holds in each register the value of the term
  the encoder computed for it, the initial registers being the inputs.
\<close>

theorem encode_sound:
  assumes "\<And>ks. set (order ks) = set ks"
    and "encode order body = Inr (Inr st)" and "disciplined (parse_lines body) 0 {} {}"
  shows "\<exists>m1. (\<forall>m'. mexec (parse_lines body) 0 m m' = (m' = m1)) \<and> regs m1 = val (regs m) st"
proof -
  from encode_sound_ex [OF assms, of m] obtain m1
    where "mexec (parse_lines body) 0 m m1" "regs m1 = val (regs m) st" by blast
  then show ?thesis using mexec_deterministic [of "parse_lines body" 0 m m1] by blast
qed

theorem encode_sound_witness:
  "\<exists>m1. (\<forall>m'. mexec (parse_lines ex_body) 0 \<lparr>regs = (\<lambda>_. 7), mfl = None\<rparr> m' = (m' = m1)) \<and>
     regs m1 = val (\<lambda>_. 7) (ex_state Uge (In ''rdi'') (In ''rsi''))"
  using encode_sound [of id, OF _ ex_encode(1) ex_disciplined(1), of "\<lparr>regs = (\<lambda>_. 7), mfl = None\<rparr>"]
  by simp

text \<open>
  C2. A pair the prover reports as proved computes the same outputs: when its outputs are 64-bit
  registers, both bodies are disciplined and the solver is sound on the pair's query, both halt from
  every machine, in exactly one machine each, and those agree on every output register (on \<open>rax\<close>
  when the contract lists no outputs).
\<close>

theorem prove_sound:
  assumes ord: "\<And>ks. set (order ks) = set ks"
    and "prove order z3 pair = Inr Proved"
    and outs: "set (pair_outputs pair) \<subseteq> set REGS"
    and d1: "disciplined (parse_lines (pair_reference pair)) 0 {} {}"
    and d2: "disciplined (parse_lines (pair_target pair)) 0 {} {}"
    and z3: "\<And>r t. encode order (pair_reference pair) = Inr (Inr r) \<Longrightarrow>
      encode order (pair_target pair) = Inr (Inr t) \<Longrightarrow>
      solver_sound z3 (obligations r t (pair_outputs pair))"
  shows "\<exists>m1 m2. (\<forall>m'. mexec (parse_lines (pair_reference pair)) 0 m m' = (m' = m1)) \<and>
    (\<forall>m'. mexec (parse_lines (pair_target pair)) 0 m m' = (m' = m2)) \<and>
    set (compared pair) \<subseteq> set REGS \<and> list_all (\<lambda>out. regs m1 out = regs m2 out) (compared pair)"
proof -
  from assms(2) obtain r t where e: "encode order (pair_reference pair) = Inr (Inr r)"
    "encode order (pair_target pair) = Inr (Inr t)"
    and u: "solver_answer (fst (z3 (query_text (obligations r t (pair_outputs pair))))) = Inr ''unsat''"
    by (rule prove_Proved)
  have "eval (regs m) (out_term (terms r) x) = eval (regs m) (out_term (terms t) x)"
    if "x \<in> set (compared pair)" for x
    using z3 [OF e] u that by (auto simp: solver_sound_def obligations_terms compared_def)
  then have eq: "list_all (\<lambda>x. val (regs m) r x = val (regs m) t x) (compared pair)"
    by (simp add: eval_out_term list_all_iff)
  obtain m1 where m1: "mexec (parse_lines (pair_reference pair)) 0 m m1" "regs m1 = val (regs m) r"
    using encode_sound_ex [OF ord e(1) d1] by blast
  obtain m2 where m2: "mexec (parse_lines (pair_target pair)) 0 m m2" "regs m2 = val (regs m) t"
    using encode_sound_ex [OF ord e(2) d2] by blast
  have "set (compared pair) \<subseteq> set REGS" using outs by (auto simp: compared_def REGS_def split: if_splits)
  then show ?thesis using m1 m2 eq mexec_deterministic by metis
qed

theorem prove_sound_witness:
  "\<exists>m1 m2. mexec (parse_lines ex_body) 0 \<lparr>regs = (\<lambda>_. 7), mfl = None\<rparr> m1 \<and>
    mexec (parse_lines ex_target) 0 \<lparr>regs = (\<lambda>_. 7), mfl = None\<rparr> m2 \<and> regs m1 ''rax'' = regs m2 ''rax''"
proof -
  have "solver_sound ex_z3 (obligations r t (pair_outputs ex_pair))"
    if "encode id (pair_reference ex_pair) = Inr (Inr r)" "encode id (pair_target ex_pair) = Inr (Inr t)" for r t
    using that ex_solver by (auto simp: ex_pair_def ex_encode ex_ob_def)
  from prove_sound [of id, OF _ ex_prove _ _ _ this, of "\<lparr>regs = (\<lambda>_. 7), mfl = None\<rparr>"] show ?thesis
    by (auto simp: ex_pair_def compared_def ex_disciplined)
qed

section \<open>Where the encoder is not exact\<close>

text \<open>Running the machine for a bounded number of steps, to compute single runs.\<close>

fun mrun :: "nat \<Rightarrow> opline list \<Rightarrow> nat \<Rightarrow> mach \<Rightarrow> mach option" where
  "mrun 0 ops pc m = None"
| "mrun (Suc n) ops pc m = (case mstep ops pc m of
     Halt \<Rightarrow> Some m | Goto pc' m' \<Rightarrow> mrun n ops pc' m' | Stuck \<Rightarrow> None)"

lemma mrun_mexec: "mrun n ops pc m = Some m' \<Longrightarrow> mexec ops pc m m'"
  by (induction n ops pc m rule: mrun.induct)
     (auto split: outcome.splits intro: mexec.halt mexec.step)

text \<open>
  The term encoded for a register of a body and the value the machine ends with in it, for
  a register file; the encoder is wrong on that register when the two differ.
\<close>

definition misencodes :: "string list \<Rightarrow> string \<Rightarrow> (string \<Rightarrow> word64) \<Rightarrow> bool" where
  "misencodes body r env \<longleftrightarrow> (case encode id body of
     Inr (Inr st) \<Rightarrow> (case mrun 100 (parse_lines body) 0 \<lparr>regs = env, mfl = None\<rparr> of
         Some m' \<Rightarrow> regs m' r \<noteq> val env st r | None \<Rightarrow> False)
   | _ \<Rightarrow> False)"

lemma misencodes_mexec:
  assumes "misencodes body r env"
  shows "\<exists>st m'. encode id body = Inr (Inr st) \<and>
    mexec (parse_lines body) 0 \<lparr>regs = env, mfl = None\<rparr> m' \<and> regs m' r \<noteq> val env st r"
proof -
  from assms obtain st m' where "encode id body = Inr (Inr st)"
    "mrun 100 (parse_lines body) 0 \<lparr>regs = env, mfl = None\<rparr> = Some m'" "regs m' r \<noteq> val env st r"
    by (auto simp: misencodes_def split: sum.splits option.splits)
  with mrun_mexec show ?thesis by blast
qed

text \<open>
  A register first written between a forward branch and its target: the encoder keeps the
  written value for both outcomes, and the value the register had when the branch is taken
  is lost.
\<close>

theorem merge_loses_taken_side:
  "misencodes [''cmpq %rsi, %rdi'', ''je done'', ''movq $1, %rax'', ''done:'', ''ret''] ''rax'' (\<lambda>_. 0)"
  by code_simp

text \<open>Arithmetic after a comparison does not update the encoder's flags.\<close>

theorem arithmetic_keeps_stale_flags:
  "misencodes [''movq $0, %rax'', ''cmpq %rsi, %rdi'', ''addq $1, %rdi'', ''je done'', ''movq $1, %rax'',
      ''done:'', ''ret''] ''rax'' (\<lambda>_. 0)"
  by code_simp

text \<open>
  A backward branch is unrolled by the first small constant register, whichever register
  the comparison reads and whatever the condition is.
\<close>

theorem loop_count_from_unrelated_register:
  "misencodes [''movq $3, %rdx'', ''movq $0, %rax'', ''movq $1, %rbx'', ''top:'', ''addq $1, %rax'',
      ''decq %rbx'', ''jne top'', ''ret''] ''rax'' (\<lambda>_. 0)"
  by code_simp

text \<open>
  An output is compared under the name the contract writes, which is not made canonical as operands
  are: for \<open>eax\<close> the query compares one free input with itself, whatever the bodies write.
\<close>

definition alias_ob :: obligation where
  "alias_ob = (case (encode id [''movl $1, %eax'', ''ret''], encode id [''movl $2, %eax'', ''ret'']) of
     (Inr (Inr r), Inr (Inr t)) \<Rightarrow> obligations r t [''eax''] | _ \<Rightarrow> ex_ob)"

theorem alias_output_unobserved:
  "ob_terms alias_ob = [(In ''eax'', In ''eax'')]"
  "map_option (\<lambda>m. regs m ''rax'') (mrun 9 (parse_lines [''movl $1, %eax'', ''ret'']) 0 \<lparr>regs = (\<lambda>_. 0), mfl = None\<rparr>) = Some 1"
  "map_option (\<lambda>m. regs m ''rax'') (mrun 9 (parse_lines [''movl $2, %eax'', ''ret'']) 0 \<lparr>regs = (\<lambda>_. 0), mfl = None\<rparr>) = Some 2"
  by code_simp+

text \<open>The assertion of a query closes one parenthesis more than it opens.\<close>

definition paren_balance :: "string \<Rightarrow> int" where
  "paren_balance s = int (count_list s (CHR ''('')) - int (count_list s (CHR '')''))"

theorem query_unbalanced: "paren_balance (query_text ex_ob) = - 1"
  by code_simp

end
