(* ===== verification/EasmPreserve.thy ===== *)
theory EasmPreserve
  imports EasmMachine
begin

text \<open>
  \<open>scripts/easm_preserve_parametric.py\<close>: the check that an EASM function restores the
  callee-saved registers it clobbers. The body is interpreted over symbolic registers and
  stack slots addressed relative to the entry stack pointer, and the solver is asked
  whether the final term of a register can differ from its initial value. The second half
  states the machine the model stands for and proves the check sound for it.
\<close>

section \<open>Functions and their contracts\<close>

definition CALLEE_SAVED :: "string list" where
  "CALLEE_SAVED = [''rbx'', ''rbp'', ''r12'', ''r13'', ''r14'', ''r15'']"

text \<open>\<open>^%([a-z][a-z0-9]*)$\<close> and \<open>^(-?[0-9]*)\(%rsp\)$\<close>\<close>

definition REG_RE :: rx where
  "REG_RE = Seqs [Bol, Chr (CHR ''%''),
     Grp 1 (Seq (Cls is_lower_az) (Many (Cls (\<lambda>c. is_lower_az c \<or> is_digit c)))), Eol]"

definition RSP_MEM_RE :: rx where
  "RSP_MEM_RE = Seqs [Bol, Grp 1 (Seq (Opt (Chr (CHR ''-''))) (Many (Cls is_digit))), Lit ''(%rsp)'', Eol]"

text \<open>The two register sets are kept as lists without repetition.\<close>

record easm_fn =
  fn_name :: string
  fn_preserves :: "string list"
  fn_clobbers :: "string list"
  fn_returns :: bool
  fn_body :: "string list"

definition canon :: "string \<Rightarrow> string" where
  "canon r = (let name = lstrip_chars ''%'' (lower r) in
     case dget [(''ebx'', ''rbx''), (''ebp'', ''rbp''), (''r12d'', ''r12''), (''r13d'', ''r13''),
                (''r14d'', ''r14''), (''r15d'', ''r15'')] name of
       Some n \<Rightarrow> n | None \<Rightarrow> name)"

text \<open>\<open>(?:export\s+)?def\s+([A-Za-z_][A-Za-z0-9_]*)\s*\(\<close>\<close>

definition FN_RE :: rx where
  "FN_RE = Seqs [Opt (Seq (Lit ''export'') Spaces1), Lit ''def'', Spaces1, Grp 1 Ident, Spaces0, Chr (CHR ''('')]"

record fn_scan =
  scanned :: "easm_fn list"
  scan_fn :: "easm_fn option"
  scan_section :: string

definition contract_regs :: "string \<Rightarrow> string list" where
  "contract_regs line = map (\<lambda>x. lstrip_chars ''%'' (strip x))
     (filter (\<lambda>x. strip x \<noteq> []) (split_on (CHR '','') line))"

definition fn_line :: "string \<Rightarrow> string \<Rightarrow> easm_fn \<Rightarrow> easm_fn" where
  "fn_line sec line f =
     (if sec = ''preserves'' then f\<lparr>fn_preserves := List.union (contract_regs line) (fn_preserves f)\<rparr>
      else if sec = ''clobbers'' then f\<lparr>fn_clobbers := List.union (contract_regs line) (fn_clobbers f)\<rparr>
      else if sec = ''control'' then
        f\<lparr>fn_returns := (fn_returns f \<or> ''returns'' \<in> set (split_on (CHR '','') line))\<rparr>
      else if sec = ''body'' then f\<lparr>fn_body := fn_body f @ [line]\<rparr>
      else f)"

definition fn_scan_step :: "fn_scan \<Rightarrow> string \<Rightarrow> fn_scan" where
  "fn_scan_step sc raw = (let line = strip raw in
     case re_match FN_RE line of
       Some m \<Rightarrow> \<lparr>scanned = scanned sc @ (case scan_fn sc of None \<Rightarrow> [] | Some f \<Rightarrow> [f]),
           scan_fn = Some \<lparr>fn_name = group_or m 1 [], fn_preserves = [], fn_clobbers = [],
                           fn_returns = False, fn_body = []\<rparr>,
           scan_section = []\<rparr>
     | None \<Rightarrow> (case scan_fn sc of
         None \<Rightarrow> sc
       | Some f \<Rightarrow>
           if line = [] \<or> starts_with ''#'' line then sc
           else if ends_with '':'' line \<and>
               drop_last 1 line \<in> set [''preserves'', ''clobbers'', ''control'', ''body''] then
             sc\<lparr>scan_section := drop_last 1 line\<rparr>
           else sc\<lparr>scan_fn := Some (fn_line (scan_section sc) line f)\<rparr>))"

definition parse_functions :: "string \<Rightarrow> easm_fn list" where
  "parse_functions text = scanned (foldl fn_scan_step \<lparr>scanned = [], scan_fn = None, scan_section = []\<rparr>
     (splitlines text @ [''export def __eof() -> void:'']))"

section \<open>The symbolic stack model\<close>

definition fn_operands :: "string \<Rightarrow> string list" where
  "fn_operands text = map strip (split_on (CHR '','') text)"

datatype pterm =
    PIn string                      \<comment> \<open>\<open>in_NAME\<close>\<close>
  | PStale nat                      \<comment> \<open>\<open>stale_N\<close>\<close>
  | PBv nat                         \<comment> \<open>\<open>#x\<close> and 16 hexadecimal digits\<close>
  | PBin binop pterm pterm

definition bv_hex :: "int \<Rightarrow> pterm" where
  "bv_hex value = PBv (nat (value mod 2 ^ 64))"

definition hex16 :: "nat \<Rightarrow> string" where
  "hex16 n = (let d = show_base 16 n in replicate (16 - length d) (CHR ''0'') @ d)"

fun show_pterm :: "pterm \<Rightarrow> string" where
  "show_pterm (PIn r) = ''in_'' @ r"
| "show_pterm (PStale n) = ''stale_'' @ show_nat n"
| "show_pterm (PBv n) = ''#x'' @ hex16 n"
| "show_pterm (PBin f a b) = ''('' @ binop_name f @ '' '' @ show_pterm a @ '' '' @ show_pterm b @ '')''"

definition rsp_offset :: "string \<Rightarrow> int \<Rightarrow> int option" where
  "rsp_offset operand cur =
     (case re_fullmatch RSP_MEM_RE (replace_char (CHR '' '') [] operand) of
        None \<Rightarrow> None
      | Some m \<Rightarrow> (let displacement = group_or m 1 [] in
          Some (cur + (if displacement \<in> {[], ''-''} then 0
                           else case py_int10 displacement of Some n \<Rightarrow> n | None \<Rightarrow> 0))))"

record pstate =
  pregs :: "(string, pterm) dict"
  pstack :: "(int, pterm) dict"
  prsp :: int
  fresh :: nat

definition pinit :: pstate where
  "pinit = \<lparr>pregs = [], pstack = [], prsp = 0, fresh = 0\<rparr>"

text \<open>The inner functions \<open>term\<close> and \<open>stale\<close>.\<close>

definition fn_term :: "string \<Rightarrow> pstate \<Rightarrow> pterm option \<times> pstate" where
  "fn_term opnd st = (let operand = strip opnd in
     case re_fullmatch REG_RE operand of
       Some m \<Rightarrow> (let r = canon (group_or m 1 []) in
         case dget (pregs st) r of
           Some t \<Rightarrow> (Some t, st)
         | None \<Rightarrow> (Some (PIn r), st\<lparr>pregs := dset r (PIn r) (pregs st)\<rparr>))
     | None \<Rightarrow> (if starts_with ''$'' operand then map_option bv_hex (py_int0 (drop 1 operand)) else None, st))"

definition stale :: "pstate \<Rightarrow> pterm \<times> pstate" where
  "stale st = (PStale (fresh st), st\<lparr>fresh := Suc (fresh st)\<rparr>)"

text \<open>\<open>stack.get(off, stale())\<close>: the default is made whether or not it is used.\<close>

definition stack_get :: "int \<Rightarrow> pstate \<Rightarrow> pterm \<times> pstate" where
  "stack_get off st = (case stale st of (s, st') \<Rightarrow>
     ((case dget (pstack st) off of Some t \<Rightarrow> t | None \<Rightarrow> s), st'))"

type_synonym pline_result = "string + pstate"

definition fn_push :: "string \<Rightarrow> pstate \<Rightarrow> pline_result" where
  "fn_push a st = (case fn_term a st of
     (None, _) \<Rightarrow> Inl ''push operand is not a register or immediate''
   | (Some v, st1) \<Rightarrow> Inr (st1\<lparr>prsp := prsp st1 - 8, pstack := dset (prsp st1 - 8) v (pstack st1)\<rparr>))"

definition fn_pop :: "string \<Rightarrow> pstate \<Rightarrow> pline_result" where
  "fn_pop a st = (case stack_get (prsp st) st of (v, st1) \<Rightarrow>
     Inr (st1\<lparr>pregs := dset (canon a) v (pregs st1), prsp := prsp st1 + 8\<rparr>))"

definition fn_mov :: "string \<Rightarrow> string \<Rightarrow> pstate \<Rightarrow> pline_result" where
  "fn_mov src dst st =
     (if re_fullmatch REG_RE dst \<noteq> None then
        (case (if re_fullmatch REG_RE src \<noteq> None \<or> starts_with ''$'' src then fn_term src st
               else case rsp_offset src (prsp st) of
                   None \<Rightarrow> (None, st)
                 | Some off \<Rightarrow> (case stack_get off st of (v, st1) \<Rightarrow> (Some v, st1))) of
           (None, _) \<Rightarrow> Inl ''mov source is outside the modeled register/stack subset''
         | (Some v, st1) \<Rightarrow> if canon dst = ''rsp'' then Inl ''mov into rsp is not modeled''
             else Inr (st1\<lparr>pregs := dset (canon dst) v (pregs st1)\<rparr>))
      else (case (rsp_offset dst (prsp st), fn_term src st) of
          (Some off, (Some v, st1)) \<Rightarrow> Inr (st1\<lparr>pstack := dset off v (pstack st1)\<rparr>)
        | _ \<Rightarrow> Inl ''mov memory operand is outside the rsp-relative subset''))"

definition alu_family :: "string \<Rightarrow> binop option" where
  "alu_family op = map_of [(''add'', BvAdd), (''addq'', BvAdd), (''sub'', BvSub), (''subq'', BvSub),
     (''and'', BvAnd), (''andq'', BvAnd), (''or'', BvOr), (''orq'', BvOr), (''xor'', BvXor), (''xorq'', BvXor)] op"

definition fn_alu :: "string \<Rightarrow> binop \<Rightarrow> string \<Rightarrow> string \<Rightarrow> pstate \<Rightarrow> pline_result" where
  "fn_alu op f src dst st =
     (if canon dst = ''rsp'' then
        (case fn_term src st of
           (Some _, st1) \<Rightarrow>
             (if \<not> starts_with ''$'' src then Inl ''non-immediate rsp adjustment''
              else case py_int0 (drop 1 src) of
                  Some delta \<Rightarrow> Inr (st1\<lparr>prsp := prsp st1 + (if starts_with ''add'' op then delta else - delta)\<rparr>)
                | None \<Rightarrow> Inl ''non-immediate rsp adjustment'')
         | (None, _) \<Rightarrow> Inl ''non-immediate rsp adjustment'')
      else case fn_term src st of (left, st1) \<Rightarrow> case fn_term dst st1 of (right, st2) \<Rightarrow>
        (case (left, right) of
           (Some l, Some r) \<Rightarrow> Inr (st2\<lparr>pregs := dset (canon dst) (PBin f r l) (pregs st2)\<rparr>)
         | _ \<Rightarrow> Inl ''ALU operand is outside the register/immediate subset''))"

definition fn_instr :: "string \<Rightarrow> string list \<Rightarrow> pstate \<Rightarrow> pline_result" where
  "fn_instr op args st =
     (if op \<in> {''ret'', ''retq''} then Inr st
      else if op \<in> {''push'', ''pushq''} \<and> length args = 1 then fn_push (args ! 0) st
      else if op \<in> {''pop'', ''popq''} \<and> length args = 1 \<and> re_fullmatch REG_RE (args ! 0) \<noteq> None
        then fn_pop (args ! 0) st
      else if op \<in> {''mov'', ''movq''} \<and> length args = 2 then fn_mov (args ! 0) (args ! 1) st
      else case alu_family op of
          Some f \<Rightarrow> if length args = 2 \<and> re_fullmatch REG_RE (args ! 1) \<noteq> None
            then fn_alu op f (args ! 0) (args ! 1) st else Inl (''unsupported instruction '' @ op)
        | None \<Rightarrow> Inl (''unsupported instruction '' @ op))"

text \<open>The mnemonic and the operands of a line; None for an empty line or a label.\<close>

definition fn_parse :: "string \<Rightarrow> (string \<times> string list) option" where
  "fn_parse raw = (let text = strip (fst (split1 (CHR ''#'') raw)) in
     if text = [] \<or> ends_with '':'' text then None
     else case split_ws1 text of
         [] \<Rightarrow> None
       | op # rest \<Rightarrow> Some (lower op, case rest of [] \<Rightarrow> [] | r # _ \<Rightarrow> fn_operands r))"

fun fn_lines :: "string list \<Rightarrow> pstate \<Rightarrow> pline_result" where
  "fn_lines [] st = Inr st"
| "fn_lines (raw # rest) st = (case fn_parse raw of
     None \<Rightarrow> Inl ''contains control-flow label''
   | Some (op, args) \<Rightarrow> (case fn_instr op args st of Inl r \<Rightarrow> Inl r | Inr st' \<Rightarrow> fn_lines rest st'))"

text \<open>The final register terms, or the reason the body is not modelled.\<close>

definition preserve_model :: "easm_fn \<Rightarrow> string + (string, pterm) dict" where
  "preserve_model f = (case fn_lines (fn_body f) pinit of Inl r \<Rightarrow> Inl r | Inr st \<Rightarrow> Inr (pregs st))"

section \<open>The query and the report\<close>

text \<open>The names the script finds in the text of a term by \<open>\b(?:in|stale)_[A-Za-z0-9_]+\b\<close>.\<close>

fun psyms :: "pterm \<Rightarrow> string list" where
  "psyms (PIn r) = [''in_'' @ r]"
| "psyms (PStale n) = [''stale_'' @ show_nat n]"
| "psyms (PBv n) = []"
| "psyms (PBin f a b) = psyms a @ psyms b"

definition preserve_query :: "pterm \<Rightarrow> string \<Rightarrow> string" where
  "preserve_query expr r =
     join [CHR 0x0A] (map (\<lambda>name. ''(declare-const '' @ name @ '' (_ BitVec 64))'')
        (sorted_list_of_set (insert (''in_'' @ r) (set (psyms expr)))))
     @ [CHR 0x0A] @ ''(assert (not (= '' @ show_pterm expr @ '' in_'' @ r @ '')))'' @ [CHR 0x0A]
     @ ''(check-sat)'' @ [CHR 0x0A]"

datatype pstatus = PProved | PDiverged | PSkip string

text \<open>The solver is a parameter, from the query to its standard output.\<close>

definition solver_line :: "string \<Rightarrow> string" where
  "solver_line out = (if strip out = [] then ''unknown'' else last (splitlines (strip out)))"

definition preserve_prove :: "(string \<Rightarrow> string) \<Rightarrow> pterm \<Rightarrow> string \<Rightarrow> pstatus" where
  "preserve_prove solver expr r = (let answer = solver_line (solver (preserve_query expr r))
     in if answer = ''unsat'' then PProved else if answer = ''sat'' then PDiverged else PSkip [])"

definition preserve_targets :: "easm_fn \<Rightarrow> string list" where
  "preserve_targets f = sorted_list_of_set (set (fn_clobbers f) \<inter> set (fn_preserves f) \<inter> set CALLEE_SAVED)"

definition preserve_fn :: "(string \<Rightarrow> string) \<Rightarrow> easm_fn \<Rightarrow> (string \<times> string \<times> pstatus) list" where
  "preserve_fn solver f = (let targets = preserve_targets f in
     if \<not> fn_returns f \<or> targets = [] then []
     else case preserve_model f of
         Inl reason \<Rightarrow> map (\<lambda>r. (fn_name f, r, PSkip reason)) targets
       | Inr rs \<Rightarrow> map (\<lambda>r. (fn_name f, r, preserve_prove solver
             (case dget rs r of Some t \<Rightarrow> t | None \<Rightarrow> PIn r) r)) targets)"

definition preserve_main :: "(string \<Rightarrow> string) \<Rightarrow> string \<Rightarrow> (string \<times> string \<times> pstatus) list \<times> int" where
  "preserve_main solver text = (let results = concat (map (preserve_fn solver) (parse_functions text)) in
     (results, if list_ex (\<lambda>(_, _, s). s = PDiverged) results then 1 else 0))"

section \<open>The machine\<close>

text \<open>
  A frame: the general registers but the stack pointer, the stack pointer as an offset from
  its value on entry, and the memory as quadwords at offsets from that value. Only accesses
  at multiples of eight, 64-bit register names and, for the stack pointer, immediate
  additions and subtractions are described; anything else is None.
\<close>

record frame =
  freg :: "string \<Rightarrow> word64"
  foff :: int
  fmem :: "int \<Rightarrow> word64"

definition data_reg :: "string \<Rightarrow> string option" where
  "data_reg a = (case a of [] \<Rightarrow> None
     | c # r \<Rightarrow> if c = CHR ''%'' \<and> r \<in> set REGS \<and> r \<noteq> ''rsp'' then Some r else None)"

definition data_val :: "string \<Rightarrow> frame \<Rightarrow> word64 option" where
  "data_val a m = (case data_reg a of
     Some r \<Rightarrow> Some (freg m r)
   | None \<Rightarrow> if starts_with ''$'' a then map_option word_of_int (py_int0 (drop 1 a)) else None)"

definition slot :: "string \<Rightarrow> frame \<Rightarrow> int option" where
  "slot a m = (case rsp_offset a (foff m) of
     Some off \<Rightarrow> if 8 dvd off then Some off else None | None \<Rightarrow> None)"

definition put_reg :: "string \<Rightarrow> word64 \<Rightarrow> frame \<Rightarrow> frame" where
  "put_reg r v m = m\<lparr>freg := (freg m)(r := v)\<rparr>"

definition put_mem :: "int \<Rightarrow> word64 \<Rightarrow> frame \<Rightarrow> frame" where
  "put_mem off v m = m\<lparr>fmem := (fmem m)(off := v)\<rparr>"

definition fr_push :: "string \<Rightarrow> frame \<Rightarrow> frame option" where
  "fr_push a m = (case data_val a m of
     Some v \<Rightarrow> if 8 dvd foff m then Some (put_mem (foff m - 8) v (m\<lparr>foff := foff m - 8\<rparr>)) else None
   | None \<Rightarrow> None)"

definition fr_pop :: "string \<Rightarrow> frame \<Rightarrow> frame option" where
  "fr_pop a m = (case data_reg a of
     Some r \<Rightarrow> if 8 dvd foff m then Some ((put_reg r (fmem m (foff m)) m)\<lparr>foff := foff m + 8\<rparr>) else None
   | None \<Rightarrow> None)"

definition fr_mov :: "string \<Rightarrow> string \<Rightarrow> frame \<Rightarrow> frame option" where
  "fr_mov src dst m = (case data_reg dst of
     Some d \<Rightarrow> (case data_val src m of
         Some v \<Rightarrow> Some (put_reg d v m)
       | None \<Rightarrow> map_option (\<lambda>off. put_reg d (fmem m off) m) (slot src m))
   | None \<Rightarrow> (case (slot dst m, data_val src m) of
         (Some off, Some v) \<Rightarrow> Some (put_mem off v m)
       | _ \<Rightarrow> None))"

definition fr_alu :: "binop \<Rightarrow> string \<Rightarrow> string \<Rightarrow> frame \<Rightarrow> frame option" where
  "fr_alu f src dst m =
     (if dst = ''%rsp'' then
        (if f \<in> {BvAdd, BvSub} \<and> starts_with ''$'' src
         then map_option (\<lambda>n. m\<lparr>foff := foff m + (if f = BvAdd then n else - n)\<rparr>) (py_int0 (drop 1 src))
         else None)
      else case (data_val src m, data_reg dst) of
          (Some v, Some d) \<Rightarrow> Some (put_reg d (eval_binop f (freg m d) v) m)
        | _ \<Rightarrow> None)"

definition fr_instr :: "string \<Rightarrow> string list \<Rightarrow> frame \<Rightarrow> frame option" where
  "fr_instr op args m = (case args of
     [a] \<Rightarrow> if op \<in> {''push'', ''pushq''} then fr_push a m
            else if op \<in> {''pop'', ''popq''} then fr_pop a m else None
   | [a, b] \<Rightarrow> if op \<in> {''mov'', ''movq''} then fr_mov a b m
            else (case alu_family op of Some f \<Rightarrow> fr_alu f a b m | None \<Rightarrow> None)
   | _ \<Rightarrow> None)"

text \<open>A body runs to its first \<open>ret\<close>, which must be its last line.\<close>

fun fr_run :: "string list \<Rightarrow> frame \<Rightarrow> frame option" where
  "fr_run [] m = Some m"
| "fr_run (raw # rest) m = (case fn_parse raw of
     None \<Rightarrow> None
   | Some (op, args) \<Rightarrow>
       if op \<in> {''ret'', ''retq''} then (if rest = [] then Some m else None)
       else (case fr_instr op args m of None \<Rightarrow> None | Some m' \<Rightarrow> fr_run rest m'))"

section \<open>Meaning of the terms\<close>

fun peval :: "(string \<Rightarrow> word64) \<Rightarrow> (nat \<Rightarrow> word64) \<Rightarrow> pterm \<Rightarrow> word64" where
  "peval env sv (PIn r) = env r"
| "peval env sv (PStale n) = sv n"
| "peval env sv (PBv n) = of_nat n"
| "peval env sv (PBin f a b) = eval_binop f (peval env sv a) (peval env sv b)"

fun pbound :: "nat \<Rightarrow> pterm \<Rightarrow> bool" where
  "pbound k (PStale n) \<longleftrightarrow> n < k"
| "pbound k (PBin f a b) \<longleftrightarrow> pbound k a \<and> pbound k b"
| "pbound k t \<longleftrightarrow> True"

lemma peval_cong: "pbound k t \<Longrightarrow> (\<And>n. n < k \<Longrightarrow> sv n = sv' n) \<Longrightarrow> peval env sv t = peval env sv' t"
  by (induction t) auto

lemma pbound_mono: "pbound k t \<Longrightarrow> k \<le> k' \<Longrightarrow> pbound k' t"
  by (induction t) auto

lemma peval_bv_hex [simp]: "peval env sv (bv_hex i) = word_of_int i"
  using eval_bv [of env i] by (simp add: bv_hex_def bv_def)

lemma pbound_bv_hex [simp]: "pbound k (bv_hex i)"
  by (simp add: bv_hex_def)

text \<open>Agreement of a symbolic state with a frame, for the values of the stale reads so far.\<close>

definition pval :: "(string \<Rightarrow> word64) \<Rightarrow> (nat \<Rightarrow> word64) \<Rightarrow> pstate \<Rightarrow> string \<Rightarrow> word64" where
  "pval env sv st r = (case dget (pregs st) r of Some t \<Rightarrow> peval env sv t | None \<Rightarrow> env r)"

definition pwf :: "pstate \<Rightarrow> bool" where
  "pwf st \<longleftrightarrow> (\<forall>r t. dget (pregs st) r = Some t \<longrightarrow> pbound (fresh st) t) \<and>
     (\<forall>off t. dget (pstack st) off = Some t \<longrightarrow> pbound (fresh st) t)"

definition pagree :: "(string \<Rightarrow> word64) \<Rightarrow> (nat \<Rightarrow> word64) \<Rightarrow> pstate \<Rightarrow> frame \<Rightarrow> bool" where
  "pagree env sv st m \<longleftrightarrow> pwf st \<and> prsp st = foff m \<and>
     (\<forall>r. r \<in> set REGS \<longrightarrow> r \<noteq> ''rsp'' \<longrightarrow> freg m r = pval env sv st r) \<and>
     (\<forall>off t. dget (pstack st) off = Some t \<longrightarrow> fmem m off = peval env sv t)"

lemma pagree_reg:
  assumes "pagree env sv st m" and "pbound (fresh st) t"
  shows "pagree env sv (st\<lparr>pregs := dset r t (pregs st)\<rparr>) (put_reg r (peval env sv t) m)"
  using assms by (auto simp: pagree_def pwf_def pval_def put_reg_def split: if_splits)

lemma pagree_mem:
  assumes "pagree env sv st m" and "pbound (fresh st) t"
  shows "pagree env sv (st\<lparr>pstack := dset off t (pstack st)\<rparr>) (put_mem off (peval env sv t) m)"
  using assms by (auto simp: pagree_def pwf_def pval_def put_mem_def split: if_splits)

lemma pagree_off: "pagree env sv st m \<Longrightarrow> foff m = prsp st"
  by (simp add: pagree_def)

lemma pagree_rsp:
  "pagree env sv st m \<Longrightarrow> pagree env sv (st\<lparr>prsp := k\<rparr>) (m\<lparr>foff := k\<rparr>)"
  by (auto simp: pagree_def pwf_def pval_def)

lemma pagree_read:
  assumes "pagree env sv st m" and "dget (pregs st) r = None"
  shows "pagree env sv (st\<lparr>pregs := dset r (PIn r) (pregs st)\<rparr>) m"
  using assms by (auto simp: pagree_def pwf_def pval_def split: if_splits)

lemma data_regs_ok:
  "list_all (\<lambda>r. r = ''rsp'' \<or> (strip (CHR ''%'' # r) = CHR ''%'' # r \<and> canon r = r \<and> canon (CHR ''%'' # r) = r \<and>
     (case re_fullmatch REG_RE (CHR ''%'' # r) of None \<Rightarrow> False | Some m \<Rightarrow> group_or m 1 [] = r))) REGS"
  by code_simp

lemma data_regD:
  assumes "data_reg a = Some r"
  shows "a = CHR ''%'' # r" "r \<in> set REGS" "r \<noteq> ''rsp''" "strip a = a" "canon r = r" "canon a = r"
    "\<exists>m. re_fullmatch REG_RE a = Some m \<and> group_or m 1 [] = r"
proof -
  show a: "a = CHR ''%'' # r" "r \<in> set REGS" "r \<noteq> ''rsp''"
    using assms by (auto simp: data_reg_def split: list.splits if_splits)
  with data_regs_ok show "strip a = a" "canon r = r" "canon a = r"
    "\<exists>m. re_fullmatch REG_RE a = Some m \<and> group_or m 1 [] = r"
    by (auto simp: list_all_iff split: option.splits)
qed

lemma not_reg_imm: "starts_with ''$'' a \<Longrightarrow> re_fullmatch REG_RE a = None"
  by (cases a) (auto simp: re_fullmatch_def REG_RE_def first_match_def start_def Chr_def)

lemma rsp_offset_other:
  assumes "c = CHR ''%'' \<or> c = CHR ''$''"
  shows "rsp_offset (c # x) k = None"
proof -
  have "run RSP_MEM_RE (start (c # y)) = []" for y
    using assms by (auto simp: RSP_MEM_RE_def start_def Opt_def Chr_def is_digit_def Let_def)
  moreover have "replace_char (CHR '' '') [] (c # x) = c # replace_char (CHR '' '') [] x"
    using assms by (auto simp: replace_char_def)
  ultimately show ?thesis by (simp add: rsp_offset_def re_fullmatch_def first_match_def)
qed

lemma reg_or_imm_head:
  assumes "re_fullmatch REG_RE a \<noteq> None \<or> starts_with ''$'' a"
  obtains c x where "a = c # x" "c = CHR ''%'' \<or> c = CHR ''$''"
proof (cases a)
  case Nil
  with assms show ?thesis by (simp add: re_fullmatch_def REG_RE_def start_def Chr_def first_match_def)
next
  case (Cons c x)
  with assms have "c = CHR ''%'' \<or> c = CHR ''$''"
    by (cases "c = CHR ''%''") (auto simp: re_fullmatch_def REG_RE_def start_def Chr_def first_match_def)
  with Cons that show ?thesis by blast
qed

lemma fn_term_sound:
  assumes "pagree env sv st m" and "strip a = a" and "data_val a m = Some v"
    and "fn_term a st = (Some t, st1)"
  shows "pagree env sv st1 m \<and> peval env sv t = v \<and> pbound (fresh st1) t \<and> fresh st1 = fresh st \<and>
    prsp st1 = prsp st \<and> pstack st1 = pstack st"
proof (cases "data_reg a")
  case None
  with assms(3) have i: "starts_with ''$'' a" "map_option word_of_int (py_int0 (drop 1 a)) = Some v"
    by (auto simp: data_val_def split: if_splits)
  with assms(2,4) have "map_option bv_hex (py_int0 (drop 1 a)) = Some t" "st1 = st"
    by (simp_all add: fn_term_def not_reg_imm)
  with i assms(1) show ?thesis by auto
next
  case (Some r)
  note d = data_regD [OF this]
  from Some assms(3) have v: "freg m r = v" by (simp add: data_val_def)
  then have pv: "pval env sv st r = v" using assms(1) d(2,3) by (simp add: pagree_def)
  from d(5,7) assms(2,4) show ?thesis
    using pv assms(1) by (auto simp: fn_term_def pval_def pagree_def pwf_def split: option.splits if_splits)
qed

lemma stack_get_sound:
  assumes "pagree env sv st m" and "stack_get off st = (t, st1)"
  shows "\<exists>sv'. (\<forall>n < fresh st. sv' n = sv n) \<and> pagree env sv' st1 m \<and> peval env sv' t = fmem m off \<and>
    pbound (fresh st1) t \<and> fresh st1 = Suc (fresh st) \<and> prsp st1 = prsp st"
proof -
  let ?sv = "sv(fresh st := fmem m off)"
  have keep: "peval env ?sv u = peval env sv u" if "pbound (fresh st) u" for u
    using that by (rule peval_cong) auto
  have st1: "st1 = st\<lparr>fresh := Suc (fresh st)\<rparr>"
    using assms(2) by (simp add: stack_get_def stale_def)
  have up: "pbound (Suc (fresh st)) u" if "pbound (fresh st) u" for u
    using pbound_mono [OF that] by simp
  have wf: "pwf st1" using assms(1) up by (auto simp: pagree_def pwf_def st1)
  have pv: "pval env ?sv st r = pval env sv st r" for r
    using assms(1) keep by (auto simp: pval_def pagree_def pwf_def split: option.splits)
  have "pagree env ?sv st1 m"
    using assms(1) wf pv keep by (auto simp: pagree_def pwf_def st1 pval_def)
  moreover have "peval env ?sv t = fmem m off \<and> pbound (fresh st1) t"
  proof (cases "dget (pstack st) off")
    case None
    then have "t = PStale (fresh st)" using assms(2) by (simp add: stack_get_def stale_def)
    then show ?thesis by (simp add: st1)
  next
    case (Some u)
    then have "t = u" using assms(2) by (simp add: stack_get_def stale_def)
    with Some assms(1) keep show ?thesis by (auto simp: pagree_def pwf_def st1 intro: up)
  qed
  ultimately show ?thesis using st1 by (intro exI [of _ ?sv]) auto
qed

text \<open>What each instruction establishes.\<close>

definition pnext :: "(string \<Rightarrow> word64) \<Rightarrow> (nat \<Rightarrow> word64) \<Rightarrow> pstate \<Rightarrow> pstate \<Rightarrow> frame \<Rightarrow> bool" where
  "pnext env sv st st' m' \<longleftrightarrow> fresh st \<le> fresh st' \<and>
     (\<exists>sv'. (\<forall>n < fresh st. sv' n = sv n) \<and> pagree env sv' st' m')"

lemma pnext_same: "pagree env sv st' m' \<Longrightarrow> fresh st' = fresh st \<Longrightarrow> pnext env sv st st' m'"
  by (auto simp: pnext_def)

lemma push_sound:
  assumes "pagree env sv st m" "strip a = a" "fr_push a m = Some m'" "fn_push a st = Inr st'"
  shows "pnext env sv st st' m'"
proof -
  from assms(3) obtain v where v: "data_val a m = Some v"
    and m': "m' = put_mem (foff m - 8) v (m\<lparr>foff := foff m - 8\<rparr>)"
    by (auto simp: fr_push_def split: option.splits if_splits)
  from assms(4) obtain t st1 where t: "fn_term a st = (Some t, st1)"
    and st': "st' = st1\<lparr>prsp := prsp st1 - 8, pstack := dset (prsp st1 - 8) t (pstack st1)\<rparr>"
    by (auto simp: fn_push_def split: prod.splits option.splits)
  note s = fn_term_sound [OF assms(1,2) v t]
  then have "pagree env sv (st1\<lparr>prsp := prsp st1 - 8\<rparr>) (m\<lparr>foff := prsp st1 - 8\<rparr>)"
    by (blast intro: pagree_rsp)
  from pagree_mem [OF this, of t "prsp st1 - 8"] s have "pagree env sv st' m'"
    by (auto simp: st' m' pagree_off [OF assms(1)])
  then show ?thesis by (rule pnext_same) (use s st' in simp)
qed

lemma pop_sound:
  assumes "pagree env sv st m" "fr_pop a m = Some m'" "fn_pop a st = Inr st'"
  shows "pnext env sv st st' m'"
proof -
  from assms(2) obtain r where r: "data_reg a = Some r"
    and m': "m' = (put_reg r (fmem m (foff m)) m)\<lparr>foff := foff m + 8\<rparr>"
    by (auto simp: fr_pop_def split: option.splits if_splits)
  obtain t st1 where t: "stack_get (prsp st) st = (t, st1)" by (metis surj_pair)
  with assms(3) have st': "st' = st1\<lparr>pregs := dset r t (pregs st1), prsp := prsp st1 + 8\<rparr>"
    by (simp add: fn_pop_def data_regD(6) [OF r])
  from stack_get_sound [OF assms(1) t] obtain sv' where s: "\<forall>n < fresh st. sv' n = sv n"
    "pagree env sv' st1 m" "peval env sv' t = fmem m (prsp st)" "pbound (fresh st1) t"
    "fresh st1 = Suc (fresh st)" "prsp st1 = prsp st" by blast
  have "pagree env sv' st' m'"
    using pagree_rsp [OF pagree_reg [OF s(2,4)], of "prsp st1 + 8" r] s(3,6)
    by (simp add: st' m' put_reg_def pagree_off [OF assms(1)])
  with s(1,5) show ?thesis by (auto simp: pnext_def st')
qed

lemma mov_reg_sound:
  assumes "pagree env sv st m" "strip src = src" "data_reg dst = Some d"
    "fr_mov src dst m = Some m'" "fn_mov src dst st = Inr st'"
  shows "pnext env sv st st' m'"
proof -
  note d = data_regD [OF assms(3)]
  show ?thesis
  proof (cases "re_fullmatch REG_RE src \<noteq> None \<or> starts_with ''$'' src")
    case True
    with assms(5) d obtain t st1 where t: "fn_term src st = (Some t, st1)"
      and st': "st' = st1\<lparr>pregs := dset d t (pregs st1)\<rparr>"
      by (auto simp: fn_mov_def split: prod.splits option.splits if_splits)
    have "rsp_offset src k = None" for k
      using True by (rule reg_or_imm_head) (simp add: rsp_offset_other)
    with assms(3,4) obtain v where v: "data_val src m = Some v" "m' = put_reg d v m"
      by (auto simp: fr_mov_def slot_def split: option.splits)
    note s = fn_term_sound [OF assms(1,2) v(1) t]
    with pagree_reg [of env sv st1 m t d] have "pagree env sv st' m'" by (auto simp: st' v)
    then show ?thesis by (rule pnext_same) (use s st' in simp)
  next
    case False
    with assms(5) d obtain off t st1 where o: "rsp_offset src (prsp st) = Some off"
      and t: "stack_get off st = (t, st1)" and st': "st' = st1\<lparr>pregs := dset d t (pregs st1)\<rparr>"
      by (auto simp: fn_mov_def split: prod.splits option.splits if_splits)
    have "data_val src m = None"
      using False data_regD(7) [of src] by (cases "data_reg src") (auto simp: data_val_def)
    with assms(3,4) o have m': "m' = put_reg d (fmem m off) m"
      by (auto simp: fr_mov_def slot_def pagree_off [OF assms(1)] split: if_splits)
    from stack_get_sound [OF assms(1) t] obtain sv' where s: "\<forall>n < fresh st. sv' n = sv n"
      "pagree env sv' st1 m" "peval env sv' t = fmem m off" "pbound (fresh st1) t"
      "fresh st1 = Suc (fresh st)" by blast
    have "pagree env sv' st' m'" using pagree_reg [OF s(2,4), of d] s(3) by (simp add: st' m')
    with s(1,5) show ?thesis by (auto simp: pnext_def st')
  qed
qed

lemma slot_not_reg: "slot dst m = Some off \<Longrightarrow> re_fullmatch REG_RE dst = None"
proof (rule ccontr)
  assume s: "slot dst m = Some off" and "re_fullmatch REG_RE dst \<noteq> None"
  then obtain c x where "dst = c # x" "c = CHR ''%'' \<or> c = CHR ''$''"
    by (metis reg_or_imm_head)
  with s rsp_offset_other [of c x "foff m"] show False by (simp add: slot_def)
qed

lemma mov_mem_sound:
  assumes "pagree env sv st m" "strip src = src" "data_reg dst = None"
    "fr_mov src dst m = Some m'" "fn_mov src dst st = Inr st'"
  shows "pnext env sv st st' m'"
proof -
  from assms(3,4) obtain off v where o: "slot dst m = Some off" and v: "data_val src m = Some v"
    and m': "m' = put_mem off v m"
    by (auto simp: fr_mov_def split: option.splits)
  have off: "rsp_offset dst (prsp st) = Some off"
    using o by (auto simp: slot_def pagree_off [OF assms(1)] split: option.splits if_splits)
  from assms(5) off slot_not_reg [OF o] obtain t st1 where t: "fn_term src st = (Some t, st1)"
    and st': "st' = st1\<lparr>pstack := dset off t (pstack st1)\<rparr>"
    by (auto simp: fn_mov_def split: prod.splits option.splits)
  note s = fn_term_sound [OF assms(1,2) v t]
  with pagree_mem [of env sv st1 m t off] have "pagree env sv st' m'" by (auto simp: st' m')
  then show ?thesis by (rule pnext_same) (use s st' in simp)
qed

lemma mov_sound:
  assumes "pagree env sv st m" "strip src = src"
    "fr_mov src dst m = Some m'" "fn_mov src dst st = Inr st'"
  shows "pnext env sv st st' m'"
  using mov_reg_sound [OF assms(1,2) _ assms(3,4)] mov_mem_sound [OF assms(1,2) _ assms(3,4)]
  by (cases "data_reg dst") auto

lemma canon_rsp: "canon ''%rsp'' = ''rsp''"
  by code_simp

lemma alu_family_add:
  "alu_family op = Some f \<Longrightarrow> f \<in> {BvAdd, BvSub} \<Longrightarrow> starts_with ''add'' op \<longleftrightarrow> f = BvAdd"
  by (auto simp: alu_family_def split: if_splits)

lemma alu_rsp_sound:
  assumes "pagree env sv st m" "strip src = src" "alu_family op = Some f"
    "fr_alu f src ''%rsp'' m = Some m'" "fn_alu op f src ''%rsp'' st = Inr st'"
  shows "pnext env sv st st' m'"
proof -
  from assms(4) obtain n where n: "f \<in> {BvAdd, BvSub}" "starts_with ''$'' src" "py_int0 (drop 1 src) = Some n"
    and m': "m' = m\<lparr>foff := foff m + (if f = BvAdd then n else - n)\<rparr>"
    by (auto simp: fr_alu_def split: if_splits)
  from assms(5) n obtain st1 t where t: "fn_term src st = (Some t, st1)"
    and st': "st' = st1\<lparr>prsp := prsp st1 + (if f = BvAdd then n else - n)\<rparr>"
    using alu_family_add [OF assms(3) n(1)]
    by (auto simp: fn_alu_def canon_rsp split: prod.splits option.splits if_splits)
  have "data_val src m = Some (word_of_int n)"
    using n reg_or_imm_head [of src] data_regD(1) [of src]
    by (cases "data_reg src") (auto simp: data_val_def split: list.splits)
  note s = fn_term_sound [OF assms(1,2) this t]
  have "pagree env sv st' m'"
    using pagree_rsp [of env sv st1 m] s by (auto simp: st' m' pagree_off [OF assms(1)])
  then show ?thesis by (rule pnext_same) (use s st' in simp)
qed

lemma alu_reg_sound:
  assumes "pagree env sv st m" "strip src = src" "dst \<noteq> ''%rsp''"
    "fr_alu f src dst m = Some m'" "fn_alu op f src dst st = Inr st'"
  shows "pnext env sv st st' m'"
proof -
  from assms(3,4) obtain v d where v: "data_val src m = Some v" and d: "data_reg dst = Some d"
    and m': "m' = put_reg d (eval_binop f (freg m d) v) m"
    by (auto simp: fr_alu_def split: option.splits)
  note r = data_regD [OF d]
  from assms(5) r(3,6) obtain tl st1 tr st2 where t: "fn_term src st = (Some tl, st1)"
    "fn_term dst st1 = (Some tr, st2)" and st': "st' = st2\<lparr>pregs := dset d (PBin f tr tl) (pregs st2)\<rparr>"
    by (auto simp: fn_alu_def split: prod.splits option.splits)
  note s = fn_term_sound [OF assms(1,2) v t(1)]
  have dv: "data_val dst m = Some (freg m d)" using d by (simp add: data_val_def)
  note u = fn_term_sound [OF conjunct1 [OF s] r(4) dv t(2)]
  with s pagree_reg [of env sv st2 m "PBin f tr tl" d] have "pagree env sv st' m'"
    by (auto simp: st' m')
  then show ?thesis by (rule pnext_same) (use s u st' in simp)
qed

lemma instr_sound:
  assumes "pagree env sv st m" "list_all (\<lambda>a. strip a = a) args" "op \<notin> {''ret'', ''retq''}"
    "fr_instr op args m = Some m'" "fn_instr op args st = Inr st'"
  shows "pnext env sv st st' m'"
proof (cases args)
  case (Cons a rest)
  show ?thesis
  proof (cases rest)
    case Nil
    then consider "op \<in> {''push'', ''pushq''}" "fr_push a m = Some m'"
      | "op \<in> {''pop'', ''popq''}" "fr_pop a m = Some m'"
      using assms(4) Cons by (auto simp: fr_instr_def split: if_splits)
    then show ?thesis
    proof cases
      case 1
      with assms(5) Cons Nil have "fn_push a st = Inr st'" by (auto simp: fn_instr_def)
      with 1 assms(1,2) Cons show ?thesis by (auto intro: push_sound)
    next
      case 2
      with assms(5) Cons Nil have "fn_pop a st = Inr st'"
        by (auto simp: fn_instr_def alu_family_def split: if_splits)
      with 2 assms(1) show ?thesis by (auto intro: pop_sound)
    qed
  next
    case two: (Cons b more)
    with assms(4) \<open>args = a # rest\<close> have args: "args = [a, b]"
      by (auto simp: fr_instr_def split: list.splits)
    with assms(4) consider "op \<in> {''mov'', ''movq''}" "fr_mov a b m = Some m'"
      | f where "op \<notin> {''mov'', ''movq''}" "alu_family op = Some f" "fr_alu f a b m = Some m'"
      by (auto simp: fr_instr_def split: if_splits option.splits)
    then show ?thesis
    proof cases
      case 1
      with assms(5) args have "fn_mov a b st = Inr st'" by (auto simp: fn_instr_def)
      with 1 assms(1,2) args show ?thesis by (auto intro: mov_sound)
    next
      case 2
      with assms(3,5) args have "fn_alu op f a b st = Inr st'"
        by (auto simp: fn_instr_def split: if_splits)
      with 2 assms(1,2) args show ?thesis
        using alu_rsp_sound [of env sv st m a op f m' st'] alu_reg_sound [of env sv st m a b f m' op st']
        by (cases "b = ''%rsp''") auto
    qed
  qed
qed (use assms(4) in \<open>simp add: fr_instr_def\<close>)

lemma fn_parse_stripped: "fn_parse raw = Some (op, args) \<Longrightarrow> list_all (\<lambda>a. strip a = a) args"
  by (auto simp: fn_parse_def fn_operands_def Let_def list_all_iff strip_idem split: if_splits list.splits)

lemma fn_lines_sound:
  assumes "fr_run body m = Some m'" "fn_lines body st = Inr st'" "pagree env sv st m"
  shows "\<exists>sv'. pagree env sv' st' m'"
  using assms
proof (induction body arbitrary: m st sv)
  case (Cons raw rest)
  obtain op args where p: "fn_parse raw = Some (op, args)"
    using Cons.prems(1) by (auto split: option.splits)
  from Cons.prems(2) p obtain st1 where st1: "fn_instr op args st = Inr st1" "fn_lines rest st1 = Inr st'"
    by (auto split: sum.splits)
  show ?case
  proof (cases "op \<in> {''ret'', ''retq''}")
    case True
    with Cons.prems(1) p have "rest = []" "m' = m" by (auto split: if_splits)
    with True st1 Cons.prems(3) show ?thesis by (auto simp: fn_instr_def)
  next
    case False
    with Cons.prems(1) p obtain m1 where "fr_instr op args m = Some m1" "fr_run rest m1 = Some m'"
      by (auto split: option.splits)
    with instr_sound [OF Cons.prems(3) fn_parse_stripped [OF p] False _ st1(1)] Cons.IH st1(2)
    show ?thesis by (auto simp: pnext_def)
  qed
qed auto

lemma pagree_init: "foff m = 0 \<Longrightarrow> pagree (freg m) sv pinit m"
  by (simp add: pagree_def pwf_def pval_def pinit_def)

definition final_term :: "(string, pterm) dict \<Rightarrow> string \<Rightarrow> pterm" where
  "final_term rs r = (case dget rs r of Some t \<Rightarrow> t | None \<Rightarrow> PIn r)"

text \<open>
  What the check relies on: a solver that answers \<open>unsat\<close> to the query of a term and a
  register has shown that they agree for all values of the symbols.
\<close>

definition preserve_solver_sound :: "(string \<Rightarrow> string) \<Rightarrow> pterm \<Rightarrow> string \<Rightarrow> bool" where
  "preserve_solver_sound solver t r \<longleftrightarrow>
     (solver_line (solver (preserve_query t r)) = ''unsat'' \<longrightarrow> (\<forall>env sv. peval env sv t = env r))"

text \<open>A function that saves two registers on the stack and uses them.\<close>

definition ex_fn :: easm_fn where
  "ex_fn = \<lparr>fn_name = ''swap'', fn_preserves = [''rbx'', ''r12''], fn_clobbers = [''r12'', ''rbx'', ''rax''],
     fn_returns = True, fn_body = [''pushq %rbx'', ''subq $16, %rsp'', ''movq %r12, 8(%rsp)'',
       ''movq $7, %rbx'', ''addq %rbx, %r12'', ''movq %r12, %rax'', ''movq 8(%rsp), %r12'',
       ''addq $16, %rsp'', ''popq %rbx'', ''ret'']\<rparr>"

definition ex_frame :: frame where
  "ex_frame = \<lparr>freg = (\<lambda>_. 5), foff = 0, fmem = (\<lambda>_. 9)\<rparr>"

definition ex_preserve_solver :: "string \<Rightarrow> string" where
  "ex_preserve_solver q = (if q = preserve_query (PIn ''r12'') ''r12'' then ''unsat'' @ [CHR 0x0A] else ''unknown'')"

lemma ex_fn_model:
  "(case preserve_model ex_fn of Inr rs \<Rightarrow> final_term rs ''r12'' = PIn ''r12'' | Inl _ \<Rightarrow> False)"
  "preserve_targets ex_fn = [''r12'', ''rbx'']"
  "(case fr_run (fn_body ex_fn) ex_frame of Some m' \<Rightarrow> freg m' ''r12'' = 5 | None \<Rightarrow> False)"
  by code_simp+

lemma ex_preserve_report: "(''swap'', ''r12'', PProved) \<in> set (preserve_fn ex_preserve_solver ex_fn)"
proof -
  obtain rs where rs: "preserve_model ex_fn = Inr rs" "final_term rs ''r12'' = PIn ''r12''"
    using ex_fn_model(1) by (auto split: sum.splits)
  have "solver_line (''unsat'' @ [CHR 0x0A]) = ''unsat''" by code_simp
  then have "preserve_prove ex_preserve_solver (PIn ''r12'') ''r12'' = PProved"
    by (simp add: preserve_prove_def ex_preserve_solver_def)
  moreover have "fn_returns ex_fn" "fn_name ex_fn = ''swap''" by (simp_all add: ex_fn_def)
  ultimately show ?thesis
    using rs by (auto simp: preserve_fn_def ex_fn_model(2) final_term_def)
qed

section \<open>Soundness of the check\<close>

text \<open>
  C3. A register the check reports as proved is preserved: when the function's body runs on
  the machine from any frame at its entry, the register holds its initial value at the end,
  whatever the memory held, given a solver that is sound on the register's query.
\<close>

theorem preserve_sound:
  assumes "(name, r, PProved) \<in> set (preserve_fn solver f)"
    and "fr_run (fn_body f) m = Some m'" and "foff m = 0"
    and "\<And>rs. preserve_model f = Inr rs \<Longrightarrow> preserve_solver_sound solver (final_term rs r) r"
  shows "freg m' r = freg m r"
proof -
  obtain rs where rs: "preserve_model f = Inr rs" and r: "r \<in> set (preserve_targets f)"
    and p: "preserve_prove solver (final_term rs r) r = PProved"
    using assms(1) by (auto simp: preserve_fn_def final_term_def Let_def split: if_splits sum.splits)
  from rs obtain st where st: "fn_lines (fn_body f) pinit = Inr st" "rs = pregs st"
    by (auto simp: preserve_model_def split: sum.splits)
  from fn_lines_sound [OF assms(2) st(1) pagree_init [OF assms(3)]] obtain sv
    where ag: "pagree (freg m) sv st m'" by blast
  have "r \<in> set CALLEE_SAVED" using r by (simp add: preserve_targets_def)
  then have "r \<in> set REGS" "r \<noteq> ''rsp''" by (auto simp: CALLEE_SAVED_def REGS_def)
  then have "freg m' r = peval (freg m) sv (final_term rs r)"
    using ag by (auto simp: pagree_def pval_def final_term_def st(2) split: option.splits)
  also have "\<dots> = freg m r"
    using assms(4) [OF rs] p by (auto simp: preserve_solver_sound_def preserve_prove_def Let_def split: if_splits)
  finally show ?thesis .
qed

theorem preserve_sound_witness:
  "(case fr_run (fn_body ex_fn) ex_frame of Some m' \<Rightarrow> freg m' ''r12'' = freg ex_frame ''r12'' | None \<Rightarrow> False)"
proof -
  obtain m' where m': "fr_run (fn_body ex_fn) ex_frame = Some m'"
    using ex_fn_model(3) by (auto split: option.splits)
  have "preserve_solver_sound ex_preserve_solver (final_term rs ''r12'') ''r12''"
    if "preserve_model ex_fn = Inr rs" for rs
    using that ex_fn_model(1) by (simp add: preserve_solver_sound_def)
  from preserve_sound [OF ex_preserve_report m' _ this] m' show ?thesis
    by (simp add: ex_frame_def)
qed

text \<open>
  The names \<open>eax\<close>, \<open>ecx\<close>, \<open>edx\<close>, \<dots> are not aliases of their 64-bit registers, so a value
  kept in \<open>rax\<close> is taken to survive a write to \<open>eax\<close>.
\<close>

lemma eax_write_not_seen:
  "(case preserve_model (ex_fn\<lparr>fn_body := [''movq %rbx, %rax'', ''mov $0, %eax'', ''movq %rax, %rbx'', ''ret'']\<rparr>) of
      Inr rs \<Rightarrow> final_term rs ''rbx'' = PIn ''rbx'' | Inl _ \<Rightarrow> False)"
  by code_simp

text \<open>Masking the stack pointer is taken for a subtraction.\<close>

lemma and_rsp_is_sub:
  "(case fn_lines [''andq $8, %rsp''] pinit of Inr st \<Rightarrow> prsp st = - 8 | Inl _ \<Rightarrow> False)"
  by code_simp

end
