(* ===== verification/EasmTemplate.thy ===== *)
theory EasmTemplate
  imports PyRegex
begin

text \<open>
  \<open>scripts/easm_assemble_template.py\<close>: assembling one EASM template and deriving the byte
  ranges its holes patch. The assembler is a parameter, from the source text to its exit
  code and output; bytes are numbers below 256.
\<close>

section \<open>Parsing a template\<close>

type_synonym bytes = "nat list"
type_synonym assembler = "string \<Rightarrow> int \<times> string"

definition is_hexdigit :: "char \<Rightarrow> bool" where
  "is_hexdigit c \<longleftrightarrow> is_digit c \<or> 97 \<le> code c \<and> code c \<le> 102 \<or> 65 \<le> code c \<and> code c \<le> 70"

text \<open>\<open>encoding:\s*\[([0-9a-fA-Fx, ]*)\]\<close>\<close>

definition ENCODING :: rx where
  "ENCODING = Seqs [Lit ''encoding:'', Spaces0, Chr (CHR ''[''),
     Grp 1 (Many (Cls (\<lambda>c. is_hexdigit c \<or> c = CHR ''x'' \<or> c = CHR '','' \<or> c = CHR '' ''))), Chr (CHR '']'')]"

text \<open>\<open>^template\s+def\s+([A-Za-z_][A-Za-z0-9_]*)\s*\(([^)]*)\)\s*:\s*$\<close>\<close>

definition TEMPLATE :: rx where
  "TEMPLATE = Seqs [Bol, Lit ''template'', Spaces1, Lit ''def'', Spaces1, Grp 1 Ident, Spaces0,
     Chr (CHR ''(''), Grp 2 (Many (Cls (\<lambda>c. c \<noteq> CHR '')''))), Chr (CHR '')''), Spaces0,
     Chr (CHR '':''), Spaces0, Eol]"

text \<open>\<open>^(?:module|target|export\s+def|fragment|protocol|layout|template\s+def)\b\<close>\<close>

definition TEMPLATE_HEADER :: rx where
  "TEMPLATE_HEADER = Seqs [Bol, Alts [Lit ''module'', Lit ''target'',
     Seqs [Lit ''export'', Spaces1, Lit ''def''], Lit ''fragment'', Lit ''protocol'', Lit ''layout'',
     Seqs [Lit ''template'', Spaces1, Lit ''def'']], WordB]"

definition hole_class :: "string \<Rightarrow> string" where
  "hole_class type_name = (if strip type_name \<in> set [''u16'', ''i16'', ''GuestFsSelector'', ''HostFsSelector'',
     ''GuestGsSelector'', ''HostGsSelector''] then ''sel16'' else ''wide64'')"

type_synonym hole = "string \<times> string"

definition parse_hole :: "string \<Rightarrow> hole option" where
  "parse_hole raw = (let item = strip raw in
     if item = [] then None
     else case split1 (CHR '':'') item of
         (h, Some t) \<Rightarrow> Some (strip h, strip t)
       | (_, None) \<Rightarrow> Some (item, []))"

definition hole_list :: "string \<Rightarrow> hole list" where
  "hole_list text = List.map_filter parse_hole (split_on (CHR '','') text)"

text \<open>The loop over the lines, with the holes once the template header has been seen.\<close>

fun template_lines :: "string list \<Rightarrow> hole list option \<Rightarrow> string list \<Rightarrow> (hole list option \<times> string list) result" where
  "template_lines [] holes body = Inr (holes, body)"
| "template_lines (raw # rest) holes body = (let line = strip (fst (split1 (CHR ''#'') raw)) in
     if line = [] then template_lines rest holes body
     else case re_match TEMPLATE line of
       Some m \<Rightarrow> if holes \<noteq> None
           then Inl (ValueError ''multiple templates are not supported; pass one template file'')
           else template_lines rest (Some (hole_list (group_or m 2 []))) body
     | None \<Rightarrow>
         if holes \<noteq> None \<and> re_match TEMPLATE_HEADER line \<noteq> None then Inr (holes, body)
         else template_lines rest holes (if holes \<noteq> None then body @ [line] else body))"

definition parse_template :: "string \<Rightarrow> (hole list \<times> string list) result" where
  "parse_template text = rbind (template_lines (splitlines text) None []) (\<lambda>(holes, body).
     case holes of
       None \<Rightarrow> Inl (ValueError ''no template def found'')
     | Some hs \<Rightarrow> if body = [] then Inl (ValueError ''template has no instructions'') else Inr (hs, body))"

section \<open>Assembling\<close>

text \<open>\<open>(^|[^%$\w.])NAME($|[^\w])\<close>\<close>

definition hole_rx :: "string \<Rightarrow> rx" where
  "hole_rx name = Seqs [
     Grp 1 (Alt Bol (Cls (\<lambda>c. \<not> (c = CHR ''%'' \<or> c = CHR ''$'' \<or> is_word c \<or> c = CHR ''.'')))),
     Lit name, Grp 2 (Alt Eol (Cls (\<lambda>c. \<not> is_word c)))]"

definition substitute1 :: "string \<times> string \<Rightarrow> string \<Rightarrow> string" where
  "substitute1 = (\<lambda>(name, value) text.
     re_sub (hole_rx name) (\<lambda>m. group_or m 1 [] @ value @ group_or m 2 [])
       (replace_all (''<'' @ name @ ''>'') value text))"

definition substitute :: "string \<Rightarrow> (string, string) dict \<Rightarrow> string" where
  "substitute text fills = fold substitute1 fills text"

text \<open>\<open>int(token, 16)\<close> and \<open>bytearray.append\<close>.\<close>

definition py_hex :: "string \<Rightarrow> nat option" where
  "py_hex t = (case t of
     c # x # r \<Rightarrow> if c = CHR ''0'' \<and> lower_char x = CHR ''x'' then prefixed_run 16 r else digit_run 16 False 0 t
   | _ \<Rightarrow> digit_run 16 False 0 t)"

definition hex_byte :: "string \<Rightarrow> nat result" where
  "hex_byte token = (case py_hex token of
     None \<Rightarrow> Inl (ValueError ''invalid literal for int()'')
   | Some n \<Rightarrow> if n < 256 then Inr n else Inl (ValueError ''byte must be in range(0, 256)''))"

definition encoding :: "string \<Rightarrow> bytes result" where
  "encoding output = rbind
     (traverse hex_byte (concat (map (\<lambda>m. filter (\<lambda>t. t \<noteq> []) (map strip (split_on (CHR '','') (group_or m 1 []))))
        (re_finditer ENCODING output))))
     (\<lambda>bs. if bs = [] then Inl (ValueError ''llvm-mc produced no encoding records'') else Inr bs)"

definition assemble :: "assembler \<Rightarrow> string list \<Rightarrow> (string, string) dict \<Rightarrow> bytes result" where
  "assemble llvm_mc body fills =
     (case llvm_mc (join [CHR 0x0A] (map (\<lambda>line. substitute line fills) body) @ [CHR 0x0A]) of
        (returncode, output) \<Rightarrow>
          if returncode \<noteq> 0 then Inl (RuntimeError (''llvm-mc failed ('' @ show_int returncode @ ''):'' @ [CHR 0x0A] @ output))
          else encoding output)"

section \<open>Patch ranges\<close>

text \<open>The inner loop of \<open>diff_runs\<close>; indexing past the second byte string raises.\<close>

function run_end :: "bytes \<Rightarrow> bytes \<Rightarrow> nat \<Rightarrow> nat result" where
  "run_end left right index =
     (if length left \<le> index then Inr index
      else if length right \<le> index then Inl IndexError
      else if left ! index \<noteq> right ! index then run_end left right (Suc index)
      else Inr index)"
  by pat_completeness auto
termination
  by (relation "measure (\<lambda>(left, right, index). length left - index)") auto

declare run_end.simps [simp del]

lemma run_end_ge: "run_end l r i = Inr e \<Longrightarrow> i \<le> e"
  by (induction l r i rule: run_end.induct) (auto simp: run_end.simps split: if_splits)

lemma run_end_gt:
  "run_end l r i = Inr e \<Longrightarrow> i < length l \<Longrightarrow> l ! i \<noteq> r ! i \<Longrightarrow> i < e"
  by (subst (asm) run_end.simps) (auto split: if_splits dest: run_end_ge)

function diff_from :: "bytes \<Rightarrow> bytes \<Rightarrow> nat \<Rightarrow> (nat \<times> nat) list result" where
  "diff_from left right index =
     (if length left \<le> index then Inr []
      else if length right \<le> index then Inl IndexError
      else if left ! index = right ! index then diff_from left right (Suc index)
      else rbind (run_end left right index) (\<lambda>e.
        rbind (diff_from left right e) (\<lambda>runs. Inr ((index, e - index) # runs))))"
  by pat_completeness auto
termination
  by (relation "measure (\<lambda>(left, right, index). length left - index)") (auto dest: run_end_gt)

declare diff_from.simps [simp del]

definition diff_runs :: "bytes \<Rightarrow> bytes \<Rightarrow> (nat \<times> nat) list result" where
  "diff_runs left right = diff_from left right 0"

section \<open>The template image\<close>

record patch =
  p_hole :: string
  p_offset :: nat
  p_width :: nat

definition base_fills :: "hole list \<Rightarrow> (string, string) dict" where
  "base_fills holes = fold (\<lambda>(name, _). dset name ''$0x0'') holes []"

definition flip_fills :: "hole list \<Rightarrow> hole \<Rightarrow> (string, string) dict" where
  "flip_fills holes = (\<lambda>(name, type_name). dset name
     (if hole_class type_name = ''sel16'' then ''$0xffff'' else ''$0xffffffffffffffff'') (base_fills holes))"

definition hole_patches :: "assembler \<Rightarrow> hole list \<Rightarrow> string list \<Rightarrow> bytes \<Rightarrow> hole \<Rightarrow> patch list result" where
  "hole_patches llvm_mc holes body base h =
     rbind (assemble llvm_mc body (flip_fills holes h)) (\<lambda>flipped.
       if length flipped \<noteq> length base then Inl (ValueError (''hole '' @ fst h @ '' changes encoding length''))
       else rbind (diff_runs base flipped) (\<lambda>runs.
         if runs = [] then Inl (ValueError (''hole '' @ fst h @ '' is never encoded into a byte slot''))
         else Inr (map (\<lambda>(offset, width). \<lparr>p_hole = fst h, p_offset = offset, p_width = width\<rparr>) runs)))"

definition template_main :: "assembler \<Rightarrow> string \<Rightarrow> (bytes \<times> patch list) result" where
  "template_main llvm_mc text =
     rbind (parse_template text) (\<lambda>(holes, body).
     rbind (assemble llvm_mc body (base_fills holes)) (\<lambda>base.
     rbind (traverse (hole_patches llvm_mc holes body base) holes) (\<lambda>ps. Inr (base, concat ps))))"

section \<open>The runs are exactly the differing bytes\<close>

definition covers :: "nat \<times> nat \<Rightarrow> nat \<Rightarrow> bool" where
  "covers = (\<lambda>(offset, width) i. offset \<le> i \<and> i < offset + width)"

lemma run_end_props:
  assumes "length l = length r" "i \<le> length l"
  shows "\<exists>e. run_end l r i = Inr e \<and> e \<le> length l \<and> (\<forall>k. i \<le> k \<and> k < e \<longrightarrow> l ! k \<noteq> r ! k) \<and>
    (e < length l \<longrightarrow> l ! e = r ! e)"
  using assms
proof (induction l r i rule: run_end.induct)
  case (1 l r i)
  show ?case
  proof (cases "i < length l \<and> l ! i \<noteq> r ! i")
    case True
    with 1 obtain e where e: "run_end l r (Suc i) = Inr e" "e \<le> length l"
      "\<forall>k. Suc i \<le> k \<and> k < e \<longrightarrow> l ! k \<noteq> r ! k" "e < length l \<longrightarrow> l ! e = r ! e" by auto
    have "run_end l r i = Inr e" using True 1 e(1) by (simp add: run_end.simps [of l r i])
    with e True show ?thesis by (metis Suc_leI le_neq_implies_less)
  next
    case False
    with 1(2,3) show ?thesis by (auto simp: run_end.simps [of l r i])
  qed
qed

lemma diff_from_props:
  assumes "length l = length r"
  shows "\<exists>runs. diff_from l r i = Inr runs \<and>
    (\<forall>k. list_ex (\<lambda>run. covers run k) runs \<longleftrightarrow> i \<le> k \<and> k < length l \<and> l ! k \<noteq> r ! k) \<and>
    sorted_wrt (\<lambda>(o1, w1) (o2, w2). o1 + w1 < o2) runs \<and>
    list_all (\<lambda>(o1, w1). i \<le> o1 \<and> 0 < w1 \<and> o1 + w1 \<le> length l) runs"
  using assms
proof (induction l r i rule: diff_from.induct)
  case (1 l r i)
  consider "length l \<le> i" | "i < length l" "l ! i = r ! i" | "i < length l" "l ! i \<noteq> r ! i" by linarith
  then show ?case
  proof cases
    case 1
    then show ?thesis by (simp add: diff_from.simps [of l r i])
  next
    case 2
    with "1.IH"(1) "1.prems" obtain runs where s: "diff_from l r (Suc i) = Inr runs"
      "\<forall>k. list_ex (\<lambda>run. covers run k) runs \<longleftrightarrow> Suc i \<le> k \<and> k < length l \<and> l ! k \<noteq> r ! k"
      "sorted_wrt (\<lambda>(o1, w1) (o2, w2). o1 + w1 < o2) runs"
      "list_all (\<lambda>(o1, w1). Suc i \<le> o1 \<and> 0 < w1 \<and> o1 + w1 \<le> length l) runs" by auto
    have "diff_from l r i = diff_from l r (Suc i)"
      using 2 "1.prems" by (simp add: diff_from.simps [of l r i])
    moreover have "Suc i \<le> k \<and> k < length l \<and> l ! k \<noteq> r ! k \<longleftrightarrow> i \<le> k \<and> k < length l \<and> l ! k \<noteq> r ! k" for k
      using 2(2) by (cases "k = i") auto
    moreover have "list_all (\<lambda>(o1, w1). i \<le> o1 \<and> 0 < w1 \<and> o1 + w1 \<le> length l) runs"
      using s(4) by (rule list.pred_mono_strong) auto
    ultimately show ?thesis using s(1,2,3) by (intro exI [of _ runs]) simp
  next
    case 3
    with run_end_props [of l r i] "1.prems" obtain e where e: "run_end l r i = Inr e" "e \<le> length l"
      "\<forall>k. i \<le> k \<and> k < e \<longrightarrow> l ! k \<noteq> r ! k" "e < length l \<longrightarrow> l ! e = r ! e" by auto
    have ie: "i < e" using run_end_gt [OF e(1)] 3 by simp
    from "1.IH"(2) [of e] 3 e(1) "1.prems" obtain runs where r: "diff_from l r e = Inr runs"
      "\<forall>k. list_ex (\<lambda>run. covers run k) runs \<longleftrightarrow> e \<le> k \<and> k < length l \<and> l ! k \<noteq> r ! k"
      "sorted_wrt (\<lambda>(o1, w1) (o2, w2). o1 + w1 < o2) runs"
      "list_all (\<lambda>(o1, w1). e \<le> o1 \<and> 0 < w1 \<and> o1 + w1 \<le> length l) runs" by auto
    have d: "diff_from l r i = Inr ((i, e - i) # runs)"
      using 3 e(1) r(1) "1.prems" by (simp add: diff_from.simps [of l r i])
    have cov: "list_ex (\<lambda>run. covers run k) ((i, e - i) # runs) \<longleftrightarrow> i \<le> k \<and> k < length l \<and> l ! k \<noteq> r ! k" for k
      using r(2) e ie by (auto simp: covers_def)
    have "e < o1" if "(o1, w1) \<in> set runs" for o1 w1
    proof -
      have "covers (o1, w1) o1" "e \<le> o1" using r(4) that by (auto simp: covers_def list_all_iff)
      with r(2) that have "o1 < length l" "l ! o1 \<noteq> r ! o1" by (auto simp: list_ex_iff)
      with e(4) \<open>e \<le> o1\<close> show ?thesis by (cases "o1 = e") auto
    qed
    then have "sorted_wrt (\<lambda>(o1, w1) (o2, w2). o1 + w1 < o2) ((i, e - i) # runs)"
      using r(3) ie by auto
    moreover have "list_all (\<lambda>(o1, w1). i \<le> o1 \<and> 0 < w1 \<and> o1 + w1 \<le> length l) ((i, e - i) # runs)"
      using r(4) ie e(2) by (auto simp: list_all_iff)
    ultimately show ?thesis using d cov by blast
  qed
qed

section \<open>What a template image guarantees\<close>

text \<open>
  The image with the bytes of \<open>new\<close> written at the patches of a hole.
\<close>

definition overlay :: "bytes \<Rightarrow> bytes \<Rightarrow> (nat \<times> nat) list \<Rightarrow> bytes" where
  "overlay base new runs =
     map (\<lambda>i. if list_ex (\<lambda>run. covers run i) runs then new ! i else base ! i) [0..<length base]"

definition runs_of :: "string \<Rightarrow> patch list \<Rightarrow> (nat \<times> nat) list" where
  "runs_of name ps = map (\<lambda>p. (p_offset p, p_width p)) (filter (\<lambda>p. p_hole p = name) ps)"

lemma overlay_superset:
  assumes "length new = length base"
    and "\<And>i. i < length base \<Longrightarrow> base ! i \<noteq> new ! i \<Longrightarrow> list_ex (\<lambda>run. covers run i) runs"
  shows "overlay base new runs = new"
  using assms by (intro nth_equalityI) (auto simp: overlay_def)

lemma hole_patches_props:
  assumes "hole_patches mc holes body base h = Inr ps"
  obtains flipped where "assemble mc body (flip_fills holes h) = Inr flipped" "length flipped = length base"
    "ps \<noteq> []" "\<forall>i < length base. base ! i \<noteq> flipped ! i \<longrightarrow> list_ex (\<lambda>run. covers run i) (runs_of (fst h) ps)"
    "list_all (\<lambda>p. p_hole p = fst h \<and> 0 < p_width p \<and> p_offset p + p_width p \<le> length base) ps"
proof -
  from assms obtain flipped runs where f: "assemble mc body (flip_fills holes h) = Inr flipped"
    "length flipped = length base" "diff_runs base flipped = Inr runs" "runs \<noteq> []"
    and ps: "ps = map (\<lambda>(offset, width). \<lparr>p_hole = fst h, p_offset = offset, p_width = width\<rparr>) runs"
    by (auto simp: hole_patches_def split: if_splits)
  have runs: "runs_of (fst h) ps = runs"
    by (simp add: runs_of_def ps filter_map o_def case_prod_unfold)
  from diff_from_props [of base flipped 0] f(2,3)
  have "\<forall>i < length base. base ! i \<noteq> flipped ! i \<longrightarrow> list_ex (\<lambda>run. covers run i) runs"
    and "list_all (\<lambda>(o1, w1). 0 < w1 \<and> o1 + w1 \<le> length base) runs"
    by (auto simp: diff_runs_def list_all_iff)
  with f(4) have "ps \<noteq> []" "list_all (\<lambda>p. p_hole p = fst h \<and> 0 < p_width p \<and> p_offset p + p_width p \<le> length base) ps"
    by (auto simp: ps list_all_iff)
  with that f(1,2) runs \<open>\<forall>i < length base. _ i\<close> show ?thesis by simp
qed

lemma template_main_holes:
  assumes "template_main mc text = Inr (base, patches)"
  obtains holes body ps where "parse_template text = Inr (holes, body)"
    "assemble mc body (base_fills holes) = Inr base"
    "traverse (hole_patches mc holes body base) holes = Inr ps" "patches = concat ps"
  using assms by (auto simp: template_main_def)

lemma runs_of_concat:
  "p \<in> set ps \<Longrightarrow> list_ex (\<lambda>run. covers run i) (runs_of n p) \<Longrightarrow> list_ex (\<lambda>run. covers run i) (runs_of n (concat ps))"
  by (auto simp: runs_of_def list_ex_iff)

definition ex_template :: string where
  "ex_template = ''template def load(v: u64):'' @ [CHR 0x0A] @ ''  movabsq v, %rax'' @ [CHR 0x0A] @ ''  ret''"

text \<open>An assembler for the two sources the example asks about.\<close>

definition ex_mc :: assembler where
  "ex_mc source =
     (if source = ''movabsq $0x0, %rax'' @ [CHR 0x0A] @ ''ret'' @ [CHR 0x0A]
      then (0, ''# encoding: [0x48,0xb8,0x00,0x00]'' @ [CHR 0x0A] @ ''# encoding: [0xc3]'')
      else if source = ''movabsq $0xffffffffffffffff, %rax'' @ [CHR 0x0A] @ ''ret'' @ [CHR 0x0A]
      then (0, ''# encoding: [0x48,0xb8,0xff,0xff]'' @ [CHR 0x0A] @ ''# encoding: [0xc3]'')
      else (1, ''error''))"

lemma ex_template_image:
  "template_main ex_mc ex_template = Inr ([0x48, 0xb8, 0, 0, 0xc3], [\<lparr>p_hole = ''v'', p_offset = 2, p_width = 2\<rparr>])"
  by code_simp

lemma ex_template_parse:
  "parse_template ex_template = Inr ([(''v'', ''u64'')], [''movabsq v, %rax'', ''ret''])"
  by code_simp

text \<open>
  C4. The runs \<open>diff_runs\<close> reports for two encodings of one length are exactly the maximal
  ranges of differing bytes: it does not raise, a byte differs if and only if a run covers
  it, the runs are not empty, lie inside the encoding, come in order and leave a gap between
  them.
\<close>

theorem diff_runs_exact:
  assumes "length left = length right"
  shows "\<exists>runs. diff_runs left right = Inr runs \<and>
    (\<forall>k. list_ex (\<lambda>run. covers run k) runs = (k < length left \<and> left ! k \<noteq> right ! k)) \<and>
    sorted_wrt (\<lambda>(o1, w1) (o2, w2). o1 + w1 < o2) runs \<and>
    list_all (\<lambda>(o1, w1). 0 < w1 \<and> o1 + w1 \<le> length left) runs"
  using diff_from_props [OF assms, of 0] by (auto simp: diff_runs_def)

theorem diff_runs_exact_witness:
  "\<exists>runs. diff_runs [1, 2, 3, 4] [1, 0, 0, 4] = Inr runs \<and>
    (\<forall>k. list_ex (\<lambda>run. covers run k) runs = (k < length [1, 2, 3, 4::nat] \<and> [1, 2, 3, 4] ! k \<noteq> [1, 0, 0, 4::nat] ! k)) \<and>
    sorted_wrt (\<lambda>(o1, w1) (o2, w2). o1 + w1 < o2) runs \<and>
    list_all (\<lambda>(o1, w1). 0 < w1 \<and> o1 + w1 \<le> length [1, 2, 3, 4::nat]) runs"
  using diff_runs_exact [of "[1, 2, 3, 4]" "[1, 0, 0, 4]"] by simp

text \<open>
  A template image is enough to instantiate any one hole: for every hole of the template,
  writing the bytes of the encoding with that hole filled by all ones at the hole's patches
  turns the image into that encoding; every hole has a patch, and every patch lies inside
  the image.
\<close>

theorem template_image_patches:
  assumes "template_main mc text = Inr (base, patches)"
    and "parse_template text = Inr (holes, body)" and "h \<in> set holes"
  shows "\<exists>flipped. assemble mc body (flip_fills holes h) = Inr flipped \<and>
    overlay base flipped (runs_of (fst h) patches) = flipped \<and> runs_of (fst h) patches \<noteq> [] \<and>
    list_all (\<lambda>(o1, w1). 0 < w1 \<and> o1 + w1 \<le> length base) (runs_of (fst h) patches)"
proof -
  from assms(1,2) obtain ps where t: "traverse (hole_patches mc holes body base) holes = Inr ps"
    and p: "patches = concat ps" by (auto elim: template_main_holes)
  from assms(3) obtain i where i: "i < length holes" "holes ! i = h" by (auto simp: in_set_conv_nth)
  from traverse_Inr [OF t] i have hp: "hole_patches mc holes body base h = Inr (ps ! i)" "ps ! i \<in> set ps" by auto
  from hole_patches_props [OF hp(1)] obtain flipped where f: "assemble mc body (flip_fills holes h) = Inr flipped"
    "length flipped = length base" "ps ! i \<noteq> []"
    "\<forall>k < length base. base ! k \<noteq> flipped ! k \<longrightarrow> list_ex (\<lambda>run. covers run k) (runs_of (fst h) (ps ! i))"
    "list_all (\<lambda>p. p_hole p = fst h \<and> 0 < p_width p \<and> p_offset p + p_width p \<le> length base) (ps ! i)" .
  have "overlay base flipped (runs_of (fst h) patches) = flipped"
    using f(2,4) runs_of_concat [OF hp(2)] by (intro overlay_superset) (auto simp: p)
  moreover have "runs_of (fst h) patches \<noteq> []"
    using f(3,5) hp(2) by (cases "ps ! i") (auto simp: runs_of_def p filter_empty_conv intro: bexI [of _ "ps ! i"])
  moreover have "0 < p_width q \<and> p_offset q + p_width q \<le> length base" if "q \<in> set patches" for q
  proof -
    from that p obtain qs where "qs \<in> set ps" "q \<in> set qs" by auto
    with traverse_Inr_set [OF t] obtain g where "hole_patches mc holes body base g = Inr qs" by blast
    from hole_patches_props [OF this] \<open>q \<in> set qs\<close> show ?thesis by (auto simp: list_all_iff)
  qed
  ultimately show ?thesis using f(1) by (auto simp: runs_of_def list_all_iff)
qed

theorem template_image_patches_witness:
  "\<exists>flipped. assemble ex_mc [''movabsq v, %rax'', ''ret''] (flip_fills [(''v'', ''u64'')] (''v'', ''u64'')) = Inr flipped \<and>
    overlay [0x48, 0xb8, 0, 0, 0xc3] flipped [(2, 2)] = flipped"
  using template_image_patches [OF ex_template_image ex_template_parse, of "(''v'', ''u64'')"]
  by (auto simp: runs_of_def)

end
