(* ===== verification/EasmOracle.thy ===== *)
theory EasmOracle
  imports PyRegex
begin

text \<open>
  \<open>scripts/easm_lockstep_oracle.py\<close>: scanning an EASM source for lockstep pairs with their
  contracts, the gate that decides which pairs the execution oracle may run, and the
  verdict of a run. Assembling, linking and running the harness is a parameter; the reasons
  the script formats as text are values of a datatype.
\<close>

section \<open>Operands and bindings\<close>

definition ORACLE_REGS :: "string list" where
  "ORACLE_REGS = [''rax'', ''rbx'', ''rcx'', ''rdx'', ''rsi'', ''rdi'', ''rbp'', ''rsp'', ''r8'', ''r9'', ''r10'', ''r11'',
     ''r12'', ''r13'', ''r14'', ''r15'']"

text \<open>\<open>^export\s+def\s+([A-Za-z_][A-Za-z0-9_]*)\s*\(([^)]*)\).*->\s*([^\s]+)\<close>\<close>

definition ORACLE_HEADER :: rx where
  "ORACLE_HEADER = Seqs [Bol, Lit ''export'', Spaces1, Lit ''def'', Spaces1, Grp 1 Ident, Spaces0, Chr (CHR ''(''),
     Grp 2 (Many (Cls (\<lambda>c. c \<noteq> CHR '')''))), Chr (CHR '')''), Many Dot, Lit ''->'', Spaces0,
     Grp 3 (Plus (Cls (\<lambda>c. \<not> is_space c)))]"

definition oracle_operands :: "string \<Rightarrow> string list" where
  "oracle_operands text = (case split_ws1 text of
     [_, rest] \<Rightarrow> map strip (split_on (CHR '','') rest) | _ \<Rightarrow> [])"

definition register_after_equals :: "string \<Rightarrow> string option" where
  "register_after_equals text = (case snd (split1 (CHR ''='') text) of
     None \<Rightarrow> None
   | Some rest \<Rightarrow> (let value = lower (lstrip_chars ''%'' (strip rest)) in
       if value \<in> set ORACLE_REGS then Some value else None))"

definition binding_name :: "string \<Rightarrow> string" where
  "binding_name binding = strip (fst (split1 (CHR ''='') binding))"

section \<open>Scanning a source\<close>

record oracle_pair =
  o_name :: string
  o_params :: "(string \<times> string) list"
  o_return :: string
  o_inputs :: "string list"
  o_outputs :: "string list"
  o_stack :: "string list"
  o_control :: "string list"
  o_reference :: "string list"
  o_target :: "string list"

datatype osect = OInputs | OOutputs | OStack | OControl | OReference | OTarget

record oscan =
  o_found :: "oracle_pair list"
  o_current :: "oracle_pair option"
  o_section :: "osect option"

definition oracle_params :: "string \<Rightarrow> (string \<times> string) list" where
  "oracle_params text = map (\<lambda>item. case split1 (CHR '':'') item of
       (name, typ) \<Rightarrow> (strip name, strip (case typ of None \<Rightarrow> [] | Some t \<Rightarrow> t)))
     (filter (\<lambda>item. item \<noteq> []) (map strip (split_on (CHR '','') text)))"

definition oracle_close :: "oscan \<Rightarrow> oracle_pair list" where
  "oracle_close sc = (case o_current sc of
     None \<Rightarrow> o_found sc
   | Some c \<Rightarrow> if o_reference c \<noteq> [] \<and> o_target c \<noteq> [] then o_found sc @ [c] else o_found sc)"

definition oracle_items :: "string \<Rightarrow> string list" where
  "oracle_items text = filter (\<lambda>x. x \<noteq> []) (map strip (split_on (CHR '','') text))"

fun body_append :: "osect \<Rightarrow> string \<Rightarrow> oracle_pair \<Rightarrow> oracle_pair" where
  "body_append OReference t c = c\<lparr>o_reference := o_reference c @ [t]\<rparr>"
| "body_append OTarget t c = c\<lparr>o_target := o_target c @ [t]\<rparr>"
| "body_append _ t c = c"

text \<open>A line inside a section; a section other than the two bodies ends at a line with a colon.\<close>

fun section_line :: "osect option \<Rightarrow> string \<Rightarrow> oracle_pair \<Rightarrow> oracle_pair" where
  "section_line (Some OInputs) text c =
     (if has_sub ''='' text then c\<lparr>o_inputs := o_inputs c @ oracle_items text\<rparr> else c)"
| "section_line (Some OOutputs) text c =
     (if has_sub ''='' text then c\<lparr>o_outputs := o_outputs c @
        map (\<lambda>item. lstrip_chars ''%'' (strip (last (split_on (CHR ''='') (strip item))))) (split_on (CHR '','') text)\<rparr> else c)"
| "section_line (Some OStack) text c = c\<lparr>o_stack := o_stack c @ oracle_items text\<rparr>"
| "section_line (Some OControl) text c = c\<lparr>o_control := o_control c @ oracle_items text\<rparr>"
| "section_line (Some s) text c = (if text \<noteq> [] then body_append s text c else c)"
| "section_line None text c = c"

definition section_header :: "string \<Rightarrow> osect option" where
  "section_header text =
     (if starts_with ''inputs:'' text then Some OInputs
      else if starts_with ''outputs:'' text then Some OOutputs
      else if starts_with ''stack:'' text then Some OStack
      else if starts_with ''control:'' text then Some OControl
      else if text = ''reference:'' then Some OReference
      else if starts_with ''target '' text \<and> has_sub '' lockstep '' text then Some OTarget
      else None)"

definition oracle_step :: "oscan \<Rightarrow> string \<Rightarrow> oscan" where
  "oracle_step sc raw = (let text = strip (fst (split1 (CHR ''#'') raw)) in
     case re_match ORACLE_HEADER text of
       Some m \<Rightarrow> \<lparr>o_found = oracle_close sc,
           o_current = Some \<lparr>o_name = group_or m 1 [], o_params = oracle_params (group_or m 2 []),
             o_return = group_or m 3 [], o_inputs = [], o_outputs = [], o_stack = [], o_control = [],
             o_reference = [], o_target = []\<rparr>,
           o_section = None\<rparr>
     | None \<Rightarrow> (case o_current sc of
         None \<Rightarrow> sc
       | Some c \<Rightarrow> (case section_header text of
           Some s \<Rightarrow> sc\<lparr>o_section := Some s\<rparr>
         | None \<Rightarrow>
             if o_section sc \<in> {Some OReference, Some OTarget} \<and> ends_with '':'' text
             then sc\<lparr>o_current := Some (body_append (the (o_section sc)) text c)\<rparr>
             else if ends_with '':'' text then sc\<lparr>o_section := None\<rparr>
             else sc\<lparr>o_current := Some (section_line (o_section sc) text c)\<rparr>)))"

definition parse_source :: "string \<Rightarrow> oracle_pair list" where
  "parse_source source = oracle_close
     (foldl oracle_step \<lparr>o_found = [], o_current = None, o_section = None\<rparr> (splitlines source))"

section \<open>The gate\<close>

datatype body_kind = Reference | Target

datatype gate_reason =
    StackNotUnchanged
  | ControlNotReturns
  | BindingNotGpr string
  | BindingNoParameter string
  | TooManyPointers
  | SideEffect body_kind string
  | UnsupportedBranch body_kind string
  | FlagsNotEstablished body_kind
  | IndirectBranch body_kind
  | NonLocalJump body_kind string
  | SegmentAccess body_kind
  | ForeignBase body_kind string
  | IndexedAddress body_kind

definition params_dict :: "oracle_pair \<Rightarrow> (string, string) dict" where
  "params_dict pair = fold (\<lambda>(n, t). dset n t) (o_params pair) []"

definition is_ptr_type :: "string option \<Rightarrow> bool" where
  "is_ptr_type t = (case t of None \<Rightarrow> False | Some s \<Rightarrow> starts_with ''HostPtr['' (strip s))"

text \<open>The loop over the input bindings, with the number of pointers counted so far.\<close>

fun gate_bindings :: "(string, string) dict \<Rightarrow> nat \<Rightarrow> string list \<Rightarrow> gate_reason + nat" where
  "gate_bindings params n [] = Inr n"
| "gate_bindings params n (binding # rest) =
     (if register_after_equals binding = None then Inl (BindingNotGpr binding)
      else case dget params (binding_name binding) of
          None \<Rightarrow> Inl (BindingNoParameter binding)
        | Some t \<Rightarrow> gate_bindings params (if is_ptr_type (Some t) then Suc n else n) rest)"

definition SIDE_EFFECTS :: "string list" where
  "SIDE_EFFECTS = [''call'', ''callq'', ''rdtsc'', ''cpuid'', ''pause'', ''lfence'', ''mrs'', ''isb'', ''syscall'', ''sysenter'']"

definition BRANCHES :: "string list" where
  "BRANCHES = [''je'', ''jz'', ''jne'', ''jnz'', ''jl'', ''jle'', ''jg'', ''jge'', ''jb'', ''jbe'', ''ja'', ''jae'', ''js'', ''jns'',
     ''jo'', ''jno'']"

definition FLAG_WRITERS :: "string list" where
  "FLAG_WRITERS = [''add'', ''sub'', ''and'', ''or'', ''xor'', ''inc'', ''dec'', ''neg'', ''shl'', ''shr'', ''sal'', ''sar'']"

definition sets_flags :: "string \<Rightarrow> bool" where
  "sets_flags op \<longleftrightarrow> op \<in> {''cmp'', ''cmpq'', ''test'', ''testq''}"

definition writes_flags :: "string \<Rightarrow> bool" where
  "writes_flags op \<longleftrightarrow> \<not> sets_flags op \<and> op \<noteq> ''label'' \<and> list_ex (\<lambda>p. starts_with p op) FLAG_WRITERS"

text \<open>\<open>\(%([a-z0-9]+)\)\<close>\<close>

definition BASE_RE :: rx where
  "BASE_RE = Seqs [Lit ''(%'', Grp 1 (Plus (Cls (\<lambda>c. is_lower_az c \<or> is_digit c))), Chr (CHR '')'')]"

definition ptr_regs :: "oracle_pair \<Rightarrow> string set" where
  "ptr_regs pair = {r. \<exists>x \<in> set (o_inputs pair). is_ptr_type (dget (params_dict pair) (binding_name x)) \<and>
     register_after_equals x = Some r}"

lemma ptr_regs_code [code]:
  "ptr_regs pair = set (List.map_filter register_after_equals
     (filter (\<lambda>x. is_ptr_type (dget (params_dict pair) (binding_name x))) (o_inputs pair)))"
  by (force simp: ptr_regs_def List.map_filter_def)

fun gate_operands :: "body_kind \<Rightarrow> string set \<Rightarrow> string list \<Rightarrow> gate_reason option" where
  "gate_operands b ptrs [] = None"
| "gate_operands b ptrs (operand # rest) =
     (if \<not> has_sub ''('' operand then gate_operands b ptrs rest
      else case re_search BASE_RE (lower operand) of
          None \<Rightarrow> Some (ForeignBase b operand)
        | Some m \<Rightarrow> if group_or m 1 [] \<notin> ptrs then Some (ForeignBase b operand)
            else if has_sub '','' operand then Some (IndexedAddress b)
            else gate_operands b ptrs rest)"

definition mnemonic :: "string \<Rightarrow> string" where
  "mnemonic raw = (case split_ws1 raw of [] \<Rightarrow> [] | p # _ \<Rightarrow> lower p)"

definition is_cond_branch :: "string \<Rightarrow> bool" where
  "is_cond_branch op \<longleftrightarrow> starts_with ''j'' op \<and> op \<notin> {''jmp'', ''jmpq''}"

text \<open>The checks of one line that is not a conditional branch, after its effect on the flags.\<close>

definition gate_memory :: "body_kind \<Rightarrow> string set \<Rightarrow> string \<Rightarrow> gate_reason option" where
  "gate_memory b ptrs raw = (let low = lower raw in
     if has_sub ''%fs:'' low \<or> has_sub ''%gs:'' low then Some (SegmentAccess b)
     else gate_operands b ptrs (oracle_operands raw))"

fun gate_body :: "body_kind \<Rightarrow> string set \<Rightarrow> bool \<Rightarrow> string list \<Rightarrow> gate_reason option" where
  "gate_body b ptrs flags_live [] = None"
| "gate_body b ptrs flags_live (raw # rest) = (let op = mnemonic raw in
     if op \<in> set SIDE_EFFECTS then Some (SideEffect b op)
     else if is_cond_branch op then
       (if op \<notin> set BRANCHES then Some (UnsupportedBranch b op)
        else if \<not> flags_live then Some (FlagsNotEstablished b)
        else case oracle_operands raw of
            [a] \<Rightarrow> if starts_with ''*'' a \<or> starts_with ''%'' a then Some (IndirectBranch b)
                   else gate_body b ptrs flags_live rest
          | _ \<Rightarrow> Some (IndirectBranch b))
     else if op \<in> {''jmp'', ''jmpq''} then Some (NonLocalJump b op)
     else case gate_memory b ptrs raw of
         Some r \<Rightarrow> Some r
       | None \<Rightarrow> gate_body b ptrs
           (if sets_flags op then True else if writes_flags op then False else flags_live) rest)"

definition contract_has :: "string \<Rightarrow> string list \<Rightarrow> bool" where
  "contract_has w items \<longleftrightarrow> w \<in> set (map (\<lambda>x. lower (strip x)) items)"

definition gate :: "oracle_pair \<Rightarrow> gate_reason option" where
  "gate pair =
     (if \<not> contract_has ''unchanged'' (o_stack pair) then Some StackNotUnchanged
      else if \<not> contract_has ''returns'' (o_control pair) then Some ControlNotReturns
      else case gate_bindings (params_dict pair) 0 (o_inputs pair) of
          Inl r \<Rightarrow> Some r
        | Inr ptr_count \<Rightarrow>
            if 1 < ptr_count then Some TooManyPointers
            else case gate_body Reference (ptr_regs pair) False (o_reference pair) of
                Some r \<Rightarrow> Some r
              | None \<Rightarrow> gate_body Target (ptr_regs pair) False (o_target pair))"

section \<open>Running a pair\<close>

text \<open>
  What assembling, linking and running the harness gave: an \<open>OSError\<close> or \<open>RuntimeError\<close>, a
  failed link, or the exit code and the standard error of the executable.
\<close>

datatype tool_outcome = ToolError string | LinkFailed string | Executed int string

datatype oracle_verdict = OProved | ODiverged string | OGateSkip gate_reason | OSkip string

definition oracle_run :: "(oracle_pair \<Rightarrow> tool_outcome) \<Rightarrow> oracle_pair \<Rightarrow> oracle_verdict" where
  "oracle_run tools pair = (case gate pair of
     Some reason \<Rightarrow> OGateSkip reason
   | None \<Rightarrow> (case tools pair of
       ToolError e \<Rightarrow> OSkip e
     | LinkFailed e \<Rightarrow> OSkip (''link failed: '' @ strip e)
     | Executed returncode err \<Rightarrow>
         if returncode \<noteq> 0 then ODiverged (if strip err = [] then ''oracle executable failed'' else strip err)
         else OProved))"

definition oracle_main :: "(oracle_pair \<Rightarrow> tool_outcome) option \<Rightarrow> string \<Rightarrow> oracle_verdict list \<times> int" where
  "oracle_main tools source = (case tools of
     None \<Rightarrow> ([OSkip ''llvm-mc and clang not found''], 0)
   | Some t \<Rightarrow> (let results = map (oracle_run t) (parse_source source) in
       (results, if list_ex (\<lambda>r. case r of ODiverged _ \<Rightarrow> True | _ \<Rightarrow> False) results then 1 else 0)))"

text \<open>The arguments of the harness call: a buffer for a pointer, a column of the vectors otherwise.\<close>

definition harness_values :: "oracle_pair \<Rightarrow> string list" where
  "harness_values pair = map (\<lambda>(index, binding).
       if is_ptr_type (dget (params_dict pair) (binding_name binding)) then ''(uint64_t)buf''
       else ''vectors[i]['' @ show_nat index @ '']'')
     (zip [0..<length (o_inputs pair)] (o_inputs pair))"

definition asm_text :: "bool \<Rightarrow> string \<Rightarrow> string list \<Rightarrow> string" where
  "asm_text darwin symbol body = (let leading = (if darwin then ''_'' else []); nl = [CHR 0x0A] in
     ''.text'' @ nl @ ''.globl '' @ leading @ symbol @ nl @ leading @ symbol @ '':'' @ nl @
     concat (map (\<lambda>line. [CHR 0x09] @ line @ nl) (filter (\<lambda>line. strip line \<noteq> []) body)))"

section \<open>What the gate admits\<close>

text \<open>
  Where the flags come from is stated over the instruction set and over every path of a body, not
  over the text the gate reads. A comparison is \<open>cmp\<close> or \<open>test\<close> of any width; the
  other writers of the status flags are listed by their mnemonic without the width.
\<close>

definition X86_FLAG_WRITERS :: "string list" where
  "X86_FLAG_WRITERS = [''adc'', ''adcx'', ''add'', ''adox'', ''and'', ''andn'', ''bextr'', ''blsi'', ''blsmsk'', ''blsr'', ''bsf'', ''bsr'',
     ''bt'', ''btc'', ''btr'', ''bts'', ''bzhi'', ''clc'', ''cmc'', ''cmpxchg'', ''cmpxchg8b'', ''cmpxchg16b'', ''cmps'', ''comisd'',
     ''comiss'', ''dec'', ''div'', ''idiv'', ''imul'', ''inc'', ''lzcnt'', ''mul'', ''neg'', ''or'', ''popcnt'', ''popf'', ''ptest'',
     ''rcl'', ''rcr'', ''rdrand'', ''rdseed'', ''rol'', ''ror'', ''sahf'', ''sal'', ''sar'', ''sbb'', ''scas'', ''shl'', ''shld'',
     ''shr'', ''shrd'', ''stc'', ''sub'', ''tzcnt'', ''ucomisd'', ''ucomiss'', ''xadd'', ''xor'']"

definition widths :: "string \<Rightarrow> string list" where
  "widths op = [op, op @ ''b'', op @ ''w'', op @ ''l'', op @ ''q'']"

definition x86_compare :: "string \<Rightarrow> bool" where
  "x86_compare op \<longleftrightarrow> op \<in> set (widths ''cmp'' @ widths ''test'')"

definition x86_flags :: "string \<Rightarrow> bool" where
  "x86_flags op \<longleftrightarrow> op \<in> set (concat (map widths X86_FLAG_WRITERS))"

text \<open>
  The lines an execution may reach, with whether the flags there were last written by a comparison:
  it falls through to the next line, or a conditional branch takes it to any line at all.
\<close>

inductive flags_at :: "string list \<Rightarrow> nat \<Rightarrow> bool \<Rightarrow> bool" for body where
  entry: "flags_at body 0 False"
| step: "flags_at body i f \<Longrightarrow> i < length body \<Longrightarrow>
    flags_at body (Suc i) (x86_compare (mnemonic (body ! i)) \<or> f \<and> \<not> x86_flags (mnemonic (body ! i)))"
| branch: "flags_at body i f \<Longrightarrow> i < length body \<Longrightarrow> is_cond_branch (mnemonic (body ! i)) \<Longrightarrow> flags_at body j f"

definition compared_flags :: "string list \<Rightarrow> bool" where
  "compared_flags body \<longleftrightarrow>
     (\<forall>i f. flags_at body i f \<longrightarrow> i < length body \<longrightarrow> is_cond_branch (mnemonic (body ! i)) \<longrightarrow> f)"

text \<open>The body's flag writers, other than comparisons, are of the families that the gate knows.\<close>

definition listed_writers :: "string list \<Rightarrow> bool" where
  "listed_writers body \<longleftrightarrow> list_all (\<lambda>raw. x86_flags (mnemonic raw) \<longrightarrow> writes_flags (mnemonic raw)) body"

text \<open>
  What the gate tracks: some earlier line of the text is a comparison, and no line between is of the
  families it takes to write the flags.
\<close>

definition tracked :: "string list \<Rightarrow> nat \<Rightarrow> bool" where
  "tracked body i \<longleftrightarrow> (\<exists>j < i. sets_flags (mnemonic (body ! j)) \<and>
     (\<forall>k. j < k \<and> k < i \<longrightarrow> \<not> writes_flags (mnemonic (body ! k))))"

definition direct_branch :: "string \<Rightarrow> bool" where
  "direct_branch raw \<longleftrightarrow> mnemonic raw \<in> set BRANCHES \<and>
     (\<exists>a. oracle_operands raw = [a] \<and> \<not> starts_with ''*'' a \<and> \<not> starts_with ''%'' a)"

text \<open>Every operand written with a parenthesis has a base register of the given set.\<close>

definition based_on :: "string set \<Rightarrow> string \<Rightarrow> bool" where
  "based_on ptrs raw \<longleftrightarrow> (\<forall>operand \<in> set (oracle_operands raw). has_sub ''('' operand \<longrightarrow>
     (\<exists>m. re_search BASE_RE (lower operand) = Some m \<and> group_or m 1 [] \<in> ptrs))"

definition leaf_body :: "string set \<Rightarrow> string list \<Rightarrow> bool" where
  "leaf_body ptrs body \<longleftrightarrow> (\<forall>raw \<in> set body. let op = mnemonic raw in
     op \<notin> set SIDE_EFFECTS \<and> op \<notin> {''jmp'', ''jmpq''} \<and>
     (if is_cond_branch op then direct_branch raw else based_on ptrs raw))"

lemma tracked_0 [simp]: "\<not> tracked body 0"
  by (simp add: tracked_def)

lemma tracked_Suc:
  "tracked body (Suc i) \<longleftrightarrow> sets_flags (mnemonic (body ! i)) \<or>
     (tracked body i \<and> \<not> writes_flags (mnemonic (body ! i)))"
proof
  assume "tracked body (Suc i)"
  then obtain j where "j < Suc i" "sets_flags (mnemonic (body ! j))"
    "\<forall>k. j < k \<and> k < Suc i \<longrightarrow> \<not> writes_flags (mnemonic (body ! k))" by (auto simp: tracked_def)
  then show "sets_flags (mnemonic (body ! i)) \<or> (tracked body i \<and> \<not> writes_flags (mnemonic (body ! i)))"
    by (cases "j = i") (auto simp: tracked_def less_Suc_eq)
next
  assume "sets_flags (mnemonic (body ! i)) \<or> (tracked body i \<and> \<not> writes_flags (mnemonic (body ! i)))"
  then show "tracked body (Suc i)"
  proof
    assume "sets_flags (mnemonic (body ! i))"
    then show ?thesis by (auto simp: tracked_def intro!: exI [of _ i])
  next
    assume "tracked body i \<and> \<not> writes_flags (mnemonic (body ! i))"
    then show ?thesis by (auto simp: tracked_def less_Suc_eq)
  qed
qed

lemma writes_not_sets: "writes_flags op \<Longrightarrow> \<not> sets_flags op"
  by (simp add: writes_flags_def)

lemma branch_keeps_flags:
  assumes "is_cond_branch op"
  shows "\<not> sets_flags op \<and> \<not> writes_flags op"
proof -
  from assms obtain t where "op = CHR ''j'' # t"
    by (auto simp: is_cond_branch_def split: list.splits)
  then show ?thesis by (simp add: sets_flags_def writes_flags_def FLAG_WRITERS_def)
qed

lemma gate_operands_based:
  "gate_operands b ptrs ops = None \<Longrightarrow> operand \<in> set ops \<Longrightarrow> has_sub ''('' operand \<Longrightarrow>
     \<exists>m. re_search BASE_RE (lower operand) = Some m \<and> group_or m 1 [] \<in> ptrs"
  by (induction ops) (auto split: if_splits option.splits)

lemma gate_body_sound:
  assumes "gate_body b ptrs live (drop n body) = None" and "live = tracked body n" and "n \<le> i" and "i < length body"
  shows "let raw = body ! i; op = mnemonic raw in
     op \<notin> set SIDE_EFFECTS \<and> op \<notin> {''jmp'', ''jmpq''} \<and>
     (if is_cond_branch op then direct_branch raw \<and> tracked body i else based_on ptrs raw)"
  using assms
proof (induction "length body - n" arbitrary: n live)
  case (Suc d)
  then have d: "drop n body = body ! n # drop (Suc n) body" by (simp add: Cons_nth_drop_Suc)
  let ?op = "mnemonic (body ! n)"
  note g = Suc.prems(1) [unfolded d gate_body.simps Let_def]
  have here: "?op \<notin> set SIDE_EFFECTS \<and> ?op \<notin> {''jmp'', ''jmpq''} \<and>
      (if is_cond_branch ?op then direct_branch (body ! n) \<and> tracked body n else based_on ptrs (body ! n))"
  proof (cases "is_cond_branch ?op")
    case True
    with g Suc.prems(2) show ?thesis
      by (auto simp: direct_branch_def is_cond_branch_def split: if_splits list.splits)
  next
    case False
    with g have "gate_memory b ptrs (body ! n) = None" "?op \<notin> set SIDE_EFFECTS" "?op \<notin> {''jmp'', ''jmpq''}"
      by (auto split: if_splits option.splits)
    with False gate_operands_based [of b ptrs "oracle_operands (body ! n)"] show ?thesis
      by (auto simp: gate_memory_def based_on_def Let_def split: if_splits)
  qed
  have "\<exists>live'. gate_body b ptrs live' (drop (Suc n) body) = None \<and> live' = tracked body (Suc n)"
    using g Suc.prems(2) branch_keeps_flags [of ?op] writes_not_sets [of ?op]
    by (auto simp: tracked_Suc split: if_splits list.splits option.splits)
  then obtain live' where "gate_body b ptrs live' (drop (Suc n) body) = None" "live' = tracked body (Suc n)" by blast
  with Suc.hyps(1) [of "Suc n" live'] Suc.hyps(2) Suc.prems(3,4) here show ?case
    by (cases "n = i") (auto simp: Let_def)
qed simp

lemma gate_body_leaf: "gate_body b ptrs False body = None \<Longrightarrow> leaf_body ptrs body"
  unfolding leaf_body_def using gate_body_sound [of b ptrs False 0 body]
  by (fastforce simp: in_set_conv_nth Let_def split: if_splits)

lemma gate_body_tracked:
  "gate_body b ptrs False body = None \<Longrightarrow> i < length body \<Longrightarrow> is_cond_branch (mnemonic (body ! i)) \<Longrightarrow> tracked body i"
  using gate_body_sound [of b ptrs False 0 body i] by (simp add: Let_def)

lemma sets_flags_compare: "sets_flags op \<Longrightarrow> x86_compare op"
  by (auto simp: sets_flags_def x86_compare_def widths_def)

text \<open>What the gate tracks along the text holds on every path, because only branches it has checked leave the text's order.\<close>

lemma tracked_flags_at:
  assumes "gate_body b ptrs False body = None" "listed_writers body" "flags_at body i f"
  shows "tracked body i \<longrightarrow> f"
  using assms(3)
proof induction
  case (step i f)
  then show ?case using assms(2) sets_flags_compare [of "mnemonic (body ! i)"]
    by (auto simp: tracked_Suc listed_writers_def list_all_length)
next
  case (branch i f j)
  then show ?case using gate_body_tracked [OF assms(1), of i] by blast
qed simp

lemma gate_body_flags: "gate_body b ptrs False body = None \<Longrightarrow> listed_writers body \<Longrightarrow> compared_flags body"
  unfolding compared_flags_def using gate_body_tracked tracked_flags_at by blast

lemma gate_bindings_Inr:
  assumes "gate_bindings params n bs = Inr k"
  shows "k = n + length (filter (\<lambda>b. is_ptr_type (dget params (binding_name b))) bs) \<and>
    (\<forall>b \<in> set bs. register_after_equals b \<noteq> None \<and> dget params (binding_name b) \<noteq> None)"
  using assms
  by (induction params n bs rule: gate_bindings.induct) (auto split: if_splits option.splits)

text \<open>What running a pair needs of it.\<close>

definition admissible :: "oracle_pair \<Rightarrow> bool" where
  "admissible pair \<longleftrightarrow>
     (\<forall>b \<in> set (o_inputs pair). register_after_equals b \<noteq> None \<and> dget (params_dict pair) (binding_name b) \<noteq> None) \<and>
     length (filter (\<lambda>b. is_ptr_type (dget (params_dict pair) (binding_name b))) (o_inputs pair)) \<le> 1 \<and>
     (\<forall>body \<in> {o_reference pair, o_target pair}. leaf_body (ptr_regs pair) body \<and> compared_flags body)"

definition ex_oracle_source :: string where
  "ex_oracle_source = join [CHR 0x0A] [''export def pick(p: HostPtr[u64], n: u64) -> u64 abi c:'', ''inputs:'',
     ''  p = %rdi, n = %rsi'', ''stack:'', ''  unchanged'', ''control:'', ''  returns'', ''reference:'',
     ''  movq (%rdi), %rax'', ''  cmpq %rsi, %rax'', ''  jae done'', ''  movq %rsi, %rax'', ''done:'', ''  ret'',
     ''target x86_64 lockstep fast:'', ''  movq 8(%rdi), %rax'', ''  ret'']"

definition ex_oracle_pair :: oracle_pair where
  "ex_oracle_pair = \<lparr>o_name = ''pick'', o_params = [(''p'', ''HostPtr[u64]''), (''n'', ''u64'')], o_return = ''u64'',
     o_inputs = [''p = %rdi'', ''n = %rsi''], o_outputs = [], o_stack = [''unchanged''], o_control = [''returns''],
     o_reference = [''movq (%rdi), %rax'', ''cmpq %rsi, %rax'', ''jae done'', ''movq %rsi, %rax'', ''done:'', ''ret''],
     o_target = [''movq 8(%rdi), %rax'', ''ret'']\<rparr>"

lemma ex_oracle_parse: "parse_source ex_oracle_source = [ex_oracle_pair]"
  by code_simp

lemma ex_oracle_gate: "gate ex_oracle_pair = None"
  by code_simp

text \<open>
  C5. A pair that passes the gate, and whose flag-writing instructions are comparisons or of the
  families the gate lists, is what the oracle can run: its inputs are bound to registers and named in
  the signature, at most one is a pointer, and both bodies are leaves. They have no instruction with an
  outside effect and no jump but direct conditional branches; whichever way these go, the flags that a
  branch reads were last written by a comparison; and every operand written with a parenthesis is based
  on the pointer input's register.
\<close>

theorem gate_admits:
  assumes "gate pair = None" "listed_writers (o_reference pair)" "listed_writers (o_target pair)"
  shows "admissible pair"
proof -
  from assms(1) obtain k where k: "gate_bindings (params_dict pair) 0 (o_inputs pair) = Inr k" "\<not> 1 < k"
    and "gate_body Reference (ptr_regs pair) False (o_reference pair) = None"
    and "gate_body Target (ptr_regs pair) False (o_target pair) = None"
    by (auto simp: gate_def split: if_splits sum.splits option.splits)
  with gate_bindings_Inr [OF k(1)] assms(2,3) show ?thesis
    by (auto simp: admissible_def gate_body_leaf gate_body_flags)
qed

theorem gate_admits_witness: "admissible ex_oracle_pair"
proof -
  have "listed_writers (o_reference ex_oracle_pair)" "listed_writers (o_target ex_oracle_pair)" by code_simp+
  from gate_admits [OF ex_oracle_gate this] show ?thesis .
qed

text \<open>
  Where the gate admits more than the module says. An instruction outside the listed families keeps
  the flags live although it writes them, so the branch reads flags that no comparison set; and an
  absolute address has no parenthesis, so it is not taken for a memory operand.
\<close>

definition adc_body :: "string list" where
  "adc_body = [''cmpq %rsi, %rdi'', ''adcq %rsi, %rax'', ''je done'', ''done:'', ''ret'']"

lemma adc_keeps_flags_live: "gate_body Reference {} False adc_body = None \<and> \<not> compared_flags adc_body"
proof -
  have "x86_flags (mnemonic (adc_body ! 1)) \<and> \<not> x86_compare (mnemonic (adc_body ! 1))" by code_simp
  then have "flags_at adc_body (Suc (Suc 0)) False"
    using flags_at.step [OF flags_at.step [OF flags_at.entry, of adc_body]] by (simp add: adc_body_def)
  moreover have "is_cond_branch (mnemonic (adc_body ! 2))" by code_simp
  moreover have "2 < length adc_body" by (simp add: adc_body_def)
  ultimately have "\<not> compared_flags adc_body" unfolding compared_flags_def numeral_2_eq_2 by blast
  moreover have "gate_body Reference {} False adc_body = None" by code_simp
  ultimately show ?thesis by blast
qed

lemma absolute_address_admitted: "gate_body Reference {} False [''movq 4096, %rax'', ''ret''] = None"
  by code_simp

end
