(* ===== verification/EasmRelation.thy ===== *)
theory EasmRelation
  imports PyRegex
begin

text \<open>
  \<open>scripts/easm_relation_property.py\<close>: random straight-line bodies, the concrete check for
  reads of undefined registers, and the comparison with the verifier. The generator's random
  numbers are a list the draws consume: a draw below \<open>n\<close> takes the next number modulo \<open>n\<close>,
  so every sequence of Python's draws is one of these. The verifier is a parameter, from the
  source text to what it prints.
\<close>

section \<open>Generating bodies\<close>

definition REL_REGS :: "string list" where
  "REL_REGS = [''rax'', ''rcx'', ''rdx'', ''rsi'', ''rdi'', ''r8'', ''r9'', ''r10'', ''r11'']"

definition REL_OPS :: "string list" where
  "REL_OPS = [''movq'', ''addq'', ''subq'', ''andq'', ''xorq'', ''incq'', ''decq'', ''xchgq'']"

definition REL_IMMS :: "nat list" where
  "REL_IMMS = [0, 1, 2, 3, 7, 15, 16, 31]"

type_synonym tape = "nat list"

definition draw :: "nat \<Rightarrow> tape \<Rightarrow> nat \<times> tape" where
  "draw n t = (case t of [] \<Rightarrow> (0, []) | x # xs \<Rightarrow> (x mod n, xs))"

fun draw_inputs :: "bool \<Rightarrow> string list \<Rightarrow> tape \<Rightarrow> (string, nat) dict \<Rightarrow> (string, nat) dict \<times> tape" where
  "draw_inputs force_undef [] t inputs = (inputs, t)"
| "draw_inputs force_undef (r # rs) t inputs =
     (if force_undef then
        (case draw 3 t of (k, t1) \<Rightarrow>
           if k \<noteq> 0 then (case draw 17 t1 of (v, t2) \<Rightarrow> draw_inputs force_undef rs t2 (dset r v inputs))
           else draw_inputs force_undef rs t1 inputs)
      else (case draw 17 t of (v, t1) \<Rightarrow> draw_inputs force_undef rs t1 (dset r v inputs)))"

definition indent :: string where
  "indent = ''        ''"

definition imm_text :: "nat \<Rightarrow> string" where
  "imm_text n = CHR ''$'' # show_nat n"

definition two_line :: "string \<Rightarrow> string \<Rightarrow> string \<Rightarrow> string" where
  "two_line op src r = indent @ op @ '' '' @ src @ '', %'' @ r"

definition one_line :: "string \<Rightarrow> string \<Rightarrow> string" where
  "one_line op r = indent @ op @ '' %'' @ r"

text \<open>One instruction: the draws are the operation, two registers, an immediate, and whether it is used.\<close>

definition gen_line :: "string list \<Rightarrow> tape \<Rightarrow> string \<times> tape" where
  "gen_line live t = (case draw (length REL_OPS) t of (i, t1) \<Rightarrow>
     case draw (length live) t1 of (j, t2) \<Rightarrow> case draw (length live) t2 of (k, t3) \<Rightarrow>
     case draw (length REL_IMMS) t3 of (l, t4) \<Rightarrow>
     let op = REL_OPS ! i; r = live ! j; other = live ! k; imm = imm_text (REL_IMMS ! l) in
     if op \<in> {''movq'', ''addq'', ''subq'', ''andq'', ''xorq''} then
       (case draw 2 t4 of (c, t5) \<Rightarrow> (two_line op (if c = 0 then imm else CHR ''%'' # other) r, t5))
     else if op \<in> {''incq'', ''decq''} then (one_line op r, t4)
     else (two_line ''xchgq'' (CHR ''%'' # r) other, t4))"

fun gen_lines :: "nat \<Rightarrow> string list \<Rightarrow> tape \<Rightarrow> string list \<times> tape" where
  "gen_lines 0 live t = ([], t)"
| "gen_lines (Suc n) live t = (case gen_line live t of (line, t1) \<Rightarrow>
     case gen_lines n live t1 of (rest, t2) \<Rightarrow> (line # rest, t2))"

text \<open>\<open>re.search(rf"%{cold}\b", line.split(",")[-1] if "," in line else "")\<close>\<close>

definition writes_cold :: "string \<Rightarrow> string \<Rightarrow> bool" where
  "writes_cold cold line \<longleftrightarrow>
     re_search (Seq (Lit (CHR ''%'' # cold)) WordB)
       (if has_sub '','' line then last (split_on (CHR '','') line) else []) \<noteq> None"

text \<open>The register to read cold, and the inputs and random numbers after choosing it.\<close>

definition pick_cold :: "(string, nat) dict \<Rightarrow> tape \<Rightarrow> string \<times> (string, nat) dict \<times> tape" where
  "pick_cold inputs t = (case List.find (\<lambda>r. dget inputs r = None) REL_REGS of
     Some cold \<Rightarrow> (cold, inputs, t)
   | None \<Rightarrow> (case draw (length REL_REGS) t of (i, t1) \<Rightarrow> (REL_REGS ! i, ddel (REL_REGS ! i) inputs, t1)))"

definition force_cold :: "string \<Rightarrow> (string, nat) dict \<Rightarrow> string list \<Rightarrow> string list \<times> (string, nat) dict" where
  "force_cold cold inputs body =
     (let kept = filter (\<lambda>line. \<not> writes_cold cold line) body;
          (body1, inputs1) = (if dget inputs ''rax'' = None
             then (two_line ''movq'' ''$0'' ''rax'' # kept, dset ''rax'' 0 inputs) else (kept, inputs))
      in (body1 @ [two_line ''addq'' (CHR ''%'' # cold) ''rax''], inputs1))"

definition gen_plain :: "bool \<Rightarrow> tape \<Rightarrow> string list \<times> (string, nat) dict \<times> tape" where
  "gen_plain force_undef t = (case draw_inputs force_undef REL_REGS t [] of (inputs, t1) \<Rightarrow>
     let live = (if inputs \<noteq> [] then dkeys inputs else REL_REGS) in
     case draw 12 t1 of (k, t2) \<Rightarrow> case gen_lines (Suc k) live t2 of (body, t3) \<Rightarrow> (body, inputs, t3))"

definition generate_body :: "bool \<Rightarrow> tape \<Rightarrow> (string list \<times> (string, nat) dict) \<times> tape" where
  "generate_body force_undef t = (case gen_plain force_undef t of (body, inputs, t1) \<Rightarrow>
     if force_undef then
       (case pick_cold inputs t1 of (cold, inputs1, t2) \<Rightarrow>
        case force_cold cold inputs1 body of (body1, inputs2) \<Rightarrow>
          ((body1 @ [indent @ ''ret''], inputs2), t2))
     else ((body @ [indent @ ''ret''], inputs), t1))"

section \<open>Undefined reads\<close>

definition bare :: "string \<Rightarrow> string" where
  "bare operand = lstrip_chars ''%'' operand"

text \<open>
  One instruction over the registers defined so far: None when it reads an undefined one.
  A missing operand raises.
\<close>

definition undef_step :: "string \<Rightarrow> string list \<Rightarrow> string list \<Rightarrow> string list option result" where
  "undef_step op ops dfd =
     (if op \<in> {''incq'', ''decq''} then (case ops of
          [] \<Rightarrow> Inl IndexError
        | a # _ \<Rightarrow> Inr (if bare a \<notin> set dfd then None else Some (List.insert (bare a) dfd)))
      else if op = ''xchgq'' then (case ops of
          a # b # _ \<Rightarrow> Inr (if bare a \<notin> set dfd \<or> bare b \<notin> set dfd then None
             else Some (List.insert (bare a) (List.insert (bare b) dfd)))
        | _ \<Rightarrow> Inl IndexError)
      else if op = ''movq'' then (case ops of
          src # d # _ \<Rightarrow> Inr (if starts_with ''%'' src \<and> bare src \<notin> set dfd then None
             else Some (List.insert (bare d) dfd))
        | _ \<Rightarrow> Inl IndexError)
      else if op \<in> {''addq'', ''subq'', ''andq'', ''xorq''} then (case ops of
          src # d # _ \<Rightarrow> Inr (if bare d \<notin> set dfd \<or> starts_with ''%'' src \<and> bare src \<notin> set dfd then None
             else Some (List.insert (bare d) dfd))
        | _ \<Rightarrow> Inl IndexError)
      else Inr (Some dfd))"

definition rel_parse :: "string \<Rightarrow> (string \<times> string list) option" where
  "rel_parse text = (case split_ws1 text of
     [] \<Rightarrow> None
   | [op] \<Rightarrow> Some (op, [])
   | op # rest # _ \<Rightarrow> Some (op, map strip (split_on (CHR '','') rest)))"

fun undef_scan :: "string list \<Rightarrow> string list \<Rightarrow> bool result" where
  "undef_scan [] dfd = Inr False"
| "undef_scan (raw # rest) dfd = (let text = strip raw in
     if text = ''ret'' then Inr False
     else case rel_parse text of
         None \<Rightarrow> Inl IndexError
       | Some (op, ops) \<Rightarrow> rbind (undef_step op ops dfd) (\<lambda>d. case d of
             None \<Rightarrow> Inr True | Some dfd' \<Rightarrow> undef_scan rest dfd'))"

definition concrete_undefined_read :: "string list \<Rightarrow> (string, nat) dict \<Rightarrow> bool result" where
  "concrete_undefined_read body inputs = undef_scan body (dkeys inputs)"

section \<open>The comparison with the verifier\<close>

definition wrap :: "string list \<Rightarrow> (string, nat) dict \<Rightarrow> string" where
  "wrap body inputs = (let rs = filter (\<lambda>r. dget inputs r \<noteq> None) REL_REGS in
     join [CHR 0x0A] (
       [''module relation_property'', ''target x86_64'',
        ''export def relation_prop('' @ join '', '' (map (\<lambda>r. r @ ''_in: u64'') rs) @ '') -> void abi c:'']
       @ (if rs = [] then [] else ''    inputs:'' # map (\<lambda>r. indent @ r @ ''_in = '' @ r) rs)
       @ [''    clobbers:'']
       @ map (\<lambda>c. indent @ c) [''rax'', ''rcx'', ''rdx'', ''rsi'', ''rdi'', ''r8'', ''r9'', ''r10'', ''r11'', ''cc'', ''memory'']
       @ [''    stack:'', ''        synthetic'', ''    control:'', ''        returns'', ''    requires:'',
          ''        input.unused'', ''        x86_64.atomic.rmw'', ''    body:'']
       @ body) @ [CHR 0x0A])"

definition verify :: "(string \<Rightarrow> string) \<Rightarrow> string \<Rightarrow> bool result" where
  "verify driver source = (let text = driver source in
     if has_sub ''RESULT accept'' text then Inr True
     else if has_sub ''RESULT reject'' text then Inr False
     else Inl (RuntimeError (''unexpected verifier output'')))"

text \<open>
  The loop of \<open>main\<close> from case \<open>i\<close> on: the exit code once a case disagrees, or the numbers of
  accepted and of rejected cases.
\<close>

fun rel_cases :: "(string \<Rightarrow> string) \<Rightarrow> nat \<Rightarrow> nat \<Rightarrow> tape \<Rightarrow> nat \<Rightarrow> nat \<Rightarrow> (int + nat \<times> nat) result" where
  "rel_cases driver 0 i t acc rej = Inr (Inr (acc, rej))"
| "rel_cases driver (Suc n) i t acc rej =
     (case generate_body (even i) t of ((body, inputs), t1) \<Rightarrow>
      rbind (concrete_undefined_read body inputs) (\<lambda>undef.
      rbind (verify driver (wrap body inputs)) (\<lambda>accepted.
        if undef then (if accepted then Inr (Inl 1) else rel_cases driver n (Suc i) t1 acc (Suc rej))
        else (if \<not> accepted then Inr (Inl 1) else rel_cases driver n (Suc i) t1 (Suc acc) rej))))"

definition relation_main :: "(string \<Rightarrow> string) \<Rightarrow> nat \<Rightarrow> tape \<Rightarrow> int result" where
  "relation_main driver n t = rbind (rel_cases driver n 0 t 0 0) (\<lambda>r. case r of
     Inl rc \<Rightarrow> Inr rc
   | Inr (acc, rej) \<Rightarrow> Inr (if acc = 0 \<or> rej = 0 then 1 else 0))"

section \<open>Generated lines\<close>

text \<open>Operands of generated lines: words without a comma.\<close>

definition atom :: "string \<Rightarrow> bool" where
  "atom s \<longleftrightarrow> word_text s \<and> CHR '','' \<notin> set s"

lemma atom_ends: "atom s \<Longrightarrow> s \<noteq> [] \<and> \<not> is_space (hd s) \<and> \<not> is_space (last s) \<and> CHR '','' \<notin> set s"
  by (simp add: atom_def word_text_ends)

lemma atom_percent: "atom r \<Longrightarrow> atom (CHR ''%'' # r)"
  by (simp add: atom_def word_text_def is_space_def)

lemma indent_space: "list_all is_space indent" "is_space (CHR '' '')"
  by (simp_all add: indent_def is_space_def)

lemma two_line_parse:
  assumes op: "atom op" and src: "atom src" and r: "atom r"
  shows "rel_parse (strip (two_line op src r)) = Some (op, [src, CHR ''%'' # r])"
    and "strip (two_line op src r) \<noteq> ''ret''"
    and "has_sub '','' (two_line op src r)" and "last (split_on (CHR '','') (two_line op src r)) = '' %'' @ r"
proof -
  let ?rest = "src @ '', %'' @ r"
  note e = atom_ends [OF op] atom_ends [OF src] atom_ends [OF r]
  have st: "strip (two_line op src r) = op @ '' '' @ ?rest"
    unfolding two_line_def using e indent_space(1) by (intro strip_indented) auto
  have w: "split_ws1 (op @ '' '' @ ?rest) = [op, ?rest]"
    using op e by (intro split_ws1_two) (auto simp: atom_def)
  have "split_on (CHR '','') ?rest = [src, '' %'' @ r]"
    using e split_on_append [of "CHR '',''" src "'' %'' @ r"] split_on_id [of "CHR '',''" "'' %'' @ r"] by simp
  moreover have "strip src = src" "strip ('' %'' @ r) = CHR ''%'' # r"
    using e strip_id [of src] strip_indented [of "'' ''" "CHR ''%'' # r"] atom_ends [OF atom_percent [OF r]]
      indent_space(2) by auto
  ultimately show "rel_parse (strip (two_line op src r)) = Some (op, [src, CHR ''%'' # r])"
    by (simp only: st rel_parse_def w list.case list.map)
  have "CHR '','' \<in> set (op @ '' '' @ ?rest)" "CHR '','' \<notin> set ''ret''" by simp_all
  then show "strip (two_line op src r) \<noteq> ''ret''" unfolding st by metis
  have hs: "CHR '','' \<in> set x \<Longrightarrow> has_sub '','' x" for x by (induction x) auto
  then show "has_sub '','' (two_line op src r)" by (simp add: two_line_def)
  have "CHR '','' \<notin> set (indent @ op @ '' '' @ src)" using e by (simp add: indent_def)
  from split_on_append [OF this, of "'' %'' @ r"] show "last (split_on (CHR '','') (two_line op src r)) = '' %'' @ r"
    using e split_on_id [of "CHR '',''" "'' %'' @ r"] by (simp add: two_line_def)
qed

lemma one_line_parse:
  assumes op: "atom op" and r: "atom r"
  shows "rel_parse (strip (one_line op r)) = Some (op, [CHR ''%'' # r])"
    and "strip (one_line op r) \<noteq> ''ret''" and "\<not> has_sub '','' (one_line op r)"
proof -
  note e = atom_ends [OF op] atom_ends [OF r]
  have st: "strip (one_line op r) = op @ '' '' @ CHR ''%'' # r"
    unfolding one_line_def using e strip_indented [OF indent_space(1), of "op @ '' '' @ CHR ''%'' # r"] by auto
  have w: "split_ws1 (op @ '' '' @ CHR ''%'' # r) = [op, CHR ''%'' # r]"
    using op atom_ends [OF atom_percent [OF r]] by (intro split_ws1_two) (auto simp: atom_def)
  show "rel_parse (strip (one_line op r)) = Some (op, [CHR ''%'' # r])"
    using e strip_id [of "CHR ''%'' # r"] atom_ends [OF atom_percent [OF r]]
    by (simp only: st rel_parse_def w list.case list.map) (simp add: split_on_id)
  have "CHR '' '' \<in> set (op @ '' '' @ CHR ''%'' # r)" "CHR '' '' \<notin> set ''ret''" by simp_all
  then show "strip (one_line op r) \<noteq> ''ret''" unfolding st by metis
  have hs: "has_sub '','' x \<Longrightarrow> CHR '','' \<in> set x" for x by (induction x) (auto split: if_splits)
  then show "\<not> has_sub '','' (one_line op r)" using e hs [of "one_line op r"] by (auto simp: one_line_def indent_def)
qed

text \<open>The lines the generator writes for a list of registers.\<close>

inductive gen_form :: "string list \<Rightarrow> string \<Rightarrow> bool" for live where
  move: "op \<in> {''movq'', ''addq'', ''subq'', ''andq'', ''xorq''} \<Longrightarrow> r \<in> set live \<Longrightarrow>
     (\<exists>n \<in> set REL_IMMS. src = imm_text n) \<or> (\<exists>o1 \<in> set live. src = CHR ''%'' # o1) \<Longrightarrow>
     gen_form live (two_line op src r)"
| unary: "op \<in> {''incq'', ''decq''} \<Longrightarrow> r \<in> set live \<Longrightarrow> gen_form live (one_line op r)"
| swap: "r \<in> set live \<Longrightarrow> other \<in> set live \<Longrightarrow> gen_form live (two_line ''xchgq'' (CHR ''%'' # r) other)"

lemma draw_less: "0 < n \<Longrightarrow> fst (draw n t) < n"
  by (auto simp: draw_def split: list.splits)

lemma gen_line_form:
  assumes "live \<noteq> []" and "gen_line live t = (line, t')"
  shows "gen_form live line"
proof -
  obtain i t1 where i: "draw (length REL_OPS) t = (i, t1)" by (metis surj_pair)
  obtain j t2 where j: "draw (length live) t1 = (j, t2)" by (metis surj_pair)
  obtain k t3 where k: "draw (length live) t2 = (k, t3)" by (metis surj_pair)
  obtain l t4 where l: "draw (length REL_IMMS) t3 = (l, t4)" by (metis surj_pair)
  obtain c t5 where c: "draw 2 t4 = (c, t5)" by (metis surj_pair)
  have "i < length REL_OPS" "j < length live" "k < length live" "l < length REL_IMMS"
    using draw_less [of "length REL_OPS" t] draw_less [of "length live" t1] draw_less [of "length live" t2]
      draw_less [of "length REL_IMMS" t3] i j k l assms(1) by (auto simp: REL_OPS_def REL_IMMS_def)
  then have m: "REL_OPS ! i \<in> set REL_OPS" "live ! j \<in> set live" "live ! k \<in> set live" "REL_IMMS ! l \<in> set REL_IMMS"
    by (auto intro: nth_mem)
  show ?thesis
    using assms(2) m unfolding gen_line_def i j k l c prod.case Let_def
    by (auto split: if_splits intro!: gen_form.intros simp: REL_OPS_def)
qed

lemma gen_lines_form:
  "live \<noteq> [] \<Longrightarrow> gen_lines n live t = (body, t') \<Longrightarrow> list_all (gen_form live) body"
  by (induction n live t arbitrary: body t' rule: gen_lines.induct)
     (auto split: prod.splits dest: gen_line_form)

lemma REL_REGS_atoms: "list_all atom REL_REGS" "list_all (\<lambda>n. atom (imm_text n)) REL_IMMS" "list_all atom REL_OPS"
  by code_simp+

lemma cold_search:
  "list_all (\<lambda>r. list_all (\<lambda>cold. (re_search (Seq (Lit (CHR ''%'' # cold)) WordB) ('' %'' @ r) \<noteq> None) = (cold = r)) REL_REGS)
     REL_REGS"
  by code_simp

lemma bare_reg: "r \<in> set REL_REGS \<Longrightarrow> bare (CHR ''%'' # r) = r"
  by (auto simp: REL_REGS_def bare_def lstrip_chars_def)

lemma imm_not_reg: "starts_with ''%'' (imm_text n) \<longleftrightarrow> False"
  by (simp add: imm_text_def)

lemma two_line_cold:
  assumes "atom op" "atom src" "r \<in> set REL_REGS" "cold \<in> set REL_REGS"
  shows "writes_cold cold (two_line op src r) \<longleftrightarrow> r = cold"
proof -
  have "atom r" using assms(3) REL_REGS_atoms(1) by (simp add: list_all_iff)
  with two_line_parse(3,4) [OF assms(1,2) this] cold_search assms(3,4) show ?thesis
    by (auto simp: writes_cold_def list_all_iff)
qed

text \<open>
  A generated line reads some registers and then writes some; a register it would write and
  that the filter does not catch is one it reads.
\<close>

lemma gen_form_step:
  assumes "gen_form live line" and live: "set live \<subseteq> set REL_REGS"
  shows "\<exists>op ops reads ws. rel_parse (strip line) = Some (op, ops) \<and> strip line \<noteq> ''ret'' \<and>
    (\<forall>dfd. undef_step op ops dfd = Inr (if set reads \<subseteq> set dfd then Some (fold List.insert ws dfd) else None)) \<and>
    set reads \<subseteq> set live \<and>
    (\<forall>cold \<in> set REL_REGS. \<not> writes_cold cold line \<longrightarrow> cold \<in> set ws \<longrightarrow> cold \<in> set reads)"
  using assms(1)
proof cases
  case (move op r src)
  have at: "atom r" "atom op" using move(2,3) live REL_REGS_atoms by (auto simp: list_all_iff REL_OPS_def)
  have asrc: "atom src" using move(4) live REL_REGS_atoms atom_percent by (fastforce simp: list_all_iff)
  let ?s = "if starts_with ''%'' src then [bare src] else []"
  let ?reads = "(if op = ''movq'' then [] else [r]) @ ?s"
  have r: "r \<in> set REL_REGS" "bare (CHR ''%'' # r) = r" using move(3) live bare_reg by auto
  have "set ?s \<subseteq> set live" using move(4) live bare_reg imm_not_reg by auto
  then have A: "set ?reads \<subseteq> set live" using move(3) by simp
  have B: "\<forall>dfd. undef_step op [src, CHR ''%'' # r] dfd =
      Inr (if set ?reads \<subseteq> set dfd then Some (fold List.insert [r] dfd) else None)"
    using move(2) r(2) by (cases "starts_with ''%'' src"; elim insertE) (simp_all add: undef_step_def)
  have C: "\<forall>cold \<in> set REL_REGS. \<not> writes_cold cold line \<longrightarrow> cold \<in> set [r] \<longrightarrow> cold \<in> set ?reads"
    using two_line_cold [OF at(2) asrc r(1)] by (simp add: move(1))
  from two_line_parse(1,2) [OF at(2) asrc at(1)] A B C show ?thesis unfolding move(1)
    by (intro exI [of _ op] exI [of _ "[src, CHR ''%'' # r]"] exI [of _ ?reads] exI [of _ "[r]"] conjI)
next
  case (unary op r)
  have at: "atom r" "atom op" using unary(2,3) live REL_REGS_atoms by (auto simp: list_all_iff REL_OPS_def)
  have "bare (CHR ''%'' # r) = r" using unary(3) live bare_reg by auto
  then have "undef_step op [CHR ''%'' # r] dfd = Inr (if set [r] \<subseteq> set dfd then Some (fold List.insert [r] dfd) else None)" for dfd
    using unary(2) by (simp add: undef_step_def)
  then show ?thesis using one_line_parse(1,2) [OF at(2,1)] unary(1,3)
    by (intro exI [of _ op] exI [of _ "[CHR ''%'' # r]"] exI [of _ "[r]"]) auto
next
  case (swap r other)
  have at: "atom (CHR ''%'' # r)" "atom other" "atom ''xchgq''"
    using swap(2,3) live REL_REGS_atoms atom_percent by (auto simp: list_all_iff REL_OPS_def)
  have o: "other \<in> set REL_REGS" "bare (CHR ''%'' # r) = r" "bare (CHR ''%'' # other) = other"
    using swap(2,3) live bare_reg by auto
  have "undef_step ''xchgq'' [CHR ''%'' # r, CHR ''%'' # other] dfd =
      Inr (if set [r, other] \<subseteq> set dfd then Some (fold List.insert [other, r] dfd) else None)" for dfd
    using o by (simp add: undef_step_def)
  then show ?thesis using two_line_parse(1,2) [OF at(3,1,2)] swap
    by (intro exI [of _ "''xchgq''"] exI [of _ "[CHR ''%'' # r, CHR ''%'' # other]"] exI [of _ "[r, other]"]
        exI [of _ "[other, r]"]) auto
qed

lemma fold_insert_set: "set (fold List.insert ws dfd) = set ws \<union> set dfd"
  by (induction ws arbitrary: dfd) auto

lemma undef_scan_defined:
  assumes "list_all (gen_form live) body" "set live \<subseteq> set REL_REGS" "set live \<subseteq> set dfd"
  shows "undef_scan (body @ [indent @ ''ret'']) dfd = Inr False"
  using assms
proof (induction body arbitrary: dfd)
  case Nil
  have "strip (indent @ ''ret'') = ''ret''" by code_simp
  then show ?case by simp
next
  case (Cons line body)
  then obtain op ops reads ws where p: "rel_parse (strip line) = Some (op, ops)" "strip line \<noteq> ''ret''"
    "undef_step op ops dfd = Inr (if set reads \<subseteq> set dfd then Some (fold List.insert ws dfd) else None)"
    "set reads \<subseteq> set live" using gen_form_step [of live line] by auto
  moreover from p(4) Cons.prems(3) have "undef_step op ops dfd = Inr (Some (fold List.insert ws dfd))"
    using p(3) by auto
  moreover have "undef_scan (body @ [indent @ ''ret'']) (fold List.insert ws dfd) = Inr False"
    using Cons.prems by (intro Cons.IH) (auto simp: fold_insert_set)
  ultimately show ?case by simp
qed

lemma undef_scan_cold:
  assumes "list_all (gen_form live) body" "set live \<subseteq> set REL_REGS" "cold \<in> set REL_REGS"
    "list_all (\<lambda>line. \<not> writes_cold cold line) body" "cold \<notin> set dfd"
  shows "undef_scan (body @ two_line ''addq'' (CHR ''%'' # cold) ''rax'' # rest) dfd = Inr True"
  using assms
proof (induction body arbitrary: dfd)
  case Nil
  have at: "atom ''addq''" "atom (CHR ''%'' # cold)" "atom ''rax''"
    using Nil(3) REL_REGS_atoms atom_percent by (auto simp: list_all_iff REL_OPS_def REL_REGS_def)
  have "undef_step ''addq'' [CHR ''%'' # cold, ''%rax''] dfd = Inr None"
    using Nil bare_reg [of cold] by (simp add: undef_step_def)
  with two_line_parse(1,2) [OF at] show ?case by simp
next
  case (Cons line body)
  then obtain op ops reads ws where p: "rel_parse (strip line) = Some (op, ops)" "strip line \<noteq> ''ret''"
    "undef_step op ops dfd = Inr (if set reads \<subseteq> set dfd then Some (fold List.insert ws dfd) else None)"
    "cold \<in> set ws \<longrightarrow> cold \<in> set reads" using gen_form_step [of live line] by auto
  show ?case
  proof (cases "set reads \<subseteq> set dfd")
    case True
    with p(4) Cons.prems(5) have "cold \<notin> set (fold List.insert ws dfd)" by (auto simp: fold_insert_set)
    with Cons have "undef_scan (body @ two_line ''addq'' (CHR ''%'' # cold) ''rax'' # rest) (fold List.insert ws dfd) = Inr True"
      by simp
    with True p show ?thesis by simp
  qed (use p in simp)
qed

section \<open>The two kinds of case\<close>

lemma draw_inputs_keys:
  "draw_inputs f rs t ins = (inputs, t') \<Longrightarrow>
     set (dkeys inputs) \<subseteq> set (dkeys ins) \<union> set rs \<and> (\<not> f \<longrightarrow> set rs \<subseteq> set (dkeys inputs)) \<and>
     set (dkeys ins) \<subseteq> set (dkeys inputs)"
proof (induction rs arbitrary: t ins)
  case (Cons r rs)
  have k: "set (dkeys (dset r v ins)) = insert r (set (dkeys ins))" for v by (auto simp: dkeys_dset)
  obtain u t1 where u: "draw 3 t = (u, t1)" by (metis surj_pair)
  consider v t2 where "draw_inputs f rs t2 (dset r v ins) = (inputs, t')" | "f" "draw_inputs f rs t1 ins = (inputs, t')"
    using Cons.prems u by (auto split: if_splits prod.splits)
  then show ?case
  proof cases
    case 1
    from Cons.IH [OF this] show ?thesis unfolding k by auto
  next
    case 2
    from Cons.IH [OF 2(2)] 2(1) show ?thesis by auto
  qed
qed simp

lemma gen_plain_form:
  assumes "gen_plain f t = (body, inputs, t')"
  shows "\<exists>live. list_all (gen_form live) body \<and> set live \<subseteq> set REL_REGS \<and>
    (\<not> f \<longrightarrow> set live \<subseteq> set (dkeys inputs))"
proof -
  obtain t1 where i: "draw_inputs f REL_REGS t [] = (inputs, t1)"
    using assms by (auto simp: gen_plain_def Let_def split: prod.splits)
  let ?live = "if inputs \<noteq> [] then dkeys inputs else REL_REGS"
  have k: "set (dkeys inputs) \<subseteq> set REL_REGS" "\<not> f \<longrightarrow> set REL_REGS \<subseteq> set (dkeys inputs)"
    using draw_inputs_keys [OF i] by (auto simp: dkeys_def)
  have "?live \<noteq> []" by (simp add: dkeys_def REL_REGS_def)
  then have "list_all (gen_form ?live) body"
    using assms gen_lines_form by (auto simp: gen_plain_def Let_def i simp del: gen_lines.simps split: prod.splits)
  moreover have "set ?live \<subseteq> set REL_REGS" using k by auto
  moreover have "\<not> f \<longrightarrow> set ?live \<subseteq> set (dkeys inputs)" using k by auto
  ultimately show ?thesis by blast
qed

text \<open>The register the generator means to read undefined.\<close>

definition forced_register :: "tape \<Rightarrow> string" where
  "forced_register t = (case gen_plain True t of (body, inputs, t1) \<Rightarrow> fst (pick_cold inputs t1))"

lemma find_first: "List.find P xs = Some x \<Longrightarrow> \<not> P y \<or> y \<notin> set xs \<or> P x"
  using find_Some_in by metis

lemma pick_cold_props:
  assumes "pick_cold inputs t = (cold, inputs', t')"
  shows "cold \<in> set REL_REGS" and "cold \<notin> set (dkeys inputs')"
    and "cold \<noteq> ''rax'' \<Longrightarrow> dget inputs' ''rax'' \<noteq> None"
proof -
  show "cold \<in> set REL_REGS"
  proof (cases "List.find (\<lambda>r. dget inputs r = None) REL_REGS")
    case None
    obtain i t1 where i: "draw (length REL_REGS) t = (i, t1)" by (metis surj_pair)
    then have "i < length REL_REGS" using draw_less [of "length REL_REGS" t] by (simp add: REL_REGS_def)
    with assms None i show ?thesis by (auto simp: pick_cold_def)
  next
    case (Some c)
    with assms find_Some_in [OF Some] show ?thesis by (simp add: pick_cold_def)
  qed
  show "cold \<notin> set (dkeys inputs')"
    using assms by (auto simp: pick_cold_def simp flip: dget_None_conv
        split: option.splits prod.splits dest!: find_Some_in)
  assume "cold \<noteq> ''rax''"
  then show "dget inputs' ''rax'' \<noteq> None"
    using assms by (cases "dget inputs ''rax''")
      (auto simp: pick_cold_def REL_REGS_def split: option.splits prod.splits if_splits)
qed

definition ex_tape :: tape where
  "ex_tape = [1, 5, 1, 5, 0, 1, 5, 1, 5, 1, 5, 1, 5, 1, 5, 1, 5, 1, 0, 0, 2, 3, 0, 5, 1, 1, 1]"

lemma ex_forced: "forced_register ex_tape = ''rdx''"
  by code_simp

text \<open>
  C6. A body generated without a forced undefined read has none: whatever the random draws,
  every register it touches is an input, and the concrete check answers no.
\<close>

theorem sound_body_defined:
  "\<exists>body inputs t'. generate_body False t = ((body, inputs), t') \<and> concrete_undefined_read body inputs = Inr False"
proof -
  obtain body inputs t1 where g: "gen_plain False t = (body, inputs, t1)" by (metis surj_pair)
  from gen_plain_form [OF g] obtain live where "list_all (gen_form live) body" "set live \<subseteq> set REL_REGS"
    "set live \<subseteq> set (dkeys inputs)" by auto
  from undef_scan_defined [OF this] show ?thesis
    by (simp add: generate_body_def g concrete_undefined_read_def)
qed

text \<open>
  A body generated with a forced undefined read has one, whenever the register chosen
  for it is not \<open>rax\<close>: whatever the other draws, the concrete check answers yes.
\<close>

theorem forced_body_undefined:
  assumes "forced_register t \<noteq> ''rax''"
  shows "\<exists>body inputs t'. generate_body True t = ((body, inputs), t') \<and> concrete_undefined_read body inputs = Inr True"
proof -
  obtain body inputs t1 where g: "gen_plain True t = (body, inputs, t1)" by (metis surj_pair)
  obtain cold inputs1 t2 where c: "pick_cold inputs t1 = (cold, inputs1, t2)" by (metis surj_pair)
  have "cold \<noteq> ''rax''" using assms by (simp add: forced_register_def g c)
  note p = pick_cold_props(1,2) [OF c] pick_cold_props(3) [OF c this]
  from gen_plain_form [OF g] obtain live where l: "list_all (gen_form live) body" "set live \<subseteq> set REL_REGS" by auto
  let ?kept = "filter (\<lambda>line. \<not> writes_cold cold line) body"
  have "list_all (gen_form live) ?kept" "list_all (\<lambda>line. \<not> writes_cold cold line) ?kept"
    using l(1) by (auto simp: list_all_iff)
  from undef_scan_cold [OF this(1) l(2) p(1) this(2) p(2)] p(3) show ?thesis
    by (auto simp: generate_body_def g c force_cold_def concrete_undefined_read_def Let_def)
qed

theorem forced_body_undefined_witness:
  "\<exists>body inputs t'. generate_body True ex_tape = ((body, inputs), t') \<and> concrete_undefined_read body inputs = Inr True"
  using forced_body_undefined [of ex_tape] by (simp add: ex_forced)

text \<open>
  When \<open>rax\<close> is the register chosen, the generator first defines it, and the body that was to
  read an undefined register may read none.
\<close>

lemma forced_rax_is_defined:
  "(case generate_body True (0 # replicate 40 1) of ((body, inputs), _) \<Rightarrow> concrete_undefined_read body inputs) = Inr False"
  by code_simp

end
