(* ===== verification/ParScan.thy ===== *)
theory ParScan
  imports PyRegex
begin

text \<open>
  The source scanners of \<open>scripts/semantic_parallel_gen.py\<close>: comments, quoted text, balanced
  delimiters, argument lists, match arms and the statements of the pass pipeline.
\<close>

section \<open>Quotes\<close>

text \<open>
  The scanners share one discipline: inside a quotation a backslash hides the next character,
  and the quotation ends at its quote character. The state is the open quote and whether the
  next character is hidden.
\<close>

type_synonym qstate = "char option \<times> bool"

definition is_quote :: "char \<Rightarrow> bool" where
  "is_quote c \<longleftrightarrow> c = CHR 0x22 \<or> c = CHR 0x27"

abbreviation no_quote :: qstate where
  "no_quote \<equiv> (None, False)"

definition qnext :: "qstate \<Rightarrow> char \<Rightarrow> qstate" where
  "qnext q c = (case q of
     (Some k, escaped) \<Rightarrow>
       if escaped then (Some k, False)
       else if c = CHR 0x5C then (Some k, True)
       else if c = k then (None, False) else (Some k, False)
   | (None, escaped) \<Rightarrow> if is_quote c then (Some c, escaped) else (None, escaped))"

text \<open>A character the scanner looks at: outside a quotation and not a quote itself.\<close>

definition is_code :: "qstate \<Rightarrow> char \<Rightarrow> bool" where
  "is_code q c \<longleftrightarrow> fst q = None \<and> \<not> is_quote c"

section \<open>Comments\<close>

fun cut_comment :: "qstate \<Rightarrow> string \<Rightarrow> string" where
  "cut_comment q [] = []"
| "cut_comment q (c # cs) =
     (if is_code q c \<and> c = CHR ''#'' then [] else c # cut_comment (qnext q c) cs)"

definition strip_comments :: "string \<Rightarrow> string" where
  "strip_comments text = join [CHR 0x0A] (map (cut_comment no_quote) (splitlines text))"

section \<open>Argument lists\<close>

text \<open>
  The loop of \<open>split_top_level_arguments\<close>: the three depths, and the current piece reversed.
  A closing delimiter may bring a depth below zero.
\<close>

fun split_args :: "qstate \<Rightarrow> int \<Rightarrow> int \<Rightarrow> int \<Rightarrow> string \<Rightarrow> string \<Rightarrow> string list" where
  "split_args q p k b acc [] = [strip (rev acc)]"
| "split_args q p k b acc (c # cs) =
     (if \<not> is_code q c then split_args (qnext q c) p k b (c # acc) cs
      else if c = CHR ''('' then split_args q (p + 1) k b (c # acc) cs
      else if c = CHR '')'' then split_args q (p - 1) k b (c # acc) cs
      else if c = CHR ''['' then split_args q p (k + 1) b (c # acc) cs
      else if c = CHR '']'' then split_args q p (k - 1) b (c # acc) cs
      else if c = CHR ''{'' then split_args q p k (b + 1) (c # acc) cs
      else if c = CHR ''}'' then split_args q p k (b - 1) (c # acc) cs
      else if c = CHR '','' \<and> p = 0 \<and> k = 0 \<and> b = 0 then strip (rev acc) # split_args q p k b [] cs
      else split_args q p k b (c # acc) cs)"

definition split_top_level_arguments :: "string \<Rightarrow> string list" where
  "split_top_level_arguments text = (if strip text = [] then [] else split_args no_quote 0 0 0 [] text)"

section \<open>Delimiters\<close>

definition opens :: "char \<Rightarrow> bool" where
  "opens c \<longleftrightarrow> c = CHR ''('' \<or> c = CHR ''['' \<or> c = CHR ''{''"

definition opener :: "char \<Rightarrow> char option" where
  "opener c = (if c = CHR '')'' then Some (CHR ''('') else if c = CHR '']'' then Some (CHR ''['')
     else if c = CHR ''}'' then Some (CHR ''{'') else None)"

fun match_delim :: "qstate \<Rightarrow> char list \<Rightarrow> nat \<Rightarrow> string \<Rightarrow> nat option" where
  "match_delim q stack i [] = None"
| "match_delim q stack i (c # cs) =
     (if \<not> is_code q c then match_delim (qnext q c) stack (Suc i) cs
      else if opens c then match_delim q (c # stack) (Suc i) cs
      else case opener c of
          None \<Rightarrow> match_delim q stack (Suc i) cs
        | Some o1 \<Rightarrow> (case stack of
              [] \<Rightarrow> None
            | o2 # rest \<Rightarrow> if o2 \<noteq> o1 then None else if rest = [] then Some i
                else match_delim q rest (Suc i) cs))"

definition matching_delimiter :: "string \<Rightarrow> nat \<Rightarrow> nat option" where
  "matching_delimiter text i = match_delim no_quote [] i (drop i text)"

text \<open>The close of a parenthesis by depth alone, from the parenthesis on.\<close>

fun close_paren :: "qstate \<Rightarrow> int \<Rightarrow> nat \<Rightarrow> string \<Rightarrow> nat option" where
  "close_paren q depth i [] = None"
| "close_paren q depth i (c # cs) =
     (if \<not> is_code q c then close_paren (qnext q c) depth (Suc i) cs
      else if c = CHR ''('' then close_paren q (depth + 1) (Suc i) cs
      else if c = CHR '')'' then (if depth - 1 = 0 then Some i else close_paren q (depth - 1) (Suc i) cs)
      else close_paren q depth (Suc i) cs)"

section \<open>Table call statements\<close>

text \<open>\<open>^([ \t]*)table <- (\w+)\(\<close>\<close>

definition is_blank :: "char \<Rightarrow> bool" where
  "is_blank c \<longleftrightarrow> c = CHR '' '' \<or> c = CHR 0x09"

definition TABLE_CALL_PREFIX_RE :: rx where
  "TABLE_CALL_PREFIX_RE = Seqs [Bol, Grp 1 (Many (Cls is_blank)), Lit ''table <- '', Grp 2 (Plus (Cls is_word)), Chr (CHR ''('')]"

datatype marker = MIf | MCan

definition marker_len :: "marker \<Rightarrow> nat" where
  "marker_len m = (case m of MIf \<Rightarrow> 3 | MCan \<Rightarrow> 4)"

definition marker_at :: "string \<Rightarrow> string \<Rightarrow> marker option" where
  "marker_at prev rest =
     (if (case prev of [] \<Rightarrow> True | c # _ \<Rightarrow> is_space c) then
        (if starts_with ''if '' rest then Some MIf else if starts_with ''can '' rest then Some MCan else None)
      else None)"

text \<open>The loop over the suffix: the text before (reversed) and after the index, and the depths.\<close>

fun find_markers :: "qstate \<Rightarrow> int \<Rightarrow> int \<Rightarrow> int \<Rightarrow> nat \<Rightarrow> string \<Rightarrow> string \<Rightarrow> (nat \<times> marker) list" where
  "find_markers q p k b i prev [] = []"
| "find_markers q p k b i prev (c # cs) =
     (if \<not> is_code q c then find_markers (qnext q c) p k b (Suc i) (c # prev) cs
      else (if p = 0 \<and> k = 0 \<and> b = 0
            then (case marker_at prev (c # cs) of None \<Rightarrow> [] | Some m \<Rightarrow> [(i, m)]) else [])
        @ find_markers q
            (if c = CHR ''('' then p + 1 else if c = CHR '')'' then p - 1 else p)
            (if c = CHR ''['' then k + 1 else if c = CHR '']'' then k - 1 else k)
            (if c = CHR ''{'' then b + 1 else if c = CHR ''}'' then b - 1 else b)
            (Suc i) (c # prev) cs)"

definition marker_value :: "string \<Rightarrow> (nat \<times> marker) list \<Rightarrow> nat \<times> marker \<Rightarrow> string" where
  "marker_value suffix markers = (\<lambda>(i, m).
     let next_index = (case List.find (\<lambda>(j, _). i < j) markers of Some (j, _) \<Rightarrow> j | None \<Rightarrow> length suffix)
     in strip (drop (i + marker_len m) (take next_index suffix)))"

record table_call =
  tc_indent :: string
  tc_name :: string
  tc_args :: string
  tc_cond :: "string option"
  tc_suffix :: string

definition suffix_condition :: "string \<Rightarrow> string option option" where
  "suffix_condition suffix = (let markers = find_markers no_quote 0 0 0 0 [] suffix in
     if suffix \<noteq> [] \<and> (markers = [] \<or> fst (hd markers) \<noteq> 0 \<or> \<not> distinct (map snd markers)) then None
     else if list_ex (\<lambda>m. marker_value suffix markers m = []) markers then None
     else Some (map_option (marker_value suffix markers) (List.find (\<lambda>(_, m). m = MIf) markers)))"

definition parse_table_call_statement :: "string \<Rightarrow> table_call option" where
  "parse_table_call_statement line = (let code = strip_comments line in
     case re_match TABLE_CALL_PREFIX_RE code of
       None \<Rightarrow> None
     | Some m \<Rightarrow> (let open_paren = length (behind m) - 1 in
         case close_paren no_quote 0 open_paren (drop open_paren code) of
           None \<Rightarrow> None
         | Some close \<Rightarrow> (let suffix = strip (drop (Suc close) code) in
             case suffix_condition suffix of
               None \<Rightarrow> None
             | Some condition \<Rightarrow> Some \<lparr>tc_indent = group_or m 1 [], tc_name = group_or m 2 [],
                 tc_args = drop (Suc open_paren) (take close code), tc_cond = condition, tc_suffix = suffix\<rparr>)))"

text \<open>\<open>[A-Za-z_]\w*(?:\.\w+)*\<close>\<close>

definition DOTTED_RE :: rx where
  "DOTTED_RE = Seqs [Cls is_ident_start, Many (Cls is_word), Many (Seq (Chr (CHR ''.'')) (Plus (Cls is_word)))]"

text \<open>The text a match covers.\<close>

definition matched :: "rx \<Rightarrow> string \<Rightarrow> string list" where
  "matched r s = map (\<lambda>m. group_or m 0 []) (re_finditer (Grp 0 r) s)"

definition eligible_args :: "string \<Rightarrow> string option \<Rightarrow> string list \<Rightarrow> bool" where
  "eligible_args args cond flags = (let
       allowed = [''file'', ''loop_view'', ''table'', ''not'', ''and'', ''or''] @ flags;
       text = args @ '' '' @ (case cond of None \<Rightarrow> [] | Some c \<Rightarrow> c) in
     if has_sub ''('' text \<or> has_sub ''['' text \<or> has_sub [CHR 0x22] text then False
     else list_all (\<lambda>tok. hd (split_on (CHR ''.'') tok) \<in> set allowed) (matched DOTTED_RE text))"

section \<open>Match arms\<close>

text \<open>\<open>(?:Ast::)?(?:Expr|Stmt|Decl|Pattern|Node)\.[A-Z]\w*\<close>\<close>

definition VARIANT_RE :: rx where
  "VARIANT_RE = Seqs [Opt (Lit ''Ast::''), Grp 1 (Alts [Lit ''Expr'', Lit ''Stmt'', Lit ''Decl'', Lit ''Pattern'', Lit ''Node'']),
     Chr (CHR ''.''), Grp 2 (Seq (Cls is_upper_az) (Many (Cls is_word)))]"

text \<open>The text after a balanced parenthesis group; after the whole text if it is not closed.\<close>

fun skip_group :: "int \<Rightarrow> string \<Rightarrow> string" where
  "skip_group depth [] = []"
| "skip_group depth (c # cs) = (let d = depth + (if c = CHR ''('' then 1 else if c = CHR '')'' then - 1 else 0) in
     if d = 0 then cs else skip_group d cs)"

fun guard_tail :: "qstate \<Rightarrow> int \<Rightarrow> string \<Rightarrow> string option" where
  "guard_tail q depth [] = None"
| "guard_tail q depth (c # cs) =
     (if \<not> is_code q c then guard_tail (qnext q c) depth cs
      else if opens c then guard_tail q (depth + 1) cs
      else if opener c \<noteq> None then guard_tail q (depth - 1) cs
      else if c = CHR '':'' \<and> depth = 0 then Some cs
      else guard_tail q depth cs)"

lemma length_skip_group: "length (skip_group d s) \<le> length s"
  by (induction d s rule: skip_group.induct) (auto simp: Let_def)

lemma run_consumes_length: "t \<in> set (run r st) \<Longrightarrow> length (ahead t) \<le> length (ahead st)"
  using run_consumes by (auto simp: consumes_def)

lemma variant_nonempty:
  assumes "re_match VARIANT_RE s = Some m"
  shows "length (ahead m) < length s"
proof -
  have "m \<in> set (run VARIANT_RE (start s))" using assms by (auto simp: re_match_def dest: first_match_Some)
  then obtain u v where u: "u \<in> set (run (Seq (Opt (Lit ''Ast::''))
      (Grp 1 (Alts [Lit ''Expr'', Lit ''Stmt'', Lit ''Decl'', Lit ''Pattern'', Lit ''Node'']))) (start s))"
    and v: "v \<in> set (run (Chr (CHR ''.'')) u)"
    and m: "m \<in> set (run (Grp 2 (Seq (Cls is_upper_az) (Many (Cls is_word)))) v)"
    unfolding VARIANT_RE_def by (auto simp del: run.simps(4,5,6) Lit.simps)
  have "length (ahead v) < length (ahead u)"
    using v by (cases "ahead u") (auto simp: Chr_def split: if_splits)
  moreover have "length (ahead m) \<le> length (ahead v)" using m by (rule run_consumes_length)
  moreover have "length (ahead u) \<le> length s" using run_consumes_length [OF u] by (simp add: start_def)
  ultimately show ?thesis by simp
qed

function arm_rest :: "string \<Rightarrow> string option" where
  "arm_rest rest = (case re_match VARIANT_RE rest of
     None \<Rightarrow> None
   | Some m \<Rightarrow> (let r1 = ahead m;
         r2 = lstrip (if starts_with ''('' r1 then skip_group 0 r1 else r1) in
       if starts_with ''|'' r2 then arm_rest (lstrip (drop 1 r2))
       else if starts_with ''if '' r2 then guard_tail no_quote 0 r2
       else if starts_with '':'' r2 then Some (drop 1 r2) else None))"
  by pat_completeness auto
termination
proof (relation "measure length", simp, clarify)
  fix rest m
  assume m: "re_match VARIANT_RE rest = Some m"
  let ?r1 = "ahead m" let ?r2 = "lstrip (if starts_with ''('' ?r1 then skip_group 0 ?r1 else ?r1)"
  have "length ?r2 \<le> length ?r1"
    using order_trans [OF length_lstrip length_skip_group [of 0 ?r1]] length_lstrip [of ?r1] by (simp del: starts_with_Cons)
  moreover have "length (lstrip (drop 1 ?r2)) \<le> length ?r2"
    using length_lstrip [of "drop 1 ?r2"] by simp
  ultimately show "(lstrip (drop 1 ?r2), rest) \<in> measure length"
    using variant_nonempty [OF m] by simp
qed

declare arm_rest.simps [simp del]

definition match_arm_body :: "string \<Rightarrow> string option" where
  "match_arm_body line = arm_rest (strip line)"

section \<open>Splitting keeps the text\<close>

text \<open>The pieces before trimming.\<close>

fun raw_args :: "qstate \<Rightarrow> int \<Rightarrow> int \<Rightarrow> int \<Rightarrow> string \<Rightarrow> string \<Rightarrow> string list" where
  "raw_args q p k b acc [] = [rev acc]"
| "raw_args q p k b acc (c # cs) =
     (if is_code q c \<and> c = CHR '','' \<and> p = 0 \<and> k = 0 \<and> b = 0 then rev acc # raw_args q p k b [] cs
      else raw_args (qnext q c)
        (if is_code q c then (if c = CHR ''('' then p + 1 else if c = CHR '')'' then p - 1 else p) else p)
        (if is_code q c then (if c = CHR ''['' then k + 1 else if c = CHR '']'' then k - 1 else k) else k)
        (if is_code q c then (if c = CHR ''{'' then b + 1 else if c = CHR ''}'' then b - 1 else b) else b)
        (c # acc) cs)"

lemma is_code_qnext: "is_code q c \<Longrightarrow> qnext q c = q"
  by (cases q) (auto simp: is_code_def qnext_def)

lemma split_args_raw: "split_args q p k b acc s = map strip (raw_args q p k b acc s)"
  by (induction s arbitrary: q p k b acc) (auto simp: is_code_qnext)

lemma raw_args_not_Nil [simp]: "raw_args q p k b acc s \<noteq> []"
  by (induction s arbitrary: q p k b acc) auto

lemma raw_args_join: "join '','' (raw_args q p k b acc s) = rev acc @ s"
proof (induction s arbitrary: q p k b acc)
  case (Cons c s)
  obtain x xs where x: "raw_args q p k b [] s = x # xs" by (meson neq_Nil_conv raw_args_not_Nil)
  then have "join '','' (x # xs) = s" using Cons.IH [of q p k b "[]"] by simp
  then have "join '','' (rev acc # x # xs) = rev acc @ CHR '','' # s" by simp
  then have comma: "join '','' (rev acc # raw_args q p k b [] s) = rev acc @ CHR '','' # s" using x by simp
  show ?case
  proof (cases "is_code q c \<and> c = CHR '','' \<and> p = 0 \<and> k = 0 \<and> b = 0")
    case True
    with comma show ?thesis by (auto simp del: join.simps)
  next
    case False
    then show ?thesis by (simp only: raw_args.simps if_False Cons.IH rev.simps append_assoc append.simps)
  qed
qed simp

text \<open>
  A piece is scanned as in the whole text: the first one from the given state, the others
  from the initial one.
\<close>

lemma raw_args_first:
  assumes "raw_args q p k b acc s = x # xs"
  shows "\<exists>y. x = rev acc @ y \<and> raw_args q p k b acc' y = [rev acc' @ y]"
  using assms
proof (induction s arbitrary: q p k b acc acc')
  case (Cons c s)
  show ?case
  proof (cases "is_code q c \<and> c = CHR '','' \<and> p = 0 \<and> k = 0 \<and> b = 0")
    case True
    with Cons.prems show ?thesis by (intro exI [of _ "[]"]) auto
  next
    case False
    with Cons.prems obtain q' p' k' b' where r: "raw_args q' p' k' b' (c # acc) s = x # xs"
      and d: "\<And>a t. raw_args q p k b a (c # t) = raw_args q' p' k' b' (c # a) t"
      by (simp only: raw_args.simps if_False)
    from Cons.IH [OF r, of "c # acc'"] obtain y where "x = rev (c # acc) @ y"
      "raw_args q' p' k' b' (c # acc') y = [rev (c # acc') @ y]" by blast
    with d show ?thesis by (intro exI [of _ "c # y"]) simp
  qed
qed simp

lemma raw_args_pieces:
  assumes "raw_args q p k b acc s = x # xs" "fst q = None \<longrightarrow> \<not> snd q" "z \<in> set xs"
  shows "raw_args no_quote 0 0 0 [] z = [z]"
  using assms
proof (induction s arbitrary: q p k b acc x xs)
  case (Cons c s)
  show ?case
  proof (cases "is_code q c \<and> c = CHR '','' \<and> p = 0 \<and> k = 0 \<and> b = 0")
    case True
    with Cons.prems(2) have q: "q = no_quote" by (cases q) (auto simp: is_code_def)
    from True Cons.prems(1) have xs: "xs = raw_args no_quote 0 0 0 [] s" using q by auto
    obtain y ys where ys: "raw_args no_quote 0 0 0 [] s = y # ys" by (meson neq_Nil_conv raw_args_not_Nil)
    show ?thesis
    proof (cases "z = y")
      case True
      then show ?thesis using raw_args_first [OF ys, of "[]"] by auto
    next
      case False
      with Cons.IH [OF ys] Cons.prems(3) xs ys show ?thesis by auto
    qed
  next
    case False
    have "fst (qnext q c) = None \<longrightarrow> \<not> snd (qnext q c)"
      using Cons.prems(2) by (cases q) (auto simp: qnext_def split: option.splits)
    with False Cons.prems Cons.IH show ?thesis by (simp only: raw_args.simps if_False)
  qed
qed simp

section \<open>Balanced groups\<close>

text \<open>Text that is balanced when scanned from a quote state, and that ends outside quotes.\<close>

inductive qbal :: "qstate \<Rightarrow> string \<Rightarrow> bool" where
  nil: "qbal no_quote []"
| hidden: "\<not> is_code q c \<Longrightarrow> qbal (qnext q c) s \<Longrightarrow> qbal q (c # s)"
| plain: "is_code q c \<Longrightarrow> \<not> opens c \<Longrightarrow> opener c = None \<Longrightarrow> qbal q s \<Longrightarrow> qbal q (c # s)"
| nest: "is_code q c \<Longrightarrow> opens c \<Longrightarrow> qbal q s \<Longrightarrow> opener d = Some c \<Longrightarrow> qbal no_quote t \<Longrightarrow> qbal q (c # s @ d # t)"

definition qvalid :: "qstate \<Rightarrow> bool" where
  "qvalid q \<longleftrightarrow> (fst q = None \<longrightarrow> \<not> snd q)"

lemma qvalid_next: "qvalid q \<Longrightarrow> qvalid (qnext q c)"
  by (cases q) (auto simp: qvalid_def qnext_def split: option.splits)

lemma qvalid_code: "qvalid q \<Longrightarrow> is_code q c \<Longrightarrow> q = no_quote"
  by (cases q) (auto simp: qvalid_def is_code_def)

lemma opener_not_quote: "opener d = Some c \<Longrightarrow> is_code no_quote d \<and> \<not> opens d"
  by (auto simp: opener_def is_code_def is_quote_def opens_def split: if_splits)

lemma match_delim_bal:
  "qbal q s \<Longrightarrow> stack \<noteq> [] \<Longrightarrow> match_delim q stack i (s @ rest) = match_delim no_quote stack (i + length s) rest"
proof (induction arbitrary: stack i rest rule: qbal.induct)
  case (nest q c s d t)
  have "match_delim q stack i ((c # s @ d # t) @ rest) = match_delim q (c # stack) (Suc i) (s @ d # t @ rest)"
    using nest.hyps by simp
  also have "\<dots> = match_delim no_quote (c # stack) (Suc i + length s) (d # t @ rest)"
    by (rule nest.IH) simp
  also have "\<dots> = match_delim no_quote stack (Suc (Suc i + length s)) (t @ rest)"
    using nest.hyps nest.prems opener_not_quote [of d c] by simp
  also have "\<dots> = match_delim no_quote stack (Suc (Suc i + length s) + length t) rest"
    by (rule nest.IH) (use nest.prems in simp)
  finally show ?case by (simp only: append_Cons length_Cons length_append add_Suc_right add_Suc add.assoc)
qed auto

lemma match_delim_found:
  assumes "match_delim q (a # st) i s = Some j" "qvalid q"
  shows "\<exists>u d t. s = u @ d # t \<and> qbal q u \<and> opener d = Some a \<and>
    (if st = [] then j = i + length u else match_delim no_quote st (Suc (i + length u)) t = Some j)"
  using assms
proof (induction "length s" arbitrary: q a st i s rule: less_induct)
  case less
  then obtain c cs where s: "s = c # cs" by (cases s) auto
  consider "\<not> is_code q c" | "is_code q c" "opens c" | "is_code q c" "\<not> opens c" "opener c = None"
    | b where "is_code q c" "\<not> opens c" "opener c = Some b" by blast
  then show ?case
  proof cases
    case 1
    with less.prems s have "match_delim (qnext q c) (a # st) (Suc i) cs = Some j" by simp
    from less.hyps [OF _ this qvalid_next [OF less.prems(2)]] s obtain u d t where
      "cs = u @ d # t" "qbal (qnext q c) u" "opener d = Some a"
      "if st = [] then j = Suc i + length u else match_delim no_quote st (Suc (Suc i + length u)) t = Some j" by auto
    with 1 s show ?thesis by (intro exI [of _ "c # u"] exI [of _ d] exI [of _ t]) (auto intro: qbal.hidden)
  next
    case 2
    with qvalid_code [OF less.prems(2)] have q: "q = no_quote" by simp
    have v: "qvalid no_quote" by (simp add: qvalid_def)
    from 2 less.prems(1) s have "match_delim no_quote (c # a # st) (Suc i) cs = Some j" by (simp add: q)
    from less.hyps [OF _ this v] s obtain u d t where u: "cs = u @ d # t" "qbal no_quote u" "opener d = Some c"
      "match_delim no_quote (a # st) (Suc (Suc i + length u)) t = Some j" by auto
    from less.hyps [OF _ u(4) v] s u(1) obtain u' d' t' where u': "t = u' @ d' # t'" "qbal no_quote u'" "opener d' = Some a"
      "if st = [] then j = Suc (Suc i + length u) + length u'
       else match_delim no_quote st (Suc (Suc (Suc i + length u) + length u')) t' = Some j" by auto
    have "qbal q (c # u @ d # u')" using 2 u u' q by (auto intro: qbal.nest)
    then have "s = (c # u @ d # u') @ d' # t' \<and> qbal q (c # u @ d # u') \<and> opener d' = Some a \<and>
        (if st = [] then j = i + length (c # u @ d # u')
         else match_delim no_quote st (Suc (i + length (c # u @ d # u'))) t' = Some j)"
      using s u(1) u'(1,3,4) by (cases "st = []") (simp_all add: add.assoc [symmetric])
    then show ?thesis by blast
  next
    case 3
    with less.prems s have "match_delim q (a # st) (Suc i) cs = Some j" by simp
    from less.hyps [OF _ this less.prems(2)] s obtain u d t where
      "cs = u @ d # t" "qbal q u" "opener d = Some a"
      "if st = [] then j = Suc i + length u else match_delim no_quote st (Suc (Suc i + length u)) t = Some j" by auto
    with 3 s show ?thesis by (intro exI [of _ "c # u"] exI [of _ d] exI [of _ t]) (auto intro: qbal.plain)
  next
    case 4
    with qvalid_code [OF less.prems(2)] have q: "q = no_quote" by simp
    from 4 less.prems(1) s show ?thesis
      by (intro exI [of _ "[]"] exI [of _ c] exI [of _ cs]) (auto simp: q intro: qbal.nil split: if_splits)
  qed
qed

text \<open>
  Splitting an argument list loses nothing and splits only at top-level commas: there are
  untrimmed pieces that, joined by commas, are the text, the result is these pieces trimmed,
  and each piece on its own is a single argument.
\<close>

theorem split_arguments_exact:
  assumes "strip text \<noteq> []"
  shows "\<exists>raws. split_top_level_arguments text = map strip raws \<and> join '','' raws = text \<and>
    list_all (\<lambda>raw. split_top_level_arguments raw = [strip raw] \<or> strip raw = []) raws"
proof -
  obtain x xs where x: "raw_args no_quote 0 0 0 [] text = x # xs" by (meson neq_Nil_conv raw_args_not_Nil)
  have "split_top_level_arguments text = map strip (x # xs)"
    using assms x by (simp add: split_top_level_arguments_def split_args_raw)
  moreover have "join '','' (x # xs) = text" using raw_args_join [of no_quote 0 0 0 "[]" "text"] x by simp
  moreover have "raw_args no_quote 0 0 0 [] z = [z]" if "z \<in> set (x # xs)" for z
    using that raw_args_first [OF x, of "[]"] raw_args_pieces [OF x] by auto
  ultimately show ?thesis
    by (intro exI [of _ "x # xs"]) (auto simp: list_all_iff split_top_level_arguments_def split_args_raw)
qed

theorem split_arguments_exact_witness:
  "\<exists>raws. split_top_level_arguments ''a, f(b, c)'' = map strip raws \<and> join '','' raws = ''a, f(b, c)'' \<and>
    list_all (\<lambda>raw. split_top_level_arguments raw = [strip raw] \<or> strip raw = []) raws"
proof -
  have "strip ''a, f(b, c)'' \<noteq> []" by code_simp
  then show ?thesis by (rule split_arguments_exact)
qed

text \<open>
  The delimiter matcher is exact: started at an opening delimiter it answers \<open>j\<close> if and
  only if the text from there to \<open>j\<close> is one balanced group, its delimiters properly nested
  and those inside quotations ignored.
\<close>

theorem matching_delimiter_exact:
  assumes "opens c"
  shows "matching_delimiter (pre @ c # rest) (length pre) = Some j \<longleftrightarrow>
    (\<exists>inner d post. rest = inner @ d # post \<and> qbal no_quote inner \<and> opener d = Some c \<and>
       j = length pre + length inner + 1)"
proof -
  have "is_code no_quote c" using assms by (auto simp: opens_def is_code_def is_quote_def)
  then have m: "matching_delimiter (pre @ c # rest) (length pre) = match_delim no_quote [c] (Suc (length pre)) rest"
    using assms by (simp add: matching_delimiter_def)
  show ?thesis
  proof
    assume "matching_delimiter (pre @ c # rest) (length pre) = Some j"
    with match_delim_found [of no_quote c "[]" "Suc (length pre)" rest j] m
    show "\<exists>inner d post. rest = inner @ d # post \<and> qbal no_quote inner \<and> opener d = Some c \<and>
       j = length pre + length inner + 1" by (auto simp: qvalid_def)
  next
    assume "\<exists>inner d post. rest = inner @ d # post \<and> qbal no_quote inner \<and> opener d = Some c \<and>
       j = length pre + length inner + 1"
    then obtain inner d post where i: "rest = inner @ d # post" "qbal no_quote inner" "opener d = Some c"
      "j = length pre + length inner + 1" by blast
    then show "matching_delimiter (pre @ c # rest) (length pre) = Some j"
      using match_delim_bal [OF i(2), of "[c]" "Suc (length pre)" "d # post"] opener_not_quote [OF i(3)] m by simp
  qed
qed

theorem matching_delimiter_exact_witness:
  "matching_delimiter ''f(a)'' 1 = Some 3 \<longleftrightarrow>
    (\<exists>inner d post. ''a)'' = inner @ d # post \<and> qbal no_quote inner \<and> opener d = Some (CHR ''('') \<and>
       (3::nat) = 1 + length inner + 1)"
  using matching_delimiter_exact [of "CHR ''(''" "''f''" "''a)''" 3] by (simp add: opens_def)

end
