(* ===== verification/ParTypes.thy ===== *)
theory ParTypes
  imports ParScan
begin

text \<open>
  The type predicates of \<open>scripts/semantic_parallel_gen.py\<close>: which source types are copied by
  value, which may carry a reference or a mutable alias into shared storage. They walk the
  type aliases and the struct fields of the scanned sources; both tables give, for a name,
  every definition found for it.
\<close>

type_synonym alias_table = "(string, string list) dict"
type_synonym struct_table = "(string, string list list) dict"

definition entries :: "(string, 'a list) dict \<Rightarrow> string \<Rightarrow> 'a list" where
  "entries d n = (case dget d n of None \<Rightarrow> [] | Some xs \<Rightarrow> xs)"

section \<open>Names in type expressions\<close>

text \<open>\<open>(?:\w+::)*\w+\<close>\<close>

definition QUALIFIED_RE :: rx where
  "QUALIFIED_RE = Seq (Many (Seq (Plus (Cls is_word)) (Lit ''::''))) (Plus (Cls is_word))"

text \<open>\<open>name.rsplit("::", 1)[-1]\<close>\<close>

fun after_last :: "string \<Rightarrow> string \<Rightarrow> string" where
  "after_last best [] = best"
| "after_last best (c # cs) = after_last (if starts_with ''::'' (c # cs) then drop 1 cs else best) cs"

definition terminal_name :: "string \<Rightarrow> string" where
  "terminal_name s = after_last s s"

text \<open>\<open>\b(?:mutable|lmut)\b\<close> and \<open>\blmut\b\<close>\<close>

definition MUTABLE_RE :: rx where
  "MUTABLE_RE = Seqs [WordB, Alt (Lit ''mutable'') (Lit ''lmut''), WordB]"

definition LMUT_RE :: rx where
  "LMUT_RE = Seqs [WordB, Lit ''lmut'', WordB]"

definition names_in :: "string \<Rightarrow> string list" where
  "names_in e = map terminal_name (matched QUALIFIED_RE e)"

section \<open>Mutable references\<close>

text \<open>
  The recursive search through the aliases, with the cache of finished aliases. Running out
  of Python's recursion limit (the first argument) raises, written None; the caller answers
  True then.
\<close>

type_synonym alias_cache = "(string, bool) dict"

datatype mut_goal = Alias string | Texts "string list" | Names "string list"

primrec mut_search :: "nat \<Rightarrow> alias_table \<Rightarrow> string list \<Rightarrow> alias_cache \<Rightarrow> mut_goal \<Rightarrow> (bool \<times> alias_cache) option" where
  "mut_search 0 aliases visiting cache g = None"
| "mut_search (Suc n) aliases visiting cache g = (case g of
     Alias a \<Rightarrow> (case dget cache a of
         Some r \<Rightarrow> Some (r, cache)
       | None \<Rightarrow>
           if a \<in> set visiting then Some (True, cache)
           else (case mut_search n aliases (a # visiting) cache (Texts (entries aliases a)) of
               None \<Rightarrow> None
             | Some (r, cache') \<Rightarrow> Some (r, dset a r cache')))
   | Texts [] \<Rightarrow> Some (False, cache)
   | Texts (t # rest) \<Rightarrow>
       if re_search MUTABLE_RE t \<noteq> None then Some (True, cache)
       else (case mut_search n aliases visiting cache (Names (names_in t)) of
           None \<Rightarrow> None
         | Some (r, cache') \<Rightarrow> if r then Some (True, cache') else mut_search n aliases visiting cache' (Texts rest))
   | Names [] \<Rightarrow> Some (False, cache)
   | Names (a # rest) \<Rightarrow> (case mut_search n aliases visiting cache (Alias a) of
         None \<Rightarrow> None
       | Some (r, cache') \<Rightarrow> if r then Some (True, cache') else mut_search n aliases visiting cache' (Names rest)))"

definition type_expression_is_mutable_ref :: "nat \<Rightarrow> string \<Rightarrow> alias_table \<Rightarrow> alias_cache \<Rightarrow> bool" where
  "type_expression_is_mutable_ref limit e aliases cache =
     (if re_search MUTABLE_RE e \<noteq> None then True
      else case mut_search limit aliases [] cache (Names (names_in e)) of None \<Rightarrow> True | Some (r, _) \<Rightarrow> r)"

section \<open>Normalising a type expression\<close>

function strip_parens :: "string \<Rightarrow> string" where
  "strip_parens e =
     (if starts_with ''('' e \<and> matching_delimiter e 0 = Some (length e - 1)
      then strip_parens (strip (drop 1 (drop_last 1 e))) else e)"
  by pat_completeness auto
termination
proof (relation "measure length", simp)
  fix e :: string assume "starts_with ''('' e \<and> matching_delimiter e 0 = Some (length e - 1)"
  then have "length (drop 1 (drop_last 1 e)) < length e"
    by (cases e) (auto simp: drop_last_def)
  then have "length (strip (drop 1 (drop_last 1 e))) < length e"
    using length_strip [of "drop 1 (drop_last 1 e)"] by linarith
  then show "(strip (drop 1 (drop_last 1 e)), e) \<in> measure length" by simp
qed

declare strip_parens.simps [simp del]

function strip_options :: "string \<Rightarrow> string" where
  "strip_options e = (if ends_with ''?'' e then strip_options (rstrip (drop_last 1 e)) else e)"
  by pat_completeness auto
termination
proof (relation "measure length", simp)
  fix e :: string assume "ends_with ''?'' e"
  then have "length (drop_last 1 e) < length e" by (auto simp: drop_last_def ends_with_def)
  then show "(rstrip (drop_last 1 e), e) \<in> measure length"
    using order_le_less_trans [OF length_rstrip [of "drop_last 1 e"]] by simp
qed

declare strip_options.simps [simp del]

text \<open>\<open>re.sub(r"^(?:(?:mutable|static|heap|stack)\s+)+", "", e)\<close>; the second list of words has \<open>lmut\<close> too.\<close>

definition qualifier_rx :: "string list \<Rightarrow> rx" where
  "qualifier_rx ws = Seq Bol (Plus (Seq (Alts (map Lit ws)) Spaces1))"

definition drop_qualifiers :: "string list \<Rightarrow> string \<Rightarrow> string" where
  "drop_qualifiers ws e = re_sub (qualifier_rx ws) (\<lambda>_. []) e"

text \<open>\<open>sview\s*@(?:[A-Za-z_]\w*::)*[A-Za-z_]\w*\<close>\<close>

definition VIEW_RE :: rx where
  "VIEW_RE = Seqs [Lit ''sview'', Spaces0, Chr (CHR ''@''),
     Many (Seqs [Cls is_ident_start, Many (Cls is_word), Lit ''::'']), Cls is_ident_start, Many (Cls is_word)]"

definition copy_alias_view_base_type :: "string \<Rightarrow> string" where
  "copy_alias_view_base_type e =
     (if starts_with ''sview'' e \<and> re_fullmatch VIEW_RE e \<noteq> None then ''sview'' else e)"

definition COPY_VALUE_TYPE_NAMES :: "string list" where
  "COPY_VALUE_TYPE_NAMES = [''i8'', ''i16'', ''i32'', ''i64'', ''u8'', ''u16'', ''u32'', ''u64'',
     ''isize'', ''usize'', ''int'', ''f32'', ''f64'', ''bool'', ''char'', ''sview'']"

definition compound :: "string \<Rightarrow> bool" where
  "compound e \<longleftrightarrow> has_sub ''['' e \<or> has_sub ''{'' e \<or> has_sub '','' e \<or> re_fullmatch QUALIFIED_RE e = None"

text \<open>What a type expression is to a walk: decided, out of reach, or a name to look up.\<close>

datatype kind = Value bool | Invalid | Name string

definition classify_copy :: "nat \<Rightarrow> alias_table \<Rightarrow> string \<Rightarrow> kind" where
  "classify_copy limit aliases e0 = (let e = strip_options (strip_parens (strip e0)) in
     if has_sub ''&'' e then Value (ends_with ''&'' e \<and> \<not> type_expression_is_mutable_ref limit e aliases [])
     else let e1 = copy_alias_view_base_type (drop_qualifiers [''mutable'', ''static'', ''heap'', ''stack''] e) in
       if compound e1 then Invalid
       else let name = terminal_name e1 in
         if name \<in> set COPY_VALUE_TYPE_NAMES then Value True else Name name)"

text \<open>For the second walk a decided expression is safe when it cannot hold a mutable alias.\<close>

definition classify_alias :: "nat \<Rightarrow> alias_table \<Rightarrow> string \<Rightarrow> kind" where
  "classify_alias limit aliases e0 = (let e = strip_options (strip_parens (strip e0)) in
     if re_search LMUT_RE e \<noteq> None then Value False
     else if has_sub ''&'' e then Value (\<not> type_expression_is_mutable_ref limit e aliases [])
     else let e1 = copy_alias_view_base_type (drop_qualifiers [''mutable'', ''lmut'', ''static'', ''heap'', ''stack''] e) in
       if compound e1 then Invalid
       else let name = terminal_name e1 in
         if name = ''sview'' \<or> name \<in> set COPY_VALUE_TYPE_NAMES then Value True else Name name)"

section \<open>The iterative walk\<close>

text \<open>
  Both walks keep a stack of frames: a name, its child expressions, the index of the next one
  and whether all looked at so far are fine. A name is active while its frame is on the stack
  and is in the memo once it is finished. The children of the known names are a table.
\<close>

type_synonym frame = "string \<times> string list \<times> nat \<times> bool"

record walk =
  memo :: "(string, bool) dict"
  active :: "string list"
  frames :: "frame list"

definition set_flag :: "frame list \<Rightarrow> frame list" where
  "set_flag fs = (case fs of [] \<Rightarrow> [] | (n, ch, i, _) # rest \<Rightarrow> (n, ch, i, False) # rest)"

definition push_name :: "(string, string list) dict \<Rightarrow> string \<Rightarrow> walk \<Rightarrow> walk" where
  "push_name children n w =
     (if dget (memo w) n \<noteq> None \<or> n \<in> set (active w) then w
      else case dget children n of
          None \<Rightarrow> w\<lparr>memo := dset n False (memo w)\<rparr>
        | Some ch \<Rightarrow> w\<lparr>active := n # active w, frames := (n, ch, 0, True) # frames w\<rparr>)"

text \<open>One round of the loop; the frames are not empty.\<close>

definition walk_step :: "(string \<Rightarrow> kind) \<Rightarrow> (string, string list) dict \<Rightarrow> walk \<Rightarrow> walk" where
  "walk_step classify children w = (case frames w of
     [] \<Rightarrow> w
   | (n, ch, i, ok) # rest \<Rightarrow>
       if \<not> ok then w\<lparr>memo := dset n False (memo w), active := removeAll n (active w), frames := set_flag rest\<rparr>
       else if length ch \<le> i then w\<lparr>memo := dset n True (memo w), active := removeAll n (active w), frames := rest\<rparr>
       else (let w1 = w\<lparr>frames := (n, ch, Suc i, True) # rest\<rparr>; fail = w\<lparr>frames := (n, ch, Suc i, False) # rest\<rparr> in
         case classify (ch ! i) of
           Value b \<Rightarrow> if b then w1 else fail
         | Invalid \<Rightarrow> fail
         | Name c \<Rightarrow>
             if c \<in> set (active w) then fail
             else (case dget (memo w) c of
                 Some r \<Rightarrow> if r then w1 else fail
               | None \<Rightarrow> if dget children c = None then push_name children c fail else push_name children c w1)))"

definition walk_weight :: "frame list \<Rightarrow> nat" where
  "walk_weight fs = sum_list (map (\<lambda>(n, ch, i, ok). 2 * (length ch - i) + (if ok then 2 else 1)) fs)"

definition unvisited :: "(string, string list) dict \<Rightarrow> walk \<Rightarrow> nat" where
  "unvisited children w = card (set (dkeys children) - (set (dkeys (memo w)) \<union> set (active w)))"

lemma set_flag_weight: "walk_weight (set_flag fs) \<le> walk_weight fs"
  by (auto simp: set_flag_def walk_weight_def split: list.splits)

lemma dkeys_dset_set: "set (dkeys (dset k v d)) = insert k (set (dkeys d))"
  by (auto simp: dkeys_dset)

lemma walk_step_cases:
  assumes f: "frames w = (n, ch, i, ok) # rest"
  obtains (bad) "\<not> ok" "walk_step classify children w =
      w\<lparr>memo := dset n False (memo w), active := removeAll n (active w), frames := set_flag rest\<rparr>"
    | (complete) "ok" "length ch \<le> i" "walk_step classify children w =
      w\<lparr>memo := dset n True (memo w), active := removeAll n (active w), frames := rest\<rparr>"
    | (good) "ok" "i < length ch" "classify (ch ! i) = Value True \<or> (\<exists>c. classify (ch ! i) = Name c \<and> dget (memo w) c = Some True)"
      "walk_step classify children w = w\<lparr>frames := (n, ch, Suc i, True) # rest\<rparr>"
    | (fail) "ok" "i < length ch" "classify (ch ! i) = Value False \<or> classify (ch ! i) = Invalid \<or>
        (\<exists>c. classify (ch ! i) = Name c \<and> (c \<in> set (active w) \<or> dget (memo w) c = Some False))"
      "walk_step classify children w = w\<lparr>frames := (n, ch, Suc i, False) # rest\<rparr>"
    | (unknown) c where "ok" "i < length ch" "classify (ch ! i) = Name c" "c \<notin> set (active w)" "dget (memo w) c = None"
      "dget children c = None"
      "walk_step classify children w = w\<lparr>frames := (n, ch, Suc i, False) # rest, memo := dset c False (memo w)\<rparr>"
    | (deeper) c ch' where "ok" "i < length ch" "classify (ch ! i) = Name c" "c \<notin> set (active w)" "dget (memo w) c = None"
      "dget children c = Some ch'"
      "walk_step classify children w = w\<lparr>active := c # active w, frames := (c, ch', 0, True) # (n, ch, Suc i, True) # rest\<rparr>"
proof (cases "ok \<and> i < length ch")
  case False
  then show ?thesis using that(1,2) f by (cases ok) (auto simp: walk_step_def)
next
  case True
  then have st: "walk_step classify children w = (let w1 = w\<lparr>frames := (n, ch, Suc i, True) # rest\<rparr>;
         fail = w\<lparr>frames := (n, ch, Suc i, False) # rest\<rparr> in
       case classify (ch ! i) of
         Value b \<Rightarrow> if b then w1 else fail
       | Invalid \<Rightarrow> fail
       | Name c \<Rightarrow>
           if c \<in> set (active w) then fail
           else (case dget (memo w) c of
               Some r \<Rightarrow> if r then w1 else fail
             | None \<Rightarrow> if dget children c = None then push_name children c fail else push_name children c w1))"
    by (simp add: walk_step_def f)
  show ?thesis
  proof (cases "classify (ch ! i)")
    case (Value b)
    then show ?thesis using that(3,4) True st by (cases b) simp_all
  next
    case Invalid
    then show ?thesis using that(4) True st by simp
  next
    case (Name c)
    show ?thesis
    proof (cases "c \<in> set (active w)")
      case act: True
      then show ?thesis using that(4) True st Name by simp
    next
      case act: False
      show ?thesis
      proof (cases "dget (memo w) c")
        case (Some r)
        then show ?thesis using that(3,4) True st Name act by (cases r) simp_all
      next
        case None
        then show ?thesis using that(5,6) True st Name act
          by (cases "dget children c") (simp_all add: push_name_def)
      qed
    qed
  qed
qed

lemma walk_step_measure:
  assumes "frames w \<noteq> []"
  shows "unvisited children (walk_step classify children w) < unvisited children w \<or>
    unvisited children (walk_step classify children w) \<le> unvisited children w \<and>
    walk_weight (frames (walk_step classify children w)) < walk_weight (frames w)"
proof -
  obtain n ch i ok rest where f: "frames w = (n, ch, i, ok) # rest" using assms by (cases "frames w") auto
  let ?w' = "walk_step classify children w"
  have le: "unvisited children ?w' \<le> unvisited children w"
    if "set (dkeys (memo w)) \<union> set (active w) \<subseteq> set (dkeys (memo ?w')) \<union> set (active ?w')"
    using that unfolding unvisited_def by (intro card_mono) auto
  from f show ?thesis
  proof (cases rule: walk_step_cases [where classify = classify and children = children, case_names bad complete good fail unknown deeper])
    case bad
    have "unvisited children ?w' \<le> unvisited children w" by (rule le) (auto simp: bad dkeys_dset_set)
    moreover have "walk_weight (frames ?w') < walk_weight (frames w)"
      using set_flag_weight [of rest] bad by (simp add: f) (simp add: walk_weight_def)
    ultimately show ?thesis by simp
  next
    case complete
    have "unvisited children ?w' \<le> unvisited children w" by (rule le) (auto simp: complete dkeys_dset_set)
    then show ?thesis using complete by (simp add: f walk_weight_def)
  next
    case good
    then show ?thesis using le by (auto simp: f walk_weight_def)
  next
    case fail
    then show ?thesis using le by (auto simp: f walk_weight_def)
  next
    case (unknown c)
    have "unvisited children ?w' \<le> unvisited children w" by (rule le) (auto simp: unknown dkeys_dset_set)
    then show ?thesis using unknown by (auto simp: f walk_weight_def)
  next
    case (deeper c ch')
    have "c \<in> set (dkeys children)" "c \<notin> set (dkeys (memo w))"
      using deeper dget_dom [of children c] dget_None_conv [of "memo w" c] by auto
    then have "unvisited children ?w' < unvisited children w"
      using deeper(4) unfolding unvisited_def by (intro psubset_card_mono) (auto simp: deeper(7))
    then show ?thesis by simp
  qed
qed

function walk_loop :: "(string \<Rightarrow> kind) \<Rightarrow> (string, string list) dict \<Rightarrow> walk \<Rightarrow> walk" where
  "walk_loop classify children w =
     (if frames w = [] then w else walk_loop classify children (walk_step classify children w))"
  by pat_completeness auto
termination
  by (relation "measures [\<lambda>(classify, children, w). unvisited children w, \<lambda>(classify, children, w). walk_weight (frames w)]")
     (use walk_step_measure in \<open>auto simp: le_less\<close>)

declare walk_loop.simps [simp del]

definition walk_name :: "(string \<Rightarrow> kind) \<Rightarrow> (string, string list) dict \<Rightarrow> string \<Rightarrow> bool" where
  "walk_name classify children root =
     (dget (memo (walk_loop classify children (push_name children root \<lparr>memo = [], active = [], frames = []\<rparr>))) root = Some True)"

definition walk_expr :: "(string \<Rightarrow> kind) \<Rightarrow> (string, string list) dict \<Rightarrow> string \<Rightarrow> bool" where
  "walk_expr classify children e = (case classify e of
     Value b \<Rightarrow> b | Invalid \<Rightarrow> False | Name root \<Rightarrow> walk_name classify children root)"

section \<open>The two walks\<close>

definition known_names :: "alias_table \<Rightarrow> struct_table \<Rightarrow> string list" where
  "known_names aliases structs = remdups (dkeys aliases @ dkeys structs)"

definition copy_children :: "alias_table \<Rightarrow> struct_table \<Rightarrow> string \<Rightarrow> string list option" where
  "copy_children aliases structs n =
     (if entries aliases n \<noteq> [] then Some (entries aliases n)
      else if entries structs n = [] then None else Some (concat (entries structs n)))"

definition alias_children :: "alias_table \<Rightarrow> struct_table \<Rightarrow> string \<Rightarrow> string list option" where
  "alias_children aliases structs n =
     (if entries aliases n = [] \<and> entries structs n = [] then None
      else Some (entries aliases n @ concat (entries structs n)))"

definition child_table :: "string list \<Rightarrow> (string \<Rightarrow> string list option) \<Rightarrow> (string, string list) dict" where
  "child_table names ch = List.map_filter (\<lambda>n. map_option (Pair n) (ch n)) names"

definition type_is_copy_value :: "nat \<Rightarrow> string \<Rightarrow> alias_table \<Rightarrow> struct_table \<Rightarrow> bool" where
  "type_is_copy_value limit e aliases structs =
     walk_expr (classify_copy limit aliases)
       (child_table (known_names aliases structs) (copy_children aliases structs)) e"

definition type_may_contain_mutable_alias :: "nat \<Rightarrow> string \<Rightarrow> alias_table \<Rightarrow> struct_table \<Rightarrow> bool" where
  "type_may_contain_mutable_alias limit e aliases structs =
     (\<not> walk_expr (classify_alias limit aliases)
       (child_table (known_names aliases structs) (alias_children aliases structs)) e)"

section \<open>The walk decides the types that are fine all the way down\<close>

text \<open>
  What the walk is meant to decide: an expression is fine if it is decided so or names a type
  whose children are all fine, by a finite derivation, so that no cycle is fine.
\<close>

inductive fine_name :: "(string \<Rightarrow> kind) \<Rightarrow> (string, string list) dict \<Rightarrow> string \<Rightarrow> bool" for classify children where
  fine: "dget children n = Some ch \<Longrightarrow>
     (\<And>e. e \<in> set ch \<Longrightarrow> classify e = Value True \<or> (\<exists>m. classify e = Name m \<and> fine_name classify children m)) \<Longrightarrow>
     fine_name classify children n"

inductive_cases fine_nameE: "fine_name classify children n"

definition fine_expr :: "(string \<Rightarrow> kind) \<Rightarrow> (string, string list) dict \<Rightarrow> string \<Rightarrow> bool" where
  "fine_expr classify children e \<longleftrightarrow>
     classify e = Value True \<or> (\<exists>m. classify e = Name m \<and> fine_name classify children m)"

lemma fine_name_iff:
  "fine_name classify children n \<longleftrightarrow> (\<exists>ch. dget children n = Some ch \<and> (\<forall>e \<in> set ch. fine_expr classify children e))"
  by (auto simp: fine_expr_def intro: fine_name.intros elim!: fine_nameE)

text \<open>\<open>depends m n\<close>: the name \<open>m\<close> is looked up for a child of \<open>n\<close>.\<close>

definition depends :: "(string \<Rightarrow> kind) \<Rightarrow> (string, string list) dict \<Rightarrow> string \<Rightarrow> string \<Rightarrow> bool" where
  "depends classify children m n \<longleftrightarrow> (\<exists>ch e. dget children n = Some ch \<and> e \<in> set ch \<and> classify e = Name m)"

lemma fine_name_acc: "fine_name classify children n \<Longrightarrow> Wellfounded.accp (depends classify children) n"
proof (induction rule: fine_name.induct)
  case (fine n ch)
  show ?case
  proof (rule accpI)
    fix m assume "depends classify children m n"
    with fine.hyps(1) obtain e where "e \<in> set ch" "classify e = Name m" by (auto simp: depends_def)
    with fine.IH show "Wellfounded.accp (depends classify children) m" by force
  qed
qed

lemma acc_no_cycle: "Wellfounded.accp R x \<Longrightarrow> \<not> R\<^sup>+\<^sup>+ x x"
proof (induction rule: Wellfounded.accp.induct)
  case (accI x)
  show ?case
  proof
    assume "R\<^sup>+\<^sup>+ x x"
    then obtain y where y: "R\<^sup>*\<^sup>* x y" "R y x" by (metis tranclp.cases tranclp_into_rtranclp rtranclp.rtrancl_refl)
    then have "R\<^sup>+\<^sup>+ y y" by (metis rtranclp_into_tranclp2)
    with accI y(2) show False by blast
  qed
qed

lemma fine_name_no_cycle:
  "fine_name classify children n \<Longrightarrow> \<not> (depends classify children)\<^sup>+\<^sup>+ n n"
  by (simp add: acc_no_cycle fine_name_acc)

text \<open>
  The invariant of the loop. The frames below the top one wait for the name above them; the
  children looked at before are fine.
\<close>

fun chain :: "(string \<Rightarrow> kind) \<Rightarrow> (string, string list) dict \<Rightarrow> string \<Rightarrow> frame list \<Rightarrow> bool" where
  "chain classify children up [] \<longleftrightarrow> True"
| "chain classify children up ((n, ch, i, ok) # rest) \<longleftrightarrow>
     ok \<and> dget children n = Some ch \<and> 0 < i \<and> i \<le> length ch \<and> classify (ch ! (i - 1)) = Name up \<and>
     (\<forall>j < i - 1. fine_expr classify children (ch ! j)) \<and> chain classify children n rest"

fun stack_ok :: "(string \<Rightarrow> kind) \<Rightarrow> (string, string list) dict \<Rightarrow> frame list \<Rightarrow> bool" where
  "stack_ok classify children [] \<longleftrightarrow> True"
| "stack_ok classify children ((n, ch, i, ok) # rest) \<longleftrightarrow>
     dget children n = Some ch \<and> i \<le> length ch \<and> (ok \<longrightarrow> (\<forall>j < i. fine_expr classify children (ch ! j))) \<and>
     (\<not> ok \<longrightarrow> \<not> fine_name classify children n) \<and> chain classify children n rest"

definition frame_names :: "frame list \<Rightarrow> string list" where
  "frame_names fs = map fst fs"

definition walk_inv :: "(string \<Rightarrow> kind) \<Rightarrow> (string, string list) dict \<Rightarrow> walk \<Rightarrow> bool" where
  "walk_inv classify children w \<longleftrightarrow>
     (\<forall>n b. dget (memo w) n = Some b \<longrightarrow> b = fine_name classify children n) \<and>
     active w = frame_names (frames w) \<and> distinct (active w) \<and> stack_ok classify children (frames w)"

lemma chain_child:
  assumes "chain classify children up ((n, ch, i, ok) # rest)"
  shows "\<exists>e \<in> set ch. classify e = Name up" "depends classify children up n"
proof -
  have "ch ! (i - 1) \<in> set ch" "classify (ch ! (i - 1)) = Name up" "dget children n = Some ch" using assms by auto
  then show "\<exists>e \<in> set ch. classify e = Name up" "depends classify children up n" by (auto simp: depends_def)
qed

lemma chain_reaches:
  "chain classify children n fs \<Longrightarrow> c \<in> set (frame_names fs) \<Longrightarrow> (depends classify children)\<^sup>+\<^sup>+ n c"
proof (induction classify children n fs rule: chain.induct)
  case (2 classify children up n ch i ok rest)
  note d = chain_child(2) [OF 2(2)]
  show ?case
  proof (cases "c = n")
    case True
    with d show ?thesis by blast
  next
    case False
    with 2 have "(depends classify children)\<^sup>+\<^sup>+ n c" by (auto simp: frame_names_def)
    with d show ?thesis by (rule tranclp_into_tranclp2)
  qed
qed (simp add: frame_names_def)

text \<open>When the top frame is finished, the one below learns whether its child is fine.\<close>

lemma pop_good:
  assumes "chain classify children n rest" "fine_name classify children n"
  shows "stack_ok classify children rest"
proof (cases rest)
  case (Cons f fs)
  obtain m ch i ok where f: "f = (m, ch, i, ok)" by (metis surj_pair)
  have "fine_expr classify children (ch ! j)" if "j < i" for j
    using that assms Cons f by (cases "j = i - 1") (auto simp: fine_expr_def)
  with assms Cons f show ?thesis by simp
qed simp

lemma pop_bad:
  assumes "chain classify children n rest" "\<not> fine_name classify children n"
  shows "stack_ok classify children (set_flag rest)"
proof (cases rest)
  case (Cons f fs)
  obtain m ch i ok where f: "f = (m, ch, i, ok)" by (metis surj_pair)
  with assms(1) Cons obtain e where "e \<in> set ch" "classify e = Name n" "dget children m = Some ch"
    using chain_child(1) [of classify children n m ch i ok fs] by auto
  with assms(2) have "\<not> fine_name classify children m"
    by (metis fine_expr_def fine_name_iff kind.distinct(4) kind.inject(2) option.inject)
  with assms Cons f show ?thesis by (simp add: set_flag_def)
qed (simp add: set_flag_def)

lemma frame_names_flag [simp]: "frame_names (set_flag fs) = frame_names fs"
  by (auto simp: frame_names_def set_flag_def split: list.splits)

lemma removeAll_hd: "distinct (x # xs) \<Longrightarrow> removeAll x (x # xs) = xs"
  by simp

lemma walk_inv_step:
  assumes inv: "walk_inv classify children w" and f: "frames w = (n, ch, i, ok) # rest"
  shows "walk_inv classify children (walk_step classify children w)"
proof -
  have so: "dget children n = Some ch" "i \<le> length ch" "ok \<longrightarrow> (\<forall>j < i. fine_expr classify children (ch ! j))"
    "\<not> ok \<longrightarrow> \<not> fine_name classify children n" "chain classify children n rest"
    and a1: "active w = n # frame_names rest"
    and me: "\<And>x b. dget (memo w) x = Some b \<Longrightarrow> b = fine_name classify children x"
    using inv f by (simp_all add: walk_inv_def frame_names_def)
  have a2: "distinct (active w)" using inv unfolding walk_inv_def by blast
  note ac = a1 a2 [unfolded a1]
  have down: "\<not> fine_name classify children n" if "i < length ch" "\<not> fine_expr classify children (ch ! i)"
    using that so(1) by (auto simp: fine_name_iff)
  from f show ?thesis
  proof (cases rule: walk_step_cases [where classify = classify and children = children, case_names bad complete good fail unknown deeper])
    case bad
    with so ac me show ?thesis by (auto simp: walk_inv_def pop_bad split: if_splits)
  next
    case complete
    with so have fi: "fine_name classify children n" by (auto simp: fine_name_iff in_set_conv_nth)
    with complete so ac me show ?thesis by (auto simp: walk_inv_def pop_good split: if_splits)
  next
    case good
    have "fine_expr classify children (ch ! i)" using good(3) me by (auto simp: fine_expr_def)
    with good so ac me show ?thesis by (auto simp: walk_inv_def frame_names_def less_Suc_eq)
  next
    case fail
    have "\<not> fine_name classify children n"
    proof (cases "\<exists>c. classify (ch ! i) = Name c \<and> c \<in> set (active w)")
      case True
      then obtain c where c: "classify (ch ! i) = Name c" "c \<in> set (active w)" by blast
      then have d: "depends classify children c n" using so(1) nth_mem [OF fail(2)] unfolding depends_def by blast
      have "c = n \<or> (depends classify children)\<^sup>+\<^sup>+ n c" using c(2) ac(1) chain_reaches [OF so(5)] by auto
      with d have "(depends classify children)\<^sup>+\<^sup>+ n n" by (auto intro: tranclp.r_into_trancl tranclp_trans)
      then show ?thesis using fine_name_no_cycle by blast
    next
      case False
      with fail(3) have "\<not> fine_expr classify children (ch ! i)" using me by (auto simp: fine_expr_def)
      with down fail(2) show ?thesis by blast
    qed
    with fail so ac me show ?thesis by (auto simp: walk_inv_def frame_names_def)
  next
    case (unknown c)
    have nf: "\<not> fine_name classify children c" using unknown(6) by (simp add: fine_name_iff)
    with unknown(3) have "\<not> fine_expr classify children (ch ! i)" by (simp add: fine_expr_def)
    with down unknown(2) have "\<not> fine_name classify children n" by blast
    with unknown so ac me nf show ?thesis by (auto simp: walk_inv_def frame_names_def split: if_splits)
  next
    case (deeper c ch')
    with so ac me show ?thesis by (auto simp: walk_inv_def frame_names_def)
  qed
qed

lemma walk_loop_inv:
  assumes "walk_inv classify children w"
  shows "walk_inv classify children (walk_loop classify children w) \<and> frames (walk_loop classify children w) = [] \<and>
    (dget (memo w) r \<noteq> None \<or> r \<in> set (active w) \<longrightarrow>
       dget (memo (walk_loop classify children w)) r \<noteq> None)"
  using assms
proof (induction classify children w rule: walk_loop.induct)
  case (1 classify children w)
  show ?case
  proof (cases "frames w")
    case Nil
    with 1(2) show ?thesis by (simp add: walk_loop.simps [of classify children w] walk_inv_def frame_names_def)
  next
    case (Cons fr rest)
    obtain n ch i ok where f: "frames w = (n, ch, i, ok) # rest" using Cons by (metis surj_pair)
    let ?w = "walk_step classify children w"
    have keep: "dget (memo ?w) r \<noteq> None \<or> r \<in> set (active ?w)" if "dget (memo w) r \<noteq> None \<or> r \<in> set (active w)"
      using f by (cases rule: walk_step_cases [where classify = classify and children = children]) (use that in auto)
    have ne: "frames w \<noteq> []" using f by simp
    from 1(1) [OF ne walk_inv_step [OF 1(2) f]] keep show ?thesis
      using ne unfolding walk_loop.simps [of classify children w] if_not_P [OF ne] by blast
  qed
qed

lemma walk_name_iff: "walk_name classify children root \<longleftrightarrow> fine_name classify children root"
proof -
  let ?w0 = "push_name children root \<lparr>memo = [], active = [], frames = []\<rparr>"
  have inv: "walk_inv classify children ?w0"
    by (auto simp: push_name_def walk_inv_def frame_names_def fine_name_iff split: option.splits if_splits)
  have "dget (memo ?w0) root \<noteq> None \<or> root \<in> set (active ?w0)"
    by (cases "dget children root") (simp_all add: push_name_def)
  with walk_loop_inv [OF inv, of root] have wi: "walk_inv classify children (walk_loop classify children ?w0)"
    and "dget (memo (walk_loop classify children ?w0)) root \<noteq> None" by blast+
  then obtain b where b: "dget (memo (walk_loop classify children ?w0)) root = Some b" by blast
  with wi have "b = fine_name classify children root" unfolding walk_inv_def by blast
  with b show ?thesis by (simp add: walk_name_def)
qed

lemma walk_expr_iff: "walk_expr classify children e \<longleftrightarrow> fine_expr classify children e"
  by (cases "classify e") (simp_all add: walk_expr_def fine_expr_def walk_name_iff)

section \<open>References in copied values\<close>




text \<open>The worklist of \<open>type_is_top_level_reference\<close>, which follows aliases only.\<close>

definition top_name :: "string \<Rightarrow> string option" where
  "top_name e = (let e1 = drop_qualifiers [''mutable'', ''static'', ''heap'', ''stack''] e in
     if re_fullmatch QUALIFIED_RE e1 = None then None else Some (terminal_name e1))"

function top_loop :: "alias_table \<Rightarrow> string list \<Rightarrow> string list \<Rightarrow> bool" where
  "top_loop aliases [] visited = False"
| "top_loop aliases (e0 # pending) visited = (let e = strip_options (strip_parens (strip e0)) in
     if has_sub ''&'' e \<or> re_search LMUT_RE e \<noteq> None then True
     else case top_name e of
         None \<Rightarrow> top_loop aliases pending visited
       | Some n \<Rightarrow> if n \<in> set visited then True
           else top_loop aliases (rev (entries aliases n) @ pending) (n # visited))"
  by pat_completeness auto
termination
proof (relation "measures [\<lambda>(aliases, pending, visited). card (set (dkeys aliases) - set visited),
    \<lambda>(aliases, pending, visited). length pending]", simp_all)
  fix aliases :: alias_table and n :: string and visited :: "string list"
  assume n: "n \<notin> set visited"
  show "card (set (dkeys aliases) - insert n (set visited)) < card (set (dkeys aliases) - set visited) \<or>
      card (set (dkeys aliases) - insert n (set visited)) = card (set (dkeys aliases) - set visited) \<and> entries aliases n = []"
  proof (cases "n \<in> set (dkeys aliases)")
    case True
    with n have "card (set (dkeys aliases) - insert n (set visited)) < card (set (dkeys aliases) - set visited)"
      by (intro psubset_card_mono) auto
    then show ?thesis by simp
  next
    case False
    then have "set (dkeys aliases) - insert n (set visited) = set (dkeys aliases) - set visited" by auto
    moreover from False have "entries aliases n = []" using dget_None_conv [of aliases n] by (simp add: entries_def)
    ultimately show ?thesis by simp
  qed
qed

definition type_is_top_level_reference :: "string \<Rightarrow> alias_table \<Rightarrow> bool" where
  "type_is_top_level_reference e aliases = top_loop aliases [e] []"

definition is_detached_copy_value :: "nat \<Rightarrow> string \<Rightarrow> alias_table \<Rightarrow> struct_table \<Rightarrow> bool" where
  "is_detached_copy_value limit e aliases structs \<longleftrightarrow>
     e \<noteq> [] \<and> type_is_copy_value limit e aliases structs \<and>
     \<not> type_may_contain_mutable_alias limit e aliases structs \<and> \<not> type_is_top_level_reference e aliases"






section \<open>Mutable references fail closed\<close>

text \<open>An alias that leads to no mutable reference, by a finite derivation.\<close>

inductive clean :: "alias_table \<Rightarrow> string \<Rightarrow> bool" for aliases where
  clean: "(\<And>t. t \<in> set (entries aliases a) \<Longrightarrow> re_search MUTABLE_RE t = None) \<Longrightarrow>
     (\<And>t b. t \<in> set (entries aliases a) \<Longrightarrow> b \<in> set (names_in t) \<Longrightarrow> clean aliases b) \<Longrightarrow> clean aliases a"

definition clean_text :: "alias_table \<Rightarrow> string \<Rightarrow> bool" where
  "clean_text aliases t \<longleftrightarrow> re_search MUTABLE_RE t = None \<and> list_all (clean aliases) (names_in t)"

fun clean_goal :: "alias_table \<Rightarrow> mut_goal \<Rightarrow> bool" where
  "clean_goal aliases (Alias a) \<longleftrightarrow> clean aliases a"
| "clean_goal aliases (Texts ts) \<longleftrightarrow> list_all (clean_text aliases) ts"
| "clean_goal aliases (Names ns) \<longleftrightarrow> list_all (clean aliases) ns"

definition cache_ok :: "alias_table \<Rightarrow> alias_cache \<Rightarrow> bool" where
  "cache_ok aliases cache \<longleftrightarrow> (\<forall>a. dget cache a = Some False \<longrightarrow> clean aliases a)"

lemma clean_texts: "list_all (clean_text aliases) (entries aliases a) \<Longrightarrow> clean aliases a"
  by (rule clean.clean) (auto simp: list_all_iff clean_text_def)

lemma mut_search_sound:
  "mut_search n aliases visiting cache g = Some (r, cache') \<Longrightarrow> cache_ok aliases cache \<Longrightarrow>
     cache_ok aliases cache' \<and> (\<not> r \<longrightarrow> clean_goal aliases g)"
proof (induction n arbitrary: visiting cache g r cache')
  case (Suc n)
  show ?case
  proof (cases g)
    case (Alias a)
    show ?thesis
    proof (cases "dget cache a = None \<and> a \<notin> set visiting")
      case True
      with Suc.prems(1) Alias obtain cache1 where
        c: "mut_search n aliases (a # visiting) cache (Texts (entries aliases a)) = Some (r, cache1)" "cache' = dset a r cache1"
        by (auto split: option.splits)
      from Suc.IH [OF c(1) Suc.prems(2)] c(2) Alias clean_texts show ?thesis
        by (auto simp: cache_ok_def split: if_splits)
    next
      case False
      with Suc.prems Alias show ?thesis by (auto simp: cache_ok_def split: option.splits if_splits)
    qed
  next
    case (Texts ts)
    show ?thesis
    proof (cases ts)
      case (Cons t rest)
      show ?thesis
      proof (cases "re_search MUTABLE_RE t = None")
        case True
        with Suc.prems(1) Texts Cons obtain r1 cache1 where
          c: "mut_search n aliases visiting cache (Names (names_in t)) = Some (r1, cache1)"
          "if r1 then r \<and> cache' = cache1 else mut_search n aliases visiting cache1 (Texts rest) = Some (r, cache')"
          by (auto split: option.splits if_splits)
        from Suc.IH [OF c(1) Suc.prems(2)] have i: "cache_ok aliases cache1" "\<not> r1 \<longrightarrow> list_all (clean aliases) (names_in t)" by auto
        show ?thesis
        proof (cases r1)
          case True
          with c(2) i show ?thesis by simp
        next
          case False
          with Suc.IH [of visiting cache1 "Texts rest" r cache'] c(2) i True Texts Cons show ?thesis
            by (auto simp: clean_text_def)
        qed
      qed (use Suc.prems Texts Cons in auto)
    qed (use Suc.prems Texts in auto)
  next
    case (Names ns)
    show ?thesis
    proof (cases ns)
      case (Cons a rest)
      with Suc.prems(1) Names obtain r1 cache1 where
        c: "mut_search n aliases visiting cache (Alias a) = Some (r1, cache1)"
        "if r1 then r \<and> cache' = cache1 else mut_search n aliases visiting cache1 (Names rest) = Some (r, cache')"
        by (auto split: option.splits if_splits)
      from Suc.IH [OF c(1) Suc.prems(2)] have i: "cache_ok aliases cache1" "\<not> r1 \<longrightarrow> clean aliases a" by auto
      with Suc.IH [of visiting cache1 "Names rest" r cache'] c(2) Names Cons show ?thesis by (cases r1) auto
    qed (use Suc.prems Names in auto)
  qed
qed simp

section \<open>Properties\<close>

lemma child_table_None: "n \<notin> set names \<Longrightarrow> dget (child_table names ch) n = None"
proof (induction names)
  case (Cons m names)
  then show ?case by (cases "ch m") (auto simp: child_table_def List.map_filter_def dget_def)
qed (simp add: child_table_def List.map_filter_def)

lemma child_table_get:
  assumes "\<And>n. n \<notin> set names \<Longrightarrow> ch n = None"
  shows "dget (child_table names ch) n = ch n"
proof (cases "n \<in> set names")
  case True
  then show ?thesis
  proof (induction names)
    case (Cons m names)
    show ?case
    proof (cases "n = m")
      case True
      then show ?thesis using child_table_None [of m names ch] Cons.IH
        by (cases "ch m"; cases "m \<in> set names") (auto simp: child_table_def List.map_filter_def dget_def)
    next
      case False
      with Cons show ?thesis by (cases "ch m") (auto simp: child_table_def List.map_filter_def dget_def)
    qed
  qed simp
qed (simp add: assms child_table_None)

lemma known_entries: "n \<notin> set (known_names aliases structs) \<Longrightarrow> entries aliases n = [] \<and> entries structs n = []"
  using dget_None_conv [of aliases n] dget_None_conv [of structs n] by (simp add: known_names_def entries_def)

lemma copy_table_get:
  "dget (child_table (known_names aliases structs) (copy_children aliases structs)) n = copy_children aliases structs n"
  by (rule child_table_get) (simp add: copy_children_def known_entries)

lemma alias_table_get:
  "dget (child_table (known_names aliases structs) (alias_children aliases structs)) n = alias_children aliases structs n"
  by (rule child_table_get) (simp add: alias_children_def known_entries)

text \<open>
  C11. The copy check is exact: it answers yes for the types whose aliases and fields are
  copyable all the way down, by a finite derivation over the scanned aliases (or, for a name
  without alias, its struct fields), and no for every other type, recursive ones included.
  The loop with its memo and stack of frames always ends.
\<close>

theorem copy_value_exact:
  "type_is_copy_value limit e aliases structs \<longleftrightarrow>
     fine_expr (classify_copy limit aliases)
       (child_table (known_names aliases structs) (copy_children aliases structs)) e"
  by (simp add: type_is_copy_value_def walk_expr_iff)

text \<open>
  C12. A type the alias check clears cannot hold mutable storage: it is decided so, or every
  alias and every field it names is, by a finite derivation; unknown names and recursive
  types are never cleared. Conversely every such type is cleared.
\<close>

theorem mutable_alias_exact:
  "\<not> type_may_contain_mutable_alias limit e aliases structs \<longleftrightarrow>
     fine_expr (classify_alias limit aliases)
       (child_table (known_names aliases structs) (alias_children aliases structs)) e"
  by (simp add: type_may_contain_mutable_alias_def walk_expr_iff)

definition ex_aliases :: alias_table where
  "ex_aliases = [(''Id'', [''u32'']), (''Loop'', [''Loop?'']), (''Ids'', [''Ns::Id''])]"






lemma ex_not_mutable: "\<not> type_expression_is_mutable_ref 900 ''Ids'' ex_aliases []"
  by code_simp

text \<open>
  The mutable reference check fails closed: when it answers no for a type expression,
  no alias it leads to, through any number of aliases, spells \<open>mutable\<close> or \<open>lmut\<close>, and
  there is no alias cycle among them; a cycle or a search deeper than the recursion limit
  is answered yes.
\<close>

theorem mutable_ref_fails_closed:
  assumes "\<not> type_expression_is_mutable_ref limit e aliases []"
  shows "clean_text aliases e"
  using assms mut_search_sound [of limit aliases "[]" "[]" "Names (names_in e)"]
  by (auto simp: type_expression_is_mutable_ref_def clean_text_def cache_ok_def split: if_splits option.splits)

theorem mutable_ref_fails_closed_witness: "clean_text ex_aliases ''Ids''"
  by (rule mutable_ref_fails_closed [OF ex_not_mutable])

end
