(* ===== verification/ParPlan.thy ===== *)
theory ParPlan
  imports ParScan
begin

text \<open>
  The planner of \<open>scripts/semantic_parallel_gen.py\<close>: which passes of the semantic pipeline
  are append-only, which consecutive ones become a concurrent batch, the rewritten pipeline,
  and the whitelist of pass ids the runtime checks. The facts of the source audit are a
  parameter (\<open>info\<close>), the source files are texts.
\<close>

section \<open>Append-only passes\<close>

record fn_info =
  fi_writes :: "string list"
  fi_reads :: bool
  fi_calls :: "string list"

type_synonym info = "(string, fn_info) dict"

text \<open>The loop of \<open>closure_facts\<close>: the names to look at, the next one first, and those seen.\<close>

function closure_loop :: "info \<Rightarrow> string list \<Rightarrow> string list \<Rightarrow> string list" where
  "closure_loop info [] seen = seen"
| "closure_loop info (x # stack) seen =
     (if x \<in> set seen then closure_loop info stack seen
      else case dget info x of
          None \<Rightarrow> closure_loop info stack seen
        | Some f \<Rightarrow> closure_loop info (rev (fi_calls f) @ stack) (x # seen))"
  by pat_completeness auto
termination
proof (relation "measures [\<lambda>(info, stack, seen). card (set (dkeys info) - set seen), \<lambda>(info, stack, seen). length stack]",
    simp_all)
  fix info :: info and x f seen
  assume "x \<notin> set seen" "dget info x = Some f"
  then have "x \<in> set (dkeys info) - set seen" using dget_dom [of info x] by auto
  then have "card (set (dkeys info) - insert x (set seen)) < card (set (dkeys info) - set seen)"
    by (intro psubset_card_mono) auto
  then show "card (set (dkeys info) - insert x (set seen)) < card (set (dkeys info) - set seen) \<or> P" for P by simp
qed

definition closure_facts :: "info \<Rightarrow> string \<Rightarrow> string set \<times> bool" where
  "closure_facts info root = (let seen = closure_loop info [root] [] in
     (\<Union>x \<in> set seen. set (fi_writes (the (dget info x))), list_ex (\<lambda>x. fi_reads (the (dget info x))) seen))"

definition append_only :: "info \<Rightarrow> string \<Rightarrow> bool" where
  "append_only info name = (case closure_facts info name of (writes, reads) \<Rightarrow> writes = {} \<and> \<not> reads)"

section \<open>Batches already in the pipeline\<close>

definition nl :: string where
  "nl = [CHR 0x0A]"

text \<open>
  The pattern \<open>PAR_RUN_RE\<close>: indentation, optional table update, the typed view or a scratch
  slot, first id, count, and an optional effect clause.
\<close>

definition Blanks :: rx where
  "Blanks = Many (Cls is_blank)"

definition Blanks1 :: rx where
  "Blanks1 = Plus (Cls is_blank)"

definition Digits :: rx where
  "Digits = Plus (Cls is_digit)"

definition PAR_RUN_RE :: rx where
  "PAR_RUN_RE = Seqs [Bol, Grp 1 Blanks, Opt (Grp 2 (Lit ''table <- '')),
     Lit ''par_pass_run(file, flags, table, shared_pool, '',
     Grp 3 (Alt (Lit ''loop_view'') (Seqs [Chr (CHR ''&''), Cls is_ident_start, Many (Cls is_word),
       Chr (CHR ''[''), Digits, Chr (CHR '']'')])),
     Lit '', '', Grp 4 Digits, Lit '', '', Grp 5 Digits, Chr (CHR '')''),
     Opt (Grp 6 (Seqs [Blanks1, Lit ''can'', Blanks1, Plus (Cls (\<lambda>c. c \<noteq> CHR 0x0A))])), Blanks, Eol]"

definition PAR_RUN_ANY_RE :: rx where
  "PAR_RUN_ANY_RE = Seqs [WordB, Lit ''par_pass_run'', Spaces0, Chr (CHR ''('')]"

record par_call =
  pc_line :: nat
  pc_match :: mstate
  pc_start :: nat
  pc_count :: nat

definition group_nat :: "mstate \<Rightarrow> nat \<Rightarrow> nat" where
  "group_nat m k = (case digit_run 10 False 0 (group_or m k []) of Some n \<Rightarrow> n | None \<Rightarrow> 0)"

text \<open>The calls of a list of lines, and the numbers (from one) of the lines with a malformed one.\<close>

fun par_run_calls :: "string list \<Rightarrow> nat \<Rightarrow> par_call list \<times> nat list" where
  "par_run_calls [] i = ([], [])"
| "par_run_calls (line # rest) i = (case par_run_calls rest (Suc i) of (calls, errors) \<Rightarrow>
     let code = strip_comments line in
     if re_search PAR_RUN_ANY_RE code = None then (calls, errors)
     else (case re_fullmatch PAR_RUN_RE code of
         None \<Rightarrow> (calls, Suc i # errors)
       | Some m \<Rightarrow> (\<lparr>pc_line = i, pc_match = m, pc_start = group_nat m 4, pc_count = group_nat m 5\<rparr> # calls, errors)))"

definition normalized_par_run_line :: "mstate \<Rightarrow> string" where
  "normalized_par_run_line m = group_or m 1 [] @ ''table <- par_pass_run(file, flags, table, shared_pool, loop_view, ''
     @ group_or m 4 [] @ '', '' @ group_or m 5 [] @ '')'' @ group_or m 6 []"

text \<open>The inner loop extends a batch over safe ids; a batch of an unsafe id is that id alone.\<close>

function batch_stop :: "nat set \<Rightarrow> nat \<Rightarrow> nat \<Rightarrow> nat" where
  "batch_stop safe stop end_id = (if stop < end_id \<and> stop \<in> safe then batch_stop safe (Suc stop) end_id else stop)"
  by pat_completeness auto
termination
  by (relation "measure (\<lambda>(safe, stop, end_id). end_id - stop)") auto

declare batch_stop.simps [simp del]

lemma batch_stop_ge: "stop \<le> batch_stop safe stop end_id"
  by (induction safe stop end_id rule: batch_stop.induct) (subst batch_stop.simps, auto)

function split_range :: "nat set \<Rightarrow> nat \<Rightarrow> nat \<Rightarrow> (nat \<times> nat) list" where
  "split_range safe first end_id =
     (if first < end_id then
        (let stop = (if first \<in> safe then batch_stop safe (Suc first) end_id else Suc first)
         in (first, stop - first) # split_range safe stop end_id)
      else [])"
  by pat_completeness auto
termination
proof (relation "measure (\<lambda>(safe, first, end_id). end_id - first)", simp, clarify)
  fix safe :: "nat set" and first end_id :: nat
  assume "first < end_id"
  then show "((safe, if first \<in> safe then batch_stop safe (Suc first) end_id else Suc first, end_id), safe, first, end_id)
      \<in> measure (\<lambda>(safe, first, end_id). end_id - first)"
    using batch_stop_ge [of "Suc first" safe end_id] by auto
qed

declare split_range.simps [simp del]

definition split_parallel_range :: "nat \<Rightarrow> nat \<Rightarrow> nat set \<Rightarrow> (nat \<times> nat) list" where
  "split_parallel_range first count safe_ids = split_range safe_ids first (first + count)"

section \<open>The pipeline\<close>

definition PIPELINE_CONTEXT :: "string list" where
  "PIPELINE_CONTEXT = [''file'', ''table'', ''shared_pool'', ''snapshot'', ''incremental_skip_count'',
     ''effect_source_bodies_skipped'', ''ungranted_panic_bodies_skipped'', ''global_permission_axis_scans_skipped'',
     ''lookup_session'', ''lookup_context'', ''enforce_mutable_global_grants'']"

definition MIN_RUN :: nat where
  "MIN_RUN = 2"

text \<open>\<open>(?:\[[^\]]*\])?\<close>\<close>

definition Generics :: rx where
  "Generics = Opt (Seqs [Chr (CHR ''[''), Many (Cls (\<lambda>c. c \<noteq> CHR '']'')), Chr (CHR '']'')])"

definition DEF_RE :: rx where
  "DEF_RE = Seqs [Bol, Grp 1 Spaces0, Opt (Seq (Lit ''ghost'') Spaces1), Lit ''def '', Grp 2 (Plus (Cls is_word)), Generics,
     Chr (CHR ''(''), Grp 3 (Star False Dot), Chr (CHR '')''), Spaces0, Alt (Lit ''->'') (Chr (CHR '':''))]"

definition PIPELINE_DEF_RE :: rx where
  "PIPELINE_DEF_RE = Seqs [Spaces0, Lit ''def check_full_into_pipeline'', Generics, Chr (CHR ''('')]"

definition indent_of :: "string \<Rightarrow> nat" where
  "indent_of line = length line - length (lstrip line)"

fun index_where :: "('a \<Rightarrow> bool) \<Rightarrow> nat \<Rightarrow> 'a list \<Rightarrow> nat option" where
  "index_where p i [] = None"
| "index_where p i (x # xs) = (if p x then Some i else index_where p (Suc i) xs)"

record pipeline =
  pl_lines :: "string list"
  pl_start :: nat
  pl_end :: nat
  pl_params :: "string list"

definition pipeline_statements :: "string \<Rightarrow> pipeline result" where
  "pipeline_statements api = (let lines = split_on (CHR 0x0A) api in
     case index_where (\<lambda>l. re_match PIPELINE_DEF_RE l \<noteq> None) 0 lines of
       None \<Rightarrow> Inl StopIteration
     | Some s \<Rightarrow> (case re_match DEF_RE (lines ! s) of
         None \<Rightarrow> Inl AttributeError
       | Some m \<Rightarrow>
           (let indent = indent_of (lines ! s);
                inside = takeWhile (\<lambda>l. strip l = [] \<or> indent < indent_of l) (drop (Suc s) lines)
            in Inr \<lparr>pl_lines = lines, pl_start = s, pl_end = Suc s + length inside,
                 pl_params = map (\<lambda>p. strip (hd (split_on (CHR '':'') p))) (split_on (CHR '','') (group_or m 3 []))\<rparr>)))"

text \<open>\<open>^\s*PhaseTimer::minor\("[^"]*"\)$\<close>\<close>

definition TIMER_RE :: rx where
  "TIMER_RE = Seqs [Bol, Spaces0, Lit ''PhaseTimer::minor('', Chr (CHR 0x22), Many (Cls (\<lambda>c. c \<noteq> CHR 0x22)),
     Chr (CHR 0x22), Chr (CHR '')''), Eol]"

record stmt =
  s_line :: nat
  s_indent :: string
  s_name :: string
  s_args :: string
  s_cond :: "string option"
  s_suffix :: string
  s_ok :: bool
  s_timer :: bool

definition pipeline_flags :: "pipeline \<Rightarrow> string list" where
  "pipeline_flags pl = filter (\<lambda>p. p \<notin> set PIPELINE_CONTEXT) (pl_params pl)"

definition make_stmt :: "info \<Rightarrow> pipeline \<Rightarrow> nat \<Rightarrow> stmt option" where
  "make_stmt info pl i = map_option (\<lambda>tc.
     let timer = (Suc i < pl_end pl \<and> re_match TIMER_RE (pl_lines pl ! Suc i) \<noteq> None) in
     \<lparr>s_line = i, s_indent = tc_indent tc, s_name = tc_name tc, s_args = tc_args tc, s_cond = tc_cond tc,
      s_suffix = tc_suffix tc,
      s_ok = (append_only info (tc_name tc) \<and> eligible_args (tc_args tc) (tc_cond tc) (pipeline_flags pl) \<and> timer),
      s_timer = timer\<rparr>) (parse_table_call_statement (pl_lines pl ! i))"

definition pipeline_stmts :: "info \<Rightarrow> pipeline \<Rightarrow> stmt list" where
  "pipeline_stmts info pl = List.map_filter (make_stmt info pl) [Suc (pl_start pl)..<pl_end pl]"

text \<open>A statement continues a run if it is eligible, two lines below the last and indented like it.\<close>

definition follows :: "stmt \<Rightarrow> stmt \<Rightarrow> bool" where
  "follows s prev \<longleftrightarrow> s_ok s \<and> s_line s = s_line prev + 2 \<and> s_indent s = s_indent prev"

definition keep_run :: "stmt list \<Rightarrow> stmt list list" where
  "keep_run cur = (if MIN_RUN \<le> length cur then [cur] else [])"

fun group_runs :: "stmt list \<Rightarrow> stmt list \<Rightarrow> stmt list list" where
  "group_runs cur [] = keep_run cur"
| "group_runs cur (s # rest) =
     (if cur \<noteq> [] \<and> follows s (last cur) then group_runs (cur @ [s]) rest
      else keep_run cur @ group_runs (if s_ok s then [s] else []) rest)"

definition plan_runs :: "info \<Rightarrow> string \<Rightarrow> (pipeline \<times> stmt list \<times> stmt list list) result" where
  "plan_runs info api = rmap (\<lambda>pl. let stmts = pipeline_stmts info pl in (pl, stmts, group_runs [] stmts))
     (pipeline_statements api)"

definition has_mixed_runs :: "pipeline \<Rightarrow> stmt list list \<Rightarrow> bool" where
  "has_mixed_runs pl runs \<longleftrightarrow> runs \<noteq> [] \<and>
     list_ex (\<lambda>line. re_search PAR_RUN_ANY_RE (strip_comments line) \<noteq> None)
       (drop (pl_start pl) (take (pl_end pl) (pl_lines pl)))"

section \<open>Rewriting the pipeline\<close>

definition flags_init :: "string list \<Rightarrow> string" where
  "flags_init flags = ''flags: ParPassFlags = ParPassFlags{'' @ join '', '' (map (\<lambda>f. f @ '': '' @ f) flags) @ ''}''"

definition SCRATCH_RE :: rx where
  "SCRATCH_RE = Seqs [Spaces0, Plus (Cls is_word), Chr (CHR '':''), Spaces0, Lit ''mutable darray[ParPassScratch['']"

definition FLAGS_RE :: rx where
  "FLAGS_RE = Seqs [Spaces0, Lit ''flags: ParPassFlags'', Spaces0, Chr (CHR ''=''), Spaces0, Lit ''ParPassFlags{'']"

definition VIEW_DECL_RE :: rx where
  "VIEW_DECL_RE = Seqs [Spaces0, Lit ''loop_view: Ast::File = '']"

text \<open>A pipeline that has batches: each is split at the passes that are not safe any more.\<close>

definition refresh_call :: "nat set \<Rightarrow> par_call \<Rightarrow> string" where
  "refresh_call safe c = join nl (map (\<lambda>(first, count). group_or (pc_match c) 1 []
       @ ''table <- par_pass_run(file, flags, table, shared_pool, loop_view, ''
       @ show_nat first @ '', '' @ show_nat count @ '')'' @ group_or (pc_match c) 6 [])
     (split_parallel_range (pc_start c) (pc_count c) safe))"

definition emit_generated :: "pipeline \<Rightarrow> par_call list \<Rightarrow> nat set \<Rightarrow> string list" where
  "emit_generated pl calls safe = (let
       within = (\<lambda>i. pl_start pl \<le> i \<and> i < pl_end pl);
       out1 = fold (\<lambda>c out. out[pc_line c := refresh_call safe c]) calls (pl_lines pl);
       out2 = map (\<lambda>(i, line). if within i \<and> re_match FLAGS_RE line \<noteq> None
          then take (indent_of line) line @ flags_init (pipeline_flags pl) else line) (enumerate 0 out1);
       out3 = map snd (filter (\<lambda>(i, line). \<not> (within i \<and> re_match SCRATCH_RE line \<noteq> None)) (enumerate 0 out2))
     in split_on (CHR 0x0A) (join nl out3))"

text \<open>A sequential pipeline: each run becomes a batch. An output line may stand for none or several.\<close>

definition emit_run :: "nat \<times> nat \<Rightarrow> stmt list \<Rightarrow> string list list \<Rightarrow> string list list" where
  "emit_run = (\<lambda>(k, first) batch out. (let head = hd batch;
       new = [s_indent head @ ''# Append-only passes '' @ show_nat first @ ''..'' @ show_nat (first + length batch - 1)
                @ '', run concurrently (semantic_parallel.elisa).'',
              s_indent head @ ''table <- par_pass_run(file, flags, table, shared_pool, loop_view, ''
                @ show_nat first @ '', '' @ show_nat (length batch) @ '')'',
              s_indent head @ ''PhaseTimer::minor('' @ [CHR 0x22] @ ''sem:par_run_'' @ show_nat k @ [CHR 0x22] @ '')'']
     in (fold (\<lambda>s o1. o1[s_line s := [], Suc (s_line s) := []]) batch out)[s_line head := new]))"

fun emit_runs :: "nat \<Rightarrow> nat \<Rightarrow> stmt list list \<Rightarrow> string list list \<Rightarrow> string list list" where
  "emit_runs k first [] out = out"
| "emit_runs k first (batch # runs) out = emit_runs (Suc k) (first + length batch) runs (emit_run (k, first) batch out)"

definition emit_sequential :: "pipeline \<Rightarrow> stmt list list \<Rightarrow> string list result" where
  "emit_sequential pl runs = (let
       out1 = emit_runs 0 0 runs (map (\<lambda>l. [l]) (pl_lines pl)) in
     case index_where (\<lambda>l. re_match VIEW_DECL_RE l \<noteq> None) (pl_start pl)
            (drop (pl_start pl) (take (pl_end pl) (pl_lines pl))) of
       None \<Rightarrow> Inl StopIteration
     | Some v \<Rightarrow> (let
           line = pl_lines pl ! v;
           out2 = out1[v := [line, take (indent_of line) line @ flags_init (pipeline_flags pl)]];
           out3 = map (\<lambda>(i, item). if pl_start pl \<le> i \<and> i < pl_end pl \<and> re_match SCRATCH_RE (pl_lines pl ! i) \<noteq> None
              then [] else item) (enumerate 0 out2)
         in Inr (concat out3)))"

text \<open>\<open>emit\<close>: the new lines and the passes by id; the ids of an existing dispatcher that are safe are a parameter.\<close>

definition emit :: "info \<Rightarrow> string \<Rightarrow> (unit \<Rightarrow> nat set result) \<Rightarrow> (string list \<times> (nat \<times> stmt) list) result" where
  "emit info api dispatch_safe =
     rbind (plan_runs info api) (\<lambda>(pl, stmts, runs).
       case par_run_calls (pl_lines pl) 0 of (all_calls, malformed) \<Rightarrow>
       let calls = filter (\<lambda>c. pl_start pl \<le> pc_line c \<and> pc_line c < pl_end pl) all_calls in
       if malformed \<noteq> [] then Inl (ValueError (''par_pass_run call does not match the generated call shape at semantic_api.elisa line(s) ''
            @ join '', '' (map show_nat malformed)))
       else if length calls \<noteq> length all_calls then Inl (ValueError ''par_pass_run call found outside check_full_into_pipeline'')
       else if has_mixed_runs pl runs then Inl (ValueError ''mixed generated par_pass_run calls and sequential eligible runs; restore a fully sequential pipeline before regenerating'')
       else if calls \<noteq> [] then rbind (dispatch_safe ()) (\<lambda>safe. Inr (emit_generated pl calls safe, []))
       else rbind (emit_sequential pl runs) (\<lambda>out. Inr (out, enumerate 0 (concat runs))))"

section \<open>The whitelist\<close>

definition GATE_BEGIN :: string where
  "GATE_BEGIN = ''        # BEGIN GENERATED APPEND-ONLY GATE''"

definition GATE_END :: string where
  "GATE_END = ''        # END GENERATED APPEND-ONLY GATE''"

text \<open>The ranges, built left to right over the sorted ids.\<close>

definition add_id :: "(nat \<times> nat) list \<Rightarrow> nat \<Rightarrow> (nat \<times> nat) list" where
  "add_id ranges i = (if ranges \<noteq> [] \<and> i = snd (last ranges) + 1
     then butlast ranges @ [(fst (last ranges), i)] else ranges @ [(i, i)])"

definition gate_ranges :: "nat list \<Rightarrow> (nat \<times> nat) list" where
  "gate_ranges ids = foldl add_id [] (sorted_list_of_set (set ids))"

definition gate_condition :: "nat \<times> nat \<Rightarrow> string" where
  "gate_condition = (\<lambda>(first, last).
     if first = last then ''pass_id == '' @ show_nat first
     else if first = 0 then ''pass_id <= '' @ show_nat last
     else ''pass_id >= '' @ show_nat first @ '' and pass_id <= '' @ show_nat last)"

definition gate_return :: "nat \<times> nat \<Rightarrow> string" where
  "gate_return r = ''            return true if '' @ gate_condition r"

definition parallel_safety_gate_source :: "nat list \<Rightarrow> string" where
  "parallel_safety_gate_source ids = join nl ([GATE_BEGIN, ''        def par_pass_is_append_only(pass_id: u32) -> bool:'']
     @ map gate_return (gate_ranges ids)
     @ [''            return false'', GATE_END])"

text \<open>\<open>s.find(p)\<close>.\<close>

fun find_sub :: "string \<Rightarrow> string \<Rightarrow> nat option" where
  "find_sub p [] = (if p = [] then Some 0 else None)"
| "find_sub p (c # cs) = (if starts_with p (c # cs) then Some 0 else map_option Suc (find_sub p cs))"

definition refresh_parallel_safety_gate :: "string \<Rightarrow> nat list \<Rightarrow> string result" where
  "refresh_parallel_safety_gate source ids = (let generated = parallel_safety_gate_source ids in
     case (find_sub GATE_BEGIN source, find_sub GATE_END source) of
       (None, None) \<Rightarrow> Inr (rstrip source @ nl @ nl @ generated @ nl)
     | (Some s, Some e) \<Rightarrow>
         if e < s \<or> find_sub GATE_BEGIN (drop (Suc s) source) \<noteq> None
         then Inl (ValueError ''malformed generated append-only gate markers'')
         else Inr (take s source @ generated @ drop (e + length GATE_END) source)
     | _ \<Rightarrow> Inl (ValueError ''malformed generated append-only gate markers''))"

definition parallel_safety_gate_errors :: "string \<Rightarrow> nat list \<Rightarrow> string list" where
  "parallel_safety_gate_errors source ids =
     (case (find_sub GATE_BEGIN source, find_sub GATE_END source) of
        (Some s, Some e) \<Rightarrow>
          if e < s \<or> find_sub GATE_BEGIN (drop (Suc s) source) \<noteq> None
          then [''semantic_parallel_passes.elisa: missing or malformed generated append-only gate'']
          else if strip (drop s (take (e + length GATE_END) source)) \<noteq> strip (parallel_safety_gate_source ids)
          then [''semantic_parallel_passes.elisa: append-only ID gate does not exactly match the audited dispatcher'']
          else []
      | _ \<Rightarrow> [''semantic_parallel_passes.elisa: missing or malformed generated append-only gate''])"


section \<open>The closure is the set of reachable functions\<close>

text \<open>A function with an effect of its own on the table or a diagnostics read.\<close>

definition effectful :: "fn_info \<Rightarrow> bool" where
  "effectful f \<longleftrightarrow> fi_writes f \<noteq> [] \<or> fi_reads f"

definition call_edge :: "info \<Rightarrow> string \<Rightarrow> string \<Rightarrow> bool" where
  "call_edge info x y \<longleftrightarrow> (\<exists>f. dget info x = Some f \<and> y \<in> set (fi_calls f))"

lemma closure_loop_sound:
  "x \<in> set (closure_loop info stack seen) \<Longrightarrow>
     x \<in> set seen \<or> (\<exists>r \<in> set stack. (call_edge info)\<^sup>*\<^sup>* r x \<and> (\<exists>f. dget info x = Some f))"
proof (induction info stack seen rule: closure_loop.induct)
  case (2 info y stack seen)
  show ?case
  proof (cases "y \<in> set seen \<or> dget info y = None")
    case True
    then have "closure_loop info (y # stack) seen = closure_loop info stack seen" by auto
    with 2 True show ?thesis by (cases "y \<in> set seen") auto
  next
    case False
    then obtain f where f: "dget info y = Some f" "y \<notin> set seen" by auto
    with "2.prems" have "x \<in> set (closure_loop info (rev (fi_calls f) @ stack) (y # seen))" by simp
    from "2.IH"(3) [OF f(2,1) this] consider "x = y" | "x \<in> set seen"
      | r where "r \<in> set (fi_calls f)" "(call_edge info)\<^sup>*\<^sup>* r x" "\<exists>f. dget info x = Some f"
      | r where "r \<in> set stack" "(call_edge info)\<^sup>*\<^sup>* r x" "\<exists>f. dget info x = Some f"
      by auto
    then show ?thesis
    proof cases
      case 3
      then have "call_edge info y r" using f(1) by (auto simp: call_edge_def)
      with 3 show ?thesis by (auto intro: converse_rtranclp_into_rtranclp)
    qed (use f in auto)
  qed
qed simp

definition closed_upto :: "info \<Rightarrow> string set \<Rightarrow> string set \<Rightarrow> bool" where
  "closed_upto info seen todo \<longleftrightarrow>
     (\<forall>x y. x \<in> seen \<longrightarrow> call_edge info x y \<longrightarrow> dget info y \<noteq> None \<longrightarrow> y \<in> seen \<union> todo)"

lemma closure_loop_complete:
  assumes "closed_upto info (set seen) (set stack)"
  shows "set seen \<subseteq> set (closure_loop info stack seen) \<and>
     (\<forall>x \<in> set stack. dget info x \<noteq> None \<longrightarrow> x \<in> set (closure_loop info stack seen)) \<and>
     closed_upto info (set (closure_loop info stack seen)) {}"
  using assms
proof (induction info stack seen rule: closure_loop.induct)
  case (2 info y stack seen)
  show ?case
  proof (cases "y \<in> set seen")
    case True
    with "2.prems" have "closed_upto info (set seen) (set stack)" by (auto simp: closed_upto_def)
    from "2.IH"(1) [OF True this] True show ?thesis by auto
  next
    case new: False
    show ?thesis
    proof (cases "dget info y")
      case None
      then have "ya \<noteq> y" if "dget info ya \<noteq> None" for ya using that by auto
      with "2.prems" have "closed_upto info (set seen) (set stack)" unfolding closed_upto_def by fastforce
      from "2.IH"(2) [OF new None this] new None show ?thesis by auto
    next
      case (Some f)
      with "2.prems" have "closed_upto info (set (y # seen)) (set (rev (fi_calls f) @ stack))"
        by (auto simp: closed_upto_def call_edge_def)
      from "2.IH"(3) [OF new Some this] new Some show ?thesis by auto
    qed
  qed
qed simp

lemma closed_upto_reach:
  assumes "closed_upto info seen {}" "r \<in> seen" "(call_edge info)\<^sup>*\<^sup>* r x" "dget info x \<noteq> None"
  shows "x \<in> seen"
  using assms(3,4)
proof (induction rule: rtranclp_induct)
  case (step y z)
  from step.hyps(2) have "dget info y \<noteq> None" by (auto simp: call_edge_def)
  with step assms(1) show ?case by (auto simp: closed_upto_def)
qed (rule assms(2))

lemma closure_exact:
  "set (closure_loop info [root] []) = {x. (call_edge info)\<^sup>*\<^sup>* root x \<and> dget info x \<noteq> None}"
proof -
  have c: "closed_upto info (set []) (set [root])" by (simp add: closed_upto_def)
  note k = closure_loop_complete [OF c]
  have "x \<in> set (closure_loop info [root] [])" if x: "(call_edge info)\<^sup>*\<^sup>* root x" "dget info x \<noteq> None" for x
  proof -
    have "dget info root \<noteq> None"
      using x by (cases rule: converse_rtranclpE) (auto simp: call_edge_def)
    with k x closed_upto_reach show ?thesis by auto
  qed
  with closure_loop_sound [of _ info "[root]" "[]"] show ?thesis by fastforce
qed

text \<open>
  C7. A pass is append-only exactly when no function its call graph reaches, itself included,
  writes a table field or reads diagnostics. Functions the audit has no record of end a path.
\<close>

theorem append_only_exact:
  "append_only info root \<longleftrightarrow>
     \<not> (\<exists>x f. (call_edge info)\<^sup>*\<^sup>* root x \<and> dget info x = Some f \<and> effectful f)"
proof -
  define seen where "seen = closure_loop info [root] []"
  define reached where "reached = (call_edge info)\<^sup>*\<^sup>* root"
  have "append_only info root \<longleftrightarrow> (\<forall>x \<in> set seen. fi_writes (the (dget info x)) = [] \<and> \<not> fi_reads (the (dget info x)))"
    unfolding append_only_def closure_facts_def Let_def seen_def [symmetric] by (auto simp: list_ex_iff)
  moreover have "set seen = {x. reached x \<and> dget info x \<noteq> None}"
    unfolding seen_def reached_def by (rule closure_exact)
  ultimately have "append_only info root \<longleftrightarrow>
      (\<forall>x. reached x \<and> dget info x \<noteq> None \<longrightarrow> fi_writes (the (dget info x)) = [] \<and> \<not> fi_reads (the (dget info x)))"
    by blast
  then show ?thesis unfolding reached_def [symmetric] effectful_def by (metis not_Some_eq option.sel)
qed

section \<open>Splitting a batch\<close>

lemma batch_stop_le: "stop \<le> end_id \<Longrightarrow> batch_stop safe stop end_id \<le> end_id"
  by (induction safe stop end_id rule: batch_stop.induct) (subst batch_stop.simps, auto)

lemma batch_stop_safe: "stop \<le> i \<Longrightarrow> i < batch_stop safe stop end_id \<Longrightarrow> i \<in> safe"
proof (induction safe stop end_id rule: batch_stop.induct)
  case (1 safe stop end_id)
  show ?case
  proof (cases "stop < end_id \<and> stop \<in> safe")
    case True
    with 1 show ?thesis by (cases "i = stop") (auto simp: batch_stop.simps [of safe stop end_id])
  next
    case False
    with "1.prems" show ?thesis by (subst (asm) batch_stop.simps) auto
  qed
qed

lemma batch_stop_maximal: "batch_stop safe stop end_id < end_id \<Longrightarrow> batch_stop safe stop end_id \<notin> safe"
proof (induction safe stop end_id rule: batch_stop.induct)
  case (1 safe stop end_id)
  then show ?case
    by (cases "stop < end_id \<and> stop \<in> safe") (auto simp: batch_stop.simps [of safe stop end_id])
qed

text \<open>The next batch of a range, in one place: its end, and what it is made of.\<close>

definition next_stop :: "nat set \<Rightarrow> nat \<Rightarrow> nat \<Rightarrow> nat" where
  "next_stop safe first end_id = (if first \<in> safe then batch_stop safe (Suc first) end_id else Suc first)"

lemma split_range_step:
  "first < end_id \<Longrightarrow> split_range safe first end_id =
     (first, next_stop safe first end_id - first) # split_range safe (next_stop safe first end_id) end_id"
  by (subst split_range.simps) (simp add: next_stop_def Let_def)

lemma split_range_done: "\<not> first < end_id \<Longrightarrow> split_range safe first end_id = []"
  by (subst split_range.simps) simp

lemma next_stop_bounds: "first < end_id \<Longrightarrow> first < next_stop safe first end_id \<and> next_stop safe first end_id \<le> end_id"
  using batch_stop_ge [of "Suc first" safe end_id] batch_stop_le [of "Suc first" end_id safe]
  by (auto simp: next_stop_def)

lemma next_stop_safe:
  "first \<le> i \<Longrightarrow> i < next_stop safe first end_id \<Longrightarrow> next_stop safe first end_id \<noteq> Suc first \<Longrightarrow> i \<in> safe"
  using batch_stop_safe [of "Suc first" i safe end_id] by (cases "i = first") (auto simp: next_stop_def split: if_splits)

definition ids_of :: "nat \<times> nat \<Rightarrow> nat list" where
  "ids_of = (\<lambda>(first, count). [first..<first + count])"

definition serial_or_safe :: "nat set \<Rightarrow> nat \<times> nat \<Rightarrow> bool" where
  "serial_or_safe safe b \<longleftrightarrow> snd b = 1 \<or> set (ids_of b) \<subseteq> safe"

text \<open>Of two neighbouring batches one is a single unsafe pass.\<close>

definition separated :: "nat set \<Rightarrow> nat \<times> nat \<Rightarrow> nat \<times> nat \<Rightarrow> bool" where
  "separated safe a b \<longleftrightarrow> fst a \<notin> safe \<or> fst b \<notin> safe"

lemma split_range_ids: "concat (map ids_of (split_range safe first end_id)) = [first..<end_id]"
proof (induction "end_id - first" arbitrary: first rule: less_induct)
  case less
  show ?case
  proof (cases "first < end_id")
    case True
    from next_stop_bounds [OF True, of safe] have b: "first < next_stop safe first end_id" "next_stop safe first end_id \<le> end_id"
      by auto
    with less True show ?thesis
      using upt_add_eq_append [of first "next_stop safe first end_id" "end_id - next_stop safe first end_id"]
      by (simp add: split_range_step ids_of_def)
  qed (simp add: split_range_done)
qed

lemma split_range_safe: "list_all (serial_or_safe safe) (split_range safe first end_id)"
proof (induction "end_id - first" arbitrary: first rule: less_induct)
  case less
  show ?case
  proof (cases "first < end_id")
    case True
    from next_stop_bounds [OF True, of safe] have b: "first < next_stop safe first end_id" "next_stop safe first end_id \<le> end_id"
      by auto
    have "serial_or_safe safe (first, next_stop safe first end_id - first)"
      using b next_stop_safe [of first _ safe end_id] by (auto simp: serial_or_safe_def ids_of_def)
    with less b True show ?thesis by (simp add: split_range_step)
  qed (simp add: split_range_done)
qed

lemma split_range_separated: "successively (separated safe) (split_range safe first end_id)"
proof (induction "end_id - first" arbitrary: first rule: less_induct)
  case less
  show ?case
  proof (cases "first < end_id")
    case True
    let ?s = "next_stop safe first end_id"
    from next_stop_bounds [OF True, of safe] have b: "first < ?s" "?s \<le> end_id" by auto
    with less True have ih: "successively (separated safe) (split_range safe ?s end_id)" by auto
    show ?thesis
    proof (cases "?s < end_id")
      case False
      with True show ?thesis by (simp add: split_range_step split_range_done)
    next
      case s: True
      then have "first \<notin> safe \<or> ?s \<notin> safe"
        using batch_stop_maximal [of safe "Suc first" end_id] by (auto simp: next_stop_def)
      with ih True s show ?thesis by (simp add: split_range_step separated_def)
    qed
  qed (simp add: split_range_done)
qed

text \<open>
  Splitting a generated batch keeps every pass id once and in order; a batch of more than
  one pass has only safe passes, and no two neighbouring batches are both of safe passes.
\<close>

theorem split_parallel_range_exact:
  "concat (map ids_of (split_parallel_range first count safe)) = [first..<first + count] \<and>
   list_all (serial_or_safe safe) (split_parallel_range first count safe) \<and>
   successively (separated safe) (split_parallel_range first count safe)"
  by (simp add: split_parallel_range_def split_range_ids split_range_safe split_range_separated)


section \<open>The planned runs are the maximal ones\<close>

text \<open>A chain of eligible statements, each following the one before.\<close>

definition chain :: "stmt list \<Rightarrow> bool" where
  "chain r \<longleftrightarrow> list_all s_ok r \<and> successively (\<lambda>a b. follows b a) r"

text \<open>A chain that can be extended neither to the left nor to the right.\<close>

definition left_end :: "stmt list \<Rightarrow> stmt list \<Rightarrow> bool" where
  "left_end pre r \<longleftrightarrow> pre = [] \<or> \<not> (s_ok (last pre) \<and> follows (hd r) (last pre))"

definition right_end :: "stmt list \<Rightarrow> stmt list \<Rightarrow> bool" where
  "right_end r post \<longleftrightarrow> post = [] \<or> \<not> follows (hd post) (last r)"

definition maximal_run :: "stmt list \<Rightarrow> stmt list \<Rightarrow> stmt list \<Rightarrow> bool" where
  "maximal_run pre r post \<longleftrightarrow> MIN_RUN \<le> length r \<and> chain r \<and> left_end pre r \<and> right_end r post"

lemma chain_append:
  "chain (a @ b) \<longleftrightarrow> chain a \<and> chain b \<and> (a = [] \<or> b = [] \<or> follows (hd b) (last a))"
  by (auto simp: chain_def successively_append_iff)

lemma maximal_nonempty: "maximal_run pre r post \<Longrightarrow> r \<noteq> []"
  by (auto simp: maximal_run_def MIN_RUN_def)

text \<open>A maximal run that starts inside a chain is the chain.\<close>

lemma maximal_in_chain:
  assumes c: "chain cur" "left_end front cur" "rest = [] \<or> \<not> follows (hd rest) (last cur)"
    and e: "cur @ rest = p2 @ r @ post" and m: "maximal_run (front @ p2) r post" and l: "length p2 < length cur"
  shows "p2 = [] \<and> r = cur \<and> post = rest"
proof -
  have r: "r \<noteq> []" and mr: "chain r" "left_end (front @ p2) r" "right_end r post"
    using m maximal_nonempty by (auto simp: maximal_run_def)
  from append_longer [OF e] l obtain c2 where c2: "cur = p2 @ c2" "r @ post = c2 @ rest" by auto
  with l have "c2 \<noteq> []" by auto
  with c2 have "hd r = hd c2" using r by (metis hd_append2)
  then have p: "p2 = []" using c(1) c2 \<open>c2 \<noteq> []\<close> mr(2) by (auto simp: chain_append left_end_def chain_def [of p2] list_all_iff last_append split: if_splits)
  with c2 have "cur @ rest = r @ post" by simp
  then consider w where "r = cur @ w" "rest = w @ post" "w \<noteq> []" | w where "cur = r @ w" "post = w @ rest" "w \<noteq> []"
    | "r = cur" "post = rest" by (auto simp: append_eq_append_conv2)
  then show ?thesis
  proof cases
    case 1
    with mr(1) c(3) c2 p \<open>c2 \<noteq> []\<close> show ?thesis by (auto simp: chain_append)
  next
    case 2
    with c(1) mr(3) r show ?thesis by (auto simp: chain_append right_end_def)
  qed (use p in simp)
qed

definition runs_from :: "nat \<Rightarrow> stmt list \<Rightarrow> stmt list \<Rightarrow> bool" where
  "runs_from n all_stmts r \<longleftrightarrow> (\<exists>pre post. all_stmts = pre @ r @ post \<and> maximal_run pre r post \<and> n \<le> length pre)"

lemma runs_from_mono: "runs_from n xs r \<Longrightarrow> m \<le> n \<Longrightarrow> runs_from m xs r"
  unfolding runs_from_def by (blast intro: le_trans)

definition grouping :: "stmt list \<Rightarrow> stmt list \<Rightarrow> bool" where
  "grouping front cur \<longleftrightarrow> chain cur \<and> (if cur = [] then front = [] \<or> \<not> s_ok (last front) else left_end front cur)"

lemma runs_from_cur:
  assumes g: "grouping front cur" and f: "rest = [] \<or> cur = [] \<or> \<not> follows (hd rest) (last cur)"
  shows "runs_from (length front) (front @ cur @ rest) r \<longleftrightarrow>
    r \<in> set (keep_run cur) \<or> runs_from (length (front @ cur)) (front @ cur @ rest) r"
    (is "?L \<longleftrightarrow> ?K \<or> ?R")
proof
  assume ?L
  then obtain pre post where e: "front @ cur @ rest = pre @ r @ post" "maximal_run pre r post" "length front \<le> length pre"
    by (auto simp: runs_from_def)
  show "?K \<or> ?R"
  proof (cases "length (front @ cur) \<le> length pre")
    case True
    with e show ?thesis by (auto simp: runs_from_def)
  next
    case False
    from append_longer [OF sym [OF e(1)] e(3)] obtain p2 where p2: "pre = front @ p2" "cur @ rest = p2 @ r @ post"
      by auto
    with False have "cur \<noteq> []" "length p2 < length cur" by auto
    with maximal_in_chain [of cur front rest p2 r post] g f e p2 have "r = cur" by (auto simp: grouping_def)
    with e show ?thesis by (auto simp: keep_run_def maximal_run_def)
  qed
next
  assume "?K \<or> ?R"
  then show ?L
  proof
    assume ?K
    then have k: "r = cur" "MIN_RUN \<le> length cur" by (auto simp: keep_run_def split: if_splits)
    then have "cur \<noteq> []" by (auto simp: MIN_RUN_def)
    with g f k have "maximal_run front cur rest" by (auto simp: grouping_def maximal_run_def right_end_def)
    with k show ?L by (auto simp: runs_from_def)
  next
    assume ?R
    then show ?L by (rule runs_from_mono) simp
  qed
qed

lemma runs_from_bad:
  assumes "\<not> s_ok s"
  shows "runs_from (length front) (front @ s # rest) r \<longleftrightarrow> runs_from (Suc (length front)) (front @ s # rest) r"
proof -
  have "length pre \<noteq> length front" if e: "front @ s # rest = pre @ r @ post" "maximal_run pre r post" for pre post
  proof
    assume "length pre = length front"
    with e(1) have "s # rest = r @ post" by simp
    with maximal_nonempty [OF e(2)] have "s \<in> set r" by (cases r) auto
    with e(2) assms show False by (auto simp: maximal_run_def chain_def list_all_iff)
  qed
  then show ?thesis by (fastforce simp: runs_from_def)
qed

lemma group_runs_from:
  "grouping front cur \<Longrightarrow> r \<in> set (group_runs cur rest) \<longleftrightarrow> runs_from (length front) (front @ cur @ rest) r"
proof (induction cur rest arbitrary: front rule: group_runs.induct)
  case (1 cur)
  have "\<not> runs_from (length (front @ cur)) (front @ cur @ []) r"
    by (auto simp: runs_from_def maximal_run_def MIN_RUN_def dest!: arg_cong [where f = length])
  with runs_from_cur [OF 1, of "[]" r] show ?case by simp
next
  case (2 cur s rest)
  show ?case
  proof (cases "cur \<noteq> [] \<and> follows s (last cur)")
    case True
    then have "s_ok s" by (simp add: follows_def)
    with True "2.prems" have "grouping front (cur @ [s])"
      by (auto simp: grouping_def chain_append left_end_def) (auto simp: chain_def)
    from "2.IH"(1) [OF True this] True show ?thesis by simp
  next
    case False
    then have g: "group_runs cur (s # rest) = keep_run cur @ group_runs (if s_ok s then [s] else []) rest"
      unfolding group_runs.simps by (rule if_not_P)
    from False runs_from_cur [OF "2.prems", of "s # rest" r]
    have c: "runs_from (length front) (front @ cur @ s # rest) r \<longleftrightarrow>
      r \<in> set (keep_run cur) \<or> runs_from (length (front @ cur)) ((front @ cur) @ s # rest) r" by auto
    show ?thesis
    proof (cases "s_ok s")
      case True
      have "\<not> (s_ok (last (front @ cur)) \<and> follows s (last (front @ cur)))" if "front @ cur \<noteq> []"
        using that False "2.prems" by (cases "cur = []") (auto simp: grouping_def)
      then have "grouping (front @ cur) [s]" using True by (auto simp: grouping_def chain_def left_end_def)
      from "2.IH"(2) [OF False, of "front @ cur"] this c True show ?thesis unfolding g by simp
    next
      case bad: False
      then have "grouping (front @ cur @ [s]) []" by (auto simp: grouping_def chain_def)
      from "2.IH"(2) [OF False, of "front @ cur @ [s]"] this c bad runs_from_bad [OF bad, of "front @ cur" rest r]
      show ?thesis unfolding g by simp
    qed
  qed
qed

text \<open>
  C8. The runs the planner turns into concurrent batches are exactly the maximal runs of at
  least two consecutive eligible statements of the pipeline, and every statement of a run
  calls an append-only pass and is followed by its timer.
\<close>

theorem plan_runs_exact:
  assumes "plan_runs info api = Inr (pl, stmts, runs)"
  shows "(r \<in> set runs \<longleftrightarrow> (\<exists>pre post. stmts = pre @ r @ post \<and> maximal_run pre r post)) \<and>
    list_all (\<lambda>s. s_ok s = (append_only info (s_name s) \<and> s_timer s
       \<and> eligible_args (s_args s) (s_cond s) (pipeline_flags pl))) stmts"
proof
  from assms have runs: "runs = group_runs [] stmts" and stmts: "stmts = pipeline_stmts info pl"
    by (auto simp: plan_runs_def rmap_def rbind_Inr_conv Let_def)
  have "grouping [] []" by (simp add: grouping_def chain_def)
  from group_runs_from [OF this, of r stmts] runs
  show "r \<in> set runs \<longleftrightarrow> (\<exists>pre post. stmts = pre @ r @ post \<and> maximal_run pre r post)"
    by (simp add: runs_from_def)
  show "list_all (\<lambda>s. s_ok s = (append_only info (s_name s) \<and> s_timer s
       \<and> eligible_args (s_args s) (s_cond s) (pipeline_flags pl))) stmts"
    unfolding stmts by (auto simp: pipeline_stmts_def List.map_filter_def make_stmt_def list_all_iff Let_def)
qed


definition demo_info :: info where
  "demo_info = [(''check_a'', \<lparr>fi_writes = [], fi_reads = False, fi_calls = [''helper'']\<rparr>),
     (''check_b'', \<lparr>fi_writes = [], fi_reads = False, fi_calls = []\<rparr>),
     (''check_c'', \<lparr>fi_writes = [''types''], fi_reads = False, fi_calls = []\<rparr>),
     (''helper'', \<lparr>fi_writes = [], fi_reads = False, fi_calls = [''check_a'']\<rparr>)]"

definition demo_api :: string where
  "demo_api = join nl [''def check_full_into_pipeline(file: File, table: T, strict: bool) -> T:'',
     ''    table <- check_a(file, table)'', ''    PhaseTimer::minor('' @ [CHR 0x22] @ ''a'' @ [CHR 0x22] @ '')'',
     ''    table <- check_b(file, table) if strict'', ''    PhaseTimer::minor('' @ [CHR 0x22] @ ''b'' @ [CHR 0x22] @ '')'',
     ''    table <- check_c(file, table)'', ''    return table'']"

definition plan_names :: "(pipeline \<times> stmt list \<times> stmt list list) result \<Rightarrow> string list list" where
  "plan_names r = (case r of Inl _ \<Rightarrow> [] | Inr (_, _, runs) \<Rightarrow> map (map s_name) runs)"

lemma demo_plan: "plan_names (plan_runs demo_info demo_api) = [[''check_a'', ''check_b'']]"
  by code_simp

text \<open>On a small pipeline the plan has one run, and it is a maximal one.\<close>

theorem plan_runs_exact_witness:
  "plan_names (plan_runs demo_info demo_api) = [[''check_a'', ''check_b'']] \<and>
   (\<exists>pl stmts r pre post. plan_runs demo_info demo_api = Inr (pl, stmts, [r]) \<and> stmts = pre @ r @ post \<and> maximal_run pre r post)"
proof -
  from demo_plan obtain pl stmts r where e: "plan_runs demo_info demo_api = Inr (pl, stmts, [r])"
    by (auto simp: plan_names_def split: sum.splits prod.splits)
  from plan_runs_exact [OF e, of r] obtain pre post where "stmts = pre @ r @ post" "maximal_run pre r post"
    by auto
  with e demo_plan show ?thesis by blast
qed

section \<open>The generated whitelist\<close>

text \<open>
  What the generated function does when it is run on a pass id: each line returns true under
  its condition, and the last one returns false.
\<close>

fun eval_cond :: "string list \<Rightarrow> nat \<Rightarrow> bool option" where
  "eval_cond [v, p, n] i =
     (if v \<noteq> ''pass_id'' then None else case digit_run 10 False 0 n of
        None \<Rightarrow> None
      | Some k \<Rightarrow> if p = ''=='' then Some (i = k) else if p = ''<='' then Some (i \<le> k)
          else if p = ''>='' then Some (k \<le> i) else None)"
| "eval_cond (v # p # n # c # rest) i =
     (if c \<noteq> ''and'' then None else case (eval_cond [v, p, n] i, eval_cond rest i) of
        (Some a, Some b) \<Rightarrow> Some (a \<and> b) | _ \<Rightarrow> None)"
| "eval_cond _ i = None"

definition gate_step :: "string list \<Rightarrow> nat \<Rightarrow> bool option \<Rightarrow> bool option" where
  "gate_step words i later =
     (if words = [''return'', ''false''] then Some False
      else if take 3 words = [''return'', ''true'', ''if'']
      then (case eval_cond (drop 3 words) i of None \<Rightarrow> None | Some True \<Rightarrow> Some True | Some False \<Rightarrow> later)
      else None)"

fun gate_exec :: "string list \<Rightarrow> nat \<Rightarrow> bool option" where
  "gate_exec [] i = None"
| "gate_exec (line # lines) i = gate_step (split_on (CHR '' '') (lstrip line)) i (gate_exec lines i)"

text \<open>The body of the function: the lines between its header and the end marker.\<close>

definition gate_function :: "string \<Rightarrow> string list" where
  "gate_function source = butlast (drop 2 (split_on (CHR 0x0A) source))"

text \<open>The ranges cover the ids, each with a gap before the next.\<close>

definition in_ranges :: "(nat \<times> nat) list \<Rightarrow> nat \<Rightarrow> bool" where
  "in_ranges rs i \<longleftrightarrow> list_ex (\<lambda>(a, b). a \<le> i \<and> i \<le> b) rs"

lemma in_ranges_add:
  assumes "list_all (\<lambda>(a, b). a \<le> b) rs"
  shows "in_ranges (add_id rs j) i \<longleftrightarrow> in_ranges rs i \<or> i = j"
    and "list_all (\<lambda>(a, b). a \<le> b) (add_id rs j)"
  using assms by (cases rs rule: rev_cases; auto simp: add_id_def in_ranges_def)+

lemma in_ranges_fold:
  "list_all (\<lambda>(a, b). a \<le> b) rs \<Longrightarrow> in_ranges (foldl add_id rs js) i \<longleftrightarrow> in_ranges rs i \<or> i \<in> set js"
  by (induction js arbitrary: rs) (auto simp: in_ranges_add)

lemma in_gate_ranges: "in_ranges (gate_ranges ids) i \<longleftrightarrow> i \<in> set ids"
  by (simp add: gate_ranges_def in_ranges_fold in_ranges_def [of "[]"])

lemma show_nat_free: "\<not> is_digit c \<Longrightarrow> c \<notin> set (show_nat n)"
  using show_base_digits [of n] by (auto simp: show_nat_def list_all_iff)

lemma show_nat_no_space [simp]: "CHR '' '' \<notin> set (show_nat n)" "CHR 0x0A \<notin> set (show_nat n)" "CHR ''#'' \<notin> set (show_nat n)"
  by (rule show_nat_free, simp add: is_digit_def)+

lemma digit_run_show_nat [simp]: "digit_run 10 False 0 (show_nat n) = Some n"
  by (simp add: show_nat_def digit_run_show_base)

lemma split_on_Cons: "c \<noteq> d \<Longrightarrow> split_on d (c # s) = (c # hd (split_on d s)) # tl (split_on d s)"
  by (cases "split_on d s") auto

lemma gate_line_words:
  "split_on (CHR '' '') (lstrip (gate_return (a, b))) = ''return'' # ''true'' # ''if'' #
     (if a = b then [''pass_id'', ''=='', show_nat a]
      else if a = 0 then [''pass_id'', ''<='', show_nat b]
      else [''pass_id'', ''>='', show_nat a, ''and'', ''pass_id'', ''<='', show_nat b])"
  by (simp add: gate_return_def lstrip_def is_space_def gate_condition_def split_on_id split_on_append)

lemma gate_line_eval:
  "a \<le> b \<Longrightarrow> gate_step (split_on (CHR '' '') (lstrip (gate_return (a, b)))) i later =
     (if a \<le> i \<and> i \<le> b then Some True else later)"
  unfolding gate_line_words by (auto simp: gate_step_def numeral_3_eq_3)


lemma gate_exec_ranges:
  "list_all (\<lambda>(a, b). a \<le> b) rs \<Longrightarrow>
     gate_exec (map gate_return rs @ [''            return false'']) i =
       Some (in_ranges rs i)"
proof (induction rs)
  case Nil
  have "split_on (CHR '' '') (lstrip ''            return false'') = [''return'', ''false'']"
    by (simp add: lstrip_def is_space_def)
  then show ?case by (simp add: gate_step_def in_ranges_def)
next
  case (Cons r rs)
  then show ?case by (cases r) (auto simp: gate_line_eval in_ranges_def)
qed

lemma ranges_ordered: "list_all (\<lambda>(a, b). a \<le> b) rs \<Longrightarrow> list_all (\<lambda>(a, b). a \<le> b) (foldl add_id rs js)"
  by (induction js arbitrary: rs) (auto simp: in_ranges_add)

definition gate_lines :: "nat list \<Rightarrow> string list" where
  "gate_lines ids = ''        def par_pass_is_append_only(pass_id: u32) -> bool:''
     # map gate_return (gate_ranges ids) @ [''            return false'']"

lemma gate_source_lines: "parallel_safety_gate_source ids = join nl (GATE_BEGIN # gate_lines ids @ [GATE_END])"
  by (simp add: parallel_safety_gate_source_def gate_lines_def)

lemma gate_condition_free: "c = CHR 0x0A \<or> c = CHR ''#'' \<Longrightarrow> c \<notin> set (gate_condition r)"
  by (cases r) (auto simp: gate_condition_def)

lemma gate_lines_free: "line \<in> set (gate_lines ids) \<Longrightarrow> c = CHR 0x0A \<or> c = CHR ''#'' \<Longrightarrow> c \<notin> set line"
  using gate_condition_free [of c] by (auto simp: gate_lines_def gate_return_def)

lemma gate_split: "split_on (CHR 0x0A) (parallel_safety_gate_source ids) = GATE_BEGIN # gate_lines ids @ [GATE_END]"
proof -
  have "list_all (\<lambda>x. CHR 0x0A \<notin> set x) (GATE_BEGIN # gate_lines ids @ [GATE_END])"
    using gate_lines_free [of _ ids "CHR 0x0A"] by (auto simp: list_all_iff GATE_BEGIN_def GATE_END_def)
  from split_on_join [OF _ this] show ?thesis by (simp add: gate_source_lines nl_def)
qed

lemma gate_exec_gate:
  "gate_exec (gate_function (parallel_safety_gate_source ids)) i = Some (i \<in> set ids)"
proof -
  have "gate_function (parallel_safety_gate_source ids) =
      map gate_return (gate_ranges ids) @ [''            return false'']"
    by (simp add: gate_function_def gate_split gate_lines_def butlast_append numeral_2_eq_2)
  moreover have "list_all (\<lambda>(a, b). a \<le> b) (gate_ranges ids)" by (simp add: gate_ranges_def ranges_ordered)
  ultimately show ?thesis by (simp only: gate_exec_ranges in_gate_ranges)
qed

text \<open>
  C9. The generated whitelist function, run on any pass id, returns true exactly for the ids
  the audit found safe.
\<close>

theorem gate_accepts_safe_ids:
  "gate_exec (gate_function (parallel_safety_gate_source ids)) i = Some (i \<in> set ids)"
  by (rule gate_exec_gate)

section \<open>Refreshing the whitelist\<close>

text \<open>The places a text occurs in another.\<close>

definition occ :: "string \<Rightarrow> string \<Rightarrow> nat \<Rightarrow> bool" where
  "occ p s i \<longleftrightarrow> (\<exists>a b. s = a @ p @ b \<and> length a = i)"

lemma occ_Cons: "occ p (c # s) (Suc i) \<longleftrightarrow> occ p s i"
proof
  assume "occ p (c # s) (Suc i)"
  then obtain a b where "c # s = a @ p @ b" "length a = Suc i" by (auto simp: occ_def)
  then show "occ p s i" unfolding occ_def by (cases a) auto
next
  assume "occ p s i"
  then obtain a b where "s = a @ p @ b" "length a = i" by (auto simp: occ_def)
  then show "occ p (c # s) (Suc i)" unfolding occ_def by (intro exI [of _ "c # a"] exI [of _ b]) simp
qed

lemma occ_0: "occ p s 0 \<longleftrightarrow> starts_with p s"
  by (auto simp: occ_def starts_with_iff)

lemma find_sub_Some: "find_sub p s = Some i \<longleftrightarrow> occ p s i \<and> (\<forall>j < i. \<not> occ p s j)"
proof (induction s arbitrary: i)
  case Nil
  then show ?case by (auto simp: occ_def)
next
  case (Cons c s)
  show ?case
  proof (cases "starts_with p (c # s)")
    case True
    then have "occ p (c # s) 0" by (simp add: occ_0)
    with True show ?thesis by (cases i) (auto simp del: starts_with_Cons)
  next
    case False
    then have "\<not> occ p (c # s) 0" by (simp add: occ_0)
    with False Cons show ?thesis
      by (cases i) (auto simp: occ_Cons All_less_Suc2 simp del: starts_with_Cons)
  qed
qed

lemma find_sub_None: "find_sub p s = None \<longleftrightarrow> (\<forall>j. \<not> occ p s j)"
proof (induction s)
  case (Cons c s)
  have "(\<forall>j. \<not> occ p (c # s) j) \<longleftrightarrow> \<not> starts_with p (c # s) \<and> (\<forall>j. \<not> occ p s j)"
    by (metis occ_0 occ_Cons not0_implies_Suc)
  with Cons show ?case by (simp del: starts_with_Cons)
qed (auto simp: occ_def)

lemma occ_prefix: "occ p s i \<Longrightarrow> occ p (s @ t) i"
  unfolding occ_def by (metis append_assoc)

lemma occ_suffix: "occ p s i \<Longrightarrow> occ p (t @ s) (length t + i)"
proof -
  assume "occ p s i"
  then obtain a b where "s = a @ p @ b" "length a = i" by (auto simp: occ_def)
  then show ?thesis unfolding occ_def by (intro exI [of _ "t @ a"] exI [of _ b]) simp
qed

text \<open>An occurrence of a pattern without a character lies on one side of it.\<close>

lemma occ_split:
  assumes "occ p (s @ d # t) i" and "d \<notin> set p" "p \<noteq> []"
  shows "occ p s i \<or> (length s < i \<and> occ p t (i - Suc (length s)))"
proof -
  from assms(1) obtain a b where e: "s @ d # t = a @ p @ b" "length a = i" by (auto simp: occ_def)
  show ?thesis
  proof (cases "length (a @ p) \<le> length s")
    case True
    from append_longer [OF _ True, of "d # t" b] e(1) obtain w where "s = a @ p @ w" by auto
    with e(2) show ?thesis by (auto simp: occ_def)
  next
    case False
    show ?thesis
    proof (cases "length s < length a")
      case True
      then have "length (s @ [d]) \<le> length a" by simp
      from append_longer [OF _ this, of "p @ b" t] e(1) obtain w where "a = s @ [d] @ w" "t = w @ p @ b" by auto
      with e(2) show ?thesis by (auto simp: occ_def)
    next
      case False2: False
      then have "(a @ p @ b) ! length s = p ! (length s - length a)" "length s - length a < length p"
        using False by (auto simp: nth_append)
      moreover have "(a @ p @ b) ! length s = d" using e(1) [symmetric] by simp
      ultimately show ?thesis using assms(2) by (metis nth_mem)
    qed
  qed
qed


lemma occ_Cons_iff: "occ p (c # s) j \<longleftrightarrow> (j = 0 \<and> starts_with p (c # s)) \<or> (\<exists>k. j = Suc k \<and> occ p s k)"
  by (cases j) (simp_all add: occ_0 occ_Cons del: starts_with_Cons)

lemma occ_bound: "occ p s i \<Longrightarrow> i + length p \<le> length s"
  by (auto simp: occ_def)

lemma occ_mem: "occ p s i \<Longrightarrow> set p \<subseteq> set s"
  by (auto simp: occ_def)

lemma occ_drop: "occ p (drop n s) i \<Longrightarrow> occ p s (n + i) \<or> length s < n"
  using occ_suffix [of p "drop n s" i "take n s"] by (cases "n \<le> length s") auto

lemma begin_past_end: "occ GATE_BEGIN (GATE_END @ y) j \<Longrightarrow> \<exists>k. occ GATE_BEGIN y k"
  unfolding GATE_BEGIN_def GATE_END_def by (simp add: occ_Cons_iff) blast

lemma end_not_in_begin: "\<not> occ GATE_END GATE_BEGIN j"
  unfolding GATE_BEGIN_def GATE_END_def by (simp add: occ_Cons_iff) (auto simp: occ_def)

lemma marker_chars:
  "CHR 0x0A \<notin> set GATE_BEGIN" "CHR 0x0A \<notin> set GATE_END" "CHR ''#'' \<in> set GATE_BEGIN" "CHR ''#'' \<in> set GATE_END"
  "GATE_BEGIN \<noteq> []" "GATE_END \<noteq> []"
  by (simp_all add: GATE_BEGIN_def GATE_END_def)

text \<open>The generated text: the markers and, between them, lines without a marker.\<close>

definition gate_middle :: "nat list \<Rightarrow> string" where
  "gate_middle ids = join nl (gate_lines ids)"

lemma join_Cons: "xs \<noteq> [] \<Longrightarrow> join d (x # xs) = x @ d @ join d xs"
  by (cases xs) auto

lemma join_snoc: "xs \<noteq> [] \<Longrightarrow> join d (xs @ [y]) = join d xs @ d @ y"
proof (induction xs)
  case (Cons x xs)
  then show ?case by (cases xs) (auto simp: join_Cons)
qed simp

lemma set_join: "set (join d xs) \<subseteq> set d \<union> (\<Union>x \<in> set xs. set x)"
  by (induction d xs rule: join.induct) auto

lemma gate_source_split: "parallel_safety_gate_source ids = GATE_BEGIN @ CHR 0x0A # gate_middle ids @ CHR 0x0A # GATE_END"
proof -
  have "gate_lines ids \<noteq> []" by (simp add: gate_lines_def)
  then show ?thesis by (simp add: gate_source_lines gate_middle_def join_Cons join_snoc nl_def)
qed

lemma gate_middle_free: "CHR ''#'' \<notin> set (gate_middle ids)"
  using set_join [of nl "gate_lines ids"] gate_lines_free [of _ ids "CHR ''#''"] by (auto simp: gate_middle_def nl_def)

text \<open>Where a marker can occur in a text with the generated function in it.\<close>

lemma marker_places:
  assumes "occ p (x @ parallel_safety_gate_source ids @ y) i" and "p = GATE_BEGIN \<or> p = GATE_END"
  shows "occ p (x @ GATE_BEGIN) i \<or>
    (\<exists>j. i = length (x @ GATE_BEGIN) + length (gate_middle ids) + 2 + j \<and> occ p (GATE_END @ y) j)"
proof -
  let ?xb = "x @ GATE_BEGIN"
  have n: "CHR 0x0A \<notin> set p" "p \<noteq> []" "CHR ''#'' \<in> set p" using assms(2) marker_chars by auto
  have "occ p (?xb @ CHR 0x0A # (gate_middle ids @ CHR 0x0A # (GATE_END @ y))) i"
    using assms(1) by (simp add: gate_source_split)
  from occ_split [OF this n(1,2)] show ?thesis
  proof
    assume r: "length ?xb < i \<and> occ p (gate_middle ids @ CHR 0x0A # (GATE_END @ y)) (i - Suc (length ?xb))"
    have "\<not> occ p (gate_middle ids) (i - Suc (length ?xb))"
      using n(3) gate_middle_free occ_mem by blast
    with occ_split [OF conjunct2 [OF r] n(1,2)] r
    have "length (gate_middle ids) < i - Suc (length ?xb)"
      "occ p (GATE_END @ y) (i - Suc (length ?xb) - Suc (length (gate_middle ids)))" by auto
    with r show ?thesis by (intro disjI2 exI [of _ "i - Suc (length ?xb) - Suc (length (gate_middle ids))"]) auto
  qed simp
qed

lemma gate_installed:
  assumes b: "\<And>i. occ GATE_BEGIN (x @ GATE_BEGIN) i \<Longrightarrow> i = length x"
    and e: "\<And>i. \<not> occ GATE_END (x @ GATE_BEGIN) i" and y: "\<And>i. \<not> occ GATE_BEGIN y i"
  shows "parallel_safety_gate_errors (x @ parallel_safety_gate_source ids @ y) ids = []"
proof -
  let ?out = "x @ parallel_safety_gate_source ids @ y"
  let ?z = "length (x @ GATE_BEGIN) + length (gate_middle ids) + 2"
  have only: "i = length x" if "occ GATE_BEGIN ?out i" for i
    using marker_places [OF that] b y begin_past_end by blast
  have at: "occ GATE_BEGIN ?out (length x)" unfolding occ_def by (auto simp: gate_source_split)
  with only have fb: "find_sub GATE_BEGIN ?out = Some (length x)"
    unfolding find_sub_Some using less_irrefl by blast
  have ze: "occ GATE_END ?out ?z" unfolding occ_def
    by (intro exI [of _ "x @ GATE_BEGIN @ CHR 0x0A # gate_middle ids @ [CHR 0x0A]"] exI [of _ y]) (simp add: gate_source_split)
  have "?z \<le> i" if "occ GATE_END ?out i" for i using marker_places [OF that] e by auto
  with ze have fe: "find_sub GATE_END ?out = Some ?z" unfolding find_sub_Some using not_less by blast
  have "\<not> occ GATE_BEGIN (drop (Suc (length x)) ?out) i" for i
    using occ_drop [of GATE_BEGIN "Suc (length x)" ?out i] only by (fastforce simp: gate_source_split)
  then have fn: "find_sub GATE_BEGIN (drop (Suc (length x)) ?out) = None" by (simp add: find_sub_None)
  have "drop (length x) (take (?z + length GATE_END) ?out) = parallel_safety_gate_source ids"
    by (simp add: gate_source_split)
  moreover have "\<not> ?z < length x" by simp
  ultimately show ?thesis using fn unfolding parallel_safety_gate_errors_def fb fe prod.case option.case by simp
qed

lemma marker_prefix_first:
  assumes "find_sub GATE_BEGIN source = Some b" "find_sub GATE_END source = Some e" "b \<le> e"
  shows "occ GATE_BEGIN (take b source @ GATE_BEGIN) i \<Longrightarrow> i = length (take b source)"
    and "\<not> occ GATE_END (take b source @ GATE_BEGIN) i"
proof -
  from assms(1) obtain u v where uv: "source = u @ GATE_BEGIN @ v" "length u = b" and first: "\<And>j. j < b \<Longrightarrow> \<not> occ GATE_BEGIN source j"
    by (auto simp: find_sub_Some occ_def)
  have firste: "\<And>j. j < e \<Longrightarrow> \<not> occ GATE_END source j" using assms(2) by (auto simp: find_sub_Some)
  have t: "take b source = u" using uv by simp
  have up: "occ p source i" if "occ p (u @ GATE_BEGIN) i" for p
    using occ_prefix [OF that, of v] uv by simp
  show "i = length (take b source)" if o: "occ GATE_BEGIN (take b source @ GATE_BEGIN) i"
  proof -
    from up o t first [of i] have "b \<le> i" using not_less by auto
    with occ_bound [OF o] uv t show ?thesis by auto
  qed
  show "\<not> occ GATE_END (take b source @ GATE_BEGIN) i"
  proof
    assume o: "occ GATE_END (take b source @ GATE_BEGIN) i"
    then have "\<not> i < e" using up firste [of i] by (auto simp: t)
    then have "length u \<le> i" using assms(3) uv(2) by simp
    from o t obtain f g where fg: "u @ GATE_BEGIN = f @ GATE_END @ g" "length f = i" by (auto simp: occ_def)
    from append_longer [OF sym [OF fg(1)]] fg(2) \<open>length u \<le> i\<close> obtain w where "GATE_BEGIN = w @ GATE_END @ g" by auto
    then have "occ GATE_END GATE_BEGIN (length w)" by (auto simp: occ_def)
    then show False by (simp add: end_not_in_begin)
  qed
qed

lemma marker_prefix_none:
  assumes "find_sub GATE_BEGIN source = None" "find_sub GATE_END source = None"
  shows "occ GATE_BEGIN ((rstrip source @ nl @ nl) @ GATE_BEGIN) i \<Longrightarrow> i = length (rstrip source @ nl @ nl)"
    and "\<not> occ GATE_END ((rstrip source @ nl @ nl) @ GATE_BEGIN) i"
proof -
  have out: "\<not> occ p (rstrip source) k" if "find_sub p source = None" for p k
    using rstrip_prefix [of source] that occ_prefix [of p "rstrip source" k] by (metis find_sub_None)
  have ne: "\<not> occ GATE_BEGIN [] k" "\<not> occ GATE_END [] k" for k using marker_chars by (auto simp: occ_def)
  have form: "(rstrip source @ nl @ nl) @ GATE_BEGIN = rstrip source @ CHR 0x0A # ([] @ CHR 0x0A # GATE_BEGIN)"
    by (simp add: nl_def)
  show "i = length (rstrip source @ nl @ nl)" if "occ GATE_BEGIN ((rstrip source @ nl @ nl) @ GATE_BEGIN) i"
  proof -
    from occ_split [OF that [unfolded form]] marker_chars out [OF assms(1)]
    have o: "length (rstrip source) < i" "occ GATE_BEGIN ([] @ CHR 0x0A # GATE_BEGIN) (i - Suc (length (rstrip source)))" by auto
    from occ_split [OF o(2)] marker_chars ne
    have "0 < i - Suc (length (rstrip source))" "occ GATE_BEGIN GATE_BEGIN (i - Suc (length (rstrip source)) - 1)" by auto
    with occ_bound [OF this(2)] o(1) show ?thesis by (auto simp: nl_def)
  qed
  show "\<not> occ GATE_END ((rstrip source @ nl @ nl) @ GATE_BEGIN) i"
  proof
    assume o: "occ GATE_END ((rstrip source @ nl @ nl) @ GATE_BEGIN) i"
    from occ_split [OF o [unfolded form]] marker_chars out [OF assms(2)]
    have "occ GATE_END ([] @ CHR 0x0A # GATE_BEGIN) (i - Suc (length (rstrip source)))" by auto
    from occ_split [OF this] marker_chars ne end_not_in_begin show False by blast
  qed
qed

lemma refresh_clean:
  assumes "refresh_parallel_safety_gate source ids = Inr out"
  shows "parallel_safety_gate_errors out ids = []"
proof (cases "find_sub GATE_BEGIN source")
  case None
  with assms have none: "find_sub GATE_END source = None"
    and out: "out = (rstrip source @ nl @ nl) @ parallel_safety_gate_source ids @ nl"
    by (auto simp: refresh_parallel_safety_gate_def Let_def split: option.splits)
  have "\<not> occ GATE_BEGIN nl i" for i using occ_mem marker_chars(3) by (fastforce simp: nl_def)
  with marker_prefix_none [OF None none] show ?thesis unfolding out by (intro gate_installed) auto
next
  case (Some b)
  with assms obtain e where e: "find_sub GATE_END source = Some e" "b \<le> e"
    and once: "find_sub GATE_BEGIN (drop (Suc b) source) = None"
    and out: "out = take b source @ parallel_safety_gate_source ids @ drop (e + length GATE_END) source"
    by (auto simp: refresh_parallel_safety_gate_def Let_def split: option.splits if_splits)
  have "\<not> occ GATE_BEGIN (drop (e + length GATE_END) source) i" for i
  proof
    assume o: "occ GATE_BEGIN (drop (e + length GATE_END) source) i"
    obtain k where k: "e + length GATE_END = k + Suc b"
      using e(2) marker_chars(6) by (metis Nat.add_diff_assoc2 Suc_leI add.commute le_add_diff_inverse less_add_same_cancel1 length_greater_0_conv order_le_less_trans)
    from o have o1: "occ GATE_BEGIN (drop k (drop (Suc b) source)) i" by (simp add: k)
    then have "drop k (drop (Suc b) source) \<noteq> []" using marker_chars(5) by (auto simp: occ_def)
    with occ_drop [OF o1] have "occ GATE_BEGIN (drop (Suc b) source) (k + i)" by auto
    with once show False by (simp add: find_sub_None)
  qed
  with marker_prefix_first [OF Some e] show ?thesis unfolding out by (intro gate_installed) auto
qed


text \<open>
  C10. Whenever refreshing the whitelist of a dispatcher succeeds, whatever else the file
  holds, the check of the result finds no error: the installed function is the one of the
  audited ids.
\<close>

theorem refresh_then_check:
  assumes "refresh_parallel_safety_gate source ids = Inr out"
  shows "parallel_safety_gate_errors out ids = []"
  by (rule refresh_clean [OF assms])

definition demo_refreshed :: string where
  "demo_refreshed = ''module passes'' @ nl @ nl @ parallel_safety_gate_source [2, 0, 1] @ nl"

text \<open>Appending the whitelist to a file without one.\<close>

theorem refresh_then_check_witness:
  "refresh_parallel_safety_gate ''module passes'' [2, 0, 1] = Inr demo_refreshed \<and>
   parallel_safety_gate_errors demo_refreshed [2, 0, 1] = []"
proof -
  have "refresh_parallel_safety_gate ''module passes'' [2, 0, 1] = Inr demo_refreshed" by code_simp
  with refresh_then_check [OF this] show ?thesis by simp
qed

end
