(* ===== verification/ParDispatch.thy ===== *)
theory ParDispatch
  imports ParPlan
begin

text \<open>
  The dispatcher side of \<open>scripts/semantic_parallel_gen.py\<close>: reading the generated pass
  dispatcher back, the structural checks of the runtime sources, the in-place refreshes, the
  source text of a new dispatcher, and the audit that ties pipeline, dispatcher and whitelist
  together. A search for a fixed text is written as a substring test.
\<close>

section \<open>Indented blocks\<close>

text \<open>The first line after a header that is code and not indented deeper ends its block.\<close>

definition is_comment_line :: "string \<Rightarrow> bool" where
  "is_comment_line line \<longleftrightarrow> starts_with ''#'' (lstrip line)"

definition block_stop :: "nat \<Rightarrow> string \<Rightarrow> bool" where
  "block_stop indent line \<longleftrightarrow> strip line \<noteq> [] \<and> \<not> is_comment_line line \<and> indent_of line \<le> indent"

definition block_end :: "string list \<Rightarrow> nat \<Rightarrow> nat" where
  "block_end lines i = Suc i + length (takeWhile (\<lambda>l. \<not> block_stop (indent_of (lines ! i)) l) (drop (Suc i) lines))"

definition code_of :: "string \<Rightarrow> string" where
  "code_of line = strip (strip_comments line)"

section \<open>The dispatcher\<close>

record dispatch_rec =
  d_id :: nat
  d_name :: string
  d_args :: string
  d_cond :: "string option"
  d_suffix :: string
  d_scope :: string

record arm =
  a_line :: nat
  a_indent :: nat
  a_kind :: string
  a_id :: nat

definition Bracketed :: rx where
  "Bracketed = Opt (Seqs [Chr (CHR ''[''), Plus (Cls (\<lambda>c. c \<noteq> CHR '']'' \<and> c \<noteq> CHR 0x0A)), Chr (CHR '']'')])"

definition CALL_DEF_RE :: rx where
  "CALL_DEF_RE = Seqs [Bol, Blanks, Lit ''def '', Grp 1 (Seq (Lit ''par_pass_call'') (Opt (Seq (Lit ''_chunk_'') (Grp 2 Digits)))),
     Bracketed, Chr (CHR ''('')]"

definition PAR_PASS_ARM_RE :: rx where
  "PAR_PASS_ARM_RE = Seqs [Bol, Grp 1 Blanks, Grp 2 (Alt (Lit ''if'') (Lit ''elif'')), Lit '' pass_id == '', Grp 3 Digits,
     Chr (CHR '':''), Blanks, Eol]"

definition PAR_PASS_ARM_ANY_RE :: rx where
  "PAR_PASS_ARM_ANY_RE = Seqs [WordB, Lit ''pass_id'', Spaces0, Lit ''=='']"

definition SCOPE_RE :: rx where
  "SCOPE_RE = Seqs [Lit ''can'', WordB, Many Dot, Chr (CHR '':'')]"

definition TABLE_CALL_RE :: rx where
  "TABLE_CALL_RE = Seqs [Bol, Blanks, Lit ''table <- '', Plus (Cls is_word), Chr (CHR ''('')]"

definition PASSES_FILE :: string where
  "PASSES_FILE = ''semantic_parallel_passes.elisa''"

definition at_line :: "nat \<Rightarrow> string \<Rightarrow> string" where
  "at_line i msg = PASSES_FILE @ '':'' @ show_nat (Suc i) @ '': '' @ msg"

fun dispatch_arms :: "string list \<Rightarrow> nat list \<Rightarrow> arm list \<times> string list" where
  "dispatch_arms lines [] = ([], [])"
| "dispatch_arms lines (i # is) = (case dispatch_arms lines is of (arms, errs) \<Rightarrow>
     if re_search PAR_PASS_ARM_ANY_RE (code_of (lines ! i)) = None then (arms, errs)
     else (case re_fullmatch PAR_PASS_ARM_RE (lines ! i) of
         None \<Rightarrow> (arms, at_line i ''malformed pass_id arm'' # errs)
       | Some m \<Rightarrow> (\<lparr>a_line = i, a_indent = length (group_or m 1 []), a_kind = group_or m 2 [], a_id = group_nat m 3\<rparr> # arms,
           errs)))"

text \<open>The code lines of an arm, with their index and indentation.\<close>

definition arm_body :: "string list \<Rightarrow> nat \<Rightarrow> nat \<Rightarrow> (nat \<times> nat \<times> string) list" where
  "arm_body lines i stop = map (\<lambda>k. (k, indent_of (lines ! k), code_of (lines ! k)))
     (filter (\<lambda>k. code_of (lines ! k) \<noteq> []) [Suc i..<stop])"

text \<open>The statement of an arm: its line, its text and the effect scope around it.\<close>

definition arm_statement :: "nat \<Rightarrow> (nat \<times> nat \<times> string) list \<Rightarrow> (nat \<times> string \<times> string) option" where
  "arm_statement indent body = (case body of
     [(k, ind, src)] \<Rightarrow> if indent < ind then Some (k, src, []) else None
   | [(k0, ind0, code0), (k1, ind1, code1)] \<Rightarrow>
       if indent < ind0 \<and> re_fullmatch SCOPE_RE code0 \<noteq> None \<and> ind0 < ind1
       then Some (k1, code1, strip (butlast code0)) else None
   | _ \<Rightarrow> None)"

definition expected_kind :: "arm list \<Rightarrow> nat \<Rightarrow> string" where
  "expected_kind arms k = (if k = 0 \<or> length arms < 2 then ''if'' else a_kind (arms ! 1))"

definition arm_result :: "string list \<Rightarrow> arm list \<Rightarrow> nat \<Rightarrow> nat \<Rightarrow> string list \<times> dispatch_rec list" where
  "arm_result lines arms end_line k = (let a = arms ! k;
       kind_errors = (if a_kind a \<noteq> expected_kind arms k
         then [at_line (a_line a) (''expected '' @ expected_kind arms k @ '' for pass_id '' @ show_nat (a_id a))] else []);
       stop = (if Suc k < length arms then a_line (arms ! Suc k) else end_line)
     in case arm_statement (a_indent a) (arm_body lines (a_line a) stop) of
          None \<Rightarrow> (kind_errors @ [at_line (a_line a) (''pass_id '' @ show_nat (a_id a) @ '' must have exactly one body statement'')], [])
        | Some (k1, statement, scope) \<Rightarrow>
            (case parse_table_call_statement statement of
               None \<Rightarrow> (kind_errors @ [at_line k1 (''unrecognized dispatcher call for pass_id '' @ show_nat (a_id a))], [])
             | Some tc \<Rightarrow> (kind_errors, [\<lparr>d_id = a_id a, d_name = tc_name tc, d_args = tc_args tc, d_cond = tc_cond tc,
                   d_suffix = tc_suffix tc, d_scope = scope\<rparr>])))"

definition dispatch_function :: "string list \<Rightarrow> nat \<Rightarrow> dispatch_rec list \<times> string list" where
  "dispatch_function lines i = (let end_line = block_end lines i in
     case dispatch_arms lines [Suc i..<end_line] of (arms, malformed) \<Rightarrow>
     if arms = [] then ([], malformed)
     else (let results = map (arm_result lines arms end_line) [0..<length arms];
               records = concat (map snd results);
               table_calls = filter (\<lambda>k. re_match TABLE_CALL_RE (strip_comments (lines ! k)) \<noteq> None) [i..<end_line]
           in (records, malformed @ concat (map fst results) @
                (if length table_calls \<noteq> length records
                 then [PASSES_FILE @ '': dispatcher table calls do not map one-to-one to pass_id arms''] else []))))"

definition dispatch_defs :: "string list \<Rightarrow> nat list" where
  "dispatch_defs lines = filter (\<lambda>i. re_match CALL_DEF_RE (lines ! i) \<noteq> None) [0..<length lines]"

definition parse_parallel_dispatch :: "string \<Rightarrow> dispatch_rec list \<times> string list" where
  "parse_parallel_dispatch source = (let lines = splitlines source; defs = dispatch_defs lines in
     if defs = [] then ([], [PASSES_FILE @ '': missing par_pass_call dispatcher''])
     else (let fs = map (dispatch_function lines) defs in (concat (map fst fs), concat (map snd fs))))"

section \<open>The serial path of the runtime\<close>

definition find_line :: "rx \<Rightarrow> string list \<Rightarrow> nat \<Rightarrow> nat option" where
  "find_line r body after = index_where (\<lambda>l. re_search r l \<noteq> None) after (drop after body)"

definition after_opt :: "nat option \<Rightarrow> nat" where
  "after_opt x = (case x of None \<Rightarrow> 0 | Some i \<Rightarrow> Suc i)"

definition next_code_line :: "string list \<Rightarrow> nat \<Rightarrow> nat option" where
  "next_code_line body i = index_where (\<lambda>l. strip l \<noteq> [] \<and> \<not> is_comment_line l) (Suc i) (drop (Suc i) body)"

text \<open>The last match before an index.\<close>

definition find_back :: "rx \<Rightarrow> string list \<Rightarrow> nat \<Rightarrow> nat option" where
  "find_back r body i = List.find (\<lambda>k. re_search r (body ! k) \<noteq> None) (rev [0..<i])"

definition RUN_DEF_RE :: rx where
  "RUN_DEF_RE = Seqs [Bol, Blanks, Lit ''def par_pass_run['']"

definition FIRST_OFFSET :: rx where
  "FIRST_OFFSET = Seqs [Lit ''first'', Spaces0, Chr (CHR ''+''), Spaces0, Lit ''offset'']"

definition GATE_RE :: rx where
  "GATE_RE = Seqs [Lit ''if not par_pass_is_append_only('', FIRST_OFFSET, Lit ''):'']"

definition ASSIGN_RE :: rx where
  "ASSIGN_RE = Seqs [Lit ''unsafe_pass'', Spaces0, Lit ''<-'', Spaces0, Lit ''true'']"

definition SERIAL_CALL_RE :: rx where
  "SERIAL_CALL_RE = Seqs [Lit ''table <- par_pass_call[destination]('', FIRST_OFFSET, Lit '', file, &loop_view, flags, table)'']"

definition RETURN_RE :: rx where
  "RETURN_RE = Seqs [Bol, Spaces0, Lit ''return'', Spaces0, Eol]"

definition INIT_RE :: rx where
  "INIT_RE = Seqs [Bol, Spaces0, Lit ''unsafe_pass: mutable'', Spaces1, Lit ''bool = false'', Spaces0, Eol]"

record guard =
  g_init :: nat
  g_loop :: nat
  g_gate :: nat
  g_assign :: nat
  g_serial :: nat
  g_serial_loop :: nat
  g_call :: nat
  g_return :: nat
  g_region :: nat
  g_jobs :: nat
  g_worker :: nat

definition find_guard :: "string list \<Rightarrow> guard option" where
  "find_guard body = (let
       gate = find_line GATE_RE body 0;
       assign = find_line ASSIGN_RE body (after_opt gate);
       gate_loop = Option.bind gate (find_back (Lit ''for offset in 0..<count:'') body);
       serial = find_line (Lit ''if count < 2 or shared_pool.handle == null or unsafe_pass:'') body 0;
       serial_loop = find_line (Lit ''for offset in 0..<count'') body (after_opt serial);
       call = find_line SERIAL_CALL_RE body (after_opt serial_loop);
       ret = find_line RETURN_RE body (after_opt call);
       worker = find_line (Lit ''nursery on(shared_pool):'') body 0;
       region = find_line (Lit ''region par_pass_jobs_region:'') body 0;
       jobs = find_line (Lit ''jobs: mutable darray[ParPassJob] @par_pass_jobs_region = []'') body 0;
       init = find_line INIT_RE body 0
     in if None \<in> set [gate, assign, gate_loop, serial, serial_loop, call, ret, worker, region, jobs, init] then None
        else Some \<lparr>g_init = the init, g_loop = the gate_loop, g_gate = the gate, g_assign = the assign, g_serial = the serial,
          g_serial_loop = the serial_loop, g_call = the call, g_return = the ret, g_region = the region, g_jobs = the jobs,
          g_worker = the worker\<rparr>)"

definition guard_order :: "guard \<Rightarrow> nat list" where
  "guard_order g = [g_init g, g_loop g, g_gate g, g_assign g, g_serial g, g_serial_loop g, g_call g, g_return g, g_region g,
     g_jobs g, g_worker g]"

text \<open>Steps of four spaces below the initialisation, in the order of \<open>guard_order\<close>.\<close>

definition guard_indents :: "nat list" where
  "guard_indents = [0, 0, 4, 8, 0, 4, 8, 4, 0, 4, 4]"

definition guard_errors :: "string list \<Rightarrow> guard \<Rightarrow> string list" where
  "guard_errors body g = (let places = guard_order g; base = indent_of (body ! g_init g) in
     if \<not> sorted_wrt (<) places then [''semantic_parallel.elisa: serial dispatcher must return before worker submission'']
     else if list_ex (\<lambda>(i, d). indent_of (body ! i) \<noteq> base + d) (zip places guard_indents)
     then [''semantic_parallel.elisa: serial gate, loop, and return indentation bypasses the unsafe-pass branch'']
     else if list_ex (\<lambda>(parent, child). next_code_line body parent \<noteq> Some child) (take 9 (zip places (tl places)))
     then [''semantic_parallel.elisa: serial guard statements are not nested under their required parent branches'']
     else [])"

definition run_body :: "string \<Rightarrow> string list option" where
  "run_body source = (let lines = splitlines source in
     map_option (\<lambda>s. drop s (take (block_end lines s) lines)) (index_where (\<lambda>l. re_match RUN_DEF_RE l \<noteq> None) 0 lines))"

definition parallel_runtime_serial_guard_errors :: "string \<Rightarrow> string list" where
  "parallel_runtime_serial_guard_errors source = (case run_body source of
     None \<Rightarrow> [''semantic_parallel.elisa: missing par_pass_run'']
   | Some body \<Rightarrow> (case find_guard body of
       None \<Rightarrow> [''semantic_parallel.elisa: unsafe pass IDs or batch-local job storage are not guarded by the serial dispatcher path'']
     | Some g \<Rightarrow> guard_errors body g))"

section \<open>Table regions and views of the runtime\<close>

definition unless :: "bool \<Rightarrow> string \<Rightarrow> string list" where
  "unless b msg = (if b then [] else [msg])"

definition TABLE_PARAM_RE :: rx where
  "TABLE_PARAM_RE = Seqs [WordB, Lit ''table:'', Blanks, Lit ''mutable SymbolTable&'', Blanks, Chr (CHR ''@''), Plus (Cls is_word), Chr (CHR '','')]"

definition DISPATCH_SIGNATURE :: string where
  "DISPATCH_SIGNATURE = ''def par_pass_call[@table_region](pass_id: u32, file: Ast::File&, loop_view: Ast::File&, flags: ParPassFlags, table: mutable SymbolTable& @table_region) -> void can[Unsafe{PointerArithmetic,PointerCast,RawExtern}]:''"

definition parallel_runtime_lmut_errors :: "string \<Rightarrow> string \<Rightarrow> string list" where
  "parallel_runtime_lmut_errors source passes = (case List.find (\<lambda>l. re_match RUN_DEF_RE l \<noteq> None) (splitlines source) of
     None \<Rightarrow> [''semantic_parallel.elisa: missing par_pass_run'']
   | Some line \<Rightarrow>
       unless (re_search TABLE_PARAM_RE line \<noteq> None) ''semantic_parallel.elisa: par_pass_run must borrow the caller's table descriptor in a named region''
     @ unless (has_sub DISPATCH_SIGNATURE passes) ''semantic_parallel_passes.elisa: dispatcher must tie its table borrow to an explicit named region and preserve its Unsafe effect requirement''
     @ unless (has_sub ''(&frozen_table).cast[mutable void&], table.cast[void&], size_of(SymbolTable)'' source) ''semantic_parallel.elisa: par_pass_run must copy bytes from the borrowed table descriptor''
     @ unless (has_sub ''table <- par_pass_call[destination](first + offset, file, &loop_view, flags, table) can Global{Read,Write}, Unsafe{PointerArithmetic,PointerCast,RawExtern}'' source) ''semantic_parallel.elisa: serial dispatcher must instantiate the caller's table region and grant its required effects''
     @ unless (has_sub ''table <- par_pass_parent_diagnostic[destination](source_bits, table)'' source) ''semantic_parallel.elisa: parent diagnostic splice must instantiate its explicit table region''
     @ unless (has_sub ''table <- par_pass_call(job.pass_id, file, view, job.flags, table) can Global{Read,Write}, Unsafe{PointerArithmetic,PointerCast,RawExtern}'' source) ''semantic_parallel.elisa: worker dispatcher call must explicitly update its local table and grant its required effects''
     @ unless (has_sub '') -> void:'' line) ''semantic_parallel.elisa: par_pass_run must mutate the borrowed table in place'')"

definition JOB_RE :: rx where
  "JOB_RE = Seqs [Bol, Blanks, Lit ''struct ParPassJob:'']"

definition JOB_VIEW_RE :: rx where
  "JOB_VIEW_RE = Seqs [Blanks1, Lit ''loop_view: Ast::File'', Blanks]"

definition JOB_INIT_RE :: rx where
  "JOB_INIT_RE = Seqs [Lit ''jobs.push(ParPassJob{'', Many (Cls (\<lambda>c. c \<noteq> CHR 0x0A \<and> c \<noteq> CHR ''}'')), Lit ''loop_view:'', Blanks,
     Lit ''loop_view'', Alt (Chr (CHR '','')) (Chr (CHR ''}''))]"

definition VIEW_BITS_RE :: rx where
  "VIEW_BITS_RE = Alt (Seqs [WordB, Lit ''view_bits'', Blanks, Chr (CHR '':'')]) (Seqs [WordB, Lit ''job.view_bits'', WordB])"

definition parallel_runtime_view_errors :: "string \<Rightarrow> string list" where
  "parallel_runtime_view_errors source = (let lines = splitlines source;
       block = (case index_where (\<lambda>l. re_match JOB_RE l \<noteq> None) 0 lines of
         None \<Rightarrow> [] | Some s \<Rightarrow> drop (Suc s) (take (block_end lines s) lines)) in
       unless (list_ex (\<lambda>l. re_fullmatch JOB_VIEW_RE l \<noteq> None) block) ''semantic_parallel.elisa: ParPassJob must hold a typed loop view''
     @ unless (re_search JOB_INIT_RE source \<noteq> None) ''semantic_parallel.elisa: each job must initialize its typed loop view from the pipeline view''
     @ unless (has_sub ''view: Ast::File& = &job.loop_view'' source) ''semantic_parallel.elisa: workers must borrow the loop view in their joined job record''
     @ unless (re_search VIEW_BITS_RE source = None) ''semantic_parallel.elisa: raw loop-view descriptor addresses must not be retained'')"


section \<open>Scratch slots and the loop view\<close>

definition SCRATCH_DECL_RE :: rx where
  "SCRATCH_DECL_RE = Seqs [Bol, Blanks, Grp 1 (Plus (Cls is_word)), Chr (CHR '':''), Blanks, Lit ''mutable darray[ParPassScratch[pool]]'',
     Blanks, Lit ''@pool'', Blanks, Chr (CHR ''=''), Blanks, Chr (CHR ''[''), Blanks, Lit ''ParPassScratch[pool]{'', Blanks,
     Lit ''loop_view:'', Blanks, Lit ''loop_view'', Blanks, Chr (CHR ''}''), Blanks, Chr (CHR '']''), Blanks, Eol]"

definition VIEW_INIT_RE :: rx where
  "VIEW_INIT_RE = Seqs [Bol, Blanks, Lit ''loop_view: Ast::File = semantic_loop_view(file)'', Blanks, Eol]"

definition SLOT_RE :: rx where
  "SLOT_RE = Seqs [Chr (CHR ''&''), Grp 1 (Seq (Cls is_ident_start) (Many (Cls is_word))), Lit ''[0]'']"

definition API_FILE :: string where
  "API_FILE = ''semantic_api.elisa''"

definition typed_view_errors :: "string list \<Rightarrow> nat \<Rightarrow> nat \<Rightarrow> par_call list \<Rightarrow> par_call list \<Rightarrow> string list" where
  "typed_view_errors lines s e calls view_calls = (let
       decls = filter (\<lambda>i. re_match VIEW_INIT_RE (lines ! i) \<noteq> None) [s..<e] in
       unless (length view_calls = length calls) (API_FILE @ '': mixed typed-view and scratch-slot calls'')
     @ (if length decls \<noteq> 1 then [API_FILE @ '': initialize exactly one typed loop_view'']
        else unless (list_all (\<lambda>c. hd decls < pc_line c) calls) (API_FILE @ '': loop_view must be initialized before par_pass_run''))
     @ unless (\<not> list_ex (\<lambda>i. re_match SCRATCH_RE (lines ! i) \<noteq> None) [s..<e])
         (API_FILE @ '': typed-view calls must not allocate obsolete scratch slots''))"

definition slot_error :: "nat \<Rightarrow> string \<Rightarrow> par_call \<Rightarrow> string list" where
  "slot_error decl slot_name c = (let place = API_FILE @ '':'' @ show_nat (Suc (pc_line c)) @ '': '' in
     case re_fullmatch SLOT_RE (group_or (pc_match c) 3 []) of
       None \<Rightarrow> [place @ ''par_pass_run must borrow the initialized scratch slot at index 0'']
     | Some m \<Rightarrow>
         if group_or m 1 [] \<noteq> slot_name then [place @ ''par_pass_run references a different scratch slot than the initialized one'']
         else if pc_line c \<le> decl then [place @ ''scratch slot must be initialized before par_pass_run''] else [])"

definition slot_decl :: "string list \<Rightarrow> nat \<Rightarrow> (nat \<times> string) option" where
  "slot_decl lines i = map_option (\<lambda>m. (i, group_or m 1 [])) (re_fullmatch SCRATCH_DECL_RE (lines ! i))"

definition pipeline_scratch_errors :: "string list \<Rightarrow> nat \<Rightarrow> nat \<Rightarrow> par_call list \<Rightarrow> string list" where
  "pipeline_scratch_errors lines s e calls = (let
       view_calls = filter (\<lambda>c. group (pc_match c) 3 = Some ''loop_view'') calls in
     if view_calls \<noteq> [] then typed_view_errors lines s e calls view_calls
     else case List.map_filter (slot_decl lines) [s..<e] of
         [(decl, slot_name)] \<Rightarrow> concat (map (slot_error decl slot_name) calls)
       | _ \<Rightarrow> [API_FILE @ '': check_full_into_pipeline must initialize exactly one pool-owned ParPassScratch slot''])"

section \<open>Chunks of the dispatcher\<close>

definition PAR_PASS_DISPATCH_CHUNK_SIZE :: nat where
  "PAR_PASS_DISPATCH_CHUNK_SIZE = 24"

text \<open>\<open>range(0, len(ids), CHUNK)\<close> and the chunks \<open>(index, first id, last id)\<close>.\<close>

definition chunk_count :: "nat \<Rightarrow> nat" where
  "chunk_count n = (n + PAR_PASS_DISPATCH_CHUNK_SIZE - 1) div PAR_PASS_DISPATCH_CHUNK_SIZE"

definition expected_chunks :: "nat list \<Rightarrow> (nat \<times> nat \<times> nat) list" where
  "expected_chunks ids = map (\<lambda>k. (k, ids ! (k * PAR_PASS_DISPATCH_CHUNK_SIZE),
     ids ! (min (k * PAR_PASS_DISPATCH_CHUNK_SIZE + PAR_PASS_DISPATCH_CHUNK_SIZE) (length ids) - 1))) [0..<chunk_count (length ids)]"

definition UPTO_RE :: rx where
  "UPTO_RE = Seqs [Blanks, Lit ''if pass_id <= '', Grp 1 Digits, Chr (CHR '':''), Blanks]"

definition RANGE_RE :: rx where
  "RANGE_RE = Seqs [Blanks, Lit ''if pass_id >= '', Grp 1 Digits, Lit '' and pass_id <= '', Grp 2 Digits, Chr (CHR '':''), Blanks]"

definition CHUNK_CALL_RE :: rx where
  "CHUNK_CALL_RE = Seqs [Lit ''table <- par_pass_call_chunk_'', Grp 1 Digits, Lit ''(pass_id, file, loop_view, flags, table)'']"

definition CHUNK_USE_RE :: rx where
  "CHUNK_USE_RE = Seqs [WordB, Lit ''par_pass_call_chunk_'', Digits, Chr (CHR ''('')]"

definition GRANT_RE :: rx where
  "GRANT_RE = Seqs [Blanks, Lit ''can Memory.Allocate, Abort.Panic, Global{Read,Write}, Unsafe{PointerArithmetic,PointerCast,RawExtern}:'', Blanks]"

definition chunk_range :: "string \<Rightarrow> (nat \<times> nat) option" where
  "chunk_range src = (case re_fullmatch UPTO_RE src of
     Some m \<Rightarrow> Some (0, group_nat m 1)
   | None \<Rightarrow> map_option (\<lambda>m. (group_nat m 1, group_nat m 2)) (re_fullmatch RANGE_RE src))"

text \<open>The code lines of a range check: a blank line is skipped, a line not indented deeper ends it.\<close>

definition chunk_body :: "string list \<Rightarrow> nat \<Rightarrow> nat \<Rightarrow> string list" where
  "chunk_body lines i e = (let coded = filter (\<lambda>k. code_of (lines ! k) \<noteq> []) [Suc i..<e] in
     map (\<lambda>k. code_of (lines ! k)) (takeWhile (\<lambda>k. indent_of (lines ! i) < indent_of (lines ! k)) coded))"

definition chunk_check :: "string list \<Rightarrow> nat \<Rightarrow> nat \<Rightarrow> string list \<times> (nat \<times> nat \<times> nat) list" where
  "chunk_check lines e i = (case chunk_range (strip_comments (lines ! i)) of
     None \<Rightarrow> ([], [])
   | Some (first, final) \<Rightarrow> (case chunk_body lines i e of
       [call] \<Rightarrow> (case re_fullmatch CHUNK_CALL_RE call of
           None \<Rightarrow> ([at_line i ''chunk range has an unrecognized dispatch call''], [])
         | Some m \<Rightarrow> ([], [(group_nat m 1, first, final)]))
     | _ \<Rightarrow> ([at_line i ''chunk range must have exactly one dispatch call''], [])))"

text \<open>The helpers defined, and the last line that defines the dispatcher itself.\<close>

definition chunk_defs :: "string list \<Rightarrow> nat list" where
  "chunk_defs lines = List.map_filter (\<lambda>l. Option.bind (re_match CALL_DEF_RE l)
     (\<lambda>m. map_option (\<lambda>_. group_nat m 2) (group m 2))) lines"

definition base_def :: "string list \<Rightarrow> nat option" where
  "base_def lines = List.find (\<lambda>i. case re_match CALL_DEF_RE (lines ! i) of None \<Rightarrow> False | Some m \<Rightarrow> group m 2 = None)
     (rev [0..<length lines])"

definition chunk_base_errors :: "string list \<Rightarrow> nat list \<Rightarrow> nat \<Rightarrow> string list" where
  "chunk_base_errors lines expected_ids base = (let
       e = block_end lines base;
       expected = expected_chunks expected_ids;
       checks = map (chunk_check lines e) [Suc base..<e];
       actual = concat (map snd checks);
       calls = filter (\<lambda>k. re_search CHUNK_USE_RE (strip_comments (lines ! k)) \<noteq> None) [base..<e]
     in unless (list_ex (\<lambda>k. re_fullmatch GRANT_RE (strip_comments (lines ! k)) \<noteq> None) [Suc base..<e])
          (PASSES_FILE @ '': chunk dispatcher must locally grant helper Global and Unsafe effects'')
      @ unless (has_sub DISPATCH_SIGNATURE (lines ! base)) (PASSES_FILE @ '': chunk dispatcher must preserve its inferred Unsafe effect requirement'')
      @ concat (map fst checks)
      @ unless (length actual = length expected \<and> set actual = set expected)
          (PASSES_FILE @ '': chunk range checks do not dispatch every pass exactly once'')
      @ unless (length calls = length expected) (PASSES_FILE @ '': chunk helper calls do not match the checked ranges''))"

definition parallel_dispatch_chunk_errors :: "string \<Rightarrow> nat list \<Rightarrow> string list" where
  "parallel_dispatch_chunk_errors source expected_ids = (let lines = splitlines source; defs = chunk_defs lines in
     if defs = [] then []
     else if expected_ids = [] then [PASSES_FILE @ '': chunk helpers exist for an empty dispatcher'']
     else unless (set defs = set (map fst (expected_chunks expected_ids)))
            (PASSES_FILE @ '': dispatcher chunk helper set does not match the pass count'')
       @ (case base_def lines of
            None \<Rightarrow> [PASSES_FILE @ '': missing top-level chunk dispatcher'']
          | Some base \<Rightarrow> chunk_base_errors lines expected_ids base))"

section \<open>Refreshing a dispatcher\<close>

definition join_lines :: "string \<Rightarrow> string list \<Rightarrow> string" where
  "join_lines source lines = join nl lines @ (if ends_with nl source then nl else [])"

definition MAX_BATCH_RE :: rx where
  "MAX_BATCH_RE = Seqs [Bol, Blanks, Lit ''const PAR_PASS_MAX_BATCH: usize = '', Digits, Blanks, Eol]"

definition PRIVATE_RE :: rx where
  "PRIVATE_RE = Seqs [Blanks, Lit ''private:'', Blanks]"

definition max_batch_line :: "nat \<Rightarrow> string" where
  "max_batch_line n = ''        const PAR_PASS_MAX_BATCH: usize = '' @ show_nat n"

definition refresh_max_batch :: "string \<Rightarrow> nat \<Rightarrow> string result" where
  "refresh_max_batch source n = (let lines = splitlines source in
     case index_where (\<lambda>l. re_fullmatch MAX_BATCH_RE l \<noteq> None) 0 lines of
       Some i \<Rightarrow> Inr (join_lines source (take i lines @ [max_batch_line n, []] @ dropWhile (\<lambda>l. strip l = []) (drop (Suc i) lines)))
     | None \<Rightarrow> (case index_where (\<lambda>l. re_fullmatch PRIVATE_RE l \<noteq> None) 0 lines of
         None \<Rightarrow> Inl (ValueError ''cannot find private section in generated semantic pass file'')
       | Some i \<Rightarrow> Inr (join_lines source (take (Suc i) lines @ [max_batch_line n, []] @ drop (Suc i) lines))))"

text \<open>The parameter types of the pipeline; a parameter without a colon raises.\<close>

definition param_type :: "string \<Rightarrow> (string \<times> string) result" where
  "param_type p = (case split1 (CHR '':'') p of
     (_, None) \<Rightarrow> Inl IndexError
   | (n, Some t) \<Rightarrow> Inr (strip n, strip t))"

definition pipeline_types :: "pipeline \<Rightarrow> (string, string) dict result" where
  "pipeline_types pl = (case re_match DEF_RE (pl_lines pl ! pl_start pl) of
     None \<Rightarrow> Inl AttributeError
   | Some m \<Rightarrow> rmap (\<lambda>kvs. fold (\<lambda>(k, v) d. dset k v d) kvs []) (traverse param_type (split_on (CHR '','') (group_or m 3 []))))"

definition flag_field :: "(string, string) dict \<Rightarrow> string \<Rightarrow> string result" where
  "flag_field types f = (case dget types f of None \<Rightarrow> Inl (KeyError f) | Some t \<Rightarrow> Inr (''            '' @ f @ '': '' @ t))"

definition FLAG_STRUCT_RE :: rx where
  "FLAG_STRUCT_RE = Seqs [Grp 1 (Seqs [BolM, Lit ''        struct ParPassFlags:'', Chr (CHR 0x0A)]),
     Many (Seqs [BolM, Blanks1, Plus (Cls is_word), Lit '': '', Many Dot, Chr (CHR 0x0A)])]"

definition refresh_pass_flags :: "string \<Rightarrow> pipeline \<Rightarrow> string list \<Rightarrow> string result" where
  "refresh_pass_flags source pl flags =
     rbind (pipeline_types pl) (\<lambda>types. rbind (traverse (flag_field types) flags) (\<lambda>fields.
       case find_from FLAG_STRUCT_RE False [] source of
         None \<Rightarrow> Inl (ValueError ''cannot find ParPassFlags in generated semantic pass file'')
       | Some (gap, m) \<Rightarrow> Inr (gap @ group_or m 1 [] @ join nl fields @ nl @ ahead m)))"

definition DISPATCH_DEF_RE :: rx where
  "DISPATCH_DEF_RE = Seqs [Bol, Blanks, Lit ''def par_pass_call'', Bracketed, Chr (CHR ''('')]"

definition OLD_SIGNATURES :: "string list" where
  "OLD_SIGNATURES =
     [''def par_pass_call(pass_id: u32, file: Ast::File&, loop_view: Ast::File&, flags: ParPassFlags, table: lmut SymbolTable) -> void:'',
      ''def par_pass_call[@table_region](pass_id: u32, file: Ast::File&, loop_view: Ast::File&, flags: ParPassFlags, table: lmut SymbolTable& @table_region) -> void:'',
      ''def par_pass_call[@table_region](pass_id: u32, file: Ast::File&, loop_view: Ast::File&, flags: ParPassFlags, table: mutable SymbolTable& @table_region) -> void:'',
      DISPATCH_SIGNATURE]"

definition refresh_dispatch_table_region :: "string \<Rightarrow> string result" where
  "refresh_dispatch_table_region source = (let lines = splitlines source in
     case filter (\<lambda>i. re_match DISPATCH_DEF_RE (lines ! i) \<noteq> None) [0..<length lines] of
       [i] \<Rightarrow> (let indent = take (indent_of (lines ! i)) (lines ! i) in
           if lines ! i \<notin> set (map (\<lambda>s. indent @ s) OLD_SIGNATURES)
           then Inl (ValueError ''unrecognized par_pass_call dispatcher signature'')
           else Inr (join_lines source (lines[i := indent @ DISPATCH_SIGNATURE])))
     | _ \<Rightarrow> Inl (ValueError ''expected exactly one par_pass_call dispatcher signature''))"


section \<open>The source of a new dispatcher\<close>

definition CALL_SIGNATURE :: string where
  "CALL_SIGNATURE = ''(pass_id: u32, file: Ast::File&, loop_view: Ast::File&, flags: ParPassFlags, table: mutable SymbolTable& @table_region) -> void:''"

text \<open>\<open>(?<!\.)\b(a|b|...)\b\<close>, replaced by \<open>flags.\<close> and the flag.\<close>

definition flag_rx :: "string list \<Rightarrow> rx" where
  "flag_rx flags = Seqs [NotBehind (\<lambda>c. c = CHR ''.''), WordB, Grp 1 (Alts (map Lit flags)), WordB]"

definition qualify_flags :: "string list \<Rightarrow> string \<Rightarrow> string" where
  "qualify_flags flags s = (if flags = [] then s else re_sub (flag_rx flags) (\<lambda>m. ''flags.'' @ group_or m 1 []) s)"

definition call_lines :: "string list \<Rightarrow> dispatch_rec \<Rightarrow> string list" where
  "call_lines flags r = (let suffix = qualify_flags flags (d_suffix r);
       call = ''table <- '' @ d_name r @ ''('' @ qualify_flags flags (d_args r) @ '')'' @ (if suffix \<noteq> [] then '' '' @ suffix else []) in
     (''                if pass_id == '' @ show_nat (d_id r) @ '':'') #
     (if d_scope r \<noteq> [] then [''                    '' @ d_scope r @ '':'', ''                        '' @ call]
      else [''                    '' @ call]))"

fun chunked :: "nat \<Rightarrow> 'a list \<Rightarrow> 'a list list" where
  "chunked 0 xs = []"
| "chunked (Suc n) xs = (if xs = [] then [] else take PAR_PASS_DISPATCH_CHUNK_SIZE xs # chunked n (drop PAR_PASS_DISPATCH_CHUNK_SIZE xs))"

definition chunk_lines :: "nat \<times> dispatch_rec list \<Rightarrow> string list" where
  "chunk_lines = (\<lambda>(k, chunk). (let first = d_id (hd chunk); final = d_id (last chunk);
       cond = (if first = 0 then ''pass_id <= '' @ show_nat final
               else ''pass_id >= '' @ show_nat first @ '' and pass_id <= '' @ show_nat final) in
     [''                if '' @ cond @ '':'',
      ''                    table <- par_pass_call_chunk_'' @ show_nat k @ ''(pass_id, file, loop_view, flags, table)'']))"

definition helper_lines :: "string list \<Rightarrow> nat \<times> dispatch_rec list \<Rightarrow> string list" where
  "helper_lines flags = (\<lambda>(k, chunk).
     [[], ''        def par_pass_call_chunk_'' @ show_nat k @ ''[@table_region]'' @ CALL_SIGNATURE,
      ''            can Memory.Allocate, Abort.Panic:''] @ concat (map (call_lines flags) chunk))"

definition passes_body :: "(string, string) dict \<Rightarrow> string list \<Rightarrow> dispatch_rec list \<Rightarrow> nat \<Rightarrow> string list result" where
  "passes_body types flags calls max_batch = rmap (\<lambda>fields. (let
       chunks = enumerate 0 (chunked (length calls) calls) in
     [''        # Largest generated batch; the shared semantic pool is capped to this size.'',
      max_batch_line max_batch, [],
      ''        # check_full_into_pipeline's flags, for the passes' arguments and conditions.'',
      ''        struct ParPassFlags:''] @ fields
     @ [[], ''        '' @ DISPATCH_SIGNATURE,
        ''            can Memory.Allocate, Abort.Panic, Global{Read,Write}, Unsafe{PointerArithmetic,PointerCast,RawExtern}:'']
     @ concat (map chunk_lines chunks) @ concat (map (helper_lines flags) chunks)
     @ [[], parallel_safety_gate_source (map d_id calls)]))
     (traverse (flag_field types) flags)"

text \<open>The fixed comment at the top of the file is a parameter.\<close>

definition passes_source :: "string \<Rightarrow> pipeline \<Rightarrow> string list \<Rightarrow> dispatch_rec list \<Rightarrow> nat \<Rightarrow> string result" where
  "passes_source head pl flags calls max_batch =
     rbind (pipeline_types pl) (\<lambda>types. rmap (\<lambda>body. head @ join nl body @ nl) (passes_body types flags calls max_batch))"

section \<open>The audit\<close>

definition BOUND_RE :: rx where
  "BOUND_RE = Seqs [BolM, Spaces0, Lit ''const PAR_PASS_MAX_BATCH: usize = '', Grp 1 Digits, Spaces0, EolM]"

definition Space12 :: rx where
  "Space12 = Times 12 (Cls is_space)"

definition FLAGS_STRUCT_RE :: rx where
  "FLAGS_STRUCT_RE = Seqs [Lit ''struct ParPassFlags:'', Chr (CHR 0x0A),
     Grp 1 (Plus (Seqs [Space12, Plus (Cls is_word), Lit '': '', Plus Dot, Chr (CHR 0x0A)]))]"

definition FLAG_NAME_RE :: rx where
  "FLAG_NAME_RE = Seqs [BolM, Space12, Grp 1 (Plus (Cls is_word)), Chr (CHR '':'')]"

definition FLAG_INIT_RE :: rx where
  "FLAG_INIT_RE = Seqs [BolM, Spaces0, Lit ''flags: ParPassFlags'', Spaces0, Chr (CHR ''=''), Spaces0, Lit ''ParPassFlags{'',
     Grp 1 (Plus (Cls (\<lambda>c. c \<noteq> CHR ''}''))), Chr (CHR ''}'')]"

definition FIELD_NAME_RE :: rx where
  "FIELD_NAME_RE = Seqs [WordB, Grp 1 (Plus (Cls is_word)), Chr (CHR '':'')]"

definition POOL_RE :: rx where
  "POOL_RE = Seqs [Lit ''def par_pass_run['', Many (Cls (\<lambda>c. c \<noteq> CHR '']'')), Lit ''@pool'', Many (Cls (\<lambda>c. c \<noteq> CHR '']'')), Lit ''](''
     , Many Dot, Lit ''shared_pool: mutable ThreadPool& @pool, loop_view: Ast::File'']"

definition found_names :: "rx \<Rightarrow> rx \<Rightarrow> string \<Rightarrow> string list" where
  "found_names outer inner s = (case re_search outer s of
     None \<Rightarrow> [] | Some m \<Rightarrow> map (\<lambda>k. group_or k 1 []) (re_finditer inner (group_or m 1 [])))"

definition call_ids :: "par_call list \<Rightarrow> nat list" where
  "call_ids calls = concat (map (\<lambda>c. [pc_start c..<pc_start c + pc_count c]) calls)"

definition safe_ids :: "info \<Rightarrow> dispatch_rec list \<Rightarrow> nat list" where
  "safe_ids info dispatch = map d_id (filter (\<lambda>r. append_only info (d_name r)) dispatch)"

text \<open>The errors of the calls in the pipeline: placement, shape, batch bound and ids.\<close>

definition pipeline_call_errors :: "par_call list \<Rightarrow> par_call list \<Rightarrow> pipeline \<Rightarrow> string \<Rightarrow> string list" where
  "pipeline_call_errors all_calls calls pl passes = (let
       outside = filter (\<lambda>c. \<not> (pl_start pl \<le> pc_line c \<and> pc_line c < pl_end pl)) all_calls;
       max_batch = fold max (map pc_count calls) (if calls = [] then 1 else 0);
       ids = call_ids calls
     in unless (outside = []) (API_FILE @ '': par_pass_run call found outside check_full_into_pipeline'')
      @ unless (calls \<noteq> []) (API_FILE @ '': no generated par_pass_run calls found'')
      @ unless (list_all (\<lambda>c. group (pc_match c) 3 \<noteq> None) calls)
          (API_FILE @ '': generated par_pass_run call is missing its typed loop view'')
      @ unless (list_all (\<lambda>c. group (pc_match c) 2 \<noteq> None) calls)
          (API_FILE @ '': par_pass_run calls must explicitly update the lmut table'')
      @ (case re_search BOUND_RE passes of
           None \<Rightarrow> [PASSES_FILE @ '': missing PAR_PASS_MAX_BATCH'']
         | Some m \<Rightarrow> unless (group_nat m 1 = max_batch) (PASSES_FILE @ '': PAR_PASS_MAX_BATCH does not match the largest run''))
      @ concat (map (\<lambda>c. unless (0 < pc_count c) (API_FILE @ '':'' @ show_nat (Suc (pc_line c))
           @ '': generated par_pass_run count must be positive'')) calls)
      @ unless (ids = [0..<length ids])
          (API_FILE @ '': generated pass ranges must cover IDs once, in pipeline order, starting at 0''))"

definition dispatch_errors :: "info \<Rightarrow> string \<Rightarrow> nat list \<Rightarrow> string list" where
  "dispatch_errors info passes ids = (case parse_parallel_dispatch passes of (dispatch, errs) \<Rightarrow>
     errs @ parallel_dispatch_chunk_errors passes ids
   @ unless (map d_id dispatch = ids) (PASSES_FILE @ '': dispatcher pass IDs/order do not match semantic_api.elisa ranges'')
   @ unless (distinct (map d_id dispatch)) (PASSES_FILE @ '': duplicate dispatcher pass ID'')
   @ concat (map (\<lambda>r. unless (d_name r \<noteq> [] \<and> strip (d_args r) \<noteq> [])
        (PASSES_FILE @ '': incomplete dispatcher mapping for pass_id '' @ show_nat (d_id r))) dispatch)
   @ parallel_safety_gate_errors passes (safe_ids info dispatch))"

definition flag_errors :: "pipeline \<Rightarrow> string \<Rightarrow> string \<Rightarrow> string list" where
  "flag_errors pl api passes =
     unless (found_names FLAGS_STRUCT_RE FLAG_NAME_RE passes = pipeline_flags pl)
       (PASSES_FILE @ '': ParPassFlags does not match pipeline scalar flags'')
   @ unless (found_names FLAG_INIT_RE FIELD_NAME_RE api = pipeline_flags pl)
       (API_FILE @ '': ParPassFlags initializer does not match pipeline scalar flags'')"

definition pipeline_calls :: "pipeline \<Rightarrow> par_call list" where
  "pipeline_calls pl = fst (par_run_calls (drop (pl_start pl) (take (pl_end pl) (pl_lines pl))) (pl_start pl))"

definition generated_parallel_errors :: "info \<Rightarrow> string \<Rightarrow> string \<Rightarrow> string \<Rightarrow> string list result" where
  "generated_parallel_errors info api passes parallel =
     rmap (\<lambda>(pl, stmts, runs). (case par_run_calls (splitlines api) 0 of (all_calls, malformed) \<Rightarrow>
       let calls = pipeline_calls pl in
         map (\<lambda>n. API_FILE @ '':'' @ show_nat n @ '': par_pass_run call does not match the generated call shape'') malformed
       @ pipeline_scratch_errors (pl_lines pl) (pl_start pl) (pl_end pl) calls
       @ unless (\<not> has_mixed_runs pl runs)
           (API_FILE @ '': mixed generated batches and sequential eligible runs; regenerate from a fully sequential pipeline'')
       @ pipeline_call_errors all_calls calls pl passes
       @ dispatch_errors info passes (call_ids calls)
       @ parallel_runtime_serial_guard_errors parallel
       @ parallel_runtime_lmut_errors parallel passes
       @ parallel_runtime_view_errors parallel
       @ flag_errors pl api passes
       @ unless (re_search POOL_RE parallel \<noteq> None)
           ''semantic_parallel.elisa: par_pass_run must borrow the shared pool in the caller's region''))
     (plan_runs info api)"

section \<open>Writing\<close>

text \<open>A planned statement as a dispatcher record; it has no effect scope.\<close>

definition planned_call :: "nat \<times> stmt \<Rightarrow> dispatch_rec" where
  "planned_call = (\<lambda>(pid, s). \<lparr>d_id = pid, d_name = s_name s, d_args = s_args s, d_cond = s_cond s, d_suffix = s_suffix s,
     d_scope = []\<rparr>)"

definition dispatch_safe :: "info \<Rightarrow> string \<Rightarrow> nat set result" where
  "dispatch_safe info passes = (case parse_parallel_dispatch passes of (dispatch, errs) \<Rightarrow>
     if errs \<noteq> [] then Inl (ValueError (join ''; '' errs)) else Inr (set (safe_ids info dispatch)))"

definition generated_counts :: "string list \<Rightarrow> nat list" where
  "generated_counts lines = List.map_filter (\<lambda>l. map_option (\<lambda>m. group_nat m 5) (re_search PAR_RUN_RE l)) lines"

text \<open>
  The dispatcher file of \<open>--write\<close> for a pipeline that has its batches already: regenerated
  from its own arms, then its whitelist, bound, flags and signature refreshed. The two error
  reports are a \<open>SystemExit\<close>; the exceptions of the refreshes are not caught.
\<close>

definition rewrite_dispatch :: "info \<Rightarrow> string \<Rightarrow> pipeline \<Rightarrow> string list \<Rightarrow> string \<Rightarrow> nat \<Rightarrow> string result" where
  "rewrite_dispatch info head pl flags passes max_batch = (case parse_parallel_dispatch passes of (dispatch, errs) \<Rightarrow>
     if errs \<noteq> [] then Inl (SystemExit (join ''; '' errs))
     else rbind (passes_source head pl flags dispatch max_batch) (\<lambda>p1.
          rbind (refresh_parallel_safety_gate p1 (safe_ids info dispatch)) (\<lambda>p2.
          rbind (refresh_max_batch p2 max_batch) (\<lambda>p3.
          rbind (refresh_pass_flags p3 pl flags) (\<lambda>p4.
          rbind (refresh_dispatch_table_region p4) (\<lambda>p5.
          case parse_parallel_dispatch p5 of (dispatch2, errs2) \<Rightarrow>
            if errs2 \<noteq> [] then Inl (SystemExit (join ''; '' errs2))
            else refresh_parallel_safety_gate p5 (safe_ids info dispatch2)))))))"

text \<open>
  \<open>--write\<close>: the new text of the pipeline file and, if it gets that far, of the dispatcher.
  The pipeline file is written first and read again for the parameter types; the flags and
  the runs are those of the plan.
\<close>

definition write_mode :: "info \<Rightarrow> string \<Rightarrow> string \<Rightarrow> string \<Rightarrow> (string \<times> string result) result" where
  "write_mode info head api passes = (case emit info api (\<lambda>_. dispatch_safe info passes) of
     Inl (ValueError msg) \<Rightarrow> Inl (SystemExit msg)
   | Inl e \<Rightarrow> Inl e
   | Inr (flat, calls) \<Rightarrow> (let api1 = join nl flat; counts = generated_counts flat in
       Inr (api1, rbind (plan_runs info api) (\<lambda>(pl0, _, runs). rbind (pipeline_statements api1) (\<lambda>pl.
         if calls \<noteq> [] \<or> counts = []
         then passes_source head pl (pipeline_flags pl0) (map planned_call calls)
             (fold max (map length runs) (if runs = [] then 1 else 0))
         else rewrite_dispatch info head pl (pipeline_flags pl0) passes (fold max counts 0))))))"

section \<open>AST constructions\<close>

definition AST_VARIANT_RE :: rx where
  "AST_VARIANT_RE = Seqs [NotBehind (\<lambda>c. is_word c \<or> c = CHR ''.'' \<or> c = CHR '':''), Opt (Lit ''Ast::''),
     Grp 1 (Alts [Lit ''Expr'', Lit ''Stmt'', Lit ''Decl'', Lit ''Pattern'', Lit ''Node'']), Chr (CHR ''.''),
     Grp 2 (Seq (Cls is_upper_az) (Many (Cls is_word))), WordB]"

definition IS_RE :: rx where
  "IS_RE = Seqs [WordB, Lit ''is'', Spaces1, Opt (Seq (Lit ''not'') Spaces1), Eol]"

text \<open>Each match with the text of the line before it.\<close>

fun with_prefix :: "string \<Rightarrow> (string \<times> mstate) list \<Rightarrow> (string \<times> mstate) list" where
  "with_prefix b [] = []"
| "with_prefix b ((gap, m) # ms) = (b @ gap, m) # with_prefix (rev (behind m)) ms"

definition line_constructions :: "string \<Rightarrow> string list" where
  "line_constructions line = (let src = (case match_arm_body line of None \<Rightarrow> line | Some v \<Rightarrow> v) in
     map (\<lambda>(_, m). group_or m 1 [] @ ''.'' @ group_or m 2 [])
       (filter (\<lambda>(before, _). re_search IS_RE before = None) (with_prefix [] (fst (rx_iter AST_VARIANT_RE False [] src)))))"

definition ast_constructions :: "string \<Rightarrow> string list" where
  "ast_constructions text = concat (map line_constructions (split_on (CHR 0x0A) text))"


section \<open>The checked whitelist is the generated one\<close>

lemma end_past_begin: "occ GATE_END (GATE_BEGIN @ y) j \<Longrightarrow> \<exists>k. j = length GATE_BEGIN + k \<and> occ GATE_END y k"
  unfolding GATE_BEGIN_def GATE_END_def by (simp add: occ_Cons_iff) blast

definition gate_tail :: string where
  "gate_tail = drop 8 GATE_BEGIN"

lemma gate_strip: "strip (GATE_BEGIN @ a @ GATE_END) = gate_tail @ a @ GATE_END"
proof -
  have "GATE_BEGIN @ a @ GATE_END = ''        '' @ (gate_tail @ a @ GATE_END)"
    by (simp add: GATE_BEGIN_def gate_tail_def)
  moreover have "strip (''        '' @ (gate_tail @ a @ GATE_END)) = gate_tail @ a @ GATE_END"
    by (rule strip_indented) (simp_all add: is_space_def gate_tail_def GATE_BEGIN_def GATE_END_def)
  ultimately show ?thesis by (simp only:)
qed

lemma gate_check_text:
  assumes "parallel_safety_gate_errors source ids = []"
  shows "\<exists>pre post. source = pre @ parallel_safety_gate_source ids @ post"
proof -
  from assms obtain b e where f: "find_sub GATE_BEGIN source = Some b" "find_sub GATE_END source = Some e" "b \<le> e"
    and eq: "strip (drop b (take (e + length GATE_END) source)) = strip (parallel_safety_gate_source ids)"
    by (auto simp: parallel_safety_gate_errors_def split: option.splits if_splits)
  from f(1) obtain u v where uv: "source = u @ GATE_BEGIN @ v" "length u = b" by (auto simp: find_sub_Some occ_def)
  from f(2) obtain g h where gh: "source = g @ GATE_END @ h" "length g = e" by (auto simp: find_sub_Some occ_def)
  from append_longer [of g "GATE_END @ h" u "GATE_BEGIN @ v"] uv gh f(3) obtain w
    where w: "g = u @ w" "GATE_BEGIN @ v = w @ GATE_END @ h" by auto
  then have "occ GATE_END (GATE_BEGIN @ v) (length w)" by (auto simp: occ_def)
  from end_past_begin [OF this] have "length GATE_BEGIN \<le> length w" by auto
  from append_longer [OF sym [OF w(2)] this] obtain a where a: "w = GATE_BEGIN @ a" "v = a @ GATE_END @ h" by auto
  have "drop b (take (e + length GATE_END) source) = GATE_BEGIN @ a @ GATE_END"
    using uv a gh(2) w(1) by simp
  with eq have "a = CHR 0x0A # gate_middle ids @ [CHR 0x0A]"
    using gate_strip [of a] gate_strip [of "CHR 0x0A # gate_middle ids @ [CHR 0x0A]"] by (simp add: gate_source_split)
  with uv a have "source = u @ parallel_safety_gate_source ids @ h" by (simp add: gate_source_split)
  then show ?thesis by blast
qed

section \<open>What a clean audit guarantees\<close>

lemma unless_Nil [simp]: "unless b m = [] \<longleftrightarrow> b"
  by (simp add: unless_def)

lemma fold_max_ge: "(m::nat) \<le> fold max xs m"
  by (induction xs arbitrary: m) (auto intro: order_trans [OF max.cobounded2])

lemma fold_max_mem: "(x::nat) \<in> set xs \<Longrightarrow> x \<le> fold max xs m"
proof (induction xs arbitrary: m)
  case (Cons y ys)
  then show ?case using fold_max_ge [of "max y m" ys] by (cases "x \<in> set ys") auto
qed simp

lemma pipeline_calls_clean:
  assumes "pipeline_call_errors all_calls calls pl passes = []"
  shows "\<exists>m. re_search BOUND_RE passes = Some m \<and> list_all (\<lambda>c. 0 < pc_count c \<and> pc_count c \<le> group_nat m 1) calls"
    and "call_ids calls = [0..<length (call_ids calls)]"
proof -
  from assms obtain m where m: "re_search BOUND_RE passes = Some m"
    "group_nat m 1 = fold max (map pc_count calls) (if calls = [] then 1 else 0)"
    by (auto simp: pipeline_call_errors_def Let_def split: option.splits)
  have "list_all (\<lambda>c. 0 < pc_count c) calls"
    using assms by (auto simp: pipeline_call_errors_def Let_def list_all_iff)
  moreover have "list_all (\<lambda>c. pc_count c \<le> group_nat m 1) calls"
    unfolding m(2) by (auto simp: list_all_iff intro: fold_max_mem)
  ultimately show "\<exists>m. re_search BOUND_RE passes = Some m \<and> list_all (\<lambda>c. 0 < pc_count c \<and> pc_count c \<le> group_nat m 1) calls"
    using m(1) by (auto simp: list_all_iff)
  show "call_ids calls = [0..<length (call_ids calls)]"
    using assms by (simp add: pipeline_call_errors_def Let_def)
qed

lemma dispatch_clean:
  assumes "dispatch_errors info passes [0..<n] = []"
  shows "\<exists>dispatch pre post. parse_parallel_dispatch passes = (dispatch, []) \<and> map d_id dispatch = [0..<n] \<and>
    passes = pre @ parallel_safety_gate_source (safe_ids info dispatch) @ post"
proof -
  obtain dispatch errs where p: "parse_parallel_dispatch passes = (dispatch, errs)" by fastforce
  with assms have "errs = []" "map d_id dispatch = [0..<n]" "parallel_safety_gate_errors passes (safe_ids info dispatch) = []"
    by (simp_all add: dispatch_errors_def)
  with p gate_check_text show ?thesis by blast
qed

lemma safe_ids_nth:
  assumes "map d_id dispatch = [0..<n]"
  shows "i \<in> set (safe_ids info dispatch) \<longleftrightarrow> i < n \<and> append_only info (d_name (dispatch ! i))"
proof -
  have len: "length dispatch = n" using assms by (metis diff_zero length_map length_upt)
  have nth: "d_id (dispatch ! k) = k" if "k < n" for k
    using that assms len by (metis add.left_neutral nth_map nth_upt)
  show ?thesis
  proof
    assume "i \<in> set (safe_ids info dispatch)"
    then show "i < n \<and> append_only info (d_name (dispatch ! i))"
      by (auto simp: safe_ids_def in_set_conv_nth len nth)
  next
    assume "i < n \<and> append_only info (d_name (dispatch ! i))"
    then have "dispatch ! i \<in> set (filter (\<lambda>r. append_only info (d_name r)) dispatch)" by (simp add: len)
    then show "i \<in> set (safe_ids info dispatch)"
      unfolding safe_ids_def set_map by (rule rev_image_eqI) (use \<open>i < n \<and> _\<close> nth in simp)
  qed
qed

text \<open>
  The audited state of the sources: the pipeline's batches name the ids \<open>0..<n\<close> once and in
  order, none empty and none above the pool bound; the dispatcher has exactly these ids; and
  the whitelist in the dispatcher file answers yes exactly for the ids whose pass is append-only.
\<close>

definition audited :: "info \<Rightarrow> string \<Rightarrow> string \<Rightarrow> nat \<Rightarrow> bool" where
  "audited info api passes n \<longleftrightarrow> (\<exists>pl dispatch m pre gate post.
     pipeline_statements api = Inr pl \<and> call_ids (pipeline_calls pl) = [0..<n] \<and>
     re_search BOUND_RE passes = Some m \<and>
     list_all (\<lambda>c. 0 < pc_count c \<and> pc_count c \<le> group_nat m 1) (pipeline_calls pl) \<and>
     parse_parallel_dispatch passes = (dispatch, []) \<and> map d_id dispatch = [0..<n] \<and>
     passes = pre @ gate @ post \<and>
     (\<forall>i. gate_exec (gate_function gate) i = Some (i < n \<and> append_only info (d_name (dispatch ! i)))))"

lemma clean_audit_stages:
  assumes "generated_parallel_errors info api passes parallel = Inr []"
  shows "\<exists>pl all_calls. pipeline_statements api = Inr pl \<and> pipeline_call_errors all_calls (pipeline_calls pl) pl passes = [] \<and>
    dispatch_errors info passes (call_ids (pipeline_calls pl)) = []"
proof -
  obtain all_calls malformed where a: "par_run_calls (splitlines api) 0 = (all_calls, malformed)" by fastforce
  from assms obtain pl stmts runs where p: "plan_runs info api = Inr (pl, stmts, runs)"
    and "pipeline_call_errors all_calls (pipeline_calls pl) pl passes = []"
    and "dispatch_errors info passes (call_ids (pipeline_calls pl)) = []"
    by (auto simp: generated_parallel_errors_def rmap_def rbind_Inr_conv Let_def a)
  moreover from p have "pipeline_statements api = Inr pl" by (auto simp: plan_runs_def rmap_def rbind_Inr_conv Let_def)
  ultimately show ?thesis by blast
qed

lemma clean_stages_audited:
  assumes pl: "pipeline_statements api = Inr pl"
    and calls: "pipeline_call_errors all_calls (pipeline_calls pl) pl passes = []"
    and disp: "dispatch_errors info passes (call_ids (pipeline_calls pl)) = []"
  shows "\<exists>n. audited info api passes n"
proof -
  define n where "n = length (call_ids (pipeline_calls pl))"
  from pipeline_calls_clean(2) [OF calls] have ids: "call_ids (pipeline_calls pl) = [0..<n]" by (simp add: n_def)
  from dispatch_clean [OF disp [unfolded ids]] obtain dispatch pre post where d:
    "parse_parallel_dispatch passes = (dispatch, [])" "map d_id dispatch = [0..<n]"
    "passes = pre @ parallel_safety_gate_source (safe_ids info dispatch) @ post" by blast
  from pipeline_calls_clean(1) [OF calls] obtain m where m: "re_search BOUND_RE passes = Some m"
    "list_all (\<lambda>c. 0 < pc_count c \<and> pc_count c \<le> group_nat m 1) (pipeline_calls pl)" by blast
  have "\<forall>i. gate_exec (gate_function (parallel_safety_gate_source (safe_ids info dispatch))) i =
      Some (i < n \<and> append_only info (d_name (dispatch ! i)))"
    by (simp add: gate_exec_gate safe_ids_nth [OF d(2)])
  with pl ids m d show ?thesis unfolding audited_def by blast
qed

lemma clean_audit_audited:
  "generated_parallel_errors info api passes parallel = Inr [] \<Longrightarrow> \<exists>n. audited info api passes n"
  using clean_audit_stages [of info api passes parallel] clean_stages_audited by blast
















section \<open>The chunks cover the passes\<close>

definition actual_chunks :: "string list \<Rightarrow> nat \<Rightarrow> (nat \<times> nat \<times> nat) list" where
  "actual_chunks lines base = concat (map (\<lambda>i. snd (chunk_check lines (block_end lines base) i)) [Suc base..<block_end lines base])"

definition covers :: "nat \<Rightarrow> nat \<times> nat \<times> nat \<Rightarrow> bool" where
  "covers i = (\<lambda>(k, a, b). a \<le> i \<and> i \<le> b)"

definition chunk_of :: "nat \<Rightarrow> nat \<Rightarrow> nat \<times> nat \<times> nat" where
  "chunk_of n k = (k, k * PAR_PASS_DISPATCH_CHUNK_SIZE, min (k * PAR_PASS_DISPATCH_CHUNK_SIZE + PAR_PASS_DISPATCH_CHUNK_SIZE) n - 1)"

lemma chunk_count_le: "k < chunk_count n \<longleftrightarrow> k * PAR_PASS_DISPATCH_CHUNK_SIZE < n"
  by (auto simp: chunk_count_def PAR_PASS_DISPATCH_CHUNK_SIZE_def)

lemma expected_chunks_upt: "expected_chunks [0..<n] = map (chunk_of n) [0..<chunk_count n]"
  unfolding expected_chunks_def length_upt minus_nat.diff_0
proof (rule map_cong)
  fix k assume "k \<in> set [0..<chunk_count n]"
  then have "k * PAR_PASS_DISPATCH_CHUNK_SIZE < n" by (simp add: chunk_count_le)
  then show "(k, [0..<n] ! (k * PAR_PASS_DISPATCH_CHUNK_SIZE),
      [0..<n] ! (min (k * PAR_PASS_DISPATCH_CHUNK_SIZE + PAR_PASS_DISPATCH_CHUNK_SIZE) n - 1)) = chunk_of n k"
    by (simp add: chunk_of_def PAR_PASS_DISPATCH_CHUNK_SIZE_def)
qed simp

lemma chunk_of_covers: "i < n \<Longrightarrow> k * PAR_PASS_DISPATCH_CHUNK_SIZE < n \<Longrightarrow>
    covers i (chunk_of n k) \<longleftrightarrow> k = i div PAR_PASS_DISPATCH_CHUNK_SIZE"
  by (auto simp: covers_def chunk_of_def PAR_PASS_DISPATCH_CHUNK_SIZE_def)

lemma filter_one: "distinct xs \<Longrightarrow> x \<in> set xs \<Longrightarrow> (\<And>y. y \<in> set xs \<Longrightarrow> P y \<longleftrightarrow> y = x) \<Longrightarrow> filter P xs = [x]"
proof (induction xs)
  case (Cons y ys)
  show ?case
  proof (cases "x = y")
    case True
    with Cons.prems have "filter P ys = []" by (auto simp: filter_empty_conv)
    with True Cons.prems show ?thesis by simp
  next
    case False
    with Cons show ?thesis by simp
  qed
qed simp

text \<open>
  When the chunk check finds no error, the range checks of the top-level dispatcher send
  every pass id to exactly one helper, the one of its chunk.
\<close>

theorem chunks_cover_once:
  assumes "chunk_base_errors lines [0..<n] base = []" and "i < n"
  shows "filter (covers i) (actual_chunks lines base) = [chunk_of n (i div PAR_PASS_DISPATCH_CHUNK_SIZE)]"
proof (rule filter_one)
  let ?e = "expected_chunks [0..<n]" and ?k = "i div PAR_PASS_DISPATCH_CHUNK_SIZE"
  from assms(1) have a: "length (actual_chunks lines base) = length ?e" "set (actual_chunks lines base) = set ?e"
    by (simp_all add: chunk_base_errors_def Let_def actual_chunks_def comp_def)
  have "distinct ?e" unfolding expected_chunks_upt by (auto simp: distinct_map inj_on_def chunk_of_def)
  with a show "distinct (actual_chunks lines base)" by (metis card_distinct distinct_card)
  have k: "?k * PAR_PASS_DISPATCH_CHUNK_SIZE < n" using assms(2) by (meson div_times_less_eq_dividend le_less_trans)
  then show "chunk_of n ?k \<in> set (actual_chunks lines base)"
    unfolding a expected_chunks_upt by (simp add: chunk_count_le)
  fix y assume "y \<in> set (actual_chunks lines base)"
  then obtain k where "y = chunk_of n k" "k * PAR_PASS_DISPATCH_CHUNK_SIZE < n"
    unfolding a expected_chunks_upt by (auto simp: chunk_count_le)
  then show "covers i y \<longleftrightarrow> y = chunk_of n ?k"
    using chunk_of_covers [OF assms(2)] by (auto simp: chunk_of_def)
qed

definition chunk_demo :: "string list" where
  "chunk_demo = [DISPATCH_SIGNATURE,
     '' can Memory.Allocate, Abort.Panic, Global{Read,Write}, Unsafe{PointerArithmetic,PointerCast,RawExtern}:'',
     ''  if pass_id <= 0:'', ''   table <- par_pass_call_chunk_0(pass_id, file, loop_view, flags, table)'']"

lemma chunk_demo_clean: "chunk_base_errors chunk_demo [0..<1] 0 = []"
  by code_simp

text \<open>A dispatcher of one chunk.\<close>

theorem chunks_cover_once_witness:
  "chunk_base_errors chunk_demo [0..<1] 0 = [] \<and> filter (covers 0) (actual_chunks chunk_demo 0) = [chunk_of 1 0]"
  using chunk_demo_clean chunks_cover_once [OF chunk_demo_clean, of 0] by simp

end
