(* ===== verification/PyJson.thy ===== *)
theory PyJson
  imports PyText
begin

text \<open>
  Python's \<open>json\<close> module as the caches use it: values, \<open>==\<close> on them, \<open>json.dumps\<close> with sorted
  keys, compact separators and ASCII output, and \<open>json.loads\<close>. Texts with floats, with raw
  characters above ASCII or with escapes above Latin-1 are outside the model: reading one is
  \<open>Unmodelled\<close>, about which no theorem says anything.
\<close>

section \<open>Values\<close>

datatype json = JNull | JBool bool | JInt int | JStr string | JList "json list" | JObj "(string \<times> json) list"

text \<open>Keys are sorted by their code points, values by their key.\<close>

definition sort_keys :: "(string \<times> 'a) list \<Rightarrow> (string \<times> 'a) list" where
  "sort_keys kvs = sort_key fst kvs"

text \<open>\<open>==\<close>: a bool equals the integer it stands for, and a dict ignores the order of its keys.\<close>

fun py_norm :: "json \<Rightarrow> json" where
  "py_norm JNull = JNull"
| "py_norm (JBool b) = JInt (if b then 1 else 0)"
| "py_norm (JInt i) = JInt i"
| "py_norm (JStr s) = JStr s"
| "py_norm (JList vs) = JList (map py_norm vs)"
| "py_norm (JObj kvs) = JObj (sort_keys (map (\<lambda>(k, v). (k, py_norm v)) kvs))"

definition py_eq :: "json \<Rightarrow> json \<Rightarrow> bool" where
  "py_eq v w \<longleftrightarrow> py_norm v = py_norm w"

text \<open>A value as Python builds it: the keys of a dict are distinct.\<close>

fun json_wf :: "json \<Rightarrow> bool" where
  "json_wf (JList vs) \<longleftrightarrow> list_all json_wf vs"
| "json_wf (JObj kvs) \<longleftrightarrow> distinct (map fst kvs) \<and> list_all (\<lambda>(k, v). json_wf v) kvs"
| "json_wf _ \<longleftrightarrow> True"

section \<open>Printing\<close>

definition hex4 :: "nat \<Rightarrow> string" where
  "hex4 n = [digit_char (n div 4096 mod 16), digit_char (n div 256 mod 16), digit_char (n div 16 mod 16), digit_char (n mod 16)]"

definition esc_char :: "char \<Rightarrow> string" where
  "esc_char c = (let n = code c in
     if c = CHR 0x22 then [CHR 0x5C, CHR 0x22]
     else if c = CHR 0x5C then [CHR 0x5C, CHR 0x5C]
     else if n = 10 then [CHR 0x5C, CHR ''n'']
     else if n = 13 then [CHR 0x5C, CHR ''r'']
     else if n = 9 then [CHR 0x5C, CHR ''t'']
     else if n = 8 then [CHR 0x5C, CHR ''b'']
     else if n = 12 then [CHR 0x5C, CHR ''f'']
     else if 32 \<le> n \<and> n \<le> 126 then [c]
     else [CHR 0x5C, CHR ''u''] @ hex4 n)"

definition quoted :: "string \<Rightarrow> string" where
  "quoted s = [CHR 0x22] @ concat (map esc_char s) @ [CHR 0x22]"

fun canonical :: "json \<Rightarrow> string" where
  "canonical JNull = ''null''"
| "canonical (JBool b) = (if b then ''true'' else ''false'')"
| "canonical (JInt i) = show_int i"
| "canonical (JStr s) = quoted s"
| "canonical (JList vs) = ''['' @ join '','' (map canonical vs) @ '']''"
| "canonical (JObj kvs) = ''{'' @ join '','' (map (\<lambda>(k, s). quoted k @ '':'' @ s)
     (sort_keys (map (\<lambda>(k, v). (k, canonical v)) kvs))) @ ''}''"

section \<open>Reading\<close>

definition is_json_space :: "char \<Rightarrow> bool" where
  "is_json_space c \<longleftrightarrow> c = CHR '' '' \<or> c = CHR 0x09 \<or> c = CHR 0x0A \<or> c = CHR 0x0D"

definition skip_ws :: "string \<Rightarrow> string" where
  "skip_ws s = dropWhile is_json_space s"

definition json_error :: "'a result" where
  "json_error = Inl (ValueError ''Expecting value'')"

fun hex_digits :: "string \<Rightarrow> nat option" where
  "hex_digits s = (if list_all (\<lambda>c. case digit_val c of Some d \<Rightarrow> d < 16 | None \<Rightarrow> False) s
     then Some (foldl (\<lambda>n c. n * 16 + the (digit_val c)) 0 s) else None)"

definition escape_value :: "char \<Rightarrow> char option" where
  "escape_value c = (if c = CHR 0x22 \<or> c = CHR 0x5C \<or> c = CHR ''/'' then Some c
     else if c = CHR ''n'' then Some (CHR 0x0A) else if c = CHR ''r'' then Some (CHR 0x0D)
     else if c = CHR ''t'' then Some (CHR 0x09) else if c = CHR ''b'' then Some (CHR 0x08)
     else if c = CHR ''f'' then Some (CHR 0x0C) else None)"

text \<open>The rest of a string after its opening quote: the string (reversed in the accumulator) and what follows.\<close>

fun parse_string :: "string \<Rightarrow> string \<Rightarrow> (string \<times> string) result" where
  "parse_string acc [] = json_error"
| "parse_string acc (c # cs) =
     (if c = CHR 0x22 then Inr (rev acc, cs)
      else if c = CHR 0x5C then (case cs of
          [] \<Rightarrow> json_error
        | e # ds \<Rightarrow>
            if e = CHR ''u'' then (case ds of
                h1 # h2 # h3 # h4 # es \<Rightarrow> (case hex_digits [h1, h2, h3, h4] of
                    None \<Rightarrow> json_error
                  | Some n \<Rightarrow> if n < 256 then parse_string (char_of n # acc) es else Inl Unmodelled)
              | _ \<Rightarrow> json_error)
            else (case escape_value e of None \<Rightarrow> json_error | Some x \<Rightarrow> parse_string (x # acc) ds))
      else if code c < 32 then json_error
      else if 128 \<le> code c then Inl Unmodelled
      else parse_string (c # acc) cs)"

text \<open>The integer part of a number, and whether a fraction or an exponent follows it.\<close>

definition int_digits :: "string \<Rightarrow> string" where
  "int_digits t = (let ds = takeWhile is_digit t in if ds \<noteq> [] \<and> hd ds = CHR ''0'' then ''0'' else ds)"

definition float_tail :: "string \<Rightarrow> bool" where
  "float_tail r = (case r of
     c # d # t \<Rightarrow> c = CHR ''.'' \<and> is_digit d \<or>
       (c = CHR ''e'' \<or> c = CHR ''E'') \<and> (is_digit d \<or> (d = CHR ''-'' \<or> d = CHR ''+'') \<and> t \<noteq> [] \<and> is_digit (hd t))
   | _ \<Rightarrow> False)"

definition parse_number :: "string \<Rightarrow> (json \<times> string) result" where
  "parse_number s = (let neg = (s \<noteq> [] \<and> hd s = CHR ''-''); t = (if neg then tl s else s);
       ds = int_digits t; r = drop (length ds) t in
     if ds = [] then (if starts_with ''Infinity'' t \<or> starts_with ''NaN'' s then Inl Unmodelled else json_error)
     else if float_tail r then Inl Unmodelled
     else (case digit_run 10 False 0 ds of
         None \<Rightarrow> json_error
       | Some n \<Rightarrow> Inr (JInt (if neg then - int n else int n), r)))"

text \<open>
  The reader calls \<open>mk\<close> on the members of each object, as \<open>object_pairs_hook\<close>: without a hook the
  members become a dictionary, the last value of a key winning.
\<close>

definition dict_of :: "(string \<times> json) list \<Rightarrow> json" where
  "dict_of kvs = JObj (fold (\<lambda>(k, v) d. dset k v d) kvs [])"

fun parse_value :: "((string \<times> json) list \<Rightarrow> json) \<Rightarrow> nat \<Rightarrow> string \<Rightarrow> (json \<times> string) result"
  and parse_items :: "((string \<times> json) list \<Rightarrow> json) \<Rightarrow> nat \<Rightarrow> string \<Rightarrow> (json list \<times> string) result"
  and parse_members :: "((string \<times> json) list \<Rightarrow> json) \<Rightarrow> nat \<Rightarrow> string \<Rightarrow> ((string \<times> json) list \<times> string) result" where
  "parse_value mk 0 s = Inl (RuntimeError ''maximum recursion depth exceeded'')"
| "parse_value mk (Suc n) s = (case s of
     [] \<Rightarrow> json_error
   | c # cs \<Rightarrow>
       if c = CHR 0x22 then rmap (\<lambda>(t, r). (JStr t, r)) (parse_string [] cs)
       else if c = CHR ''{'' then (case skip_ws cs of
           d # ds \<Rightarrow> if d = CHR ''}'' then Inr (mk [], ds)
             else rmap (\<lambda>(kvs, r). (mk kvs, r)) (parse_members mk n (d # ds))
         | [] \<Rightarrow> json_error)
       else if c = CHR ''['' then (case skip_ws cs of
           d # ds \<Rightarrow> if d = CHR '']'' then Inr (JList [], ds)
             else rmap (\<lambda>(vs, r). (JList vs, r)) (parse_items mk n (d # ds))
         | [] \<Rightarrow> json_error)
       else if starts_with ''null'' s then Inr (JNull, drop 4 s)
       else if starts_with ''true'' s then Inr (JBool True, drop 4 s)
       else if starts_with ''false'' s then Inr (JBool False, drop 5 s)
       else parse_number s)"
| "parse_items mk 0 s = Inl (RuntimeError ''maximum recursion depth exceeded'')"
| "parse_items mk (Suc n) s = rbind (parse_value mk n s) (\<lambda>(v, r). case skip_ws r of
     c # cs \<Rightarrow> if c = CHR '']'' then Inr ([v], cs)
       else if c = CHR '','' then rmap (\<lambda>(vs, t). (v # vs, t)) (parse_items mk n (skip_ws cs))
       else json_error
   | [] \<Rightarrow> json_error)"
| "parse_members mk 0 s = Inl (RuntimeError ''maximum recursion depth exceeded'')"
| "parse_members mk (Suc n) s = (case s of
     c # cs \<Rightarrow> if c \<noteq> CHR 0x22 then json_error
       else rbind (parse_string [] cs) (\<lambda>(k, r). case skip_ws r of
           d # ds \<Rightarrow> if d \<noteq> CHR '':'' then json_error
             else rbind (parse_value mk n (skip_ws ds)) (\<lambda>(v, t). case skip_ws t of
                 e # es \<Rightarrow> if e = CHR ''}'' then Inr ([(k, v)], es)
                   else if e = CHR '','' then rmap (\<lambda>(kvs, u). ((k, v) # kvs, u)) (parse_members mk n (skip_ws es))
                   else json_error
               | [] \<Rightarrow> json_error)
         | [] \<Rightarrow> json_error)
   | [] \<Rightarrow> json_error)"

text \<open>Every recursive call reads at least one character, so the length of the text bounds their number.\<close>

definition json_loads :: "string \<Rightarrow> json result" where
  "json_loads s = rbind (parse_value dict_of (Suc (length s)) (skip_ws s)) (\<lambda>(v, r). if skip_ws r = [] then Inr v else json_error)"


section \<open>Reading back what was printed\<close>

fun sorted_json :: "json \<Rightarrow> json" where
  "sorted_json (JList vs) = JList (map sorted_json vs)"
| "sorted_json (JObj kvs) = JObj (sort_keys (map (\<lambda>(k, v). (k, sorted_json v)) kvs))"
| "sorted_json v = v"

lemma digit_char_hex: "d < 16 \<Longrightarrow> digit_val (digit_char d) = Some d"
  by (simp add: digit_val_char)

lemma hex_digits_hex4: "n < 65536 \<Longrightarrow> hex_digits (hex4 n) = Some n"
proof -
  assume n: "n < 65536"
  let ?a = "n div 16" let ?b = "?a div 16" let ?c = "?b div 16"
  have "?c < 16" using n by simp
  then have "((?c mod 16 * 16 + ?b mod 16) * 16 + ?a mod 16) * 16 + n mod 16 = n"
    by (simp only: mod_less div_mult_mod_eq)
  moreover have "?b = n div 256" "?c = n div 4096" by (simp_all add: div_mult2_eq [symmetric])
  ultimately show ?thesis by (simp add: hex4_def digit_char_hex)
qed

lemma code_lt: "code (c :: char) < 256"
  using of_char_mod_256 [of c] by (metis mod_less_divisor zero_less_numeral)

lemma parse_plain:
  assumes "32 \<le> code c" "code c \<le> 126" "c \<noteq> CHR 0x22" "c \<noteq> CHR 0x5C"
  shows "parse_string acc (esc_char c @ t) = parse_string (c # acc) t"
proof -
  have "esc_char c = [c]" using assms by (simp add: esc_char_def Let_def)
  then show ?thesis using assms by simp
qed

lemma parse_named_escape:
  "c = CHR 0x22 \<or> c = CHR 0x5C \<or> c = CHR 0x08 \<or> c = CHR 0x09 \<or> c = CHR 0x0A \<or> c = CHR 0x0C \<or> c = CHR 0x0D \<Longrightarrow>
     parse_string acc (esc_char c @ t) = parse_string (c # acc) t"
  by (elim disjE) (simp_all add: esc_char_def Let_def escape_value_def)

lemma code_chars:
  "code c = 8 \<longleftrightarrow> c = CHR 0x08" "code c = 9 \<longleftrightarrow> c = CHR 0x09" "code c = 10 \<longleftrightarrow> c = CHR 0x0A"
  "code c = 12 \<longleftrightarrow> c = CHR 0x0C" "code c = 13 \<longleftrightarrow> c = CHR 0x0D"
  using of_char_eq_iff [where ?'a = nat, of c "CHR 0x08"] of_char_eq_iff [where ?'a = nat, of c "CHR 0x09"]
    of_char_eq_iff [where ?'a = nat, of c "CHR 0x0A"] of_char_eq_iff [where ?'a = nat, of c "CHR 0x0C"]
    of_char_eq_iff [where ?'a = nat, of c "CHR 0x0D"] by simp_all

lemma parse_hex_escape:
  assumes "\<not> (32 \<le> code c \<and> code c \<le> 126)" "code c \<notin> {8, 9, 10, 12, 13}"
  shows "parse_string acc (esc_char c @ t) = parse_string (c # acc) t"
proof -
  have "c \<noteq> CHR 0x22" "c \<noteq> CHR 0x5C" using assms(1) by auto
  then have e: "esc_char c = [CHR 0x5C, CHR ''u''] @ hex4 (code c)"
    using assms unfolding esc_char_def Let_def by simp
  obtain h1 h2 h3 h4 where h: "hex4 (code c) = [h1, h2, h3, h4]" by (simp add: hex4_def)
  have "hex_digits [h1, h2, h3, h4] = Some (code c)"
    using hex_digits_hex4 [of "code c"] code_lt [of c] by (simp only: h)
  then show ?thesis unfolding e h using code_lt [of c] by (simp del: hex_digits.simps)
qed

lemma parse_esc_char: "parse_string acc (esc_char c @ t) = parse_string (c # acc) t"
  using parse_plain [of c acc t] parse_named_escape [of c acc t] parse_hex_escape [of c acc t] code_chars [of c]
  by blast

lemma parse_quoted: "parse_string acc (concat (map esc_char s) @ CHR 0x22 # r) = Inr (rev acc @ s, r)"
  by (induction s arbitrary: acc) (simp_all add: parse_esc_char del: parse_string.simps(2), simp)

text \<open>What may follow a value: the end, or a delimiter.\<close>

definition delim :: "string \<Rightarrow> bool" where
  "delim r \<longleftrightarrow> (case r of [] \<Rightarrow> True | c # _ \<Rightarrow> c = CHR '','' \<or> c = CHR '']'' \<or> c = CHR ''}'')"

lemma delim_not: "delim (c # r) \<Longrightarrow> \<not> is_digit c \<and> c \<noteq> CHR ''.'' \<and> c \<noteq> CHR ''e'' \<and> c \<noteq> CHR ''E''"
  by (auto simp: delim_def is_digit_def)

lemma show_base_hd: "hd (show_base 10 n) = CHR ''0'' \<Longrightarrow> show_base 10 n = ''0''"
proof (induction n rule: less_induct)
  case (less n)
  show ?case
  proof (cases "n < 10")
    case True
    with less.prems show ?thesis by (subst (asm) show_base.simps, subst show_base.simps) simp
  next
    case False
    have e: "show_base 10 n = show_base 10 (n div 10) @ [digit_char (n mod 10)]"
      using False by (subst show_base.simps) simp
    with less.prems have "hd (show_base 10 (n div 10)) = CHR ''0''" by simp
    with less.IH [of "n div 10"] False have z: "show_base 10 (n div 10) = ''0''" by simp
    have "digit_run 10 True 0 (show_base 10 (n div 10)) = Some (n div 10)" by (simp add: digit_run_show_base)
    then have "n div 10 = 0" unfolding z by (simp add: digit_val_def is_digit_def)
    with False show ?thesis by simp
  qed
qed

lemma int_digits_show: "delim r \<Longrightarrow> int_digits (show_nat n @ r) = show_nat n"
proof -
  assume "delim r"
  then have "takeWhile is_digit (show_nat n @ r) = show_nat n"
    using show_base_digits [of n] delim_not [of "hd r" "tl r"]
    by (cases r) (simp_all add: show_nat_def takeWhile_append2 list_all_iff)
  then show ?thesis using show_base_hd [of n] by (auto simp: int_digits_def show_nat_def Let_def)
qed

lemma parse_number_nat:
  assumes "delim r"
  shows "parse_number (show_nat n @ r) = Inr (JInt (int n), r)"
    and "parse_number (CHR ''-'' # show_nat n @ r) = Inr (JInt (- int n), r)"
proof -
  have nh: "hd (show_nat n) \<noteq> CHR ''-''" and nn: "show_nat n \<noteq> []"
    using show_base_digits [of n] show_base_not_Nil [of 10 n]
    by (cases "show_base 10 n"; auto simp: show_nat_def is_digit_def)+
  have run: "digit_run 10 False 0 (show_nat n) = Some n" by (simp add: show_nat_def digit_run_show_base)
  have f: "\<not> float_tail r" using assms by (auto simp: delim_def float_tail_def split: list.splits)
  show "parse_number (show_nat n @ r) = Inr (JInt (int n), r)"
    using nn nh f unfolding parse_number_def Let_def by (simp add: int_digits_show [OF assms] run)
  show "parse_number (CHR ''-'' # show_nat n @ r) = Inr (JInt (- int n), r)"
    using nn f unfolding parse_number_def Let_def by (simp add: int_digits_show [OF assms] run)
qed

lemma parse_show_int: "delim r \<Longrightarrow> parse_number (show_int i @ r) = Inr (JInt i, r)"
  using parse_number_nat [of r "nat i"] parse_number_nat [of r "nat (- i)"] by (auto simp: show_int_def)

lemma show_int_hd: "\<exists>c cs. show_int i = c # cs \<and> (c = CHR ''-'' \<or> is_digit c)"
proof -
  have "\<exists>c cs. show_nat n = c # cs \<and> is_digit c" for n
    using show_base_digits [of n] show_base_not_Nil [of 10 n] by (cases "show_base 10 n") (auto simp: show_nat_def)
  then show ?thesis unfolding show_int_def by (metis list.inject)
qed


lemma insort_keys_map:
  "insort_key fst (k, f v) (map (\<lambda>(k, v). (k, f v)) xs) = map (\<lambda>(k, v). (k, f v)) (insort_key fst (k, v) xs)"
  by (induction xs) auto

lemma sort_keys_map: "sort_keys (map (\<lambda>(k, v). (k, f v)) kvs) = map (\<lambda>(k, v). (k, f v)) (sort_keys kvs)"
  unfolding sort_keys_def sort_key_def by (induction kvs) (auto simp: insort_keys_map)

lemma map_fst_sort_keys: "map fst (sort_keys kvs) = sort (map fst kvs)"
proof -
  have "map fst (insort_key fst kv xs) = insort (fst kv) (map fst xs)" for kv :: "string \<times> 'a" and xs
    by (induction xs) auto
  then show ?thesis unfolding sort_keys_def sort_key_def by (induction kvs) auto
qed

lemma set_sort_keys [simp]: "set (sort_keys kvs) = set kvs"
  by (simp add: sort_keys_def)

lemma fold_dset_distinct: "distinct (map fst kvs) \<Longrightarrow> set (map fst kvs) \<inter> set (map fst d) = {} \<Longrightarrow>
    fold (\<lambda>(k, v) d. dset k v d) kvs d = d @ kvs"
proof (induction kvs arbitrary: d)
  case (Cons kv kvs)
  obtain k v where kv: "kv = (k, v)" by fastforce
  have "dset k v e = e @ [(k, v)]" if "k \<notin> set (map fst e)" for e :: "('a, 'b) dict"
    using that by (induction e) (auto simp: dset_def)
  with Cons kv show ?case by auto
qed simp

lemma hd_not_space: "\<exists>c cs. canonical v = c # cs \<and> \<not> is_json_space c"
proof (cases v)
  case (JInt i)
  then show ?thesis using show_int_hd [of i] by (auto simp: is_json_space_def is_digit_def)
qed (auto simp: is_json_space_def quoted_def)

lemma not_bracket: "\<exists>c cs. canonical v = c # cs \<and> c \<noteq> CHR '']'' \<and> c \<noteq> CHR ''}''"
proof (cases v)
  case (JInt i)
  then show ?thesis using show_int_hd [of i] by (auto simp: is_digit_def)
qed (auto simp: quoted_def)

lemma skip_canonical: "skip_ws (canonical v @ r) = canonical v @ r"
  using hd_not_space [of v] by (auto simp: skip_ws_def)

lemma canonical_length: "0 < length (canonical v)"
  using hd_not_space [of v] by auto

lemma delim_skip: "delim r \<Longrightarrow> skip_ws r = r"
  by (auto simp: delim_def skip_ws_def is_json_space_def split: list.splits)

section \<open>The round trip\<close>

text \<open>A reader with enough steps for the printed text returns the value and the rest.\<close>

definition reads :: "json \<Rightarrow> bool" where
  "reads v \<longleftrightarrow> (\<forall>n r. length (canonical v) \<le> n \<longrightarrow> delim r \<longrightarrow> parse_value dict_of n (canonical v @ r) = Inr (sorted_json v, r))"

lemma reads_items:
  assumes "list_all reads vs" "vs \<noteq> []" "length (join '','' (map canonical vs)) < n"
  shows "parse_items dict_of n (join '','' (map canonical vs) @ CHR '']'' # r) = Inr (map sorted_json vs, r)"
  using assms
proof (induction vs arbitrary: n)
  case (Cons v vs)
  then obtain m where n: "n = Suc m" by (cases n) auto
  show ?case
  proof (cases "vs = []")
    case True
    have "parse_value dict_of m (canonical v @ CHR '']'' # r) = Inr (sorted_json v, CHR '']'' # r)"
      using Cons.prems True n by (simp add: reads_def delim_def)
    with True show ?thesis by (simp add: n skip_ws_def is_json_space_def)
  next
    case False
    let ?rest = "join '','' (map canonical vs) @ CHR '']'' # r"
    have j: "join '','' (map canonical (v # vs)) @ CHR '']'' # r = canonical v @ CHR '','' # ?rest"
      using False by (cases vs) auto
    have len: "length (join '','' (map canonical vs)) < m" "length (canonical v) \<le> m"
      using Cons.prems(3) n False by (cases vs; auto)+
    have "parse_value dict_of m (canonical v @ CHR '','' # ?rest) = Inr (sorted_json v, CHR '','' # ?rest)"
      using Cons.prems len by (simp add: reads_def delim_def)
    moreover have "parse_items dict_of m ?rest = Inr (map sorted_json vs, r)"
      using Cons.IH [of m] Cons.prems False len by simp
    moreover have "skip_ws ?rest = ?rest"
      using False skip_canonical by (cases vs rule: list.exhaust; cases "tl vs") auto
    ultimately show ?thesis unfolding j n
      by (simp add: skip_ws_def [of "CHR '','' # _"] is_json_space_def)
  qed
qed simp


definition member :: "string \<times> json \<Rightarrow> string" where
  "member kv = quoted (fst kv) @ '':'' @ canonical (snd kv)"

lemma member_hd: "member kv = CHR 0x22 # concat (map esc_char (fst kv)) @ CHR 0x22 # CHR '':'' # canonical (snd kv)"
  by (simp add: member_def quoted_def)

lemma members_hd: "kvs \<noteq> [] \<Longrightarrow> \<exists>c. join '','' (map member kvs) @ t = CHR 0x22 # c"
proof (cases kvs)
  case (Cons kv rest)
  then show ?thesis by (cases rest) (simp_all add: member_hd)
qed simp

lemma reads_members:
  assumes "list_all (\<lambda>kv. reads (snd kv)) kvs" "kvs \<noteq> []" "length (join '','' (map member kvs)) < n"
  shows "parse_members dict_of n (join '','' (map member kvs) @ CHR ''}'' # r) = Inr (map (\<lambda>(k, v). (k, sorted_json v)) kvs, r)"
  using assms
proof (induction kvs arbitrary: n)
  case (Cons kv kvs)
  obtain k v where kv: "kv = (k, v)" by fastforce
  from Cons.prems obtain m where n: "n = Suc m" by (cases n) auto
  have step: "parse_members dict_of n (member kv @ t) =
      rbind (parse_value dict_of m (canonical v @ t)) (\<lambda>(v, t). case skip_ws t of
                 e # es \<Rightarrow> if e = CHR ''}'' then Inr ([(k, v)], es)
                   else if e = CHR '','' then rmap (\<lambda>(kvs, u). ((k, v) # kvs, u)) (parse_members dict_of m (skip_ws es))
                   else json_error
               | [] \<Rightarrow> json_error)" for t
    using parse_quoted [of "[]" k "CHR '':'' # canonical v @ t"]
    by (simp add: n member_hd kv skip_ws_def [of "CHR '':'' # _"] is_json_space_def skip_canonical)
  show ?case
  proof (cases "kvs = []")
    case True
    have "parse_value dict_of m (canonical v @ CHR ''}'' # r) = Inr (sorted_json v, CHR ''}'' # r)"
      using Cons.prems True n kv by (simp add: reads_def delim_def member_def quoted_def)
    with True step [of "CHR ''}'' # r"] show ?thesis by (simp add: kv skip_ws_def is_json_space_def)
  next
    case False
    let ?rest = "join '','' (map member kvs) @ CHR ''}'' # r"
    have jl: "join '','' (map member (kv # kvs)) = member kv @ '','' @ join '','' (map member kvs)"
      using False by (cases kvs) simp_all
    then have j: "join '','' (map member (kv # kvs)) @ CHR ''}'' # r = member kv @ CHR '','' # ?rest" by simp
    have len: "length (join '','' (map member kvs)) < m" "length (canonical v) \<le> m"
      using Cons.prems(3) unfolding n jl by (simp_all add: member_def kv)
    have "parse_value dict_of m (canonical v @ CHR '','' # ?rest) = Inr (sorted_json v, CHR '','' # ?rest)"
      using Cons.prems len kv by (simp add: reads_def delim_def)
    moreover have "parse_members dict_of m ?rest = Inr (map (\<lambda>(k, v). (k, sorted_json v)) kvs, r)"
      using Cons.IH [of m] Cons.prems False len by simp
    moreover have "skip_ws ?rest = ?rest"
      using members_hd [OF False, of "CHR ''}'' # r"] by (auto simp: skip_ws_def is_json_space_def)
    ultimately show ?thesis unfolding j step
      by (simp add: kv skip_ws_def [of "CHR '','' # _"] is_json_space_def)
  qed
qed simp

lemma canonical_obj: "canonical (JObj kvs) = ''{'' @ join '','' (map member (sort_keys kvs)) @ ''}''"
proof -
  have "map (\<lambda>(k, s). quoted k @ '':'' @ s) (sort_keys (map (\<lambda>(k, v). (k, canonical v)) kvs)) = map member (sort_keys kvs)"
    unfolding sort_keys_map by (simp add: member_def case_prod_unfold comp_def)
  then show ?thesis by simp
qed

lemma reads_obj:
  assumes "distinct (map fst kvs)" "list_all (\<lambda>kv. reads (snd kv)) kvs"
  shows "reads (JObj kvs)"
  unfolding reads_def
proof (intro allI impI)
  fix n r assume n: "length (canonical (JObj kvs)) \<le> n" and r: "delim r"
  let ?s = "sort_keys kvs"
  have s: "list_all (\<lambda>kv. reads (snd kv)) ?s" using assms(2) by (simp add: list_all_iff)
  from n canonical_length [of "JObj kvs"] obtain m where m: "n = Suc m" by (cases n) auto
  show "parse_value dict_of n (canonical (JObj kvs) @ r) = Inr (sorted_json (JObj kvs), r)"
  proof (cases "?s = []")
    case True
    then have "kvs = []" by (metis set_sort_keys set_empty)
    with True show ?thesis unfolding canonical_obj m by (simp add: skip_ws_def is_json_space_def dict_of_def)
  next
    case False
    have "length (join '','' (map member ?s)) < m" using n unfolding canonical_obj m by simp
    from reads_members [OF s False this, of r]
    have p: "parse_members dict_of m (join '','' (map member ?s) @ CHR ''}'' # r) = Inr (map (\<lambda>(k, v). (k, sorted_json v)) ?s, r)" .
    obtain c where c: "join '','' (map member ?s) @ CHR ''}'' # r = CHR 0x22 # c" using members_hd [OF False] by blast
    have "distinct (map fst (map (\<lambda>(k, v). (k, sorted_json v)) ?s))"
      using assms(1) map_fst_sort_keys [of kvs] by (simp add: comp_def case_prod_unfold)
    then have "fold (\<lambda>(k, v) d. dset k v d) (map (\<lambda>(k, v). (k, sorted_json v)) ?s) [] = map (\<lambda>(k, v). (k, sorted_json v)) ?s"
      using fold_dset_distinct [of "map (\<lambda>(k, v). (k, sorted_json v)) ?s" "[]"] by simp
    with p show ?thesis unfolding canonical_obj m
      by (simp add: c skip_ws_def is_json_space_def sort_keys_map dict_of_def)
  qed
qed

lemma reads_list:
  assumes "list_all reads vs"
  shows "reads (JList vs)"
  unfolding reads_def
proof (intro allI impI)
  fix n r assume n: "length (canonical (JList vs)) \<le> n" and r: "delim r"
  then obtain m where m: "n = Suc m" by (cases n) auto
  show "parse_value dict_of n (canonical (JList vs) @ r) = Inr (sorted_json (JList vs), r)"
  proof (cases vs)
    case Nil
    then show ?thesis by (simp add: m skip_ws_def is_json_space_def)
  next
    case (Cons v ws)
    have p: "parse_items dict_of m (join '','' (map canonical vs) @ CHR '']'' # r) = Inr (map sorted_json vs, r)"
      using reads_items [OF assms, of m r] n m Cons by simp
    have "\<exists>t. join '','' (map canonical vs) @ CHR '']'' # r = canonical v @ t"
      using Cons by (cases ws) auto
    then obtain c cs where c: "join '','' (map canonical vs) @ CHR '']'' # r = c # cs" "\<not> is_json_space c" "c \<noteq> CHR '']''"
      using hd_not_space [of v] not_bracket [of v] by fastforce
    with p show ?thesis by (simp add: m skip_ws_def)
  qed
qed

lemma json_reads: "json_wf v \<Longrightarrow> reads v"
proof (induction v)
  case JNull
  have "parse_value dict_of n (''null'' @ r) = Inr (JNull, r)" if "4 \<le> n" for n r
    using that by (cases n) simp_all
  then show ?case by (simp add: reads_def)
next
  case (JBool b)
  have "parse_value dict_of n (''true'' @ r) = Inr (JBool True, r)" "parse_value dict_of n (''false'' @ r) = Inr (JBool False, r)" if "4 \<le> n" for n r
    using that by (cases n; simp)+
  then show ?case by (simp add: reads_def)
next
  case (JInt i)
  obtain c cs where c: "show_int i = c # cs" "c = CHR ''-'' \<or> is_digit c" using show_int_hd [of i] by blast
  have "parse_value dict_of n (show_int i @ r) = Inr (JInt i, r)" if n: "length (show_int i) \<le> n" and "delim r" for n r
  proof -
    from n c obtain m where "n = Suc m" by (cases n) auto
    moreover have "c \<noteq> CHR 0x22 \<and> c \<noteq> CHR ''{'' \<and> c \<noteq> CHR ''['' \<and> c \<noteq> CHR ''n'' \<and> c \<noteq> CHR ''t'' \<and> c \<noteq> CHR ''f''"
      using c(2) by (auto simp: is_digit_def)
    ultimately show ?thesis using c(1) parse_show_int [OF \<open>delim r\<close>, of i] by auto
  qed
  then show ?case by (simp add: reads_def)
next
  case (JStr s)
  have "parse_value dict_of n (quoted s @ r) = Inr (JStr s, r)" if n: "length (quoted s) \<le> n" for n r
  proof -
    from n obtain m where "n = Suc m" by (cases n) (auto simp: quoted_def)
    with parse_quoted [of "[]" s r] show ?thesis by (simp add: quoted_def)
  qed
  then show ?case by (simp add: reads_def)
next
  case (JList vs)
  then show ?case by (intro reads_list) (auto simp: list_all_iff)
next
  case (JObj kvs)
  then show ?case by (intro reads_obj) (auto simp: list_all_iff)
qed

lemma loads_canonical: "json_wf v \<Longrightarrow> json_loads (canonical v) = Inr (sorted_json v)"
proof -
  assume "json_wf v"
  moreover have "delim []" by (simp add: delim_def)
  ultimately have "parse_value dict_of (Suc (length (canonical v))) (canonical v @ []) = Inr (sorted_json v, [])"
    using json_reads [of v] le_SucI [OF le_refl] unfolding reads_def by blast
  then show ?thesis using skip_canonical [of v "[]"] by (simp add: json_loads_def skip_ws_def [of "[]"] del: parse_value.simps)
qed

lemma dget_sort_keys: "distinct (map fst kvs) \<Longrightarrow> dget (sort_keys kvs) k = dget kvs k"
proof -
  assume d: "distinct (map fst kvs)"
  then have "distinct (map fst (sort_keys kvs))" by (simp add: map_fst_sort_keys)
  with d have "map_of (sort_keys kvs) = map_of kvs" by (simp add: map_of_inject_set)
  then show ?thesis by (simp add: dget_def)
qed

section \<open>Members and checks\<close>

definition check :: "bool \<Rightarrow> string \<Rightarrow> unit result" where
  "check b msg = (if b then Inr () else Inl (ValueError msg))"

lemma check_Inr [simp]: "check b msg = Inr u \<longleftrightarrow> b"
  by (simp add: check_def)

text \<open>\<open>d[k]\<close>, \<open>d.get(k)\<close>, the keys, and a value used as a text.\<close>

definition jfind :: "string \<Rightarrow> json \<Rightarrow> json option" where
  "jfind k v = (case v of JObj kvs \<Rightarrow> dget kvs k | _ \<Rightarrow> None)"

definition jget :: "string \<Rightarrow> json \<Rightarrow> json result" where
  "jget k v = (case v of JObj kvs \<Rightarrow> (case dget kvs k of Some x \<Rightarrow> Inr x | None \<Rightarrow> Inl (KeyError k)) | _ \<Rightarrow> Inl TypeError)"

definition is_dict :: "json \<Rightarrow> bool" where
  "is_dict v = (case v of JObj _ \<Rightarrow> True | _ \<Rightarrow> False)"

definition has_keys :: "string list \<Rightarrow> json \<Rightarrow> bool" where
  "has_keys ks v = (case v of JObj kvs \<Rightarrow> set (dkeys kvs) = set ks | _ \<Rightarrow> False)"

definition jstr :: "json \<Rightarrow> string result" where
  "jstr v = (case v of JStr s \<Rightarrow> Inr s | _ \<Rightarrow> Inl TypeError)"

definition is_str :: "json \<Rightarrow> bool" where
  "is_str v = (case v of JStr _ \<Rightarrow> True | _ \<Rightarrow> False)"

text \<open>A member of a dict whose keys were checked.\<close>

definition jat :: "string \<Rightarrow> json \<Rightarrow> json" where
  "jat k v = (case jfind k v of Some x \<Rightarrow> x | None \<Rightarrow> JNull)"

text \<open>\<open>type(v) is int\<close> with bounds.\<close>

definition int_in :: "int \<Rightarrow> int \<Rightarrow> json \<Rightarrow> bool" where
  "int_in lo hi v = (case v of JInt i \<Rightarrow> lo \<le> i \<and> i \<le> hi | _ \<Rightarrow> False)"

definition one_of :: "string list \<Rightarrow> json \<Rightarrow> bool" where
  "one_of xs v = (case v of JStr s \<Rightarrow> s \<in> set xs | _ \<Rightarrow> False)"

definition is_hex64 :: "string \<Rightarrow> bool" where
  "is_hex64 s \<longleftrightarrow> length s = 64 \<and> list_all (\<lambda>c. c \<in> set ''0123456789abcdef'') s"

text \<open>Reading back sorted values.\<close>

lemma dget_map_snd: "dget (map (\<lambda>(k, v). (k, f v)) kvs) k = map_option f (dget kvs k)"
  by (induction kvs) (auto simp: dget_def)

lemma jat_sorted: "json_wf v \<Longrightarrow> jat k (sorted_json v) = sorted_json (jat k v)"
proof (cases v)
  case (JObj kvs)
  assume "json_wf v"
  then have "distinct (map fst kvs)" by (simp add: JObj)
  then show ?thesis
    by (simp add: JObj jat_def jfind_def sort_keys_map dget_map_snd dget_sort_keys split: option.splits)
qed (simp_all add: jat_def jfind_def)

lemma has_keys_sorted: "has_keys ks (sorted_json v) = has_keys ks v"
proof (cases v)
  case (JObj kvs)
  have "set (map fst (sort_keys (map (\<lambda>(k, v). (k, sorted_json v)) kvs))) = set (map fst kvs)"
    unfolding map_fst_sort_keys set_sort by (simp add: comp_def case_prod_unfold)
  then show ?thesis by (simp only: JObj sorted_json.simps has_keys_def dkeys_def json.case)
qed (simp_all add: has_keys_def)

lemma py_norm_sorted: "json_wf v \<Longrightarrow> py_norm (sorted_json v) = py_norm v"
proof (induction v)
  case (JObj kvs)
  then have "map (\<lambda>(k, v). (k, py_norm (sorted_json v))) kvs = map (\<lambda>(k, v). (k, py_norm v)) kvs"
    by (auto simp: list_all_iff)
  moreover have "sort_keys (sort_keys kvs) = sort_keys kvs"
    unfolding sort_keys_def by (metis sort_key_id_if_sorted sorted_sort_key)
  ultimately show ?case
    by (simp only: sorted_json.simps py_norm.simps sort_keys_map) (simp add: sort_keys_map [symmetric] case_prod_unfold comp_def)
qed (auto simp: list_all_iff)

lemma py_eq_sorted [simp]: "json_wf v \<Longrightarrow> py_eq (sorted_json v) v" "json_wf v \<Longrightarrow> py_eq v (sorted_json v)"
  by (simp_all add: py_eq_def py_norm_sorted)

lemma dict_of_wf: "list_all (\<lambda>(k, v). json_wf v) kvs \<Longrightarrow> json_wf (dict_of kvs)"
proof -
  have up: "set (AList.update k v d) \<subseteq> insert (k, v) (set d)" for k :: string and v :: json and d
    by (induction d) auto
  have "list_all (\<lambda>(k, v). json_wf v) kvs \<Longrightarrow> distinct (map fst d) \<Longrightarrow> list_all (\<lambda>(k, v). json_wf v) d \<Longrightarrow>
      json_wf (JObj (fold (\<lambda>(k, v) d. dset k v d) kvs d))" for d
  proof (induction kvs arbitrary: d)
    case (Cons kv kvs)
    obtain k v where kv: "kv = (k, v)" by fastforce
    have "list_all (\<lambda>(k, v). json_wf v) (dset k v d)" using Cons.prems up [of k v d] by (auto simp: kv dset_def list_all_iff)
    moreover have "distinct (map fst (dset k v d))" using Cons.prems by (simp add: dset_def distinct_update)
    ultimately show ?case using Cons.IH Cons.prems by (simp add: kv)
  qed simp
  then show "list_all (\<lambda>(k, v). json_wf v) kvs \<Longrightarrow> json_wf (dict_of kvs)" by (simp add: dict_of_def)
qed

text \<open>What the reader builds is well formed.\<close>

lemma parse_wf:
  "\<And>v r. parse_value mk n s = Inr (v, r) \<Longrightarrow> mk = dict_of \<Longrightarrow> json_wf v"
  "\<And>vs r. parse_items mk n s = Inr (vs, r) \<Longrightarrow> mk = dict_of \<Longrightarrow> list_all json_wf vs"
  "\<And>kvs r. parse_members mk n s = Inr (kvs, r) \<Longrightarrow> mk = dict_of \<Longrightarrow> list_all (\<lambda>(k, v). json_wf v) kvs"
proof (induction mk n s and mk n s and mk n s rule: parse_value_parse_items_parse_members.induct)
  case (2 mk n s)
  obtain c cs where s: "s = c # cs" using 2(3) by (cases s) (simp_all add: json_error_def)
  consider (obj) "c = CHR ''{''" | (list) "c = CHR ''[''" | (other) "c \<noteq> CHR ''{''" "c \<noteq> CHR ''[''" by blast
  then show ?case
  proof cases
    case obj
    then obtain d ds where d: "skip_ws cs = d # ds" using 2(3) s by (cases "skip_ws cs") (simp_all add: json_error_def)
    show ?thesis
    proof (cases "d = CHR ''}''")
      case True
      then show ?thesis using 2(3,4) s obj d dict_of_wf [of "[]"] by simp
    next
      case False
      then show ?thesis using 2 s obj d by (auto simp: rmap_Inr intro!: dict_of_wf)
    qed
  next
    case list
    then obtain d ds where d: "skip_ws cs = d # ds" using 2(3) s by (cases "skip_ws cs") (simp_all add: json_error_def)
    show ?thesis
    proof (cases "d = CHR '']''")
      case False
      then show ?thesis using 2 s list d by (auto simp: rmap_Inr)
    qed (use 2(3) s list d in auto)
  next
    case other
    then have "(\<exists>u. v = JStr u) \<or> v = JNull \<or> (\<exists>b. v = JBool b) \<or> parse_number s = Inr (v, r)"
      using 2(3) s by (auto simp: rmap_Inr split: if_splits)
    moreover have "json_wf v" if "parse_number s = Inr (v, r)"
      using that by (auto simp: parse_number_def json_error_def Let_def split: if_splits option.splits)
    ultimately show ?thesis by auto
  qed
next
  case (4 mk n s)
  then show ?case by (fastforce simp: json_error_def rmap_Inr split: list.splits if_splits)
next
  case (6 mk n s)
  then show ?case by (fastforce simp: json_error_def rmap_Inr split: list.splits if_splits)
qed simp_all

lemma json_loads_wf: "json_loads s = Inr v \<Longrightarrow> json_wf v"
  by (auto simp: json_loads_def json_error_def simp del: parse_value.simps dest: parse_wf(1) split: if_splits)

text \<open>The values of a well-formed object are well-formed.\<close>

lemma json_wf_jat: "json_wf v \<Longrightarrow> json_wf (jat k v)"
  by (cases v) (auto simp: jat_def jfind_def list_all_iff split: option.splits dest: dget_in_set)

lemma json_wf_jget: "jget k v = Inr u \<Longrightarrow> json_wf v \<Longrightarrow> json_wf u"
  by (cases v) (auto simp: jget_def list_all_iff split: option.splits dest: dget_in_set)

end
