(* ===== verification/PyFs.thy ===== *)
theory PyFs
  imports PyText
begin

text \<open>
  The file system the caches work on: a dictionary from absolute, normalised paths (no
  symbolic links) to files and directories, the system calls the scripts make on it, and
  actions that may raise. One process at a time: the effects of others are not modelled.
\<close>

section \<open>Paths\<close>

definition sub :: "string \<Rightarrow> string \<Rightarrow> string" where
  "sub d name = d @ ''/'' @ name"

definition in_tree :: "string \<Rightarrow> string \<Rightarrow> bool" where
  "in_tree d p \<longleftrightarrow> p = d \<or> starts_with (d @ ''/'') p"

text \<open>\<open>Path.parent\<close> and \<open>Path.name\<close>.\<close>

definition path_name :: "string \<Rightarrow> string" where
  "path_name p = rev (takeWhile (\<lambda>c. c \<noteq> CHR ''/'') (rev p))"

definition path_parent :: "string \<Rightarrow> string" where
  "path_parent p = rev (drop 1 (dropWhile (\<lambda>c. c \<noteq> CHR ''/'') (rev p)))"

text \<open>\<open>Path.resolve\<close> of an absolute path, without symbolic links: by its components. The root directory is the empty text.\<close>

fun path_step :: "string list \<Rightarrow> string \<Rightarrow> string list" where
  "path_step acc c = (if c = [] \<or> c = ''.'' then acc else if c = ''..'' then drop 1 acc else c # acc)"

definition resolve_path :: "string \<Rightarrow> string" where
  "resolve_path p = concat (map (\<lambda>c. ''/'' @ c) (rev (foldl path_step [] (split_on (CHR ''/'') p))))"

text \<open>On the paths of the file system, which are normal, it is the identity.\<close>

definition normal_path :: "string list \<Rightarrow> string" where
  "normal_path cs = concat (map (\<lambda>c. ''/'' @ c) cs)"

lemma split_normal: "list_all (\<lambda>c. CHR ''/'' \<notin> set c) cs \<Longrightarrow> split_on (CHR ''/'') (normal_path cs) = [] # cs"
proof (induction cs)
  case (Cons c cs)
  have "split_on (CHR ''/'') (c @ normal_path cs) = c # cs"
  proof (cases cs)
    case Nil
    then show ?thesis using Cons.prems by (simp add: normal_path_def split_on_id)
  next
    case (Cons d ds)
    then obtain t where t: "normal_path cs = CHR ''/'' # t" by (simp add: normal_path_def)
    then have "split_on (CHR ''/'') t = cs" using Cons.IH Cons.prems by simp
    then show ?thesis using Cons.prems t by (simp add: split_on_append)
  qed
  then show ?case by (simp add: normal_path_def)
qed (simp add: normal_path_def)

lemma resolve_normal:
  assumes "list_all (\<lambda>c. CHR ''/'' \<notin> set c \<and> c \<notin> {[], ''.'', ''..''}) cs"
  shows "resolve_path (normal_path cs) = normal_path cs"
proof -
  have "foldl path_step acc cs = rev cs @ acc" for acc using assms by (induction cs arbitrary: acc) auto
  moreover have "split_on (CHR ''/'') (normal_path cs) = [] # cs" using assms by (intro split_normal) (auto simp: list_all_iff)
  ultimately show ?thesis by (simp add: resolve_path_def normal_path_def)
qed

lemma in_tree_iff: "in_tree d p \<longleftrightarrow> (\<exists>t. p = d @ t \<and> (t = [] \<or> hd t = CHR ''/''))"
proof
  assume "in_tree d p"
  then show "\<exists>t. p = d @ t \<and> (t = [] \<or> hd t = CHR ''/'')"
    unfolding in_tree_def starts_with_iff by auto
next
  assume "\<exists>t. p = d @ t \<and> (t = [] \<or> hd t = CHR ''/'')"
  then obtain t where t: "p = d @ t" "t = [] \<or> hd t = CHR ''/''" by blast
  then show "in_tree d p" unfolding in_tree_def starts_with_iff by (cases t) auto
qed

lemma in_tree_refl [simp]: "in_tree d d"
  by (simp add: in_tree_def)

lemma in_tree_sub [simp]: "in_tree d (sub d n)"
  by (auto simp: in_tree_iff sub_def)

lemma in_tree_trans: "in_tree a b \<Longrightarrow> in_tree b c \<Longrightarrow> in_tree a c"
  by (auto simp: in_tree_iff hd_append)

lemma in_tree_append: "in_tree a p \<Longrightarrow> in_tree (d @ a) (d @ p)"
  by (auto simp: in_tree_iff)

text \<open>Entries of one directory with different names are apart.\<close>

lemma siblings_apart:
  assumes "m \<noteq> n" "CHR ''/'' \<notin> set m" "CHR ''/'' \<notin> set n"
  shows "\<not> in_tree (sub d m) (sub d n)"
proof
  assume "in_tree (sub d m) (sub d n)"
  then obtain t where "n = m @ t" "t = [] \<or> hd t = CHR ''/''" by (auto simp: in_tree_iff sub_def)
  with assms show False by (cases t) auto
qed

lemma takeWhile_segment:
  "CHR ''/'' \<notin> set m \<Longrightarrow> t = [] \<or> hd t = CHR ''/'' \<Longrightarrow> takeWhile (\<lambda>c. c \<noteq> CHR ''/'') (m @ t) = m"
proof (induction m)
  case Nil
  then show ?case by (cases t) auto
qed auto

lemma siblings_tree:
  assumes "m \<noteq> n" "CHR ''/'' \<notin> set m" "CHR ''/'' \<notin> set n" "in_tree (sub d n) p"
  shows "\<not> in_tree (sub d m) p"
proof
  assume "in_tree (sub d m) p"
  then obtain t u where "m @ t = n @ u" "t = [] \<or> hd t = CHR ''/''" "u = [] \<or> hd u = CHR ''/''"
    using assms(4) by (auto simp: in_tree_iff sub_def)
  moreover from this have "takeWhile (\<lambda>c. c \<noteq> CHR ''/'') (m @ t) = m" "takeWhile (\<lambda>c. c \<noteq> CHR ''/'') (n @ u) = n"
    using takeWhile_segment [OF assms(2), of t] takeWhile_segment [OF assms(3), of u] by simp_all
  ultimately show False using assms(1) by simp
qed

lemma trees_nested: "in_tree a q \<Longrightarrow> in_tree b q \<Longrightarrow> in_tree a b \<or> in_tree b a"
proof -
  assume "in_tree a q" "in_tree b q"
  then obtain t u where t: "q = a @ t" "t = [] \<or> hd t = CHR ''/''" and u: "q = b @ u" "u = [] \<or> hd u = CHR ''/''"
    unfolding in_tree_iff by blast
  show ?thesis
  proof (cases "length a \<le> length b")
    case True
    from append_longer [of b u a t] t u True obtain w where "b = a @ w" "t = w @ u" by auto
    with t(2) have "in_tree a b" by (cases w) (auto simp: in_tree_iff)
    then show ?thesis ..
  next
    case False
    from append_longer [of a t b u] t u False obtain w where "a = b @ w" "u = w @ t" by auto
    with u(2) have "in_tree b a" by (cases w) (auto simp: in_tree_iff)
    then show ?thesis ..
  qed
qed

section \<open>Trees\<close>

datatype node = File string nat | Dir

type_synonym fs = "(string, node) dict"

definition remove_tree :: "string \<Rightarrow> fs \<Rightarrow> fs" where
  "remove_tree d fs = filter (\<lambda>(p, _). \<not> in_tree d p) fs"

definition move_tree :: "string \<Rightarrow> string \<Rightarrow> fs \<Rightarrow> fs" where
  "move_tree src dst fs = map (\<lambda>(p, n). (dst @ drop (length src) p, n)) (filter (\<lambda>(p, _). in_tree src p) fs)
     @ remove_tree src (remove_tree dst fs)"

text \<open>
  What the clients of the store rely on. \<open>look\<close> reads a path, \<open>put\<close> writes one, \<open>drop_tree\<close>
  removes a path and everything below it, \<open>move\<close> renames a path with everything below it
  over a destination apart from it.
\<close>

locale tree_store =
  fixes look :: "'d \<Rightarrow> string \<Rightarrow> node option"
    and put :: "string \<Rightarrow> node \<Rightarrow> 'd \<Rightarrow> 'd"
    and drop_tree :: "string \<Rightarrow> 'd \<Rightarrow> 'd"
    and move :: "string \<Rightarrow> string \<Rightarrow> 'd \<Rightarrow> 'd"
  assumes look_put: "look (put p n d) q = (if q = p then Some n else look d q)"
    and look_drop: "look (drop_tree t d) q = (if in_tree t q then None else look d q)"
    and look_move: "\<not> in_tree a b \<Longrightarrow> \<not> in_tree b a \<Longrightarrow>
      look (move a b d) q = (if in_tree b q then look d (a @ drop (length b) q) else if in_tree a q then None else look d q)"
begin

lemma look_moved: "\<not> in_tree a b \<Longrightarrow> \<not> in_tree b a \<Longrightarrow> look (move a b d) (sub b n) = look d (sub a n)"
  by (simp add: look_move) (simp add: sub_def)

lemma look_move_other:
  "\<not> in_tree a b \<Longrightarrow> \<not> in_tree b a \<Longrightarrow> \<not> in_tree a q \<Longrightarrow> \<not> in_tree b q \<Longrightarrow> look (move a b d) q = look d q"
  by (simp add: look_move)

lemma look_drop_other: "\<not> in_tree t q \<Longrightarrow> look (drop_tree t d) q = look d q"
  by (simp add: look_drop)

lemma drop_after_move: "\<not> in_tree a b \<Longrightarrow> \<not> in_tree b a \<Longrightarrow> \<not> in_tree a q \<Longrightarrow>
    look (drop_tree a (move a b d)) q = look (move a b d) q"
  by (simp add: look_drop)

end

lemma dget_append: "dget (a @ b) q = (case dget a q of Some v \<Rightarrow> Some v | None \<Rightarrow> dget b q)"
  by (auto simp: dget_def map_add_def split: option.splits)

lemma moved_key:
  "in_tree src p \<Longrightarrow> q = dst @ drop (length src) p \<longleftrightarrow> in_tree dst q \<and> p = src @ drop (length dst) q"
  unfolding in_tree_iff by fastforce

lemma in_tree_rebase: "in_tree dst q \<Longrightarrow> in_tree src (src @ drop (length dst) q)"
  unfolding in_tree_iff by fastforce

lemma dget_Cons: "dget ((k, v) # d) q = (if q = k then Some v else dget d q)"
  by (simp add: dget_def)

lemma dget_moved:
  "dget (map (\<lambda>(p, n). (dst @ drop (length src) p, n)) (filter (\<lambda>(p, _). in_tree src p) fs)) q =
     (if in_tree dst q then dget fs (src @ drop (length dst) q) else None)"
proof (induction fs)
  case (Cons e fs)
  obtain p n where e: "e = (p, n)" by fastforce
  show ?case
  proof (cases "in_tree src p")
    case True
    then show ?thesis using Cons moved_key [OF True, of q dst] by (simp add: e dget_Cons)
  next
    case False
    then have "in_tree dst q \<Longrightarrow> src @ drop (length dst) q \<noteq> p" using in_tree_rebase [of dst q src] by metis
    then show ?thesis using Cons False by (simp add: e dget_Cons)
  qed
qed simp

lemma dget_remove: "dget (remove_tree d fs) q = (if in_tree d q then None else dget fs q)"
  by (simp add: remove_tree_def dget_filter [of "\<lambda>p. \<not> in_tree d p"])

interpretation fs_store: tree_store dget dset remove_tree move_tree
proof
  fix a b :: string and d :: fs and q
  assume "\<not> in_tree a b" "\<not> in_tree b a"
  then have apart: "in_tree b q \<Longrightarrow> \<not> in_tree a q"
    using trees_nested by blast
  show "dget (move_tree a b d) q =
      (if in_tree b q then dget d (a @ drop (length b) q) else if in_tree a q then None else dget d q)"
    using apart by (auto simp: move_tree_def dget_append dget_moved dget_remove split: option.splits)
qed (simp_all add: dget_remove)

lemmas fs_laws [simp] = fs_store.look_drop


section \<open>Actions\<close>

text \<open>An action takes a state to a result and the state it leaves, also when it raises.\<close>

type_synonym ('w, 'a) act = "'w \<Rightarrow> 'a result \<times> 'w"

definition aret :: "'a \<Rightarrow> ('w, 'a) act" where
  "aret x w = (Inr x, w)"

definition araise :: "py_exn \<Rightarrow> ('w, 'a) act" where
  "araise e w = (Inl e, w)"

definition abind :: "('w, 'a) act \<Rightarrow> ('a \<Rightarrow> ('w, 'b) act) \<Rightarrow> ('w, 'b) act" where
  "abind m f w = (case m w of (Inl e, w1) \<Rightarrow> (Inl e, w1) | (Inr x, w1) \<Rightarrow> f x w1)"

definition aseq :: "('w, 'a) act \<Rightarrow> ('w, 'b) act \<Rightarrow> ('w, 'b) act" where
  "aseq m k = abind m (\<lambda>_. k)"

text \<open>\<open>try: m finally: k\<close>, for a \<open>k\<close> that does not raise.\<close>

definition afinally :: "('w, 'a) act \<Rightarrow> ('w \<Rightarrow> 'w) \<Rightarrow> ('w, 'a) act" where
  "afinally m k w = (case m w of (r, w1) \<Rightarrow> (r, k w1))"

definition areads :: "('w \<Rightarrow> 'a result) \<Rightarrow> ('w, 'a) act" where
  "areads f w = (f w, w)"

definition aguard :: "bool \<Rightarrow> py_exn \<Rightarrow> ('w, unit) act" where
  "aguard b e = (if b then aret () else araise e)"

fun aeach :: "('x \<Rightarrow> ('w, 'a) act) \<Rightarrow> 'x list \<Rightarrow> ('w, 'a list) act" where
  "aeach f [] = aret []"
| "aeach f (x # xs) = abind (f x) (\<lambda>y. abind (aeach f xs) (\<lambda>ys. aret (y # ys)))"

text \<open>An action on the file system in a larger state.\<close>

definition onfs :: "(fs, 'a) act \<Rightarrow> ('s \<times> fs, 'a) act" where
  "onfs m = (\<lambda>(s, fs). case m fs of (r, fs1) \<Rightarrow> (r, (s, fs1)))"

lemma abind_Inr: "abind m f w = (Inr y, w2) \<longleftrightarrow> (\<exists>x w1. m w = (Inr x, w1) \<and> f x w1 = (Inr y, w2))"
  by (auto simp: abind_def split: prod.splits sum.splits)

lemma aseq_Inr: "aseq m k w = (Inr y, w2) \<longleftrightarrow> (\<exists>x w1. m w = (Inr x, w1) \<and> k w1 = (Inr y, w2))"
  by (simp add: aseq_def abind_Inr)

lemma afinally_Inr: "afinally m k w = (Inr y, w2) \<longleftrightarrow> (\<exists>w1. m w = (Inr y, w1) \<and> w2 = k w1)"
  by (auto simp: afinally_def split: prod.splits)

lemma aret_Inr [simp]: "aret x w = (Inr y, w2) \<longleftrightarrow> y = x \<and> w2 = w"
  by (auto simp: aret_def)

lemma araise_Inr [simp]: "araise e w \<noteq> (Inr y, w2)"
  by (simp add: araise_def)

lemma areads_Inr: "areads f w = (Inr y, w2) \<longleftrightarrow> f w = Inr y \<and> w2 = w"
  by (auto simp: areads_def)

lemma aguard_Inr: "aguard b e w = (Inr y, w2) \<longleftrightarrow> b \<and> w2 = w"
  by (auto simp: aguard_def)

lemma onfs_Inr: "onfs m w = (Inr y, w2) \<longleftrightarrow> (\<exists>s fs fs1. w = (s, fs) \<and> m fs = (Inr y, fs1) \<and> w2 = (s, fs1))"
  by (auto simp: onfs_def split: prod.splits)

lemmas act_Inr = abind_Inr aseq_Inr afinally_Inr areads_Inr aguard_Inr onfs_Inr

section \<open>System calls\<close>

definition is_dir :: "string \<Rightarrow> fs \<Rightarrow> bool" where
  "is_dir p fs \<longleftrightarrow> dget fs p = Some Dir"

definition exists :: "string \<Rightarrow> fs \<Rightarrow> bool" where
  "exists p fs \<longleftrightarrow> dget fs p \<noteq> None"

text \<open>The root directory is always there; its path is the empty text here.\<close>

definition parent_dir :: "string \<Rightarrow> fs \<Rightarrow> bool" where
  "parent_dir p fs \<longleftrightarrow> path_parent p = [] \<or> is_dir (path_parent p) fs"

definition read_bytes :: "string \<Rightarrow> fs \<Rightarrow> string result" where
  "read_bytes p fs = (case dget fs p of
     None \<Rightarrow> Inl FileNotFoundError | Some Dir \<Rightarrow> Inl (OSError ''Is a directory'') | Some (File b m) \<Rightarrow> Inr b)"

definition file_mode :: "string \<Rightarrow> fs \<Rightarrow> nat result" where
  "file_mode p fs = (case dget fs p of
     None \<Rightarrow> Inl FileNotFoundError | Some Dir \<Rightarrow> Inr 493 | Some (File b m) \<Rightarrow> Inr (m mod 512))"

text \<open>Creating a file that must not exist.\<close>

definition create_file :: "string \<Rightarrow> string \<Rightarrow> nat \<Rightarrow> (fs, unit) act" where
  "create_file p b m fs = (if exists p fs then (Inl FileExistsError, fs)
     else if \<not> parent_dir p fs then (Inl FileNotFoundError, fs) else (Inr (), dset p (File b m) fs))"

definition mkdir :: "string \<Rightarrow> (fs, unit) act" where
  "mkdir p fs = (if exists p fs then (Inl FileExistsError, fs)
     else if \<not> parent_dir p fs then (Inl FileNotFoundError, fs) else (Inr (), dset p Dir fs))"

text \<open>The ancestors of a path, the outermost first, and itself.\<close>

fun prefixes_at :: "string \<Rightarrow> string \<Rightarrow> string list" where
  "prefixes_at acc [] = (if acc = [] then [] else [rev acc])"
| "prefixes_at acc (c # cs) = (if c = CHR ''/'' \<and> acc \<noteq> [] then [rev acc] else []) @ prefixes_at (c # acc) cs"

text \<open>\<open>mkdir(parents=True, exist_ok=True)\<close>.\<close>

definition mkdir_if :: "string \<Rightarrow> (fs, unit) act" where
  "mkdir_if p fs = (if is_dir p fs then (Inr (), fs) else mkdir p fs)"

definition mkdirs :: "string \<Rightarrow> (fs, unit) act" where
  "mkdirs p = aseq (aeach mkdir_if (prefixes_at [] p)) (aret ())"

definition unlink :: "string \<Rightarrow> fs \<Rightarrow> fs" where
  "unlink p fs = (case dget fs p of Some (File b m) \<Rightarrow> ddel p fs | _ \<Rightarrow> fs)"

definition has_child :: "string \<Rightarrow> fs \<Rightarrow> bool" where
  "has_child d fs \<longleftrightarrow> list_ex (\<lambda>p. in_tree d p \<and> p \<noteq> d) (dkeys fs)"

text \<open>\<open>rmdir\<close> with its errors ignored.\<close>

definition rmdir_quiet :: "string \<Rightarrow> fs \<Rightarrow> fs" where
  "rmdir_quiet d fs = (if is_dir d fs \<and> \<not> has_child d fs then ddel d fs else fs)"

definition chmod :: "string \<Rightarrow> nat \<Rightarrow> (fs, unit) act" where
  "chmod p m fs = (case dget fs p of
     None \<Rightarrow> (Inl FileNotFoundError, fs) | Some Dir \<Rightarrow> (Inr (), fs) | Some (File b _) \<Rightarrow> (Inr (), dset p (File b m) fs))"

text \<open>\<open>os.replace\<close>: a file over a file or nothing, a directory over an empty one or nothing.\<close>

definition replace_ok :: "string \<Rightarrow> string \<Rightarrow> fs \<Rightarrow> bool" where
  "replace_ok src dst fs = (case (dget fs src, dget fs dst) of
     (Some (File _ _), Some Dir) \<Rightarrow> False
   | (Some Dir, Some (File _ _)) \<Rightarrow> False
   | (Some Dir, Some Dir) \<Rightarrow> \<not> has_child dst fs
   | _ \<Rightarrow> True)"

definition os_replace :: "string \<Rightarrow> string \<Rightarrow> (fs, unit) act" where
  "os_replace src dst fs =
     (if \<not> exists src fs \<or> \<not> parent_dir dst fs then (Inl FileNotFoundError, fs)
      else if src = dst then (Inr (), fs)
      else if in_tree src dst \<or> in_tree dst src \<or> \<not> replace_ok src dst fs then (Inl (OSError ''replace''), fs)
      else (Inr (), move_tree src dst fs))"

lemma create_file_Inr: "create_file p b m fs = (Inr u, fs1) \<longleftrightarrow> \<not> exists p fs \<and> parent_dir p fs \<and> fs1 = dset p (File b m) fs"
  by (auto simp: create_file_def)

lemma mkdir_Inr: "mkdir p fs = (Inr u, fs1) \<longleftrightarrow> \<not> exists p fs \<and> parent_dir p fs \<and> fs1 = dset p Dir fs"
  by (auto simp: mkdir_def)

lemma read_bytes_Inr: "read_bytes p fs = Inr b \<longleftrightarrow> (\<exists>m. dget fs p = Some (File b m))"
  by (auto simp: read_bytes_def split: option.splits node.splits)

lemma os_replace_Inr: "os_replace src dst fs = (Inr u, fs1) \<Longrightarrow>
    src = dst \<and> fs1 = fs \<or> src \<noteq> dst \<and> \<not> in_tree src dst \<and> \<not> in_tree dst src \<and> exists src fs \<and> fs1 = move_tree src dst fs"
  by (auto simp: os_replace_def split: if_splits)

text \<open>Creating directories only adds directories.\<close>

definition grown :: "fs \<Rightarrow> fs \<Rightarrow> bool" where
  "grown fs fs1 \<longleftrightarrow> (\<forall>p. dget fs1 p = dget fs p \<or> dget fs p = None \<and> dget fs1 p = Some Dir)"

lemma grown_refl [simp]: "grown fs fs"
  by (simp add: grown_def)

lemma grown_trans: "grown a b \<Longrightarrow> grown b c \<Longrightarrow> grown a c"
  unfolding grown_def by (metis option.distinct(1))

lemma mkdir_if_grown: "mkdir_if p fs = (r, fs1) \<Longrightarrow> grown fs fs1"
  by (auto simp: mkdir_if_def mkdir_def grown_def exists_def split: if_splits)

lemma aeach_mkdir_grown: "aeach mkdir_if ps fs = (r, fs1) \<Longrightarrow> grown fs fs1"
proof (induction ps arbitrary: fs r)
  case (Cons p ps)
  then show ?case
    by (auto simp: abind_def aret_def split: prod.splits sum.splits dest: mkdir_if_grown intro: grown_trans)
qed (simp add: aret_def)

lemma mkdirs_grown: "mkdirs p fs = (r, fs1) \<Longrightarrow> grown fs fs1"
  by (auto simp: mkdirs_def aseq_def abind_def aret_def split: prod.splits sum.splits dest: aeach_mkdir_grown)

end
