(* ===== verification/ShardCache.thy ===== *)
theory ShardCache
  imports PyJson PyFs "HOL-Library.Code_Target_Nat"
begin

text \<open>
  The preoptimization shard cache, \<open>scripts/stage1_shard_cache.py\<close>: tickets, bundles of an
  object with its diagnostics, publication and restoration. The digest function is a
  parameter \<open>sha\<close>; random path suffixes are arguments. Flushing to disk and the advisory
  lock itself have no effect in a model of one process.
\<close>

section \<open>Constants and small helpers\<close>

definition SCHEMA :: string where
  "SCHEMA = ''elisac-preopt-shard-cache-v2''"

definition MAX_BYTES :: nat where
  "MAX_BYTES = 2147483648"

definition MAX_STREAM :: nat where
  "MAX_STREAM = 67108864"

definition FIELDS :: "string list" where
  "FIELDS = [''target_triple'', ''data_layout'', ''cpu'', ''features'', ''opt_pipeline'', ''codegen_opt'', ''relocation_model'',
     ''code_model'', ''debug_policy'', ''contract_policy'', ''ownership_version'', ''restriction_version'', ''logical_shard'',
     ''logical_shards'', ''producer_discovery_version'', ''llvm_discovery_version'', ''coverage_policy'', ''pgo_policy'',
     ''resolved_output_policy'']"

section \<open>Fingerprints\<close>

definition FD_PREFIX :: string where
  "FD_PREFIX = ''/proc/self/fd/''"

definition artifact_path :: "string \<Rightarrow> fs \<Rightarrow> string result" where
  "artifact_path p fs =
     (if starts_with FD_PREFIX p then
        (let suffix = drop (length FD_PREFIX) p in
         if suffix = [] \<or> \<not> list_all is_digit suffix \<or> map_option show_nat (digit_run 10 False 0 suffix) \<noteq> Some suffix
         then Inl (ValueError ''invalid inherited artifact descriptor path'') else Inr p)
      else if exists p fs then Inr p else Inl FileNotFoundError)"

definition identity_of :: "(string \<Rightarrow> string) \<Rightarrow> string \<Rightarrow> json" where
  "identity_of sha b = JObj [(''sha256'', JStr (sha b)), (''size'', JInt (int (length b)))]"

definition fingerprint :: "(string \<Rightarrow> string) \<Rightarrow> bool \<Rightarrow> nat \<Rightarrow> string \<Rightarrow> fs \<Rightarrow> json result" where
  "fingerprint sha allow_empty limit p fs =
     rbind (artifact_path p fs) (\<lambda>q. rbind (read_bytes q fs) (\<lambda>b.
       if limit < length b then Inl (ValueError ''artifact exceeds limit'')
       else if b = [] \<and> \<not> allow_empty then Inl (ValueError ''empty artifact'')
       else Inr (identity_of sha b)))"

section \<open>Options and tickets\<close>

definition policy_check :: "json \<Rightarrow> unit result" where
  "policy_check policy =
     rbind (check (has_keys [''normalized_codegen_args'', ''output_environment''] policy) ''incomplete resolved output policy'') (\<lambda>_.
     rbind (check (case jat ''normalized_codegen_args'' policy of JList vs \<Rightarrow> list_all is_str vs | _ \<Rightarrow> False)
       ''resolved codegen arguments must be strings'') (\<lambda>_.
     check (case jat ''output_environment'' policy of JObj kvs \<Rightarrow> list_all (\<lambda>(k, v). is_str v) kvs | _ \<Rightarrow> False)
       ''resolved output environment must be string map''))"

definition validate_options :: "json \<Rightarrow> unit result" where
  "validate_options options =
     rbind (check (has_keys FIELDS options) ''incomplete or unknown shard recipe fields'') (\<lambda>_.
     rbind (check (list_all (\<lambda>k. is_str (jat k options))
         (filter (\<lambda>k. k \<notin> set [''logical_shard'', ''logical_shards'', ''resolved_output_policy'']) FIELDS))
       ''recipe fields must be resolved strings'') (\<lambda>_.
     rbind (check (list_all (\<lambda>k. jat k options \<noteq> JStr []) [''target_triple'', ''data_layout'', ''ownership_version'', ''restriction_version''])
       ''missing resolved recipe identity'') (\<lambda>_.
     rbind (policy_check (jat ''resolved_output_policy'' options)) (\<lambda>_.
     rbind (check (one_of [''none'', ''instrument''] (jat ''coverage_policy'' options) \<and>
         one_of [''none'', ''generate'', ''use''] (jat ''pgo_policy'' options)) ''unsupported instrumentation policy'') (\<lambda>_.
     rbind (check (case (jat ''logical_shards'' options, jat ''logical_shard'' options) of
           (JInt count, JInt shard) \<Rightarrow> 1 \<le> count \<and> count \<le> 64 \<and> 0 \<le> shard \<and> shard < count | _ \<Rightarrow> False)
       ''invalid logical shard inventory'') (\<lambda>_.
     rbind (check (jat ''producer_discovery_version'' options = JStr ''running-executable-v1'' \<and>
         jat ''llvm_discovery_version'' options = JStr ''dladdr-LLVMContextCreate-v1'') ''unsupported native discovery contract'') (\<lambda>_.
     rbind (check (one_of [''none'', ''default<O1>'', ''default<O2>'', ''default<O3>''] (jat ''opt_pipeline'' options))
       ''unsupported per-shard optimization recipe'') (\<lambda>_.
     check (one_of [''0'', ''1'', ''2'', ''3''] (jat ''codegen_opt'' options)) ''unsupported codegen level''))))))))"

definition key_value :: "json \<Rightarrow> json \<Rightarrow> json" where
  "key_value recipe identity = JObj [(''schema'', JStr SCHEMA), (''recipe'', recipe), (''snapshot'', identity)]"

definition ticket_key :: "(string \<Rightarrow> string) \<Rightarrow> json \<Rightarrow> string result" where
  "ticket_key sha ticket = rbind (jget ''recipe'' ticket) (\<lambda>recipe. rbind (jget ''snapshot'' ticket) (\<lambda>snap.
     rbind (jget ''identity'' snap) (\<lambda>ident. Inr (sha (canonical (key_value recipe ident))))))"

definition pin_value :: "string \<Rightarrow> json \<Rightarrow> json" where
  "pin_value path ident = JObj [(''path'', JStr path), (''identity'', ident)]"

definition pin_of :: "(string \<Rightarrow> string) \<Rightarrow> string \<Rightarrow> fs \<Rightarrow> (string \<times> json) result" where
  "pin_of sha p fs = rbind (artifact_path p fs) (\<lambda>q. rbind (fingerprint sha False MAX_BYTES q fs) (\<lambda>i. Inr (q, i)))"

text \<open>\<open>validate_ticket\<close>: the key, the options, and every pinned artifact and the snapshot unchanged.\<close>

definition pin_check :: "(string \<Rightarrow> string) \<Rightarrow> fs \<Rightarrow> json \<Rightarrow> json \<Rightarrow> string \<Rightarrow> unit result" where
  "pin_check sha fs pins artifacts name =
     rbind (jget name pins) (\<lambda>pin. rbind (jget ''path'' pin) (\<lambda>p. rbind (jstr p) (\<lambda>path.
     rbind (fingerprint sha False MAX_BYTES path fs) (\<lambda>fp. rbind (jget ''identity'' pin) (\<lambda>ident.
     if \<not> py_eq fp ident then Inl (ValueError ''producer recipe artifact changed'')
     else rbind (jget name artifacts) (\<lambda>a. check (py_eq ident a) ''producer recipe artifact changed''))))))"

definition profile_check :: "(string \<Rightarrow> string) \<Rightarrow> fs \<Rightarrow> json \<Rightarrow> unit result" where
  "profile_check sha fs pin = rbind (jget ''path'' pin) (\<lambda>p. rbind (jstr p) (\<lambda>path.
     rbind (fingerprint sha False MAX_BYTES path fs) (\<lambda>fp. rbind (jget ''identity'' pin) (\<lambda>ident.
       check (py_eq fp ident) ''profile artifact changed''))))"

definition jlist :: "json \<Rightarrow> json list result" where
  "jlist v = (case v of JList vs \<Rightarrow> Inr vs | _ \<Rightarrow> Inl TypeError)"

definition ticket_head :: "(string \<Rightarrow> string) \<Rightarrow> json \<Rightarrow> unit result" where
  "ticket_head sha ticket =
     rbind (check (is_dict ticket) ''shard ticket must be a map'') (\<lambda>_.
     if jfind ''schema'' ticket \<noteq> Some (JStr SCHEMA) then Inl (ValueError ''invalid shard ticket'')
     else rbind (ticket_key sha ticket) (\<lambda>key. check (jfind ''key'' ticket = Some (JStr key)) ''invalid shard ticket''))"

definition validate_ticket :: "(string \<Rightarrow> string) \<Rightarrow> json \<Rightarrow> fs \<Rightarrow> unit result" where
  "validate_ticket sha ticket fs =
     rbind (ticket_head sha ticket) (\<lambda>_.
     rbind (jget ''recipe'' ticket) (\<lambda>recipe. rbind (jget ''options'' recipe) (\<lambda>options.
     rbind (validate_options options) (\<lambda>_.
     rbind (jget ''pins'' ticket) (\<lambda>pins. rbind (jget ''artifacts'' recipe) (\<lambda>artifacts.
     rbind (traverse (pin_check sha fs pins artifacts) [''producer'', ''loaded_llvm'', ''runtime'']) (\<lambda>_.
     rbind (rbind (jget ''profiles'' pins) jlist) (\<lambda>profiles.
     rbind (traverse (jget ''identity'') profiles) (\<lambda>idents.
     rbind (jget ''profiles'' artifacts) (\<lambda>known.
     rbind (check (py_eq (JList idents) known) ''profile recipe mismatch'') (\<lambda>_.
     rbind (traverse (profile_check sha fs) profiles) (\<lambda>_.
     rbind (jget ''snapshot'' ticket) (\<lambda>snap. rbind (jget ''path'' snap) (\<lambda>p. rbind (jstr p) (\<lambda>path.
     rbind (fingerprint sha False MAX_BYTES path fs) (\<lambda>fp. rbind (jget ''identity'' snap) (\<lambda>ident.
     check (py_eq fp ident) ''restricted snapshot changed'')))))))))))))))))"

definition make_ticket :: "(string \<Rightarrow> string) \<Rightarrow> json \<Rightarrow> json \<Rightarrow> json \<Rightarrow> (string \<times> json) \<Rightarrow> json" where
  "make_ticket sha pins options artifacts = (\<lambda>(snap_path, snap_id).
     let recipe = JObj [(''options'', options), (''artifacts'', artifacts)] in
     JObj [(''schema'', JStr SCHEMA), (''pins'', pins), (''recipe'', recipe), (''snapshot'', pin_value snap_path snap_id),
       (''key'', JStr (sha (canonical (key_value recipe snap_id))))])"

definition prepare :: "(string \<Rightarrow> string) \<Rightarrow> string \<Rightarrow> string \<Rightarrow> string \<Rightarrow> string \<Rightarrow> json \<Rightarrow> string list \<Rightarrow> fs \<Rightarrow> json result" where
  "prepare sha snapshot producer loaded_llvm runtime options profiles fs =
     rbind (validate_options options) (\<lambda>_.
     rbind (check (jat ''pgo_policy'' options \<noteq> JStr ''use'' \<or> profiles \<noteq> []) ''PGO use requires actual profile artifacts'') (\<lambda>_.
     rbind (traverse (\<lambda>(n, p). rmap (\<lambda>qi. (n, qi)) (pin_of sha p fs))
       [(''producer'', producer), (''loaded_llvm'', loaded_llvm), (''runtime'', runtime)]) (\<lambda>named.
     rbind (traverse (\<lambda>p. pin_of sha p fs) profiles) (\<lambda>profs.
     if \<not> exists snapshot fs then Inl FileNotFoundError else
     rbind (fingerprint sha False MAX_BYTES snapshot fs) (\<lambda>snap.
     let pins = JObj (map (\<lambda>(n, (q, i)). (n, pin_value q i)) named @ [(''profiles'', JList (map (\<lambda>(q, i). pin_value q i) profs))]);
         artifacts = JObj (map (\<lambda>(n, (q, i)). (n, i)) named @ [(''profiles'', JList (map snd profs))]);
         ticket = make_ticket sha pins options artifacts (snapshot, snap)
     in rbind (validate_ticket sha ticket fs) (\<lambda>_. Inr ticket))))))"

section \<open>Bundles\<close>

text \<open>The payloads of a bundle with their size limit and whether they may be empty.\<close>

definition slots :: "(string \<times> nat \<times> bool) list" where
  "slots = [(''object'', MAX_BYTES, False), (''stdout'', MAX_STREAM, True), (''stderr'', MAX_STREAM, True)]"

definition caught :: "py_exn \<Rightarrow> bool" where
  "caught e = (case e of OSError _ \<Rightarrow> True | FileNotFoundError \<Rightarrow> True | FileExistsError \<Rightarrow> True
     | ValueError _ \<Rightarrow> True | TypeError \<Rightarrow> True | KeyError _ \<Rightarrow> True | _ \<Rightarrow> False)"

definition ident_ok :: "nat \<Rightarrow> bool \<Rightarrow> json \<Rightarrow> bool" where
  "ident_ok limit allow_empty v \<longleftrightarrow> has_keys [''sha256'', ''size''] v \<and>
     (case jat ''sha256'' v of JStr s \<Rightarrow> is_hex64 s | _ \<Rightarrow> False) \<and>
     int_in (if allow_empty then 0 else 1) (int limit) (jat ''size'' v)"

definition MANIFEST_KEYS :: "string list" where
  "MANIFEST_KEYS = [''schema'', ''key'', ''recipe_digest'', ''snapshot'', ''object'', ''stdout'', ''stderr'', ''modes'']"

definition manifest_ok :: "json \<Rightarrow> bool" where
  "manifest_ok m \<longleftrightarrow> has_keys [''object'', ''stdout'', ''stderr''] (jat ''modes'' m) \<and>
     list_all (\<lambda>(n, _). int_in 0 511 (jat n (jat ''modes'' m))) slots \<and>
     list_all (\<lambda>(n, limit, allow_empty). ident_ok limit allow_empty (jat n m)) slots"

definition manifest_match :: "(string \<Rightarrow> string) \<Rightarrow> json \<Rightarrow> json \<Rightarrow> bool result" where
  "manifest_match sha m ticket = rbind (jget ''key'' ticket) (\<lambda>key. rbind (jget ''recipe'' ticket) (\<lambda>recipe.
     rbind (jget ''snapshot'' ticket) (\<lambda>snap. rbind (jget ''identity'' snap) (\<lambda>ident.
     Inr (py_eq (jat ''schema'' m) (JStr SCHEMA) \<and> py_eq (jat ''key'' m) key \<and>
       py_eq (jat ''recipe_digest'' m) (JStr (sha (canonical recipe))) \<and> py_eq (jat ''snapshot'' m) ident)))))"

definition parse_manifest :: "(string \<Rightarrow> string) \<Rightarrow> string \<Rightarrow> json \<Rightarrow> json option result" where
  "parse_manifest sha raw ticket = (if 16384 < length raw then Inr None
     else rbind (json_loads raw) (\<lambda>m. if \<not> has_keys MANIFEST_KEYS m then Inr None
       else rbind (manifest_match sha m ticket) (\<lambda>ok. Inr (if ok \<and> manifest_ok m then Some m else None))))"

text \<open>The handler: an error it catches is a missing bundle.\<close>

definition or_missing :: "'a option result \<Rightarrow> 'a option result" where
  "or_missing r = (case r of Inl e \<Rightarrow> if caught e then Inr None else Inl e | Inr x \<Rightarrow> Inr x)"

definition read_bundle_manifest :: "(string \<Rightarrow> string) \<Rightarrow> string \<Rightarrow> json \<Rightarrow> fs \<Rightarrow> json option result" where
  "read_bundle_manifest sha entry ticket fs =
     or_missing (rbind (read_bytes (sub entry ''manifest.json'') fs) (\<lambda>raw. parse_manifest sha raw ticket))"

fun payloads_match :: "(string \<Rightarrow> string) \<Rightarrow> string \<Rightarrow> json \<Rightarrow> fs \<Rightarrow> (string \<times> nat \<times> bool) list \<Rightarrow> bool result" where
  "payloads_match sha entry m fs [] = Inr True"
| "payloads_match sha entry m fs ((n, limit, allow_empty) # rest) =
     rbind (fingerprint sha allow_empty limit (sub entry n) fs) (\<lambda>fp.
       if py_eq fp (jat n m) then payloads_match sha entry m fs rest else Inr False)"

definition verify_bundle :: "(string \<Rightarrow> string) \<Rightarrow> string \<Rightarrow> json \<Rightarrow> fs \<Rightarrow> json option result" where
  "verify_bundle sha entry ticket fs = rbind (read_bundle_manifest sha entry ticket fs) (\<lambda>found. case found of
     None \<Rightarrow> Inr None
   | Some m \<Rightarrow> or_missing (rmap (\<lambda>ok. if ok then Some m else None) (payloads_match sha entry m fs slots)))"


section \<open>Copies\<close>

text \<open>What was written when a copy stops at its limit: the whole blocks before it.\<close>

definition partial_copy :: "nat \<Rightarrow> string \<Rightarrow> string" where
  "partial_copy limit b = take (limit div 1048576 * 1048576) b"

definition synced_copy :: "string \<Rightarrow> string \<Rightarrow> nat \<Rightarrow> (fs, unit) act" where
  "synced_copy source target limit = abind (areads (read_bytes source)) (\<lambda>b.
     if limit < length b
     then aseq (create_file target (partial_copy limit b) 420) (araise (ValueError ''copied artifact exceeds limit''))
     else create_file target b 420)"

definition copy_fingerprint :: "(string \<Rightarrow> string) \<Rightarrow> string \<Rightarrow> string \<Rightarrow> bool \<Rightarrow> nat \<Rightarrow> (fs, json) act" where
  "copy_fingerprint sha source target allow_empty limit = abind (areads (read_bytes source)) (\<lambda>b.
     if limit < length b
     then aseq (create_file target (partial_copy limit b) 384) (araise (ValueError ''copied artifact exceeds limit''))
     else aseq (create_file target b 384)
       (if b = [] \<and> \<not> allow_empty then araise (ValueError ''empty artifact'') else aret (identity_of sha b)))"

definition sibling :: "string \<Rightarrow> string \<Rightarrow> string" where
  "sibling target suffix = sub (path_parent target) (''.'' @ path_name target @ ''.incoming-'' @ suffix)"

text \<open>The attempts with one random suffix each; an existing path is passed over, any other error removes the copy.\<close>

fun copy_fingerprint_sibling :: "(string \<Rightarrow> string) \<Rightarrow> string \<Rightarrow> string \<Rightarrow> bool \<Rightarrow> nat \<Rightarrow> string list \<Rightarrow> (fs, string \<times> json) act" where
  "copy_fingerprint_sibling sha source target allow_empty limit [] fs = (Inl FileExistsError, fs)"
| "copy_fingerprint_sibling sha source target allow_empty limit (x # xs) fs = (let tmp = sibling target x in
     case copy_fingerprint sha source tmp allow_empty limit fs of
       (Inr ident, fs1) \<Rightarrow> (Inr (tmp, ident), fs1)
     | (Inl e, fs1) \<Rightarrow> if e = FileExistsError then copy_fingerprint_sibling sha source target allow_empty limit xs fs1
         else (Inl e, unlink tmp fs1))"

text \<open>The directories made are reported also when one cannot be made.\<close>

fun make_directories :: "string list \<Rightarrow> fs \<Rightarrow> (string list \<times> unit result) \<times> fs" where
  "make_directories [] fs = (([], Inr ()), fs)"
| "make_directories (d # ds) fs = (case mkdir d fs of
     (Inr _, fs1) \<Rightarrow> (case make_directories ds fs1 of ((made, r), fs2) \<Rightarrow> ((d # made, r), fs2))
   | (Inl e, fs1) \<Rightarrow> if e = FileExistsError \<and> is_dir d fs1 then make_directories ds fs1 else (([], Inl e), fs1))"

definition ensure_parent_directories :: "string \<Rightarrow> fs \<Rightarrow> (string list \<times> unit result) \<times> fs" where
  "ensure_parent_directories parent fs = make_directories (filter (\<lambda>d. \<not> exists d fs) (prefixes_at [] parent)) fs"

definition remove_empty_directories :: "string list \<Rightarrow> fs \<Rightarrow> fs" where
  "remove_empty_directories ds fs = fold rmdir_quiet (rev ds) fs"

section \<open>Publication\<close>

definition lock_entry :: "string \<Rightarrow> string \<Rightarrow> (fs, unit) act" where
  "lock_entry cache key = aseq (mkdirs cache) (\<lambda>fs. let p = sub cache (key @ ''.lock'') in
     case dget fs p of Some (File _ _) \<Rightarrow> (Inr (), fs) | Some Dir \<Rightarrow> (Inl (OSError ''Is a directory''), fs)
     | None \<Rightarrow> create_file p [] 420 fs)"

definition publish_payload :: "(string \<Rightarrow> string) \<Rightarrow> string \<Rightarrow> (string \<times> nat \<times> bool) \<Rightarrow> string \<Rightarrow> (fs, string \<times> json \<times> nat) act" where
  "publish_payload sha stage = (\<lambda>(n, limit, allow_empty) source.
     abind (areads (file_mode source)) (\<lambda>mode.
     abind (areads (fingerprint sha allow_empty limit source)) (\<lambda>ident.
     aseq (synced_copy source (sub stage n) limit) (
     abind (areads (fingerprint sha allow_empty limit (sub stage n))) (\<lambda>staged.
     abind (areads (fingerprint sha allow_empty limit source)) (\<lambda>again.
     aseq (aguard (py_eq ident staged \<and> py_eq again ident) (ValueError ''emitted payload changed during publication'')) (
     abind (areads (file_mode source)) (\<lambda>mode2.
     aseq (aguard (mode2 = mode) (ValueError ''emitted payload mode changed during publication'')) (
     aret (n, staged, mode))))))))))"

definition make_manifest :: "(string \<Rightarrow> string) \<Rightarrow> json \<Rightarrow> json \<Rightarrow> json \<Rightarrow> (string \<times> json \<times> nat) list \<Rightarrow> json" where
  "make_manifest sha key recipe ident parts = JObj ([(''schema'', JStr SCHEMA), (''key'', key),
     (''recipe_digest'', JStr (sha (canonical recipe))), (''snapshot'', ident),
     (''modes'', JObj (map (\<lambda>(n, i, m). (n, JInt (int m))) parts))] @ map (\<lambda>(n, i, m). (n, i)) parts)"

text \<open>The critical section: a valid entry stays, otherwise the staged bundle takes its place.\<close>

definition swap_in :: "(string \<Rightarrow> string) \<Rightarrow> string \<Rightarrow> json \<Rightarrow> string \<Rightarrow> string \<Rightarrow> (fs, unit) act" where
  "swap_in sha entry ticket stage retired = abind (areads (verify_bundle sha entry ticket)) (\<lambda>found. case found of
     Some _ \<Rightarrow> aret ()
   | None \<Rightarrow> abind (areads (\<lambda>fs. Inr (exists entry fs))) (\<lambda>old.
       aseq (if old then aseq (\<lambda>fs. if exists retired fs then (Inl FileExistsError, fs) else (Inr (), fs)) (os_replace entry retired)
             else aret ())
       (os_replace stage entry)))"

definition publish_inner :: "(string \<Rightarrow> string) \<Rightarrow> (json \<Rightarrow> ('s \<times> fs, unit) act) \<Rightarrow> string \<Rightarrow> json \<Rightarrow> string list \<Rightarrow> string \<Rightarrow> string
    \<Rightarrow> ('s \<times> fs, bool) act" where
  "publish_inner sha val cache ticket sources stage retired =
     abind (areads (\<lambda>_. jget ''key'' ticket)) (\<lambda>key. abind (areads (\<lambda>_. jget ''recipe'' ticket)) (\<lambda>recipe.
     abind (areads (\<lambda>_. rbind (jget ''snapshot'' ticket) (jget ''identity''))) (\<lambda>ident.
     abind (onfs (aeach (\<lambda>(slot, source). publish_payload sha stage slot source) (zip slots sources))) (\<lambda>parts.
     aseq (onfs (create_file (sub stage ''manifest.json'') (canonical (make_manifest sha key recipe ident parts)) 420)) (
     aseq (val ticket) (
     abind (areads (\<lambda>_. jstr key)) (\<lambda>k.
     aseq (onfs (lock_entry cache k)) (
     aseq (onfs (swap_in sha (sub cache k) ticket stage retired)) (aret True)))))))))"

definition publish :: "(string \<Rightarrow> string) \<Rightarrow> (json \<Rightarrow> ('s \<times> fs, unit) act) \<Rightarrow> string \<Rightarrow> json \<Rightarrow> string \<Rightarrow> string \<Rightarrow> string
    \<Rightarrow> string \<Rightarrow> string \<Rightarrow> ('s \<times> fs, bool) act" where
  "publish sha val cache ticket obj out err r1 r2 = (let stage = sub cache (''.incoming-'' @ r1); retired = sub cache (''.retired-'' @ r2) in
     aseq (val ticket) (aseq (onfs (mkdirs cache)) (aseq (onfs (mkdir stage)) (
     abind (areads (\<lambda>(_, fs). Inr (exists retired fs))) (\<lambda>had.
       afinally (publish_inner sha val cache ticket [obj, out, err] stage retired)
         (\<lambda>(s, fs). (s, (if had then id else remove_tree retired) (remove_tree stage fs))))))))"

section \<open>Restoration\<close>

text \<open>
  Staging the payloads beside their targets: what was staged and made so far, and whether all
  copies have the identity of the manifest. \<open>rnd\<close> gives the suffixes of each target.
\<close>

fun stage_files :: "(string \<Rightarrow> string) \<Rightarrow> bool \<Rightarrow> string \<Rightarrow> json \<Rightarrow> (string \<Rightarrow> string list) \<Rightarrow> ((string \<times> nat \<times> bool) \<times> string) list
    \<Rightarrow> fs \<Rightarrow> ((string \<times> string) list \<times> string list \<times> bool result) \<times> fs" where
  "stage_files sha check_copies entry m rnd [] fs = (([], [], Inr True), fs)"
| "stage_files sha check_copies entry m rnd (((n, limit, allow_empty), target) # rest) fs =
     (case ensure_parent_directories (path_parent target) fs of
        ((made, Inl e), fs1) \<Rightarrow> (([], made, Inl e), fs1)
      | ((made, Inr _), fs1) \<Rightarrow>
          (case copy_fingerprint_sibling sha (sub entry n) target allow_empty limit (take 16 (rnd target)) fs1 of
             (Inl e, fs2) \<Rightarrow> (([], made, Inl e), fs2)
           | (Inr (tmp, ident), fs2) \<Rightarrow>
               if \<not> py_eq ident (jat n m) then (([(tmp, target)], made, Inr False), fs2)
               else (case (if check_copies then rmap (\<lambda>fp. py_eq fp (jat n m)) (fingerprint sha allow_empty limit tmp fs2) else Inr True) of
                   Inl e \<Rightarrow> (([(tmp, target)], made, Inl e), fs2)
                 | Inr False \<Rightarrow> (([(tmp, target)], made, Inr False), fs2)
                 | Inr True \<Rightarrow> (case stage_files sha check_copies entry m rnd rest fs2 of
                     ((staged, more, r), fs3) \<Rightarrow> (((tmp, target) # staged, made @ more, r), fs3)))))"

definition discard :: "(string \<times> string) list \<Rightarrow> string list \<Rightarrow> fs \<Rightarrow> fs" where
  "discard staged made fs = remove_empty_directories made (fold (\<lambda>(tmp, _). unlink tmp) staged fs)"

text \<open>The object is committed last.\<close>

definition commit_one :: "json \<Rightarrow> (string \<times> string) list \<Rightarrow> nat \<Rightarrow> (fs, unit) act" where
  "commit_one m staged i = (let (tmp, target) = staged ! i;
       mode = (case jat (fst (slots ! i)) (jat ''modes'' m) of JInt k \<Rightarrow> nat k | _ \<Rightarrow> 0) in
     aseq (chmod tmp mode) (os_replace tmp target))"

definition commit_all :: "json \<Rightarrow> (string \<times> string) list \<Rightarrow> (fs, unit) act" where
  "commit_all m staged = aseq (commit_one m staged 1) (aseq (commit_one m staged 2) (commit_one m staged 0))"

text \<open>
  A hit: the manifest, and in a deferred restoration the staged copies and directories made.
\<close>

type_synonym hit = "json \<times> (string \<times> string) list \<times> string list"

definition restore_found :: "(string \<Rightarrow> string) \<Rightarrow> (json \<Rightarrow> ('s \<times> fs, unit) act) \<Rightarrow> bool \<Rightarrow> bool \<Rightarrow> json \<Rightarrow> string \<Rightarrow> string list
    \<Rightarrow> (string \<Rightarrow> string list) \<Rightarrow> json \<Rightarrow> ('s \<times> fs, hit option) act" where
  "restore_found sha val check_copies deferred ticket entry targets rnd m = (\<lambda>(s, fs).
     case stage_files sha check_copies entry m rnd (zip slots targets) fs of
       ((staged, made, Inl e), fs1) \<Rightarrow> (Inl e, (s, discard staged made fs1))
     | ((staged, made, Inr False), fs1) \<Rightarrow> (Inr None, (s, discard staged made fs1))
     | ((staged, made, Inr True), fs1) \<Rightarrow> (case val ticket (s, fs1) of
         (Inl e, (s2, fs2)) \<Rightarrow> (Inl e, (s2, discard staged made fs2))
       | (Inr _, (s2, fs2)) \<Rightarrow>
           if deferred then (Inr (Some (m, staged, made)), (s2, fs2))
           else (case commit_all m staged fs2 of
               (Inl e, fs3) \<Rightarrow> (Inl e, (s2, discard staged made fs3))
             | (Inr _, fs3) \<Rightarrow> (Inr (Some (m, [], [])), (s2, fs3)))))"

definition restore :: "(string \<Rightarrow> string) \<Rightarrow> (json \<Rightarrow> ('s \<times> fs, unit) act) \<Rightarrow> bool \<Rightarrow> bool \<Rightarrow> string \<Rightarrow> json \<Rightarrow> string list
    \<Rightarrow> (string \<Rightarrow> string list) \<Rightarrow> ('s \<times> fs, hit option) act" where
  "restore sha val check_copies deferred cache ticket targets rnd =
     aseq (val ticket) (
     aseq (aguard (distinct targets) (ValueError ''restore output paths must be distinct'')) (
     abind (areads (\<lambda>_. rbind (jget ''key'' ticket) jstr)) (\<lambda>key.
     aseq (onfs (lock_entry cache key)) (
     abind (areads (\<lambda>(_, fs). read_bundle_manifest sha (sub cache key) ticket fs)) (\<lambda>found. case found of
       None \<Rightarrow> aret None
     | Some m \<Rightarrow> restore_found sha val check_copies deferred ticket (sub cache key) targets rnd m)))))"

text \<open>The validator of a single restoration or publication.\<close>

definition validator :: "(string \<Rightarrow> string) \<Rightarrow> json \<Rightarrow> ('s \<times> fs, unit) act" where
  "validator sha ticket = areads (\<lambda>(_, fs). validate_ticket sha ticket fs)"


section \<open>A staged bundle verifies\<close>

text \<open>The digests are 64 lowercase hexadecimal digits, as \<open>hexdigest\<close> of SHA-256 documents.\<close>

definition hex_digest :: "(string \<Rightarrow> string) \<Rightarrow> bool" where
  "hex_digest sha \<longleftrightarrow> (\<forall>b. is_hex64 (sha b))"

text \<open>An ordinary directory: not below \<open>/proc\<close>.\<close>

definition plain_dir :: "string \<Rightarrow> bool" where
  "plain_dir d \<longleftrightarrow> d \<noteq> [] \<and> \<not> starts_with ''/proc'' d"

lemma plain_not_fd: "plain_dir d \<Longrightarrow> \<not> starts_with FD_PREFIX (sub d n)"
proof
  assume p: "plain_dir d" and s: "starts_with FD_PREFIX (sub d n)"
  consider c1 where "d = [c1]" | c1 c2 where "d = [c1, c2]" | c1 c2 c3 where "d = [c1, c2, c3]"
    | c1 c2 c3 c4 where "d = [c1, c2, c3, c4]" | c1 c2 c3 c4 c5 r where "d = c1 # c2 # c3 # c4 # c5 # r"
    using p unfolding plain_dir_def by (metis list.exhaust)
  then show False using p s by cases (auto simp: FD_PREFIX_def sub_def plain_dir_def)
qed

lemma fingerprint_plain: "plain_dir d \<Longrightarrow> fingerprint sha ae limit (sub d n) fs =
    (case dget fs (sub d n) of None \<Rightarrow> Inl FileNotFoundError | Some Dir \<Rightarrow> Inl (OSError ''Is a directory'')
     | Some (File b m) \<Rightarrow> if limit < length b then Inl (ValueError ''artifact exceeds limit'')
         else if b = [] \<and> \<not> ae then Inl (ValueError ''empty artifact'') else Inr (identity_of sha b))"
  using plain_not_fd [of d n]
  by (auto simp: fingerprint_def artifact_path_def exists_def read_bytes_def split: option.splits node.splits)

definition same_bundle :: "fs \<Rightarrow> string \<Rightarrow> fs \<Rightarrow> string \<Rightarrow> bool" where
  "same_bundle fs1 d1 fs2 d2 \<longleftrightarrow> (\<forall>n. dget fs1 (sub d1 n) = dget fs2 (sub d2 n))"

lemma same_bundleD: "same_bundle fs1 d1 fs2 d2 \<Longrightarrow> dget fs1 (sub d1 n) = dget fs2 (sub d2 n)"
  by (simp add: same_bundle_def)

lemma payloads_same:
  assumes "same_bundle fs1 d1 fs2 d2" "plain_dir d1" "plain_dir d2"
  shows "payloads_match sha d1 m fs1 xs = payloads_match sha d2 m fs2 xs"
proof (induction xs)
  case (Cons x xs)
  obtain n limit ae where x: "x = (n, limit, ae)" by (cases x)
  have "fingerprint sha ae limit (sub d1 n) fs1 = fingerprint sha ae limit (sub d2 n) fs2"
    unfolding fingerprint_plain [OF assms(2)] fingerprint_plain [OF assms(3)] same_bundleD [OF assms(1)] ..
  with Cons x show ?case by (simp cong: if_cong)
qed simp

lemma verify_same:
  assumes "same_bundle fs1 d1 fs2 d2" "plain_dir d1" "plain_dir d2"
  shows "verify_bundle sha d1 t fs1 = verify_bundle sha d2 t fs2"
proof -
  have "read_bytes (sub d1 n) fs1 = read_bytes (sub d2 n) fs2" for n
    unfolding read_bytes_def same_bundleD [OF assms(1)] ..
  then show ?thesis by (simp add: verify_bundle_def read_bundle_manifest_def payloads_same [OF assms] cong: option.case_cong)
qed

section \<open>The manifest is short\<close>

lemma show_base_length: "n < 10 ^ Suc k \<Longrightarrow> length (show_base 10 n) \<le> Suc k"
proof (induction k arbitrary: n)
  case (Suc k)
  then have "n div 10 < 10 ^ Suc k" by (simp add: less_mult_imp_div_less)
  from Suc.IH [OF this] show ?case by (subst show_base.simps) auto
qed (subst show_base.simps, simp)

lemma show_int_length: "0 \<le> i \<Longrightarrow> i < 10 ^ Suc k \<Longrightarrow> length (show_int i) \<le> Suc k"
proof -
  assume i: "0 \<le> i" "i < 10 ^ Suc k"
  then have "nat i < 10 ^ Suc k" by (simp add: nat_less_iff)
  from show_base_length [OF this] i show ?thesis by (simp add: show_int_def show_nat_def)
qed

lemma hex64_plain: "is_hex64 s \<Longrightarrow> concat (map esc_char s) = s"
proof -
  assume "is_hex64 s"
  then have "list_all (\<lambda>c. c \<in> set ''0123456789abcdef'') s" by (simp add: is_hex64_def)
  then show ?thesis by (induction s) (auto simp: esc_char_def)
qed

lemma hex64_quoted: "is_hex64 s \<Longrightarrow> length (quoted s) = 66"
  by (simp add: quoted_def hex64_plain is_hex64_def)

lemma sort_identity: "sort_keys [(''sha256'', a), (''size'', b)] = [(''sha256'', a), (''size'', b)]"
  by (simp add: sort_keys_def)

lemma identity_shape:
  assumes "py_eq v (identity_of sha b)"
  obtains kvs w where "v = JObj kvs" "sort_keys kvs = [(''sha256'', JStr (sha b)), (''size'', w)]" "py_norm w = JInt (int (length b))"
proof -
  from assms have n: "py_norm v = JObj [(''sha256'', JStr (sha b)), (''size'', JInt (int (length b)))]"
    by (simp add: py_eq_def identity_of_def sort_identity)
  then obtain kvs where v: "v = JObj kvs" by (cases v) auto
  with n have "map (\<lambda>(k, v). (k, py_norm v)) (sort_keys kvs) = [(''sha256'', JStr (sha b)), (''size'', JInt (int (length b)))]"
    by (simp add: sort_keys_map)
  then obtain u w where s: "sort_keys kvs = [(''sha256'', u), (''size'', w)]" "py_norm u = JStr (sha b)" "py_norm w = JInt (int (length b))"
    by (auto simp: map_eq_Cons_conv)
  from s(2) have "u = JStr (sha b)" by (cases u) auto
  with that [OF v] s show thesis by simp
qed

lemma canonical_size: "py_norm w = JInt (int n) \<Longrightarrow> n \<le> MAX_BYTES \<Longrightarrow> length (canonical w) \<le> 10"
proof (cases w)
  case (JInt i)
  assume "py_norm w = JInt (int n)" "n \<le> MAX_BYTES"
  with JInt show ?thesis using show_int_length [of i 9] by (simp add: MAX_BYTES_def)
qed (auto split: if_splits)

lemma identity_length:
  assumes "py_eq v (identity_of sha b)" "length b \<le> MAX_BYTES" "hex_digest sha"
  shows "length (canonical v) \<le> 100"
proof -
  obtain kvs w where v: "v = JObj kvs" and s: "sort_keys kvs = [(''sha256'', JStr (sha b)), (''size'', w)]"
    and w: "py_norm w = JInt (int (length b))" by (rule identity_shape [OF assms(1)])
  have "length (quoted (sha b)) = 66" using assms(3) by (simp add: hex_digest_def hex64_quoted)
  moreover have "length (quoted ''sha256'') = 8" "length (quoted ''size'') = 6" by code_simp+
  moreover have "length (canonical w) \<le> 10" by (rule canonical_size [OF w assms(2)])
  ultimately show ?thesis unfolding v canonical_obj s by (simp add: member_def)
qed

lemma identity_wf:
  assumes "py_eq v (identity_of sha b)"
  shows "json_wf v"
proof -
  obtain kvs w where v: "v = JObj kvs" and s: "sort_keys kvs = [(''sha256'', JStr (sha b)), (''size'', w)]"
    and w: "py_norm w = JInt (int (length b))" by (rule identity_shape [OF assms])
  have "set kvs = {(''sha256'', JStr (sha b)), (''size'', w)}" using set_sort_keys [of kvs] s by simp
  moreover have "sort (map fst kvs) = [''sha256'', ''size'']" using s by (simp flip: map_fst_sort_keys)
  then have "distinct (sort (map fst kvs))" by simp
  then have "distinct (map fst kvs)" by simp
  moreover have "json_wf w" using w by (cases w) (auto split: if_splits)
  ultimately show ?thesis by (simp add: v list_all_iff)
qed


section \<open>A staged bundle verifies\<close>

text \<open>What a validated ticket gives: its key is the digest of its contents, and its snapshot identity is that of some bytes.\<close>

definition ticket_ok :: "(string \<Rightarrow> string) \<Rightarrow> json \<Rightarrow> bool" where
  "ticket_ok sha t \<longleftrightarrow> (\<exists>recipe snap ident b. jget ''recipe'' t = Inr recipe \<and> jget ''snapshot'' t = Inr snap \<and>
     jget ''identity'' snap = Inr ident \<and> jget ''key'' t = Inr (JStr (sha (canonical (key_value recipe ident)))) \<and>
     py_eq ident (identity_of sha b) \<and> length b \<le> MAX_BYTES)"

text \<open>A payload staged for a slot.\<close>

definition staged_part :: "(string \<Rightarrow> string) \<Rightarrow> (string \<times> nat \<times> bool) \<Rightarrow> string \<Rightarrow> string \<times> json \<times> nat \<Rightarrow> bool" where
  "staged_part sha slot b part \<longleftrightarrow> (case slot of (n, limit, ae) \<Rightarrow> length b \<le> limit \<and> (b \<noteq> [] \<or> ae) \<and>
     (\<exists>m < 512. part = (n, identity_of sha b, m)))"

lemma publish_payload_Inr:
  assumes "publish_payload sha stage (n, limit, ae) source fs = (Inr part, fs1)" "plain_dir stage"
  shows "\<exists>b. read_bytes source fs = Inr b \<and> fs1 = dset (sub stage n) (File b 420) fs \<and> staged_part sha (n, limit, ae) b part"
proof -
  from assms(1) obtain b mode staged where *: "file_mode source fs = Inr mode"
      "read_bytes source fs = Inr b" "length b \<le> limit" "fs1 = dset (sub stage n) (File b 420) fs"
      "fingerprint sha ae limit (sub stage n) fs1 = Inr staged" "part = (n, staged, mode)"
    by (auto simp: publish_payload_def act_Inr synced_copy_def create_file_Inr split: if_splits)
  from *(1) have "mode < 512" by (auto simp: file_mode_def split: option.splits node.splits)
  moreover from *(4,5) have "staged = identity_of sha b" "b \<noteq> [] \<or> ae" "length b \<le> limit"
    by (auto simp: fingerprint_plain [OF assms(2)] split: if_splits)
  ultimately show ?thesis using * by (auto simp: staged_part_def)
qed

lemma sub_inject [simp]: "sub d a = sub d b \<longleftrightarrow> a = b"
  by (simp add: sub_def)

text \<open>The three payloads and the manifest of a bundle in a directory.\<close>

definition holds_bundle :: "fs \<Rightarrow> string \<Rightarrow> string list \<Rightarrow> string \<Rightarrow> bool" where
  "holds_bundle fs d bs raw \<longleftrightarrow> length bs = 3 \<and>
     (\<forall>i < 3. \<exists>m. dget fs (sub d (fst (slots ! i))) = Some (File (bs ! i) m)) \<and>
     (\<exists>m. dget fs (sub d ''manifest.json'') = Some (File raw m))"


definition three_parts :: "(string \<Rightarrow> string) \<Rightarrow> string list \<Rightarrow> nat list \<Rightarrow> (string \<times> json \<times> nat) list" where
  "three_parts sha bs ms = [(''object'', identity_of sha (bs ! 0), ms ! 0), (''stdout'', identity_of sha (bs ! 1), ms ! 1),
     (''stderr'', identity_of sha (bs ! 2), ms ! 2)]"

definition sizes_ok :: "string list \<Rightarrow> nat list \<Rightarrow> bool" where
  "sizes_ok bs ms \<longleftrightarrow> bs ! 0 \<noteq> [] \<and> length (bs ! 0) \<le> MAX_BYTES \<and> length (bs ! 1) \<le> MAX_STREAM \<and> length (bs ! 2) \<le> MAX_STREAM \<and>
     ms ! 0 < 512 \<and> ms ! 1 < 512 \<and> ms ! 2 < 512"

lemma identity_of_wf [simp]: "json_wf (identity_of sha b)"
  by (simp add: identity_of_def)

lemma make_manifest_eq: "make_manifest sha k recipe ident (three_parts sha bs ms) = JObj [(''schema'', JStr SCHEMA), (''key'', k),
     (''recipe_digest'', JStr (sha (canonical recipe))), (''snapshot'', ident),
     (''modes'', JObj [(''object'', JInt (int (ms ! 0))), (''stdout'', JInt (int (ms ! 1))), (''stderr'', JInt (int (ms ! 2)))]),
     (''object'', identity_of sha (bs ! 0)), (''stdout'', identity_of sha (bs ! 1)), (''stderr'', identity_of sha (bs ! 2))]"
  by (simp add: make_manifest_def three_parts_def)

lemma make_manifest_wf: "json_wf ident \<Longrightarrow> json_wf (make_manifest sha (JStr k) recipe ident (three_parts sha bs ms))"
  unfolding make_manifest_eq by simp

lemma sort_manifest: "sort_keys [(''schema'', a1), (''key'', a2), (''recipe_digest'', a3), (''snapshot'', a4), (''modes'', a5),
     (''object'', a6), (''stdout'', a7), (''stderr'', a8)] =
   [(''key'', a2), (''modes'', a5), (''object'', a6), (''recipe_digest'', a3), (''schema'', a1), (''snapshot'', a4),
     (''stderr'', a8), (''stdout'', a7)]"
  by (simp add: sort_keys_def)

lemma sort_modes: "sort_keys [(''object'', a1), (''stdout'', a2), (''stderr'', a3)] = [(''object'', a1), (''stderr'', a3), (''stdout'', a2)]"
  by (simp add: sort_keys_def)

lemma key_lengths: "length (quoted ''key'') = 5" "length (quoted ''modes'') = 7" "length (quoted ''object'') = 8"
    "length (quoted ''recipe_digest'') = 15" "length (quoted ''schema'') = 8" "length (quoted ''snapshot'') = 10"
    "length (quoted ''stderr'') = 8" "length (quoted ''stdout'') = 8" "length (quoted SCHEMA) = 30"
  by code_simp+

lemma modes_length:
  assumes "sizes_ok bs ms"
  shows "length (canonical (JObj [(''object'', JInt (int (ms ! 0))), (''stdout'', JInt (int (ms ! 1))), (''stderr'', JInt (int (ms ! 2)))])) \<le> 60"
proof -
  have "length (show_int (int m)) \<le> 3" if "m < 512" for m using that show_int_length [of "int m" 2] by simp
  with assms have "length (show_int (int (ms ! 0))) \<le> 3" "length (show_int (int (ms ! 1))) \<le> 3" "length (show_int (int (ms ! 2))) \<le> 3"
    by (simp_all add: sizes_ok_def)
  then show ?thesis unfolding canonical_obj sort_modes by (simp add: member_def key_lengths)
qed

lemma manifest_length:
  assumes "hex_digest sha" "sizes_ok bs ms" "is_hex64 k" "py_eq ident (identity_of sha b)" "length b \<le> MAX_BYTES"
  shows "length (canonical (make_manifest sha (JStr k) recipe ident (three_parts sha bs ms))) \<le> 16384"
proof -
  have "length (canonical (identity_of sha x)) \<le> 100" if "length x \<le> MAX_BYTES" for x
    using identity_length [OF _ that assms(1)] by (simp add: py_eq_def)
  with assms(2) have "length (canonical (identity_of sha (bs ! 0))) \<le> 100" "length (canonical (identity_of sha (bs ! 1))) \<le> 100"
      "length (canonical (identity_of sha (bs ! 2))) \<le> 100"
    by (simp_all add: sizes_ok_def MAX_BYTES_def MAX_STREAM_def)
  moreover have "length (canonical ident) \<le> 100" by (rule identity_length [OF assms(4,5,1)])
  moreover have "length (quoted k) = 66" "length (quoted (sha (canonical recipe))) = 66"
    using assms(1,3) by (simp_all add: hex64_quoted hex_digest_def)
  moreover note modes_length [OF assms(2)]
  ultimately show ?thesis unfolding make_manifest_eq canonical_obj [of "(''schema'', _) # _"] sort_manifest
    by (simp add: member_def key_lengths del: canonical.simps(6))
qed


lemma py_eq_sorted_left: "json_wf v \<Longrightarrow> py_eq (sorted_json v) w \<longleftrightarrow> py_eq v w"
  by (simp add: py_eq_def py_norm_sorted)

lemma py_eq_refl [simp]: "py_eq v v"
  by (simp add: py_eq_def)

lemma jat_manifest:
  "jat ''schema'' (make_manifest sha k recipe ident (three_parts sha bs ms)) = JStr SCHEMA"
  "jat ''key'' (make_manifest sha k recipe ident (three_parts sha bs ms)) = k"
  "jat ''recipe_digest'' (make_manifest sha k recipe ident (three_parts sha bs ms)) = JStr (sha (canonical recipe))"
  "jat ''snapshot'' (make_manifest sha k recipe ident (three_parts sha bs ms)) = ident"
  "jat ''modes'' (make_manifest sha k recipe ident (three_parts sha bs ms)) =
     JObj [(''object'', JInt (int (ms ! 0))), (''stdout'', JInt (int (ms ! 1))), (''stderr'', JInt (int (ms ! 2)))]"
  "jat ''object'' (make_manifest sha k recipe ident (three_parts sha bs ms)) = identity_of sha (bs ! 0)"
  "jat ''stdout'' (make_manifest sha k recipe ident (three_parts sha bs ms)) = identity_of sha (bs ! 1)"
  "jat ''stderr'' (make_manifest sha k recipe ident (three_parts sha bs ms)) = identity_of sha (bs ! 2)"
  unfolding make_manifest_eq by (simp_all add: jat_def jfind_def dget_def)

lemma sorted_identity [simp]: "sorted_json (identity_of sha b) = identity_of sha b"
  by (simp add: identity_of_def sort_identity)

lemma ident_ok_identity: "hex_digest sha \<Longrightarrow> length b \<le> limit \<Longrightarrow> b \<noteq> [] \<or> ae \<Longrightarrow> ident_ok limit ae (identity_of sha b)"
  by (auto simp: ident_ok_def identity_of_def has_keys_def dkeys_def jat_def jfind_def dget_def hex_digest_def int_in_def Suc_le_eq)

lemma manifest_accepted:
  assumes h: "hex_digest sha" and z: "sizes_ok bs ms" and e: "py_eq ident (identity_of sha b)" "length b \<le> MAX_BYTES"
    and t: "jget ''recipe'' t = Inr recipe" "jget ''snapshot'' t = Inr snap" "jget ''identity'' snap = Inr ident" "jget ''key'' t = Inr (JStr k)"
    and k: "is_hex64 k"
  defines "M \<equiv> make_manifest sha (JStr k) recipe ident (three_parts sha bs ms)"
  shows "parse_manifest sha (canonical M) t = Inr (Some (sorted_json M))"
proof -
  have wi: "json_wf ident" by (rule identity_wf [OF e(1)])
  have wf: "json_wf M" unfolding M_def by (rule make_manifest_wf [OF wi])
  have "has_keys MANIFEST_KEYS (sorted_json M)"
    unfolding has_keys_sorted M_def make_manifest_eq by (auto simp: has_keys_def dkeys_def MANIFEST_KEYS_def)
  moreover have "manifest_match sha (sorted_json M) t = Inr True"
    unfolding manifest_match_def t by (simp add: t jat_sorted [OF wf]) (simp add: M_def jat_manifest wi)
  moreover have "manifest_ok (sorted_json M)"
    using z by (simp add: manifest_ok_def jat_sorted [OF wf] slots_def sizes_ok_def)
      (simp add: M_def jat_manifest has_keys_sorted ident_ok_identity [OF h] sort_modes,
       simp add: has_keys_def dkeys_def jat_def jfind_def dget_def int_in_def, auto)
  moreover have "length (canonical M) \<le> 16384"
    unfolding M_def by (rule manifest_length [OF h z k e])
  ultimately show ?thesis by (simp add: parse_manifest_def loads_canonical [OF wf])
qed

lemma staged_verifies:
  assumes h: "hex_digest sha" and z: "sizes_ok bs ms" and e: "py_eq ident (identity_of sha b)" "length b \<le> MAX_BYTES"
    and t: "jget ''recipe'' t = Inr recipe" "jget ''snapshot'' t = Inr snap" "jget ''identity'' snap = Inr ident" "jget ''key'' t = Inr (JStr k)"
    and k: "is_hex64 k" and d: "plain_dir d"
  defines "M \<equiv> make_manifest sha (JStr k) recipe ident (three_parts sha bs ms)"
  assumes b: "holds_bundle fs d bs (canonical M)"
  shows "verify_bundle sha d t fs = Inr (Some (sorted_json M))"
proof -
  have wf: "json_wf M" unfolding M_def by (rule make_manifest_wf [OF identity_wf [OF e(1)]])
  have "read_bundle_manifest sha d t fs = Inr (Some (sorted_json M))"
    using b manifest_accepted [OF h z e t k] unfolding M_def
    by (auto simp: read_bundle_manifest_def or_missing_def holds_bundle_def read_bytes_Inr [THEN iffD2] read_bytes_def)
  moreover have "payloads_match sha d (sorted_json M) fs slots = Inr True"
  proof -
    have "\<exists>m. dget fs (sub d ''object'') = Some (File (bs ! 0) m)" "\<exists>m. dget fs (sub d ''stdout'') = Some (File (bs ! 1) m)"
        "\<exists>m. dget fs (sub d ''stderr'') = Some (File (bs ! 2) m)"
      using b by (simp_all add: holds_bundle_def slots_def All_less_Suc numeral_3_eq_3 numeral_2_eq_2)
    then show ?thesis using z
      by (auto simp: slots_def fingerprint_plain [OF d] jat_sorted [OF wf] sizes_ok_def)
        (auto simp: M_def jat_manifest)
  qed
  ultimately show ?thesis by (simp add: verify_bundle_def or_missing_def)
qed


section \<open>Publication leaves a verified entry\<close>

lemma hex_no_slash: "is_hex64 k \<Longrightarrow> CHR ''/'' \<notin> set k \<and> k \<noteq> ''.'' @ x \<and> k @ ''.lock'' \<noteq> ''.'' @ x"
  by (cases k) (auto simp: is_hex64_def list_all_iff)

lemma hex_hidden: "is_hex64 k \<Longrightarrow> hd a = CHR ''.'' \<Longrightarrow> a \<noteq> k \<and> a \<noteq> k @ ''.lock'' \<and> CHR ''/'' \<notin> set k"
  using hex_no_slash [of k] by (cases k) (auto simp: is_hex64_def)

lemma plain_sub: "plain_dir d \<Longrightarrow> plain_dir (sub d n)"
proof -
  assume p: "plain_dir d"
  consider c1 where "d = [c1]" | c1 c2 where "d = [c1, c2]" | c1 c2 c3 where "d = [c1, c2, c3]"
    | c1 c2 c3 c4 where "d = [c1, c2, c3, c4]" | c1 c2 c3 c4 c5 r where "d = c1 # c2 # c3 # c4 # c5 # r"
    using p unfolding plain_dir_def by (metis list.exhaust)
  then show ?thesis using p by cases (auto simp: sub_def plain_dir_def)
qed

lemma aeach_three: "aeach f [x, y, z] w = (Inr ps, w3) \<Longrightarrow>
    \<exists>p0 p1 p2 w1 w2. f x w = (Inr p0, w1) \<and> f y w1 = (Inr p1, w2) \<and> f z w2 = (Inr p2, w3) \<and> ps = [p0, p1, p2]"
  by (simp add: act_Inr) blast

lemma read_bytes_outside: "\<not> in_tree d p \<Longrightarrow> read_bytes p (dset (sub d n) v fs) = read_bytes p fs"
  by (auto simp: read_bytes_def)

lemma payloads_Inr:
  assumes "aeach (\<lambda>(slot, source). publish_payload sha stage slot source) (zip slots [obj, out, err]) fs = (Inr parts, fs1)"
    "plain_dir stage"
  shows "\<exists>bs ms. length bs = 3 \<and> parts = three_parts sha bs ms \<and> sizes_ok bs ms \<and>
     (\<not> in_tree stage obj \<and> \<not> in_tree stage out \<and> \<not> in_tree stage err \<longrightarrow> map Inr bs = map (\<lambda>p. read_bytes p fs) [obj, out, err]) \<and>
     fs1 = dset (sub stage ''stderr'') (File (bs ! 2) 420) (dset (sub stage ''stdout'') (File (bs ! 1) 420) (dset (sub stage ''object'') (File (bs ! 0) 420) fs))"
proof -
  have "aeach (\<lambda>(slot, source). publish_payload sha stage slot source)
      [((''object'', MAX_BYTES, False), obj), ((''stdout'', MAX_STREAM, True), out), ((''stderr'', MAX_STREAM, True), err)] fs = (Inr parts, fs1)"
    using assms(1) by (simp only: slots_def zip_Cons_Cons zip_Nil)
  from aeach_three [OF this] obtain p0 p1 p2 f0 f1 where *: "publish_payload sha stage (''object'', MAX_BYTES, False) obj fs = (Inr p0, f0)"
      "publish_payload sha stage (''stdout'', MAX_STREAM, True) out f0 = (Inr p1, f1)"
      "publish_payload sha stage (''stderr'', MAX_STREAM, True) err f1 = (Inr p2, fs1)" "parts = [p0, p1, p2]"
    unfolding prod.case by blast
  obtain b0 where b0: "read_bytes obj fs = Inr b0" "f0 = dset (sub stage ''object'') (File b0 420) fs" "staged_part sha (''object'', MAX_BYTES, False) b0 p0"
    using publish_payload_Inr [OF *(1) assms(2)] by (elim exE conjE)
  obtain b1 where b1: "read_bytes out f0 = Inr b1" "f1 = dset (sub stage ''stdout'') (File b1 420) f0" "staged_part sha (''stdout'', MAX_STREAM, True) b1 p1"
    using publish_payload_Inr [OF *(2) assms(2)] by (elim exE conjE)
  obtain b2 where b2: "read_bytes err f1 = Inr b2" "fs1 = dset (sub stage ''stderr'') (File b2 420) f1" "staged_part sha (''stderr'', MAX_STREAM, True) b2 p2"
    using publish_payload_Inr [OF *(3) assms(2)] by (elim exE conjE)
  from b0(3) b1(3) b2(3) obtain m0 m1 m2 where
    "p0 = (''object'', identity_of sha b0, m0)" "p1 = (''stdout'', identity_of sha b1, m1)" "p2 = (''stderr'', identity_of sha b2, m2)"
    "m0 < 512" "m1 < 512" "m2 < 512" "b0 \<noteq> []" "length b0 \<le> MAX_BYTES" "length b1 \<le> MAX_STREAM" "length b2 \<le> MAX_STREAM"
    by (auto simp: staged_part_def)
  with b0 b1 b2 *(4) have "parts = three_parts sha [b0, b1, b2] [m0, m1, m2]" "sizes_ok [b0, b1, b2] [m0, m1, m2]"
      "fs1 = dset (sub stage ''stderr'') (File b2 420) (dset (sub stage ''stdout'') (File b1 420) (dset (sub stage ''object'') (File b0 420) fs))"
    by (simp_all add: three_parts_def sizes_ok_def)
  moreover have "\<not> in_tree stage obj \<and> \<not> in_tree stage out \<and> \<not> in_tree stage err \<longrightarrow> map Inr [b0, b1, b2] = map (\<lambda>p. read_bytes p fs) [obj, out, err]"
    using b0(1) b1(1) b2(1) unfolding b0(2) b1(2) by (auto simp: read_bytes_outside)
  ultimately show ?thesis by (intro exI [of _ "[b0, b1, b2]"] exI [of _ "[m0, m1, m2]"]) simp
qed

lemma staged_holds:
  assumes "length bs = 3"
    "fs1 = dset (sub stage ''stderr'') (File (bs ! 2) 420) (dset (sub stage ''stdout'') (File (bs ! 1) 420) (dset (sub stage ''object'') (File (bs ! 0) 420) fs))"
    "create_file (sub stage ''manifest.json'') raw 420 fs1 = (Inr u, fs2)"
  shows "holds_bundle fs2 stage bs raw"
  using assms by (auto simp: holds_bundle_def create_file_Inr slots_def numeral_3_eq_3 numeral_2_eq_2 less_Suc_eq)

text \<open>Bundles in directories that look alike.\<close>

lemma holds_bundle_same: "same_bundle fs1 d1 fs2 d2 \<Longrightarrow> holds_bundle fs1 d1 bs raw \<Longrightarrow> holds_bundle fs2 d2 bs raw"
  by (simp add: holds_bundle_def same_bundle_def)

text \<open>The lock file changes neither the staged bundle nor the entry.\<close>

lemma lock_entry_other:
  assumes "lock_entry cache k fs = (r, fs1)" "p \<noteq> sub cache (k @ ''.lock'')" "dget fs p \<noteq> None"
  shows "dget fs1 p = dget fs p"
proof -
  obtain r0 f0 where m: "mkdirs cache fs = (r0, f0)" by fastforce
  have "dget f0 p = dget fs p" using mkdirs_grown [OF m] assms(3) by (auto simp: grown_def)
  moreover have "dget fs1 p = dget f0 p"
    using assms(1,2) m by (auto simp: lock_entry_def aseq_def abind_def create_file_def Let_def split: prod.splits sum.splits option.splits node.splits if_splits)
  ultimately show ?thesis by simp
qed


lemma siblings_disjoint:
  assumes "m \<noteq> n" "CHR ''/'' \<notin> set m" "CHR ''/'' \<notin> set n"
  shows "\<not> in_tree (sub d m) (sub d n)" "\<not> in_tree (sub d m) (sub (sub d n) x)" "\<not> in_tree (sub d n) (sub d m)" "\<not> in_tree (sub d n) (sub (sub d m) x)"
  using assms siblings_apart siblings_tree in_tree_sub by metis+

text \<open>
  What publication and restoration need of their validator: it leaves the file system alone,
  keeps the invariant of its own state, and accepts only tickets whose key and snapshot
  identity are those of their contents.
\<close>

locale ticket_validator =
  fixes sha :: "string \<Rightarrow> string"
    and val :: "json \<Rightarrow> ('s \<times> fs, unit) act"
    and inv :: "'s \<Rightarrow> bool"
  assumes val_fs: "val t (s, fs) = (r, (s1, fs1)) \<Longrightarrow> fs1 = fs"
    and val_inv: "inv s \<Longrightarrow> val t (s, fs) = (r, (s1, fs1)) \<Longrightarrow> inv s1"
    and val_ok: "inv s \<Longrightarrow> val t (s, fs) = (Inr u, (s1, fs1)) \<Longrightarrow> ticket_ok sha t"
begin

lemma ticket_key_hex: "hex_digest sha \<Longrightarrow> ticket_ok sha t \<Longrightarrow> jget ''key'' t = Inr key \<Longrightarrow> \<exists>k. key = JStr k \<and> is_hex64 k"
  by (auto simp: ticket_ok_def hex_digest_def)

text \<open>The critical section ends with a verified entry, also after the staged tree and the retired one are removed.\<close>

lemma swap_in_verified:
  assumes "swap_in sha (sub cache k) t (sub cache a) (sub cache c) fs = (Inr u, fs1)"
    and staged: "verify_bundle sha (sub cache a) t fs = Inr (Some m)"
    and p: "plain_dir cache" and ne: "a \<noteq> k" "c \<noteq> k" "c \<noteq> a"
    and sl: "CHR ''/'' \<notin> set a" "CHR ''/'' \<notin> set c" "CHR ''/'' \<notin> set k"
    and f: "f = id \<or> f = remove_tree (sub cache c)"
  shows "\<exists>m. verify_bundle sha (sub cache k) t (f (remove_tree (sub cache a) fs1)) = Inr (Some m)"
proof -
  let ?stage = "sub cache a" and ?retired = "sub cache c" and ?entry = "sub cache k"
  have apart: "\<not> in_tree ?stage (sub ?entry n)" "\<not> in_tree ?retired (sub ?entry n)" "\<not> in_tree ?stage ?entry" "\<not> in_tree ?entry ?stage"
      "\<not> in_tree ?retired (sub ?stage n)" "\<not> in_tree ?entry (sub ?stage n)" "\<not> in_tree ?entry ?retired" "\<not> in_tree ?retired ?entry" for n
    by (rule siblings_disjoint [OF ne(1) sl(1,3)] siblings_disjoint [OF ne(2) sl(2,3)] siblings_disjoint [OF ne(3) sl(2,1)])+
  have plain: "plain_dir ?entry" "plain_dir ?stage" using p by (simp_all add: plain_sub)
  have keep: "same_bundle (f (remove_tree ?stage fs1)) ?entry fs1 ?entry"
    using f apart by (auto simp: same_bundle_def)
  have swapped: "same_bundle (move_tree ?stage ?entry g) ?entry g ?stage" for g
    by (simp add: same_bundle_def fs_store.look_moved apart)
  consider m where "verify_bundle sha ?entry t fs = Inr (Some m)" "fs1 = fs"
    | "fs1 = move_tree ?stage ?entry fs" | "fs1 = move_tree ?stage ?entry (move_tree ?entry ?retired fs)"
    using assms(1) apart(3,7) unfolding swap_in_def
    by (auto simp: act_Inr split: option.splits if_splits dest!: os_replace_Inr)
  then have "\<exists>m. verify_bundle sha ?entry t fs1 = Inr (Some m)"
  proof cases
    case 1
    then show ?thesis by blast
  next
    case 2
    then show ?thesis using verify_same [OF swapped plain] staged by metis
  next
    case 3
    have "same_bundle (move_tree ?entry ?retired fs) ?stage fs ?stage"
      by (simp add: same_bundle_def fs_store.look_move_other apart)
    then show ?thesis using 3 verify_same [OF swapped plain] verify_same [OF _ plain(2) plain(2)] staged by metis
  qed
  then show ?thesis using verify_same [OF keep plain(1) plain(1)] by metis
qed


lemma publish_inner_verified:
  assumes "publish_inner sha val cache t [obj, out, err] (sub cache a) (sub cache c) (s, fs) = (Inr True, (s1, fs1))"
    and hex: "hex_digest sha" and i: "inv s" and p: "plain_dir cache" and ne: "hd a = CHR ''.''" "hd c = CHR ''.''" "c \<noteq> a"
    and sl: "CHR ''/'' \<notin> set a" "CHR ''/'' \<notin> set c"
    and f: "f = id \<or> f = remove_tree (sub cache c)"
  shows "\<exists>k m. jget ''key'' t = Inr (JStr k) \<and> verify_bundle sha (sub cache k) t (f (remove_tree (sub cache a) fs1)) = Inr (Some m)"
proof -
  let ?stage = "sub cache a"
  from assms(1) obtain key recipe ident parts f0 f1 f2 s2 u v x w k where
      ticket: "jget ''key'' t = Inr key" "jget ''recipe'' t = Inr recipe" "rbind (jget ''snapshot'' t) (jget ''identity'') = Inr ident"
    and payloads: "aeach (\<lambda>(slot, source). publish_payload sha ?stage slot source) (zip slots [obj, out, err]) fs = (Inr parts, f0)"
    and manifest: "create_file (sub ?stage ''manifest.json'') (canonical (make_manifest sha key recipe ident parts)) 420 f0 = (Inr u, f1)"
    and valid: "val t (s, f1) = (Inr v, (s2, f2))" and k: "jstr key = Inr k"
    and lock: "lock_entry cache k f2 = (Inr x, w)"
    and swap: "swap_in sha (sub cache k) t ?stage (sub cache c) w = (Inr (), fs1)"
    unfolding publish_inner_def act_Inr by auto
  have "f2 = f1" using val_fs [OF valid] .
  have ok: "ticket_ok sha t" by (rule val_ok [OF i valid])
  then have hk: "key = JStr k" "is_hex64 k" using ticket_key_hex [OF hex ok ticket(1)] k by (auto simp: jstr_def)
  obtain snap b where tk: "jget ''snapshot'' t = Inr snap" "jget ''identity'' snap = Inr ident"
      "py_eq ident (identity_of sha b)" "length b \<le> MAX_BYTES"
    using ok ticket(2,3) by (auto simp: ticket_ok_def)
  have plain: "plain_dir ?stage" by (rule plain_sub [OF p])
  obtain bs ms where bs: "length bs = 3" "parts = three_parts sha bs ms" "sizes_ok bs ms"
      "f0 = dset (sub ?stage ''stderr'') (File (bs ! 2) 420) (dset (sub ?stage ''stdout'') (File (bs ! 1) 420) (dset (sub ?stage ''object'') (File (bs ! 0) 420) fs))"
    using payloads_Inr [OF payloads plain] by (elim exE conjE)
  note held = staged_holds [OF bs(1,4) manifest]
  have "a \<noteq> k" "c \<noteq> k" and slk: "CHR ''/'' \<notin> set k" and nl: "CHR ''/'' \<notin> set (k @ ''.lock'')" "a \<noteq> k @ ''.lock''"
    using hex_hidden [OF hk(2) ne(1)] hex_hidden [OF hk(2) ne(2)] by simp_all
  have "holds_bundle w ?stage bs (canonical (make_manifest sha key recipe ident parts))"
  proof -
    have "dget w (sub ?stage n) = dget f1 (sub ?stage n)" if "dget f1 (sub ?stage n) \<noteq> None" for n
    proof (rule lock_entry_other [OF lock [unfolded \<open>f2 = f1\<close>] _ that])
      show "sub ?stage n \<noteq> sub cache (k @ ''.lock'')"
        using siblings_disjoint(4) [OF nl(2) sl(1) nl(1), of cache n] by (metis in_tree_refl)
    qed
    with held show ?thesis unfolding holds_bundle_def by (metis option.distinct(1))
  qed
  from staged_verifies [OF hex bs(3) tk(3,4) ticket(2) tk(1,2) _ hk(2) plain] this ticket(1)
  have "verify_bundle sha ?stage t w = Inr (Some (sorted_json (make_manifest sha key recipe ident parts)))"
    unfolding hk(1) bs(2) by blast
  from swap_in_verified [OF swap this p \<open>a \<noteq> k\<close> \<open>c \<noteq> k\<close> ne(3) sl slk f] ticket(1) hk(1) show ?thesis by blast
qed

lemma publish_verified:
  assumes "publish sha val cache t obj out err r1 r2 (s, fs) = (Inr True, (s1, fs1))"
    and hex: "hex_digest sha" and i: "inv s" and p: "plain_dir cache" and sl: "CHR ''/'' \<notin> set r1" "CHR ''/'' \<notin> set r2"
  shows "\<exists>k m. jget ''key'' t = Inr (JStr k) \<and> verify_bundle sha (sub cache k) t fs1 = Inr (Some m)"
proof -
  let ?a = "''.incoming-'' @ r1" and ?c = "''.retired-'' @ r2"
  from assms(1) obtain u s0 f0 g f1 s2 f2 had where v: "val t (s, fs) = (Inr u, (s0, f0))"
    and inner: "publish_inner sha val cache t [obj, out, err] (sub cache ?a) (sub cache ?c) (s0, f1) = (Inr True, (s2, f2))"
    and fs1: "fs1 = (if had then id else remove_tree (sub cache ?c)) (remove_tree (sub cache ?a) f2)"
    unfolding publish_def act_Inr Let_def by auto
  have "\<exists>k m. jget ''key'' t = Inr (JStr k) \<and>
      verify_bundle sha (sub cache k) t ((if had then id else remove_tree (sub cache ?c)) (remove_tree (sub cache ?a) f2)) = Inr (Some m)"
    by (rule publish_inner_verified [OF inner hex val_inv [OF i v] p]) (use sl in auto)
  then show ?thesis by (simp only: fs1)
qed

end


lemma fingerprint_identity: "fingerprint sha ae limit p fs = Inr v \<Longrightarrow> \<exists>b. v = identity_of sha b \<and> length b \<le> limit \<and> read_bytes p fs = Inr b"
  by (auto simp: fingerprint_def artifact_path_def Let_def split: if_splits)

lemma py_eq_sym: "py_eq v w \<longleftrightarrow> py_eq w v"
  by (auto simp: py_eq_def)

lemma jfind_Some: "jfind k v = Some x \<longleftrightarrow> jget k v = Inr x"
  by (auto simp: jfind_def jget_def split: json.splits option.splits)

lemma ticket_head_Inr: "ticket_head sha t = Inr u \<Longrightarrow> \<exists>recipe snap ident. jget ''recipe'' t = Inr recipe \<and>
    jget ''snapshot'' t = Inr snap \<and> jget ''identity'' snap = Inr ident \<and> jget ''key'' t = Inr (JStr (sha (canonical (key_value recipe ident))))"
  by (auto simp: ticket_head_def ticket_key_def jfind_Some split: if_splits)

lemma validate_ticket_ok: "validate_ticket sha t fs = Inr u \<Longrightarrow> ticket_ok sha t"
proof -
  assume v: "validate_ticket sha t fs = Inr u"
  obtain w where "ticket_head sha t = Inr w" using v by (auto simp: validate_ticket_def)
  then obtain recipe snap ident where *: "jget ''recipe'' t = Inr recipe" "jget ''snapshot'' t = Inr snap" "jget ''identity'' snap = Inr ident"
      "jget ''key'' t = Inr (JStr (sha (canonical (key_value recipe ident))))"
    using ticket_head_Inr by blast
  moreover obtain path fp where "fingerprint sha False MAX_BYTES path fs = Inr fp" "py_eq fp ident"
    using v * by (auto simp: validate_ticket_def)
  moreover from this obtain b where "fp = identity_of sha b" "length b \<le> MAX_BYTES" using fingerprint_identity by blast
  ultimately show ?thesis by (auto simp: ticket_ok_def py_eq_sym)
qed

interpretation single: ticket_validator sha "validator sha" "\<lambda>_. True" for sha
  by unfold_locales (auto simp: validator_def areads_def intro: validate_ticket_ok)

section \<open>A concrete cache\<close>

text \<open>A digest of 64 zeros, a shard recipe, and a file system with its artifacts and emitted payloads.\<close>

definition zero_sha :: "string \<Rightarrow> string" where
  "zero_sha b = replicate 64 (CHR ''0'')"

lemma zero_sha_hex: "hex_digest zero_sha"
  by (simp add: hex_digest_def zero_sha_def is_hex64_def list_all_iff)

definition sample_options :: json where
  "sample_options = JObj [(''target_triple'', JStr ''t''), (''data_layout'', JStr ''e''), (''cpu'', JStr []), (''features'', JStr []),
     (''opt_pipeline'', JStr ''none''), (''codegen_opt'', JStr ''0''), (''relocation_model'', JStr []), (''code_model'', JStr []),
     (''debug_policy'', JStr []), (''contract_policy'', JStr []), (''ownership_version'', JStr ''1''), (''restriction_version'', JStr ''1''),
     (''logical_shard'', JInt 0), (''logical_shards'', JInt 1), (''producer_discovery_version'', JStr ''running-executable-v1''),
     (''llvm_discovery_version'', JStr ''dladdr-LLVMContextCreate-v1''), (''coverage_policy'', JStr ''none''), (''pgo_policy'', JStr ''none''),
     (''resolved_output_policy'', JObj [(''normalized_codegen_args'', JList []), (''output_environment'', JObj [])])]"

definition sample_fs :: fs where
  "sample_fs = [(''/w'', Dir), (''/w/s'', File ''s'' 420), (''/w/p'', File ''p'' 493), (''/w/l'', File ''l'' 420), (''/w/r'', File ''r'' 420),
     (''/w/o'', File ''obj'' 420), (''/w/out'', File [] 420), (''/w/err'', File ''e'' 420)]"

definition sample_pin :: "string \<Rightarrow> json" where
  "sample_pin p = pin_value p (identity_of zero_sha ''s'')"

definition sample_ticket :: json where
  "sample_ticket = make_ticket zero_sha
     (JObj [(''producer'', sample_pin ''/w/p''), (''loaded_llvm'', sample_pin ''/w/l''), (''runtime'', sample_pin ''/w/r''), (''profiles'', JList [])])
     sample_options
     (JObj [(''producer'', identity_of zero_sha ''s''), (''loaded_llvm'', identity_of zero_sha ''s''), (''runtime'', identity_of zero_sha ''s''), (''profiles'', JList [])])
     (''/w/s'', identity_of zero_sha ''s'')"

text \<open>
  C15. A publication that returns leaves, under the key of the ticket, an entry that verifies:
  its manifest parses, matches the ticket, and names the digest and size of each payload. The
  cache directory is not below \<open>/proc\<close>; the digest gives 64 hexadecimal digits and the random
  names have no slash.
\<close>

theorem publish_verifies:
  assumes "publish sha (validator sha) cache ticket obj out err r1 r2 (s, fs) = (Inr True, (s1, fs1))"
    and "hex_digest sha" and "plain_dir cache" and "CHR ''/'' \<notin> set r1" and "CHR ''/'' \<notin> set r2"
  shows "\<exists>k m. jget ''key'' ticket = Inr (JStr k) \<and> verify_bundle sha (sub cache k) ticket fs1 = Inr (Some m)"
  by (rule single.publish_verified [OF assms(1,2) TrueI assms(3-5)])

theorem publish_verifies_witness:
  "\<exists>k m. jget ''key'' sample_ticket = Inr (JStr k) \<and> verify_bundle zero_sha (sub ''/w/c'' k) sample_ticket
     (snd (snd (publish zero_sha (validator zero_sha) ''/w/c'' sample_ticket ''/w/o'' ''/w/out'' ''/w/err'' ''a'' ''b'' ((), sample_fs)))) = Inr (Some m)"
proof (rule publish_verifies [OF _ zero_sha_hex])
  let ?r = "publish zero_sha (validator zero_sha) ''/w/c'' sample_ticket ''/w/o'' ''/w/out'' ''/w/err'' ''a'' ''b'' ((), sample_fs)"
  have "fst ?r = Inr True" by code_simp
  then show "?r = (Inr True, (fst (snd ?r), snd (snd ?r)))" by (metis prod.collapse)
qed (simp_all add: plain_dir_def)

section \<open>Tickets\<close>

text \<open>Two values are the same when they differ in the order of dictionary keys only.\<close>

lemma sorted_key_value: "sorted_json (key_value r i) = JObj [(''recipe'', sorted_json r), (''schema'', JStr SCHEMA), (''snapshot'', sorted_json i)]"
  by (simp add: key_value_def sort_keys_def)

lemma canonical_sorted: "canonical (sorted_json v) = canonical v"
proof (induction v)
  case (JObj kvs)
  have s: "sort_keys (sort_keys kvs) = sort_keys kvs"
    unfolding sort_keys_def by (metis sort_key_id_if_sorted sorted_sort_key)
  have "map (\<lambda>(k, v). (k, canonical v)) (map (\<lambda>(k, v). (k, sorted_json v)) (sort_keys kvs)) = map (\<lambda>(k, v). (k, canonical v)) (sort_keys kvs)"
    using JObj by (auto simp: snds.simps)
  then have "sort_keys (map (\<lambda>(k, v). (k, canonical v)) (sort_keys (map (\<lambda>(k, v). (k, sorted_json v)) kvs))) =
      sort_keys (map (\<lambda>(k, v). (k, canonical v)) kvs)"
    unfolding sort_keys_map s by simp
  then show ?case by (simp only: sorted_json.simps canonical.simps)
qed (simp_all cong: map_cong)

text \<open>The text of which a ticket's key is the digest, what it is to cover, and two texts with one digest.\<close>

definition key_text :: "json \<Rightarrow> string" where
  "key_text ticket = canonical (key_value (jat ''recipe'' ticket) (jat ''identity'' (jat ''snapshot'' ticket)))"

definition same_inputs :: "json \<Rightarrow> json \<Rightarrow> bool" where
  "same_inputs t u \<longleftrightarrow> sorted_json (jat ''recipe'' t) = sorted_json (jat ''recipe'' u) \<and>
     sorted_json (jat ''identity'' (jat ''snapshot'' t)) = sorted_json (jat ''identity'' (jat ''snapshot'' u))"

definition collision :: "(string \<Rightarrow> string) \<Rightarrow> string \<Rightarrow> string \<Rightarrow> bool" where
  "collision sha a b \<longleftrightarrow> a \<noteq> b \<and> sha a = sha b"

lemma ticket_key_text: "ticket_key sha t = Inr k \<Longrightarrow> k = sha (key_text t)"
  by (auto simp: ticket_key_def key_text_def jget_def jat_def jfind_def split: json.splits option.splits)

lemma key_text_exact:
  assumes "json_wf t" "json_wf u"
  shows "key_text t = key_text u \<longleftrightarrow> same_inputs t u"
proof -
  let ?v = "\<lambda>t. key_value (jat ''recipe'' t) (jat ''identity'' (jat ''snapshot'' t))"
  have "json_wf (?v t)" "json_wf (?v u)" using assms by (simp_all add: key_value_def json_wf_jat)
  note l = loads_canonical [OF this(1)] loads_canonical [OF this(2)]
  have "canonical (?v t) = canonical (?v u) \<longleftrightarrow> sorted_json (?v t) = sorted_json (?v u)"
  proof
    assume "canonical (?v t) = canonical (?v u)"
    then show "sorted_json (?v t) = sorted_json (?v u)" using l by simp
  next
    assume "sorted_json (?v t) = sorted_json (?v u)"
    then show "canonical (?v t) = canonical (?v u)" using canonical_sorted [of "?v t"] canonical_sorted [of "?v u"] by simp
  qed
  then show ?thesis by (simp add: key_text_def same_inputs_def sorted_key_value)
qed

text \<open>
  C20. The key of a ticket is the digest of a text, and two tickets have the same text exactly when their
  recipes and their snapshot identities are the same values up to the order of dictionary keys. So they
  share a key exactly when they agree on these, or when their two texts are a collision of the digest.
\<close>

theorem cache_key_exact:
  assumes "ticket_key sha t = Inr k" "ticket_key sha u = Inr l" "json_wf t" "json_wf u"
  shows "k = sha (key_text t) \<and> (key_text t = key_text u \<longleftrightarrow> same_inputs t u) \<and>
    (k = l \<longleftrightarrow> same_inputs t u \<or> collision sha (key_text t) (key_text u))"
  using ticket_key_text [OF assms(1)] ticket_key_text [OF assms(2)] key_text_exact [OF assms(3,4)] by (auto simp: collision_def)

text \<open>Two tickets for different snapshots, and a digest of 64 hexadecimal digits that tells them apart.\<close>

definition sample_keyed :: "int \<Rightarrow> json" where
  "sample_keyed n = JObj [(''recipe'', JObj [(''options'', JNull)]), (''snapshot'', JObj [(''path'', JStr ''/s''), (''identity'', JInt n)])]"

definition length_sha :: "string \<Rightarrow> string" where
  "length_sha b = (let n = show_nat (length b) in replicate (64 - length n) (CHR ''0'') @ n)"

theorem cache_key_exact_witness:
  "ticket_key length_sha (sample_keyed 1) \<noteq> ticket_key length_sha (sample_keyed 10) \<and> \<not> same_inputs (sample_keyed 1) (sample_keyed 10)"
proof -
  have "\<not> isl (ticket_key length_sha (sample_keyed 1))" "\<not> isl (ticket_key length_sha (sample_keyed 10))"
    and n: "ticket_key length_sha (sample_keyed 1) \<noteq> ticket_key length_sha (sample_keyed 10)" by code_simp+
  then obtain k l where k: "ticket_key length_sha (sample_keyed 1) = Inr k" "ticket_key length_sha (sample_keyed 10) = Inr l" by (metis sum.collapse(2))
  have "json_wf (sample_keyed 1)" "json_wf (sample_keyed 10)" by code_simp+
  from cache_key_exact [OF k this] n k show ?thesis by auto
qed

end
