(* ===== verification/FsUndo.thy ===== *)
theory FsUndo
  imports PyFs
begin

text \<open>
  Undoing additions to a file system: a run of creations, then the files unlinked and the
  directories removed in reverse order, gives back what was there.
\<close>

section \<open>Closed file systems\<close>

text \<open>Every path lies in a directory that is there.\<close>

definition closed :: "fs \<Rightarrow> bool" where
  "closed fs \<longleftrightarrow> list_all (\<lambda>p. p \<noteq> [] \<and> parent_dir p fs) (dkeys fs)"

lemma closedD: "closed fs \<Longrightarrow> dget fs p \<noteq> None \<Longrightarrow> p \<noteq> [] \<and> parent_dir p fs"
  using dget_None_conv [of fs p] by (auto simp: closed_def list_all_iff)

lemma closedI: "(\<And>p. dget fs p \<noteq> None \<Longrightarrow> p \<noteq> [] \<and> parent_dir p fs) \<Longrightarrow> closed fs"
  using dget_None_conv [of fs] unfolding closed_def list_all_iff by metis

lemma path_parent_sub: "CHR ''/'' \<notin> set n \<Longrightarrow> path_parent (sub d n) = d"
proof -
  assume n: "CHR ''/'' \<notin> set n"
  have "dropWhile (\<lambda>c. c \<noteq> CHR ''/'') (rev n @ CHR ''/'' # rev d) = CHR ''/'' # rev d"
    using n by (subst dropWhile_append2) auto
  then show ?thesis by (simp add: path_parent_def sub_def)
qed

lemma split_last_slash: "CHR ''/'' \<in> set t \<Longrightarrow> \<exists>a n. t = a @ CHR ''/'' # n \<and> CHR ''/'' \<notin> set n"
  by (metis split_list_last)

lemma path_parent_below:
  assumes "in_tree p q" "p \<noteq> q"
  shows "in_tree p (path_parent q)" "length (path_parent q) < length q"
proof -
  obtain t where q: "q = p @ CHR ''/'' # t" using assms unfolding in_tree_iff by (metis append_Nil2 list.collapse)
  obtain a n where a: "CHR ''/'' # t = a @ CHR ''/'' # n" "CHR ''/'' \<notin> set n"
    using split_last_slash [of "CHR ''/'' # t"] by auto
  then have s: "q = sub (p @ a) n" by (simp add: q sub_def)
  have pp: "path_parent q = p @ a" unfolding s by (rule path_parent_sub [OF a(2)])
  have "a = [] \<or> hd a = CHR ''/''" using a(1) by (cases a) auto
  then show "in_tree p (path_parent q)" unfolding pp in_tree_iff by blast
  show "length (path_parent q) < length q" unfolding pp by (simp add: s sub_def)
qed

lemma closed_ancestor:
  "closed fs \<Longrightarrow> dget fs q \<noteq> None \<Longrightarrow> in_tree p q \<Longrightarrow> p \<noteq> q \<Longrightarrow> p \<noteq> [] \<Longrightarrow> dget fs p = Some Dir"
proof (induction "length q" arbitrary: q rule: less_induct)
  case less
  note b = path_parent_below [OF less.prems(3,4)]
  have ne: "path_parent q \<noteq> []" using b(1) less.prems(5) by (auto simp: in_tree_iff)
  have d: "dget fs (path_parent q) = Some Dir"
    using closedD [OF less.prems(1,2)] ne by (simp add: parent_dir_def is_dir_def)
  show ?case
  proof (cases "p = path_parent q")
    case False
    then show ?thesis using less.hyps [OF b(2) less.prems(1) _ b(1)] d less.prems(5) by simp
  qed (use d in simp)
qed

section \<open>Growing\<close>

inductive grows :: "fs \<Rightarrow> (string \<times> node) list \<Rightarrow> fs \<Rightarrow> bool" where
  grows_Nil: "grows fs [] fs"
| grows_snoc: "grows fs adds f \<Longrightarrow> p \<noteq> [] \<Longrightarrow> dget f p = None \<Longrightarrow> parent_dir p f \<Longrightarrow> grows fs (adds @ [(p, n)]) (dset p n f)"

inductive_cases grows_snocE: "grows fs (adds @ [a]) f"

lemma grows_trans: "grows b y c \<Longrightarrow> grows a x b \<Longrightarrow> grows a (x @ y) c"
proof (induction rule: grows.induct)
  case (grows_snoc fs adds f p n)
  then have "grows a ((x @ adds) @ [(p, n)]) (dset p n f)" by (intro grows.grows_snoc) auto
  then show ?case by simp
qed simp

lemma parent_dir_dset: "parent_dir q f \<Longrightarrow> dget f p = None \<Longrightarrow> parent_dir q (dset p n f)"
  by (auto simp: parent_dir_def is_dir_def)

lemma grows_closed: "grows fs adds f \<Longrightarrow> closed fs \<Longrightarrow> closed f"
proof (induction rule: grows.induct)
  case (grows_snoc fs adds f p n)
  then have c: "closed f" by simp
  show ?case
  proof (rule closedI)
    fix q
    assume "dget (dset p n f) q \<noteq> None"
    then have "q = p \<or> dget f q \<noteq> None" by (auto split: if_splits)
    then have "q \<noteq> [] \<and> parent_dir q f" using closedD [OF c] grows_snoc.hyps(2,4) by blast
    then show "q \<noteq> [] \<and> parent_dir q (dset p n f)" using parent_dir_dset [OF _ grows_snoc.hyps(3)] by blast
  qed
qed simp

lemma grows_get: "grows fs adds f \<Longrightarrow> dget f p = (case map_of adds p of Some n \<Rightarrow> Some n | None \<Rightarrow> dget fs p)"
proof (induction rule: grows.induct)
  case (grows_snoc fs adds f q n)
  then show ?case by (auto simp: map_add_def split: option.splits)
qed simp

lemma grows_fresh: "grows fs adds f \<Longrightarrow> distinct (map fst adds) \<and> (\<forall>p \<in> set (map fst adds). dget fs p = None)"
proof (induction rule: grows.induct)
  case (grows_snoc fs adds f q n)
  have "map_of adds q = None" "dget fs q = None"
    using grows_get [OF grows_snoc.hyps(1), of q] grows_snoc.hyps(3) by (auto split: option.splits)
  then have "q \<notin> set (map fst adds)" by (simp add: map_of_eq_None_iff)
  with grows_snoc.IH \<open>dget fs q = None\<close> show ?case by auto
qed simp

lemma grows_extends: "grows fs adds f \<Longrightarrow> dget fs p \<noteq> None \<Longrightarrow> dget f p = dget fs p"
  using grows_get [of fs adds f p] grows_fresh [of fs adds f] map_of_eq_None_iff [of adds p] by auto

section \<open>Undoing\<close>

definition dirs_of :: "(string \<times> node) list \<Rightarrow> string list" where
  "dirs_of adds = map fst (filter (\<lambda>(p, n). n = Dir) adds)"

definition files_of :: "(string \<times> node) list \<Rightarrow> string list" where
  "files_of adds = map fst (filter (\<lambda>(p, n). n \<noteq> Dir) adds)"

lemma dirs_of_simps [simp]: "dirs_of [] = []" "dirs_of (x @ y) = dirs_of x @ dirs_of y"
    "dirs_of [(p, n)] = (if n = Dir then [p] else [])"
  by (simp_all add: dirs_of_def)

lemma files_of_simps [simp]: "files_of [] = []" "files_of (x @ y) = files_of x @ files_of y"
    "files_of [(p, n)] = (if n = Dir then [] else [p])"
  by (simp_all add: files_of_def)

lemma unlink_get: "dget (unlink p fs) q = (if q = p \<and> (\<exists>b m. dget fs p = Some (File b m)) then None else dget fs q)"
  by (auto simp: unlink_def split: option.splits node.splits)

lemma unlink_all_get: "dget (fold unlink ps fs) q = (if q \<in> set ps \<and> (\<exists>b m. dget fs q = Some (File b m)) then None else dget fs q)"
  by (induction ps arbitrary: fs) (auto simp: unlink_get)

lemma has_child_get: "has_child d fs \<longleftrightarrow> (\<exists>p. in_tree d p \<and> p \<noteq> d \<and> dget fs p \<noteq> None)"
  using dget_None_conv [of fs] unfolding has_child_def list_ex_iff by metis

lemma rmdir_get: "is_dir d fs \<Longrightarrow> (\<And>p. in_tree d p \<Longrightarrow> p \<noteq> d \<Longrightarrow> dget fs p = None) \<Longrightarrow> dget (rmdir_quiet d fs) = (dget fs)(d := None)"
  by (rule ext) (auto simp: rmdir_quiet_def has_child_get)

text \<open>Once the files are gone, the directories go in reverse order.\<close>

lemma rmdirs_undo:
  "grows fs adds f \<Longrightarrow> closed fs \<Longrightarrow> (\<And>p. dget g p = (if p \<in> set (files_of adds) then None else dget f p)) \<Longrightarrow>
     dget (fold rmdir_quiet (rev (dirs_of adds)) g) = dget fs"
proof (induction arbitrary: g rule: grows.induct)
  case (grows_Nil fs)
  then show ?case by (intro ext) simp
next
  case (grows_snoc fs adds f p n)
  have fr: "map_of adds p = None" using grows_get [OF grows_snoc.hyps(1), of p] grows_snoc.hyps(3) by (auto split: option.splits)
  then have np: "p \<notin> set (files_of adds)" by (auto simp: files_of_def map_of_eq_None_iff)
  show ?case
  proof (cases "n = Dir")
    case True
    have none: "dget g q = None" if "in_tree p q" "q \<noteq> p" for q
    proof -
      have "dget f q = None"
        using closed_ancestor [OF grows_closed [OF grows_snoc.hyps(1) grows_snoc.prems(1)] _ that(1) that(2)[symmetric] grows_snoc.hyps(2)]
          grows_snoc.hyps(3) by (cases "dget f q") auto
      then show ?thesis using grows_snoc.prems(2) [of q] that(2) by simp
    qed
    have "dget g p = Some Dir" using grows_snoc.prems(2) [of p] np True by simp
    then have "dget (rmdir_quiet p g) = (dget g)(p := None)" by (intro rmdir_get none) (simp_all add: is_dir_def)
    then have "dget (rmdir_quiet p g) q = (if q \<in> set (files_of adds) then None else dget f q)" for q
      using grows_snoc.prems(2) [of q] True np grows_snoc.hyps(3) by simp
    from grows_snoc.IH [OF grows_snoc.prems(1) this] show ?thesis using True by simp
  next
    case False
    have "dget g q = (if q \<in> set (files_of adds) then None else dget f q)" for q
      using grows_snoc.prems(2) [of q] False np grows_snoc.hyps(3) by simp
    from grows_snoc.IH [OF grows_snoc.prems(1) this] show ?thesis using False by simp
  qed
qed

lemma undo_exact:
  assumes "grows fs adds f" "closed fs" "set ps = set (files_of adds)" "dget f1 = dget f"
  shows "dget (fold rmdir_quiet (rev (dirs_of adds)) (fold unlink ps f1)) = dget fs"
proof (rule rmdirs_undo [OF assms(1,2)])
  fix p
  show "dget (fold unlink ps f1) p = (if p \<in> set (files_of adds) then None else dget f p)"
  proof (cases "p \<in> set (files_of adds)")
    case True
    then obtain n where n: "(p, n) \<in> set adds" "n \<noteq> Dir" by (auto simp: files_of_def)
    then have "map_of adds p = Some n" using grows_fresh [OF assms(1)] by (simp add: map_of_is_SomeI)
    then have "dget f p = Some n" using grows_get [OF assms(1), of p] by simp
    with n(2) True show ?thesis by (cases n) (auto simp: unlink_all_get assms(3,4))
  qed (simp add: unlink_all_get assms(3,4))
qed

end
