(* ===== verification/ShardRestore.thy ===== *)
theory ShardRestore
  imports ShardCache FsUndo
begin

text \<open>
  Restoration from the shard cache: what a hit leaves at the targets, and that a miss leaves
  nothing behind.
\<close>

section \<open>Staging only adds\<close>

definition extends :: "fs \<Rightarrow> fs \<Rightarrow> bool" where
  "extends fs fs1 \<longleftrightarrow> (\<forall>p. dget fs p \<noteq> None \<longrightarrow> dget fs1 p = dget fs p)"

lemma extends_refl [simp]: "extends fs fs"
  by (simp add: extends_def)

lemma extends_trans: "extends a b \<Longrightarrow> extends b c \<Longrightarrow> extends a c"
  unfolding extends_def by metis

lemma extendsD: "extends fs fs1 \<Longrightarrow> dget fs p = Some x \<Longrightarrow> dget fs1 p = Some x"
  by (simp add: extends_def)

lemma extends_dset: "dget fs p = None \<Longrightarrow> extends fs (dset p x fs)"
  by (auto simp: extends_def)

lemma make_directories_extends: "make_directories ds fs = (r, fs1) \<Longrightarrow> extends fs fs1"
proof (induction ds arbitrary: fs r)
  case (Cons d ds)
  obtain r0 f0 where m: "mkdir d fs = (r0, f0)" by fastforce
  then have "extends fs f0" by (auto simp: mkdir_def exists_def intro: extends_dset split: if_splits)
  moreover have "extends f0 fs1 \<or> fs1 = f0"
    using Cons.prems m Cons.IH [of f0] by (cases r) (auto split: sum.splits prod.splits if_splits)
  ultimately show ?case by (auto intro: extends_trans)
qed simp

lemma copy_fingerprint_Inr:
  "copy_fingerprint sha source target ae limit fs = (Inr ident, fs1) \<Longrightarrow>
     (\<exists>b. read_bytes source fs = Inr b \<and> length b \<le> limit \<and> (b \<noteq> [] \<or> ae) \<and> ident = identity_of sha b \<and>
        \<not> exists target fs \<and> parent_dir target fs \<and> fs1 = dset target (File b 384) fs)"
  unfolding copy_fingerprint_def abind_def aseq_def areads_def create_file_def araise_def aret_def
  by (auto split: if_splits sum.splits)

lemma copy_fingerprint_exists:
  "copy_fingerprint sha source target ae limit fs = (Inl FileExistsError, fs1) \<Longrightarrow> fs1 = fs"
  by (auto simp: copy_fingerprint_def abind_def areads_def aseq_def create_file_def araise_def aret_def read_bytes_def
      split: if_splits sum.splits option.splits node.splits)

lemma copy_sibling_Inr:
  "copy_fingerprint_sibling sha source target ae limit xs fs = (Inr (tmp, ident), fs1) \<Longrightarrow>
     \<exists>x b. x \<in> set xs \<and> tmp = sibling target x \<and> read_bytes source fs = Inr b \<and> ident = identity_of sha b \<and>
       \<not> exists tmp fs \<and> parent_dir tmp fs \<and> fs1 = dset tmp (File b 384) fs"
proof (induction xs)
  case (Cons x xs)
  obtain r f1 where c: "copy_fingerprint sha source (sibling target x) ae limit fs = (r, f1)" by fastforce
  show ?case
  proof (cases r)
    case (Inl e)
    with Cons.prems c have "e = FileExistsError" by (auto simp: Let_def split: if_splits)
    moreover from this c Inl have "f1 = fs" using copy_fingerprint_exists by blast
    ultimately show ?thesis using Cons c Inl by (auto simp: Let_def)
  next
    case (Inr i)
    with Cons.prems c show ?thesis by (auto simp: Let_def dest!: copy_fingerprint_Inr)
  qed
qed simp

text \<open>A staged copy of a payload: its place, its bytes, and what it came from.\<close>

definition staged_copy :: "(string \<Rightarrow> string) \<Rightarrow> string \<Rightarrow> json \<Rightarrow> (string \<Rightarrow> string list) \<Rightarrow> fs \<Rightarrow> fs
    \<Rightarrow> ((string \<times> nat \<times> bool) \<times> string) \<Rightarrow> (string \<times> string) \<Rightarrow> bool" where
  "staged_copy sha entry m rnd fs fs1 item st \<longleftrightarrow> (\<exists>n limit ae target x b. item = ((n, limit, ae), target) \<and> x \<in> set (rnd target) \<and>
     st = (sibling target x, target) \<and> dget fs (sibling target x) = None \<and> dget fs1 (sibling target x) = Some (File b 384) \<and>
     py_eq (identity_of sha b) (jat n m) \<and> (\<forall>b0 m0. dget fs (sub entry n) = Some (File b0 m0) \<longrightarrow> b = b0))"

lemma staged_copy_mono: "staged_copy sha entry m rnd fs fs1 item st \<Longrightarrow> extends f0 fs \<Longrightarrow> extends fs1 f1 \<Longrightarrow> staged_copy sha entry m rnd f0 f1 item st"
  unfolding staged_copy_def extends_def by (metis option.distinct(1))

lemma stage_files_True:
  "stage_files sha cc entry m rnd items fs = ((staged, made, Inr True), fs1) \<Longrightarrow>
     extends fs fs1 \<and> list_all2 (staged_copy sha entry m rnd fs fs1) items staged"
proof (induction items arbitrary: fs staged made)
  case (Cons item items)
  obtain n limit ae target where item: "item = ((n, limit, ae), target)" by (metis prod.exhaust)
  obtain made1 u f1 where e: "ensure_parent_directories (path_parent target) fs = ((made1, Inr u), f1)"
    using Cons.prems by (auto simp: item split: prod.splits sum.splits)
  obtain tmp ident f2 where c: "copy_fingerprint_sibling sha (sub entry n) target ae limit (take 16 (rnd target)) f1 = (Inr (tmp, ident), f2)"
    using Cons.prems e by (auto simp: item split: prod.splits sum.splits)
  have id: "py_eq ident (jat n m)" using Cons.prems e c by (auto simp: item split: if_splits)
  obtain more rest where r: "stage_files sha cc entry m rnd items f2 = ((rest, more, Inr True), fs1)" "staged = (tmp, target) # rest"
    using Cons.prems e c id by (auto simp: item split: prod.splits sum.splits if_splits bool.splits)
  have x1: "extends fs f1" using e by (auto simp: ensure_parent_directories_def dest: make_directories_extends)
  obtain x b where x: "x \<in> set (take 16 (rnd target))" "tmp = sibling target x" "read_bytes (sub entry n) f1 = Inr b"
      "ident = identity_of sha b" "\<not> exists tmp f1" "f2 = dset tmp (File b 384) f1"
    using copy_sibling_Inr [OF c] by blast
  have x2: "extends f1 f2" using x(5,6) by (auto simp: exists_def intro: extends_dset)
  from Cons.IH [OF r(1)] have x3: "extends f2 fs1" and all: "list_all2 (staged_copy sha entry m rnd f2 fs1) items rest" by auto
  have x12: "extends fs f2" using extends_trans [OF x1 x2] .
  have "staged_copy sha entry m rnd fs fs1 item (tmp, target)"
    unfolding staged_copy_def item
  proof (intro exI conjI allI impI)
    show "x \<in> set (rnd target)" using x(1) by (meson in_set_takeD)
    show "dget fs (sibling target x) = None" using x(2,5) x1 by (auto simp: exists_def extends_def)
    show "dget fs1 (sibling target x) = Some (File b 384)" using x(2,6) x3 by (auto intro: extendsD)
    show "py_eq (identity_of sha b) (jat n m)" using id x(4) by simp
    show "b = b0" if "dget fs (sub entry n) = Some (File b0 m0)" for b0 m0
      using extendsD [OF x1 that] x(3) by (simp add: read_bytes_def)
  qed (use x in simp_all)
  moreover have "list_all2 (staged_copy sha entry m rnd fs fs1) items rest"
    using all by (rule list_all2_mono) (auto intro: staged_copy_mono [OF _ x12])
  ultimately show ?case using extends_trans [OF x12 x3] r(2) by simp
qed simp


section \<open>Committing a hit\<close>

text \<open>The paths a restoration works on are apart: targets, staging names and staging names of different targets.\<close>

definition apart :: "string \<Rightarrow> string \<Rightarrow> bool" where
  "apart p q \<longleftrightarrow> \<not> in_tree p q \<and> \<not> in_tree q p"

definition names_apart :: "string list \<Rightarrow> (string \<Rightarrow> string list) \<Rightarrow> bool" where
  "names_apart targets rnd \<longleftrightarrow> list_all (\<lambda>t. list_all (\<lambda>u. (t = u \<or> apart t u) \<and> list_all (\<lambda>x. apart (sibling t x) u \<and>
     list_all (\<lambda>y. t = u \<or> apart (sibling t x) (sibling u y)) (rnd u)) (rnd t)) targets) targets"

lemma names_apartD:
  assumes "names_apart targets rnd" "t \<in> set targets" "u \<in> set targets"
  shows "t = u \<or> apart t u" "x \<in> set (rnd t) \<Longrightarrow> apart (sibling t x) u"
    "x \<in> set (rnd t) \<Longrightarrow> y \<in> set (rnd u) \<Longrightarrow> t = u \<or> apart (sibling t x) (sibling u y)"
  using assms unfolding names_apart_def list_all_iff by blast+

definition mode_at :: "json \<Rightarrow> nat \<Rightarrow> nat" where
  "mode_at m i = (case jat (fst (slots ! i)) (jat ''modes'' m) of JInt k \<Rightarrow> nat k | _ \<Rightarrow> 0)"

lemma commit_one_Inr:
  assumes "commit_one m staged i fs = (Inr u, fs1)" "staged ! i = (tmp, target)" "dget fs tmp = Some (File b x)" "apart tmp target"
  shows "dget fs1 target = Some (File b (mode_at m i))" "apart tmp q \<Longrightarrow> apart target q \<Longrightarrow> dget fs1 q = dget fs q"
proof -
  have ap: "\<not> in_tree tmp target" "\<not> in_tree target tmp" using assms(4) by (auto simp: apart_def)
  have "os_replace tmp target (dset tmp (File b (mode_at m i)) fs) = (Inr u, fs1)"
    using assms(1-3) by (auto simp: commit_one_def Let_def aseq_Inr chmod_def mode_at_def)
  then have fs1: "fs1 = move_tree tmp target (dset tmp (File b (mode_at m i)) fs)"
    using ap(1) by (auto dest: os_replace_Inr)
  show "dget fs1 target = Some (File b (mode_at m i))"
    unfolding fs1 by (simp add: fs_store.look_move [OF ap])
  show "dget fs1 q = dget fs q" if "apart tmp q" "apart target q"
    using that unfolding fs1 by (auto simp: fs_store.look_move [OF ap] apart_def)
qed

text \<open>A target after a hit: the bytes with the identity and the mode of the manifest, those of the entry.\<close>

definition restored :: "(string \<Rightarrow> string) \<Rightarrow> string \<Rightarrow> json \<Rightarrow> fs \<Rightarrow> fs \<Rightarrow> nat \<Rightarrow> string \<Rightarrow> bool" where
  "restored sha entry m fs fs1 i target \<longleftrightarrow> (\<exists>b. dget fs1 target = Some (File b (mode_at m i)) \<and>
     py_eq (identity_of sha b) (jat (fst (slots ! i)) m) \<and> (\<forall>b0 m0. dget fs (sub entry (fst (slots ! i))) = Some (File b0 m0) \<longrightarrow> b = b0))"

lemma staged_three:
  assumes "list_all2 (staged_copy sha entry m rnd fs fs1) (zip slots [t0, t1, t2]) staged"
  obtains x0 x1 x2 b0 b1 b2 where "staged = [(sibling t0 x0, t0), (sibling t1 x1, t1), (sibling t2 x2, t2)]"
    "x0 \<in> set (rnd t0)" "x1 \<in> set (rnd t1)" "x2 \<in> set (rnd t2)"
    "dget fs1 (sibling t0 x0) = Some (File b0 384)" "dget fs1 (sibling t1 x1) = Some (File b1 384)" "dget fs1 (sibling t2 x2) = Some (File b2 384)"
    "py_eq (identity_of sha b0) (jat ''object'' m)" "py_eq (identity_of sha b1) (jat ''stdout'' m)" "py_eq (identity_of sha b2) (jat ''stderr'' m)"
    "\<forall>b m. dget fs (sub entry ''object'') = Some (File b m) \<longrightarrow> b0 = b"
    "\<forall>b m. dget fs (sub entry ''stdout'') = Some (File b m) \<longrightarrow> b1 = b"
    "\<forall>b m. dget fs (sub entry ''stderr'') = Some (File b m) \<longrightarrow> b2 = b"
proof -
  obtain s0 s1 s2 where st: "staged = [s0, s1, s2]" "staged_copy sha entry m rnd fs fs1 ((''object'', MAX_BYTES, False), t0) s0"
      "staged_copy sha entry m rnd fs fs1 ((''stdout'', MAX_STREAM, True), t1) s1" "staged_copy sha entry m rnd fs fs1 ((''stderr'', MAX_STREAM, True), t2) s2"
    using assms by (auto simp: slots_def list_all2_Cons1)
  then show thesis unfolding staged_copy_def using that by (elim exE conjE) (simp only: prod.inject st)
qed

lemma commit_all_exact:
  assumes c: "commit_all m staged f = (Inr u, fs1)" and st: "list_all2 (staged_copy sha entry m rnd fs f) (zip slots [t0, t1, t2]) staged"
    and d: "distinct [t0, t1, t2]" and n: "names_apart [t0, t1, t2] rnd"
  shows "restored sha entry m fs fs1 0 t0 \<and> restored sha entry m fs fs1 1 t1 \<and> restored sha entry m fs fs1 2 t2"
proof -
  obtain x0 x1 x2 b0 b1 b2 where s: "staged = [(sibling t0 x0, t0), (sibling t1 x1, t1), (sibling t2 x2, t2)]"
    and x: "x0 \<in> set (rnd t0)" "x1 \<in> set (rnd t1)" "x2 \<in> set (rnd t2)"
    and g: "dget f (sibling t0 x0) = Some (File b0 384)" "dget f (sibling t1 x1) = Some (File b1 384)" "dget f (sibling t2 x2) = Some (File b2 384)"
    and i: "py_eq (identity_of sha b0) (jat ''object'' m)" "py_eq (identity_of sha b1) (jat ''stdout'' m)" "py_eq (identity_of sha b2) (jat ''stderr'' m)"
    and e: "\<forall>b m. dget fs (sub entry ''object'') = Some (File b m) \<longrightarrow> b0 = b"
      "\<forall>b m. dget fs (sub entry ''stdout'') = Some (File b m) \<longrightarrow> b1 = b"
      "\<forall>b m. dget fs (sub entry ''stderr'') = Some (File b m) \<longrightarrow> b2 = b"
    by (rule staged_three [OF st])
  define p0 p1 p2 where p: "p0 = sibling t0 x0" "p1 = sibling t1 x1" "p2 = sibling t2 x2"
  note N = names_apartD [OF n]
  have sym: "apart a b \<Longrightarrow> apart b a" for a b by (simp add: apart_def)
  have tt: "apart t1 t2" "apart t1 t0" "apart t2 t0" "apart t2 t1" using N(1) [of t1 t2] N(1) [of t1 t0] N(1) [of t2 t0] N(1) [of t2 t1] d by auto
  have pt: "apart p1 t1" "apart p2 t2" "apart p0 t0" "apart p2 t1" "apart p0 t1" "apart p0 t2" "apart p1 t2" "apart p1 t0" "apart p2 t0"
    using N(2) x unfolding p by simp_all
  have pp: "apart p1 p2" "apart p1 p0" "apart p2 p0" "apart p0 p1" "apart p0 p2"
    using N(3) [of t1 t2 x1 x2] N(3) [of t1 t0 x1 x0] N(3) [of t2 t0 x2 x0] N(3) [of t0 t1 x0 x1] N(3) [of t0 t2 x0 x2] x d unfolding p by auto
  obtain f1 f2 u1 u2 where o: "commit_one m staged 1 f = (Inr u1, f1)" "commit_one m staged 2 f1 = (Inr u2, f2)" "commit_one m staged 0 f2 = (Inr u, fs1)"
    using c by (auto simp: commit_all_def aseq_Inr)
  have nth: "staged ! 0 = (p0, t0)" "staged ! 1 = (p1, t1)" "staged ! 2 = (p2, t2)" using s by (simp_all add: p)
  note g' = g [folded p]
  note c1 = commit_one_Inr [OF o(1) nth(2) g'(2) pt(1)]
  have g2: "dget f1 p2 = Some (File b2 384)" using c1(2) [OF pp(1) sym [OF pt(4)]] g'(3) by simp
  note c2 = commit_one_Inr [OF o(2) nth(3) g2 pt(2)]
  have "dget f1 p0 = Some (File b0 384)" using c1(2) [OF pp(2) sym [OF pt(5)]] g'(1) by simp
  then have g0: "dget f2 p0 = Some (File b0 384)" using c2(2) [OF pp(3) sym [OF pt(6)]] by simp
  note c0 = commit_one_Inr [OF o(3) nth(1) g0 pt(3)]
  have "dget fs1 t0 = Some (File b0 (mode_at m 0))" "dget fs1 t1 = Some (File b1 (mode_at m 1))" "dget fs1 t2 = Some (File b2 (mode_at m 2))"
    using c0(1) c1(1) c2(1) c0(2) [OF pt(5) sym [OF tt(2)]] c2(2) [OF pt(4) tt(4)] c0(2) [OF pt(6) sym [OF tt(3)]] by simp_all
  then show ?thesis using i e by (simp add: restored_def slots_def)
qed


lemma read_manifest_Some:
  "read_bundle_manifest sha entry t fs = Inr (Some m) \<Longrightarrow> manifest_match sha m t = Inr True \<and> manifest_ok m"
  by (auto simp: read_bundle_manifest_def or_missing_def parse_manifest_def split: sum.splits if_splits)

lemma lock_not_payload: "is_hex64 k \<Longrightarrow> sub (sub cache k) n \<noteq> sub cache (k @ ''.lock'')"
  by (simp add: sub_def)

lemma restored_before:
  assumes "lock_entry cache k fs = (r, fs0)" "is_hex64 k" "restored sha (sub cache k) m fs0 fs1 i t"
  shows "restored sha (sub cache k) m fs fs1 i t"
proof -
  have "dget fs0 (sub (sub cache k) n) = Some v" if "dget fs (sub (sub cache k) n) = Some v" for n v
    using lock_entry_other [OF assms(1) lock_not_payload [OF assms(2)], of n] that by simp
  with assms(3) show ?thesis unfolding restored_def by metis
qed

context ticket_validator
begin

lemma restore_hit:
  assumes r: "restore sha val cc False cache t [t0, t1, t2] rnd (s, fs) = (Inr (Some (m, st, dirs)), (s1, fs1))"
    and hex: "hex_digest sha" and i: "inv s" and n: "names_apart [t0, t1, t2] rnd"
  shows "\<exists>k. jget ''key'' t = Inr (JStr k) \<and> manifest_match sha m t = Inr True \<and> manifest_ok m \<and>
    (\<forall>j < 3. restored sha (sub cache k) m fs fs1 j ([t0, t1, t2] ! j))"
proof -
  from r obtain u s2 f2 k x f3 m0 where v: "val t (s, fs) = (Inr u, (s2, f2))" and d: "distinct [t0, t1, t2]"
    and k: "rbind (jget ''key'' t) jstr = Inr k" and l: "lock_entry cache k f2 = (Inr x, f3)"
    and m: "read_bundle_manifest sha (sub cache k) t f3 = Inr (Some m0)"
    and f: "restore_found sha val cc False t (sub cache k) [t0, t1, t2] rnd m0 (s2, f3) = (Inr (Some (m, st, dirs)), (s1, fs1))"
    unfolding restore_def act_Inr by (auto split: option.splits)
  have "f2 = fs" by (rule val_fs [OF v])
  have kk: "jget ''key'' t = Inr (JStr k)" using k by (auto simp: jstr_def split: json.splits)
  have hk: "is_hex64 k" using ticket_key_hex [OF hex val_ok [OF i v] kk] by simp
  obtain staged made f4 where sf: "stage_files sha cc (sub cache k) m0 rnd (zip slots [t0, t1, t2]) f3 = ((staged, made, Inr True), f4)"
    using f by (auto simp: restore_found_def split: prod.splits sum.splits bool.splits)
  obtain w s5 f5 where v2: "val t (s2, f4) = (Inr w, (s5, f5))"
    using f sf by (auto simp: restore_found_def split: prod.splits sum.splits)
  have "f5 = f4" by (rule val_fs [OF v2])
  obtain w2 where c: "commit_all m0 staged f4 = (Inr w2, fs1)" and "m0 = m"
    using f sf v2 \<open>f5 = f4\<close> by (auto simp: restore_found_def split: prod.splits sum.splits)
  have "list_all2 (staged_copy sha (sub cache k) m rnd f3 f4) (zip slots [t0, t1, t2]) staged"
    using stage_files_True [OF sf] \<open>m0 = m\<close> by simp
  from commit_all_exact [OF c [unfolded \<open>m0 = m\<close>] this d n]
  have "restored sha (sub cache k) m fs fs1 0 t0" "restored sha (sub cache k) m fs fs1 1 t1" "restored sha (sub cache k) m fs fs1 2 t2"
    using restored_before [OF l [unfolded \<open>f2 = fs\<close>] hk] by blast+
  moreover have "[t0, t1, t2] ! j = (if j = 0 then t0 else if j = 1 then t1 else t2) \<and> (j = 0 \<or> j = 1 \<or> j = 2)" if "j < 3" for j
    using that by (auto simp: less_Suc_eq numeral_3_eq_3)
  ultimately have "\<forall>j < 3. restored sha (sub cache k) m fs fs1 j ([t0, t1, t2] ! j)" by (metis One_nat_def)
  then show ?thesis using kk read_manifest_Some [OF m] \<open>m0 = m\<close> by blast
qed

end


section \<open>A miss leaves nothing behind\<close>

lemma prefixes_at_in: "d \<in> set (prefixes_at acc cs) \<Longrightarrow> d \<noteq> [] \<and> in_tree d (rev acc @ cs)"
proof (induction acc cs rule: prefixes_at.induct)
  case (2 acc c cs)
  then consider "c = CHR ''/''" "acc \<noteq> []" "d = rev acc" | "d \<in> set (prefixes_at (c # acc) cs)" by (auto split: if_splits)
  then show ?case
  proof cases
    case 1
    then show ?thesis unfolding in_tree_iff by auto
  qed (use 2 in auto)
qed (auto split: if_splits)

lemma path_parent_in: "path_parent t \<noteq> [] \<Longrightarrow> in_tree (path_parent t) t"
proof -
  assume ne: "path_parent t \<noteq> []"
  have "CHR ''/'' \<in> set t"
  proof (rule ccontr)
    assume "CHR ''/'' \<notin> set t"
    then have "dropWhile (\<lambda>c. c \<noteq> CHR ''/'') (rev t) = []" by auto
    with ne show False by (simp add: path_parent_def)
  qed
  then obtain a n where "t = a @ CHR ''/'' # n" "CHR ''/'' \<notin> set n" using split_last_slash by blast
  then show ?thesis using path_parent_sub [of n a] by (simp add: sub_def in_tree_iff)
qed

lemma parent_prefix: "d \<in> set (prefixes_at [] (path_parent t)) \<Longrightarrow> d \<noteq> [] \<and> in_tree d t"
  using prefixes_at_in [of d "[]" "path_parent t"] path_parent_in [of t] in_tree_trans
  by (cases "path_parent t = []") auto

lemma make_directories_grows:
  "make_directories ds fs = ((made, r), fs1) \<Longrightarrow> [] \<notin> set ds \<Longrightarrow>
     \<exists>adds. grows fs adds fs1 \<and> dirs_of adds = made \<and> files_of adds = [] \<and> set made \<subseteq> set ds"
proof (induction ds arbitrary: fs made)
  case Nil
  then show ?case by (intro exI [of _ "[]"]) (auto intro: grows_Nil)
next
  case (Cons d ds)
  show ?case
  proof (cases "\<not> exists d fs \<and> parent_dir d fs")
    case True
    then have m: "mkdir d fs = (Inr (), dset d Dir fs)" by (simp add: mkdir_def)
    with Cons.prems obtain more where r: "make_directories ds (dset d Dir fs) = ((more, r), fs1)" "made = d # more"
      by (auto split: prod.splits)
    then obtain adds where a: "grows (dset d Dir fs) adds fs1" "dirs_of adds = more" "files_of adds = []" "set more \<subseteq> set ds"
      using Cons.IH Cons.prems(2) by fastforce
    have "grows fs ([] @ [(d, Dir)]) (dset d Dir fs)"
      using True Cons.prems(2) by (intro grows_snoc grows_Nil) (auto simp: exists_def)
    from grows_trans [OF a(1) this] show ?thesis using a r(2)
      by (intro exI [of _ "([] @ [(d, Dir)]) @ adds"]) (auto simp: dirs_of_def files_of_def)
  next
    case False
    then obtain e where m: "mkdir d fs = (Inl e, fs)" by (cases "exists d fs") (auto simp: mkdir_def)
    show ?thesis
    proof (cases "e = FileExistsError \<and> is_dir d fs")
      case True
      then have "make_directories ds fs = ((made, r), fs1)" using Cons.prems m by simp
      from Cons.IH [OF this] Cons.prems(2) show ?thesis by auto
    next
      case False
      then have "made = []" "fs1 = fs" using Cons.prems m by (auto split: if_splits)
      then show ?thesis by (intro exI [of _ "[]"]) (auto intro: grows_Nil)
    qed
  qed
qed

definition unused :: "fs \<Rightarrow> (string \<Rightarrow> string list) \<Rightarrow> string \<Rightarrow> bool" where
  "unused fs rnd t \<longleftrightarrow> list_all (\<lambda>x. \<not> exists (sibling t x) fs) (rnd t)"

lemma copy_fingerprint_Inl:
  "copy_fingerprint sha source target ae limit fs = (Inl e, fs1) \<Longrightarrow> \<not> exists target fs \<Longrightarrow>
     e \<noteq> FileExistsError \<and> dget (unlink target fs1) = dget fs"
  unfolding copy_fingerprint_def abind_def aseq_def areads_def create_file_def araise_def aret_def exists_def read_bytes_def
  by (auto simp: unlink_get fun_eq_iff split: if_splits sum.splits option.splits node.splits)

lemma copy_sibling_Inl:
  "copy_fingerprint_sibling sha source target ae limit xs fs = (Inl e, fs1) \<Longrightarrow> list_all (\<lambda>x. \<not> exists (sibling target x) fs) xs \<Longrightarrow>
     dget fs1 = dget fs"
proof (cases xs)
  case (Cons x ys)
  assume a: "copy_fingerprint_sibling sha source target ae limit xs fs = (Inl e, fs1)" "list_all (\<lambda>x. \<not> exists (sibling target x) fs) xs"
  obtain r f1 where c: "copy_fingerprint sha source (sibling target x) ae limit fs = (r, f1)" by fastforce
  have n: "\<not> exists (sibling target x) fs" using a(2) Cons by simp
  obtain e0 where e0: "r = Inl e0" using a(1) c by (cases r) (auto simp: Cons Let_def)
  then show ?thesis using a(1) c copy_fingerprint_Inl [OF c [unfolded e0] n] by (auto simp: Cons Let_def)
qed simp

text \<open>What staging adds: the directories made and the copies, whatever the outcome.\<close>

definition stages :: "fs \<Rightarrow> (string \<times> string) list \<Rightarrow> string list \<Rightarrow> fs \<Rightarrow> bool" where
  "stages fs staged made fs1 \<longleftrightarrow> (\<exists>adds f. grows fs adds f \<and> dget fs1 = dget f \<and> dirs_of adds = made \<and> set (files_of adds) = set (map fst staged))"

lemma stages_discard: "stages fs staged made fs1 \<Longrightarrow> closed fs \<Longrightarrow> dget (discard staged made fs1) = dget fs"
proof -
  assume "stages fs staged made fs1" and c: "closed fs"
  then obtain adds f where a: "grows fs adds f" "dget fs1 = dget f" "dirs_of adds = made" "set (map fst staged) = set (files_of adds)"
    unfolding stages_def by auto
  have "fold (\<lambda>(tmp, _). unlink tmp) staged fs1 = fold unlink (map fst staged) fs1"
    by (simp add: fold_map comp_def case_prod_unfold)
  then show ?thesis using undo_exact [OF a(1) c a(4,2)] a(3) by (simp add: discard_def remove_empty_directories_def)
qed

lemma parents_grow:
  assumes e: "ensure_parent_directories (path_parent target) fs = ((made, r), f1)"
  shows "\<exists>adds. grows fs adds f1 \<and> dirs_of adds = made \<and> files_of adds = [] \<and> (\<forall>p. dget f1 p \<noteq> dget fs p \<longrightarrow> in_tree p target)"
proof -
  obtain adds where a: "grows fs adds f1" "dirs_of adds = made" "files_of adds = []" "set made \<subseteq> set (prefixes_at [] (path_parent target))"
    using make_directories_grows [OF e [unfolded ensure_parent_directories_def]] parent_prefix [of "[]" target] by auto
  have "in_tree p target" if "dget f1 p \<noteq> dget fs p" for p
  proof -
    have "map_of adds p \<noteq> None" using that grows_get [OF a(1), of p] by (auto split: option.splits)
    then obtain n where "map_of adds p = Some n" by blast
    then have "(p, n) \<in> set adds" by (rule map_of_SomeD)
    then have "p \<in> set (dirs_of adds) \<or> p \<in> set (files_of adds)" by (cases "n = Dir") (force simp: dirs_of_def files_of_def)+
    then have "p \<in> set (prefixes_at [] (path_parent target))" using a by auto
    then show ?thesis using parent_prefix by blast
  qed
  then show ?thesis using a by blast
qed

lemma unused_step:
  assumes n: "names_apart targets rnd" "t \<in> set targets" "u \<in> set targets" "t \<noteq> u" and un: "unused fs rnd u"
    and ch: "\<And>p. dget f1 p \<noteq> dget fs p \<Longrightarrow> in_tree p t \<or> (\<exists>x \<in> set (rnd t). p = sibling t x)"
  shows "unused f1 rnd u"
  unfolding unused_def list_all_iff
proof (intro ballI notI)
  fix x
  assume x: "x \<in> set (rnd u)" and ex: "exists (sibling u x) f1"
  have "dget f1 (sibling u x) \<noteq> dget fs (sibling u x)" using un x ex by (auto simp: unused_def list_all_iff exists_def)
  from ch [OF this] show False
  proof
    assume "in_tree (sibling u x) t"
    then show False using names_apartD(2) [OF n(1,3,2) x] by (simp add: apart_def)
  next
    assume "\<exists>y \<in> set (rnd t). sibling u x = sibling t y"
    then obtain y where "y \<in> set (rnd t)" "sibling u x = sibling t y" by blast
    then show False using names_apartD(3) [OF n(1,3,2) x] n(4) by (metis apart_def in_tree_refl)
  qed
qed

lemma stages_Nil: "grows fs adds f \<Longrightarrow> dirs_of adds = made \<Longrightarrow> files_of adds = [] \<Longrightarrow> dget fs1 = dget f \<Longrightarrow> stages fs [] made fs1"
  unfolding stages_def by auto

lemma stages_Cons:
  assumes "grows fs adds f1" "dirs_of adds = made" "files_of adds = []" "\<not> exists tmp f1" "parent_dir tmp f1" "tmp \<noteq> []"
    "stages (dset tmp (File b x) f1) staged more fs1"
  shows "stages fs ((tmp, t) # staged) (made @ more) fs1"
proof -
  obtain adds2 f where a: "grows (dset tmp (File b x) f1) adds2 f" "dget fs1 = dget f" "dirs_of adds2 = more" "set (files_of adds2) = set (map fst staged)"
    using assms(7) unfolding stages_def by auto
  have "grows fs (adds @ [(tmp, File b x)]) (dset tmp (File b x) f1)"
    using assms by (intro grows_snoc) (auto simp: exists_def)
  from grows_trans [OF a(1) this] show ?thesis unfolding stages_def using a assms(2,3)
    by (intro exI [of _ "(adds @ [(tmp, File b x)]) @ adds2"] exI [of _ f]) (simp add: dirs_of_def files_of_def)
qed

lemma stages_refl: "stages fs [] [] fs"
  by (rule stages_Nil [OF grows_Nil]) simp_all


lemma stage_files_stages:
  "stage_files sha cc entry m rnd items fs = ((staged, made, r), fs1) \<Longrightarrow> names_apart targets rnd \<Longrightarrow> set (map snd items) \<subseteq> set targets \<Longrightarrow>
     distinct (map snd items) \<Longrightarrow> list_all (unused fs rnd) (map snd items) \<Longrightarrow> stages fs staged made fs1"
proof (induction items arbitrary: fs staged made r fs1)
  case Nil
  then show ?case by (simp add: stages_refl)
next
  case (Cons item items)
  obtain n limit ae target where item: "item = ((n, limit, ae), target)" by (metis prod.exhaust)
  obtain made1 r1 f1 where e: "ensure_parent_directories (path_parent target) fs = ((made1, r1), f1)" by (metis prod.exhaust)
  obtain adds where a: "grows fs adds f1" "dirs_of adds = made1" "files_of adds = []"
    and ch: "\<forall>p. dget f1 p \<noteq> dget fs p \<longrightarrow> in_tree p target"
    using parents_grow [OF e] by blast
  have tin: "target \<in> set targets" using Cons.prems(3) by (simp add: item)
  have un: "\<not> exists (sibling target x) f1" if "x \<in> set (rnd target)" for x
  proof -
    have "\<not> in_tree (sibling target x) target" using names_apartD(2) [OF Cons.prems(2) tin tin that] by (simp add: apart_def)
    then have "dget f1 (sibling target x) = dget fs (sibling target x)" using ch by blast
    then show ?thesis using Cons.prems(5) that by (simp add: item unused_def list_all_iff exists_def)
  qed
  obtain r2 f2 where c: "copy_fingerprint_sibling sha (sub entry n) target ae limit (take 16 (rnd target)) f1 = (r2, f2)" by fastforce
  show ?case
  proof (cases r1)
    case (Inl x)
    then have "staged = []" "made = made1" "fs1 = f1" using Cons.prems(1) e by (auto simp: item)
    then show ?thesis using stages_Nil [OF a refl] by simp
  next
    case (Inr u)
    show ?thesis
    proof (cases r2)
      case (Inl x)
      then have "staged = []" "made = made1" "fs1 = f2" using Cons.prems(1) e Inr c by (auto simp: item)
      moreover have "dget f2 = dget f1"
        using copy_sibling_Inl [OF c [unfolded Inl]] un by (auto simp: list_all_iff dest: in_set_takeD)
      ultimately show ?thesis using stages_Nil [OF a] by simp
    next
      case (Inr ti)
      obtain tmp ident where ti: "ti = (tmp, ident)" by fastforce
      obtain x b where x: "x \<in> set (rnd target)" "tmp = sibling target x" "\<not> exists tmp f1" "f2 = dset tmp (File b 384) f1" and pd: "parent_dir tmp f1"
        using copy_sibling_Inr [OF c [unfolded Inr ti]] in_set_takeD by fast
      note step = stages_Cons [OF a x(3) pd, of b 384]
      have ne: "tmp \<noteq> []" by (simp add: x(2) sibling_def sub_def)
      obtain rest more r3 f3 where rec: "stage_files sha cc entry m rnd items f2 = ((rest, more, r3), f3)" by (metis prod.exhaust)
      have out: "staged = [(tmp, target)] \<and> made = made1 \<and> fs1 = f2 \<or> staged = (tmp, target) # rest \<and> made = made1 @ more \<and> fs1 = f3"
        using Cons.prems(1) e c \<open>r1 = Inr u\<close> Inr ti rec by (auto simp: item split: if_splits sum.splits bool.splits)
      have "unused f2 rnd v" if "v \<in> set (map snd items)" for v
      proof (rule unused_step [OF Cons.prems(2) tin])
        show "v \<in> set targets" "target \<noteq> v" "unused fs rnd v" using that Cons.prems(3-5) by (auto simp: item list_all_iff)
        show "in_tree p target \<or> (\<exists>x \<in> set (rnd target). p = sibling target x)" if "dget f2 p \<noteq> dget fs p" for p
          using that ch x by (auto split: if_splits)
      qed
      then have "stages f2 rest more f3"
        using Cons.IH [OF rec Cons.prems(2)] Cons.prems(3,4) by (auto simp: list_all_iff)
      then show ?thesis using out step [OF ne, of rest more f3 target] step [OF ne, of "[]" "[]" f2 target] stages_refl [of f2]
        by (auto simp: x(4))
    qed
  qed
qed


text \<open>The lock creates the cache directory and its file only.\<close>

lemma aeach_mkdir_get: "aeach mkdir_if ps fs = (r, fs1) \<Longrightarrow> p \<notin> set ps \<Longrightarrow> dget fs1 p = dget fs p"
proof (induction ps arbitrary: fs r)
  case (Cons d ds)
  obtain r0 f0 where m: "mkdir_if d fs = (r0, f0)" by fastforce
  then have "dget f0 p = dget fs p" using Cons.prems(2) by (auto simp: mkdir_if_def mkdir_def split: if_splits)
  moreover have "dget fs1 p = dget f0 p"
    using Cons.prems m Cons.IH [of f0] by (auto simp: abind_def aret_def split: prod.splits sum.splits)
  ultimately show ?case by simp
qed (simp add: aret_def)

lemma lock_entry_get:
  assumes "lock_entry cache k fs = (r, fs1)" "p \<noteq> sub cache (k @ ''.lock'')" "p \<notin> set (prefixes_at [] cache)"
  shows "dget fs1 p = dget fs p"
proof -
  obtain r0 f0 where m: "mkdirs cache fs = (r0, f0)" by fastforce
  then have "dget f0 p = dget fs p"
    using assms(3) by (auto simp: mkdirs_def aseq_def abind_def aret_def split: prod.splits sum.splits dest: aeach_mkdir_get)
  moreover have "dget fs1 p = dget f0 p"
    using assms(1,2) m by (auto simp: lock_entry_def aseq_def abind_def create_file_def Let_def split: prod.splits sum.splits option.splits node.splits if_splits)
  ultimately show ?thesis by simp
qed

lemma closed_dset: "closed f \<Longrightarrow> p \<noteq> [] \<Longrightarrow> dget f p = None \<Longrightarrow> parent_dir p f \<Longrightarrow> closed (dset p n f)"
  using grows_closed [of f "[] @ [(p, n)]"] grows_snoc [OF grows_Nil] by blast

lemma aeach_mkdir_closed: "aeach mkdir_if ps fs = (r, fs1) \<Longrightarrow> [] \<notin> set ps \<Longrightarrow> closed fs \<Longrightarrow> closed fs1"
proof (induction ps arbitrary: fs r)
  case (Cons d ds)
  obtain r0 f0 where m: "mkdir_if d fs = (r0, f0)" by fastforce
  then have "closed f0" using Cons.prems(2,3) by (auto simp: mkdir_if_def mkdir_def exists_def split: if_splits intro: closed_dset)
  then show ?case using Cons.prems m Cons.IH [of f0] by (auto simp: abind_def aret_def split: prod.splits sum.splits)
qed (simp add: aret_def)

lemma lock_entry_closed: "lock_entry cache k fs = (r, fs1) \<Longrightarrow> closed fs \<Longrightarrow> closed fs1"
proof -
  assume l: "lock_entry cache k fs = (r, fs1)" and c: "closed fs"
  obtain r0 f0 where m: "mkdirs cache fs = (r0, f0)" by fastforce
  have "[] \<notin> set (prefixes_at [] cache)" using prefixes_at_in [of "[]" "[]" cache] by auto
  then have "closed f0"
    using m c by (auto simp: mkdirs_def aseq_def abind_def aret_def split: prod.splits sum.splits dest: aeach_mkdir_closed)
  then show ?thesis
    using l m by (auto simp: lock_entry_def aseq_def abind_def create_file_def Let_def exists_def sub_def
        split: prod.splits sum.splits option.splits node.splits if_splits intro!: closed_dset)
qed

text \<open>Staging names that nothing uses, neither now nor after the lock is taken.\<close>

definition names_free :: "string \<Rightarrow> string list \<Rightarrow> (string \<Rightarrow> string list) \<Rightarrow> fs \<Rightarrow> bool" where
  "names_free cache targets rnd fs \<longleftrightarrow> list_all (\<lambda>t. list_all (\<lambda>x. \<not> exists (sibling t x) fs \<and> \<not> ends_with ''.lock'' (sibling t x) \<and>
     sibling t x \<notin> set (prefixes_at [] cache)) (rnd t)) targets"

lemma unused_locked:
  assumes "names_free cache targets rnd fs" "t \<in> set targets" "lock_entry cache k fs = (r, fs1)"
  shows "unused fs1 rnd t"
proof -
  have "\<not> exists (sibling t x) fs1" if "x \<in> set (rnd t)" for x
  proof -
    have n: "\<not> exists (sibling t x) fs" "\<not> ends_with ''.lock'' (sibling t x)" "sibling t x \<notin> set (prefixes_at [] cache)"
      using assms(1,2) that by (auto simp: names_free_def list_all_iff)
    have "sibling t x \<noteq> sub cache (k @ ''.lock'')" using n(2) by (auto simp: ends_with_iff sub_def)
    from lock_entry_get [OF assms(3) this n(3)] n(1) show ?thesis by (simp add: exists_def)
  qed
  then show ?thesis by (simp add: unused_def list_all_iff)
qed

context ticket_validator
begin

lemma restore_found_clean:
  assumes r: "restore_found sha val cc deferred t entry [t0, t1, t2] rnd m (s, fs) = (r, (s1, fs1))" "r = Inr None \<or> deferred \<and> (\<exists>e. r = Inl e)"
    and c: "closed fs" and d: "distinct [t0, t1, t2]" and n: "names_apart [t0, t1, t2] rnd" and un: "list_all (unused fs rnd) [t0, t1, t2]"
  shows "dget fs1 = dget fs"
proof -
  obtain staged made q f1 where sf: "stage_files sha cc entry m rnd (zip slots [t0, t1, t2]) fs = ((staged, made, q), f1)" by (metis prod.exhaust)
  have "stages fs staged made f1"
    by (rule stage_files_stages [OF sf n]) (use d un in \<open>simp_all add: slots_def\<close>)
  then have u: "dget (discard staged made f1) = dget fs" by (rule stages_discard [OF _ c])
  have "fs1 = discard staged made f1"
  proof (cases q)
    case (Inl e)
    then show ?thesis using r(1) sf by (simp add: restore_found_def)
  next
    case (Inr ok)
    obtain w s2 f2 where v: "val t (s, f1) = (w, (s2, f2))" by (metis prod.exhaust)
    have "f2 = f1" by (rule val_fs [OF v])
    then show ?thesis using r sf Inr v by (cases ok) (auto simp: restore_found_def split: sum.splits prod.splits if_splits)
  qed
  then show ?thesis using u by simp
qed

lemma restore_clean:
  assumes r: "restore sha val cc deferred cache t [t0, t1, t2] rnd (s, fs) = (r, (s1, fs1))" "r = Inr None \<or> deferred \<and> (\<exists>e. r = Inl e)"
    and c: "closed fs" and n: "names_apart [t0, t1, t2] rnd" "names_free cache [t0, t1, t2] rnd fs"
    and p: "\<not> ends_with ''.lock'' p" "p \<notin> set (prefixes_at [] cache)"
  shows "dget fs1 p = dget fs p"
proof -
  obtain u s2 f2 where v: "val t (s, fs) = (u, (s2, f2))" by (metis prod.exhaust)
  have f2: "f2 = fs" by (rule val_fs [OF v])
  show ?thesis
  proof (cases "(\<exists>x. u = Inr x) \<and> distinct [t0, t1, t2] \<and> (\<exists>k. rbind (jget ''key'' t) jstr = Inr k)")
    case False
    then have "fs1 = fs" using r(1) v f2
      by (cases u) (auto simp: restore_def aseq_def abind_def aguard_def araise_def aret_def areads_def split: sum.splits if_splits)
    then show ?thesis by simp
  next
    case True
    then obtain x k where x: "u = Inr x" "distinct [t0, t1, t2]" "rbind (jget ''key'' t) jstr = Inr k" by (elim conjE exE)
    obtain l f3 where l: "lock_entry cache k fs = (l, f3)" by fastforce
    have pk: "p \<noteq> sub cache (k @ ''.lock'')" using p(1) by (auto simp: ends_with_iff sub_def)
    have lg: "dget f3 p = dget fs p" by (rule lock_entry_get [OF l pk p(2)])
    have "fs1 = f3 \<or> (\<exists>m. restore_found sha val cc deferred t (sub cache k) [t0, t1, t2] rnd m (s2, f3) = (r, (s1, fs1)))"
      using r(1) v f2 x l by (auto simp: restore_def aseq_def abind_def aguard_def aret_def areads_def onfs_def split: sum.splits option.splits)
    then show ?thesis
    proof
      assume "\<exists>m. restore_found sha val cc deferred t (sub cache k) [t0, t1, t2] rnd m (s2, f3) = (r, (s1, fs1))"
      then obtain m where f: "restore_found sha val cc deferred t (sub cache k) [t0, t1, t2] rnd m (s2, f3) = (r, (s1, fs1))" ..
      have "list_all (unused f3 rnd) [t0, t1, t2]" using unused_locked [OF n(2) _ l] by simp
      from restore_found_clean [OF f r(2) lock_entry_closed [OF l c] x(2) n(1) this] lg show ?thesis by simp
    qed (use lg in simp)
  qed
qed

end


section \<open>The properties of restoration\<close>

text \<open>
  C16. A hit is exact: when a restoration returns a manifest, that manifest matches the ticket
  and is well formed, and each of the three targets holds a regular file whose mode is that of
  the manifest, whose digest and size are those of the manifest, and whose bytes are those of
  the entry's payload where the entry had one. The targets and the staging names beside them
  lie apart.
\<close>

theorem restore_hit_exact:
  assumes "restore sha (validator sha) verify_copies False cache ticket [t0, t1, t2] rnd (s, fs) = (Inr (Some (m, st, dirs)), (s1, fs1))"
    and "hex_digest sha" and "names_apart [t0, t1, t2] rnd"
  shows "\<exists>k. jget ''key'' ticket = Inr (JStr k) \<and> manifest_match sha m ticket = Inr True \<and> manifest_ok m \<and>
    (\<forall>j < 3. restored sha (sub cache k) m fs fs1 j ([t0, t1, t2] ! j))"
  by (rule single.restore_hit [OF assms(1,2) TrueI assms(3)])

text \<open>
  C17. A miss leaves nothing behind: when a restoration reports a miss, or a deferred one raises,
  every path outside the cache directory's own path and its lock files is as before. No
  staged copy and no directory made for one remains.
\<close>

theorem restore_miss_clean:
  assumes "restore sha (validator sha) verify_copies deferred cache ticket [t0, t1, t2] rnd (s, fs) = (r, (s1, fs1))"
    and "r = Inr None \<or> deferred \<and> (\<exists>e. r = Inl e)"
    and "closed fs" and "names_apart [t0, t1, t2] rnd" and "names_free cache [t0, t1, t2] rnd fs"
    and "\<not> ends_with ''.lock'' p" and "p \<notin> set (prefixes_at [] cache)"
  shows "dget fs1 p = dget fs p"
  by (rule single.restore_clean [OF assms])

text \<open>The sample cache after a publication, and targets beside it; then with a payload damaged.\<close>

definition sample_published :: fs where
  "sample_published = snd (snd (publish zero_sha (validator zero_sha) ''/w/c'' sample_ticket ''/w/o'' ''/w/out'' ''/w/err'' ''a'' ''b'' ((), sample_fs)))"

definition sample_damaged :: fs where
  "sample_damaged = dset (sub (sub ''/w/c'' (zero_sha [])) ''stdout'') (File ''z'' 420) sample_published"

definition sample_restore :: "fs \<Rightarrow> hit option result \<times> unit \<times> fs" where
  "sample_restore fs = restore zero_sha (validator zero_sha) True False ''/w/c'' sample_ticket [''/w/x/o'', ''/w/x/p'', ''/w/x/q''] (\<lambda>_. [''7'']) ((), fs)"

definition is_hit :: "hit option result \<Rightarrow> bool" where
  "is_hit r = (case r of Inr (Some _) \<Rightarrow> True | _ \<Rightarrow> False)"

definition sample_missed :: "fs \<Rightarrow> bool" where
  "sample_missed fs \<longleftrightarrow> closed fs \<and> names_free ''/w/c'' [''/w/x/o'', ''/w/x/p'', ''/w/x/q''] (\<lambda>_. [''7'']) fs \<and> fst (sample_restore fs) = Inr None"

lemma sample_apart: "names_apart [''/w/x/o'', ''/w/x/p'', ''/w/x/q''] (\<lambda>_. [''7''])"
  by code_simp

theorem restore_hit_exact_witness:
  "\<exists>m k. manifest_match zero_sha m sample_ticket = Inr True \<and>
     restored zero_sha (sub ''/w/c'' k) m sample_published (snd (snd (sample_restore sample_published))) 0 ''/w/x/o''"
proof -
  let ?r = "sample_restore sample_published"
  have "is_hit (fst ?r)" by code_simp
  then obtain m st dirs where "fst ?r = Inr (Some (m, st, dirs))" by (auto simp: is_hit_def split: sum.splits option.splits)
  then have "sample_restore sample_published = (Inr (Some (m, st, dirs)), (fst (snd ?r), snd (snd ?r)))" by (metis prod.collapse)
  then have r: "restore zero_sha (validator zero_sha) True False ''/w/c'' sample_ticket [''/w/x/o'', ''/w/x/p'', ''/w/x/q''] (\<lambda>_. [''7'']) ((), sample_published) =
      (Inr (Some (m, st, dirs)), (fst (snd ?r), snd (snd ?r)))"
    unfolding sample_restore_def .
  from restore_hit_exact [OF r zero_sha_hex sample_apart] obtain k where
    "manifest_match zero_sha m sample_ticket = Inr True"
    "\<forall>j < 3. restored zero_sha (sub ''/w/c'' k) m sample_published (snd (snd ?r)) j ([''/w/x/o'', ''/w/x/p'', ''/w/x/q''] ! j)" by blast
  then show ?thesis by (metis nth_Cons_0 zero_less_numeral)
qed

theorem restore_miss_clean_witness:
  "fst (sample_restore sample_damaged) = Inr None \<and> dget (snd (snd (sample_restore sample_damaged))) ''/w/x'' = dget sample_damaged ''/w/x''"
proof -
  let ?r = "sample_restore sample_damaged"
  have m: "sample_missed sample_damaged" by code_simp
  then have n: "fst ?r = Inr None" by (simp add: sample_missed_def)
  then have "sample_restore sample_damaged = (Inr None, (fst (snd ?r), snd (snd ?r)))" by (metis prod.collapse)
  then have r: "restore zero_sha (validator zero_sha) True False ''/w/c'' sample_ticket [''/w/x/o'', ''/w/x/p'', ''/w/x/q''] (\<lambda>_. [''7'']) ((), sample_damaged) =
      (Inr None, (fst (snd ?r), snd (snd ?r)))"
    unfolding sample_restore_def .
  have "closed sample_damaged" "names_free ''/w/c'' [''/w/x/o'', ''/w/x/p'', ''/w/x/q''] (\<lambda>_. [''7'']) sample_damaged"
    using m by (simp_all add: sample_missed_def)
  moreover have "\<not> ends_with ''.lock'' ''/w/x''" "''/w/x'' \<notin> set (prefixes_at [] ''/w/c'')" by code_simp+
  ultimately have "dget (snd (snd ?r)) ''/w/x'' = dget sample_damaged ''/w/x''"
    by (intro restore_miss_clean [OF r _ _ sample_apart]) simp_all
  with n show ?thesis ..
qed

end
