(* ===== verification/ShardBatch.thy ===== *)
theory ShardBatch
  imports ShardRestore
begin

text \<open>
  Batched restoration and publication, \<open>BatchInvocation\<close> and the request handlers of
  \<open>scripts/stage1_shard_cache.py\<close>. Python objects with mutable fields become the record
  \<open>batch\<close>, threaded through actions together with the file system. Random names are given by
  \<open>tok\<close> (a prefix and what it is for) and \<open>rnd\<close> (the staging names beside a target).
\<close>

section \<open>Requests\<close>

text \<open>\<open>None\<close> is \<open>JNull\<close>, also for a key that is absent under \<open>get\<close>.\<close>

definition jget_none :: "string \<Rightarrow> json \<Rightarrow> json" where
  "jget_none k v = jat k v"

definition mapped_image_pins :: "json \<Rightarrow> json result" where
  "mapped_image_pins value = (if value = JNull then Inr JNull
     else rbind (check (has_keys [''producer'', ''loaded_llvm''] value) ''invalid mapped image digest fields'') (\<lambda>_.
       rbind (check (case value of JObj kvs \<Rightarrow> list_all (\<lambda>(k, v). case v of JStr s \<Rightarrow> is_hex64 s | _ \<Rightarrow> False) kvs | _ \<Rightarrow> False)
         ''invalid mapped image SHA256'') (\<lambda>_. Inr value)))"

definition BATCH_FIELDS :: "string list" where
  "BATCH_FIELDS = [''cache'', ''producer'', ''loaded_llvm'', ''runtime'', ''profiles'', ''shards'']"

definition batch_fields :: "json \<Rightarrow> json result" where
  "batch_fields request =
     rbind (check (has_keys BATCH_FIELDS request \<or> has_keys (''mapped_image_digests'' # BATCH_FIELDS) request) ''invalid batch request fields'') (\<lambda>_.
     rbind (check (jfind ''mapped_image_digests'' request \<noteq> Some JNull) ''mapped image digests must be a complete map'') (\<lambda>_.
     mapped_image_pins (jget_none ''mapped_image_digests'' request)))"

text \<open>\<open>set(item) == names\<close> for a parsed value: a dict gives its keys, a list its elements, a text its characters.\<close>

definition hashable :: "json \<Rightarrow> bool" where
  "hashable v = (case v of JList _ \<Rightarrow> False | JObj _ \<Rightarrow> False | _ \<Rightarrow> True)"

definition set_is :: "string list \<Rightarrow> json \<Rightarrow> bool result" where
  "set_is names item = (case item of
     JObj kvs \<Rightarrow> Inr (set (dkeys kvs) = set names)
   | JStr s \<Rightarrow> Inr (set (map (\<lambda>c. [c]) s) = set names)
   | JList vs \<Rightarrow> if list_all hashable vs then Inr (set vs = set (map JStr names)) else Inl TypeError
   | _ \<Rightarrow> Inl TypeError)"

definition require_keys :: "string list \<Rightarrow> json \<Rightarrow> string \<Rightarrow> unit result" where
  "require_keys names item msg = rbind (set_is names item) (\<lambda>ok. check ok msg)"

definition RESTORE_ITEM :: "string list" where
  "RESTORE_ITEM = [''snapshot'', ''options'', ''object'', ''stdout'', ''stderr'']"

definition TARGETS :: "string list" where
  "TARGETS = [''object'', ''stdout'', ''stderr'']"

definition without_shard :: "json \<Rightarrow> json" where
  "without_shard options = (case options of JObj kvs \<Rightarrow> JObj (filter (\<lambda>(k, v). k \<noteq> ''logical_shard'') kvs) | v \<Rightarrow> v)"

text \<open>\<open>str(Path(p).resolve())\<close> in the working directory \<open>cwd\<close>; the file system has no symbolic links.\<close>

definition resolve_from :: "string \<Rightarrow> string \<Rightarrow> string" where
  "resolve_from cwd p = resolve_path (if starts_with ''/'' p then p else sub cwd p)"

definition py_resolve :: "string \<Rightarrow> string \<Rightarrow> string result" where
  "py_resolve cwd p = (if CHR 0x00 \<in> set p then Inl (ValueError ''embedded null byte'') else Inr (resolve_from cwd p))"

text \<open>The destinations of one shard, none of them taken already.\<close>

fun add_destinations :: "string \<Rightarrow> json \<Rightarrow> string list \<Rightarrow> string list \<Rightarrow> string list result" where
  "add_destinations cwd item [] taken = Inr taken"
| "add_destinations cwd item (field # rest) taken = rbind (rbind (rbind (jget field item) jstr) (py_resolve cwd)) (\<lambda>path.
     if path \<in> set taken then Inl (ValueError ''shards share output targets'')
     else add_destinations cwd item rest (path # taken))"

fun check_shards :: "string \<Rightarrow> nat \<Rightarrow> nat \<Rightarrow> json option \<Rightarrow> string list \<Rightarrow> json list \<Rightarrow> string list result" where
  "check_shards cwd count index common taken [] = Inr taken"
| "check_shards cwd count index common taken (item # rest) =
     rbind (require_keys RESTORE_ITEM item ''invalid batch restore shard'') (\<lambda>_.
     rbind (jget ''options'' item) (\<lambda>options.
     rbind (validate_options options) (\<lambda>_.
     rbind (check (case common of None \<Rightarrow> True | Some c \<Rightarrow> py_eq c (without_shard options)) ''batch shards have inconsistent output recipes'') (\<lambda>_.
     rbind (check (jat ''logical_shards'' options = JInt (int count) \<and> jat ''logical_shard'' options = JInt (int index))
       ''shard inventory must be complete, contiguous and ordered'') (\<lambda>_.
     rbind (add_destinations cwd item TARGETS taken) (\<lambda>taken.
     check_shards cwd count (Suc index) (case common of None \<Rightarrow> Some (without_shard options) | Some c \<Rightarrow> Some c) taken rest))))))"

definition complete_restore_request :: "string \<Rightarrow> json \<Rightarrow> nat result" where
  "complete_restore_request cwd request = rbind (batch_fields request) (\<lambda>_.
     case jat ''shards'' request of
       JList shards \<Rightarrow> rbind (check (1 \<le> length shards \<and> length shards \<le> 64) ''invalid complete logical shard inventory'') (\<lambda>_.
         rbind (check_shards cwd (length shards) 0 None [] shards) (\<lambda>_. Inr (length shards)))
     | _ \<Rightarrow> Inl (ValueError ''invalid batch request''))"

section \<open>Status\<close>

definition ticket_keyed :: "(string \<Rightarrow> string) \<Rightarrow> json \<Rightarrow> string \<Rightarrow> unit result" where
  "ticket_keyed sha ticket msg =
     (if \<not> is_dict ticket \<or> jfind ''schema'' ticket \<noteq> Some (JStr SCHEMA) then Inl (ValueError msg)
      else rbind (ticket_key sha ticket) (\<lambda>key. check (jfind ''key'' ticket = Some (JStr key)) msg))"

fun status_bits :: "(string \<Rightarrow> string) \<Rightarrow> nat \<Rightarrow> nat \<Rightarrow> json list \<Rightarrow> string result" where
  "status_bits sha count index [] = Inr []"
| "status_bits sha count index (rec # rest) =
     rbind (set_is [''ticket'', ''hit''] rec) (\<lambda>keys.
     rbind (if keys then jget ''hit'' rec else Inr JNull) (\<lambda>hit. case hit of
       JBool h \<Rightarrow>
         rbind (jget ''ticket'' rec) (\<lambda>ticket.
         rbind (ticket_keyed sha ticket ''invalid restore status ticket'') (\<lambda>_.
         rbind (rbind (jget ''recipe'' ticket) (jget ''options'')) (\<lambda>options.
         rbind (validate_options options) (\<lambda>_.
         rbind (check (jat ''logical_shard'' options = JInt (int index) \<and> jat ''logical_shards'' options = JInt (int count))
           ''invalid restore status order'') (\<lambda>_.
         rbind (status_bits sha count (Suc index) rest) (\<lambda>bits. Inr ((if h then CHR ''H'' else CHR ''M'') # bits)))))))
     | _ \<Rightarrow> Inl (ValueError ''invalid restore status record'')))"

definition status_text :: "(string \<Rightarrow> string) \<Rightarrow> json \<Rightarrow> string result" where
  "status_text sha result =
     rbind (check (has_keys [''schema'', ''shards'', ''metrics''] result \<and> jat ''schema'' result = JStr SCHEMA) ''invalid restore result schema'') (\<lambda>_.
     case jat ''shards'' result of
       JList records \<Rightarrow> rbind (check (1 \<le> length records \<and> length records \<le> 64) ''invalid restore status count'') (\<lambda>_.
         rbind (status_bits sha (length records) 0 records) (\<lambda>bits.
           Inr (''ELISA_PREOPT_SHARD_STATUS_V1'' @ [CHR 0x0A] @ show_nat (length records) @ [CHR 0x0A] @ bits @ [CHR 0x0A])))
     | _ \<Rightarrow> Inl (ValueError ''invalid restore status count''))"


section \<open>One batch invocation\<close>

record hit_output =
  o_ticket :: json
  o_staged :: "string list"
  o_targets :: "string list"
  o_expected :: json
  o_dirs :: "string list"

record batch =
  b_mapped :: json
  b_cache :: string
  b_work :: string
  b_shared_reads :: nat
  b_snapshot_reads :: nat
  b_hits :: nat
  b_misses :: nat
  b_paths :: "(string \<times> json) list"
  b_profiles :: "json list"
  b_closed :: bool
  b_pins :: json
  b_artifacts :: json
  b_snapshots :: "(string, json) dict"
  b_tickets :: "(string, string) dict"
  b_prepared :: "json list"
  b_outputs :: "hit_output list"
  b_publications :: "json list"
  b_finished :: bool

type_synonym 'a bact = "(batch \<times> fs, 'a) act"

definition bget :: "(batch \<Rightarrow> 'a) \<Rightarrow> 'a bact" where
  "bget f = (\<lambda>(b, fs). (Inr (f b), (b, fs)))"

definition bmod :: "(batch \<Rightarrow> batch) \<Rightarrow> unit bact" where
  "bmod f = (\<lambda>(b, fs). (Inr (), (f b, fs)))"

definition bpure :: "'a result \<Rightarrow> 'a bact" where
  "bpure r = areads (\<lambda>_. r)"

definition bread :: "(fs \<Rightarrow> 'a result) \<Rightarrow> 'a bact" where
  "bread f = areads (\<lambda>(_, fs). f fs)"

definition check_open :: "unit bact" where
  "check_open = abind (bget (\<lambda>b. b_closed b \<or> b_finished b)) (\<lambda>c. aguard (\<not> c) (ValueError ''batch invocation is closed or finalized''))"

definition shared :: "(string \<Rightarrow> string) \<Rightarrow> json \<Rightarrow> json bact" where
  "shared sha path = aseq (bmod (\<lambda>b. b\<lparr>b_shared_reads := Suc (b_shared_reads b)\<rparr>))
     (bread (\<lambda>fs. rbind (jstr path) (\<lambda>p. rmap (\<lambda>(q, i). pin_value q i) (pin_of sha p fs))))"

definition mapped_check :: "json \<Rightarrow> json \<Rightarrow> unit result" where
  "mapped_check mapped artifacts = (case mapped of
     JObj kvs \<Rightarrow> rmap (\<lambda>_. ()) (traverse (\<lambda>(name, expected). check (py_eq (jat ''sha256'' (jat name artifacts)) expected)
       (''actual file differs from verified mapped image: '' @ name)) kvs)
   | _ \<Rightarrow> Inr ())"

definition read_shared :: "(string \<Rightarrow> string) \<Rightarrow> (json \<times> json) bact" where
  "read_shared sha = abind (bget b_paths) (\<lambda>paths. abind (bget b_profiles) (\<lambda>profiles.
     abind (aeach (\<lambda>(name, path). abind (shared sha path) (\<lambda>pin. aret (name, pin))) paths) (\<lambda>pins.
     abind (aeach (shared sha) profiles) (\<lambda>profs.
     let artifacts = JObj (map (\<lambda>(name, pin). (name, jat ''identity'' pin)) pins @ [(''profiles'', JList (map (jat ''identity'') profs))])
     in abind (bget b_mapped) (\<lambda>mapped. aseq (bpure (mapped_check mapped artifacts))
          (aret (JObj (pins @ [(''profiles'', JList profs)]), artifacts)))))))"

text \<open>\<open>__init__\<close>: the private directory is removed when the shared artifacts cannot be read.\<close>

definition new_batch :: "json \<Rightarrow> string \<Rightarrow> string \<Rightarrow> (string \<times> json) list \<Rightarrow> json list \<Rightarrow> batch" where
  "new_batch mapped cache work paths profiles = \<lparr>b_mapped = mapped, b_cache = cache, b_work = work, b_shared_reads = 0, b_snapshot_reads = 0,
     b_hits = 0, b_misses = 0, b_paths = paths, b_profiles = profiles, b_closed = False, b_pins = JNull, b_artifacts = JNull, b_snapshots = [],
     b_tickets = [], b_prepared = [], b_outputs = [], b_publications = [], b_finished = False\<rparr>"

text \<open>\<open>tuple(v)\<close> of a parsed value.\<close>

definition iterated :: "json \<Rightarrow> json list result" where
  "iterated v = (case v of JList vs \<Rightarrow> Inr vs | JStr s \<Rightarrow> Inr (map (\<lambda>c. JStr [c]) s) | JObj kvs \<Rightarrow> Inr (map JStr (dkeys kvs)) | _ \<Rightarrow> Inl TypeError)"

definition open_batch :: "(string \<Rightarrow> string) \<Rightarrow> json \<Rightarrow> string \<Rightarrow> (string \<times> json) list \<Rightarrow> json \<Rightarrow> string \<Rightarrow> (fs, batch) act" where
  "open_batch sha mapped cache paths profiles r = (let work = sub cache (''.batch-'' @ r) in
     abind (areads (\<lambda>_. mapped_image_pins mapped)) (\<lambda>pins.
     aseq (mkdirs cache) (aseq (mkdir work) (abind (areads (\<lambda>_. iterated profiles)) (\<lambda>profs fs.
       case read_shared sha (new_batch pins cache work paths profs, fs) of
         (Inl e, (b, fs1)) \<Rightarrow> (Inl e, remove_tree work fs1)
       | (Inr (p, a), (b, fs1)) \<Rightarrow> (Inr (b\<lparr>b_pins := p, b_artifacts := a\<rparr>), fs1))))))"

definition snapshot :: "(string \<Rightarrow> string) \<Rightarrow> string \<Rightarrow> json bact" where
  "snapshot sha path = aseq (bmod (\<lambda>b. b\<lparr>b_snapshot_reads := Suc (b_snapshot_reads b)\<rparr>)) (bread (fingerprint sha False MAX_BYTES path))"

text \<open>
  \<open>Path(p).resolve(strict=True)\<close> of a path of the file system, which is normal, so that
  resolving does not change it (lemma \<open>resolve_normal\<close>).
\<close>

definition resolve_strict :: "string \<Rightarrow> fs \<Rightarrow> string result" where
  "resolve_strict p fs = (if exists p fs then Inr p else Inl FileNotFoundError)"

definition admit_snapshot :: "(string \<Rightarrow> string) \<Rightarrow> string \<Rightarrow> json bact" where
  "admit_snapshot sha path = abind (bread (resolve_strict path)) (\<lambda>p. abind (bget (\<lambda>b. dget (b_snapshots b) p)) (\<lambda>known. case known of
     Some i \<Rightarrow> aret i
   | None \<Rightarrow> abind (snapshot sha p) (\<lambda>i. aseq (bmod (\<lambda>b. b\<lparr>b_snapshots := dset p i (b_snapshots b)\<rparr>)) (aret i))))"

text \<open>The checks of \<open>validate\<close> that read the batch and the ticket only.\<close>

definition ticket_matches :: "(string \<Rightarrow> string) \<Rightarrow> json \<Rightarrow> batch \<Rightarrow> unit result" where
  "ticket_matches sha ticket b =
     rbind (check (is_dict ticket) ''invalid batch shard ticket'') (\<lambda>_.
     rbind (check (py_eq (jget_none ''mapped_image_digests'' ticket) (b_mapped b)) ''ticket mapped image attestation mismatch'') (\<lambda>_.
     rbind (ticket_keyed sha ticket ''invalid batch shard ticket'') (\<lambda>_.
     rbind (rbind (jget ''recipe'' ticket) (jget ''options'')) (\<lambda>options.
     rbind (validate_options options) (\<lambda>_.
     rbind (jget ''pins'' ticket) (\<lambda>pins.
     if \<not> py_eq pins (b_pins b) then Inl (ValueError ''batch shared artifact identity mismatch'')
     else rbind (rbind (jget ''recipe'' ticket) (jget ''artifacts'')) (\<lambda>artifacts.
       check (py_eq artifacts (b_artifacts b)) ''batch shared artifact identity mismatch'')))))))"

definition validate :: "(string \<Rightarrow> string) \<Rightarrow> json \<Rightarrow> unit bact" where
  "validate sha ticket = aseq check_open (
     aseq (\<lambda>(b, fs). (ticket_matches sha ticket b, (b, fs))) (
     abind (bpure (jget ''snapshot'' ticket)) (\<lambda>snap.
     abind (bpure (rbind (jget ''path'' snap) jstr)) (\<lambda>p.
     abind (bread (resolve_strict p)) (\<lambda>path.
     abind (admit_snapshot sha path) (\<lambda>known.
     abind (bpure (jget ''identity'' snap)) (\<lambda>ident.
     aseq (aguard (path = p \<and> py_eq known ident) (ValueError ''batch restricted snapshot admission mismatch'')) (
     abind (bpure (rbind (jget ''key'' ticket) jstr)) (\<lambda>key.
     abind (bget (\<lambda>b. dget (b_tickets b) key)) (\<lambda>previous.
     aseq (aguard (previous = None \<or> previous = Some (canonical ticket)) (ValueError ''differing ticket reuses admitted key''))
       (bmod (\<lambda>b. b\<lparr>b_tickets := dset key (canonical ticket) (b_tickets b)\<rparr>))))))))))))"

definition batch_prepare :: "(string \<Rightarrow> string) \<Rightarrow> string \<Rightarrow> json \<Rightarrow> json bact" where
  "batch_prepare sha snap options = aseq check_open (
     aseq (bpure (validate_options options)) (
     abind (bget b_profiles) (\<lambda>profiles.
     aseq (aguard (jat ''pgo_policy'' options \<noteq> JStr ''use'' \<or> profiles \<noteq> []) (ValueError ''PGO use requires actual profile artifacts'')) (
     abind (bget b_pins) (\<lambda>pins. abind (bget b_artifacts) (\<lambda>artifacts.
     abind (bread (resolve_strict snap)) (\<lambda>path.
     abind (admit_snapshot sha snap) (\<lambda>ident.
     abind (bget b_mapped) (\<lambda>mapped.
     let recipe = JObj [(''options'', options), (''artifacts'', artifacts)];
         ticket = JObj ([(''schema'', JStr SCHEMA), (''pins'', pins), (''recipe'', recipe), (''snapshot'', pin_value path ident)] @
           (if mapped = JNull then [] else [(''mapped_image_digests'', mapped)]) @
           [(''key'', JStr (sha (canonical (key_value recipe ident))))])
     in aseq (validate sha ticket) (aseq (bmod (\<lambda>b. b\<lparr>b_prepared := b_prepared b @ [ticket]\<rparr>)) (aret ticket)))))))))))"

text \<open>The receipt a deferred restoration fills in.\<close>

definition receipt :: "json \<Rightarrow> json" where
  "receipt m = JObj [(''object'', jat ''object'' m), (''stdout'', jat ''stdout'' m), (''stderr'', jat ''stderr'' m), (''modes'', jat ''modes'' m)]"

definition batch_restore :: "(string \<Rightarrow> string) \<Rightarrow> (string \<Rightarrow> string list) \<Rightarrow> json \<Rightarrow> string list \<Rightarrow> bool bact" where
  "batch_restore sha rnd ticket targets = aseq check_open (
     aseq (aguard (distinct targets) (ValueError ''batch output paths must be distinct'')) (
     abind (bget (\<lambda>b. concat (map o_targets (b_outputs b)))) (\<lambda>previous.
     aseq (aguard (list_all (\<lambda>p. p \<notin> set previous) targets) (ValueError ''batch shards share output paths'')) (
     abind (bget b_cache) (\<lambda>cache.
     abind (restore sha (validate sha) False True cache ticket targets rnd) (\<lambda>found. case found of
       Some (m, staged, dirs) \<Rightarrow> aseq (bmod (\<lambda>b. b\<lparr>b_outputs := b_outputs b @
           [\<lparr>o_ticket = ticket, o_staged = map fst staged, o_targets = targets, o_expected = receipt m, o_dirs = dirs\<rparr>],
           b_hits := Suc (b_hits b)\<rparr>)) (aret True)
     | None \<Rightarrow> aseq (bmod (\<lambda>b. b\<lparr>b_misses := Suc (b_misses b)\<rparr>)) (aret False)))))))"

definition batch_publish :: "(string \<Rightarrow> string) \<Rightarrow> (string \<Rightarrow> string \<Rightarrow> string) \<Rightarrow> json \<Rightarrow> string \<Rightarrow> string \<Rightarrow> string \<Rightarrow> unit bact" where
  "batch_publish sha tok ticket obj out err = aseq check_open (abind (bget b_work) (\<lambda>work.
     aseq (publish sha (validate sha) (sub work ''publication'') ticket obj out err (tok ''.incoming-'' obj) (tok ''.retired-'' obj))
       (bmod (\<lambda>b. b\<lparr>b_publications := b_publications b @ [ticket]\<rparr>))))"


section \<open>Finishing\<close>

text \<open>The staged copies of an output still have their identities.\<close>

definition staged_check :: "(string \<Rightarrow> string) \<Rightarrow> string \<Rightarrow> hit_output \<Rightarrow> fs \<Rightarrow> unit result" where
  "staged_check sha msg out fs = rmap (\<lambda>_. ()) (traverse (\<lambda>((n, limit, ae), source).
     rbind (fingerprint sha ae limit source fs) (\<lambda>fp. check (py_eq fp (jat n (o_expected out))) msg)) (zip slots (o_staged out)))"

definition snapshot_check :: "(string \<Rightarrow> string) \<Rightarrow> string \<times> json \<Rightarrow> unit bact" where
  "snapshot_check sha = (\<lambda>(path, expected). abind (snapshot sha path) (\<lambda>i.
     aguard (py_eq i expected) (ValueError ''batch restricted snapshot changed before finalization'')))"

text \<open>Everything \<open>finish\<close> checks before it changes a file.\<close>

definition finish_checks :: "(string \<Rightarrow> string) \<Rightarrow> unit bact" where
  "finish_checks sha = aseq check_open (
     abind (bget b_prepared) (\<lambda>prepared. aseq (aeach (validate sha) prepared) (
     abind (bget b_outputs) (\<lambda>outs. aseq (aeach (\<lambda>out. aseq (validate sha (o_ticket out))
         (bread (staged_check sha ''private restored hit changed before finalization'' out))) outs) (
     abind (bget b_publications) (\<lambda>pubs. aseq (aeach (validate sha) pubs) (
     abind (bget b_snapshots) (\<lambda>snaps. aseq (aeach (snapshot_check sha) snaps) (
     abind (read_shared sha) (\<lambda>(p, a). abind (bget (\<lambda>b. py_eq p (b_pins b) \<and> py_eq a (b_artifacts b))) (\<lambda>same.
       aguard same (ValueError ''shared artifacts changed during batch''))))))))))))"

definition finish_publication :: "(string \<Rightarrow> string) \<Rightarrow> (string \<Rightarrow> string \<Rightarrow> string) \<Rightarrow> string \<Rightarrow> string \<Rightarrow> json \<Rightarrow> (fs, unit) act" where
  "finish_publication sha tok cache work ticket =
     abind (areads (\<lambda>_. rbind (jget ''key'' ticket) jstr)) (\<lambda>k.
     let staged = sub (sub work ''publication'') k; entry = sub cache k; retired = sub cache (''.retired-'' @ tok ''.retired-'' k) in
     aseq (lock_entry cache k) (
     abind (areads (verify_bundle sha entry ticket)) (\<lambda>found. case found of
       Some _ \<Rightarrow> aret ()
     | None \<Rightarrow> abind (areads (verify_bundle sha staged ticket)) (\<lambda>priv.
         aseq (aguard (priv \<noteq> None) (ValueError ''private batch bundle corrupted'')) (
         abind (areads (\<lambda>fs. Inr (exists entry fs))) (\<lambda>old.
         aseq (if old then aseq (\<lambda>fs. if exists retired fs then (Inl FileExistsError, fs) else (Inr (), fs)) (os_replace entry retired)
               else aret ())
         (aseq (os_replace staged entry)
         (if old then (\<lambda>fs. (Inr (), remove_tree retired fs)) else aret ()))))))))"

definition finish_commits :: "(string \<Rightarrow> string) \<Rightarrow> (string \<Rightarrow> string \<Rightarrow> string) \<Rightarrow> batch \<Rightarrow> (fs, unit) act" where
  "finish_commits sha tok b =
     aseq (aeach (finish_publication sha tok (b_cache b) (b_work b)) (b_publications b)) (
     aseq (aeach (\<lambda>out. areads (staged_check sha ''private restored hit changed before destination commit'' out)) (b_outputs b)) (
     aseq (aeach (\<lambda>out. commit_all (o_expected out) (zip (o_staged out) (o_targets out))) (b_outputs b)) (aret ())))"

definition metrics :: "batch \<Rightarrow> json" where
  "metrics b = JObj [(''shared_artifact_reads'', JInt (int (b_shared_reads b))), (''snapshot_reads'', JInt (int (b_snapshot_reads b))),
     (''hits'', JInt (int (b_hits b))), (''misses'', JInt (int (b_misses b)))]"

definition finish :: "(string \<Rightarrow> string) \<Rightarrow> (string \<Rightarrow> string \<Rightarrow> string) \<Rightarrow> json bact" where
  "finish sha tok = aseq (finish_checks sha) (
     abind (bget (\<lambda>b. b)) (\<lambda>b. aseq (onfs (finish_commits sha tok b)) (
     aseq (bmod (\<lambda>b. b\<lparr>b_finished := True\<rparr>)) (bget metrics))))"

definition close_output :: "hit_output \<Rightarrow> fs \<Rightarrow> fs" where
  "close_output out fs = remove_empty_directories (o_dirs out) (fold unlink (o_staged out) fs)"

definition close_batch :: "batch \<times> fs \<Rightarrow> batch \<times> fs" where
  "close_batch = (\<lambda>(b, fs). (b\<lparr>b_closed := True\<rparr>, remove_tree (b_work b) (fold close_output (b_outputs b) fs)))"

text \<open>\<open>with BatchInvocation(...) as batch: body\<close>.\<close>

definition with_batch :: "(string \<Rightarrow> string) \<Rightarrow> (string \<Rightarrow> string \<Rightarrow> string) \<Rightarrow> json \<Rightarrow> 'a bact \<Rightarrow> (fs, 'a) act" where
  "with_batch sha tok request body =
     abind (areads (\<lambda>_. rbind (jget ''cache'' request) jstr)) (\<lambda>cache.
     abind (areads (\<lambda>_. jget ''profiles'' request)) (\<lambda>profiles.
     abind (open_batch sha (jget_none ''mapped_image_digests'' request) cache
       (map (\<lambda>n. (n, jat n request)) [''producer'', ''loaded_llvm'', ''runtime'']) profiles (tok ''.batch-'' [])) (\<lambda>b fs.
     case afinally body close_batch (b, fs) of (r, (_, fs1)) \<Rightarrow> (r, fs1))))"

section \<open>The request handlers\<close>

definition item_text :: "string \<Rightarrow> json \<Rightarrow> string bact" where
  "item_text k item = bpure (rbind (jget k item) jstr)"

definition restore_item :: "(string \<Rightarrow> string) \<Rightarrow> (string \<Rightarrow> string list) \<Rightarrow> json \<Rightarrow> json bact" where
  "restore_item sha rnd item = aseq (bpure (require_keys RESTORE_ITEM item ''invalid batch restore shard'')) (
     abind (item_text ''snapshot'' item) (\<lambda>snap. abind (bpure (jget ''options'' item)) (\<lambda>options.
     abind (batch_prepare sha snap options) (\<lambda>ticket.
     abind (item_text ''object'' item) (\<lambda>obj. abind (item_text ''stdout'' item) (\<lambda>out. abind (item_text ''stderr'' item) (\<lambda>err.
     abind (batch_restore sha rnd ticket [obj, out, err]) (\<lambda>hit.
     aret (JObj [(''ticket'', ticket), (''hit'', JBool hit)])))))))))"

definition publish_item :: "(string \<Rightarrow> string) \<Rightarrow> (string \<Rightarrow> string \<Rightarrow> string) \<Rightarrow> json \<Rightarrow> unit bact" where
  "publish_item sha tok item = aseq (bpure (require_keys (''ticket'' # TARGETS) item ''invalid batch publication shard'')) (
     abind (bpure (jget ''ticket'' item)) (\<lambda>ticket.
     abind (item_text ''object'' item) (\<lambda>obj. abind (item_text ''stdout'' item) (\<lambda>out. abind (item_text ''stderr'' item) (\<lambda>err.
     batch_publish sha tok ticket obj out err)))))"

definition batch_request :: "string \<Rightarrow> (string \<Rightarrow> string) \<Rightarrow> (string \<Rightarrow> string \<Rightarrow> string) \<Rightarrow> (string \<Rightarrow> string list) \<Rightarrow> string \<Rightarrow> json \<Rightarrow> (fs, json) act" where
  "batch_request cwd sha tok rnd operation request =
     aseq (areads (\<lambda>_. batch_fields request)) (
     abind (areads (\<lambda>_. case jat ''shards'' request of JList vs \<Rightarrow> if length vs \<le> 64 then Inr vs else Inl (ValueError ''invalid bounded batch request'')
       | _ \<Rightarrow> Inl (ValueError ''invalid bounded batch request''))) (\<lambda>shards.
     aseq (areads (\<lambda>_. if operation = ''batch-restore'' then complete_restore_request cwd request else Inr 0)) (
     with_batch sha tok request (
       abind (if operation = ''batch-restore'' then aeach (restore_item sha rnd) shards
              else aseq (aeach (publish_item sha tok) shards) (aret [])) (\<lambda>outputs.
       abind (finish sha tok) (\<lambda>m.
       aret (JObj [(''schema'', JStr SCHEMA), (''shards'', JList outputs), (''metrics'', m)])))))))"

text \<open>One record of a restore result against the request item it answers: a miss gives a publication.\<close>

definition result_item :: "json \<Rightarrow> fs \<Rightarrow> json \<times> json \<Rightarrow> (json \<times> json) list result" where
  "result_item request fs = (\<lambda>(item, rec).
     rbind (jget ''ticket'' rec) (\<lambda>ticket.
     rbind (check (py_eq (jget_none ''mapped_image_digests'' ticket) (jget_none ''mapped_image_digests'' request))
       ''restore result mapped image pins differ from original request'') (\<lambda>_.
     rbind (rbind (jget ''recipe'' ticket) (jget ''options'')) (\<lambda>options.
     rbind (jget ''options'' item) (\<lambda>wanted.
     if \<not> py_eq options wanted then Inl (ValueError ''restore result differs from original admitted request'')
     else rbind (rbind (jget ''snapshot'' ticket) (jget ''path'')) (\<lambda>path.
       rbind (rbind (jget ''snapshot'' item) jstr) (\<lambda>snap. rbind (resolve_strict snap fs) (\<lambda>p.
       rbind (check (path = JStr p) ''restore result differs from original admitted request'') (\<lambda>_.
       rbind (jget ''hit'' rec) (\<lambda>hit. Inr (if hit = JBool True then [] else [(ticket, item)])))))))))))"

definition publish_restore_result :: "string \<Rightarrow> (string \<Rightarrow> string) \<Rightarrow> (string \<Rightarrow> string \<Rightarrow> string) \<Rightarrow> json \<Rightarrow> json \<Rightarrow> (fs, json) act" where
  "publish_restore_result cwd sha tok request result =
     abind (areads (\<lambda>_. complete_restore_request cwd request)) (\<lambda>count.
     aseq (areads (\<lambda>_. status_text sha result)) (
     abind (areads (\<lambda>_. rbind (jget ''shards'' request) jlist)) (\<lambda>items.
     abind (areads (\<lambda>_. rbind (jget ''shards'' result) jlist)) (\<lambda>records.
     aseq (aguard (length records = count) (ValueError ''restore result inventory mismatch'')) (
     abind (areads (\<lambda>fs. traverse (result_item request fs) (zip items records))) (\<lambda>pubs.
     abind (with_batch sha tok request (
       aseq (aeach (\<lambda>rec. abind (bpure (jget ''ticket'' rec)) (validate sha)) records) (
       aseq (aeach (\<lambda>(ticket, item). abind (item_text ''object'' item) (\<lambda>obj. abind (item_text ''stdout'' item) (\<lambda>out.
         abind (item_text ''stderr'' item) (\<lambda>err. batch_publish sha tok ticket obj out err)))) (concat pubs)) (
       finish sha tok)))) (\<lambda>m.
     aret (JObj [(''schema'', JStr SCHEMA), (''published_misses'', JInt (int (length (concat pubs)))), (''metrics'', m)]))))))))"

text \<open>Atomic writing through a temporary file beside the output.\<close>

definition write_atomic :: "string \<Rightarrow> string \<Rightarrow> string result \<Rightarrow> (fs, unit) act" where
  "write_atomic r out content = (let tmp = sub (path_parent out) (path_name out @ ''.incoming-'' @ r) in
     aseq (mkdirs (path_parent out)) (aseq (create_file tmp [] 384)
       (afinally (abind (areads (\<lambda>_. content)) (\<lambda>b. aseq (\<lambda>fs. (Inr (), dset tmp (File b 384) fs)) (os_replace tmp out))) (unlink tmp))))"

definition write_json_atomic :: "string \<Rightarrow> string \<Rightarrow> json \<Rightarrow> (fs, unit) act" where
  "write_json_atomic r out value = write_atomic r out (Inr (canonical value))"

text \<open>The text is written as ASCII.\<close>

definition write_text_atomic :: "string \<Rightarrow> string \<Rightarrow> string \<Rightarrow> (fs, unit) act" where
  "write_text_atomic r out text_value =
     write_atomic r out (if list_all (\<lambda>c. code c < 128) text_value then Inr text_value else Inl (ValueError ''ascii codec''))"

section \<open>The command line\<close>

text \<open>The parsed arguments; an option that is not given is \<open>None\<close>.\<close>

record cli_args =
  operation :: string
  ticket_arg :: "string option"
  result_arg :: "string option"
  restore_result_arg :: "string option"
  status_arg :: "string option"
  request_arg :: "string option"
  cache_arg :: "string option"
  object_arg :: "string option"
  stdout_arg :: "string option"
  stderr_arg :: "string option"

text \<open>An empty option is false like a missing one.\<close>

definition given :: "string option \<Rightarrow> string option" where
  "given a = (case a of Some [] \<Rightarrow> None | _ \<Rightarrow> a)"

definition load_json :: "string \<Rightarrow> string \<Rightarrow> (fs, json) act" where
  "load_json path msg = abind (areads (read_bytes path)) (\<lambda>raw.
     if 1048576 < length raw then araise (ValueError msg) else areads (\<lambda>_. json_loads raw))"

definition usage_error :: "(fs, 'a) act" where
  "usage_error = araise (SystemExit ''2'')"

definition cli_batch :: "string \<Rightarrow> (string \<Rightarrow> string) \<Rightarrow> (string \<Rightarrow> string \<Rightarrow> string) \<Rightarrow> (string \<Rightarrow> string list) \<Rightarrow> cli_args \<Rightarrow> (fs, nat) act" where
  "cli_batch cwd sha tok rnd args =
     aseq (aguard (given (status_arg args) = None \<or> operation args = ''batch-restore'') (ValueError ''status manifest is only for batch restoration'')) (
     case (given (request_arg args), given (result_arg args)) of
       (Some req, Some res) \<Rightarrow>
         (let paths = [req, res] @ (case given (status_arg args) of None \<Rightarrow> [] | Some p \<Rightarrow> [p]) @ (case given (restore_result_arg args) of None \<Rightarrow> [] | Some p \<Rightarrow> [p]) in
          abind (areads (\<lambda>_. traverse (py_resolve cwd) paths)) (\<lambda>resolved.
          aseq (aguard (distinct resolved) (ValueError ''batch admission and result paths must be distinct'')) (
          abind (load_json req ''oversized batch request'') (\<lambda>request.
          abind (if operation args = ''batch-publish-result''
                 then (case given (restore_result_arg args) of
                     None \<Rightarrow> araise (ValueError ''publication needs a distinct immutable restore result'')
                   | Some rr \<Rightarrow> abind (load_json rr ''oversized restore result'') (publish_restore_result cwd sha tok request))
                 else batch_request cwd sha tok rnd (operation args) request) (\<lambda>result.
          aseq (write_json_atomic (tok ''.incoming-'' res) res result) (
          aseq (case given (status_arg args) of None \<Rightarrow> aret ()
            | Some st \<Rightarrow> abind (areads (\<lambda>_. status_text sha result)) (write_text_atomic (tok ''.incoming-'' st) st)) (
          areads (\<lambda>_. if operation args = ''batch-restore''
            then rbind (rbind (jget ''metrics'' result) (jget ''misses'')) (\<lambda>m. Inr (if py_eq m (JInt 0) then 0 else 1)) else Inr 0))))))))
     | _ \<Rightarrow> usage_error)"

definition PREPARE_ITEM :: "string list" where
  "PREPARE_ITEM = [''snapshot'', ''producer'', ''loaded_llvm'', ''runtime'', ''options'', ''profiles'']"

definition cli_prepare :: "(string \<Rightarrow> string) \<Rightarrow> (string \<Rightarrow> string \<Rightarrow> string) \<Rightarrow> string \<Rightarrow> cli_args \<Rightarrow> (fs, nat) act" where
  "cli_prepare sha tok out args = (case given (request_arg args) of
     None \<Rightarrow> usage_error
   | Some req \<Rightarrow> abind (load_json req ''oversized preparation request'') (\<lambda>request.
       aseq (areads (\<lambda>_. require_keys PREPARE_ITEM request ''unknown or missing preparation inputs'')) (
       abind (areads (\<lambda>_. traverse (\<lambda>k. rbind (jget k request) jstr) [''snapshot'', ''producer'', ''loaded_llvm'', ''runtime''])) (\<lambda>ps.
       abind (areads (\<lambda>_. rbind (rbind (jget ''profiles'' request) iterated) (traverse jstr))) (\<lambda>profiles.
       abind (areads (\<lambda>_. jget ''options'' request)) (\<lambda>options.
       abind (areads (prepare sha (ps ! 0) (ps ! 1) (ps ! 2) (ps ! 3) options profiles)) (\<lambda>ticket.
       aseq (write_json_atomic (tok ''.incoming-'' out) out ticket) (aret 0))))))))"

definition cli_single :: "(string \<Rightarrow> string) \<Rightarrow> (string \<Rightarrow> string \<Rightarrow> string) \<Rightarrow> (string \<Rightarrow> string list) \<Rightarrow> string \<Rightarrow> cli_args \<Rightarrow> (fs, nat) act" where
  "cli_single sha tok rnd path args = (case (given (cache_arg args), given (object_arg args), given (stdout_arg args), given (stderr_arg args)) of
     (Some cache, Some obj, Some out, Some err) \<Rightarrow>
       abind (load_json path ''oversized shard ticket'') (\<lambda>ticket fs.
         case (if operation args = ''restore''
               then (case restore sha (validator sha) True False cache ticket [obj, out, err] rnd ((), fs) of (r, (_, fs1)) \<Rightarrow> (rmap (\<lambda>h. h \<noteq> None) r, fs1))
               else (case publish sha (validator sha) cache ticket obj out err (tok ''.incoming-'' obj) (tok ''.retired-'' obj) ((), fs) of (r, (_, fs1)) \<Rightarrow> (r, fs1))) of
           (r, fs1) \<Rightarrow> (rmap (\<lambda>ok. if ok then 0 else 1) r, fs1))
   | _ \<Rightarrow> usage_error)"

text \<open>The exit status; the errors it handles give 2.\<close>

definition main :: "string \<Rightarrow> (string \<Rightarrow> string) \<Rightarrow> (string \<Rightarrow> string \<Rightarrow> string) \<Rightarrow> (string \<Rightarrow> string list) \<Rightarrow> cli_args \<Rightarrow> (fs, nat) act" where
  "main cwd sha tok rnd args fs =
     (case (if starts_with ''batch-'' (operation args) then cli_batch cwd sha tok rnd args fs
            else case given (ticket_arg args) of
              None \<Rightarrow> usage_error fs
            | Some t \<Rightarrow> if operation args = ''prepare'' then cli_prepare sha tok t args fs else cli_single sha tok rnd t args fs) of
        (Inl e, fs1) \<Rightarrow> (if caught e then Inr 2 else Inl e, fs1)
      | (Inr n, fs1) \<Rightarrow> (Inr n, fs1))"

section \<open>The batch validates tickets\<close>

text \<open>Every admitted snapshot has the identity of some bytes within the limit.\<close>

definition batch_ok :: "(string \<Rightarrow> string) \<Rightarrow> batch \<Rightarrow> bool" where
  "batch_ok sha b \<longleftrightarrow> (\<forall>p i. dget (b_snapshots b) p = Some i \<longrightarrow> (\<exists>x. i = identity_of sha x \<and> length x \<le> MAX_BYTES))"

text \<open>Actions that leave the file system alone, and what was staged and published, and keep that invariant.\<close>

definition quiet :: "(string \<Rightarrow> string) \<Rightarrow> 'a bact \<Rightarrow> bool" where
  "quiet sha m \<longleftrightarrow> (\<forall>b fs r b1 fs1. m (b, fs) = (r, (b1, fs1)) \<longrightarrow> fs1 = fs \<and> b_outputs b1 = b_outputs b \<and> b_work b1 = b_work b \<and>
     b_cache b1 = b_cache b \<and> (batch_ok sha b \<longrightarrow> batch_ok sha b1))"

lemma quietD: "quiet sha m \<Longrightarrow> m (b, fs) = (r, (b1, fs1)) \<Longrightarrow> fs1 = fs \<and> b_outputs b1 = b_outputs b \<and> b_work b1 = b_work b \<and>
    b_cache b1 = b_cache b \<and> (batch_ok sha b \<longrightarrow> batch_ok sha b1)"
  unfolding quiet_def by blast

lemma quiet_abind: "quiet sha m \<Longrightarrow> (\<And>x. quiet sha (f x)) \<Longrightarrow> quiet sha (abind m f)"
  unfolding quiet_def abind_def by (fastforce split: prod.splits sum.splits)

lemma quiet_aseq: "quiet sha m \<Longrightarrow> quiet sha k \<Longrightarrow> quiet sha (aseq m k)"
  unfolding aseq_def by (rule quiet_abind)

lemma quiet_basic: "quiet sha (bget f)" "quiet sha (bpure r)" "quiet sha (bread g)" "quiet sha (aguard c e)" "quiet sha (aret x)"
    "quiet sha (\<lambda>(b, fs). (h b, (b, fs)))"
  by (auto simp: quiet_def bget_def bpure_def bread_def areads_def aguard_def aret_def araise_def split: if_splits)

lemma quiet_bmod: "(\<And>b. b_outputs (f b) = b_outputs b \<and> b_work (f b) = b_work b \<and> b_cache (f b) = b_cache b \<and> (batch_ok sha b \<longrightarrow> batch_ok sha (f b))) \<Longrightarrow> quiet sha (bmod f)"
  by (simp add: quiet_def bmod_def)

lemma quiet_aeach: "(\<And>x. quiet sha (f x)) \<Longrightarrow> quiet sha (aeach f xs)"
  by (induction xs) (auto intro!: quiet_abind simp: quiet_basic)

lemma quiet_snapshot: "quiet sha (snapshot sha p)"
  unfolding snapshot_def by (intro quiet_aseq quiet_bmod quiet_basic) (simp add: batch_ok_def)

lemma quiet_shared: "quiet sha (shared sha p)"
  unfolding shared_def by (intro quiet_aseq quiet_bmod quiet_basic) (simp add: batch_ok_def)


lemma snapshot_Inr: "snapshot sha p (b, fs) = (Inr i, w) \<Longrightarrow> \<exists>x. i = identity_of sha x \<and> length x \<le> MAX_BYTES"
  by (auto simp: snapshot_def aseq_def abind_def bmod_def bread_def areads_def dest: fingerprint_identity)

lemma quiet_admit: "quiet sha (admit_snapshot sha p)"
  unfolding quiet_def
proof (intro allI impI)
  fix b fs r b1 fs1
  assume a: "admit_snapshot sha p (b, fs) = (r, (b1, fs1))"
  obtain r0 b0 f0 where s: "snapshot sha p (b, fs) = (r0, (b0, f0))" by (metis prod.exhaust)
  note q = quietD [OF quiet_snapshot s]
  have "(b1, fs1) = (b, fs) \<or> (b1, fs1) = (b0, f0) \<or> (\<exists>i. r0 = Inr i \<and> b1 = b0\<lparr>b_snapshots := dset p i (b_snapshots b0)\<rparr> \<and> fs1 = f0)"
    using a s by (auto simp: admit_snapshot_def abind_def aseq_def bread_def areads_def resolve_strict_def bget_def bmod_def aret_def
        split: if_splits option.splits prod.splits sum.splits)
  then show "fs1 = fs \<and> b_outputs b1 = b_outputs b \<and> b_work b1 = b_work b \<and> b_cache b1 = b_cache b \<and> (batch_ok sha b \<longrightarrow> batch_ok sha b1)"
    using q snapshot_Inr [of sha p b fs] s by (auto simp: batch_ok_def split: if_splits)
qed

lemma admit_Inr: "admit_snapshot sha p (b, fs) = (Inr i, w) \<Longrightarrow> batch_ok sha b \<Longrightarrow> \<exists>x. i = identity_of sha x \<and> length x \<le> MAX_BYTES"
  unfolding admit_snapshot_def act_Inr
  by (auto simp: bread_def areads_def bget_def batch_ok_def aret_def aseq_Inr resolve_strict_def abind_Inr split: if_splits option.splits dest: snapshot_Inr)

lemma quiet_check_open: "quiet sha check_open"
  unfolding check_open_def by (intro quiet_abind quiet_basic)

lemma quiet_validate: "quiet sha (validate sha t)"
  unfolding validate_def
  by (intro quiet_aseq quiet_abind quiet_check_open quiet_admit quiet_basic quiet_bmod) (simp add: batch_ok_def)

lemma ticket_keyed_Inr: "ticket_keyed sha t msg = Inr u \<Longrightarrow> ticket_head sha t = Inr ()"
  by (auto simp: ticket_keyed_def ticket_head_def check_def split: if_splits)

lemma validate_Inr:
  assumes v: "validate sha t (b, fs) = (Inr u, w)" and ok: "batch_ok sha b"
  shows "ticket_ok sha t"
proof -
  from v obtain c1 w1 b2 f2 x snap p path known w3 ident w4 where
      o: "check_open (b, fs) = (Inr c1, w1)" and m: "ticket_matches sha t b2 = Inr x" "w1 = (b2, f2)"
    and s: "jget ''snapshot'' t = Inr snap" and a: "admit_snapshot sha path w3 = (Inr known, w4)" "w3 = w1"
    and i: "jget ''identity'' snap = Inr ident" "py_eq known ident"
    unfolding validate_def by (auto simp: act_Inr bpure_def bread_def)
  have "batch_ok sha b2" using quietD [OF quiet_check_open] o m(2) ok by blast
  then obtain y where y: "known = identity_of sha y" "length y \<le> MAX_BYTES" using a m(2) admit_Inr by blast
  obtain z where "ticket_keyed sha t ''invalid batch shard ticket'' = Inr z" using m(1) by (auto simp: ticket_matches_def)
  from ticket_head_Inr [OF ticket_keyed_Inr [OF this]] s i(1) y i(2) show ?thesis
    unfolding ticket_ok_def by (auto simp: py_eq_sym)
qed

interpretation batched: ticket_validator sha "validate sha" "batch_ok sha" for sha
proof
  fix t s fs r s1 fs1
  assume v: "validate sha t (s, fs) = (r, (s1, fs1))"
  show "fs1 = fs" using quietD [OF quiet_validate v] by blast
  assume "batch_ok sha s"
  then show "batch_ok sha s1" using quietD [OF quiet_validate v] by blast
next
  fix t s fs u s1 fs1
  assume "batch_ok sha s" "validate sha t (s, fs) = (Inr u, (s1, fs1))"
  then show "ticket_ok sha t" using validate_Inr by blast
qed


section \<open>Complete requests and their status\<close>

definition dest :: "json \<Rightarrow> string \<Rightarrow> string" where
  "dest item f = (case jat f item of JStr s \<Rightarrow> s | _ \<Rightarrow> [])"

definition item_dests :: "json \<Rightarrow> string list" where
  "item_dests item = map (dest item) TARGETS"

definition shard_is :: "nat \<Rightarrow> nat \<Rightarrow> json \<Rightarrow> bool" where
  "shard_is count index item \<longleftrightarrow> validate_options (jat ''options'' item) = Inr () \<and>
     jat ''logical_shards'' (jat ''options'' item) = JInt (int count) \<and> jat ''logical_shard'' (jat ''options'' item) = JInt (int index)"

lemma jget_jat: "jget k v = Inr x \<Longrightarrow> jat k v = x"
  by (auto simp: jget_def jat_def jfind_def split: json.splits option.splits)

lemma jstr_Inr: "jstr v = Inr s \<longleftrightarrow> v = JStr s"
  by (auto simp: jstr_def split: json.splits)

lemma add_destinations_Inr:
  "add_destinations cwd item names taken = Inr out \<Longrightarrow> distinct taken \<Longrightarrow>
     distinct out \<and> out = rev (map (resolve_from cwd) (map (dest item) names)) @ taken"
proof (induction names arbitrary: taken)
  case (Cons f fs)
  then obtain path where p: "jget f item = Inr (JStr path)" "resolve_from cwd path \<notin> set taken"
      "add_destinations cwd item fs (resolve_from cwd path # taken) = Inr out"
    by (auto simp: jstr_Inr py_resolve_def split: if_splits)
  have "distinct (resolve_from cwd path # taken)" using Cons.prems(2) p(2) by simp
  from Cons.IH [OF p(3) this] have "distinct out" "out = rev (map (resolve_from cwd) (map (dest item) fs)) @ resolve_from cwd path # taken" by blast+
  then show ?case using p(1) by (intro conjI) (assumption, simp add: jget_jat dest_def)
qed simp

lemma check_shards_Inr:
  "check_shards cwd count index common taken items = Inr out \<Longrightarrow> distinct taken \<Longrightarrow>
     (\<forall>i < length items. shard_is count (index + i) (items ! i)) \<and> distinct out \<and>
     out = rev (map (resolve_from cwd) (concat (map item_dests items))) @ taken"
proof (induction items arbitrary: index common taken)
  case (Cons item items)
  obtain options taken1 c1 where o: "jget ''options'' item = Inr options" "validate_options options = Inr ()"
      "jat ''logical_shards'' options = JInt (int count)" "jat ''logical_shard'' options = JInt (int index)"
      "add_destinations cwd item TARGETS taken = Inr taken1" "check_shards cwd count (Suc index) c1 taken1 items = Inr out"
    using Cons.prems(1) by auto
  have d: "distinct taken1" "taken1 = rev (map (resolve_from cwd) (item_dests item)) @ taken"
    using add_destinations_Inr [OF o(5) Cons.prems(2)] unfolding item_dests_def by blast+
  have "shard_is count index item" using o by (simp add: shard_is_def jget_jat)
  then have "shard_is count (index + i) ((item # items) ! i)" if "i < length (item # items)" for i
    using that Cons.IH [OF o(6) d(1)] by (cases i) auto
  moreover have "distinct out" "out = rev (map (resolve_from cwd) (concat (map item_dests items))) @ taken1" using Cons.IH [OF o(6) d(1)] by blast+
  ultimately show ?case by (intro conjI allI impI) (blast, assumption, simp add: d(2))
qed simp

lemma request_complete:
  assumes "complete_restore_request cwd request = Inr n"
  shows "\<exists>items. jat ''shards'' request = JList items \<and> length items = n \<and> 1 \<le> n \<and> n \<le> 64 \<and>
    (\<forall>i < n. shard_is n i (items ! i)) \<and> distinct (map (resolve_from cwd) (concat (map item_dests items)))"
proof -
  from assms obtain items out where i: "jat ''shards'' request = JList items" "length items = n" "1 \<le> n" "n \<le> 64"
      "check_shards cwd n 0 None [] items = Inr out"
    by (auto simp: complete_restore_request_def split: json.splits)
  from check_shards_Inr [OF i(5)] i show ?thesis by auto
qed

text \<open>The records of a result that its status accepts.\<close>

definition record_ok :: "(string \<Rightarrow> string) \<Rightarrow> nat \<Rightarrow> nat \<Rightarrow> json \<Rightarrow> bool \<Rightarrow> bool" where
  "record_ok sha count index rec h \<longleftrightarrow> (\<exists>ticket options. rec = JObj [(''ticket'', ticket), (''hit'', JBool h)] \<and>
     ticket_keyed sha ticket ''invalid restore status ticket'' = Inr () \<and>
     rbind (jget ''recipe'' ticket) (jget ''options'') = Inr options \<and> validate_options options = Inr () \<and>
     jat ''logical_shard'' options = JInt (int index) \<and> jat ''logical_shards'' options = JInt (int count))"

lemma status_bits_ok:
  "list_all2 (\<lambda>i_rec h. record_ok sha count (fst i_rec) (snd i_rec) h) (enumerate index records) hs \<Longrightarrow>
     status_bits sha count index records = Inr (map (\<lambda>h. if h then CHR ''H'' else CHR ''M'') hs)"
proof (induction records arbitrary: index hs)
  case (Cons rec records)
  then obtain h hs' where hs: "hs = h # hs'" "record_ok sha count index rec h"
      "list_all2 (\<lambda>i_rec h. record_ok sha count (fst i_rec) (snd i_rec) h) (enumerate (Suc index) records) hs'"
    by (auto simp: list_all2_Cons1)
  have "set_is [''ticket'', ''hit''] rec = Inr True" "jget ''hit'' rec = Inr (JBool h)"
    using hs(2) by (auto simp: record_ok_def set_is_def dkeys_def jget_def dget_def)
  moreover obtain ticket options where "jget ''ticket'' rec = Inr ticket" "ticket_keyed sha ticket ''invalid restore status ticket'' = Inr ()"
     "rbind (jget ''recipe'' ticket) (jget ''options'') = Inr options" "validate_options options = Inr ()"
     "jat ''logical_shard'' options = JInt (int index)" "jat ''logical_shards'' options = JInt (int count)"
    using hs(2) by (auto simp: record_ok_def jget_def dget_def)
  ultimately show ?case using Cons.IH [OF hs(3)] hs(1) by (simp add: check_def)
qed simp


lemma batch_prepare_Inr:
  assumes "batch_prepare sha snap options w = (Inr ticket, w1)"
  shows "ticket_keyed sha ticket msg = Inr () \<and> rbind (jget ''recipe'' ticket) (jget ''options'') = Inr options"
proof -
  from assms obtain pins artifacts path ident mapped recipe where
      r: "recipe = JObj [(''options'', options), (''artifacts'', artifacts)]"
    and t: "ticket = JObj ([(''schema'', JStr SCHEMA), (''pins'', pins), (''recipe'', recipe), (''snapshot'', pin_value path ident)] @
           (if mapped = JNull then [] else [(''mapped_image_digests'', mapped)]) @
           [(''key'', JStr (sha (canonical (key_value recipe ident))))])"
    unfolding batch_prepare_def Let_def act_Inr by auto
  show ?thesis unfolding t
    by (simp add: ticket_keyed_def is_dict_def jfind_def jget_def dget_def ticket_key_def pin_value_def check_def r)
qed

lemma restore_item_Inr:
  assumes "restore_item sha rnd item w = (Inr rec, w1)" "shard_is count index item"
  shows "\<exists>h. record_ok sha count index rec h"
proof -
  from assms(1) obtain snap options ticket w2 w3 hit where
      o: "jget ''options'' item = Inr options" and p: "batch_prepare sha snap options w2 = (Inr ticket, w3)"
    and r: "rec = JObj [(''ticket'', ticket), (''hit'', JBool hit)]"
    unfolding restore_item_def by (auto simp: act_Inr bpure_def)
  have "shard_is count index item \<Longrightarrow> validate_options options = Inr () \<and> jat ''logical_shards'' options = JInt (int count) \<and> jat ''logical_shard'' options = JInt (int index)"
    using jget_jat [OF o] by (simp add: shard_is_def)
  with assms(2) batch_prepare_Inr [OF p] r show ?thesis unfolding record_ok_def by blast
qed

lemma aeach_all2: "aeach f xs w = (Inr ys, w1) \<Longrightarrow> list_all2 (\<lambda>x y. \<exists>u v. f x u = (Inr y, v)) xs ys"
proof (induction xs arbitrary: w ys)
  case (Cons x xs)
  then show ?case by (auto simp: act_Inr)
qed simp

text \<open>
  C19. A complete restore request lists between one and 64 shards; the shard at each position has
  validated options that name that position and the number of shards, and no two output paths
  of the request lead to one place: they differ after resolving them in the working directory.
\<close>

theorem restore_request_complete:
  assumes "complete_restore_request cwd request = Inr n"
  shows "\<exists>items. jat ''shards'' request = JList items \<and> length items = n \<and> 1 \<le> n \<and> n \<le> 64 \<and>
    (\<forall>i < n. shard_is n i (items ! i)) \<and> distinct (map (resolve_from cwd) (concat (map item_dests items)))"
  by (rule request_complete [OF assms])

text \<open>The records of the shards, as their status reports them.\<close>

definition hit_bits :: "json \<Rightarrow> string" where
  "hit_bits result = (case jat ''shards'' result of
     JList records \<Rightarrow> map (\<lambda>r. if jat ''hit'' r = JBool True then CHR ''H'' else CHR ''M'') records | _ \<Rightarrow> [])"

lemma record_ok_bit: "record_ok sha count index rec h \<Longrightarrow> (if h then CHR ''H'' else CHR ''M'') = (if jat ''hit'' rec = JBool True then CHR ''H'' else CHR ''M'')"
  by (auto simp: record_ok_def jat_def jfind_def dget_def)

lemma status_bits_records:
  assumes "\<And>i. i < length records \<Longrightarrow> \<exists>h. record_ok sha count (index + i) (records ! i) h"
  shows "status_bits sha count index records = Inr (map (\<lambda>r. if jat ''hit'' r = JBool True then CHR ''H'' else CHR ''M'') records)"
proof -
  define hs where "hs = map (\<lambda>i. SOME h. record_ok sha count (index + i) (records ! i) h) [0..<length records]"
  have ok: "record_ok sha count (index + i) (records ! i) (hs ! i)" if "i < length records" for i
    using someI_ex [OF assms [OF that]] that by (simp add: hs_def)
  have len: "length hs = length records" by (simp add: hs_def)
  have "list_all2 (\<lambda>i_rec h. record_ok sha count (fst i_rec) (snd i_rec) h) (enumerate index records) hs"
    using ok len by (auto simp: list_all2_conv_all_nth nth_enumerate_eq)
  from status_bits_ok [OF this]
  have "status_bits sha count index records = Inr (map (\<lambda>h. if h then CHR ''H'' else CHR ''M'') hs)" .
  moreover have "map (\<lambda>h. if h then CHR ''H'' else CHR ''M'') hs = map (\<lambda>r. if jat ''hit'' r = JBool True then CHR ''H'' else CHR ''M'') records"
    using record_ok_bit [OF ok] len by (auto intro!: nth_equalityI)
  ultimately show ?thesis by simp
qed

lemma with_batch_Inr:
  assumes "with_batch sha tok request body fs = (Inr x, fs1)"
  shows "\<exists>b f w. body (b, f) = (Inr x, w)"
proof -
  from assms obtain b f where c: "(case afinally body close_batch (b, f) of (r, (_, fs1)) \<Rightarrow> (r, fs1)) = (Inr x, fs1)"
    unfolding with_batch_def act_Inr by blast
  obtain r w where "body (b, f) = (r, w)" by (metis prod.exhaust)
  moreover from this c have "r = Inr x" by (auto simp: afinally_def split: prod.splits)
  ultimately show ?thesis by blast
qed

lemma batch_request_Inr:
  assumes "batch_request cwd sha tok rnd ''batch-restore'' request fs = (Inr result, fs1)"
  shows "\<exists>items records m. jat ''shards'' request = JList items \<and> complete_restore_request cwd request = Inr (length items) \<and>
    result = JObj [(''schema'', JStr SCHEMA), (''shards'', JList records), (''metrics'', m)] \<and>
    list_all2 (\<lambda>x y. \<exists>u v. restore_item sha rnd x u = (Inr y, v)) items records"
proof -
  from assms obtain items n b f g where i: "jat ''shards'' request = JList items" "complete_restore_request cwd request = Inr n"
    and w: "with_batch sha tok request (abind (aeach (restore_item sha rnd) items) (\<lambda>outputs.
       abind (finish sha tok) (\<lambda>m. aret (JObj [(''schema'', JStr SCHEMA), (''shards'', JList outputs), (''metrics'', m)])))) f = (Inr result, g)"
    unfolding batch_request_def act_Inr by (auto split: json.splits if_splits)
  then obtain b w1 records m where "aeach (restore_item sha rnd) items b = (Inr records, w1)"
      "result = JObj [(''schema'', JStr SCHEMA), (''shards'', JList records), (''metrics'', m)]"
    using with_batch_Inr [OF w] by (auto simp: act_Inr)
  note records = this
  have n: "n = length items" using request_complete [OF i(2)] i(1) by auto
  show ?thesis using i(1) i(2) [unfolded n] records(2) aeach_all2 [OF records(1)] by (intro exI conjI)
qed

text \<open>
  The status of a batch restoration that returns is always accepted: it has the version
  line, the number of shards, and one letter per shard in order, \<open>H\<close> exactly for the hits.
\<close>

theorem batch_restore_status:
  assumes "batch_request cwd sha tok rnd ''batch-restore'' request fs = (Inr result, fs1)"
  shows "status_text sha result = Inr (''ELISA_PREOPT_SHARD_STATUS_V1'' @ [CHR 0x0A] @ show_nat (length (hit_bits result)) @ [CHR 0x0A] @ hit_bits result @ [CHR 0x0A])"
proof -
  obtain items records m where i: "jat ''shards'' request = JList items" "complete_restore_request cwd request = Inr (length items)"
    and r: "result = JObj [(''schema'', JStr SCHEMA), (''shards'', JList records), (''metrics'', m)]"
    and all: "list_all2 (\<lambda>x y. \<exists>u v. restore_item sha rnd x u = (Inr y, v)) items records"
    using batch_request_Inr [OF assms] by blast
  have len: "length records = length items" using list_all2_lengthD [OF all] by simp
  have c: "1 \<le> length items" "length items \<le> 64" and s: "\<And>j. j < length items \<Longrightarrow> shard_is (length items) j (items ! j)"
    using request_complete [OF i(2)] i(1) by auto
  have "\<exists>h. record_ok sha (length items) (0 + j) (records ! j) h" if "j < length records" for j
    using restore_item_Inr [OF _ s [of j]] list_all2_nthD2 [OF all that] that len by auto
  from status_bits_records [OF this] have b: "status_bits sha (length records) 0 records = Inr (hit_bits result)"
    unfolding len r by (simp add: hit_bits_def jat_def jfind_def dget_def)
  have "length (hit_bits result) = length records" unfolding r by (simp add: hit_bits_def jat_def jfind_def dget_def)
  then show ?thesis using b c len unfolding r
    by (simp add: status_text_def has_keys_def dkeys_def jat_def jfind_def dget_def check_def insert_commute)
qed


section \<open>An aborted batch changes no file\<close>

text \<open>What staging stages and makes: staging names of the targets, and ancestors of targets.\<close>

definition near :: "string list \<Rightarrow> (string \<Rightarrow> string list) \<Rightarrow> string \<Rightarrow> bool" where
  "near ts rnd p \<longleftrightarrow> (\<exists>t \<in> set ts. in_tree p t \<or> (\<exists>x \<in> set (rnd t). p = sibling t x))"

lemma make_directories_sub: "make_directories ds fs = ((made, r), fs1) \<Longrightarrow> set made \<subseteq> set ds"
proof (induction ds arbitrary: fs made)
  case (Cons d ds)
  obtain r0 f0 where m: "mkdir d fs = (r0, f0)" by fastforce
  obtain made1 r1 f1 where n: "make_directories ds f0 = ((made1, r1), f1)" by (metis prod.exhaust)
  have "made = [] \<or> r = r1 \<and> fs1 = f1 \<and> (made = made1 \<or> made = d # made1)"
    using Cons.prems m n by (auto split: sum.splits if_splits)
  then show ?case using Cons.IH [of f0 made1] n by auto
qed simp

lemma stage_files_near:
  "stage_files sha cc entry m rnd items fs = ((staged, made, r), fs1) \<Longrightarrow> p \<in> set (map fst staged) \<union> set made \<Longrightarrow> near (map snd items) rnd p"
proof (induction items arbitrary: fs staged made r fs1 p)
  case (Cons item items)
  obtain n limit ae target where item: "item = ((n, limit, ae), target)" by (metis prod.exhaust)
  obtain made1 r1 f1 where e: "ensure_parent_directories (path_parent target) fs = ((made1, r1), f1)" by (metis prod.exhaust)
  obtain r2 f2 where c: "copy_fingerprint_sibling sha (sub entry n) target ae limit (take 16 (rnd target)) f1 = (r2, f2)" by fastforce
  obtain rest more r3 f3 where rec: "stage_files sha cc entry m rnd items f2 = ((rest, more, r3), f3)" by (metis prod.exhaust)
  have dirs: "near (map snd (item # items)) rnd d" if "d \<in> set made1" for d
    using make_directories_sub [OF e [unfolded ensure_parent_directories_def]] parent_prefix that by (auto simp: near_def item)
  have out: "staged = [] \<and> made = made1 \<or> (\<exists>tmp ident. r2 = Inr (tmp, ident) \<and>
      (staged = [(tmp, target)] \<and> made = made1 \<or> staged = (tmp, target) # rest \<and> made = made1 @ more))"
    using Cons.prems(1) e c rec by (auto simp: item split: if_splits sum.splits bool.splits)
  have tmp: "near (map snd (item # items)) rnd tmp" if "r2 = Inr (tmp, ident)" for tmp ident
    using copy_sibling_Inr [OF c [unfolded that]] by (auto simp: near_def item dest: in_set_takeD)
  have rest: "near (map snd (item # items)) rnd q" if "q \<in> set (map fst rest) \<union> set more" for q
    using Cons.IH [OF rec that] by (auto simp: near_def)
  have "p \<in> set made1 \<or> (\<exists>ident. r2 = Inr (p, ident)) \<or> p \<in> set (map fst rest) \<union> set more"
    using out Cons.prems(2) by (elim disjE conjE exE) (simp_all, blast+)
  then show ?case using dirs tmp rest by blast
qed simp

lemma adds_in: "(p, n) \<in> set adds \<Longrightarrow> if n = Dir then p \<in> set (dirs_of adds) else p \<in> set (files_of adds)"
  by (force simp: dirs_of_def files_of_def)

lemma adds_names: "set (map fst adds) = set (dirs_of adds) \<union> set (files_of adds)"
  by (auto simp: dirs_of_def files_of_def image_iff)

text \<open>Files and directories added: the staged copies and the directories, no other path.\<close>

lemma stages_get:
  assumes "stages fs staged made fs1"
  shows "dget fs1 p = dget fs p \<or> dget fs p = None \<and> (p \<in> set made \<and> dget fs1 p = Some Dir \<or> p \<in> set (map fst staged))"
proof -
  obtain adds f where a: "grows fs adds f" "dget fs1 = dget f" "dirs_of adds = made" "set (files_of adds) = set (map fst staged)"
    using assms unfolding stages_def by auto
  show ?thesis
  proof (cases "map_of adds p")
    case None
    then show ?thesis using grows_get [OF a(1), of p] a(2) by simp
  next
    case (Some n)
    then have "(p, n) \<in> set adds" by (rule map_of_SomeD)
    then have n: "n = Dir \<and> p \<in> set made \<or> p \<in> set (map fst staged)" "p \<in> set (map fst adds)"
      using adds_in [of p n adds] a(3,4) by (auto split: if_splits intro: rev_image_eqI)
    then have "dget fs p = None" using grows_fresh [OF a(1)] by blast
    then show ?thesis using grows_get [OF a(1), of p] a(2) Some n(1) by auto
  qed
qed

lemma closed_cong: "dget f = dget g \<Longrightarrow> closed f \<Longrightarrow> closed g"
  by (rule closedI) (metis closedD is_dir_def parent_dir_def)

lemma stages_closed: "stages fs staged made fs1 \<Longrightarrow> closed fs \<Longrightarrow> closed fs1"
  unfolding stages_def using grows_closed closed_cong by metis

lemma stages_new: "stages fs staged made fs1 \<Longrightarrow> p \<in> set made \<union> set (map fst staged) \<Longrightarrow> dget fs p = None"
  unfolding stages_def using grows_fresh adds_names by (metis Un_iff)

lemma stages_same: "dget fs1 = dget fs \<Longrightarrow> stages fs [] [] fs1"
  by (rule stages_Nil [OF grows_Nil]) simp_all

context ticket_validator
begin

text \<open>A restoration changes the validator's state through the validator only.\<close>

lemma restore_state:
  assumes r: "restore sha val cc True cache t targets rnd (s, fs) = (r, (s1, fs1))"
    and refl: "\<And>a. R a a" and trans: "\<And>a b c. R a b \<Longrightarrow> R b c \<Longrightarrow> R a c"
    and step: "\<And>a f r a1 f1. val t (a, f) = (r, (a1, f1)) \<Longrightarrow> R a a1"
  shows "R s s1"
proof -
  obtain u s2 f2 where v: "val t (s, fs) = (u, (s2, f2))" by (metis prod.exhaust)
  have s2: "R s s2" by (rule step [OF v])
  have found: "R s2 s1" if "restore_found sha val cc True t e targets rnd m (s2, f) = (r, (s1, fs1))" for e m f
  proof -
    obtain staged made q g where sf: "stage_files sha cc e m rnd (zip slots targets) f = ((staged, made, q), g)" by (metis prod.exhaust)
    obtain w s5 f5 where v2: "val t (s2, g) = (w, (s5, f5))" by (metis prod.exhaust)
    have "s1 = s2 \<or> s1 = s5" using that sf v2 by (auto simp: restore_found_def split: sum.splits bool.splits)
    then show ?thesis using step [OF v2] refl by auto
  qed
  have "s1 = s2 \<or> R s2 s1"
    using r v found
    by (auto simp: restore_def aseq_def abind_def aguard_def aret_def areads_def onfs_def araise_def split: sum.splits option.splits prod.splits if_splits)
  then show ?thesis using s2 trans refl by blast
qed

text \<open>Whatever a deferred restoration does, it takes at most the lock and stages what it returns.\<close>

lemma restore_deferred_stages:
  assumes r: "restore sha val cc True cache t [t0, t1, t2] rnd (s, fs) = (r, (s1, fs1))"
    and c: "closed fs" and n: "names_apart [t0, t1, t2] rnd" "names_free cache [t0, t1, t2] rnd fs"
  shows "\<exists>f. (f = fs \<or> (\<exists>k l. lock_entry cache k fs = (l, f))) \<and>
    (case r of Inr (Some (m, staged, made)) \<Rightarrow> stages f staged made fs1 \<and> (\<forall>p \<in> set (map fst staged) \<union> set made. near [t0, t1, t2] rnd p)
     | _ \<Rightarrow> dget fs1 = dget f)"
proof -
  obtain u s2 f2 where v: "val t (s, fs) = (u, (s2, f2))" by (metis prod.exhaust)
  have f2: "f2 = fs" by (rule val_fs [OF v])
  show ?thesis
  proof (cases "(\<exists>x. u = Inr x) \<and> distinct [t0, t1, t2] \<and> (\<exists>k. rbind (jget ''key'' t) jstr = Inr k)")
    case False
    then have "fs1 = fs" "\<exists>e. r = Inl e" using r v f2
      by (cases u; auto simp: restore_def aseq_def abind_def aguard_def araise_def aret_def areads_def split: sum.splits if_splits)+
    then show ?thesis by auto
  next
    case True
    then obtain x k where x: "u = Inr x" "distinct [t0, t1, t2]" "rbind (jget ''key'' t) jstr = Inr k" by (elim conjE exE)
    obtain l f3 where l: "lock_entry cache k fs = (l, f3)" by fastforce
    have "fs1 = f3 \<and> (r = Inr None \<or> (\<exists>e. r = Inl e)) \<or> (\<exists>m. restore_found sha val cc True t (sub cache k) [t0, t1, t2] rnd m (s2, f3) = (r, (s1, fs1)))"
      using r v f2 x l by (auto simp: restore_def aseq_def abind_def aguard_def aret_def areads_def onfs_def split: sum.splits option.splits)
    then consider "fs1 = f3" "r = Inr None \<or> (\<exists>e. r = Inl e)"
      | m where "restore_found sha val cc True t (sub cache k) [t0, t1, t2] rnd m (s2, f3) = (r, (s1, fs1))" by blast
    then show ?thesis
    proof cases
      case 1
      then show ?thesis using l by (intro exI [of _ f3]) auto
    next
      case (2 m)
      have un: "list_all (unused f3 rnd) [t0, t1, t2]" using unused_locked [OF n(2) _ l] by simp
      note cl = lock_entry_closed [OF l c]
      show ?thesis
      proof (cases "r = Inr None \<or> (\<exists>e. r = Inl e)")
        case True
        then have "dget fs1 = dget f3" using restore_found_clean [OF 2 _ cl x(2) n(1) un] by blast
        then show ?thesis using l True by (intro exI [of _ f3]) auto
      next
        case False
        obtain staged made q g where sf: "stage_files sha cc (sub cache k) m rnd (zip slots [t0, t1, t2]) f3 = ((staged, made, q), g)" by (metis prod.exhaust)
        have st: "stages f3 staged made g" by (rule stage_files_stages [OF sf n(1)]) (use x(2) un in \<open>simp_all add: slots_def\<close>)
        obtain w s5 f5 where v2: "val t (s2, g) = (w, (s5, f5))" by (metis prod.exhaust)
        have "f5 = g" by (rule val_fs [OF v2])
        then have "r = Inr (Some (m, staged, made))" "fs1 = g"
          using 2 sf v2 False by (auto simp: restore_found_def split: sum.splits bool.splits)
        then show ?thesis using l st stage_files_near [OF sf] by (intro exI [of _ f3]) (auto simp: slots_def)
      qed
    qed
  qed
qed

end


text \<open>The paths a batch leaves to the cache: its own directory and its lock files.\<close>

definition outside :: "string \<Rightarrow> string \<Rightarrow> bool" where
  "outside cache p \<longleftrightarrow> \<not> ends_with ''.lock'' p \<and> p \<notin> set (prefixes_at [] cache)"

definition staged_paths :: "batch \<Rightarrow> string list" where
  "staged_paths b = concat (map o_staged (b_outputs b))"

definition made_dirs :: "batch \<Rightarrow> string list" where
  "made_dirs b = concat (map o_dirs (b_outputs b))"

definition taken_targets :: "batch \<Rightarrow> string list" where
  "taken_targets b = concat (map o_targets (b_outputs b))"

definition batch_inv :: "string list \<Rightarrow> (string \<Rightarrow> string list) \<Rightarrow> string \<Rightarrow> fs \<Rightarrow> batch \<Rightarrow> fs \<Rightarrow> bool" where
  "batch_inv ts rnd cache fs0 b fs \<longleftrightarrow> b_cache b = cache \<and> closed fs \<and>
     (\<forall>p. outside cache p \<longrightarrow> dget fs p = dget fs0 p \<or> dget fs0 p = None \<and> (dget fs p = Some Dir \<or> p \<in> set (staged_paths b))) \<and>
     (\<forall>p. outside cache p \<longrightarrow> p \<in> set (staged_paths b) \<union> set (made_dirs b) \<longrightarrow> dget fs0 p = None) \<and>
     (\<forall>t \<in> set ts. t \<in> set (taken_targets b) \<or> unused fs rnd t)"

lemma batch_inv_quiet: "quiet sha m \<Longrightarrow> m (b, fs) = (r, (b1, fs1)) \<Longrightarrow> batch_inv ts rnd cache fs0 b fs \<Longrightarrow> batch_inv ts rnd cache fs0 b1 fs1"
  using quietD [of sha m b fs r b1 fs1] by (simp add: batch_inv_def staged_paths_def made_dirs_def taken_targets_def)

lemma locked_get:
  "f = fs \<or> (\<exists>k l. lock_entry cache k fs = (l, f)) \<Longrightarrow> outside cache p \<Longrightarrow> dget f p = dget fs p"
proof (elim disjE exE)
  fix k l
  assume "lock_entry cache k fs = (l, f)" and o: "outside cache p"
  then show "dget f p = dget fs p"
    by (intro lock_entry_get) (auto simp: outside_def ends_with_iff sub_def)
qed simp

lemma locked_closed: "f = fs \<or> (\<exists>k l. lock_entry cache k fs = (l, f)) \<Longrightarrow> closed fs \<Longrightarrow> closed f"
  using lock_entry_closed by blast

text \<open>What the request promises about its targets, once for the whole batch.\<close>

definition names_good :: "string \<Rightarrow> string list \<Rightarrow> (string \<Rightarrow> string list) \<Rightarrow> bool" where
  "names_good cache ts rnd \<longleftrightarrow> names_apart ts rnd \<and> (\<forall>t \<in> set ts. \<forall>x \<in> set (rnd t). outside cache (sibling t x))"

lemma names_apart_sub: "names_apart ts rnd \<Longrightarrow> set us \<subseteq> set ts \<Longrightarrow> names_apart us rnd"
  unfolding names_apart_def list_all_iff by blast

lemma near_unused:
  assumes "names_apart ts rnd" "u \<in> set ts" "set us \<subseteq> set ts" "u \<notin> set us" "x \<in> set (rnd u)" "near us rnd (sibling u x)"
  shows False
proof -
  obtain t where t: "t \<in> set us" "in_tree (sibling u x) t \<or> (\<exists>y \<in> set (rnd t). sibling u x = sibling t y)"
    using assms(6) unfolding near_def by blast
  have "t \<in> set ts" "t \<noteq> u" using t(1) assms(3,4) by auto
  then show False using t(2) names_apartD(2) [OF assms(1,2) \<open>t \<in> set ts\<close> assms(5)]
      names_apartD(3) [OF assms(1,2) \<open>t \<in> set ts\<close> assms(5)] unfolding apart_def by (metis in_tree_refl)
qed

text \<open>A step that takes the lock and stages copies keeps the invariant.\<close>

lemma batch_inv_stages:
  assumes inv: "batch_inv ts rnd cache fs0 b fs" and n: "names_good cache ts rnd"
    and f: "f = fs \<or> (\<exists>k l. lock_entry cache k fs = (l, f))" and st: "stages f staged made fs1"
    and near: "\<forall>p \<in> set (map fst staged) \<union> set made. near us rnd p" and us: "set us \<subseteq> set ts"
    and b1: "b_cache b1 = b_cache b" "set (staged_paths b1) = set (staged_paths b) \<union> set (map fst staged)"
      "set (made_dirs b1) = set (made_dirs b) \<union> set made" "set (taken_targets b) \<subseteq> set (taken_targets b1)"
      "staged = [] \<and> made = [] \<or> set us \<subseteq> set (taken_targets b1)"
  shows "batch_inv ts rnd cache fs0 b1 fs1"
proof -
  note I = inv [unfolded batch_inv_def]
  have g: "dget f p = dget fs p" if "outside cache p" for p by (rule locked_get [OF f that])
  have new: "dget fs0 p = None" if "outside cache p" "p \<in> set (map fst staged) \<union> set made" for p
  proof -
    have "dget fs p = None" using stages_new [OF st, of p] that(2) g [OF that(1)] by (simp add: Un_commute)
    then show ?thesis using I that(1) by auto
  qed
  have get: "dget fs1 p = dget fs0 p \<or> dget fs0 p = None \<and> (dget fs1 p = Some Dir \<or> p \<in> set (staged_paths b1))" if "outside cache p" for p
    using stages_get [OF st, of p] g [OF that] I that b1(2) by auto
  have un: "t \<in> set (taken_targets b1) \<or> unused fs1 rnd t" if t: "t \<in> set ts" for t
  proof (cases "t \<in> set (taken_targets b1)")
    case False
    then have u: "unused fs rnd t" and nt: "staged = [] \<and> made = [] \<or> t \<notin> set us" using I t b1(4,5) by auto
    have "dget fs1 (sibling t x) = None" if x: "x \<in> set (rnd t)" for x
    proof -
      have o: "outside cache (sibling t x)" using n t x unfolding names_good_def by blast
      have "sibling t x \<notin> set (map fst staged) \<union> set made"
        using near_unused [of ts rnd t us x] t us x near nt n unfolding names_good_def by auto
      then have "dget fs1 (sibling t x) = dget f (sibling t x)" using stages_get [OF st, of "sibling t x"] by auto
      then show ?thesis using g [OF o] u x by (simp add: unused_def list_all_iff exists_def)
    qed
    then show ?thesis by (simp add: unused_def list_all_iff exists_def)
  qed simp
  show ?thesis unfolding batch_inv_def
    using b1(1-3) I stages_closed [OF st locked_closed [OF f]] get new un by auto
qed


lemma batch_restore_inv:
  assumes r: "batch_restore sha rnd t [t0, t1, t2] (b, fs) = (r, (b1, fs1))" and inv: "batch_inv ts rnd cache fs0 b fs"
    and n: "names_good cache ts rnd" and us: "set [t0, t1, t2] \<subseteq> set ts"
  shows "batch_inv ts rnd cache fs0 b1 fs1"
proof -
  obtain r0 b2 f2 where v: "restore sha (validate sha) False True cache t [t0, t1, t2] rnd (b, fs) = (r0, (b2, f2))" by (metis prod.exhaust)
  have cache: "b_cache b = cache" and c: "closed fs" using inv by (simp_all add: batch_inv_def)
  show ?thesis
  proof (cases "(b1, fs1) = (b, fs)")
    case False
    then have nt: "\<forall>u \<in> set [t0, t1, t2]. u \<notin> set (taken_targets b)"
      and out: "fs1 = f2" "case r0 of Inr (Some (m, staged, made)) \<Rightarrow> b1 = b2\<lparr>b_outputs := b_outputs b2 @
           [\<lparr>o_ticket = t, o_staged = map fst staged, o_targets = [t0, t1, t2], o_expected = receipt m, o_dirs = made\<rparr>], b_hits := Suc (b_hits b2)\<rparr>
         | Inr None \<Rightarrow> b1 = b2\<lparr>b_misses := Suc (b_misses b2)\<rparr> | Inl e \<Rightarrow> b1 = b2"
      using r v cache by (auto simp: batch_restore_def check_open_def aseq_def abind_def bget_def aguard_def aret_def araise_def bmod_def taken_targets_def
          split: if_splits sum.splits option.splits)
    have free: "names_free cache [t0, t1, t2] rnd fs"
      using inv nt n us unfolding names_free_def batch_inv_def names_good_def unused_def list_all_iff outside_def by blast
    have na: "names_apart [t0, t1, t2] rnd" using n us names_apart_sub unfolding names_good_def by blast
    have q: "b_outputs b2 = b_outputs b" "b_cache b2 = b_cache b"
      using batched.restore_state [OF v, of "\<lambda>a c. b_outputs c = b_outputs a \<and> b_cache c = b_cache a"] quietD [OF quiet_validate] by auto
    obtain f where f: "f = fs \<or> (\<exists>k l. lock_entry cache k fs = (l, f))" and res: "case r0 of Inr (Some (m, staged, made)) \<Rightarrow>
        stages f staged made f2 \<and> (\<forall>p \<in> set (map fst staged) \<union> set made. near [t0, t1, t2] rnd p) | _ \<Rightarrow> dget f2 = dget f"
      using batched.restore_deferred_stages [OF v c na free] by blast
    show ?thesis
    proof (cases "\<exists>m staged made. r0 = Inr (Some (m, staged, made))")
      case True
      then obtain m staged made where r0: "r0 = Inr (Some (m, staged, made))" by blast
      show ?thesis
        by (rule batch_inv_stages [OF inv n f _ _ us, of staged made])
          (use r0 out res q in \<open>auto simp: staged_paths_def made_dirs_def taken_targets_def\<close>)
    next
      case False
      then have "dget f2 = dget f" "b_outputs b1 = b_outputs b2" "b_cache b1 = b_cache b2"
        using res out by (auto split: sum.splits option.splits)
      then show ?thesis
        by (intro batch_inv_stages [OF inv n f, of "[]" "[]" _ "[]"]) (auto simp: out(1) q staged_paths_def made_dirs_def taken_targets_def intro: stages_same)
    qed
  qed (use inv in simp)
qed


lemma quiet_prepare: "quiet sha (batch_prepare sha snap options)"
  unfolding batch_prepare_def Let_def
  by (intro quiet_aseq quiet_abind quiet_check_open quiet_admit quiet_validate quiet_basic quiet_bmod) (simp add: batch_ok_def)

lemma quiet_item_text: "quiet sha (item_text k item)"
  unfolding item_text_def by (rule quiet_basic)

lemma quiet_read_shared: "quiet sha (read_shared sha)"
  unfolding read_shared_def Let_def case_prod_beta
  by (intro quiet_abind quiet_aseq quiet_aeach quiet_shared quiet_basic)

lemma quiet_finish_checks: "quiet sha (finish_checks sha)"
  unfolding finish_checks_def snapshot_check_def case_prod_beta
  by (intro quiet_aseq quiet_abind quiet_aeach quiet_check_open quiet_validate quiet_snapshot quiet_read_shared quiet_basic)

text \<open>Predicates on the batch and the file system that an action keeps, however it ends.\<close>

definition steady :: "(batch \<Rightarrow> fs \<Rightarrow> bool) \<Rightarrow> 'a bact \<Rightarrow> bool" where
  "steady J m \<longleftrightarrow> (\<forall>b fs r b1 fs1. J b fs \<longrightarrow> m (b, fs) = (r, (b1, fs1)) \<longrightarrow> J b1 fs1)"

lemma steady_abind: "steady J m \<Longrightarrow> (\<And>x. steady J (f x)) \<Longrightarrow> steady J (abind m f)"
proof (unfold steady_def, intro allI impI)
  fix b fs r b1 fs1
  assume s: "\<forall>b fs r b1 fs1. J b fs \<longrightarrow> m (b, fs) = (r, (b1, fs1)) \<longrightarrow> J b1 fs1"
    "\<And>x. \<forall>b fs r b1 fs1. J b fs \<longrightarrow> f x (b, fs) = (r, (b1, fs1)) \<longrightarrow> J b1 fs1" "J b fs" "abind m f (b, fs) = (r, (b1, fs1))"
  obtain u b2 f2 where m: "m (b, fs) = (u, (b2, f2))" by (metis prod.exhaust)
  then have "J b2 f2" using s(1,3) by metis
  then show "J b1 fs1" using s(2) [of "projr u"] s(4) m by (cases u) (auto simp: abind_def)
qed

lemma steady_aseq: "steady J m \<Longrightarrow> steady J k \<Longrightarrow> steady J (aseq m k)"
  unfolding aseq_def by (rule steady_abind)

lemma steady_aeach: "(\<And>x. x \<in> set xs \<Longrightarrow> steady J (f x)) \<Longrightarrow> steady J (aeach f xs)"
proof (induction xs)
  case Nil
  then show ?case by (simp add: steady_def aret_def)
next
  case (Cons x xs)
  have "steady J (aret ys)" for ys :: "'b list" by (simp add: steady_def aret_def)
  then have "steady J (abind (f x) (\<lambda>y. abind (aeach f xs) (\<lambda>ys. aret (y # ys))))"
    using Cons by (intro steady_abind) simp_all
  then show ?case by simp
qed

lemma steady_quiet: "quiet sha m \<Longrightarrow> steady (batch_inv ts rnd cache fs0) m"
  unfolding steady_def using batch_inv_quiet by blast

lemma steady_batch_restore:
  assumes "names_good cache ts rnd" "set [t0, t1, t2] \<subseteq> set ts"
  shows "steady (batch_inv ts rnd cache fs0) (batch_restore sha rnd t [t0, t1, t2])"
  unfolding steady_def using batch_restore_inv [OF _ _ assms] by blast

text \<open>An item whose destinations are texts of the request.\<close>

lemma abind_bpure: "abind (bpure r) f = (case r of Inl e \<Rightarrow> araise e | Inr x \<Rightarrow> f x)"
  by (rule ext) (auto simp: abind_def bpure_def areads_def araise_def split: sum.splits)

lemma steady_item:
  assumes n: "names_good cache ts rnd" and d: "set (item_dests item) \<subseteq> set ts"
  shows "steady (batch_inv ts rnd cache fs0) (restore_item sha rnd item)"
proof -
  have r: "steady (batch_inv ts rnd cache fs0) (abind (item_text ''object'' item) (\<lambda>obj. abind (item_text ''stdout'' item) (\<lambda>out. abind (item_text ''stderr'' item) (\<lambda>err.
     abind (batch_restore sha rnd ticket [obj, out, err]) (\<lambda>hit. aret (JObj [(''ticket'', ticket), (''hit'', JBool hit)]))))))" for ticket
  proof (cases "\<exists>o1 o2 o3. rbind (jget ''object'' item) jstr = Inr o1 \<and> rbind (jget ''stdout'' item) jstr = Inr o2 \<and> rbind (jget ''stderr'' item) jstr = Inr o3")
    case True
    then obtain o1 o2 o3 where o: "rbind (jget ''object'' item) jstr = Inr o1" "rbind (jget ''stdout'' item) jstr = Inr o2" "rbind (jget ''stderr'' item) jstr = Inr o3"
      by (elim exE conjE)
    then have "set [o1, o2, o3] \<subseteq> set ts" using d by (auto simp: item_dests_def dest_def TARGETS_def jstr_Inr dest!: jget_jat)
    from steady_batch_restore [OF n this] show ?thesis
      unfolding item_text_def abind_bpure o sum.case
      by (intro steady_abind) (auto intro: steady_quiet quiet_basic)
  next
    case False
    then show ?thesis unfolding item_text_def abind_bpure
      by (cases "rbind (jget ''object'' item) jstr"; cases "rbind (jget ''stdout'' item) jstr"; cases "rbind (jget ''stderr'' item) jstr")
        (auto simp: steady_def araise_def)
  qed
  show ?thesis unfolding restore_item_def
    by (intro steady_aseq steady_abind r steady_quiet [OF quiet_basic(2)] steady_quiet [OF quiet_item_text] steady_quiet [OF quiet_prepare])
qed

text \<open>Closing removes staged copies and directories that were made, and nothing else outside the work tree.\<close>

lemma rmdir_quiet_get: "dget (rmdir_quiet d fs) p = dget fs p \<or> p = d \<and> dget fs p = Some Dir \<and> dget (rmdir_quiet d fs) p = None"
  by (auto simp: rmdir_quiet_def is_dir_def)

lemma rmdirs_get: "dget (fold rmdir_quiet ds fs) p = dget fs p \<or> p \<in> set ds \<and> dget fs p = Some Dir \<and> dget (fold rmdir_quiet ds fs) p = None"
proof (induction ds arbitrary: fs)
  case (Cons d ds)
  show ?case using Cons [of "rmdir_quiet d fs"] rmdir_quiet_get [of d fs p] by auto
qed simp

lemma close_output_get:
  "dget (close_output out fs) p = dget fs p \<and> (p \<in> set (o_staged out) \<longrightarrow> (\<forall>x y. dget fs p \<noteq> Some (File x y))) \<or>
   dget (close_output out fs) p = None \<and> p \<in> set (o_staged out) \<union> set (o_dirs out)"
  using rmdirs_get [of "rev (o_dirs out)" "fold unlink (o_staged out) fs" p] unlink_all_get [of "o_staged out" fs p]
  unfolding close_output_def remove_empty_directories_def by (auto split: if_splits)

lemma close_outputs_get:
  "dget (fold close_output outs fs) p = dget fs p \<and> (p \<in> set (concat (map o_staged outs)) \<longrightarrow> (\<forall>x y. dget fs p \<noteq> Some (File x y))) \<or>
   dget (fold close_output outs fs) p = None \<and> p \<in> set (concat (map o_staged outs)) \<union> set (concat (map o_dirs outs))"
proof (induction outs arbitrary: fs)
  case (Cons out outs)
  show ?case using Cons [of "close_output out fs"] close_output_get [of out fs p] by auto
qed simp

lemma close_batch_inv:
  assumes "batch_inv ts rnd cache fs0 b fs" "outside cache p" "\<not> in_tree (b_work b) p"
  shows "dget (snd (close_batch (b, fs))) p = dget fs0 p \<or> dget fs0 p = None \<and> dget (snd (close_batch (b, fs))) p = Some Dir"
proof -
  have c: "dget (snd (close_batch (b, fs))) p = dget (fold close_output (b_outputs b) fs) p"
    using assms(3) by (simp add: close_batch_def)
  have i: "dget fs p = dget fs0 p \<or> dget fs0 p = None \<and> (dget fs p = Some Dir \<or> p \<in> set (staged_paths b))"
      "p \<in> set (staged_paths b) \<union> set (made_dirs b) \<longrightarrow> dget fs0 p = None"
    using assms(1,2) unfolding batch_inv_def by blast+
  show ?thesis
  proof (cases "dget fs p")
    case (Some nd)
    then show ?thesis unfolding c using i close_outputs_get [of "b_outputs b" fs p]
      unfolding staged_paths_def made_dirs_def by (cases nd) auto
  next
    case None
    then show ?thesis unfolding c using i close_outputs_get [of "b_outputs b" fs p]
      unfolding staged_paths_def made_dirs_def by auto
  qed
qed


lemma steady_work: "steady (\<lambda>b _. b_work b = w) (restore_item sha rnd item)"
proof -
  have q: "quiet sha m \<Longrightarrow> steady (\<lambda>b _. b_work b = w) m" for m :: "'x bact"
    unfolding steady_def using quietD [of sha m] by metis
  have r: "steady (\<lambda>b _. b_work b = w) (restore sha (validate sha) False True cache t ts rnd)" for cache t ts
    unfolding steady_def
  proof (intro allI impI)
    fix b fs r b1 fs1
    assume "b_work b = w" "restore sha (validate sha) False True cache t ts rnd (b, fs) = (r, (b1, fs1))"
    then show "b_work b1 = w"
      using batched.restore_state [of sha False cache t ts rnd b fs r b1 fs1 "\<lambda>a c. b_work c = b_work a"] quietD [OF quiet_validate] by auto
  qed
  have c: "steady (\<lambda>b _. b_work b = w) (case found of Some (m, staged, dirs) \<Rightarrow> aseq (bmod (\<lambda>b. b\<lparr>b_outputs := b_outputs b @
           [\<lparr>o_ticket = t, o_staged = map fst staged, o_targets = targets, o_expected = receipt m, o_dirs = dirs\<rparr>],
           b_hits := Suc (b_hits b)\<rparr>)) (aret True)
     | None \<Rightarrow> aseq (bmod (\<lambda>b. b\<lparr>b_misses := Suc (b_misses b)\<rparr>)) (aret False))" for found t targets
    by (auto split: option.splits intro!: steady_aseq simp: steady_def bmod_def aret_def aseq_def abind_def)
  have br: "steady (\<lambda>b _. b_work b = w) (batch_restore sha rnd t targets)" for t targets
    unfolding batch_restore_def
    by (intro steady_aseq steady_abind r c q [OF quiet_check_open] q [OF quiet_basic(1)] q [OF quiet_basic(4)])
  show ?thesis unfolding restore_item_def
    by (intro steady_aseq steady_abind br q quiet_basic quiet_item_text quiet_prepare)
qed

text \<open>What a batch restoration does before it commits: every shard, then the final checks.\<close>

definition restore_phase :: "(string \<Rightarrow> string) \<Rightarrow> (string \<Rightarrow> string list) \<Rightarrow> json list \<Rightarrow> unit bact" where
  "restore_phase sha rnd items = aseq (aeach (restore_item sha rnd) items) (finish_checks sha)"

text \<open>What is fixed about the batch and its targets before the first shard.\<close>

definition fresh_batch :: "(string \<Rightarrow> string list) \<Rightarrow> json list \<Rightarrow> batch \<Rightarrow> fs \<Rightarrow> bool" where
  "fresh_batch rnd items b fs \<longleftrightarrow> b_outputs b = [] \<and> closed fs \<and> (let ts = concat (map item_dests items) in
     names_apart ts rnd \<and> list_all (\<lambda>t. list_all (\<lambda>x. outside (b_cache b) (sibling t x) \<and> \<not> exists (sibling t x) fs) (rnd t)) ts)"

lemma fresh_batch_inv:
  assumes "fresh_batch rnd items b fs"
  shows "names_good (b_cache b) (concat (map item_dests items)) rnd \<and> batch_inv (concat (map item_dests items)) rnd (b_cache b) fs b fs"
  using assms unfolding fresh_batch_def names_good_def batch_inv_def Let_def list_all_iff unused_def
  by (auto simp: staged_paths_def made_dirs_def)

lemma restore_phase_inv:
  assumes f: "fresh_batch rnd items b fs" and r: "restore_phase sha rnd items (b, fs) = (r, (b1, fs1))"
  shows "batch_inv (concat (map item_dests items)) rnd (b_cache b) fs b1 fs1 \<and> b_work b1 = b_work b"
proof -
  let ?ts = "concat (map item_dests items)"
  have n: "names_good (b_cache b) ?ts rnd" and i: "batch_inv ?ts rnd (b_cache b) fs b fs" using fresh_batch_inv [OF f] by auto
  have "steady (batch_inv ?ts rnd (b_cache b) fs) (restore_phase sha rnd items)"
    unfolding restore_phase_def
    by (intro steady_aseq steady_aeach steady_item [OF n] steady_quiet [OF quiet_finish_checks]) auto
  moreover have "steady (\<lambda>c _. b_work c = b_work b) (restore_phase sha rnd items)"
    unfolding restore_phase_def
    by (intro steady_aseq steady_aeach steady_work) (use quietD [OF quiet_finish_checks] in \<open>auto simp: steady_def\<close>)
  ultimately show ?thesis using i r unfolding steady_def by blast
qed

lemma phase_error:
  "restore_phase sha rnd items w = (Inl e, w1) \<Longrightarrow> abind (aeach (restore_item sha rnd) items) (\<lambda>outs. abind (finish sha tok) (k outs)) w = (Inl e, w1)"
  unfolding restore_phase_def finish_def aseq_def abind_def by (auto split: prod.splits sum.splits)

text \<open>
  C18. A batch restoration that fails in a shard or in its final checks changes no file: once
  the invocation is closed, every path outside its private directory and the cache's own
  directory and lock files is as before, but for directories that may remain where there was
  nothing.
\<close>

theorem batch_abort_keeps_files:
  assumes "restore_phase sha rnd items (b, fs) = (Inl e, (b1, fs1))"
    and "fresh_batch rnd items b fs" and "outside (b_cache b) p" and "\<not> in_tree (b_work b) p"
  shows "afinally (abind (aeach (restore_item sha rnd) items) (\<lambda>outs. abind (finish sha tok) (k outs))) close_batch (b, fs) = (Inl e, close_batch (b1, fs1)) \<and>
    (dget (snd (close_batch (b1, fs1))) p = dget fs p \<or> dget fs p = None \<and> dget (snd (close_batch (b1, fs1))) p = Some Dir)"
proof
  show "afinally (abind (aeach (restore_item sha rnd) items) (\<lambda>outs. abind (finish sha tok) (k outs))) close_batch (b, fs) = (Inl e, close_batch (b1, fs1))"
    unfolding afinally_def phase_error [OF assms(1)] by simp
  have "batch_inv (concat (map item_dests items)) rnd (b_cache b) fs b1 fs1" "b_work b1 = b_work b"
    using restore_phase_inv [OF assms(2,1)] by auto
  then show "dget (snd (close_batch (b1, fs1))) p = dget fs p \<or> dget fs p = None \<and> dget (snd (close_batch (b1, fs1))) p = Some Dir"
    using close_batch_inv assms(3,4) by metis
qed


section \<open>A concrete batch\<close>

text \<open>A batch over the sample artifacts, and a shard whose snapshot is missing.\<close>

definition sample_item :: json where
  "sample_item = JObj [(''snapshot'', JStr ''/w/none''), (''options'', sample_options),
     (''object'', JStr ''/w/x/o''), (''stdout'', JStr ''/w/x/p''), (''stderr'', JStr ''/w/x/q'')]"

definition sample_open :: "batch result \<times> fs" where
  "sample_open = open_batch zero_sha JNull ''/w/c'' [(''producer'', JStr ''/w/p''), (''loaded_llvm'', JStr ''/w/l''), (''runtime'', JStr ''/w/r'')]
     (JList []) ''r'' sample_fs"

definition sample_aborts :: "batch result \<times> fs \<Rightarrow> bool" where
  "sample_aborts = (\<lambda>(r, fs). case r of Inl _ \<Rightarrow> False | Inr b \<Rightarrow>
     fresh_batch (\<lambda>_. [''7'']) [sample_item] b fs \<and> outside (b_cache b) ''/w/x/o'' \<and> \<not> in_tree (b_work b) ''/w/x/o'' \<and>
     fst (restore_phase zero_sha (\<lambda>_. [''7'']) [sample_item] (b, fs)) = Inl FileNotFoundError)"

theorem batch_abort_keeps_files_witness:
  "\<exists>b fs. sample_open = (Inr b, fs) \<and>
    (let closed_fs = snd (close_batch (snd (restore_phase zero_sha (\<lambda>_. [''7'']) [sample_item] (b, fs)))) in
       dget closed_fs ''/w/x/o'' = dget fs ''/w/x/o'' \<or> dget fs ''/w/x/o'' = None \<and> dget closed_fs ''/w/x/o'' = Some Dir)"
proof -
  have a: "sample_aborts sample_open" by code_simp
  obtain b fs where o: "sample_open = (Inr b, fs)"
    using a by (cases "fst sample_open") (auto simp: sample_aborts_def split: prod.splits sum.splits)
  let ?r = "restore_phase zero_sha (\<lambda>_. [''7'']) [sample_item] (b, fs)"
  have "fst ?r = Inl FileNotFoundError" and f: "fresh_batch (\<lambda>_. [''7'']) [sample_item] b fs" "outside (b_cache b) ''/w/x/o''" "\<not> in_tree (b_work b) ''/w/x/o''"
    using a unfolding o sample_aborts_def by simp_all
  then have "?r = (Inl FileNotFoundError, (fst (snd ?r), snd (snd ?r)))" by (metis prod.collapse)
  from batch_abort_keeps_files [OF this f, where tok = "\<lambda>_ _. []" and k = "\<lambda>_ _. aret ()", THEN conjunct2]
  have "dget (snd (close_batch (snd ?r))) ''/w/x/o'' = dget fs ''/w/x/o'' \<or> dget fs ''/w/x/o'' = None \<and> dget (snd (close_batch (snd ?r))) ''/w/x/o'' = Some Dir"
    by (simp only: prod.collapse)
  then show ?thesis using o unfolding Let_def by blast
qed

text \<open>A directory two outputs share stays behind when both are closed: the first cannot remove it yet, the second did not make it.\<close>

lemma close_leaves_shared_directory:
  "dget (fold close_output [\<lparr>o_ticket = JNull, o_staged = [''/x/a''], o_targets = [], o_expected = JNull, o_dirs = [''/x'']\<rparr>,
      \<lparr>o_ticket = JNull, o_staged = [''/x/b''], o_targets = [], o_expected = JNull, o_dirs = []\<rparr>]
     [(''/x'', Dir), (''/x/a'', File [] 384), (''/x/b'', File [] 384)]) ''/x'' = Some Dir"
  by code_simp

text \<open>The witnesses of the request properties.\<close>

definition sample_request :: "string \<Rightarrow> json" where
  "sample_request snap = JObj [(''cache'', JStr ''/w/c''), (''producer'', JStr ''/w/p''), (''loaded_llvm'', JStr ''/w/l''), (''runtime'', JStr ''/w/r''),
     (''profiles'', JList []), (''shards'', JList [JObj [(''snapshot'', JStr snap), (''options'', sample_options),
     (''object'', JStr ''/w/x/o''), (''stdout'', JStr ''/w/x/p''), (''stderr'', JStr ''/w/x/q'')]])]"

theorem restore_request_complete_witness:
  "\<exists>items. jat ''shards'' (sample_request ''/w/s'') = JList items \<and> length items = 1 \<and> (\<forall>i < 1. shard_is 1 i (items ! i))"
proof -
  have "complete_restore_request ''/h'' (sample_request ''/w/s'') = Inr 1" by code_simp
  from restore_request_complete [OF this] show ?thesis by auto
qed

text \<open>Two spellings of one place are refused, whether by a dot or by the working directory.\<close>

definition spelled :: "string \<Rightarrow> string \<Rightarrow> json" where
  "spelled a b = JObj [(''object'', JStr a), (''stdout'', JStr b), (''stderr'', JStr ''/e'')]"

lemma spellings_refused:
  "add_destinations ''/w'' (spelled ''/w/o'' ''/w/./o'') TARGETS [] = Inl (ValueError ''shards share output targets'')"
  "add_destinations ''/w'' (spelled ''/w/o'' ''x/../o'') TARGETS [] = Inl (ValueError ''shards share output targets'')"
  by code_simp+

definition returned :: "'a result \<Rightarrow> bool" where
  "returned r = (case r of Inl _ \<Rightarrow> False | Inr _ \<Rightarrow> True)"

definition sample_run :: "json result \<times> fs" where
  "sample_run = batch_request ''/h'' zero_sha (\<lambda>_ _. ''z'') (\<lambda>_. [''7'']) ''batch-restore'' (sample_request ''/w/s'') sample_fs"

theorem batch_restore_status_witness:
  "\<exists>result. fst sample_run = Inr result \<and>
     status_text zero_sha result = Inr (''ELISA_PREOPT_SHARD_STATUS_V1'' @ [CHR 0x0A] @ show_nat (length (hit_bits result)) @ [CHR 0x0A] @ hit_bits result @ [CHR 0x0A])"
proof -
  have "returned (fst sample_run)" by code_simp
  then obtain result where r: "fst sample_run = Inr result" by (auto simp: returned_def split: sum.splits)
  then have "sample_run = (Inr result, snd sample_run)" by (metis prod.collapse)
  then have "batch_request ''/h'' zero_sha (\<lambda>_ _. ''z'') (\<lambda>_. [''7'']) ''batch-restore'' (sample_request ''/w/s'') sample_fs = (Inr result, snd sample_run)"
    by (simp only: sample_run_def)
  from batch_restore_status [OF this] r show ?thesis by blast
qed

end
