(* ===== verification/Kernel.thy ===== *)
theory Kernel
  imports PyFs
begin

text \<open>
  The operating system the object cache runs on: names bound to inodes, the calls the scripts
  make on them, and other processes. Before each call the next event of the schedule runs:
  some change by others, and whether the call then fails (for lack of permission, space or
  whatever else). What others may change is a hypothesis of each theorem, given as a relation
  between the states before and after; the calls of this process are shown to obey the
  same relations.
\<close>

unbundle bit_operations_syntax

section \<open>State\<close>

text \<open>An inode number is a device with a number on it. A link is a symbolic link to a path.\<close>

datatype ino = Ino (st_dev: nat) (st_ino: nat)

datatype kind = Regular | Directory | Link string | Special

record inode =
  i_kind :: kind
  i_perm :: nat
  i_data :: string
  i_mtime :: nat
  i_ctime :: nat
  i_nlink :: nat
  i_uid :: nat
  i_gid :: nat
  i_flags :: nat
  i_xattrs :: "(string \<times> string) list option"
  i_acl :: "bool option"

text \<open>\<open>i_xattrs\<close> and \<open>i_acl\<close> are what the C library answers about extended attributes and access
  lists: \<open>None\<close> when it cannot tell.\<close>

record kern =
  k_names :: "(string, ino) dict"
  k_inodes :: "(ino, inode) dict"
  k_clock :: nat
  k_cwd :: string

text \<open>
  The schedule, the names and inodes that \<open>mkstemp\<close> will choose, a record of the renames done, and
  the platform name, user, group, file mode mask and output streams of this process. The last two
  fields are the local variables \<open>staged\<close> and \<open>admitted\<close> of the cache operation that is running,
  which its \<open>except\<close> and \<open>finally\<close> clauses read.
\<close>

record world =
  w_kern :: kern
  w_events :: "((kern \<Rightarrow> kern) \<times> bool) list"
  w_temps :: "(string \<times> ino) list"
  w_renames :: "(string \<times> ino) list"
  w_platform :: string
  w_euid :: nat
  w_egid :: nat
  w_uid :: nat
  w_gid :: nat
  w_groups :: "nat list"
  w_umask :: nat
  w_stdout :: string
  w_stderr :: string
  w_staged :: "string list"
  w_admitted :: bool

text \<open>A stat result is the inode number with the inode.\<close>

type_synonym stat = "ino \<times> inode"

definition inode_at :: "kern \<Rightarrow> ino \<Rightarrow> inode option" where
  "inode_at k i = dget (k_inodes k) i"

definition st_size :: "stat \<Rightarrow> nat" where
  "st_size st = length (i_data (snd st))"

definition is_reg :: "stat \<Rightarrow> bool" where
  "is_reg st \<longleftrightarrow> i_kind (snd st) = Regular"

definition is_directory :: "stat \<Rightarrow> bool" where
  "is_directory st \<longleftrightarrow> i_kind (snd st) = Directory"

section \<open>Path resolution\<close>

definition components :: "string \<Rightarrow> string list" where
  "components p = filter (\<lambda>c. c \<noteq> [] \<and> c \<noteq> ''.'') (split_on (CHR ''/'') p)"

definition stat_at :: "kern \<Rightarrow> string \<Rightarrow> stat result" where
  "stat_at k p = (case dget (k_names k) p of None \<Rightarrow> Inl FileNotFoundError
     | Some i \<Rightarrow> (case inode_at k i of None \<Rightarrow> Inl FileNotFoundError | Some x \<Rightarrow> Inr (i, x)))"

text \<open>
  Walks from a directory through components, following links, the last one only if asked to. At
  most \<open>n\<close> links are followed. The path of the root directory is the empty text.
\<close>

function walk_names :: "bool \<Rightarrow> kern \<Rightarrow> nat \<Rightarrow> string \<Rightarrow> string list \<Rightarrow> string result" where
  "walk_names fol k n d [] = Inr d"
| "walk_names fol k n d (c # cs) =
     (if c = ''..'' then walk_names fol k n (path_parent d) cs
      else rbind (stat_at k (sub d c)) (\<lambda>st. case i_kind (snd st) of
          Link t \<Rightarrow> if cs = [] \<and> \<not> fol then Inr (sub d c)
            else if n = 0 then Inl (OSError ''Too many levels of symbolic links'')
            else walk_names fol k (n - 1) (if starts_with ''/'' t then [] else d) (components t @ cs)
        | Directory \<Rightarrow> walk_names fol k n (sub d c) cs
        | _ \<Rightarrow> if cs = [] then Inr (sub d c) else Inl (OSError ''Not a directory'')))"
  by pat_completeness auto
termination
  by (relation "measures [\<lambda>(fol, k, n, d, cs). n, \<lambda>(fol, k, n, d, cs). length cs]") auto

definition locate :: "bool \<Rightarrow> kern \<Rightarrow> string \<Rightarrow> string result" where
  "locate fol k p = walk_names fol k 40 (if starts_with ''/'' p then [] else k_cwd k) (components p)"

definition lookup :: "bool \<Rightarrow> kern \<Rightarrow> string \<Rightarrow> stat result" where
  "lookup fol k p = rbind (locate fol k p) (stat_at k)"

text \<open>The place a name is created at: its directory resolved, the last component as it is.\<close>

definition dir_of :: "string \<Rightarrow> string" where
  "dir_of p = (if CHR ''/'' \<in> set p then path_parent p @ ''/'' else ''.'')"

definition place :: "kern \<Rightarrow> string \<Rightarrow> string result" where
  "place k p = (if path_name p \<in> {[], ''.'', ''..''} then Inl FileExistsError
     else rbind (lookup True k (dir_of p)) (\<lambda>st. if \<not> is_directory st then Inl (OSError ''Not a directory'')
     else rbind (locate True k (dir_of p)) (\<lambda>d. Inr (sub d (path_name p)))))"

section \<open>Calls\<close>

text \<open>A call, with what happens before it.\<close>

definition sys :: "(world, 'a) act \<Rightarrow> (world, 'a) act" where
  "sys f w = (case w_events w of [] \<Rightarrow> f w
     | (g, bad) # es \<Rightarrow> (let w1 = w\<lparr>w_kern := g (w_kern w), w_events := es\<rparr> in
         if bad then (Inl (OSError ''call failed''), w1) else f w1))"

definition sys_reads :: "(kern \<Rightarrow> 'a result) \<Rightarrow> (world, 'a) act" where
  "sys_reads f = sys (areads (\<lambda>w. f (w_kern w)))"

definition os_lstat :: "string \<Rightarrow> (world, stat) act" where
  "os_lstat p = sys_reads (\<lambda>k. lookup False k p)"

definition os_stat :: "string \<Rightarrow> (world, stat) act" where
  "os_stat p = sys_reads (\<lambda>k. lookup True k p)"

text \<open>A descriptor is the inode it is open on. Opening does not follow a link at the end of the path.\<close>

definition os_open :: "bool \<Rightarrow> string \<Rightarrow> (world, ino) act" where
  "os_open wr p = sys_reads (\<lambda>k. rbind (lookup False k p) (\<lambda>st. case i_kind (snd st) of
       Link _ \<Rightarrow> Inl (OSError ''Too many levels of symbolic links'')
     | Directory \<Rightarrow> if wr then Inl (OSError ''Is a directory'') else Inr (fst st)
     | _ \<Rightarrow> Inr (fst st)))"

text \<open>Opening a directory, and writing to an output stream.\<close>

definition os_opendir :: "string \<Rightarrow> (world, ino) act" where
  "os_opendir p = sys_reads (\<lambda>k. rbind (lookup True k p) (\<lambda>st. if is_directory st then Inr (fst st) else Inl (OSError ''Not a directory'')))"

definition write_stream :: "bool \<Rightarrow> string \<Rightarrow> (world, unit) act" where
  "write_stream err b = sys (\<lambda>w. (Inr (), if err then w\<lparr>w_stderr := w_stderr w @ b\<rparr> else w\<lparr>w_stdout := w_stdout w @ b\<rparr>))"

definition os_fstat :: "ino \<Rightarrow> (world, stat) act" where
  "os_fstat i = sys_reads (\<lambda>k. case inode_at k i of None \<Rightarrow> Inl (OSError ''Bad file descriptor'') | Some x \<Rightarrow> Inr (i, x))"

text \<open>At most \<open>n\<close> bytes from position \<open>pos\<close>; the empty text at the end of the file.\<close>

definition os_read :: "ino \<Rightarrow> nat \<Rightarrow> nat \<Rightarrow> (world, string) act" where
  "os_read i pos n = sys_reads (\<lambda>k. case inode_at k i of None \<Rightarrow> Inl (OSError ''Bad file descriptor'')
     | Some x \<Rightarrow> if i_kind x = Directory then Inl (OSError ''Is a directory'') else Inr (take n (drop pos (i_data x))))"

text \<open>Changing an inode stamps it with a later time.\<close>

definition touch :: "kern \<Rightarrow> ino \<Rightarrow> (nat \<Rightarrow> inode \<Rightarrow> inode) \<Rightarrow> kern" where
  "touch k i f = (case inode_at k i of None \<Rightarrow> k
     | Some x \<Rightarrow> (let t = Suc (max (k_clock k) (i_ctime x)) in
         k\<lparr>k_inodes := dset i ((f t x)\<lparr>i_kind := i_kind x, i_ctime := t\<rparr>) (k_inodes k), k_clock := t\<rparr>))"

definition sys_touch :: "ino \<Rightarrow> (nat \<Rightarrow> inode \<Rightarrow> inode) \<Rightarrow> (world, unit) act" where
  "sys_touch i f = sys (\<lambda>w. case inode_at (w_kern w) i of None \<Rightarrow> (Inl (OSError ''Bad file descriptor''), w)
     | Some x \<Rightarrow> (Inr (), w\<lparr>w_kern := touch (w_kern w) i f\<rparr>))"

definition os_ftruncate :: "ino \<Rightarrow> (world, unit) act" where
  "os_ftruncate i = sys_touch i (\<lambda>t x. x\<lparr>i_data := [], i_mtime := t\<rparr>)"

definition overwrite :: "nat \<Rightarrow> string \<Rightarrow> string \<Rightarrow> string" where
  "overwrite pos b d = take pos (d @ replicate (pos - length d) (CHR 0x00)) @ b @ drop (pos + length b) d"

definition os_write :: "ino \<Rightarrow> nat \<Rightarrow> string \<Rightarrow> (world, unit) act" where
  "os_write i pos b = sys_touch i (\<lambda>t x. x\<lparr>i_data := overwrite pos b (i_data x), i_mtime := t\<rparr>)"

definition os_fchmod :: "ino \<Rightarrow> nat \<Rightarrow> (world, unit) act" where
  "os_fchmod i m = sys_touch i (\<lambda>t x. x\<lparr>i_perm := m\<rparr>)"

text \<open>Removing a name takes a link off its inode.\<close>

definition unlinked :: "kern \<Rightarrow> ino \<Rightarrow> kern" where
  "unlinked k i = touch k i (\<lambda>t x. x\<lparr>i_nlink := i_nlink x - 1\<rparr>)"

definition drop_name :: "kern \<Rightarrow> string \<Rightarrow> kern" where
  "drop_name k p = (case dget (k_names k) p of None \<Rightarrow> k
     | Some i \<Rightarrow> unlinked (k\<lparr>k_names := ddel p (k_names k)\<rparr>) i)"

definition bind_name :: "kern \<Rightarrow> string \<Rightarrow> ino \<Rightarrow> kern" where
  "bind_name k p i = k\<lparr>k_names := dset p i (k_names k)\<rparr>"

text \<open>\<open>unlink(missing_ok=True)\<close>.\<close>

definition os_unlink :: "string \<Rightarrow> (world, unit) act" where
  "os_unlink p = sys (\<lambda>w. let k = w_kern w in case rbind (locate False k p) (\<lambda>q. rmap (Pair q) (stat_at k q)) of
       Inl e \<Rightarrow> (if e = FileNotFoundError then Inr () else Inl e, w)
     | Inr (q, st) \<Rightarrow> if is_directory st then (Inl (OSError ''Is a directory''), w) else (Inr (), w\<lparr>w_kern := drop_name k q\<rparr>))"

text \<open>\<open>os.replace\<close> of a file: the destination's name is bound to the source's inode.\<close>

definition os_rename :: "string \<Rightarrow> string \<Rightarrow> (world, unit) act" where
  "os_rename src dst = sys (\<lambda>w. let k = w_kern w in
     case rbind (locate False k src) (\<lambda>a. rbind (stat_at k a) (\<lambda>st. rbind (place k dst) (\<lambda>b. Inr (a, st, b)))) of
       Inl e \<Rightarrow> (Inl e, w)
     | Inr (a, st, b) \<Rightarrow>
         if is_directory st then (Inl (OSError ''not a file''), w)
         else (case stat_at k b of
             Inl _ \<Rightarrow> (Inr (), w\<lparr>w_kern := bind_name (k\<lparr>k_names := ddel a (k_names k)\<rparr>) b (fst st), w_renames := w_renames w @ [(dst, fst st)]\<rparr>)
           | Inr old \<Rightarrow>
               if is_directory old then (Inl (OSError ''Is a directory''), w)
               else if fst old = fst st then (Inr (), w\<lparr>w_renames := w_renames w @ [(dst, fst st)]\<rparr>)
               else (Inr (), w\<lparr>w_kern := bind_name (drop_name (k\<lparr>k_names := ddel a (k_names k)\<rparr>) b) b (fst st),
                               w_renames := w_renames w @ [(dst, fst st)]\<rparr>)))"

definition mask_off :: "nat \<Rightarrow> nat \<Rightarrow> nat" where
  "mask_off m u = m - (m AND u)"

definition new_inode :: "world \<Rightarrow> stat \<Rightarrow> kind \<Rightarrow> nat \<Rightarrow> nat \<Rightarrow> inode" where
  "new_inode w parent kd m t = \<lparr>i_kind = kd, i_perm = m, i_data = [], i_mtime = t, i_ctime = t, i_nlink = 1, i_uid = w_euid w,
     i_gid = (if i_perm (snd parent) AND 1024 \<noteq> 0 then i_gid (snd parent) else w_egid w), i_flags = 0, i_xattrs = Some [], i_acl = Some False\<rparr>"

text \<open>
  A new name with a new inode. The number the system picks is not in use, and neither is the
  name: a call for which the supply has no such pair fails.
\<close>

definition create_at :: "kern \<Rightarrow> string \<Rightarrow> ino \<Rightarrow> inode \<Rightarrow> kern" where
  "create_at k p i x = k\<lparr>k_names := dset p i (k_names k), k_inodes := dset i x (k_inodes k), k_clock := i_ctime x\<rparr>"

definition sys_create :: "kind \<Rightarrow> nat \<Rightarrow> (string \<Rightarrow> string) \<Rightarrow> (world, ino \<times> string) act" where
  "sys_create kd m path = sys (\<lambda>w. let k = w_kern w in case w_temps w of
       [] \<Rightarrow> (Inl (OSError ''No space left on device''), w)
     | (suffix, i) # ts \<Rightarrow> (let p = path suffix in
         case rbind (place k p) (\<lambda>q. rbind (lookup True k (dir_of p)) (\<lambda>st.
             if dget (k_names k) q \<noteq> None \<or> inode_at k i \<noteq> None then Inl FileExistsError else Inr (q, st))) of
           Inl e \<Rightarrow> (Inl e, w)
         | Inr (q, st) \<Rightarrow> (Inr (i, p), w\<lparr>w_kern := create_at k q i (new_inode w st kd m (Suc (k_clock k))), w_temps := ts\<rparr>)))"

text \<open>\<open>tempfile.mkstemp(prefix=prefix, dir=dir)\<close>: a fresh regular file with permissions 0600.\<close>

definition mkstemp :: "string \<Rightarrow> string \<Rightarrow> (world, ino \<times> string) act" where
  "mkstemp dir prefix = sys_create Regular 384 (\<lambda>suffix. dir @ ''/'' @ prefix @ suffix)"

text \<open>\<open>os.mkdir(p)\<close> with mode 0777 under the mask, and \<open>Path.mkdir(parents=True, exist_ok=True)\<close>.\<close>

definition os_mkdir :: "string \<Rightarrow> (world, unit) act" where
  "os_mkdir p = abind (areads (\<lambda>w. Inr (w_umask w))) (\<lambda>u. aseq (sys_create Directory (mask_off 511 u) (\<lambda>_. p)) (aret ()))"

definition acatch :: "('w, 'a) act \<Rightarrow> (py_exn \<Rightarrow> ('w, 'a) act) \<Rightarrow> ('w, 'a) act" where
  "acatch m h w = (case m w of (Inl e, w1) \<Rightarrow> h e w1 | (Inr x, w1) \<Rightarrow> (Inr x, w1))"

text \<open>\<open>try: m finally: k\<close>, where \<open>k\<close> may raise in its turn.\<close>

definition afin :: "('w, 'a) act \<Rightarrow> ('w, unit) act \<Rightarrow> ('w, 'a) act" where
  "afin m k w = (case m w of (r, w1) \<Rightarrow> (case k w1 of (Inl e, w2) \<Rightarrow> (Inl e, w2) | (Inr _, w2) \<Rightarrow> (r, w2)))"

definition path_is_dir :: "string \<Rightarrow> (world, bool) act" where
  "path_is_dir p = acatch (abind (os_stat p) (\<lambda>st. aret (is_directory st))) (\<lambda>e. aret False)"

definition mkdir_exist_ok :: "string \<Rightarrow> (world, unit) act \<Rightarrow> (world, unit) act" where
  "mkdir_exist_ok p missing = acatch (os_mkdir p) (\<lambda>e. if e = FileNotFoundError then missing
     else if is_os_error e then abind (path_is_dir p) (\<lambda>d. if d then aret () else araise e) else araise e)"

function make_dirs :: "string \<Rightarrow> (world, unit) act" where
  "make_dirs p = mkdir_exist_ok p (if path_parent p = [] then araise FileNotFoundError
     else aseq (make_dirs (path_parent p)) (mkdir_exist_ok p (araise FileNotFoundError)))"
  by pat_completeness auto
termination
proof (relation "measure length", simp)
  fix p assume "path_parent p \<noteq> []"
  then have "drop 1 (dropWhile (\<lambda>c. c \<noteq> CHR ''/'') (rev p)) \<noteq> []" by (simp add: path_parent_def)
  moreover have "length (dropWhile (\<lambda>c. c \<noteq> CHR ''/'') (rev p)) \<le> length p" using length_dropWhile_le [of _ "rev p"] by simp
  ultimately show "(path_parent p, p) \<in> measure length" by (auto simp: path_parent_def)
qed

declare make_dirs.simps [simp del]

section \<open>Rely and guarantee\<close>

text \<open>
  An action stays within a relation when, in every schedule whose other processes obey the
  relation, the state it leaves is related to the state it found. The schedule it leaves is
  always a tail of the one it found.
\<close>

definition others_obey :: "(kern \<Rightarrow> kern \<Rightarrow> bool) \<Rightarrow> world \<Rightarrow> bool" where
  "others_obey R w \<longleftrightarrow> (\<forall>e \<in> set (w_events w). \<forall>k. R k (fst e k))"

text \<open>The schedule and the supply of a later state are tails of those before.\<close>

definition tail_of :: "world \<Rightarrow> world \<Rightarrow> bool" where
  "tail_of w w1 \<longleftrightarrow> (\<exists>n. w_events w1 = drop n (w_events w)) \<and> (\<exists>n. w_temps w1 = drop n (w_temps w))"

lemma tail_refl [simp]: "tail_of w w"
  unfolding tail_of_def by (metis drop0)

lemma tail_same [simp]: "w_events w1 = w_events w \<Longrightarrow> w_temps w1 = w_temps w \<Longrightarrow> tail_of w w1"
  unfolding tail_of_def by (metis drop0)

lemma tail_supply: "w_temps w = t # ts \<Longrightarrow> w_events w1 = w_events w \<Longrightarrow> w_temps w1 = ts \<Longrightarrow> tail_of w w1"
  unfolding tail_of_def by (metis drop0 drop_Suc_Cons One_nat_def)

lemma tail_trans: "tail_of a b \<Longrightarrow> tail_of b c \<Longrightarrow> tail_of a c"
  unfolding tail_of_def by (metis drop_drop)

lemma tail_events: "tail_of w w1 \<Longrightarrow> length (w_events w1) \<le> length (w_events w)"
  by (auto simp: tail_of_def)

lemma tail_temps: "tail_of w w1 \<Longrightarrow> set (w_temps w1) \<subseteq> set (w_temps w)"
  by (auto simp: tail_of_def dest: in_set_dropD)

lemma tail_obey: "tail_of w w1 \<Longrightarrow> others_obey Q w \<Longrightarrow> others_obey Q w1"
  unfolding tail_of_def others_obey_def by (metis in_set_dropD)

definition within :: "(kern \<Rightarrow> kern \<Rightarrow> bool) \<Rightarrow> (world, 'a) act \<Rightarrow> bool" where
  "within R m \<longleftrightarrow> (\<forall>w r w1. m w = (r, w1) \<longrightarrow> tail_of w w1 \<and> (others_obey R w \<longrightarrow> R (w_kern w) (w_kern w1)))"

lemma withinI:
  assumes "\<And>w r w1. m w = (r, w1) \<Longrightarrow> tail_of w w1"
    and "\<And>w r w1. m w = (r, w1) \<Longrightarrow> others_obey R w \<Longrightarrow> R (w_kern w) (w_kern w1)"
  shows "within R m"
  using assms unfolding within_def by blast

lemma within_tail: "within R m \<Longrightarrow> m w = (r, w1) \<Longrightarrow> tail_of w w1"
  unfolding within_def by blast

lemma within_obey: "within R m \<Longrightarrow> m w = (r, w1) \<Longrightarrow> others_obey Q w \<Longrightarrow> others_obey Q w1"
  using tail_obey within_tail by blast

lemma within_rel: "within R m \<Longrightarrow> m w = (r, w1) \<Longrightarrow> others_obey R w \<Longrightarrow> R (w_kern w) (w_kern w1)"
  unfolding within_def by blast

locale rely =
  fixes R :: "kern \<Rightarrow> kern \<Rightarrow> bool"
  assumes refl: "R k k"
    and trans: "R a b \<Longrightarrow> R b c \<Longrightarrow> R a c"
begin

lemma within_id:
  assumes "\<And>w r w1. m w = (r, w1) \<Longrightarrow> tail_of w w1 \<and> R (w_kern w) (w_kern w1)"
  shows "within R m"
  using assms unfolding within_def by blast

lemma within_aret: "within R (aret x)"
  by (rule within_id) (auto simp: aret_def refl)

lemma within_araise: "within R (araise e)"
  by (rule within_id) (auto simp: araise_def refl)

lemma within_areads: "within R (areads f)"
  by (rule within_id) (auto simp: areads_def refl)

text \<open>The second action matters only on results the first can give.\<close>

lemma within_abind_res:
  assumes m: "within R m" and P: "\<And>w x w1. m w = (Inr x, w1) \<Longrightarrow> P x" and f: "\<And>x. P x \<Longrightarrow> within R (f x)"
  shows "within R (abind m f)"
proof (rule withinI)
  fix w r w1 assume "abind m f w = (r, w1)"
  then obtain s w0 where w0: "m w = (s, w0)" and c: "w0 = w1 \<or> (\<exists>x. s = Inr x \<and> f x w0 = (r, w1))"
    by (auto simp: abind_def split: prod.splits sum.splits)
  note t = within_tail [OF m w0]
  have f': "s = Inr x \<Longrightarrow> within R (f x)" for x using f P w0 by blast
  show "tail_of w w1" using c t tail_trans [OF t] within_tail [OF f'] by blast
  assume o: "others_obey R w"
  note o1 = within_obey [OF m w0 o] and r = within_rel [OF m w0 o]
  from c show "R (w_kern w) (w_kern w1)" using r trans [OF r] within_rel [OF f' _ o1] by blast
qed

lemma within_abind: "within R m \<Longrightarrow> (\<And>x. within R (f x)) \<Longrightarrow> within R (abind m f)"
  by (rule within_abind_res [where P = "\<lambda>_. True"]) auto

lemma within_aseq: "within R m \<Longrightarrow> within R k \<Longrightarrow> within R (aseq m k)"
  unfolding aseq_def by (rule within_abind)

lemma within_acatch:
  assumes m: "within R m" and h: "\<And>e. within R (h e)"
  shows "within R (acatch m h)"
proof (rule withinI)
  fix w r w1 assume "acatch m h w = (r, w1)"
  then obtain s w0 where w0: "m w = (s, w0)" and c: "w0 = w1 \<or> (\<exists>e. s = Inl e \<and> h e w0 = (r, w1))"
    by (auto simp: acatch_def split: prod.splits sum.splits)
  note t = within_tail [OF m w0]
  show "tail_of w w1" using c t tail_trans [OF t] within_tail [OF h] by blast
  assume o: "others_obey R w"
  note o1 = within_obey [OF m w0 o] and r = within_rel [OF m w0 o]
  from c show "R (w_kern w) (w_kern w1)" using r trans [OF r] within_rel [OF h _ o1] by blast
qed

lemma within_afin:
  assumes m: "within R m" and k: "within R k"
  shows "within R (afin m k)"
proof (rule withinI)
  fix w r w1 assume "afin m k w = (r, w1)"
  then obtain s w0 t where w0: "m w = (s, w0)" and c: "k w0 = (t, w1)"
    by (auto simp: afin_def split: prod.splits sum.splits)
  show "tail_of w w1" using tail_trans [OF within_tail [OF m w0] within_tail [OF k c]] .
  assume o: "others_obey R w"
  show "R (w_kern w) (w_kern w1)"
    using trans [OF within_rel [OF m w0 o] within_rel [OF k c within_obey [OF m w0 o]]] .
qed

text \<open>A call stays within the relation when its own effect does.\<close>

lemma within_sys:
  assumes f: "\<And>w r w1. f w = (r, w1) \<Longrightarrow> tail_of w w1 \<and> R (w_kern w) (w_kern w1)"
  shows "within R (sys f)"
proof (rule withinI)
  fix w r w1 assume a: "sys f w = (r, w1)"
  let ?w = "\<lambda>e es. w\<lparr>w_kern := fst e (w_kern w), w_events := es\<rparr>"
  have t: "w_events w = e # es \<Longrightarrow> tail_of w (?w e es)" for e es
    unfolding tail_of_def by (intro conjI exI [of _ 1] exI [of _ 0]) auto
  show "tail_of w w1"
    using a f [of w r w1] f [of "?w e es" r w1 for e es] tail_trans [OF t] t
    by (auto simp: sys_def Let_def split: list.splits prod.splits if_splits)
  assume "others_obey R w"
  then have "w_events w = e # es \<Longrightarrow> R (w_kern w) (fst e (w_kern w))" for e es by (simp add: others_obey_def)
  then show "R (w_kern w) (w_kern w1)"
    using a f [of w r w1] f [of "?w e es" r w1 for e es] trans
    by (auto simp: sys_def Let_def split: list.splits prod.splits if_splits)
qed

lemma within_sys_reads: "within R (sys_reads f)"
  unfolding sys_reads_def by (rule within_sys) (auto simp: areads_def refl)

lemma within_aeach: "(\<And>x. within R (f x)) \<Longrightarrow> within R (aeach f xs)"
  by (induction xs) (simp_all add: within_aret within_abind)

lemma within_aguard: "within R (aguard b e)"
  by (simp add: aguard_def within_aret within_araise)

lemma within_calls: "within R (os_lstat p)" "within R (os_stat p)" "within R (os_open b p)" "within R (os_fstat i)" "within R (os_read i n m)"
    "within R (os_opendir p)"
  by (simp_all add: os_lstat_def os_stat_def os_open_def os_fstat_def os_read_def os_opendir_def within_sys_reads)

lemma within_write_stream: "within R (write_stream b t)"
  unfolding write_stream_def by (rule within_sys) (auto simp: refl)

lemma within_path_is_dir: "within R (path_is_dir p)"
  by (simp add: path_is_dir_def within_acatch within_abind within_calls within_aret)

lemma within_guarded: "(b \<Longrightarrow> within R k) \<Longrightarrow> within R (aseq (aguard b e) k)"
proof (cases b)
  case False
  then have "aseq (aguard b e) k = araise e" by (intro ext) (simp add: aguard_def aseq_def abind_def araise_def)
  then show ?thesis by (simp add: within_araise)
qed (simp add: within_aseq within_aguard)

lemma within_case_prod: "(\<And>a b. within R (f a b)) \<Longrightarrow> within R (case x of (a, b) \<Rightarrow> f a b)"
  by (cases x) simp

lemma within_if: "within R m \<Longrightarrow> within R k \<Longrightarrow> within R (if b then m else k)"
  by simp

end

text \<open>
  Inodes persist, keep their type, and every change to one gives it a later change time.
\<close>

definition evolves :: "kern \<Rightarrow> kern \<Rightarrow> bool" where
  "evolves k l \<longleftrightarrow> (\<forall>i x. inode_at k i = Some x \<longrightarrow>
     (\<exists>y. inode_at l i = Some y \<and> i_kind y = i_kind x \<and> (y = x \<or> i_ctime x < i_ctime y)))"

lemma evolvesD: "evolves k l \<Longrightarrow> inode_at k i = Some x \<Longrightarrow> \<exists>y. inode_at l i = Some y \<and> i_kind y = i_kind x \<and> (y = x \<or> i_ctime x < i_ctime y)"
  by (simp add: evolves_def)

lemma evolves_refl: "evolves k k"
  by (simp add: evolves_def)

lemma evolves_trans:
  assumes "evolves a b" "evolves b c"
  shows "evolves a c"
  unfolding evolves_def
proof (intro allI impI)
  fix i x assume "inode_at a i = Some x"
  then obtain y where y: "inode_at b i = Some y" "i_kind y = i_kind x" "y = x \<or> i_ctime x < i_ctime y"
    using evolvesD [OF assms(1)] by blast
  obtain z where "inode_at c i = Some z" "i_kind z = i_kind y" "z = y \<or> i_ctime y < i_ctime z"
    using evolvesD [OF assms(2) y(1)] by blast
  with y show "\<exists>z. inode_at c i = Some z \<and> i_kind z = i_kind x \<and> (z = x \<or> i_ctime x < i_ctime z)" by auto
qed

interpretation evo: rely evolves
  by unfold_locales (rule evolves_refl, erule (1) evolves_trans)

text \<open>With equal change times at both ends, the inode was the same all along.\<close>

lemma evolves_same:
  assumes "evolves k l" "evolves l m" "inode_at k i = Some x" "inode_at m i = Some z" "i_ctime z = i_ctime x"
  shows "inode_at l i = Some x \<and> z = x"
proof -
  obtain y where y: "inode_at l i = Some y" "y = x \<or> i_ctime x < i_ctime y" using evolvesD [OF assms(1,3)] by blast
  obtain z' where "inode_at m i = Some z'" "z' = y \<or> i_ctime y < i_ctime z'" using evolvesD [OF assms(2) y(1)] by blast
  then show ?thesis using y assms(4,5) by auto
qed

text \<open>In addition, the bytes of some inodes are left alone.\<close>

definition spares :: "ino set \<Rightarrow> kern \<Rightarrow> kern \<Rightarrow> bool" where
  "spares I k l \<longleftrightarrow> evolves k l \<and> (\<forall>i \<in> I. map_option i_data (inode_at k i) \<noteq> None \<longrightarrow>
     map_option i_data (inode_at l i) = map_option i_data (inode_at k i))"

lemma spares_evolves: "spares I k l \<Longrightarrow> evolves k l"
  by (simp add: spares_def)

lemma spares_trans: "spares I a b \<Longrightarrow> spares I b c \<Longrightarrow> spares I a c"
  unfolding spares_def by (metis evolves_trans)

interpretation spa: rely "spares I"
  by unfold_locales (simp add: spares_def evolves_refl, erule (1) spares_trans)

lemma obey_evolves: "others_obey (spares I) w \<Longrightarrow> others_obey evolves w"
  by (auto simp: others_obey_def spares_def)

section \<open>What the calls guarantee\<close>

lemma inode_at_names [simp]: "inode_at (k\<lparr>k_names := n\<rparr>) i = inode_at k i"
  by (simp add: inode_at_def)

lemma inode_at_bind [simp]: "inode_at (bind_name k p j) i = inode_at k i"
  by (simp add: bind_name_def)

lemma inode_at_touch:
  "inode_at (touch k i f) j = (if j = i then map_option (\<lambda>x. let t = Suc (max (k_clock k) (i_ctime x)) in
     (f t x)\<lparr>i_kind := i_kind x, i_ctime := t\<rparr>) (inode_at k i) else inode_at k j)"
  by (auto simp: touch_def inode_at_def Let_def split: option.splits)

lemma evolves_touch: "evolves k (touch k i f)"
  by (auto simp: evolves_def inode_at_touch Let_def)

lemma spares_touch: "i \<notin> I \<Longrightarrow> spares I k (touch k i f)"
  by (auto simp: spares_def evolves_touch inode_at_touch)

lemma spares_touch_data: "(\<And>t x. i_data (f t x) = i_data x) \<Longrightarrow> spares I k (touch k i f)"
  by (auto simp: spares_def evolves_touch inode_at_touch Let_def)

lemma evolves_cong: "(\<And>i. inode_at l i = inode_at l' i) \<Longrightarrow> evolves k l \<longleftrightarrow> evolves k l'"
  by (simp add: evolves_def)

lemma spares_cong: "(\<And>i. inode_at l i = inode_at l' i) \<Longrightarrow> spares I k l \<longleftrightarrow> spares I k l'"
  by (simp add: spares_def evolves_cong [of l l'])

lemma spares_names: "spares I k (k\<lparr>k_names := n\<rparr>)"
  using spares_cong [of "k\<lparr>k_names := n\<rparr>" k I k] spa.refl by simp

lemma spares_bind: "spares I k l \<Longrightarrow> spares I k (bind_name l p i)"
  using spares_cong [of "bind_name l p i" l I k] by simp

lemma spares_drop: "spares I k (drop_name k p)"
proof (cases "dget (k_names k) p")
  case (Some i)
  have "spares I (k\<lparr>k_names := ddel p (k_names k)\<rparr>) (unlinked (k\<lparr>k_names := ddel p (k_names k)\<rparr>) i)"
    unfolding unlinked_def by (rule spares_touch_data) simp
  from spa.trans [OF spares_names this] Some show ?thesis by (simp add: drop_name_def)
qed (simp add: drop_name_def spa.refl)

lemma spares_create: "inode_at k i = None \<Longrightarrow> spares I k (create_at k p i x)"
  by (auto simp: spares_def evolves_def create_at_def inode_at_def Let_def)

lemma os_write_spares: "i \<notin> I \<Longrightarrow> within (spares I) (os_write i pos b)" "i \<notin> I \<Longrightarrow> within (spares I) (os_ftruncate i)"
  unfolding os_write_def os_ftruncate_def sys_touch_def
  by (rule spa.within_sys; auto simp: spa.refl spares_touch split: option.splits)+

lemma os_fchmod_spares: "within (spares I) (os_fchmod i m)"
  unfolding os_fchmod_def sys_touch_def
  by (rule spa.within_sys) (auto simp: spa.refl intro!: spares_touch_data split: option.splits)

lemma os_unlink_spares: "within (spares I) (os_unlink p)"
  unfolding os_unlink_def
  by (rule spa.within_sys) (auto simp: spa.refl spares_drop Let_def split: sum.splits prod.splits if_splits)

lemma os_rename_spares: "within (spares I) (os_rename a b)"
proof -
  have "spares I k (bind_name (k\<lparr>k_names := n\<rparr>) q i)" "spares I k (bind_name (drop_name (k\<lparr>k_names := n\<rparr>) q') q i)" for k n q q' i
    using spares_bind [OF spares_names] spares_bind [OF spa.trans [OF spares_names spares_drop]] by blast+
  then show ?thesis unfolding os_rename_def
    by (intro spa.within_sys) (auto simp: spa.refl Let_def split: sum.splits prod.splits if_splits)
qed

lemma sys_create_spares: "within (spares I) (sys_create kd m f)"
  unfolding sys_create_def
  by (rule spa.within_sys)
    (auto simp: spa.refl Let_def rbind_Inr_conv intro: spares_create tail_supply split: list.splits sum.splits prod.splits if_splits)

lemma mkstemp_spares: "within (spares I) (mkstemp d p)"
  by (simp add: mkstemp_def sys_create_spares)

lemma os_mkdir_spares: "within (spares I) (os_mkdir p)"
  by (simp add: os_mkdir_def spa.within_abind spa.within_aseq spa.within_areads spa.within_aret sys_create_spares)

lemma mkdir_exist_ok_spares: "within (spares I) m \<Longrightarrow> within (spares I) (mkdir_exist_ok p m)"
  by (auto simp: mkdir_exist_ok_def intro!: spa.within_acatch spa.within_abind os_mkdir_spares spa.within_path_is_dir
      spa.within_aret spa.within_araise)

lemma make_dirs_spares: "within (spares I) (make_dirs p)"
proof (induction p rule: make_dirs.induct)
  case (1 p)
  then show ?case
    by (subst make_dirs.simps)
      (auto intro!: mkdir_exist_ok_spares spa.within_aseq spa.within_araise)
qed

text \<open>The rules by which an action is shown to stay within a relation.\<close>

lemmas within_rules = spa.within_aret spa.within_araise spa.within_areads spa.within_abind spa.within_aseq spa.within_acatch spa.within_afin spa.within_aeach
  spa.within_aguard spa.within_sys_reads spa.within_case_prod spa.within_if
  spa.within_calls spa.within_write_stream spa.within_path_is_dir os_write_spares os_fchmod_spares os_unlink_spares os_rename_spares mkstemp_spares
  make_dirs_spares

lemma within_evolves: "within (spares {}) m \<Longrightarrow> within evolves m"
proof -
  have "spares {} = evolves" by (intro ext) (simp add: spares_def)
  then show "within (spares {}) m \<Longrightarrow> within evolves m" by simp
qed

section \<open>What the calls observe\<close>

lemma sys_reads_Inr: "sys_reads f w = (Inr y, w1) \<Longrightarrow> f (w_kern w1) = Inr y"
  by (auto simp: sys_reads_def sys_def areads_def Let_def split: list.splits prod.splits if_splits)

lemma sys_reads_quiet: "w_events w = [] \<Longrightarrow> sys_reads f w = (f (w_kern w), w)"
  by (simp add: sys_reads_def sys_def areads_def)

lemma stat_at_Inr: "stat_at k p = Inr st \<longleftrightarrow> dget (k_names k) p = Some (fst st) \<and> inode_at k (fst st) = Some (snd st)"
  by (cases st) (auto simp: stat_at_def split: option.splits)

lemma lookup_inode: "lookup b k p = Inr st \<Longrightarrow> inode_at k (fst st) = Some (snd st)"
  by (auto simp: lookup_def stat_at_Inr)

lemma os_lstat_Inr: "os_lstat p w = (Inr st, w1) \<Longrightarrow> lookup False (w_kern w1) p = Inr st"
  unfolding os_lstat_def by (rule sys_reads_Inr)

lemma os_fstat_Inr: "os_fstat i w = (Inr st, w1) \<Longrightarrow> fst st = i \<and> inode_at (w_kern w1) i = Some (snd st)"
  unfolding os_fstat_def by (drule sys_reads_Inr) (auto split: option.splits)

lemma os_read_Inr: "os_read i pos n w = (Inr b, w1) \<Longrightarrow> \<exists>x. inode_at (w_kern w1) i = Some x \<and> b = take n (drop pos (i_data x))"
  unfolding os_read_def by (drule sys_reads_Inr) (auto split: option.splits if_splits)

lemma sys_touch_Inr:
  assumes "sys_touch i f w = (Inr u, w1)"
  shows "\<exists>k x. (k = w_kern w \<or> (\<exists>e \<in> set (w_events w). k = fst e (w_kern w))) \<and> inode_at k i = Some x \<and> w_kern w1 = touch k i f"
  using assms by (fastforce simp: sys_touch_def sys_def Let_def split: list.splits prod.splits if_splits option.splits)

text \<open>A change this process makes to an inode whose bytes the others spare.\<close>

lemma sys_touch_spared:
  assumes t: "sys_touch i f w = (Inr u, w1)" and o: "others_obey (spares I) w" and i: "i \<in> I" and x: "inode_at (w_kern w) i = Some x"
  shows "\<exists>x1 t. i_data x1 = i_data x \<and> inode_at (w_kern w1) i = Some ((f t x1)\<lparr>i_kind := i_kind x, i_ctime := t\<rparr>) \<and> i_ctime x < t"
proof -
  obtain k z where k: "k = w_kern w \<or> (\<exists>e \<in> set (w_events w). k = fst e (w_kern w))" "w_kern w1 = touch k i f"
    using sys_touch_Inr [OF t] by blast
  then have s: "spares I (w_kern w) k" using o spa.refl by (auto simp: others_obey_def)
  then obtain y where y: "inode_at k i = Some y" "i_kind y = i_kind x" "y = x \<or> i_ctime x < i_ctime y"
    using evolvesD [OF spares_evolves x] by blast
  moreover have "i_data y = i_data x" using s i x y(1) by (auto simp: spares_def)
  ultimately show ?thesis unfolding k(2) inode_at_touch by (intro exI [of _ y]) (auto simp: Let_def)
qed

end
