(* ===== verification/ObjFile.thy ===== *)
theory ObjFile
  imports Kernel PyJson "HOL-Library.Code_Target_Nat"
begin

text \<open>
  The file primitives of the object cache, \<open>scripts/stage1_object_cache.py\<close>: opening, reading,
  hashing, copying, writing and changing the mode of a file while other processes may replace
  or change it. Closing a descriptor has no effect here. The digest is a parameter \<open>sha\<close>.
\<close>

section \<open>Identities\<close>

type_synonym identity = "ino \<times> kind \<times> nat \<times> nat \<times> nat \<times> nat"

definition file_identity :: "stat \<Rightarrow> identity" where
  "file_identity st = (fst st, i_kind (snd st), i_perm (snd st), st_size st, i_mtime (snd st), i_ctime (snd st))"

definition inode_identity :: "stat \<Rightarrow> ino \<times> kind \<times> nat" where
  "inode_identity st = (fst st, i_kind (snd st), i_perm (snd st))"

section \<open>Opening and reading\<close>

definition open_regular :: "bool \<Rightarrow> string \<Rightarrow> (world, ino \<times> stat) act" where
  "open_regular wr p =
     abind (os_open wr p) (\<lambda>i.
     abind (os_fstat i) (\<lambda>before.
     aseq (aguard (is_reg before) (ValueError ''cache input is not a regular file''))
     (abind (os_lstat p) (\<lambda>current.
     aseq (aguard (file_identity before = file_identity current) (OSError ''cache input changed while it was opened''))
     (aret (i, before))))))"

definition CHUNK :: nat where
  "CHUNK = 1048576"

definition request :: "nat option \<Rightarrow> string \<Rightarrow> nat" where
  "request maximum data = (case maximum of None \<Rightarrow> CHUNK | Some m \<Rightarrow> min CHUNK (m + 1 - length data))"

definition over :: "nat option \<Rightarrow> string \<Rightarrow> bool" where
  "over maximum data = (case maximum of None \<Rightarrow> False | Some m \<Rightarrow> m < length data)"

text \<open>The size of an open file, and what a call leaves of the measure of the loops.\<close>

definition fd_size :: "ino \<Rightarrow> world \<Rightarrow> nat" where
  "fd_size i w = (case inode_at (w_kern w) i of None \<Rightarrow> 0 | Some x \<Rightarrow> length (i_data x))"

lemma os_read_progress:
  assumes "os_read i pos n w = (Inr b, w1)" "b \<noteq> []"
  shows "length (w_events w1) < length (w_events w) \<or> w1 = w \<and> pos + length b \<le> fd_size i w"
  using assms
  by (auto simp: os_read_def sys_reads_def sys_def areads_def Let_def fd_size_def split: list.splits prod.splits if_splits option.splits)

function read_loop :: "nat option \<Rightarrow> ino \<Rightarrow> string \<Rightarrow> (world, string) act" where
  "read_loop maximum i data w =
     (if request maximum data = 0 then (Inl (ValueError ''cache input exceeds its size limit''), w)
      else (case os_read i (length data) (request maximum data) w of
          (Inl e, w1) \<Rightarrow> (Inl e, w1)
        | (Inr chunk, w1) \<Rightarrow>
            if chunk = [] then (Inr data, w1)
            else if over maximum (data @ chunk) then (Inl (ValueError ''cache input exceeds its size limit''), w1)
            else read_loop maximum i (data @ chunk) w1))"
  by pat_completeness auto
termination
proof (relation "measures [\<lambda>(m, i, d, w). length (w_events w), \<lambda>(m, i, d, w). fd_size i w - length d]", simp)
  fix m i data w x w1 chunk
  assume "(x, w1) = os_read i (length data) (request m data) w" "x = Inr chunk" "chunk \<noteq> []"
  then have "os_read i (length data) (request m data) w = (Inr chunk, w1)" "chunk \<noteq> []" by simp_all
  from os_read_progress [OF this] this(2)
  show "((m, i, data @ chunk, w1), (m, i, data, w)) \<in> measures [\<lambda>(m, i, d, w). length (w_events w), \<lambda>(m, i, d, w). fd_size i w - length d]"
    by (cases chunk) auto
qed

declare read_loop.simps [simp del]

definition stable_after :: "string \<Rightarrow> ino \<Rightarrow> stat \<Rightarrow> string \<Rightarrow> (world, stat) act" where
  "stable_after p i before msg =
     abind (os_fstat i) (\<lambda>after.
     abind (os_lstat p) (\<lambda>current.
     aseq (aguard (file_identity before = file_identity after \<and> file_identity after = file_identity current) (OSError msg))
     (aret after)))"

definition read_regular_file :: "string \<Rightarrow> nat option \<Rightarrow> (ino \<times> kind \<times> nat) option \<Rightarrow> (world, string) act" where
  "read_regular_file p maximum expected =
     abind (open_regular False p) (\<lambda>(i, before).
     aseq (aguard (expected = None \<or> expected = Some (inode_identity before)) (OSError ''cache staging file was replaced before it was read''))
     (aseq (aguard (\<forall>m \<in> set_option maximum. st_size before \<le> m) (ValueError ''cache input exceeds its size limit''))
     (abind (read_loop maximum i []) (\<lambda>data.
     abind (stable_after p i before ''cache input changed while it was read'') (\<lambda>after.
     aseq (aguard (length data = st_size after) (OSError ''cache input size changed while it was read''))
     (aret data))))))"

section \<open>Fingerprints\<close>

definition stat_fields :: "stat \<Rightarrow> (string \<times> json) list" where
  "stat_fields st = [(''device'', JInt (int (st_dev (fst st)))), (''inode'', JInt (int (st_ino (fst st)))),
     (''mtime_ns'', JInt (int (i_mtime (snd st)))), (''ctime_ns'', JInt (int (i_ctime (snd st)))), (''size'', JInt (int (st_size st)))]"

definition fingerprint_value :: "(string \<Rightarrow> string) \<Rightarrow> stat \<Rightarrow> string \<Rightarrow> (string \<times> json) list" where
  "fingerprint_value sha st data = stat_fields st @ [(''sha256'', JStr (sha data))]"

definition fingerprint :: "(string \<Rightarrow> string) \<Rightarrow> string \<Rightarrow> (world, (string \<times> json) list) act" where
  "fingerprint sha p =
     abind (open_regular False p) (\<lambda>(i, before).
     abind (read_loop None i []) (\<lambda>data.
     abind (stable_after p i before ''dependency changed while it was being hashed'') (\<lambda>after.
     aseq (aguard (length data = st_size after) (OSError ''dependency changed while it was being hashed''))
     (aret (fingerprint_value sha after data)))))"

definition unchanged_fingerprint :: "string \<Rightarrow> json option \<Rightarrow> (world, (string \<times> json) list option) act" where
  "unchanged_fingerprint p previous = (case previous of
     Some (JObj prev) \<Rightarrow> (case dget prev ''sha256'' of
         Some (JStr digest) \<Rightarrow>
           if \<not> is_hex64 digest then aret None
           else abind (open_regular False p) (\<lambda>(i, info).
             abind (stable_after p i info ''dependency changed while its cached identity was checked'') (\<lambda>after.
             aret (if list_all (\<lambda>(k, v). \<exists>u \<in> set_option (dget prev k). py_eq u v) (stat_fields info)
               then Some (stat_fields info @ [(''sha256'', JStr digest)]) else None)))
       | _ \<Rightarrow> aret None)
   | _ \<Rightarrow> aret None)"

section \<open>Writing\<close>

definition write_regular_file :: "string \<Rightarrow> string \<Rightarrow> (ino \<times> kind \<times> nat) option \<Rightarrow> (world, unit) act" where
  "write_regular_file p data expected =
     abind (open_regular True p) (\<lambda>(i, before).
     aseq (aguard (expected = None \<or> expected = Some (inode_identity before)) (OSError ''cache metadata staging file was replaced''))
     (aseq (os_ftruncate i)
     (aseq (if data = [] then aret () else os_write i 0 data)
     (abind (os_fstat i) (\<lambda>after.
     abind (os_lstat p) (\<lambda>current.
     aguard (inode_identity before = inode_identity after \<and> file_identity after = file_identity current \<and> st_size after = length data)
       (OSError ''cache metadata staging file changed while it was written'')))))))"

definition chmod_regular_file :: "string \<Rightarrow> nat \<Rightarrow> ino \<times> kind \<times> nat \<Rightarrow> (world, ino \<times> kind \<times> nat) act" where
  "chmod_regular_file p mode expected =
     abind (open_regular False p) (\<lambda>(i, before).
     aseq (aguard (inode_identity before = expected) (OSError ''cache staging file was replaced before chmod''))
     (aseq (os_fchmod i mode)
     (abind (os_fstat i) (\<lambda>after.
     abind (os_lstat p) (\<lambda>current.
     aseq (aguard (fst after = fst before \<and> i_kind (snd after) = i_kind (snd before) \<and> file_identity after = file_identity current \<and>
         i_perm (snd after) = mode) (OSError ''cache staging file changed while permissions were set''))
     (aret (inode_identity after)))))))"

definition require_staged_path :: "string \<Rightarrow> ino \<times> kind \<times> nat \<Rightarrow> (world, unit) act" where
  "require_staged_path p expected = abind (os_lstat p) (\<lambda>current.
     aguard (is_reg current \<and> inode_identity current = expected) (OSError ''cache staging path was replaced before publication''))"

text \<open>The copying loop: what was copied so far is \<open>data\<close>.\<close>

lemma overwrite_same: "b = take n (drop pos d) \<Longrightarrow> b \<noteq> [] \<Longrightarrow> overwrite pos b d = d"
proof -
  assume b: "b = take n (drop pos d)" "b \<noteq> []"
  then have "pos < length d" by auto
  moreover have "b @ drop (pos + length b) d = drop pos d"
    using b by (metis append_take_drop_id drop_drop add.commute length_take min.commute take_all_iff drop_all nat_le_linear min_def)
  ultimately show ?thesis by (simp add: overwrite_def)
qed

lemma copy_step_progress:
  assumes "os_read i (length data) CHUNK w = (Inr b, w1)" "b \<noteq> []" "os_write j (length data) b w1 = (Inr u, w2)"
  shows "length (w_events w2) < length (w_events w) \<or> w_events w2 = w_events w \<and> fd_size i w2 - length (data @ b) < fd_size i w - length data"
proof (cases "length (w_events w2) < length (w_events w)")
  case False
  have t: "length (w_events w2) \<le> length (w_events w1)"
    using tail_events [OF within_tail [OF os_write_spares(1) [of j "{}"] assms(3)]] by simp
  with os_read_progress [OF assms(1,2)] False have w: "w1 = w" "length data + length b \<le> fd_size i w" by auto
  then obtain x where x: "inode_at (w_kern w) i = Some x" "b = take CHUNK (drop (length data) (i_data x))"
    using os_read_Inr [OF assms(1)] by auto
  have e: "w_events w = []"
    using assms(3) False t unfolding w by (auto simp: os_write_def sys_touch_def sys_def Let_def split: list.splits prod.splits if_splits option.splits)
  have "fd_size i w2 = fd_size i w" "w_events w2 = w_events w"
    using assms(3) x overwrite_same [OF x(2) assms(2)]
    by (cases "i = j"; auto simp: w e os_write_def sys_touch_def sys_def fd_size_def inode_at_touch Let_def split: option.splits)+
  with w assms(2) show ?thesis by (cases b) auto
qed simp

function copy_loop :: "nat \<Rightarrow> ino \<Rightarrow> ino \<Rightarrow> string \<Rightarrow> (world, string) act" where
  "copy_loop limit i j data w =
     (case os_read i (length data) CHUNK w of
        (Inl e, w1) \<Rightarrow> (Inl e, w1)
      | (Inr chunk, w1) \<Rightarrow>
          if chunk = [] then (Inr data, w1)
          else if limit < length (data @ chunk) then (Inl (ValueError ''cache payload exceeds limit''), w1)
          else (case os_write j (length data) chunk w1 of
              (Inl e, w2) \<Rightarrow> (Inl e, w2)
            | (Inr u, w2) \<Rightarrow> copy_loop limit i j (data @ chunk) w2))"
  by pat_completeness auto
termination
proof (relation "measures [\<lambda>(m, i, j, d, w). length (w_events w), \<lambda>(m, i, j, d, w). fd_size i w - length d]", simp)
  fix m i j w x w1 chunk y w2 u and data :: string
  assume "(x, w1) = os_read i (length data) CHUNK w" "x = Inr chunk" "chunk \<noteq> []" "(y, w2) = os_write j (length data) chunk w1" "y = Inr u"
  then have "os_read i (length data) CHUNK w = (Inr chunk, w1)" "chunk \<noteq> []" "os_write j (length data) chunk w1 = (Inr u, w2)" by simp_all
  from copy_step_progress [OF this]
  show "((m, i, j, data @ chunk, w2), (m, i, j, data, w)) \<in> measures [\<lambda>(m, i, j, d, w). length (w_events w), \<lambda>(m, i, j, d, w). fd_size i w - length d]"
    by auto
qed

declare copy_loop.simps [simp del]

definition copy_digest :: "(string \<Rightarrow> string) \<Rightarrow> string \<Rightarrow> string \<Rightarrow> bool \<Rightarrow> nat \<Rightarrow> (ino \<times> kind \<times> nat) option \<Rightarrow> (world, json) act" where
  "copy_digest sha source target allow_empty limit target_identity =
     abind (open_regular False source) (\<lambda>(i, source_before).
     abind (open_regular True target) (\<lambda>(j, target_before).
     aseq (aguard (target_identity = None \<or> target_identity = Some (inode_identity target_before)) (OSError ''cache staging file was replaced''))
     (aseq (os_ftruncate j)
     (abind (copy_loop limit i j []) (\<lambda>data.
     abind (os_fstat i) (\<lambda>source_after.
     abind (os_lstat source) (\<lambda>source_path_after.
     abind (os_fstat j) (\<lambda>target_after.
     abind (os_lstat target) (\<lambda>target_path_after.
     aseq (aguard (file_identity source_before = file_identity source_after \<and> file_identity source_after = file_identity source_path_after \<and>
         st_size source_after = length data) (OSError ''cache source changed while it was copied''))
     (aseq (aguard (inode_identity target_before = inode_identity target_after \<and> file_identity target_after = file_identity target_path_after \<and>
         st_size target_after = length data) (OSError ''cache staging file changed while it was written''))
     (aseq (aguard (data \<noteq> [] \<or> allow_empty) (ValueError ''empty cache object''))
     (aret (JObj [(''size'', JInt (int (length data))), (''sha256'', JStr (sha data))])))))))))))))"

text \<open>\<open>Path.parent\<close> as a path, and a private file beside a path.\<close>

definition parent_path :: "string \<Rightarrow> string" where
  "parent_path p = (if CHR ''/'' \<notin> set p then ''.'' else if path_parent p = [] then ''/'' else path_parent p)"

definition temporary :: "string \<Rightarrow> (world, string \<times> (ino \<times> kind \<times> nat)) act" where
  "temporary p =
     aseq (make_dirs (parent_path p))
     (abind (mkstemp (parent_path p) (path_name p @ ''.incoming.'')) (\<lambda>(i, name).
     abind (os_fstat i) (\<lambda>st. aret (name, inode_identity st))))"

section \<open>Reading is atomic\<close>

lemma file_identity_ino: "file_identity a = file_identity b \<Longrightarrow> fst a = fst b \<and> i_kind (snd a) = i_kind (snd b) \<and> i_ctime (snd a) = i_ctime (snd b)"
  by (simp add: file_identity_def)

lemma lstat_same:
  assumes "os_lstat p w = (Inr cur, w1)" "others_obey evolves w" "inode_at (w_kern w) (fst st) = Some (snd st)"
    and "file_identity st = file_identity cur"
  shows "cur = st \<and> lookup False (w_kern w1) p = Inr st"
proof -
  note l = os_lstat_Inr [OF assms(1)] and v = within_rel [OF evo.within_calls(1) assms(1,2)]
  have "fst cur = fst st" using file_identity_ino [OF assms(4)] by simp
  moreover from this have "snd cur = snd st"
    using evolves_same [OF evolves_refl v assms(3), of "snd cur"] lookup_inode [OF l] file_identity_ino [OF assms(4)] by simp
  ultimately have "cur = st" by (metis prod_eqI)
  with l show ?thesis by simp
qed

lemma open_regular_within: "within (spares I) (open_regular b p)"
  by (auto simp: open_regular_def aguard_def intro!: within_rules)

lemma open_regular_spec:
  assumes "open_regular b p w = (Inr (i, st), w1)" "others_obey evolves w"
  shows "fst st = i \<and> is_reg st \<and> lookup False (w_kern w1) p = Inr st \<and> inode_at (w_kern w1) i = Some (snd st)"
proof -
  obtain w2 w3 cur where o: "os_open b p w = (Inr i, w2)" and f: "os_fstat i w2 = (Inr st, w3)" and r: "is_reg st"
    and l: "os_lstat p w3 = (Inr cur, w1)" and e: "file_identity st = file_identity cur"
    using assms(1) by (auto simp: open_regular_def act_Inr)
  note f' = os_fstat_Inr [OF f]
  have "others_obey evolves w3"
    using within_obey [OF evo.within_calls(4) f] within_obey [OF evo.within_calls(3) o] assms(2) by blast
  from lstat_same [OF l this _ e] f' have c: "lookup False (w_kern w1) p = Inr st" by simp
  with f' r lookup_inode [OF c] show ?thesis by simp
qed

lemma read_loop_within: "within (spares I) (read_loop m i d)"
proof -
  have "tail_of w w1 \<and> (others_obey (spares I) w \<longrightarrow> spares I (w_kern w) (w_kern w1))"
    if "read_loop m i d w = (r, w1)" for w r w1
    using that
  proof (induction m i d w arbitrary: r w1 rule: read_loop.induct)
    case (1 m i data w)
    obtain x w2 where o: "os_read i (length data) (request m data) w = (x, w2)" by fastforce
    note t = within_tail [OF spa.within_calls(5) o] and ob = within_obey [OF spa.within_calls(5) o]
      and rel = within_rel [OF spa.within_calls(5) o]
    show ?case
    proof (cases "request m data = 0 \<or> (\<exists>e. x = Inl e) \<or> x = Inr [] \<or> (\<exists>b. x = Inr b \<and> over m (data @ b))")
      case True
      then have "w1 = w \<or> w1 = w2" using 1(2) o by (subst (asm) read_loop.simps) (auto split: if_splits)
      then show ?thesis using t rel spa.refl by auto
    next
      case False
      then obtain b where b: "x = Inr b" "b \<noteq> []" "\<not> over m (data @ b)" "request m data \<noteq> 0" by (cases x) auto
      then have n: "read_loop m i (data @ b) w2 = (r, w1)" using 1(2) o by (subst (asm) read_loop.simps) simp
      from 1(1) [OF b(4) _ _ b(2,3) n] o b(1) have ih: "tail_of w2 w1"
        "others_obey (spares I) w2 \<Longrightarrow> spares I (w_kern w2) (w_kern w1)" by auto
      show ?thesis using tail_trans [OF t ih(1)] ih(2) ob rel spa.trans by blast
    qed
  qed
  then show ?thesis unfolding within_def by blast
qed

lemma evolves_spares: "spares {} = evolves"
  by (intro ext) (simp add: spares_def)

lemmas open_regular_evolves = open_regular_within [where I = "{}", unfolded evolves_spares]

lemmas read_loop_evolves = read_loop_within [where I = "{}", unfolded evolves_spares]

lemma take_extend:
  assumes "d = take (length d) x" "b = take n (drop (length d) x)"
  shows "d @ b = take (length (d @ b)) x"
proof -
  have "d @ b = take (length d + n) x" unfolding take_add using assms by simp
  moreover have "take (length (take m x)) x = take m x" for m by (simp add: min_def)
  ultimately show ?thesis by metis
qed

text \<open>A loop that ends with the inode as it was has read its bytes from where it started.\<close>

lemma read_loop_all:
  "read_loop m i data w = (Inr out, w1) \<Longrightarrow> others_obey evolves w \<Longrightarrow> inode_at (w_kern w) i = Some x \<Longrightarrow>
    inode_at (w_kern w1) i = Some x \<Longrightarrow> data = take (length data) (i_data x) \<Longrightarrow> \<not> over m data \<Longrightarrow> out = i_data x \<and> \<not> over m out"
proof (induction m i data w rule: read_loop.induct)
  case (1 m i data w)
  let ?n = "request m data"
  have n: "?n \<noteq> 0" using 1(2) by (subst (asm) read_loop.simps) (auto split: if_splits)
  then obtain b w2 where r: "os_read i (length data) ?n w = (Inr b, w2)"
    using 1(2) by (subst (asm) read_loop.simps) (auto split: prod.splits sum.splits)
  have o2: "others_obey evolves w2" and e2: "evolves (w_kern w) (w_kern w2)"
    using within_obey [OF evo.within_calls(5) r 1(3)] within_rel [OF evo.within_calls(5) r 1(3)] by simp_all
  have e1: "evolves (w_kern w2) (w_kern w1)"
  proof (cases "b = []")
    case True
    then show ?thesis using 1(2) n r by (subst (asm) read_loop.simps) (simp add: evolves_refl)
  next
    case False
    then have "read_loop m i (data @ b) w2 = (Inr out, w1)"
      using 1(2) n r by (subst (asm) read_loop.simps) (auto split: if_splits)
    from within_rel [OF read_loop_evolves this o2] show ?thesis .
  qed
  have x2: "inode_at (w_kern w2) i = Some x" using evolves_same [OF e2 e1 1(4,5)] by simp
  then have b: "b = take ?n (drop (length data) (i_data x))" using os_read_Inr [OF r] by auto
  show ?case
  proof (cases "b = []")
    case True
    then have "length (i_data x) \<le> length data" using b n by simp
    moreover have "out = data" using 1(2) n r True by (subst (asm) read_loop.simps) simp
    ultimately show ?thesis using 1(6,7) by simp
  next
    case False
    then have l: "read_loop m i (data @ b) w2 = (Inr out, w1)" and ov: "\<not> over m (data @ b)"
      using 1(2) n r by (subst (asm) read_loop.simps; auto split: if_splits)+
    from 1(1) [OF n r [symmetric] refl False ov l o2 x2 1(5) take_extend [OF 1(6) b] ov] show ?thesis .
  qed
qed

text \<open>The check after a loop: the inode is the one opened, unchanged, and the path still leads to it.\<close>

lemma stable_after_spec:
  assumes "stable_after p i before msg w = (Inr after, w1)" "others_obey evolves w" "fst before = i"
    and "evolves k (w_kern w)" "inode_at k i = Some (snd before)"
  shows "after = before \<and> inode_at (w_kern w) i = Some (snd before) \<and> lookup False (w_kern w1) p = Inr before"
proof -
  obtain w2 cur where f: "os_fstat i w = (Inr after, w2)" and l: "os_lstat p w2 = (Inr cur, w1)"
    and e: "file_identity before = file_identity after" "file_identity after = file_identity cur"
    using assms(1) by (auto simp: stable_after_def act_Inr)
  note f' = os_fstat_Inr [OF f] and o2 = within_obey [OF evo.within_calls(4) f assms(2)]
  have v: "evolves (w_kern w) (w_kern w2)" by (rule within_rel [OF evo.within_calls(4) f assms(2)])
  have a: "inode_at (w_kern w) i = Some (snd before)" "snd after = snd before"
    using evolves_same [OF assms(4) v assms(5), of "snd after"] f' file_identity_ino [OF e(1)] by simp_all
  have ab: "after = before" using a(2) file_identity_ino [OF e(1)] by (metis prod_eqI)
  from lstat_same [OF l o2 _ e(2)] f' ab a show ?thesis by simp
qed

lemma read_regular_file_current:
  assumes "others_obey evolves w" "read_regular_file p maximum expected w = (Inr data, w1)"
  shows "\<exists>st. lookup False (w_kern w1) p = Inr st \<and> is_reg st \<and> data = i_data (snd st) \<and>
    (\<forall>m \<in> set_option maximum. length data \<le> m) \<and> (\<forall>e \<in> set_option expected. e = inode_identity st)"
proof -
  obtain i st w2 w3 w4 aft where o: "open_regular False p w = (Inr (i, st), w2)"
    and g: "expected = None \<or> expected = Some (inode_identity st)" "\<forall>m \<in> set_option maximum. st_size st \<le> m"
    and l: "read_loop maximum i [] w2 = (Inr data, w3)"
    and s: "stable_after p i st ''cache input changed while it was read'' w3 = (Inr aft, w4)" and w4: "w4 = w1"
    using assms(2) by (auto simp: read_regular_file_def act_Inr)
  have o2: "others_obey evolves w2" by (rule within_obey [OF open_regular_evolves o assms(1)])
  note op = open_regular_spec [OF o assms(1)]
  note st = stable_after_spec [OF s within_obey [OF read_loop_evolves l o2] _ within_rel [OF read_loop_evolves l o2]]
  have a: "aft = st" "inode_at (w_kern w3) i = Some (snd st)" "lookup False (w_kern w4) p = Inr st" using st op by simp_all
  have "data = i_data (snd st)" using read_loop_all [OF l o2 _ a(2)] op by (cases maximum) (simp_all add: over_def)
  then show ?thesis using a op g w4 by (auto simp: st_size_def intro!: exI [of _ st])
qed

text \<open>
  C32. While other processes replace, rename and write files at will, except that every change to an
  inode gives it a later change time, a read that returns gives the whole content of the regular
  file that the path names at that moment: never a mixture of two versions, never more than the
  limit, and from the expected inode where one is given.
\<close>

theorem read_regular_file_atomic:
  assumes "others_obey evolves w" "read_regular_file p maximum expected w = (Inr data, w1)"
  shows "\<exists>st. lookup False (w_kern w1) p = Inr st \<and> is_reg st \<and> data = i_data (snd st) \<and>
    (\<forall>m \<in> set_option maximum. length data \<le> m) \<and> (\<forall>e \<in> set_option expected. e = inode_identity st)"
  using assms by (rule read_regular_file_current)

text \<open>A file, a kernel that has it as \<open>/f\<close>, and a process in a schedule of harmless events.\<close>

definition plain_file :: "string \<Rightarrow> nat \<Rightarrow> inode" where
  "plain_file b t = \<lparr>i_kind = Regular, i_perm = 420, i_data = b, i_mtime = t, i_ctime = t, i_nlink = 1, i_uid = 0, i_gid = 0, i_flags = 0,
     i_xattrs = Some [], i_acl = Some False\<rparr>"

definition root_dir :: inode where
  "root_dir = (plain_file [] 1)\<lparr>i_kind := Directory, i_perm := 493\<rparr>"

definition demo_kern :: "(string \<times> inode) list \<Rightarrow> kern" where
  "demo_kern files = \<lparr>k_names = ([], Ino 1 0) # map (\<lambda>(n, f). (f, Ino 1 (Suc n))) (enumerate 0 (map fst files)),
     k_inodes = (Ino 1 0, root_dir) # map (\<lambda>(n, x). (Ino 1 (Suc n), x)) (enumerate 0 (map snd files)), k_clock = 9, k_cwd = []\<rparr>"

definition demo_world :: "(string \<times> inode) list \<Rightarrow> ((kern \<Rightarrow> kern) \<times> bool) list \<Rightarrow> world" where
  "demo_world files evs = \<lparr>w_kern = demo_kern files, w_events = evs, w_temps = map (\<lambda>n. (show_nat n, Ino 1 n)) [100..<110], w_renames = [],
     w_platform = ''linux'', w_euid = 0, w_egid = 0, w_uid = 0, w_gid = 0, w_groups = [], w_umask = 18,
     w_stdout = [], w_stderr = [], w_staged = [], w_admitted = False\<rparr>"

theorem read_regular_file_atomic_witness:
  "let w = demo_world [(''/f'', plain_file ''ab'' 5)] [(\<lambda>k. bind_name k ''/g'' (Ino 1 1), False)]; r = read_regular_file ''/f'' (Some 2) None w
   in fst r = Inr ''ab'' \<and> (\<exists>st. lookup False (w_kern (snd r)) ''/f'' = Inr st \<and> i_data (snd st) = ''ab'')"
proof -
  let ?w = "demo_world [(''/f'', plain_file ''ab'' 5)] [(\<lambda>k. bind_name k ''/g'' (Ino 1 1), False)]"
  have o: "others_obey evolves ?w" by (simp add: others_obey_def demo_world_def evolves_def)
  have r: "fst (read_regular_file ''/f'' (Some 2) None ?w) = Inr ''ab''" by code_simp
  then have "read_regular_file ''/f'' (Some 2) None ?w = (Inr ''ab'', snd (read_regular_file ''/f'' (Some 2) None ?w))"
    by (simp add: prod_eq_iff)
  from read_regular_file_atomic [OF o this] r show ?thesis unfolding Let_def by auto
qed

section \<open>Reusing a digest\<close>

lemma fingerprint_current:
  assumes "others_obey evolves w" "fingerprint sha p w = (Inr v, w1)"
  shows "\<exists>st. lookup False (w_kern w1) p = Inr st \<and> is_reg st \<and> v = fingerprint_value sha st (i_data (snd st))"
proof -
  obtain i st w2 w3 w4 aft data where o: "open_regular False p w = (Inr (i, st), w2)"
    and l: "read_loop None i [] w2 = (Inr data, w3)"
    and s: "stable_after p i st ''dependency changed while it was being hashed'' w3 = (Inr aft, w4)"
    and w4: "w4 = w1" and v: "v = fingerprint_value sha aft data"
    using assms(2) by (auto simp: fingerprint_def act_Inr)
  have o2: "others_obey evolves w2" by (rule within_obey [OF open_regular_evolves o assms(1)])
  note op = open_regular_spec [OF o assms(1)]
  note st = stable_after_spec [OF s within_obey [OF read_loop_evolves l o2] _ within_rel [OF read_loop_evolves l o2]]
  have a: "aft = st" "inode_at (w_kern w3) i = Some (snd st)" "lookup False (w_kern w4) p = Inr st" using st op by simp_all
  have "data = i_data (snd st)" using read_loop_all [OF l o2 _ a(2)] op by (simp add: over_def)
  then show ?thesis using a op v w4 by blast
qed

lemma unchanged_current:
  assumes "others_obey evolves w" "unchanged_fingerprint p previous w = (Inr (Some v), w1)"
  shows "\<exists>st prev digest. lookup False (w_kern w1) p = Inr st \<and> is_reg st \<and> previous = Some (JObj prev) \<and>
    dget prev ''sha256'' = Some (JStr digest) \<and> v = stat_fields st @ [(''sha256'', JStr digest)] \<and>
    (\<forall>(k, u) \<in> set (stat_fields st). \<exists>u' \<in> set_option (dget prev k). py_eq u' u)"
proof -
  obtain prev digest i st w2 aft where p: "previous = Some (JObj prev)" "dget prev ''sha256'' = Some (JStr digest)"
    and o: "open_regular False p w = (Inr (i, st), w2)"
    and s: "stable_after p i st ''dependency changed while its cached identity was checked'' w2 = (Inr aft, w1)"
    and c: "list_all (\<lambda>(k, v). \<exists>u \<in> set_option (dget prev k). py_eq u v) (stat_fields st)" "v = stat_fields st @ [(''sha256'', JStr digest)]"
    using assms(2) by (auto simp: unchanged_fingerprint_def act_Inr split: option.splits json.splits if_splits)
  note op = open_regular_spec [OF o assms(1)]
  have "lookup False (w_kern w1) p = Inr st"
    using stable_after_spec [OF s within_obey [OF open_regular_evolves o assms(1)] _ evolves_refl] op by simp
  then show ?thesis using op p c by (auto simp: list_all_iff)
qed

lemma unchanged_within: "within (spares I) (unchanged_fingerprint p previous)"
  by (auto simp: unchanged_fingerprint_def stable_after_def aguard_def intro!: within_rules open_regular_within split: option.splits json.splits)

lemmas unchanged_evolves = unchanged_within [where I = "{}", unfolded evolves_spares]

lemma stat_fields_inj:
  assumes "\<forall>(k, u) \<in> set (stat_fields st). \<exists>u' \<in> set_option (dget (stat_fields st0) k). py_eq u' u"
  shows "fst st = fst st0 \<and> i_ctime (snd st) = i_ctime (snd st0)"
  using assms by (auto simp: stat_fields_def dget_def py_eq_def ino.expand)

text \<open>In a state, a fingerprint is that of the regular file the path names.\<close>

definition vouched :: "(string \<Rightarrow> string) \<Rightarrow> kern \<Rightarrow> string \<Rightarrow> (string \<times> json) list \<Rightarrow> bool" where
  "vouched sha k p v \<longleftrightarrow> (\<exists>st. lookup False k p = Inr st \<and> is_reg st \<and> v = fingerprint_value sha st (i_data (snd st)))"

lemma dget_fingerprint: "k \<in> fst ` set (stat_fields st) \<Longrightarrow> dget (fingerprint_value sha st b) k = dget (stat_fields st) k"
  by (auto simp: fingerprint_value_def stat_fields_def dget_def)

lemma reused_vouched:
  assumes "vouched sha k0 p v" "evolves k0 (w_kern w2)" "others_obey evolves w2"
    and "unchanged_fingerprint q (Some (JObj prev)) w2 = (Inr (Some v'), w3)" "\<forall>k \<in> fst ` set v. dget prev k = dget v k"
  shows "v' = v \<and> vouched sha (w_kern w3) q v"
proof -
  obtain st0 where s0: "lookup False k0 p = Inr st0" "v = fingerprint_value sha st0 (i_data (snd st0))"
    using assms(1) by (auto simp: vouched_def)
  obtain st digest where s: "lookup False (w_kern w3) q = Inr st" "is_reg st" "dget prev ''sha256'' = Some (JStr digest)"
    "v' = stat_fields st @ [(''sha256'', JStr digest)]" "\<forall>(k, u) \<in> set (stat_fields st). \<exists>u' \<in> set_option (dget prev k). py_eq u' u"
    using unchanged_current [OF assms(3,4)] by auto
  have keys: "fst ` set (stat_fields st) \<subseteq> fst ` set v" "fst ` set (stat_fields st) = fst ` set (stat_fields st0)" "''sha256'' \<in> fst ` set v"
    by (auto simp: s0(2) fingerprint_value_def stat_fields_def)
  have v: "evolves k0 (w_kern w3)"
    using evolves_trans [OF assms(2) within_rel [OF unchanged_evolves assms(4,3)]] .
  have "dget prev k = dget (stat_fields st0) k" if "k \<in> fst ` set (stat_fields st)" for k
  proof -
    have "dget prev k = dget v k" using that keys(1) assms(5) by blast
    then show ?thesis using dget_fingerprint [of k st0] that keys(2) by (simp add: s0(2))
  qed
  with s(5) have "\<forall>(k, u) \<in> set (stat_fields st). \<exists>u' \<in> set_option (dget (stat_fields st0) k). py_eq u' u" by force
  from stat_fields_inj [OF this] have same: "fst st = fst st0" "i_ctime (snd st) = i_ctime (snd st0)" by simp_all
  have "snd st = snd st0"
    using evolves_same [OF evolves_refl v lookup_inode [OF s0(1)], of "snd st"] lookup_inode [OF s(1)] same by simp
  then have "st = st0" using same by (metis prod_eqI)
  moreover have "digest = sha (i_data (snd st0))"
    using s(3) assms(5) keys(3) by (simp add: s0(2) fingerprint_value_def stat_fields_def dget_def)
  ultimately show ?thesis using s s0 by (auto simp: fingerprint_value_def vouched_def)
qed

text \<open>
  C33. Reusing a digest is sound: when a file was fingerprinted and later, after any changes by other
  processes that give each changed inode a later change time, a path is found to have the recorded
  identity, the record reused is the one taken then and its digest is that of the bytes the path
  has now.
\<close>

theorem reused_digest_current:
  assumes "others_obey evolves w" "fingerprint sha p w = (Inr v, w1)" "evolves (w_kern w1) (w_kern w2)" "others_obey evolves w2"
    and "unchanged_fingerprint q (Some (JObj v)) w2 = (Inr (Some v'), w3)"
  shows "v' = v \<and> (\<exists>st. lookup False (w_kern w3) q = Inr st \<and> is_reg st \<and> v = fingerprint_value sha st (i_data (snd st)))"
proof -
  have "vouched sha (w_kern w1) p v" using fingerprint_current [OF assms(1,2)] by (simp add: vouched_def)
  from reused_vouched [OF this assms(3-5)] show ?thesis by (simp add: vouched_def)
qed

text \<open>The evaluation uses a digest that is the length in 64 digits.\<close>

definition demo_sha :: "string \<Rightarrow> string" where
  "demo_sha b = (let n = show_nat (length b) in replicate (64 - length n) (CHR ''0'') @ n)"

theorem reused_digest_current_witness:
  "let w = demo_world [(''/f'', plain_file ''ab'' 5)] []; v = projr (fst (fingerprint demo_sha ''/f'' w));
     r = unchanged_fingerprint ''/f'' (Some (JObj v)) w
   in fst r = Inr (Some v) \<and> (\<exists>st. lookup False (w_kern (snd r)) ''/f'' = Inr st \<and> v = fingerprint_value demo_sha st (i_data (snd st)))"
proof -
  let ?w = "demo_world [(''/f'', plain_file ''ab'' 5)] []"
  let ?v = "projr (fst (fingerprint demo_sha ''/f'' ?w))"
  have o: "others_obey evolves ?w" by (simp add: others_obey_def demo_world_def)
  have f: "isl (fst (fingerprint demo_sha ''/f'' ?w)) = False" by code_simp
  have f': "fingerprint demo_sha ''/f'' ?w = (Inr ?v, snd (fingerprint demo_sha ''/f'' ?w))" using f by (simp add: prod_eq_iff)
  have k: "w_kern (snd (fingerprint demo_sha ''/f'' ?w)) = w_kern ?w"
    by code_simp
  have "(case fst (unchanged_fingerprint ''/f'' (Some (JObj ?v)) ?w) of Inr (Some _) \<Rightarrow> True | _ \<Rightarrow> False)" by code_simp
  then obtain v' where r: "unchanged_fingerprint ''/f'' (Some (JObj ?v)) ?w = (Inr (Some v'), snd (unchanged_fingerprint ''/f'' (Some (JObj ?v)) ?w))"
    by (auto simp: prod_eq_iff split: sum.splits option.splits)
  have e: "evolves (w_kern (snd (fingerprint demo_sha ''/f'' ?w))) (w_kern ?w)" unfolding k by (rule evolves_refl)
  from reused_digest_current [OF o f' e o r] r show ?thesis unfolding Let_def by (auto simp: prod_eq_iff)
qed

section \<open>Copying\<close>

lemma copy_loop_cases:
  assumes "copy_loop m i j data w = (r, w1)" "os_read i (length data) CHUNK w = (x, w2)"
  obtains (stop) "w1 = w2" "\<forall>out. r = Inr out \<longrightarrow> out = data \<and> x = Inr []"
  | (fail) b y w3 where "x = Inr b" "os_write j (length data) b w2 = (y, w3)" "w1 = w3" "\<forall>out. r \<noteq> Inr out"
  | (more) b u w3 where "x = Inr b" "b \<noteq> []" "length (data @ b) \<le> m" "os_write j (length data) b w2 = (Inr u, w3)" "copy_loop m i j (data @ b) w3 = (r, w1)"
  using assms by (subst (asm) copy_loop.simps) (fastforce split: sum.splits prod.splits if_splits)

lemma copy_loop_within: "j \<notin> I \<Longrightarrow> within (spares I) (copy_loop m i j d)"
proof -
  assume j: "j \<notin> I"
  have "tail_of w w1 \<and> (others_obey (spares I) w \<longrightarrow> spares I (w_kern w) (w_kern w1))"
    if "copy_loop m i j d w = (r, w1)" for w r w1
    using that j
  proof (induction m i j d w arbitrary: r w1 rule: copy_loop.induct)
    case (1 m i j data w)
    obtain x w2 where o: "os_read i (length data) CHUNK w = (x, w2)" by fastforce
    note t = within_tail [OF spa.within_calls(5) o] and ob = within_obey [OF spa.within_calls(5) o]
      and rel = within_rel [OF spa.within_calls(5) o]
    note wr = within_tail [OF os_write_spares(1) [OF 1(3)]] within_obey [OF os_write_spares(1) [OF 1(3)]] within_rel [OF os_write_spares(1) [OF 1(3)]]
    from 1(2) o show ?case
    proof (cases rule: copy_loop_cases)
      case stop
      then show ?thesis using t rel by blast
    next
      case (fail b y w3)
      then show ?thesis using tail_trans [OF t wr(1)] wr(3) ob rel spa.trans by blast
    next
      case (more b u w3)
      have c: "\<not> m < length (data @ b)" using more(3) by simp
      from 1(1) [OF o [symmetric] more(1,2) c more(4) [symmetric] refl more(5) 1(3)]
      have ih: "tail_of w3 w1" "others_obey (spares I) w3 \<Longrightarrow> spares I (w_kern w3) (w_kern w1)" by auto
      show ?thesis
        using tail_trans [OF tail_trans [OF t wr(1) [OF more(4)]] ih(1)] ih(2) wr(2,3) [OF more(4)] ob rel spa.trans by metis
    qed
  qed
  then show ?thesis unfolding within_def by blast
qed

text \<open>A copy into a staging file spares every other file.\<close>

lemma open_regular_fst: "open_regular b p w = (Inr x, w1) \<Longrightarrow> fst (snd x) = fst x"
  by (auto simp: open_regular_def act_Inr dest!: os_fstat_Inr)

lemma copy_digest_within:
  assumes "j \<notin> I"
  shows "within (spares I) (copy_digest sha s t a l (Some (j, kd, pm)))"
  unfolding copy_digest_def
  by (rule spa.within_abind [OF open_regular_within], rule spa.within_case_prod,
      rule spa.within_abind_res [OF open_regular_within, where P = "\<lambda>x. fst (snd x) = fst x"], erule open_regular_fst)
    (use assms in \<open>auto simp: inode_identity_def intro!: spa.within_guarded within_rules copy_loop_within\<close>)

lemma overwrite_end: "overwrite (length d) b d = d @ b"
  by (simp add: overwrite_def)

text \<open>A loop that ends with the source as it was has put its bytes into the target, whose bytes others spare.\<close>

lemma copy_loop_all:
  "copy_loop m i j data w = (Inr out, w1) \<Longrightarrow> others_obey (spares {j}) w \<Longrightarrow> i \<noteq> j \<Longrightarrow> inode_at (w_kern w) i = Some x \<Longrightarrow>
    inode_at (w_kern w1) i = Some x \<Longrightarrow> data = take (length data) (i_data x) \<Longrightarrow> inode_at (w_kern w) j = Some y \<Longrightarrow> i_data y = data \<Longrightarrow>
    out = i_data x \<and> (\<exists>z. inode_at (w_kern w1) j = Some z \<and> i_data z = out) \<and> (out = data \<or> length out \<le> m)"
proof (induction m i j data w arbitrary: y rule: copy_loop.induct)
  case (1 m i j data w)
  obtain r w2 where r: "os_read i (length data) CHUNK w = (r, w2)" by fastforce
  have o2: "others_obey (spares {j}) w2" and e2: "spares {j} (w_kern w) (w_kern w2)"
    using within_obey [OF spa.within_calls(5) r 1(3)] within_rel [OF spa.within_calls(5) r 1(3)] by simp_all
  obtain y2 where y2: "inode_at (w_kern w2) j = Some y2" "i_data y2 = data" using e2 1(8,9) by (auto simp: spares_def)
  note ob = obey_evolves [OF o2]
  from 1(2) r show ?case
  proof (cases rule: copy_loop_cases)
    case stop
    have d: "out = data" "r = Inr []" using stop(2) by blast+
    have "inode_at (w_kern w2) i = Some x" using 1(6) stop(1) by simp
    then have "length (i_data x) \<le> length data" using os_read_Inr [of i "length data" CHUNK w "[]" w2] r d(2) by (auto simp: CHUNK_def)
    then have "take (length data) (i_data x) = i_data x" by simp
    then have "i_data x = data" using 1(7) by metis
    then show ?thesis using y2 stop(1) d(1) by simp
  next
    case (more b u w3)
    have wr: "within evolves (os_write j (length data) b)" using os_write_spares(1) [of j "{}"] by (simp add: evolves_spares)
    have cl: "within evolves (copy_loop m i j (data @ b))" using copy_loop_within [of j "{}"] by (simp add: evolves_spares)
    have e3: "evolves (w_kern w2) (w_kern w3)" "others_obey evolves w3"
      using within_rel [OF wr more(4) ob] within_obey [OF wr more(4) ob] by simp_all
    have e1: "evolves (w_kern w3) (w_kern w1)" by (rule within_rel [OF cl more(5) e3(2)])
    have x2: "inode_at (w_kern w2) i = Some x"
      using evolves_same [OF spares_evolves [OF e2] evolves_trans [OF e3(1) e1] 1(5,6)] by simp
    have x3: "inode_at (w_kern w3) i = Some x"
      using evolves_same [OF evolves_trans [OF spares_evolves [OF e2] e3(1)] e1 1(5,6)] by simp
    have b: "b = take CHUNK (drop (length data) (i_data x))" using os_read_Inr [of i "length data" CHUNK w b w2] r more(1) x2 by auto
    obtain x1 t where "i_data x1 = data" "inode_at (w_kern w3) j = Some ((x1\<lparr>i_data := overwrite (length data) b (i_data x1), i_mtime := t\<rparr>)\<lparr>i_kind := i_kind y2, i_ctime := t\<rparr>)"
      using sys_touch_spared [OF more(4) [unfolded os_write_def] o2 _ y2(1)] y2(2) by auto
    then obtain y3 where y3: "inode_at (w_kern w3) j = Some y3" "i_data y3 = data @ b" by (auto simp: overwrite_end)
    have o3: "others_obey (spares {j}) w3" by (rule within_obey [OF wr more(4) o2])
    have c: "\<not> m < length (data @ b)" using more(3) by simp
    from 1(1) [OF r [symmetric] more(1,2) c more(4) [symmetric] refl more(5) o3 1(4) x3 1(6) take_extend [OF 1(7) b] y3] more(3) show ?thesis by auto
  qed simp
qed

lemma inode_identity_ino: "inode_identity a = (j, kd, pm) \<Longrightarrow> fst a = j"
  by (simp add: inode_identity_def)

text \<open>The copying part: the source is unchanged over it, and is not the target.\<close>

lemma copied_source:
  assumes ob: "others_obey (spares {j}) w" and k: "evolves k (w_kern w)" and sb: "inode_at k i = Some (snd sb)" and tb: "inode_at (w_kern w) j = Some (snd tb)"
    and tr: "os_ftruncate j w = (Inr u, w4)" and l: "copy_loop limit i j [] w4 = (Inr data, w5)"
    and f: "os_fstat i w5 = (Inr sa, w6)" and g: "file_identity sb = file_identity sa"
  shows "i \<noteq> j \<and> snd sa = snd sb \<and> data = i_data (snd sb) \<and> length data \<le> limit \<and> (\<exists>z. inode_at (w_kern w5) j = Some z \<and> i_data z = data)"
proof -
  have wt: "within evolves (os_ftruncate j)" using os_write_spares(2) [of j "{}"] by (simp add: evolves_spares)
  have cl: "within evolves (copy_loop limit i j [])" using copy_loop_within [of j "{}"] by (simp add: evolves_spares)
  note o = obey_evolves [OF ob]
  note o4 = within_obey [OF wt tr o] and o4' = within_obey [OF wt tr ob]
  note e = within_rel [OF wt tr o] within_rel [OF cl l o4] within_rel [OF evo.within_calls(4) f within_obey [OF cl l o4]]
  have x4: "inode_at (w_kern w4) i = Some (snd sb)" "snd sa = snd sb"
    using evolves_same [OF evolves_trans [OF k e(1)] evolves_trans [OF e(2,3)] sb, of "snd sa"] os_fstat_Inr [OF f] file_identity_ino [OF g] by simp_all
  have x3: "inode_at (w_kern w) i = Some (snd sb)"
    using evolves_same [OF k evolves_trans [OF e(1) evolves_trans [OF e(2,3)]] sb, of "snd sa"] os_fstat_Inr [OF f] x4(2) by simp
  have x5: "inode_at (w_kern w5) i = Some (snd sb)"
    using evolves_same [OF evolves_trans [OF k evolves_trans [OF e(1,2)]] e(3) sb, of "snd sa"] os_fstat_Inr [OF f] x4(2) by simp
  obtain y t where y: "inode_at (w_kern w4) j = Some y" "i_data y = []" "i_ctime (snd tb) < i_ctime y"
    using sys_touch_spared [OF tr [unfolded os_ftruncate_def] ob _ tb] by auto
  have ij: "i \<noteq> j" using x4(1) x3 y tb by auto
  from copy_loop_all [OF l o4' ij x4(1) x5 _ y(1)] y(2) ij x4(2) show ?thesis by auto
qed

lemma copy_digest_current:
  assumes ob: "others_obey (spares {j}) w"
    and c: "copy_digest sha source target allow_empty limit (Some (j, kd, pm)) w = (Inr v, w1)"
  shows "\<exists>k st st'. evolves (w_kern w) k \<and> evolves k (w_kern w1) \<and> lookup False k source = Inr st \<and> is_reg st \<and> fst st \<noteq> j \<and>
    v = JObj [(''size'', JInt (int (st_size st))), (''sha256'', JStr (sha (i_data (snd st))))] \<and>
    st_size st \<le> limit \<and> (i_data (snd st) \<noteq> [] \<or> allow_empty) \<and>
    lookup False (w_kern w1) target = Inr st' \<and> inode_identity st' = (j, kd, pm) \<and> i_data (snd st') = i_data (snd st)"
proof -
  obtain i sb w2 j' tb w3 w4 data w5 sa w6 sp w7 ta w8 tp where
    o: "open_regular False source w = (Inr (i, sb), w2)" "open_regular True target w2 = (Inr (j', tb), w3)"
    and id: "(j, kd, pm) = inode_identity tb" and tr: "os_ftruncate j' w3 = (Inr (), w4)"
    and l: "copy_loop limit i j' [] w4 = (Inr data, w5)" and f: "os_fstat i w5 = (Inr sa, w6)" "os_lstat source w6 = (Inr sp, w7)"
    "os_fstat j' w7 = (Inr ta, w8)" "os_lstat target w8 = (Inr tp, w1)"
    and g: "file_identity sb = file_identity sa" "file_identity sa = file_identity sp" "inode_identity tb = inode_identity ta"
      "file_identity ta = file_identity tp" "data \<noteq> [] \<or> allow_empty"
    and v: "v = JObj [(''size'', JInt (int (length data))), (''sha256'', JStr (sha data))]"
    using c by (auto simp: copy_digest_def act_Inr)
  note W = open_regular_within [where I = "{j}"]
  have o2: "others_obey (spares {j}) w2" and o3: "others_obey (spares {j}) w3"
    using within_obey [OF W o(1) ob] within_obey [OF W o(2)] by blast+
  note s = open_regular_spec [OF o(1) obey_evolves [OF ob]] and t = open_regular_spec [OF o(2) obey_evolves [OF o2]]
  have j: "j' = j" using inode_identity_ino [OF id [symmetric]] t by simp
  have e23: "evolves (w_kern w) (w_kern w2)" "evolves (w_kern w2) (w_kern w3)"
    using within_rel [OF W o(1) ob] within_rel [OF W o(2) o2] by (simp_all add: spares_evolves)
  have tj: "inode_at (w_kern w3) j = Some (snd tb)" using t j by simp
  have sj: "inode_at (w_kern w2) i = Some (snd sb)" using s by simp
  note cs = copied_source [OF o3 e23(2) sj tj tr [unfolded j] l [unfolded j] f(1) g(1)]
  have wt: "within evolves (os_ftruncate j)" and cl: "within evolves (copy_loop limit i j [])"
    using os_write_spares(2) [of j "{}"] copy_loop_within [of j "{}"] by (simp_all add: evolves_spares)
  note o4 = within_obey [OF wt tr [unfolded j] o3] and e4 = within_rel [OF wt tr [unfolded j] obey_evolves [OF o3]]
  note o5 = within_obey [OF cl l [unfolded j] o4] and e5 = within_rel [OF cl l [unfolded j] obey_evolves [OF o4]]
  note o6 = within_obey [OF evo.within_calls(4) f(1) o5] and e6 = within_rel [OF spa.within_calls(4) f(1) o5]
  note o7 = within_obey [OF evo.within_calls(1) f(2) o6] and e7 = within_rel [OF spa.within_calls(1) f(2) o6]
  note o8 = within_obey [OF evo.within_calls(4) f(3) o7] and e8 = within_rel [OF spa.within_calls(4) f(3) o7]
  note e9 = within_rel [OF spa.within_calls(1) f(4) o8]
  have sp: "lookup False (w_kern w7) source = Inr sb"
  proof -
    have "sa = sb" using cs file_identity_ino [OF g(1)] by (metis prod_eqI)
    then show ?thesis using lstat_same [OF f(2) obey_evolves [OF o6] _ g(2)] os_fstat_Inr [OF f(1)] by auto
  qed
  have e57: "evolves (w_kern w) (w_kern w7)"
    using evolves_trans [OF e23(1) evolves_trans [OF e23(2) evolves_trans [OF e4 evolves_trans [OF e5 evolves_trans [OF spares_evolves [OF e6] spares_evolves [OF e7]]]]]] .
  have e79: "evolves (w_kern w7) (w_kern w1)" using evolves_trans [OF spares_evolves [OF e8] spares_evolves [OF e9]] .
  have tp: "lookup False (w_kern w1) target = Inr tp" "fst tp = j" "inode_identity tp = (j, kd, pm)"
    using os_lstat_Inr [OF f(4)] file_identity_ino [OF g(4)] os_fstat_Inr [OF f(3)] j g(3,4) id
    by (simp_all add: file_identity_def inode_identity_def)
  have "spares {j} (w_kern w5) (w_kern w1)" using spares_trans [OF e6 spares_trans [OF e7 spares_trans [OF e8 e9]]] .
  then have td: "i_data (snd tp) = data" using cs lookup_inode [OF tp(1)] tp(2) by (auto simp: spares_def)
  have lim: "length (i_data (snd sb)) \<le> limit" using cs by metis
  show ?thesis
    by (rule exI [of _ "w_kern w7"], rule exI [of _ sb], rule exI [of _ tp]) (use e57 e79 sp s v cs g(5) tp td lim in \<open>simp add: st_size_def\<close>)
qed

text \<open>
  A copy into a private staging file, whose bytes no other process changes, is exact: when it
  returns, the staging path still leads to the staging inode, which holds the whole content the
  source had at one moment of the call, and the size and digest returned are those of that
  content. It is within the limit, and empty only if that is allowed. Copying a file
  onto itself never succeeds.
\<close>

theorem copy_digest_exact:
  assumes ob: "others_obey (spares {j}) w"
    and c: "copy_digest sha source target allow_empty limit (Some (j, kd, pm)) w = (Inr v, w1)"
  shows "\<exists>k st st'. evolves (w_kern w) k \<and> evolves k (w_kern w1) \<and> lookup False k source = Inr st \<and> is_reg st \<and> fst st \<noteq> j \<and>
    v = JObj [(''size'', JInt (int (st_size st))), (''sha256'', JStr (sha (i_data (snd st))))] \<and>
    st_size st \<le> limit \<and> (i_data (snd st) \<noteq> [] \<or> allow_empty) \<and>
    lookup False (w_kern w1) target = Inr st' \<and> inode_identity st' = (j, kd, pm) \<and> i_data (snd st') = i_data (snd st)"
  using assms by (rule copy_digest_current)

theorem copy_digest_exact_witness:
  "let w = demo_world [(''/f'', plain_file ''ab'' 5), (''/t'', plain_file ''xyz'' 6)] [];
     r = copy_digest demo_sha ''/f'' ''/t'' False 2 (Some (Ino 1 2, Regular, 420)) w
   in (\<exists>k st st'. evolves (w_kern w) k \<and> lookup False k ''/f'' = Inr st \<and> lookup False (w_kern (snd r)) ''/t'' = Inr st' \<and>
        i_data (snd st') = i_data (snd st) \<and> fst r = Inr (JObj [(''size'', JInt (int (st_size st))), (''sha256'', JStr (demo_sha (i_data (snd st))))]))"
proof -
  let ?w = "demo_world [(''/f'', plain_file ''ab'' 5), (''/t'', plain_file ''xyz'' 6)] []"
  let ?r = "copy_digest demo_sha ''/f'' ''/t'' False 2 (Some (Ino 1 2, Regular, 420)) ?w"
  have "isl (fst ?r) = False" by code_simp
  then have r: "?r = (Inr (projr (fst ?r)), snd ?r)" by (simp add: prod_eq_iff)
  have o: "others_obey (spares {Ino 1 2}) ?w" by (simp add: others_obey_def demo_world_def)
  from copy_digest_exact [OF o r] show ?thesis unfolding Let_def using r by (metis fst_conv)
qed

section \<open>Without interference\<close>

lemma os_calls_quiet:
  assumes "w_events w = []"
  shows "os_lstat p w = (lookup False (w_kern w) p, w)" "os_stat p w = (lookup True (w_kern w) p, w)"
    "inode_at (w_kern w) i = Some x \<Longrightarrow> os_fstat i w = (Inr (i, x), w)"
    "inode_at (w_kern w) i = Some x \<Longrightarrow> i_kind x = Regular \<Longrightarrow> os_read i pos n w = (Inr (take n (drop pos (i_data x))), w)"
    "lookup False (w_kern w) p = Inr (i, x) \<Longrightarrow> i_kind x = Regular \<Longrightarrow> os_open wr p w = (Inr i, w)"
  using assms by (simp_all add: os_lstat_def os_stat_def os_fstat_def os_read_def os_open_def sys_reads_quiet)

lemma open_quiet:
  assumes "w_events w = []" "lookup False (w_kern w) p = Inr (i, x)" "i_kind x = Regular"
  shows "open_regular wr p w = (Inr (i, (i, x)), w)"
  using assms lookup_inode [OF assms(2)]
  by (simp add: open_regular_def abind_def aseq_def aguard_def aret_def is_reg_def os_calls_quiet)

lemma read_loop_quiet:
  "w_events w = [] \<Longrightarrow> inode_at (w_kern w) i = Some x \<Longrightarrow> i_kind x = Regular \<Longrightarrow> data = take (length data) (i_data x) \<Longrightarrow>
    \<forall>m \<in> set_option maximum. length (i_data x) \<le> m \<Longrightarrow> read_loop maximum i data w = (Inr (i_data x), w)"
proof (induction maximum i data w rule: read_loop.induct)
  case (1 maximum i data w)
  let ?n = "request maximum data" and ?b = "take (request maximum data) (drop (length data) (i_data x))"
  have ld: "length data \<le> length (i_data x)" using 1(5) by (metis length_take min.cobounded1)
  then have n: "?n \<noteq> 0" using 1(6) by (cases maximum) (auto simp: request_def CHUNK_def)
  have r: "os_read i (length data) ?n w = (Inr ?b, w)" using 1(2-4) by (rule os_calls_quiet(4))
  show ?case
  proof (cases "?b = []")
    case True
    then have "length (i_data x) \<le> length data" using n by simp
    then have "data = i_data x" using 1(5) by (metis take_all)
    moreover have "read_loop maximum i data w = (Inr data, w)" using n r True by (subst read_loop.simps) simp
    ultimately show ?thesis by simp
  next
    case False
    have "length (data @ ?b) \<le> length (i_data x)" using take_extend [OF 1(5) refl, of ?n] by (metis length_take min.cobounded1)
    then have ov: "\<not> over maximum (data @ ?b)" using 1(6) by (cases maximum) (auto simp: over_def)
    have "read_loop maximum i data w = read_loop maximum i (data @ ?b) w" using n r False ov by (subst read_loop.simps) simp
    with 1(1) [OF n r [symmetric] refl False ov 1(2-4) take_extend [OF 1(5) refl] 1(6)] show ?thesis by simp
  qed
qed

text \<open>A file nobody touches is read in full.\<close>

lemma read_regular_quiet:
  assumes "w_events w = []" "lookup False (w_kern w) p = Inr (i, x)" "i_kind x = Regular" "\<forall>m \<in> set_option maximum. length (i_data x) \<le> m"
    and "\<forall>e \<in> set_option expected. e = inode_identity (i, x)"
  shows "read_regular_file p maximum expected w = (Inr (i_data x), w)"
proof -
  have "inode_at (w_kern w) i = Some x" using lookup_inode [OF assms(2)] by simp
  moreover from this have "read_loop maximum i [] w = (Inr (i_data x), w)" by (rule read_loop_quiet [OF assms(1) _ assms(3) _ assms(4)]) simp
  ultimately show ?thesis
    using assms open_quiet [OF assms(1-3), of False]
    by (cases expected) (simp_all add: read_regular_file_def stable_after_def abind_def aseq_def aguard_def aret_def st_size_def os_calls_quiet)
qed

end
