(* ===== verification/ObjKey.thy ===== *)
theory ObjKey
  imports PyJson
begin

text \<open>
  The keys of the object cache, \<open>scripts/stage1_object_cache.py\<close>: the serialized compiler
  environment and the number of parallel emission jobs.
\<close>

section \<open>The environment\<close>

definition KEY_HEAD :: string where
  "KEY_HEAD = ''elisac-stage1-environment-v1'' @ [CHR 0x00]"

definition keyed :: "string \<Rightarrow> bool" where
  "keyed name \<longleftrightarrow> (starts_with ''ELISA_'' name \<or> starts_with ''ELISACORE_'' name) \<and> \<not> starts_with ''ELISA_STAGE1_CACHE'' name"

definition env_record :: "string \<times> string \<Rightarrow> string" where
  "env_record = (\<lambda>(name, value). name @ ''='' @ value @ [CHR 0x00])"

definition environment_key :: "(string, string) dict \<Rightarrow> string" where
  "environment_key environ = KEY_HEAD @ concat (map env_record (filter (\<lambda>(n, _). keyed n) (sort_keys environ)))"

text \<open>What the operating system guarantees of an environment.\<close>

definition env_wf :: "(string, string) dict \<Rightarrow> bool" where
  "env_wf e \<longleftrightarrow> distinct (dkeys e) \<and> list_all (\<lambda>(n, v). CHR ''='' \<notin> set n \<and> CHR 0x00 \<notin> set n \<and> CHR 0x00 \<notin> set v) e"

section \<open>Parallel jobs\<close>

fun emit_jobs :: "nat \<Rightarrow> string \<Rightarrow> nat" where
  "emit_jobs jobs [] = max 1 jobs"
| "emit_jobs jobs (b # bs) = (if code b < 48 \<or> 57 < code b then max 1 jobs
     else let j = jobs * 10 + (code b - 48) in if 64 < j then 64 else emit_jobs j bs)"

definition parallel_emit_jobs :: "string \<Rightarrow> nat" where
  "parallel_emit_jobs value = emit_jobs 0 value"

section \<open>The key determines the environment\<close>

definition env_entry :: "string \<times> string \<Rightarrow> bool" where
  "env_entry = (\<lambda>(n, v). CHR ''='' \<notin> set n \<and> CHR 0x00 \<notin> set n \<and> CHR 0x00 \<notin> set v)"

lemma split_unique: "a @ c # x = b @ c # y \<Longrightarrow> c \<notin> set a \<Longrightarrow> c \<notin> set b \<Longrightarrow> a = b \<and> x = y"
proof -
  assume a: "a @ c # x = b @ c # y" "c \<notin> set a" "c \<notin> set b"
  have "takeWhile (\<lambda>z. z \<noteq> c) (a @ c # x) = a" "takeWhile (\<lambda>z. z \<noteq> c) (b @ c # y) = b"
    using a(2,3) by (auto simp: takeWhile_append1 takeWhile_append2 takeWhile_tail)
  with a(1) show ?thesis by auto
qed

lemma env_records_inj:
  "concat (map env_record xs) = concat (map env_record ys) \<Longrightarrow> list_all env_entry xs \<Longrightarrow> list_all env_entry ys \<Longrightarrow> xs = ys"
proof (induction xs arbitrary: ys)
  case Nil
  then show ?case by (cases ys) (auto simp: env_record_def)
next
  case (Cons x xs)
  obtain n v where x: "x = (n, v)" by fastforce
  with Cons.prems(1) obtain y zs where ys: "ys = y # zs" by (cases ys) (auto simp: env_record_def)
  obtain m u where p: "x = (n, v)" "y = (m, u)" using x by fastforce
  have e: "n @ CHR ''='' # v @ CHR 0x00 # concat (map env_record xs) = m @ CHR ''='' # u @ CHR 0x00 # concat (map env_record zs)"
    using Cons.prems(1) by (simp add: ys p env_record_def)
  have "n = m \<and> v @ CHR 0x00 # concat (map env_record xs) = u @ CHR 0x00 # concat (map env_record zs)"
    using split_unique [OF e] Cons.prems(2,3) by (simp add: ys p env_entry_def)
  moreover from this have r: "v @ CHR 0x00 # concat (map env_record xs) = u @ CHR 0x00 # concat (map env_record zs)" by simp
  have "v = u \<and> concat (map env_record xs) = concat (map env_record zs)"
    using split_unique [OF r] Cons.prems(2,3) by (simp add: ys p env_entry_def)
  ultimately show ?case using Cons.IH [of zs] Cons.prems(2,3) by (simp add: ys p)
qed

definition keyed_part :: "(string, string) dict \<Rightarrow> (string, string) dict" where
  "keyed_part e = filter (\<lambda>(n, _). keyed n) (sort_keys e)"

lemma keyed_entries: "env_wf e \<Longrightarrow> list_all env_entry (keyed_part e)"
  by (auto simp: env_wf_def keyed_part_def env_entry_def list_all_iff)

lemma dget_keyed_part: "env_wf e \<Longrightarrow> dget (keyed_part e) n = (if keyed n then dget e n else None)"
  by (simp add: keyed_part_def dget_filter [of keyed] dget_sort_keys env_wf_def dkeys_def)

lemma keyed_part_sorted: "env_wf e \<Longrightarrow> sorted (map fst (keyed_part e)) \<and> distinct (map fst (keyed_part e))"
proof -
  assume "env_wf e"
  then have "distinct (map fst (sort_keys e))" by (simp add: map_fst_sort_keys env_wf_def dkeys_def)
  then show ?thesis using sorted_filter [of fst "sort_keys e"] by (auto simp: keyed_part_def sort_keys_def intro: distinct_map_filter)
qed

lemma keyed_part_ext:
  assumes "env_wf a" "env_wf b" "\<forall>n. dget (keyed_part a) n = dget (keyed_part b) n"
  shows "keyed_part a = keyed_part b"
proof -
  note s = keyed_part_sorted [OF assms(1)] keyed_part_sorted [OF assms(2)]
  have "set (keyed_part a) = set (keyed_part b)"
    using s assms(3) map_of_inject_set [of "keyed_part a" "keyed_part b"] by (auto simp: dget_def fun_eq_iff)
  moreover from this have "inj_on fst (set (keyed_part a) \<union> set (keyed_part b))" using s by (simp add: distinct_map)
  ultimately show ?thesis using s map_sorted_distinct_set_unique [of fst "keyed_part a" "keyed_part b"] by blast
qed

text \<open>
  C35. Two environments have the same key exactly when every compiler variable that is not a cache
  setting has the same value, or none, in both: no two different settings are confused by line
  breaks or other bytes in the values, and no other variable matters.
\<close>

theorem environment_key_exact:
  assumes "env_wf a" "env_wf b"
  shows "environment_key a = environment_key b \<longleftrightarrow> (\<forall>n. keyed n \<longrightarrow> dget a n = dget b n)"
proof -
  have "environment_key a = environment_key b \<longleftrightarrow> keyed_part a = keyed_part b"
    using env_records_inj [OF _ keyed_entries [OF assms(1)] keyed_entries [OF assms(2)]]
    by (auto simp: environment_key_def keyed_part_def)
  also have "\<dots> \<longleftrightarrow> (\<forall>n. dget (keyed_part a) n = dget (keyed_part b) n)"
    using keyed_part_ext [OF assms] by auto
  also have "\<dots> \<longleftrightarrow> (\<forall>n. keyed n \<longrightarrow> dget a n = dget b n)"
    by (simp add: dget_keyed_part assms)
  finally show ?thesis .
qed

theorem environment_key_exact_witness:
  "let a = [(''ELISA_X'', ''1'' @ [CHR 0x0A] @ ''ELISA_Y=2''), (''PATH'', ''/bin'')]; b = [(''PATH'', ''/usr/bin''), (''ELISA_Y'', ''2''), (''ELISA_X'', ''1'')]
   in env_wf a \<and> env_wf b \<and> environment_key a \<noteq> environment_key b"
proof -
  let ?a = "[(''ELISA_X'', ''1'' @ [CHR 0x0A] @ ''ELISA_Y=2''), (''PATH'', ''/bin'')]"
  let ?b = "[(''PATH'', ''/usr/bin''), (''ELISA_Y'', ''2''), (''ELISA_X'', ''1'')]"
  have w: "env_wf ?a" "env_wf ?b" by (simp_all add: env_wf_def dkeys_def)
  have "keyed ''ELISA_Y''" "dget ?a ''ELISA_Y'' \<noteq> dget ?b ''ELISA_Y''" by (simp_all add: keyed_def dget_def)
  then show ?thesis using environment_key_exact [OF w] w by (auto simp: Let_def)
qed

text \<open>
  The job count is the number the leading decimal digits of the setting spell, at least 1 and at
  most 64, whatever follows them and however long they are.
\<close>

theorem parallel_emit_jobs_exact:
  "parallel_emit_jobs s = max 1 (min 64 (foldl (\<lambda>n c. n * 10 + (code c - 48)) 0 (takeWhile is_digit s)))"
proof -
  let ?v = "\<lambda>n s. foldl (\<lambda>n c. n * 10 + (code c - 48)) n (takeWhile is_digit s)"
  have dig: "is_digit c \<longleftrightarrow> \<not> (code c < 48 \<or> 57 < code c)" for c by (auto simp: is_digit_def)
  have grow: "n \<le> ?v n s" for n s
  proof (induction s arbitrary: n)
    case (Cons c s)
    then show ?case using le_trans [OF _ Cons [of "n * 10 + (code c - 48)"], of n] by simp
  qed simp
  have "jobs \<le> 64 \<Longrightarrow> emit_jobs jobs s = max 1 (min 64 (?v jobs s))" for jobs
  proof (induction s arbitrary: jobs)
    case (Cons c s)
    show ?case
    proof (cases "is_digit c \<and> 64 < jobs * 10 + (code c - 48)")
      case True
      then have "64 < ?v jobs (c # s)" using le_trans [OF _ grow [of "jobs * 10 + (code c - 48)" s], of 65] by simp
      then have "max 1 (min 64 (?v jobs (c # s))) = 64" by linarith
      moreover have "emit_jobs jobs (c # s) = 64" using True dig [of c] by (simp only: emit_jobs.simps Let_def if_False if_True)
      ultimately show ?thesis by simp
    next
      case False
      then show ?thesis using Cons.IH [of "jobs * 10 + (code c - 48)"] Cons.prems dig [of c] by (auto simp: Let_def)
    qed
  qed simp
  then show ?thesis by (simp add: parallel_emit_jobs_def)
qed

end
