(* ===== verification/ObjDeps.thy ===== *)
theory ObjDeps
  imports ObjFile ObjKey
begin

text \<open>
  The dependency index of the object cache, \<open>scripts/stage1_object_cache.py\<close>: the records of a
  compiler's dependency report, their two digests, and the index file that lets a later run
  find the digests again without running the compiler. File names are their bytes.
\<close>

section \<open>Records\<close>

definition MAX_DEPENDENCIES :: nat where
  "MAX_DEPENDENCIES = 100000"

definition MAX_DEPENDENCY_INDEX_BYTES :: nat where
  "MAX_DEPENDENCY_INDEX_BYTES = 16777216"

definition DEPENDENCY_INDEX_SCHEMA :: string where
  "DEPENDENCY_INDEX_SCHEMA = ''elisac-stage1-dependency-index-v3''"

text \<open>\<open>str(Path(p).resolve(strict=True))\<close>, as one call.\<close>

definition path_resolve :: "string \<Rightarrow> (world, string) act" where
  "path_resolve p = sys_reads (\<lambda>k. rmap (\<lambda>q. if q = [] then ''/'' else q) (locate True k p))"

definition identify :: "(string \<Rightarrow> string) \<Rightarrow> string \<Rightarrow> json option \<Rightarrow> (world, (string \<times> json) list) act" where
  "identify sha resolved previous = abind (unchanged_fingerprint resolved previous)
     (\<lambda>known. case known of Some f \<Rightarrow> aret f | None \<Rightarrow> fingerprint sha resolved)"

definition record_value :: "string \<Rightarrow> string \<Rightarrow> (string \<times> json) list \<Rightarrow> json" where
  "record_value path resolved f = JObj ([(''path'', JStr path), (''resolved_path'', JStr resolved)] @ f)"

fun record_loop :: "(string \<Rightarrow> string) \<Rightarrow> (string, json) dict \<Rightarrow> string list \<Rightarrow> string list \<Rightarrow> (world, json list) act" where
  "record_loop sha previous seen [] = aret []"
| "record_loop sha previous seen (s # ss) =
     aseq (aguard (length seen < MAX_DEPENDENCIES) (ValueError ''dependency report exceeds its path limit''))
     (aseq (aguard (s \<noteq> [] \<and> CHR 0x00 \<notin> set s) (ValueError ''invalid dependency path''))
     (abind (path_resolve s) (\<lambda>resolved.
     abind (identify sha resolved (dget previous s)) (\<lambda>f.
     aseq (aguard (s \<notin> set seen) (ValueError ''dependency report repeats a path''))
     (abind (record_loop sha previous (s # seen) ss) (\<lambda>rs.
     aret (record_value s resolved f # rs)))))))"

definition dependency_records :: "(string \<Rightarrow> string) \<Rightarrow> string list \<Rightarrow> string \<Rightarrow> (string, json) dict \<Rightarrow> (world, string \<times> json list) act" where
  "dependency_records sha paths root previous =
     abind (path_resolve root) (\<lambda>root_path.
     abind (record_loop sha previous [] paths) (\<lambda>records.
     aseq (aguard (records \<noteq> [] \<and> jat ''resolved_path'' (hd records) = JStr root_path)
       (ValueError ''dependency report does not begin with its root source''))
     (aret (root_path, records))))"

definition selected :: "string list \<Rightarrow> json \<Rightarrow> json" where
  "selected ks r = JObj (map (\<lambda>k. (k, jat k r)) ks)"

definition digest_of :: "(string \<Rightarrow> string) \<Rightarrow> string list \<Rightarrow> string \<Rightarrow> json list \<Rightarrow> string" where
  "digest_of sha ks root records = sha (canonical (JObj [(''root'', JStr root), (''dependencies'', JList (map (selected ks) records))]))"

definition dependency_graph_digest :: "(string \<Rightarrow> string) \<Rightarrow> string \<Rightarrow> json list \<Rightarrow> string" where
  "dependency_graph_digest sha = digest_of sha [''path'', ''resolved_path'', ''size'', ''sha256'']"

definition dependency_identity_digest :: "(string \<Rightarrow> string) \<Rightarrow> string \<Rightarrow> json list \<Rightarrow> string" where
  "dependency_identity_digest sha = digest_of sha [''path'', ''resolved_path'', ''device'', ''inode'', ''mtime_ns'', ''ctime_ns'']"

section \<open>The compiler's report\<close>

function report_loop :: "nat \<Rightarrow> string \<Rightarrow> string list result" where
  "report_loop n raw =
     (if raw = [] then Inr []
      else if hd raw = CHR 0x0A then Inl (ValueError ''dependency report contains an empty path'')
      else if MAX_DEPENDENCIES \<le> n then Inl (ValueError ''dependency report exceeds its path limit'')
      else (case split1 (CHR 0x0A) raw of
          (h, None) \<Rightarrow> Inr [h]
        | (h, Some t) \<Rightarrow> rmap (Cons h) (report_loop (Suc n) t)))"
  by pat_completeness auto
termination
proof (relation "measure (\<lambda>(n, raw). length raw)", simp)
  fix n raw x h y t
  assume "(h, y) = split1 (CHR 0x0A) raw" "y = Some t"
  then have "dropWhile (\<lambda>c. c \<noteq> CHR 0x0A) raw = CHR 0x0A # t"
    by (auto simp: split1_def Let_def dropWhile_eq_Cons_conv split: list.splits)
  then show "((Suc n, t), n, raw) \<in> measure (\<lambda>(n, raw). length raw)"
    using length_dropWhile_le [of "\<lambda>c. c \<noteq> CHR 0x0A" raw] by simp
qed

declare report_loop.simps [simp del]

definition report_paths :: "string \<Rightarrow> string list result" where
  "report_paths raw = (let r = (if ends_with [CHR 0x0A] raw then drop_last 1 raw else raw) in
     if ends_with [CHR 0x0A] raw \<and> ends_with [CHR 0x0A] r then Inl (ValueError ''dependency report contains an empty path'')
     else if r = [] then Inl (ValueError ''empty dependency report'')
     else report_loop 0 r)"

definition dependencies_from_output :: "(string \<Rightarrow> string) \<Rightarrow> string \<Rightarrow> string \<Rightarrow> (world, string \<times> json list) act" where
  "dependencies_from_output sha path root =
     abind (read_regular_file path (Some MAX_DEPENDENCY_INDEX_BYTES) None) (\<lambda>raw.
     abind (areads (\<lambda>_. report_paths raw)) (\<lambda>spellings.
     dependency_records sha spellings root []))"

section \<open>The index file\<close>

definition index_manifest :: "(string \<Rightarrow> string) \<Rightarrow> string \<Rightarrow> string \<Rightarrow> json list \<Rightarrow> json" where
  "index_manifest sha base_key root records = JObj [(''schema'', JStr DEPENDENCY_INDEX_SCHEMA), (''base_key'', JStr base_key),
     (''root'', JStr root), (''dependencies'', JList records), (''graph_sha256'', JStr (dependency_graph_digest sha root records)),
     (''identity_sha256'', JStr (dependency_identity_digest sha root records))]"

definition write_dependency_manifest :: "string \<Rightarrow> json \<Rightarrow> (world, bool) act" where
  "write_dependency_manifest index manifest =
     (if MAX_DEPENDENCY_INDEX_BYTES < length (canonical manifest) then aret False
      else aseq (make_dirs (parent_path index))
        (abind (mkstemp (parent_path index) (path_name index @ ''.incoming.'')) (\<lambda>(i, tmp).
         aseq (afin (aseq (os_write i 0 (canonical manifest)) (os_rename tmp index)) (os_unlink tmp)) (aret True))))"

definition RECORD_KEYS :: "string list" where
  "RECORD_KEYS = [''path'', ''resolved_path'', ''device'', ''inode'', ''mtime_ns'', ''ctime_ns'', ''size'', ''sha256'']"

definition INDEX_KEYS :: "string list" where
  "INDEX_KEYS = [''schema'', ''base_key'', ''root'', ''dependencies'', ''graph_sha256'', ''identity_sha256'']"

definition jlist :: "json \<Rightarrow> json list" where
  "jlist v = (case v of JList vs \<Rightarrow> vs | _ \<Rightarrow> [])"

definition record_path :: "json \<Rightarrow> string" where
  "record_path r = (case jat ''path'' r of JStr s \<Rightarrow> s | _ \<Rightarrow> [])"

definition previous_of :: "json list \<Rightarrow> (string, json) dict" where
  "previous_of rs = fold (\<lambda>r d. dset (record_path r) r d) rs []"

text \<open>What is checked of a parsed index before its dependencies are looked at.\<close>

definition index_ok :: "string \<Rightarrow> string \<Rightarrow> json \<Rightarrow> bool" where
  "index_ok base_key root m \<longleftrightarrow> jat ''schema'' m = JStr DEPENDENCY_INDEX_SCHEMA \<and> jat ''base_key'' m = JStr base_key \<and>
     jat ''root'' m = JStr root \<and> (let vs = jlist (jat ''dependencies'' m) in jat ''dependencies'' m = JList vs \<and>
       length vs \<le> MAX_DEPENDENCIES \<and> list_all (\<lambda>r. has_keys RECORD_KEYS r \<and> is_str (jat ''path'' r)) vs)"

definition check_index :: "(string \<Rightarrow> string) \<Rightarrow> string \<Rightarrow> string \<Rightarrow> json \<Rightarrow> (world, (string \<times> string) option) act" where
  "check_index sha base_key root m =
     (if \<not> has_keys INDEX_KEYS m then aret None
      else abind (path_resolve root) (\<lambda>expected_root.
        if \<not> index_ok base_key expected_root m then aret None
        else (let rs = jlist (jat ''dependencies'' m) in
          abind (dependency_records sha (map record_path rs) root (previous_of rs)) (\<lambda>(root_value, records).
          let graph = dependency_graph_digest sha root_value records; ident = dependency_identity_digest sha root_value records in
          if py_eq (JList records) (JList rs) \<and> jat ''graph_sha256'' m = JStr graph \<and> jat ''identity_sha256'' m = JStr ident
          then aret (Some (graph, ident)) else aret None))))"

definition index_caught :: "py_exn \<Rightarrow> bool" where
  "index_caught e = (is_os_error e \<or> (case e of RuntimeError _ \<Rightarrow> True | ValueError _ \<Rightarrow> True | TypeError \<Rightarrow> True | KeyError _ \<Rightarrow> True | _ \<Rightarrow> False))"

definition read_dependencies :: "(string \<Rightarrow> string) \<Rightarrow> string \<Rightarrow> string \<Rightarrow> string \<Rightarrow> (world, (string \<times> string) option) act" where
  "read_dependencies sha index base_key root = acatch
     (abind (read_regular_file index (Some MAX_DEPENDENCY_INDEX_BYTES) None) (\<lambda>raw.
      abind (areads (\<lambda>_. json_loads raw)) (check_index sha base_key root)))
     (\<lambda>e. if index_caught e then aret None else araise e)"

definition store_dependencies :: "(string \<Rightarrow> string) \<Rightarrow> string \<Rightarrow> string \<Rightarrow> string \<Rightarrow> string \<Rightarrow> (world, string \<times> string) act" where
  "store_dependencies sha index base_key report root =
     abind (dependencies_from_output sha report root) (\<lambda>(root_value, records).
     aseq (write_dependency_manifest index (index_manifest sha base_key root_value records))
     (aret (dependency_graph_digest sha root_value records, dependency_identity_digest sha root_value records)))"

text \<open>The snapshot must hold against a second dependency pass before it becomes the index.\<close>

definition confirm_dependencies :: "(string \<Rightarrow> string) \<Rightarrow> string \<Rightarrow> string \<Rightarrow> string \<Rightarrow> string \<Rightarrow> string \<Rightarrow> (world, (string \<times> string) option) act" where
  "confirm_dependencies sha snapshot index base_key report root =
     abind (read_dependencies sha snapshot base_key root) (\<lambda>state. case state of
       None \<Rightarrow> aret None
     | Some st \<Rightarrow>
         abind (read_regular_file snapshot (Some MAX_DEPENDENCY_INDEX_BYTES) None) (\<lambda>raw.
         abind (areads (\<lambda>_. json_loads raw)) (\<lambda>manifest.
         abind (dependencies_from_output sha report root) (\<lambda>(root_value, records).
         abind (areads (\<lambda>_. jget ''root'' manifest)) (\<lambda>mroot.
         if mroot \<noteq> JStr root_value then aret None
         else abind (areads (\<lambda>_. jget ''dependencies'' manifest)) (\<lambda>deps.
         let graph = dependency_graph_digest sha root_value records; ident = dependency_identity_digest sha root_value records in
         if \<not> py_eq (JList records) deps then aret None
         else if st \<noteq> (graph, ident) then aret None
         else abind (write_dependency_manifest index manifest) (\<lambda>written.
           aret (if written then Some (graph, ident) else None))))))))"

section \<open>What the records say\<close>
















section \<open>A hit in the index\<close>





















text \<open>A recording and a later run that finds its index.\<close>

definition demo_sources :: "inode \<Rightarrow> (string \<times> inode) list" where
  "demo_sources idx = [(''/a'', plain_file ''x'' 3), (''/b'', plain_file ''yy'' 4), (''/r'', plain_file (''/a'' @ [CHR 0x0A] @ ''/b'' @ [CHR 0x0A]) 5), (''/i'', idx)]"

definition demo_first :: world where
  "demo_first = demo_world (demo_sources (plain_file [] 6)) []"

definition demo_records :: "json list" where
  "demo_records = snd (projr (fst (dependencies_from_output demo_sha ''/r'' ''/a'' demo_first)))"

lemma demo_records_code [code]: "demo_records =
  [record_value ''/a'' ''/a'' [(''device'', JInt 1), (''inode'', JInt 1), (''mtime_ns'', JInt 3), (''ctime_ns'', JInt 3), (''size'', JInt 1),
     (''sha256'', JStr ''0000000000000000000000000000000000000000000000000000000000000001'')],
   record_value ''/b'' ''/b'' [(''device'', JInt 1), (''inode'', JInt 2), (''mtime_ns'', JInt 4), (''ctime_ns'', JInt 4), (''size'', JInt 2),
     (''sha256'', JStr ''0000000000000000000000000000000000000000000000000000000000000002'')]]"
  by code_simp





section \<open>The report\<close>

lemma report_loop_split:
  "report_loop n raw = Inr ps \<Longrightarrow> raw \<noteq> [] \<Longrightarrow> last raw \<noteq> CHR 0x0A \<Longrightarrow> ps = split_on (CHR 0x0A) raw \<and> list_all (\<lambda>p. p \<noteq> []) ps \<and> n + length ps \<le> MAX_DEPENDENCIES"
proof (induction n raw arbitrary: ps rule: report_loop.induct)
  case (1 n raw)
  let ?h = "takeWhile (\<lambda>c. c \<noteq> CHR 0x0A) raw" and ?t = "dropWhile (\<lambda>c. c \<noteq> CHR 0x0A) raw"
  have g: "hd raw \<noteq> CHR 0x0A" "n < MAX_DEPENDENCIES" using 1(2,3) by (subst (asm) report_loop.simps; auto split: if_splits)+
  have h: "?h \<noteq> []" using g(1) 1(3) by (cases raw) auto
  show ?case
  proof (cases ?t)
    case Nil
    then have "CHR 0x0A \<notin> set raw" by (simp add: dropWhile_eq_Nil_conv) blast
    moreover from this have "?h = raw" by (intro takeWhile_eq_all_conv [THEN iffD2]) blast
    moreover have "ps = [?h]" using 1(2,3) g Nil by (subst (asm) report_loop.simps) (simp add: split1_def)
    ultimately show ?thesis using g h by (simp add: split_on_id)
  next
    case (Cons c t)
    then have c: "c = CHR 0x0A" by (simp add: dropWhile_eq_Cons_conv)
    have raw: "raw = ?h @ CHR 0x0A # t" using Cons c by (metis takeWhile_dropWhile_id)
    have t: "t \<noteq> [] \<and> last t \<noteq> CHR 0x0A" using 1(4) raw by (metis last_appendR last_ConsL last_ConsR list.distinct(1))
    have sp: "split1 (CHR 0x0A) raw = (?h, Some t)" using Cons by (simp add: split1_def)
    then obtain qs where q: "report_loop (Suc n) t = Inr qs" "ps = ?h # qs"
      using 1(2,3) g by (subst (asm) report_loop.simps) (auto simp: rmap_Inr)
    have ih: "qs = split_on (CHR 0x0A) t \<and> list_all (\<lambda>p. p \<noteq> []) qs \<and> Suc n + length qs \<le> MAX_DEPENDENCIES"
      using 1(1) [OF 1(3) g(1) _ sp [symmetric] refl q(1)] g(2) t by auto
    have "split_on (CHR 0x0A) raw = ?h # split_on (CHR 0x0A) t"
      by (subst raw) (rule split_on_append, auto dest: set_takeWhileD)
    then show ?thesis using ih q(2) h by auto
  qed
qed

lemma report_loop_join:
  "list_all (\<lambda>p. p \<noteq> [] \<and> CHR 0x0A \<notin> set p) ps \<Longrightarrow> n + length ps \<le> MAX_DEPENDENCIES \<Longrightarrow> report_loop n (join [CHR 0x0A] ps) = Inr ps"
proof (induction ps arbitrary: n)
  case (Cons p ps)
  have tw: "takeWhile (\<lambda>c. c \<noteq> CHR 0x0A) p = p" "dropWhile (\<lambda>c. c \<noteq> CHR 0x0A) p = []" "p \<noteq> []"
    using Cons.prems(1) by (auto simp: takeWhile_eq_all_conv dropWhile_eq_Nil_conv)
  moreover have "hd p \<noteq> CHR 0x0A" using Cons.prems(1) by (cases p) auto
  note tw = this calculation
  show ?case
  proof (cases ps)
    case Nil
    have "split1 (CHR 0x0A) p = (p, None)" unfolding split1_def Let_def tw by simp
    then show ?thesis using Nil tw(1,4) Cons.prems(2) by (subst report_loop.simps) simp
  next
    case (Cons q qs)
    then have j: "join [CHR 0x0A] (p # ps) = p @ CHR 0x0A # join [CHR 0x0A] ps" by simp
    have "split1 (CHR 0x0A) (p @ CHR 0x0A # join [CHR 0x0A] ps) = (p, Some (join [CHR 0x0A] ps))"
      using tw by (simp add: split1_def takeWhile_append dropWhile_append)
    moreover have "report_loop (Suc n) (join [CHR 0x0A] ps) = Inr ps" using Cons.IH Cons.prems by simp
    ultimately show ?thesis unfolding j using tw Cons.prems(2) by (subst report_loop.simps) simp
  qed
qed (simp add: report_loop.simps)

lemma ends_with_last: "ends_with [c] s \<longleftrightarrow> s \<noteq> [] \<and> last s = c"
  by (auto simp: ends_with_iff) (metis append_butlast_last_id)

lemma join_last: "ps \<noteq> [] \<Longrightarrow> list_all (\<lambda>p. p \<noteq> [] \<and> d \<notin> set p) ps \<Longrightarrow> join [d] ps \<noteq> [] \<and> last (join [d] ps) \<noteq> d"
  by (induction "[d]" ps rule: join.induct) (auto simp: last_append dest: last_in_set)

text \<open>
  A dependency report is accepted exactly when it lists at least one and at most the permitted
  number of non-empty paths, one per line, with or without a line break at the end; and then
  the paths are read back in order.
\<close>

theorem report_paths_exact:
  "report_paths raw = Inr ps \<longleftrightarrow> ps \<noteq> [] \<and> length ps \<le> MAX_DEPENDENCIES \<and> list_all (\<lambda>p. p \<noteq> [] \<and> CHR 0x0A \<notin> set p) ps \<and>
     (raw = join [CHR 0x0A] ps \<or> raw = join [CHR 0x0A] ps @ [CHR 0x0A])" (is "_ \<longleftrightarrow> ?good")
proof
  assume r: "report_paths raw = Inr ps"
  let ?r = "if ends_with [CHR 0x0A] raw then drop_last 1 raw else raw"
  have raw: "raw = ?r \<or> raw = ?r @ [CHR 0x0A]" by (auto simp: ends_with_iff drop_last_def)
  have l: "report_loop 0 ?r = Inr ps" "?r \<noteq> []" "last ?r \<noteq> CHR 0x0A"
    using r by (auto simp: report_paths_def Let_def ends_with_last split: if_splits)
  note sp = report_loop_split [OF l]
  have "join [CHR 0x0A] ps = ?r" using sp join_split_on by metis
  moreover have "list_all (\<lambda>p. p \<noteq> [] \<and> CHR 0x0A \<notin> set p) ps" using sp split_on_free by (auto simp: list_all_iff)
  ultimately show ?good using sp raw split_on_not_Nil by auto
next
  assume g: ?good
  note j = join_last [of ps "CHR 0x0A"] and l = report_loop_join [of ps 0]
  have "drop_last 1 (join [CHR 0x0A] ps @ [CHR 0x0A]) = join [CHR 0x0A] ps" by (simp add: drop_last_def)
  then show "report_paths raw = Inr ps" using g j l by (auto simp: report_paths_def Let_def ends_with_last)
qed

end
