(* ===== verification/ObjStore.thy ===== *)
theory ObjStore
  imports ObjDeps
begin

text \<open>
  The entries of the object cache, \<open>scripts/stage1_object_cache.py\<close>: an object with the
  diagnostics of its compilation and a metadata file, published after a compilation and
  restored instead of a later one, while other processes may do the same.
\<close>

section \<open>Properties of open files\<close>

definition fd_inode :: "ino \<Rightarrow> (world, inode) act" where
  "fd_inode i = abind (os_fstat i) (\<lambda>st. aret (snd st))"

text \<open>\<open>None\<close> stands for an answer that cannot be had.\<close>

definition descriptor_has_extended_acl :: "ino \<Rightarrow> (world, bool option) act" where
  "descriptor_has_extended_acl i = abind (areads (\<lambda>w. Inr (w_platform w))) (\<lambda>platform.
     if platform \<noteq> ''darwin'' then aret (Some False)
     else acatch (abind (fd_inode i) (\<lambda>x. aret (i_acl x))) (\<lambda>e. aret None))"

definition PROVENANCE :: string where
  "PROVENANCE = ''com.apple.provenance''"

definition attr_names :: "inode \<Rightarrow> string option" where
  "attr_names x = map_option (\<lambda>as. concat (map (\<lambda>(n, _). n @ [CHR 0x00]) as)) (i_xattrs x)"

definition list_attrs :: "ino \<Rightarrow> (world, string option) act" where
  "list_attrs i = acatch (abind (fd_inode i) (\<lambda>x. aret (attr_names x))) (\<lambda>e. aret None)"

definition descriptor_has_xattrs :: "ino \<Rightarrow> (world, bool option) act" where
  "descriptor_has_xattrs i = abind (areads (\<lambda>w. Inr (w_platform w))) (\<lambda>platform.
     if platform \<noteq> ''darwin'' \<and> \<not> starts_with ''linux'' platform then aret None
     else abind (list_attrs i) (\<lambda>first. case first of
         None \<Rightarrow> aret None
       | Some names \<Rightarrow>
           if platform = ''darwin'' \<and> length names = length PROVENANCE + 1 then
             abind (list_attrs i) (\<lambda>second. aret (case second of None \<Rightarrow> None
               | Some raw \<Rightarrow> if length raw \<noteq> length names then None else Some (raw \<noteq> PROVENANCE @ [CHR 0x00])))
           else aret (Some (names \<noteq> []))))"

definition hex_bytes :: "string \<Rightarrow> string" where
  "hex_bytes b = concat (map (\<lambda>c. [digit_char (code c div 16), digit_char (code c mod 16)]) b)"

definition get_provenance :: "ino \<Rightarrow> (world, string option) act" where
  "get_provenance i = abind (fd_inode i) (\<lambda>x. case i_xattrs x of
     None \<Rightarrow> araise (OSError ''cannot read output provenance'') | Some as \<Rightarrow> aret (dget as PROVENANCE))"

definition descriptor_provenance :: "ino \<Rightarrow> (world, string option) act" where
  "descriptor_provenance i = abind (areads (\<lambda>w. Inr (w_platform w))) (\<lambda>platform.
     if platform \<noteq> ''darwin'' then aret None
     else abind (get_provenance i) (\<lambda>first. case first of
         None \<Rightarrow> aret None
       | Some v \<Rightarrow>
           if 4096 < length v then araise (OSError ''output provenance exceeds cache metadata limit'')
           else abind (get_provenance i) (\<lambda>second.
             if map_option length second \<noteq> Some (length v) then araise (OSError ''output provenance changed while being read'')
             else aret (map_option hex_bytes second))))"

section \<open>The state of an output path\<close>

datatype out_state = Absent (out_umask: nat) (out_mode: nat) | Present (out_identity: identity) (out_mode: nat) (out_provenance: "string option")

definition parent_admitted :: "string \<Rightarrow> stat \<Rightarrow> (world, bool) act" where
  "parent_admitted dir parent = acatch
     (abind (os_opendir dir) (\<lambda>d.
      abind (os_fstat d) (\<lambda>opened.
      if file_identity parent \<noteq> file_identity opened then aret False
      else abind (areads (\<lambda>w. Inr (w_platform w))) (\<lambda>platform.
        abind (if platform \<noteq> ''darwin'' then descriptor_has_xattrs d else aret (Some False)) (\<lambda>xattrs.
        if xattrs \<noteq> Some False then aret False
        else abind (descriptor_has_extended_acl d) (\<lambda>acl.
          if acl \<noteq> Some False then aret False
          else abind (os_fstat d) (\<lambda>after.
            abind (os_stat dir) (\<lambda>current.
            aret (file_identity opened = file_identity after \<and> file_identity after = file_identity current)))))))))
     (\<lambda>e. if is_os_error e \<or> e = TypeError then aret False else araise e)"

definition open_output :: "string \<Rightarrow> stat \<Rightarrow> (world, (stat \<times> string option \<times> stat) option) act" where
  "open_output p before =
     abind (os_open True p) (\<lambda>i.
     abind (os_fstat i) (\<lambda>opened.
     if \<not> is_reg opened \<or> i_nlink (snd opened) \<noteq> 1 \<or> i_uid (snd opened) \<noteq> i_uid (snd before) \<or> i_gid (snd opened) \<noteq> i_gid (snd before) \<or>
        file_identity before \<noteq> file_identity opened then aret None
     else abind (descriptor_has_xattrs i) (\<lambda>xattrs.
       if xattrs \<noteq> Some False then aret None
       else abind (descriptor_has_extended_acl i) (\<lambda>acl.
         if acl \<noteq> Some False \<or> i_flags (snd opened) \<noteq> 0 then aret None
         else abind (descriptor_provenance i) (\<lambda>provenance.
           abind (os_lstat p) (\<lambda>after. aret (Some (opened, provenance, after))))))))"

definition existing_output :: "string \<Rightarrow> stat \<Rightarrow> stat \<Rightarrow> (world, out_state option) act" where
  "existing_output p parent before =
     (let mode = i_perm (snd before) in
      if \<not> is_reg before \<or> i_nlink (snd before) \<noteq> 1 \<or> 511 < mode then aret None
      else abind (areads (\<lambda>w. Inr (w_euid w, w_egid w))) (\<lambda>(uid, gid).
        if i_uid (snd before) \<noteq> uid \<or> i_gid (snd before) \<noteq> (if i_perm (snd parent) AND 1024 \<noteq> 0 then i_gid (snd parent) else gid) then aret None
        else acatch (abind (open_output p before) (\<lambda>r. aret (case r of None \<Rightarrow> None
          | Some (opened, provenance, after) \<Rightarrow>
              if i_nlink (snd after) \<noteq> 1 \<or> i_uid (snd after) \<noteq> i_uid (snd opened) \<or> i_gid (snd after) \<noteq> i_gid (snd opened) \<or>
                 file_identity before \<noteq> file_identity after then None
              else Some (Present (file_identity after) mode provenance))))
          (\<lambda>e. if is_os_error e then aret None else araise e)))"

definition compiler_output_state :: "string \<Rightarrow> (world, out_state option) act" where
  "compiler_output_state p = acatch
     (abind (os_stat (parent_path p)) (\<lambda>parent.
      if \<not> is_directory parent then aret None
      else abind (parent_admitted (parent_path p) parent) (\<lambda>ok.
        if \<not> ok then aret None
        else abind (acatch (abind (os_lstat p) (\<lambda>st. aret (Some st))) (\<lambda>e. if e = FileNotFoundError then aret None else araise e)) (\<lambda>found.
          case found of
            None \<Rightarrow> areads (\<lambda>w. Inr (Some (Absent (w_umask w) (mask_off 438 (w_umask w)))))
          | Some before \<Rightarrow> existing_output p parent before))))
     (\<lambda>e. if is_os_error e then aret None else araise e)"

section \<open>Entries\<close>

definition OBJECT_SCHEMA :: string where
  "OBJECT_SCHEMA = ''elisac-stage1-object-integrity-v3''"

definition MAX_OBJECT_BYTES :: nat where
  "MAX_OBJECT_BYTES = 2147483648"

definition MAX_DIAGNOSTIC_BYTES :: nat where
  "MAX_DIAGNOSTIC_BYTES = 67108864"

definition stage :: "string \<Rightarrow> (world, string \<times> (ino \<times> kind \<times> nat)) act" where
  "stage p = abind (temporary p) (\<lambda>(t, ident). \<lambda>w. (Inr (t, ident), w\<lparr>w_staged := w_staged w @ [t]\<rparr>))"

definition unstage :: "(world, unit) act" where
  "unstage = abind (areads (\<lambda>w. Inr (w_staged w))) (\<lambda>ts. aseq (aeach os_unlink ts) (aret ()))"

definition begin_operation :: "(world, unit) act" where
  "begin_operation w = (Inr (), w\<lparr>w_staged := [], w_admitted := False\<rparr>)"

definition admit :: "(world, unit) act" where
  "admit w = (Inr (), w\<lparr>w_admitted := True\<rparr>)"

text \<open>The output path before and after the work: nothing, or a plain file with one name.\<close>

datatype out_path = Declined | Missing | Plain identity

definition look_output :: "string \<Rightarrow> (world, out_path) act" where
  "look_output p = acatch
     (abind (os_lstat p) (\<lambda>st. aret (if \<not> is_reg st \<or> i_nlink (snd st) \<noteq> 1 then Declined else Plain (file_identity st))))
     (\<lambda>e. if e = FileNotFoundError then aret Missing else araise e)"

definition entry_metadata :: "string \<Rightarrow> (world, json) act" where
  "entry_metadata entry = abind (read_regular_file (entry @ ''.json'') (Some 16384) None) (\<lambda>raw. areads (\<lambda>_. json_loads raw))"

text \<open>\<open>v.get(k)\<close> on what should be a dictionary.\<close>

definition get_or_none :: "string \<Rightarrow> json \<Rightarrow> json result" where
  "get_or_none k v = (case v of JObj kvs \<Rightarrow> Inr (jat k v) | _ \<Rightarrow> Inl AttributeError)"

definition restore_object :: "(string \<Rightarrow> string) \<Rightarrow> string \<Rightarrow> string \<Rightarrow> json \<Rightarrow> out_state option \<Rightarrow> (world, (string \<times> (ino \<times> kind \<times> nat)) option) act" where
  "restore_object sha entry output metadata destination_state =
     abind (stage output) (\<lambda>(obj, obj_identity).
     let expected = jat ''object'' metadata in
     if \<not> is_dict expected \<or> \<not> int_in 0 511 (jat ''mode'' expected) then aret None
     else (let mode = (case destination_state of Some st \<Rightarrow> out_mode st
             | None \<Rightarrow> (case jat ''mode'' expected of JInt m \<Rightarrow> nat m | _ \<Rightarrow> 0)) in
       abind (copy_digest sha entry obj False MAX_OBJECT_BYTES (Some obj_identity)) (\<lambda>copied.
       if \<not> py_eq copied (selected [''size'', ''sha256''] expected) then aret None
       else abind (chmod_regular_file obj mode obj_identity) (\<lambda>obj_identity.
         case destination_state of
           Some (Present _ _ provenance) \<Rightarrow>
             abind (open_regular False obj) (\<lambda>(i, _). abind (descriptor_provenance i) (\<lambda>p.
               aret (if p \<noteq> provenance then None else Some (obj, obj_identity))))
         | _ \<Rightarrow> aret (Some (obj, obj_identity))))))"

definition restore_stream :: "(string \<Rightarrow> string) \<Rightarrow> string \<Rightarrow> string \<Rightarrow> json \<Rightarrow> string \<Rightarrow> (world, (string \<times> (ino \<times> kind \<times> nat)) option) act" where
  "restore_stream sha entry output metadata name =
     abind (stage output) (\<lambda>(target, target_identity).
     abind (copy_digest sha (entry @ ''.'' @ name) target True MAX_DIAGNOSTIC_BYTES (Some target_identity)) (\<lambda>copied.
     abind (areads (\<lambda>_. rbind (jget ''streams'' metadata) (jget name))) (\<lambda>expected.
     aret (if py_eq copied expected then Some (target, target_identity) else None))))"

definition replay :: "bool \<Rightarrow> string \<times> (ino \<times> kind \<times> nat) \<Rightarrow> (world, unit) act" where
  "replay err staged = abind (read_regular_file (fst staged) (Some MAX_DIAGNOSTIC_BYTES) (Some (snd staged))) (write_stream err)"

definition commit_entry :: "string \<Rightarrow> string \<times> (ino \<times> kind \<times> nat) \<Rightarrow> string \<times> (ino \<times> kind \<times> nat) \<Rightarrow> string \<times> (ino \<times> kind \<times> nat) \<Rightarrow> (world, bool) act" where
  "commit_entry output obj out err =
     aseq (require_staged_path (fst obj) (snd obj))
     (aseq (os_rename (fst obj) output)
     (aseq admit
     (aseq (replay True err)
     (aseq (replay False out)
     (aret True)))))"

text \<open>Everything that is checked before anything is published; \<open>None\<close> is a miss.\<close>

definition prepare_entry :: "(string \<Rightarrow> string) \<Rightarrow> string \<Rightarrow> string \<Rightarrow> string \<Rightarrow> string option \<Rightarrow>
    (world, ((string \<times> (ino \<times> kind \<times> nat)) \<times> (string \<times> (ino \<times> kind \<times> nat)) \<times> (string \<times> (ino \<times> kind \<times> nat))) option) act" where
  "prepare_entry sha entry output key destination =
     abind (os_stat (parent_path output)) (\<lambda>parent.
     if \<not> is_directory parent then aret None
     else abind (case destination of None \<Rightarrow> aret (Some None)
         | Some d \<Rightarrow> abind (compiler_output_state d) (\<lambda>st. aret (map_option Some st))) (\<lambda>state. case state of
       None \<Rightarrow> aret None
     | Some destination_state \<Rightarrow>
         abind (look_output output) (\<lambda>output_before.
         if output_before = Declined then aret None
         else abind (entry_metadata entry) (\<lambda>metadata.
         abind (areads (\<lambda>_. rbind (get_or_none ''schema'' metadata) (\<lambda>s. rbind (get_or_none ''key'' metadata) (\<lambda>k. Inr (s, k))))) (\<lambda>(s, k).
         if s \<noteq> JStr OBJECT_SCHEMA \<or> k \<noteq> JStr key then aret None
         else abind (restore_object sha entry output metadata destination_state) (\<lambda>object. case object of
           None \<Rightarrow> aret None
         | Some obj \<Rightarrow> abind (restore_stream sha entry output metadata ''stdout'') (\<lambda>stdout. case stdout of
           None \<Rightarrow> aret None
         | Some out \<Rightarrow> abind (restore_stream sha entry output metadata ''stderr'') (\<lambda>stderr. case stderr of
           None \<Rightarrow> aret None
         | Some err \<Rightarrow>
             abind (look_output output) (\<lambda>output_after.
             if output_after \<noteq> output_before then aret None
             else abind (case destination of None \<Rightarrow> aret True
                 | Some d \<Rightarrow> abind (compiler_output_state d) (\<lambda>st. aret (st = destination_state))) (\<lambda>same.
               aret (if same then Some (obj, out, err) else None)))))))))))"

definition store_caught :: "py_exn \<Rightarrow> bool" where
  "store_caught e = (is_os_error e \<or> (case e of ValueError _ \<Rightarrow> True | TypeError \<Rightarrow> True | AttributeError \<Rightarrow> True | KeyError _ \<Rightarrow> True | _ \<Rightarrow> False))"

definition restore_body :: "(string \<Rightarrow> string) \<Rightarrow> string \<Rightarrow> string \<Rightarrow> string \<Rightarrow> string option \<Rightarrow> (world, bool) act" where
  "restore_body sha entry output key destination =
     abind (prepare_entry sha entry output key destination) (\<lambda>prepared. case prepared of
       None \<Rightarrow> aret False
     | Some (obj, out, err) \<Rightarrow> commit_entry output obj out err)"

definition restore :: "(string \<Rightarrow> string) \<Rightarrow> string \<Rightarrow> string \<Rightarrow> string \<Rightarrow> string option \<Rightarrow> (world, bool) act" where
  "restore sha entry output key destination =
     aseq begin_operation
     (afin (acatch (restore_body sha entry output key destination)
       (\<lambda>e. if store_caught e then abind (areads (\<lambda>w. Inr (w_admitted w))) (\<lambda>admitted. if admitted then araise e else aret False) else araise e))
      unstage)"

section \<open>Publication\<close>

text \<open>\<open>json.dumps(v)\<close>: members in their order, a space after each comma and colon.\<close>

fun dumps :: "json \<Rightarrow> string" where
  "dumps (JList vs) = ''['' @ join '', '' (map dumps vs) @ '']''"
| "dumps (JObj kvs) = ''{'' @ join '', '' (map (\<lambda>(k, v). quoted k @ '': '' @ dumps v) kvs) @ ''}''"
| "dumps v = canonical v"

definition publish_stream :: "(string \<Rightarrow> string) \<Rightarrow> string \<Rightarrow> string option \<Rightarrow> (world, json \<times> string \<times> (ino \<times> kind \<times> nat)) act" where
  "publish_stream sha entry source =
     abind (stage entry) (\<lambda>(target, target_identity).
     abind (case source of None \<Rightarrow> aret (JObj [(''size'', JInt 0), (''sha256'', JStr (sha []))])
       | Some s \<Rightarrow> copy_digest sha s target True MAX_DIAGNOSTIC_BYTES (Some target_identity)) (\<lambda>digest.
     aret (digest, target, target_identity)))"

definition entry_value :: "string \<Rightarrow> json \<Rightarrow> nat \<Rightarrow> json \<Rightarrow> json \<Rightarrow> json" where
  "entry_value key object_digest mode out err = JObj [(''schema'', JStr OBJECT_SCHEMA), (''key'', JStr key),
     (''object'', JObj ((case object_digest of JObj kvs \<Rightarrow> kvs | _ \<Rightarrow> []) @ [(''mode'', JInt (int mode))])),
     (''streams'', JObj [(''stdout'', out), (''stderr'', err)])]"

definition put_in_place :: "string \<times> (ino \<times> kind \<times> nat) \<times> string \<Rightarrow> (world, unit) act" where
  "put_in_place payload = (case payload of (source, ident, target) \<Rightarrow> aseq (require_staged_path source ident) (os_rename source target))"

definition publish_body :: "(string \<Rightarrow> string) \<Rightarrow> string \<Rightarrow> string \<Rightarrow> string \<Rightarrow> string option \<Rightarrow> string option \<Rightarrow> (world, bool) act" where
  "publish_body sha entry output key stdout stderr =
     abind (stage entry) (\<lambda>(obj, obj_identity).
     abind (os_lstat output) (\<lambda>output_before.
     if \<not> is_reg output_before then aret False
     else (let mode = i_perm (snd output_before) mod 512 in
       abind (copy_digest sha output obj False MAX_OBJECT_BYTES (Some obj_identity)) (\<lambda>object_digest.
       abind (os_lstat output) (\<lambda>output_after.
       if \<not> is_reg output_after \<or> file_identity output_before \<noteq> file_identity output_after \<or> i_perm (snd output_after) mod 512 \<noteq> mode then aret False
       else abind (publish_stream sha entry stdout) (\<lambda>(out_digest, out, out_identity).
         abind (publish_stream sha entry stderr) (\<lambda>(err_digest, err, err_identity).
         abind (stage (entry @ ''.json'')) (\<lambda>(stamp, stamp_identity).
         aseq (write_regular_file stamp (dumps (entry_value key object_digest mode out_digest err_digest)) (Some stamp_identity))
         (aseq (aeach put_in_place [(obj, obj_identity, entry), (out, out_identity, entry @ ''.stdout''), (err, err_identity, entry @ ''.stderr'')])
         (aseq (put_in_place (stamp, stamp_identity, entry @ ''.json''))
         (aret True)))))))))))"

definition publish_caught :: "py_exn \<Rightarrow> bool" where
  "publish_caught e = (is_os_error e \<or> (case e of ValueError _ \<Rightarrow> True | _ \<Rightarrow> False))"

definition publish :: "(string \<Rightarrow> string) \<Rightarrow> string \<Rightarrow> string \<Rightarrow> string \<Rightarrow> string option \<Rightarrow> string option \<Rightarrow> (world, bool) act" where
  "publish sha entry output key stdout stderr =
     aseq begin_operation
     (afin (acatch (publish_body sha entry output key stdout stderr)
       (\<lambda>e. if publish_caught e then aret False else araise e))
      unstage)"

section \<open>A miss leaves no trace\<close>

text \<open>What this process has published and printed, which most actions leave alone.\<close>

definition published :: "world \<Rightarrow> (string \<times> ino) list \<times> string \<times> string" where
  "published w = (w_renames w, w_stdout w, w_stderr w)"

definition keeps :: "(world \<Rightarrow> 'p) \<Rightarrow> (world, 'a) act \<Rightarrow> bool" where
  "keeps f m \<longleftrightarrow> (\<forall>w r w1. m w = (r, w1) \<longrightarrow> f w1 = f w)"

lemma keepsD: "keeps f m \<Longrightarrow> m w = (r, w1) \<Longrightarrow> f w1 = f w"
  unfolding keeps_def by blast

lemma keeps_aret: "keeps f (aret x)" and keeps_araise: "keeps f (araise e)" and keeps_areads: "keeps f (areads g)"
  by (auto simp: keeps_def aret_def araise_def areads_def)

lemma keeps_abind: "keeps f m \<Longrightarrow> (\<And>x. keeps f (g x)) \<Longrightarrow> keeps f (abind m g)"
  unfolding keeps_def abind_def by (auto split: prod.splits sum.splits)

lemma keeps_aseq: "keeps f m \<Longrightarrow> keeps f k \<Longrightarrow> keeps f (aseq m k)"
  unfolding aseq_def by (rule keeps_abind)

lemma keeps_acatch: "keeps f m \<Longrightarrow> (\<And>e. keeps f (h e)) \<Longrightarrow> keeps f (acatch m h)"
  unfolding keeps_def acatch_def by (auto split: prod.splits sum.splits)

lemma keeps_afin: "keeps f m \<Longrightarrow> keeps f k \<Longrightarrow> keeps f (afin m k)"
  unfolding keeps_def afin_def by (auto split: prod.splits sum.splits)

lemma keeps_aguard: "keeps f (aguard b e)"
  by (simp add: aguard_def keeps_aret keeps_araise)

lemma keeps_aeach: "(\<And>x. keeps f (g x)) \<Longrightarrow> keeps f (aeach g xs)"
  by (induction xs) (simp_all add: keeps_aret keeps_abind)

lemma keeps_if: "keeps f m \<Longrightarrow> keeps f k \<Longrightarrow> keeps f (if b then m else k)"
  by simp

lemma keeps_case_prod: "(\<And>a b. keeps f (g a b)) \<Longrightarrow> keeps f (case x of (a, b) \<Rightarrow> g a b)"
  by (cases x) simp

lemma keeps_case_option: "keeps f m \<Longrightarrow> (\<And>x. keeps f (g x)) \<Longrightarrow> keeps f (case y of None \<Rightarrow> m | Some x \<Rightarrow> g x)"
  by (cases y) simp_all

lemma keeps_json: "(\<And>x. keeps f (g x)) \<Longrightarrow> keeps f m \<Longrightarrow> keeps f (case v of JObj x \<Rightarrow> g x | _ \<Rightarrow> m)"
  "(\<And>x. keeps f (h x)) \<Longrightarrow> keeps f m \<Longrightarrow> keeps f (case v of JStr x \<Rightarrow> h x | _ \<Rightarrow> m)"
  by (cases v; simp)+

lemmas keeps_rules = keeps_aret keeps_araise keeps_areads keeps_abind keeps_aseq keeps_acatch keeps_afin keeps_aguard keeps_aeach
  keeps_if keeps_case_prod keeps_case_option keeps_json

text \<open>A part of the process state that calls on files do not touch.\<close>

locale own_field =
  fixes f :: "world \<Rightarrow> 'p"
  assumes f_kern: "f (w\<lparr>w_kern := k\<rparr>) = f w"
    and f_events: "f (w\<lparr>w_events := es\<rparr>) = f w"
    and f_temps: "f (w\<lparr>w_temps := ts\<rparr>) = f w"
begin

lemma keeps_sys:
  assumes "\<And>w r w1. m w = (r, w1) \<Longrightarrow> f w1 = f w"
  shows "keeps f (sys m)"
  unfolding keeps_def
proof (intro allI impI)
  fix w r w1 assume a: "sys m w = (r, w1)"
  show "f w1 = f w"
  proof (cases "w_events w")
    case Nil
    with a assms [of w r w1] show ?thesis by (simp add: sys_def)
  next
    case (Cons e es)
    then show ?thesis using a assms [of "w\<lparr>w_kern := fst e (w_kern w), w_events := es\<rparr>" r w1] f_kern f_events
      by (auto simp: sys_def Let_def split: prod.splits if_splits)
  qed
qed

lemma keeps_sys_reads: "keeps f (sys_reads g)"
  unfolding sys_reads_def by (rule keeps_sys) (auto simp: areads_def)

lemma keeps_sys_touch: "keeps f (sys_touch i g)"
  unfolding sys_touch_def by (rule keeps_sys) (auto simp: f_kern split: option.splits)

lemma keeps_sys_create: "keeps f (sys_create kd m g)"
  unfolding sys_create_def
  by (rule keeps_sys) (auto simp: f_kern f_temps Let_def split: list.splits sum.splits prod.splits)

lemma keeps_calls: "keeps f (os_lstat p)" "keeps f (os_stat p)" "keeps f (os_open b p)" "keeps f (os_fstat i)" "keeps f (os_read i n m)"
    "keeps f (os_opendir p)" "keeps f (os_ftruncate i)" "keeps f (os_write i n t)" "keeps f (os_fchmod i m)"
    "keeps f (mkstemp d t)"
  by (simp_all add: os_lstat_def os_stat_def os_open_def os_fstat_def os_read_def os_opendir_def os_ftruncate_def os_write_def os_fchmod_def
      mkstemp_def keeps_sys_reads keeps_sys_touch keeps_sys_create)

lemma keeps_unlink: "keeps f (os_unlink p)"
  unfolding os_unlink_def
  by (rule keeps_sys) (auto simp: f_kern Let_def split: sum.splits prod.splits if_splits)

lemma keeps_mkdir: "keeps f (os_mkdir p)"
  unfolding os_mkdir_def by (intro keeps_rules keeps_sys_create)

lemma keeps_mkdir_ok: "keeps f m \<Longrightarrow> keeps f (mkdir_exist_ok p m)"
  unfolding mkdir_exist_ok_def path_is_dir_def by (intro keeps_rules keeps_mkdir keeps_calls)

lemma keeps_make_dirs: "keeps f (make_dirs p)"
proof (induction p rule: make_dirs.induct)
  case (1 p)
  then show ?case by (subst make_dirs.simps) (auto intro!: keeps_mkdir_ok keeps_aseq keeps_araise)
qed

lemma keeps_read_loop: "keeps f (read_loop m i d)"
proof -
  have "f w1 = f w" if "read_loop m i d w = (r, w1)" for w r w1
    using that
  proof (induction m i d w arbitrary: r w1 rule: read_loop.induct)
    case (1 m i data w)
    obtain x w2 where o: "os_read i (length data) (request m data) w = (x, w2)" by fastforce
    then have "f w2 = f w" by (rule keepsD [OF keeps_calls(5)])
    with 1 o show ?case by (subst (asm) (2) read_loop.simps) (auto split: if_splits sum.splits)
  qed
  then show ?thesis unfolding keeps_def by blast
qed

lemma keeps_copy_loop: "keeps f (copy_loop m i j d)"
proof -
  have "f w1 = f w" if "copy_loop m i j d w = (r, w1)" for w r w1
    using that
  proof (induction m i j d w arbitrary: r w1 rule: copy_loop.induct)
    case (1 m i j data w)
    obtain x w2 where o: "os_read i (length data) CHUNK w = (x, w2)" by fastforce
    then have f2: "f w2 = f w" by (rule keepsD [OF keeps_calls(5)])
    from 1(2) o show ?case
    proof (cases rule: copy_loop_cases)
      case (fail b y w3)
      then show ?thesis using f2 keepsD [OF keeps_calls(8)] by metis
    next
      case (more b u w3)
      have "\<not> m < length (data @ b)" using more(3) by simp
      from 1(1) [OF o [symmetric] more(1,2) this more(4) [symmetric] refl more(5)] show ?thesis
        using f2 keepsD [OF keeps_calls(8) more(4)] by simp
    qed (use f2 in simp)
  qed
  then show ?thesis unfolding keeps_def by blast
qed

lemma keeps_open: "keeps f (open_regular b p)"
  unfolding open_regular_def by (intro keeps_rules keeps_calls)

lemma keeps_read: "keeps f (read_regular_file p m e)"
  unfolding read_regular_file_def stable_after_def by (intro keeps_rules keeps_calls keeps_open keeps_read_loop)

lemma keeps_write: "keeps f (write_regular_file p b e)"
  unfolding write_regular_file_def by (intro keeps_rules keeps_calls keeps_open)

lemma keeps_chmod: "keeps f (chmod_regular_file p m e)"
  unfolding chmod_regular_file_def by (intro keeps_rules keeps_calls keeps_open)

lemma keeps_copy: "keeps f (copy_digest sha s t a l i)"
  unfolding copy_digest_def by (intro keeps_rules keeps_calls keeps_open keeps_copy_loop)

lemma keeps_temporary: "keeps f (temporary p)"
  unfolding temporary_def by (intro keeps_rules keeps_calls keeps_make_dirs)

lemma keeps_attrs: "keeps f (descriptor_has_extended_acl i)" "keeps f (descriptor_has_xattrs i)" "keeps f (descriptor_provenance i)"
  unfolding descriptor_has_extended_acl_def descriptor_has_xattrs_def descriptor_provenance_def list_attrs_def get_provenance_def fd_inode_def
  by (intro keeps_rules keeps_calls)+

lemma keeps_output_state: "keeps f (compiler_output_state p)"
  unfolding compiler_output_state_def parent_admitted_def existing_output_def open_output_def Let_def
  by (intro keeps_rules keeps_calls keeps_attrs)

lemma keeps_look: "keeps f (look_output p)" "keeps f (entry_metadata e)"
  unfolding look_output_def entry_metadata_def by (intro keeps_rules keeps_calls keeps_read)+

end

interpretation pub: own_field published
  by unfold_locales (simp_all add: published_def)

interpretation adm: own_field w_admitted
  by unfold_locales simp_all

lemma stage_published: "keeps published (stage p)"
proof -
  have "keeps published (\<lambda>w. (Inr (t, ident), w\<lparr>w_staged := w_staged w @ [t]\<rparr>))" for t and ident :: "ino \<times> kind \<times> nat"
    by (simp add: keeps_def published_def)
  then show ?thesis unfolding stage_def by (intro keeps_rules pub.keeps_temporary)
qed

lemma unstage_published: "keeps published unstage"
  unfolding unstage_def by (intro keeps_rules pub.keeps_unlink)

lemma begin_published: "keeps published begin_operation"
  by (simp add: keeps_def begin_operation_def published_def)

lemma case_out_state: "keeps f m \<Longrightarrow> (\<And>i k p. keeps f (g i k p)) \<Longrightarrow> keeps f (case y of Some (Present i k p) \<Rightarrow> g i k p | _ \<Rightarrow> m)"
  by (auto split: option.splits out_state.splits)

lemma restore_parts_published: "keeps published (restore_object sha entry output metadata d)" "keeps published (restore_stream sha entry output metadata n)"
  unfolding restore_object_def restore_stream_def Let_def
  by (intro keeps_rules case_out_state stage_published pub.keeps_copy pub.keeps_chmod pub.keeps_open pub.keeps_attrs)+

lemma prepare_published: "keeps published (prepare_entry sha entry output key destination)"
  unfolding prepare_entry_def
  by (intro keeps_rules restore_parts_published pub.keeps_calls pub.keeps_output_state pub.keeps_look)

lemma os_rename_failed: "os_rename a b w = (Inl e, w1) \<Longrightarrow> published w1 = published w"
  by (auto simp: os_rename_def sys_def published_def Let_def split: list.splits prod.splits if_splits sum.splits)

lemma replay_admitted: "keeps w_admitted (replay b s)"
proof -
  have "keeps w_admitted (write_stream b t)" for t
    unfolding write_stream_def by (rule adm.keeps_sys) auto
  then show ?thesis unfolding replay_def by (intro keeps_rules adm.keeps_read)
qed

text \<open>A commit that raises before it has admitted the entry has published nothing.\<close>

lemma commit_failed:
  assumes "commit_entry output obj out err w = (Inl e, w1)" "\<not> w_admitted w1"
  shows "published w1 = published w"
proof -
  obtain r w2 where q: "require_staged_path (fst obj) (snd obj) w = (r, w2)" by fastforce
  have p2: "published w2 = published w"
    using q unfolding require_staged_path_def by (rule keepsD [rotated]) (intro keeps_rules pub.keeps_calls)
  show ?thesis
  proof (cases r)
    case (Inl e')
    then show ?thesis using assms(1) q p2 by (simp add: commit_entry_def aseq_def abind_def)
  next
    case r: (Inr u)
    obtain s w3 where m: "os_rename (fst obj) output w2 = (s, w3)" by fastforce
    show ?thesis
    proof (cases s)
      case (Inl e')
      then show ?thesis using assms(1) q r m p2 os_rename_failed [OF m [unfolded Inl]] by (simp add: commit_entry_def aseq_def abind_def)
    next
      case (Inr u)
      have "aseq (replay True err) (aseq (replay False out) (aret True)) (w3\<lparr>w_admitted := True\<rparr>) = (Inl e, w1)"
        using assms(1) q r m Inr by (simp add: commit_entry_def aseq_def abind_def admit_def)
      then have "w_admitted w1"
        using keepsD [OF keeps_aseq [OF replay_admitted keeps_aseq [OF replay_admitted keeps_aret]]] by fastforce
      with assms(2) show ?thesis ..
    qed
  qed
qed

lemma restore_body_silent:
  assumes "restore_body sha entry output key destination w = (r, w1)" "r = Inr False \<or> (\<exists>e. r = Inl e) \<and> \<not> w_admitted w1"
  shows "published w1 = published w"
proof -
  obtain x w2 where p: "prepare_entry sha entry output key destination w = (x, w2)" by fastforce
  note p2 = keepsD [OF prepare_published p]
  show ?thesis
  proof (cases "\<exists>obj out err. x = Inr (Some (obj, out, err))")
    case True
    then obtain obj out err where c: "commit_entry output obj out err w2 = (r, w1)"
      using assms(1) p by (auto simp: restore_body_def abind_def)
    have "r \<noteq> Inr False"
    proof
      assume "r = Inr False"
      with c show False by (auto simp: commit_entry_def act_Inr)
    qed
    then obtain e where e: "r = Inl e" "\<not> w_admitted w1" using assms(2) by blast
    show ?thesis using commit_failed [OF c [unfolded e(1)] e(2)] p2 by simp
  next
    case False
    then have "w1 = w2" using assms(1) p by (auto simp: restore_body_def abind_def aret_def split: sum.splits option.splits)
    then show ?thesis using p2 by simp
  qed
qed

text \<open>
  C30. A restoration that answers no, whatever other processes do and whichever calls fail, has
  published nothing: it renamed no file, onto the output or anywhere else, and wrote nothing to
  the diagnostic streams, so the caller can run the compiler instead.
\<close>

theorem restore_miss_silent:
  assumes "restore sha entry output key destination w = (Inr False, w1)"
  shows "published w1 = published w"
proof -
  let ?w0 = "w\<lparr>w_staged := [], w_admitted := False\<rparr>"
  obtain s w2 t where c: "acatch (restore_body sha entry output key destination) (\<lambda>e. if store_caught e
      then abind (areads (\<lambda>w. Inr (w_admitted w))) (\<lambda>admitted. if admitted then araise e else aret False) else araise e) ?w0 = (s, w2)"
    and u: "unstage w2 = (t, w1)" and s: "s = Inr False"
    using assms by (auto simp: restore_def aseq_def abind_def begin_operation_def afin_def split: prod.splits sum.splits)
  obtain r w3 where b: "restore_body sha entry output key destination ?w0 = (r, w3)" by fastforce
  have r: "w3 = w2 \<and> (r = Inr False \<or> (\<exists>e. r = Inl e) \<and> \<not> w_admitted w3)"
    using c b s by (cases r) (auto simp: acatch_def abind_def areads_def aret_def araise_def split: if_splits)
  then have "published w2 = published ?w0" using restore_body_silent [OF b] by blast
  then show ?thesis using keepsD [OF unstage_published u] by (simp add: published_def)
qed

theorem restore_miss_silent_witness:
  "let w = demo_world [(''/e'', plain_file ''obj'' 3), (''/e.json'', plain_file ''[]'' 4)] [(id, False), (id, True)]; r = restore demo_sha ''/e'' ''/o'' ''k'' None w
   in fst r = Inr False \<and> published (snd r) = published w"
proof -
  let ?w = "demo_world [(''/e'', plain_file ''obj'' 3), (''/e.json'', plain_file ''[]'' 4)] [(id, False), (id, True)]"
  let ?r = "restore demo_sha ''/e'' ''/o'' ''k'' None ?w"
  have f: "fst ?r = Inr False" by code_simp
  then have "?r = (Inr False, snd ?r)" by (simp add: prod_eq_iff)
  from restore_miss_silent [OF this] f show ?thesis by (simp add: Let_def)
qed

end
