(* ===== verification/ObjRestore.thy ===== *)
theory ObjRestore
  imports ObjStore
begin

text \<open>
  What a successful restoration and a successful publication of the object cache have done, while
  other processes leave the private staging files alone and may do anything else.
\<close>

section \<open>Staging files\<close>












lemma temporary_within: "within (spares I) (temporary p)"
  unfolding temporary_def by (intro within_rules)

lemma stage_within: "within (spares I) (stage p)"
proof -
  have "within (spares I) (\<lambda>w. (Inr (t, ident), w\<lparr>w_staged := w_staged w @ [t]\<rparr>))" for t and ident :: "ino \<times> kind \<times> nat"
    by (rule spa.within_id) (auto simp: spa.refl)
  then show ?thesis unfolding stage_def by (intro within_rules temporary_within)
qed

lemmas stage_evolves = stage_within [where I = "{}", unfolded evolves_spares]


section \<open>The parts of an entry\<close>



























section \<open>A hit\<close>







end
