(* ===== verification/ObjPublish.thy ===== *)
theory ObjPublish
  imports ObjRestore
begin

text \<open>
  Publication in the object cache: in which order the files of an entry appear, whatever happens.
\<close>

section \<open>The order of the renames\<close>

definition entry_names :: "string \<Rightarrow> string list" where
  "entry_names entry = [entry, entry @ ''.stdout'', entry @ ''.stderr'', entry @ ''.json'']"

definition renamed :: "world \<Rightarrow> string list" where
  "renamed w = map fst (w_renames w)"

text \<open>An action that renames onto the names of a list in their order, and onto all of them if it does not raise.\<close>

definition puts :: "string list \<Rightarrow> (world, 'a) act \<Rightarrow> bool" where
  "puts ts m \<longleftrightarrow> (\<forall>w r w1. m w = (r, w1) \<longrightarrow> (\<exists>n. renamed w1 = renamed w @ take n ts \<and> (\<not> isl r \<longrightarrow> length ts \<le> n)))"

text \<open>One that may also stop early without an error.\<close>

definition may_put :: "string list \<Rightarrow> (world, 'a) act \<Rightarrow> bool" where
  "may_put ts m \<longleftrightarrow> (\<forall>w r w1. m w = (r, w1) \<longrightarrow> (\<exists>n. renamed w1 = renamed w @ take n ts))"

lemma puts_may: "puts ts m \<Longrightarrow> may_put ts m"
  unfolding puts_def may_put_def by blast

lemma published_renamed: "published w1 = published w \<Longrightarrow> renamed w1 = renamed w"
  by (simp add: published_def renamed_def)

lemma keeps_may_put: "keeps published m \<Longrightarrow> may_put ts m"
  unfolding may_put_def by (metis append_Nil2 keepsD published_renamed take_0)

lemma may_put_abind:
  assumes "keeps published m" "\<And>x. may_put ts (f x)"
  shows "may_put ts (abind m f)"
  unfolding may_put_def
proof (intro allI impI)
  fix w r w1 assume a: "abind m f w = (r, w1)"
  obtain x w2 where m: "m w = (x, w2)" by fastforce
  have p: "renamed w2 = renamed w" using keepsD [OF assms(1) m] by (rule published_renamed)
  show "\<exists>n. renamed w1 = renamed w @ take n ts"
  proof (cases x)
    case (Inl e)
    then have "w1 = w2" using a m by (simp add: abind_def)
    then show ?thesis using p by (metis append_Nil2 take_0)
  next
    case (Inr y)
    then have "f y w2 = (r, w1)" using a m by (simp add: abind_def)
    then show ?thesis using assms(2) [of y] p unfolding may_put_def by metis
  qed
qed

lemma may_put_case: "(\<And>a b. may_put ts (g a b)) \<Longrightarrow> may_put ts (case x of (a, b) \<Rightarrow> g a b)"
  by (cases x) simp

lemma may_put_if: "may_put ts m \<Longrightarrow> may_put ts k \<Longrightarrow> may_put ts (if b then m else k)"
  by simp

lemma may_put_aseq: "keeps published m \<Longrightarrow> may_put ts k \<Longrightarrow> may_put ts (aseq m k)"
  unfolding aseq_def by (rule may_put_abind)

lemma may_put_acatch:
  assumes "may_put ts m" "\<And>e w. snd (h e w) = w"
  shows "may_put ts (acatch m h)"
  unfolding may_put_def
proof (intro allI impI)
  fix w r w1 assume a: "acatch m h w = (r, w1)"
  obtain x w2 where m: "m w = (x, w2)" by fastforce
  have "w1 = w2" using a m assms(2) by (cases x) (auto simp: acatch_def dest: arg_cong [of _ _ snd])
  then show "\<exists>n. renamed w1 = renamed w @ take n ts" using assms(1) m unfolding may_put_def by blast
qed

lemma may_put_afin:
  assumes "may_put ts m" "keeps published k"
  shows "may_put ts (afin m k)"
  unfolding may_put_def
proof (intro allI impI)
  fix w r w1 assume a: "afin m k w = (r, w1)"
  obtain x w2 where m: "m w = (x, w2)" by fastforce
  obtain y w3 where k: "k w2 = (y, w3)" by fastforce
  have "w1 = w3" using a m k by (auto simp: afin_def split: sum.splits)
  then have "renamed w1 = renamed w2" using keepsD [OF assms(2) k] published_renamed by blast
  then show "\<exists>n. renamed w1 = renamed w @ take n ts" using assms(1) m unfolding may_put_def by metis
qed

lemma puts_abind:
  assumes "puts ts m" "\<And>x. puts us (f x)"
  shows "puts (ts @ us) (abind m f)"
  unfolding puts_def
proof (intro allI impI)
  fix w r w1 assume a: "abind m f w = (r, w1)"
  obtain x w2 where m: "m w = (x, w2)" by fastforce
  then obtain n where n: "renamed w2 = renamed w @ take n ts" "\<not> isl x \<longrightarrow> length ts \<le> n" using assms(1) unfolding puts_def by blast
  show "\<exists>n. renamed w1 = renamed w @ take n (ts @ us) \<and> (\<not> isl r \<longrightarrow> length (ts @ us) \<le> n)"
  proof (cases x)
    case (Inl e)
    then have "w1 = w2" "isl r" using a m by (auto simp: abind_def)
    moreover have "take n ts = take (min n (length ts)) (ts @ us)" by (simp add: min_def)
    ultimately show ?thesis using n(1) by (intro exI [of _ "min n (length ts)"]) simp
  next
    case (Inr y)
    then have "f y w2 = (r, w1)" using a m by (simp add: abind_def)
    then obtain k where "renamed w1 = renamed w2 @ take k us" "\<not> isl r \<longrightarrow> length us \<le> k" using assms(2) [of y] unfolding puts_def by blast
    then show ?thesis using n Inr by (intro exI [of _ "length ts + k"]) simp
  qed
qed

lemma puts_aseq: "puts ts m \<Longrightarrow> puts us k \<Longrightarrow> puts (ts @ us) (aseq m k)"
  unfolding aseq_def by (rule puts_abind)

lemma puts_keeps: "keeps published m \<Longrightarrow> puts [] m"
  unfolding puts_def
proof (intro allI impI)
  fix w r w1 assume "keeps published m" "m w = (r, w1)"
  then have "renamed w1 = renamed w" using keepsD published_renamed by blast
  then show "\<exists>n. renamed w1 = renamed w @ take n [] \<and> (\<not> isl r \<longrightarrow> length [] \<le> n)" by simp
qed

lemma puts_rename: "puts [b] (os_rename a b)"
  unfolding puts_def
proof (intro allI impI)
  fix w r w1 assume "os_rename a b w = (r, w1)"
  then have "renamed w1 = (if isl r then renamed w else renamed w @ [b])"
    by (auto simp: os_rename_def sys_def Let_def renamed_def split: list.splits prod.splits if_splits sum.splits)
  then show "\<exists>n. renamed w1 = renamed w @ take n [b] \<and> (\<not> isl r \<longrightarrow> length [b] \<le> n)"
    by (intro exI [of _ "if isl r then 0 else 1"]) simp
qed

lemma puts_in_place: "puts [t] (put_in_place (s, ident, t))"
proof -
  have "keeps published (require_staged_path s ident)"
    unfolding require_staged_path_def by (intro keeps_rules pub.keeps_calls)
  from puts_aseq [OF puts_keeps [OF this] puts_rename, of t s] show ?thesis by (simp add: put_in_place_def)
qed

lemma puts_each: "puts (map (\<lambda>(s, ident, t). t) ps) (aeach put_in_place ps)"
proof (induction ps)
  case (Cons p ps)
  obtain s ident t where p: "p = (s, ident, t)" by (cases p)
  have "puts [] (aret xs)" for xs :: "unit list" by (rule puts_keeps) (rule keeps_aret)
  from puts_abind [OF puts_in_place [of t s ident] puts_abind [OF Cons this]] show ?case by (simp add: p)
qed (auto intro: puts_keeps keeps_aret)

lemma publish_stream_published: "keeps published (publish_stream sha entry s)"
  unfolding publish_stream_def by (intro keeps_rules stage_published pub.keeps_copy)

lemma publish_body_order: "may_put (entry_names entry) (publish_body sha entry output key so se)"
proof -
  have fin: "puts (entry_names entry) (aseq (aeach put_in_place [(a, i, entry), (b, j, entry @ ''.stdout''), (c, k, entry @ ''.stderr'')])
      (aseq (put_in_place (d, l, entry @ ''.json'')) (aret True)))" for a b c d i j k l
    using puts_aseq [OF puts_each [of "[(a, i, entry), (b, j, entry @ ''.stdout''), (c, k, entry @ ''.stderr'')]"]
        puts_aseq [OF puts_in_place [of "entry @ ''.json''" d l] puts_keeps [OF keeps_aret [of published True]]]]
    by (simp add: entry_names_def)
  show ?thesis unfolding publish_body_def Let_def
    by (intro may_put_abind may_put_case may_put_if may_put_aseq puts_may [OF fin] keeps_may_put stage_published pub.keeps_calls
        keeps_aret pub.keeps_copy publish_stream_published pub.keeps_write)
qed

text \<open>
  C31. Whatever other processes do, whichever calls fail and however a publication ends, it renames
  onto the names of the entry in a fixed order, the object first, then the diagnostics, and the
  metadata last: no metadata ever appears for parts that have not been put in place before.
\<close>

theorem publish_metadata_last:
  "\<exists>n. map fst (w_renames (snd (publish sha entry output key so se w))) =
     map fst (w_renames w) @ take n [entry, entry @ ''.stdout'', entry @ ''.stderr'', entry @ ''.json'']"
proof -
  have "may_put (entry_names entry) (acatch (publish_body sha entry output key so se) (\<lambda>e. if publish_caught e then aret False else araise e))"
    by (rule may_put_acatch [OF publish_body_order]) (simp add: aret_def araise_def)
  then have "may_put (entry_names entry) (afin (acatch (publish_body sha entry output key so se) (\<lambda>e. if publish_caught e then aret False else araise e)) unstage)"
    by (rule may_put_afin [OF _ unstage_published])
  from may_put_aseq [OF begin_published this] have "may_put (entry_names entry) (publish sha entry output key so se)"
    unfolding publish_def .
  moreover obtain r w1 where "publish sha entry output key so se w = (r, w1)" by fastforce
  ultimately show ?thesis unfolding may_put_def renamed_def entry_names_def by fastforce
qed

end
