(* ===== verification/ObjMain.thy ===== *)
theory ObjMain
  imports ObjStore ObjKey
begin

text \<open>
  The linker that the object cache attests and its command line,
  \<open>scripts/stage1_object_cache.py\<close>. Asking Apple's \<open>xcrun\<close> for the selected linker is an argument;
  the environment is a dictionary of texts.
\<close>

section \<open>Looking for a program\<close>

text \<open>
  \<open>os.path.realpath\<close>, as one call: links are followed, and what is missing or no directory is kept
  as it is written, and so is everything when the call fails. At most 40 links are followed.
\<close>

function real_walk :: "kern \<Rightarrow> nat \<Rightarrow> string \<Rightarrow> string list \<Rightarrow> string" where
  "real_walk k n d [] = d"
| "real_walk k n d (c # cs) =
     (if c = ''..'' then real_walk k n (path_parent d) cs
      else (case stat_at k (sub d c) of
          Inr (i, x) \<Rightarrow> (case i_kind x of
              Link t \<Rightarrow> if n = 0 then fold (\<lambda>c d. sub d c) cs (sub d c)
                else real_walk k (n - 1) (if starts_with ''/'' t then [] else d) (components t @ cs)
            | _ \<Rightarrow> real_walk k n (sub d c) cs)
        | Inl _ \<Rightarrow> real_walk k n (sub d c) cs))"
  by pat_completeness auto
termination
  by (relation "measures [\<lambda>(k, n, d, cs). n, \<lambda>(k, n, d, cs). length cs]") auto

definition shown :: "string \<Rightarrow> string" where
  "shown q = (if q = [] then ''/'' else q)"

definition real_path :: "string \<Rightarrow> (world, string) act" where
  "real_path p = acatch
     (sys_reads (\<lambda>k. Inr (shown (real_walk k 40 (if starts_with ''/'' p then [] else k_cwd k) (components p)))))
     (\<lambda>e. areads (\<lambda>w. Inr (shown (real_walk \<lparr>k_names = [], k_inodes = [], k_clock = 0, k_cwd = []\<rparr> 0
        (if starts_with ''/'' p then [] else k_cwd (w_kern w)) (components p)))))"

text \<open>\<open>bytes.strip\<close>.\<close>

definition strip_bytes :: "string \<Rightarrow> string" where
  "strip_bytes s = (let ws = map char_of [32, 9, 10, 11, 12, 13 :: nat] in rstrip_chars ws (lstrip_chars ws s))"

text \<open>
  \<open>os.access(p, os.X_OK)\<close>: the bit of the class the user is in, by the real user and group and the
  supplementary groups; the superuser needs any of them.
\<close>

definition may_execute :: "world \<Rightarrow> stat \<Rightarrow> bool" where
  "may_execute w st = (let m = i_perm (snd st) in
     if w_uid w = 0 then is_directory st \<or> m AND 73 \<noteq> 0
     else if i_uid (snd st) = w_uid w then m AND 64 \<noteq> 0
     else if i_gid (snd st) \<in> set (w_gid w # w_groups w) then m AND 8 \<noteq> 0
     else m AND 1 \<noteq> 0)"

definition os_access_x :: "string \<Rightarrow> (world, bool) act" where
  "os_access_x p = acatch (abind (os_stat p) (\<lambda>st. areads (\<lambda>w. Inr (may_execute w st)))) (\<lambda>e. aret False)"

definition path_exists :: "string \<Rightarrow> (world, bool) act" where
  "path_exists p = acatch (abind (os_stat p) (\<lambda>_. aret True)) (\<lambda>e. aret False)"

text \<open>\<open>shutil.which(name, path)\<close>: the first directory of the path with an executable file of that name.\<close>

definition program_here :: "string \<Rightarrow> (world, bool) act" where
  "program_here p = abind (path_exists p) (\<lambda>e. if \<not> e then aret False
     else abind (os_access_x p) (\<lambda>x. if \<not> x then aret False else abind (path_is_dir p) (\<lambda>d. aret (\<not> d))))"

definition join_path :: "string \<Rightarrow> string \<Rightarrow> string" where
  "join_path d n = (if d = [] \<or> ends_with ''/'' d then d @ n else d @ ''/'' @ n)"

fun which_in :: "string \<Rightarrow> string list \<Rightarrow> string list \<Rightarrow> (world, string option) act" where
  "which_in name seen [] = aret None"
| "which_in name seen (d # ds) = (if d \<in> set seen then which_in name seen ds
     else abind (program_here (join_path d name)) (\<lambda>found. if found then aret (Some (join_path d name)) else which_in name (d # seen) ds))"

definition which :: "string \<Rightarrow> string \<Rightarrow> (world, string option) act" where
  "which name path = (if path = [] then aret None else which_in name [] (split_on (CHR '':'') path))"

section \<open>The object merger\<close>

definition NATIVE_MAGIC :: "string list" where
  "NATIVE_MAGIC = map (map char_of) [[127, 69, 76, 70 :: nat], [254, 237, 250, 206], [206, 250, 237, 254], [254, 237, 250, 207], [207, 250, 237, 254],
     [202, 254, 186, 190], [190, 186, 254, 202], [202, 254, 186, 191], [191, 186, 254, 202]]"

definition merger_value :: "(string \<Rightarrow> string) \<Rightarrow> string \<Rightarrow> string \<Rightarrow> string \<Rightarrow> json" where
  "merger_value sha path resolved data = JObj [(''selected'', JStr path), (''resolved'', JStr resolved), (''sha256'', JStr (sha data))]"

definition native_merger_record :: "(string \<Rightarrow> string) \<Rightarrow> string \<Rightarrow> (world, json) act" where
  "native_merger_record sha path =
     abind (real_path path) (\<lambda>resolved.
     abind (os_access_x resolved) (\<lambda>x.
     aseq (aguard x (ValueError ''object merger is not executable''))
     (abind (read_regular_file resolved (Some 536870912) None) (\<lambda>data.
     aseq (aguard (take 4 data \<in> set NATIVE_MAGIC) (ValueError ''object merger is not a native executable''))
     (abind (real_path path) (\<lambda>again.
     aseq (aguard (again = resolved) (OSError ''object merger selection changed during fingerprinting''))
     (aret (merger_value sha path resolved data))))))))"

definition dget_or :: "('k, 'v) dict \<Rightarrow> 'k \<Rightarrow> 'v \<Rightarrow> 'v" where
  "dget_or d k x = (case dget d k of Some v \<Rightarrow> v | None \<Rightarrow> x)"

definition shell_overrides :: "(string, string) dict \<Rightarrow> bool" where
  "shell_overrides environ \<longleftrightarrow> dget environ ''ENV'' \<noteq> None \<or> dget environ ''BASH_ENV'' \<noteq> None \<or>
     list_ex (\<lambda>(n, v). starts_with ''BASH_FUNC_'' n \<or> starts_with ''()'' (lstrip v)) environ"

definition merger_environment :: "(string, string) dict \<Rightarrow> string" where
  "merger_environment environ = concat (map env_record (filter (\<lambda>(n, _). \<not> starts_with ''ELISA_STAGE1_CACHE'' n) (sort_keys environ)))"

definition merger_records :: "(string \<Rightarrow> string) \<Rightarrow> (world, string) act \<Rightarrow> string \<Rightarrow> string \<Rightarrow> string \<Rightarrow> (world, json list) act" where
  "merger_records sha xcrun platform chosen resolved =
     (if platform = ''darwin'' then
        aseq (aguard (chosen = ''/usr/bin/ld'' \<and> resolved = chosen) (ValueError ''non-system object merger launcher''))
        (abind (native_merger_record sha chosen) (\<lambda>ld.
         abind (native_merger_record sha ''/usr/bin/xcrun'') (\<lambda>runner.
         abind xcrun (\<lambda>out. let actual = strip_bytes out in
         aseq (aguard (starts_with ''/'' actual) (ValueError ''invalid selected toolchain linker''))
         (abind (native_merger_record sha actual) (\<lambda>linker. aret [ld, runner, linker]))))))
      else if starts_with ''linux'' platform then
        aseq (aguard (path_parent resolved \<in> {''/usr/bin'', ''/bin''}) (ValueError ''non-system object merger launcher''))
        (abind (native_merger_record sha chosen) (\<lambda>ld. aret [ld]))
      else araise (ValueError ''unattested platform object merger''))"

definition merger_digest :: "(string \<Rightarrow> string) \<Rightarrow> json list \<Rightarrow> (string, string) dict \<Rightarrow> string" where
  "merger_digest sha records environ =
     sha (''stage1-object-merger-v1'' @ [CHR 0x00] @ canonical (JList records) @ [CHR 0x00] @ merger_environment environ)"

definition object_merger_key :: "(string \<Rightarrow> string) \<Rightarrow> ((string, string) dict \<Rightarrow> (world, string) act) \<Rightarrow> (string, string) dict \<Rightarrow> string \<Rightarrow> (world, string) act" where
  "object_merger_key sha xcrun environ platform =
     (if parallel_emit_jobs (dget_or environ ''ELISA_STAGE1_JOBS'' []) \<le> 1 then aret ''serial-object-emission-v1''
      else aseq (aguard (dget environ ''ELISA_LD'' = None) (ValueError ''custom object merger dependency closure is not attested''))
        (aseq (aguard (\<not> shell_overrides environ) (ValueError ''shell functions can override object merger selection''))
        (abind (which ''ld'' (dget_or environ ''PATH'' ''/bin:/usr/bin'')) (\<lambda>found. case found of
            None \<Rightarrow> araise (ValueError ''default object merger not found'')
          | Some ld \<Rightarrow> abind (real_path ld) (\<lambda>resolved. abind (merger_records sha (xcrun environ) platform ld resolved) (\<lambda>records.
              aret (merger_digest sha records environ)))))))"

section \<open>The command\<close>

text \<open>\<open>str(Path(p))\<close>.\<close>

definition py_path :: "string \<Rightarrow> string" where
  "py_path p = (let root = (if starts_with ''///'' p then ''/'' else if starts_with ''//'' p then ''//'' else if starts_with ''/'' p then ''/'' else []);
     s = root @ join ''/'' (components p) in if s = [] then ''.'' else s)"

definition print_line :: "bool \<Rightarrow> string \<Rightarrow> (world, unit) act" where
  "print_line err s = write_stream err (s @ [CHR 0x0A])"

definition print_pair :: "string \<times> string \<Rightarrow> (world, unit) act" where
  "print_pair st = print_line False (fst st @ [CHR 0x09] @ snd st)"

text \<open>The state of an output as printed; a regular file has the type bits 0100000.\<close>

definition output_value :: "out_state \<Rightarrow> json" where
  "output_value st = (case st of
     Absent umask mode \<Rightarrow> JObj [(''exists'', JBool False), (''umask'', JInt (int umask)), (''mode'', JInt (int mode))]
   | Present (i, kd, perm, sz, mtime, ctime) mode provenance \<Rightarrow> JObj [(''exists'', JBool True),
       (''identity'', JList (map (\<lambda>n. JInt (int n)) [st_dev i, st_ino i, 32768 + perm, sz, mtime, ctime])), (''mode'', JInt (int mode)),
       (''provenance'', case provenance of None \<Rightarrow> JNull | Some p \<Rightarrow> JStr p)])"

text \<open>An answer that may be missing: it is printed with exit status 0, or the status is 1.\<close>

definition answer :: "('a \<Rightarrow> (world, unit) act) \<Rightarrow> 'a option \<Rightarrow> (world, nat) act" where
  "answer out r = (case r of None \<Rightarrow> aret 1 | Some x \<Rightarrow> aseq (out x) (aret 0))"

definition verdict :: "bool \<Rightarrow> (world, nat) act" where
  "verdict valid = aret (if valid then 0 else 1)"

definition unpack_error :: "(world, 'a) act" where
  "unpack_error = araise (ValueError ''not enough values to unpack'')"

definition run_key :: "string list \<Rightarrow> string \<Rightarrow> (world, nat) act \<Rightarrow> (world, nat) act" where
  "run_key arguments msg m = aseq (aguard (arguments = []) (ValueError msg)) m"

definition run_dependency_key :: "(string \<Rightarrow> string) \<Rightarrow> string list \<Rightarrow> (world, nat) act" where
  "run_dependency_key sha arguments = (case arguments of
     [index, base_key, root] \<Rightarrow> abind (read_dependencies sha index base_key root) (answer print_pair)
   | _ \<Rightarrow> unpack_error)"

definition run_dependency_store :: "(string \<Rightarrow> string) \<Rightarrow> string list \<Rightarrow> (world, nat) act" where
  "run_dependency_store sha arguments = (case arguments of
     [index, base_key, report, root] \<Rightarrow> abind (store_dependencies sha index base_key report root) (\<lambda>st. answer print_pair (Some st))
   | _ \<Rightarrow> unpack_error)"

definition run_dependency_confirm :: "(string \<Rightarrow> string) \<Rightarrow> string list \<Rightarrow> (world, nat) act" where
  "run_dependency_confirm sha arguments = (case arguments of
     [snapshot, index, base_key, report, root] \<Rightarrow> abind (confirm_dependencies sha snapshot index base_key report root) (answer print_pair)
   | _ \<Rightarrow> unpack_error)"

definition run_output_state :: "string list \<Rightarrow> (world, nat) act" where
  "run_output_state arguments = (case arguments of
     [path] \<Rightarrow> abind (compiler_output_state path) (answer (\<lambda>st. print_line False (canonical (output_value st))))
   | _ \<Rightarrow> unpack_error)"

definition run_restore :: "(string \<Rightarrow> string) \<Rightarrow> string list \<Rightarrow> (world, nat) act" where
  "run_restore sha arguments = (case arguments of
     entry # output # key # streams \<Rightarrow>
       aseq (aguard (length streams \<le> 1) (ValueError ''restore accepts at most one final destination path''))
       (abind (restore sha (py_path entry) (py_path output) key (case streams of [] \<Rightarrow> None | d # _ \<Rightarrow> Some (py_path d))) verdict)
   | _ \<Rightarrow> unpack_error)"

definition run_publish :: "(string \<Rightarrow> string) \<Rightarrow> string list \<Rightarrow> (world, nat) act" where
  "run_publish sha arguments = (case arguments of
     entry # output # key # streams \<Rightarrow>
       (case map py_path streams of
          [] \<Rightarrow> abind (publish sha (py_path entry) (py_path output) key None None) verdict
        | [out] \<Rightarrow> abind (publish sha (py_path entry) (py_path output) key (Some out) None) verdict
        | [out, err] \<Rightarrow> abind (publish sha (py_path entry) (py_path output) key (Some out) (Some err)) verdict
        | _ \<Rightarrow> araise TypeError)
   | _ \<Rightarrow> unpack_error)"

definition run_operation ::
    "(string \<Rightarrow> string) \<Rightarrow> ((string, string) dict \<Rightarrow> (world, string) act) \<Rightarrow> (string, string) dict \<Rightarrow> string \<Rightarrow> string list \<Rightarrow> (world, nat) act" where
  "run_operation sha xcrun environ operation arguments =
     (if operation = ''environment-key'' then
        run_key arguments ''environment-key accepts no arguments'' (aseq (write_stream False (environment_key environ)) (aret 0))
      else if operation = ''merger-key'' then
        run_key arguments ''merger-key accepts no arguments''
          (abind (areads (\<lambda>w. Inr (w_platform w))) (\<lambda>platform. abind (object_merger_key sha xcrun environ platform) (\<lambda>k. answer (print_line False) (Some k))))
      else if operation = ''dependency-key'' then run_dependency_key sha arguments
      else if operation = ''dependency-store'' then run_dependency_store sha arguments
      else if operation = ''dependency-confirm'' then run_dependency_confirm sha arguments
      else if operation = ''output-state'' then run_output_state arguments
      else if operation = ''restore'' then run_restore sha arguments
      else if operation = ''publish'' then run_publish sha arguments
      else araise (ValueError ''unknown cache operation''))"

text \<open>What the command reports; the text of an error is left out.\<close>

definition command_caught :: "py_exn \<Rightarrow> bool" where
  "command_caught e = (is_os_error e \<or> e = SubprocessError \<or> (case e of RuntimeError _ \<Rightarrow> True | ValueError _ \<Rightarrow> True | _ \<Rightarrow> False))"

definition object_cache_command ::
    "(string \<Rightarrow> string) \<Rightarrow> ((string, string) dict \<Rightarrow> (world, string) act) \<Rightarrow> (string, string) dict \<Rightarrow> string list \<Rightarrow> (world, nat) act" where
  "object_cache_command sha xcrun environ argv = (case argv of
     [] \<Rightarrow> unpack_error
   | operation # arguments \<Rightarrow> acatch (run_operation sha xcrun environ operation arguments)
       (\<lambda>e. if command_caught e then aseq (print_line True ''object cache replay failed'') (aret 2) else araise e))"

section \<open>The attested linker\<close>





text \<open>An action that was run at some moment between two worlds, with its answer.\<close>

definition during :: "world \<Rightarrow> world \<Rightarrow> (world, 'a) act \<Rightarrow> 'a \<Rightarrow> bool" where
  "during w w1 m x \<longleftrightarrow> (\<exists>v v1. m v = (Inr x, v1) \<and> evolves (w_kern w) (w_kern v) \<and> evolves (w_kern v1) (w_kern w1))"











end
