(* ===== verification/WasmFlat.thy ===== *)
theory WasmFlat
  imports PyRegex PyFs "HOL-Library.Code_Target_Nat"
begin

text \<open>
  The include splicer of \<open>scripts/wasm_export_scan.py\<close> with its limits: the files read are the
  reachable ones, without cycle, and the text is bounded. Error messages keep their fixed part. A
  path is resolved by its components: the model file system has no symbolic links, and one
  process reads it.
\<close>

section \<open>Limits\<close>

definition MAX_FLATTENED_SOURCE_BYTES :: nat where
  "MAX_FLATTENED_SOURCE_BYTES = 8388608"

definition MAX_SOURCE_FILES :: nat where
  "MAX_SOURCE_FILES = 4096"

definition MAX_INCLUDE_DEPTH :: nat where
  "MAX_INCLUDE_DEPTH = 256"

definition MAX_SOURCE_LINES :: nat where
  "MAX_SOURCE_LINES = 262144"

text \<open>\<open>LINE_BREAKS\<close>, within Latin-1.\<close>

definition LINE_BREAKS :: "char list" where
  "LINE_BREAKS = [CHR 0x0A, CHR 0x0B, CHR 0x0C, CHR 0x1C, CHR 0x1D, CHR 0x1E, CHR 0x85]"

definition is_quote_free :: "char \<Rightarrow> bool" where
  "is_quote_free c \<longleftrightarrow> c \<noteq> CHR 0x22 \<and> c \<noteq> CHR 0x27"

definition INCLUDE_RE :: rx where
  "INCLUDE_RE = Seqs [Bol, Spaces0, Opt (Seq (Chr (CHR ''#'')) Spaces0), Lit ''include'', Spaces1, Cls (\<lambda>c. \<not> is_quote_free c),
     Grp 1 (Plus (Cls is_quote_free)), Cls (\<lambda>c. \<not> is_quote_free c), Spaces0, Eol]"

section \<open>Flattening the includes\<close>

definition join_path :: "string \<Rightarrow> string \<Rightarrow> string" where
  "join_path d p = (if starts_with ''/'' p then p else sub d p)"

text \<open>
  Decoding: ASCII and the two-byte sequences of Latin-1. A lead byte of a longer or larger
  sequence is outside the texts modelled; any other byte is not UTF-8.
\<close>

fun decode_utf8 :: "string \<Rightarrow> string result" where
  "decode_utf8 [] = Inr []"
| "decode_utf8 (c # cs) =
     (if code c < 128 then rmap ((#) c) (decode_utf8 cs)
      else if code c < 194 \<or> 244 < code c then Inl (WasmBuildError ''source/include is not UTF-8'')
      else case cs of
          [] \<Rightarrow> Inl (WasmBuildError ''source/include is not UTF-8'')
        | d # ds \<Rightarrow> if code d < 128 \<or> 191 < code d then Inl (WasmBuildError ''source/include is not UTF-8'')
            else if code c < 196 then rmap ((#) (char_of ((code c - 192) * 64 + (code d - 128)))) (decode_utf8 ds)
            else Inl Unmodelled)"

text \<open>\<open>replace("\r\n", "\n").replace("\r", "\n")\<close>\<close>

fun universal_newlines :: "string \<Rightarrow> string" where
  "universal_newlines [] = []"
| "universal_newlines (c # cs) = (if c = CHR 0x0D then CHR 0x0A # (case cs of [] \<Rightarrow> [] | d # ds \<Rightarrow> if d = CHR 0x0A then universal_newlines ds else universal_newlines cs)
     else c # universal_newlines cs)"

fun keep_lines :: "string \<Rightarrow> string \<Rightarrow> string list" where
  "keep_lines acc [] = (if acc = [] then [] else [rev acc])"
| "keep_lines acc (c # cs) = (if c \<in> set LINE_BREAKS then rev (c # acc) # keep_lines [] cs else keep_lines (c # acc) cs)"

definition include_of :: "string \<Rightarrow> string option" where
  "include_of line = (case re_match INCLUDE_RE (rstrip_chars [CHR 0x0D, CHR 0x0A] line) of None \<Rightarrow> None | Some t \<Rightarrow> group t 1)"

text \<open>The files entered, the bytes and lines counted, and the pieces collected.\<close>

record flat =
  seen :: "string list"
  n_bytes :: nat
  n_lines :: nat
  chunks :: "string list"

text \<open>Reading one file within the bytes that remain: its bytes and its text.\<close>

definition under_file :: "fs \<Rightarrow> string \<Rightarrow> bool" where
  "under_file fs path = list_ex (\<lambda>(q, n). n \<noteq> Dir \<and> q \<noteq> path \<and> in_tree q path) fs"

text \<open>
  A path below a file, and a directory opened for reading, are errors of the system calls; a
  directory is refused by \<open>fdopen\<close>, before its mode is looked at.
\<close>

definition source_bytes :: "fs \<Rightarrow> string \<Rightarrow> nat \<Rightarrow> string result" where
  "source_bytes fs path remaining = (case dget fs path of
     None \<Rightarrow> Inl (WasmBuildError (if under_file fs path then ''cannot read source/include'' else ''missing source/include''))
   | Some Dir \<Rightarrow> Inl (WasmBuildError ''cannot read source/include'')
   | Some (File b m) \<Rightarrow> if remaining < length b then Inl (WasmBuildError ''flattened source exceeds bytes'') else Inr b)"

definition source_lines :: "string \<Rightarrow> string list result" where
  "source_lines b = rmap (\<lambda>t. keep_lines [] (universal_newlines t)) (decode_utf8 b)"

function read_flat :: "fs \<Rightarrow> string list \<Rightarrow> string \<Rightarrow> flat \<Rightarrow> flat result"
  and read_flat_lines :: "fs \<Rightarrow> string list \<Rightarrow> string \<Rightarrow> string list \<Rightarrow> flat \<Rightarrow> flat result" where
  "read_flat fs stack p st = (let path = resolve_path p in
     if path \<in> set stack then Inl (WasmBuildError ''cyclic include while building WASM'')
     else if path \<in> set (seen st) then Inr st
     else if MAX_SOURCE_FILES \<le> length (seen st) then Inl (WasmBuildError ''source/include closure exceeds files'')
     else if MAX_INCLUDE_DEPTH \<le> length stack then Inl (WasmBuildError ''source/include nesting exceeds files'')
     else if MAX_FLATTENED_SOURCE_BYTES < n_bytes st then Inl (WasmBuildError ''flattened source exceeds bytes'')
     else rbind (source_bytes fs path (MAX_FLATTENED_SOURCE_BYTES - n_bytes st)) (\<lambda>b.
       rbind (source_lines b) (\<lambda>lines.
       read_flat_lines fs (stack @ [path]) path lines (st\<lparr>seen := path # seen st, n_bytes := n_bytes st + length b\<rparr>))))"
| "read_flat_lines fs stack path [] st = Inr st"
| "read_flat_lines fs stack path (line # rest) st =
     (if MAX_SOURCE_LINES \<le> n_lines st then Inl (WasmBuildError ''source/include closure exceeds lines'')
      else rbind (case include_of line of
          Some inc \<Rightarrow> read_flat fs stack (join_path (path_parent path) inc) (st\<lparr>n_lines := Suc (n_lines st)\<rparr>)
        | None \<Rightarrow> Inr (st\<lparr>n_lines := Suc (n_lines st), chunks := chunks st @ [line]\<rparr>)) (\<lambda>st.
        read_flat_lines fs stack path rest st))"
  by pat_completeness auto
termination
  by (relation "measures [\<lambda>x. case x of Inl (fs, stack, p, st) \<Rightarrow> MAX_INCLUDE_DEPTH - length stack | Inr (fs, stack, path, lines, st) \<Rightarrow> MAX_INCLUDE_DEPTH - length stack,
      \<lambda>x. case x of Inl _ \<Rightarrow> 0 | Inr (fs, stack, path, lines, st) \<Rightarrow> Suc (length lines)]") auto

definition read_flat_source :: "fs \<Rightarrow> string \<Rightarrow> string result" where
  "read_flat_source fs path = rmap (\<lambda>st. concat (chunks st)) (read_flat fs [] path \<lparr>seen = [], n_bytes = 0, n_lines = 0, chunks = []\<rparr>)"

section \<open>Successful readings\<close>

text \<open>The derivations of a reading that does not raise.\<close>

inductive flattens :: "fs \<Rightarrow> string list \<Rightarrow> string \<Rightarrow> flat \<Rightarrow> flat \<Rightarrow> bool"
  and flattens_lines :: "fs \<Rightarrow> string list \<Rightarrow> string \<Rightarrow> string list \<Rightarrow> flat \<Rightarrow> flat \<Rightarrow> bool" for fs where
  skip: "resolve_path p \<notin> set stack \<Longrightarrow> resolve_path p \<in> set (seen st) \<Longrightarrow> flattens fs stack p st st"
| enter: "resolve_path p \<notin> set stack \<Longrightarrow> resolve_path p \<notin> set (seen st) \<Longrightarrow> length (seen st) < MAX_SOURCE_FILES \<Longrightarrow>
    length stack < MAX_INCLUDE_DEPTH \<Longrightarrow> dget fs (resolve_path p) = Some (File b m) \<Longrightarrow>
    n_bytes st + length b \<le> MAX_FLATTENED_SOURCE_BYTES \<Longrightarrow> source_lines b = Inr lines \<Longrightarrow>
    flattens_lines fs (stack @ [resolve_path p]) (resolve_path p) lines (st\<lparr>seen := resolve_path p # seen st, n_bytes := n_bytes st + length b\<rparr>) st' \<Longrightarrow>
    flattens fs stack p st st'"
| nil: "flattens_lines fs stack path [] st st"
| splice: "n_lines st < MAX_SOURCE_LINES \<Longrightarrow> include_of line = Some i \<Longrightarrow>
    flattens fs stack (join_path (path_parent path) i) (st\<lparr>n_lines := Suc (n_lines st)\<rparr>) st1 \<Longrightarrow>
    flattens_lines fs stack path rest st1 st' \<Longrightarrow> flattens_lines fs stack path (line # rest) st st'"
| keep: "n_lines st < MAX_SOURCE_LINES \<Longrightarrow> include_of line = None \<Longrightarrow>
    flattens_lines fs stack path rest (st\<lparr>n_lines := Suc (n_lines st), chunks := chunks st @ [line]\<rparr>) st' \<Longrightarrow>
    flattens_lines fs stack path (line # rest) st st'"

lemma source_bytes_Inr: "source_bytes fs path r = Inr b \<longleftrightarrow> (\<exists>m. dget fs path = Some (File b m)) \<and> length b \<le> r"
  by (auto simp: source_bytes_def split: option.splits node.splits)

declare read_flat.simps [simp del]

lemma read_flat_reads:
  "read_flat fs stack p st = Inr st' \<Longrightarrow> flattens fs stack p st st'"
  "read_flat_lines fs stack path lines st = Inr st' \<Longrightarrow> flattens_lines fs stack path lines st st'"
proof (induction fs stack p st and fs stack path lines st arbitrary: st' and st' rule: read_flat_read_flat_lines.induct)
  case (1 fs stack p st)
  show ?case
  proof (cases "resolve_path p \<in> set (seen st)")
    case True
    with "1.prems" have "resolve_path p \<notin> set stack" "st' = st"
      by (auto simp: read_flat.simps [of fs] Let_def split: if_splits)
    with True show ?thesis by (simp add: skip)
  next
    case False
    with "1.prems" obtain b lines where r: "resolve_path p \<notin> set stack" "\<not> MAX_SOURCE_FILES \<le> length (seen st)"
        "\<not> MAX_INCLUDE_DEPTH \<le> length stack" "\<not> MAX_FLATTENED_SOURCE_BYTES < n_bytes st"
        "source_bytes fs (resolve_path p) (MAX_FLATTENED_SOURCE_BYTES - n_bytes st) = Inr b" "source_lines b = Inr lines"
        "read_flat_lines fs (stack @ [resolve_path p]) (resolve_path p) lines (st\<lparr>seen := resolve_path p # seen st, n_bytes := n_bytes st + length b\<rparr>) = Inr st'"
      by (auto simp: read_flat.simps [of fs] Let_def rbind_def split: if_splits sum.splits)
    from r(5) obtain m where m: "dget fs (resolve_path p) = Some (File b m)" "length b \<le> MAX_FLATTENED_SOURCE_BYTES - n_bytes st"
      by (auto simp: source_bytes_Inr)
    from r(4) m(2) have len: "n_bytes st + length b \<le> MAX_FLATTENED_SOURCE_BYTES" by linarith
    show ?thesis
      by (rule enter [OF r(1) False _ _ m(1) len r(6)])
        (use r(2,3) "1.IH" [OF refl r(1) False r(2,3,4,5,6,7)] in simp_all)
  qed
next
  case (2 fs stack path st)
  then show ?case by (simp add: nil)
next
  case (3 fs stack path line rest st)
  show ?case
  proof (cases "include_of line")
    case None
    with "3.prems" have "n_lines st < MAX_SOURCE_LINES"
      "read_flat_lines fs stack path rest (st\<lparr>n_lines := Suc (n_lines st), chunks := chunks st @ [line]\<rparr>) = Inr st'"
      by (auto split: if_splits)
    with "3.IH"(2) None show ?thesis by (simp add: keep)
  next
    case (Some i)
    with "3.prems" obtain st1 where r: "\<not> MAX_SOURCE_LINES \<le> n_lines st"
      "read_flat fs stack (join_path (path_parent path) i) (st\<lparr>n_lines := Suc (n_lines st)\<rparr>) = Inr st1"
      "read_flat_lines fs stack path rest st1 = Inr st'"
      by (auto split: if_splits simp: rbind_def split: sum.splits)
    show ?thesis
      by (rule splice [OF _ Some "3.IH"(1) [OF r(1) Some r(2)] "3.IH"(2) [OF r(1)]])
        (use r Some in simp_all)
  qed
qed

section \<open>Bounds\<close>

definition text_length :: "flat \<Rightarrow> nat" where
  "text_length st = length (concat (chunks st))"

lemma decode_utf8_length: "decode_utf8 b = Inr t \<Longrightarrow> length t \<le> length b"
proof (induction b arbitrary: t rule: decode_utf8.induct)
  case (2 c cs)
  show ?case
  proof (cases "code c < 128")
    case True
    with 2 show ?thesis by (auto simp: rmap_Inr)
  next
    case False
    with 2 show ?thesis by (fastforce simp: rmap_Inr split: if_splits list.splits)
  qed
qed simp

lemma universal_newlines_length: "length (universal_newlines t) \<le> length t"
proof (induction t rule: universal_newlines.induct)
  case (2 c cs)
  note [simp del] = universal_newlines.simps(2)
  show ?case
  proof (cases cs)
    case Nil
    then show ?thesis by (simp add: universal_newlines.simps(2) [of c])
  next
    case (Cons d ds)
    from 2 Cons have "d = CHR 0x0A \<Longrightarrow> c = CHR 0x0D \<Longrightarrow> length (universal_newlines ds) \<le> length ds"
      "c \<noteq> CHR 0x0D \<or> d \<noteq> CHR 0x0A \<Longrightarrow> length (universal_newlines cs) \<le> length cs"
      by auto
    with Cons show ?thesis by (auto simp: universal_newlines.simps(2) [of c])
  qed
qed simp

lemma keep_lines_concat: "concat (keep_lines acc t) = rev acc @ t"
  by (induction t arbitrary: acc) auto

lemma source_lines_length:
  assumes "source_lines b = Inr lines"
  shows "length (concat lines) \<le> length b"
proof -
  from assms obtain t where "decode_utf8 b = Inr t" "lines = keep_lines [] (universal_newlines t)"
    by (auto simp: source_lines_def rmap_Inr)
  then show ?thesis
    using decode_utf8_length [of b t] universal_newlines_length [of t] by (simp add: keep_lines_concat)
qed

text \<open>What a reading may add: the text grows by no more than the bytes counted.\<close>

definition bounded_growth :: "nat \<Rightarrow> flat \<Rightarrow> flat \<Rightarrow> bool" where
  "bounded_growth extra st st' \<longleftrightarrow>
     text_length st' + n_bytes st \<le> text_length st + extra + n_bytes st' \<and>
     length (chunks st') + n_lines st \<le> length (chunks st) + n_lines st' \<and>
     (n_bytes st \<le> MAX_FLATTENED_SOURCE_BYTES \<longrightarrow> n_bytes st' \<le> MAX_FLATTENED_SOURCE_BYTES) \<and>
     (n_lines st \<le> MAX_SOURCE_LINES \<longrightarrow> n_lines st' \<le> MAX_SOURCE_LINES) \<and>
     (length (seen st) \<le> MAX_SOURCE_FILES \<longrightarrow> length (seen st') \<le> MAX_SOURCE_FILES) \<and>
     (distinct (seen st) \<longrightarrow> distinct (seen st'))"

lemma reads_bounded:
  "flattens fs stack p st st' \<Longrightarrow> bounded_growth 0 st st'"
  "flattens_lines fs stack path lines st st' \<Longrightarrow> bounded_growth (length (concat lines)) st st'"
proof (induction rule: flattens_flattens_lines.inducts)
  case (enter p stack st b m lines st')
  with source_lines_length [OF \<open>source_lines b = Inr lines\<close>] show ?case
    by (simp add: bounded_growth_def text_length_def)
next
  case (splice st line i stack path st1 rest st')
  then show ?case by (simp add: bounded_growth_def text_length_def)
next
  case (keep st line stack path rest st')
  then show ?case by (simp add: bounded_growth_def text_length_def)
qed (simp_all add: bounded_growth_def)

definition flat_start :: flat where
  "flat_start = \<lparr>seen = [], n_bytes = 0, n_lines = 0, chunks = []\<rparr>"

section \<open>The include graph\<close>

definition targets :: "string \<Rightarrow> string list \<Rightarrow> string list" where
  "targets path lines = map (\<lambda>i. resolve_path (join_path (path_parent path) i)) (List.map_filter include_of lines)"

lemma targets_simps [simp]:
  "targets path [] = []"
  "targets path (line # rest) = (case include_of line of None \<Rightarrow> targets path rest
     | Some i \<Rightarrow> resolve_path (join_path (path_parent path) i) # targets path rest)"
  by (auto simp: targets_def List.map_filter_simps split: option.splits)

definition include_list :: "fs \<Rightarrow> string \<Rightarrow> string list" where
  "include_list fs path = (case dget fs path of
     Some (File b m) \<Rightarrow> (case source_lines b of Inr lines \<Rightarrow> targets path lines | Inl _ \<Rightarrow> [])
   | _ \<Rightarrow> [])"

definition include_edges :: "fs \<Rightarrow> (string \<times> string) set" where
  "include_edges fs = {(p, q). q \<in> set (include_list fs p)}"

text \<open>A set of files closed under inclusion on which inclusion has no cycle.\<close>

definition well_founded_files :: "fs \<Rightarrow> string set \<Rightarrow> bool" where
  "well_founded_files fs D \<longleftrightarrow> include_edges fs `` D \<subseteq> D \<and> acyclic (include_edges fs \<inter> D \<times> D)"

lemma acyclic_insert_source:
  assumes cl: "r `` D \<subseteq> D" and ac: "acyclic (r \<inter> D \<times> D)" and x: "x \<notin> D" and to: "r `` {x} \<subseteq> D"
  shows "acyclic (r \<inter> insert x D \<times> insert x D)"
proof (rule acyclicI, rule allI, rule notI)
  let ?r = "r \<inter> insert x D \<times> insert x D"
  have stay: "(b, c) \<in> ?r\<^sup>+ \<Longrightarrow> b \<in> D \<Longrightarrow> c \<in> D \<and> (b, c) \<in> (r \<inter> D \<times> D)\<^sup>+" for b c
    by (induction rule: trancl_induct) (use cl in \<open>auto intro: trancl_into_trancl\<close>)
  fix a assume cyc: "(a, a) \<in> ?r\<^sup>+"
  then obtain c where "(c, a) \<in> ?r" by (blast elim: tranclE)
  with cl x to have "a \<in> D" by auto
  with stay [OF cyc] ac show False by (simp add: acyclic_def)
qed

lemma reads_graph:
  "flattens fs stack p st st' \<Longrightarrow> set stack \<subseteq> set (seen st) \<Longrightarrow> well_founded_files fs (set (seen st) - set stack) \<Longrightarrow>
     set (seen st) \<subseteq> set (seen st') \<and> resolve_path p \<in> set (seen st') - set stack \<and> well_founded_files fs (set (seen st') - set stack)"
  "flattens_lines fs stack path lines st st' \<Longrightarrow> set stack \<subseteq> set (seen st) \<Longrightarrow> well_founded_files fs (set (seen st) - set stack) \<Longrightarrow>
     set (seen st) \<subseteq> set (seen st') \<and> set (targets path lines) \<subseteq> set (seen st') - set stack \<and> well_founded_files fs (set (seen st') - set stack)"
proof (induction rule: flattens_flattens_lines.inducts)
  case (enter p stack st b m lines st')
  let ?x = "resolve_path p" and ?D = "set (seen st') - set (stack @ [resolve_path p])"
  let ?st = "st\<lparr>seen := ?x # seen st, n_bytes := n_bytes st + length b\<rparr>"
  have eq: "set (seen ?st) - set (stack @ [?x]) = set (seen st) - set stack"
    using \<open>resolve_path p \<notin> set (seen st)\<close> by (simp add: insert_Diff_if)
  have pre: "set (stack @ [?x]) \<subseteq> set (seen ?st)" using enter.prems(1) by (simp add: subset_insertI2)
  have wf: "well_founded_files fs (set (seen ?st) - set (stack @ [?x]))" unfolding eq by (rule enter.prems)
  from enter.IH(3) [OF pre wf] have ih: "set (seen st) \<subseteq> set (seen st')" "?x \<in> set (seen st')" "set (targets ?x lines) \<subseteq> ?D" "well_founded_files fs ?D"
    by simp_all
  have inc: "include_list fs ?x = targets ?x lines" using \<open>dget fs (resolve_path p) = Some (File b m)\<close> \<open>source_lines b = Inr lines\<close> by (simp add: include_list_def)
  have D: "set (seen st') - set stack = insert ?x ?D" using ih(2) \<open>resolve_path p \<notin> set stack\<close> by auto
  have "include_edges fs `` {?x} \<subseteq> ?D" using ih(3) inc by (auto simp: include_edges_def)
  with ih(4) have "well_founded_files fs (insert ?x ?D)"
    unfolding well_founded_files_def using acyclic_insert_source [of "include_edges fs" ?D ?x] by auto
  with D ih(1,2) \<open>resolve_path p \<notin> set stack\<close> show ?case by simp
next
  case (splice st line i stack path st1 rest st')
  from splice.IH(2) splice.prems have one: "set (seen st) \<subseteq> set (seen st1)" "resolve_path (join_path (path_parent path) i) \<in> set (seen st1) - set stack"
      "well_founded_files fs (set (seen st1) - set stack)"
    by simp_all
  with splice.IH(4) splice.prems have "set (seen st1) \<subseteq> set (seen st')" "set (targets path rest) \<subseteq> set (seen st') - set stack"
      "well_founded_files fs (set (seen st') - set stack)"
    by (simp_all add: order_trans)
  with one splice.hyps show ?case by auto
qed simp_all

definition is_source :: "fs \<Rightarrow> string \<Rightarrow> bool" where
  "is_source fs path = (case dget fs path of Some (File b m) \<Rightarrow> \<not> isl (source_lines b) | _ \<Rightarrow> False)"

definition reachable_files :: "fs \<Rightarrow> string set \<Rightarrow> string set" where
  "reachable_files fs S = (include_edges fs)\<^sup>* `` S"

lemma reads_reached:
  "flattens fs stack p st st' \<Longrightarrow> set (seen st') \<subseteq> set (seen st) \<union> reachable_files fs {resolve_path p} \<inter> Collect (is_source fs)"
  "flattens_lines fs stack path lines st st' \<Longrightarrow> set (seen st') \<subseteq> set (seen st) \<union> reachable_files fs (set (targets path lines)) \<inter> Collect (is_source fs)"
proof (induction rule: flattens_flattens_lines.inducts)
  case (enter p stack st b m lines st')
  let ?x = "resolve_path p"
  have inc: "include_list fs ?x = targets ?x lines" and src: "is_source fs ?x"
    using \<open>dget fs ?x = Some (File b m)\<close> \<open>source_lines b = Inr lines\<close> by (simp_all add: include_list_def is_source_def)
  have "reachable_files fs (set (targets ?x lines)) \<subseteq> reachable_files fs {?x}"
    using inc by (auto simp: reachable_files_def include_edges_def intro: converse_rtrancl_into_rtrancl)
  moreover have "?x \<in> reachable_files fs {?x}" by (simp add: reachable_files_def)
  ultimately show ?case using enter.IH(3) src by auto
next
  case (splice st line i stack path st1 rest st')
  let ?q = "resolve_path (join_path (path_parent path) i)"
  have "reachable_files fs (insert ?q (set (targets path rest))) = reachable_files fs {?q} \<union> reachable_files fs (set (targets path rest))"
    by (auto simp: reachable_files_def)
  with splice.IH(2,4) splice.hyps(2) show ?case by auto
qed auto

lemma closed_reachable: "include_edges fs `` D \<subseteq> D \<Longrightarrow> S \<subseteq> D \<Longrightarrow> reachable_files fs S \<subseteq> D"
  by (auto simp: reachable_files_def) (erule rtrancl_induct; blast)

lemma decode_utf8_error: "decode_utf8 b = Inl e \<Longrightarrow> e = WasmBuildError ''source/include is not UTF-8'' \<or> e = Unmodelled"
proof (induction b rule: decode_utf8.induct)
  case (2 c cs)
  show ?case
  proof (cases "code c < 128")
    case True
    with 2 show ?thesis by (simp add: rmap_Inl)
  next
    case False
    with 2 show ?thesis by (fastforce simp: rmap_Inl split: if_splits list.splits)
  qed
qed simp

lemma cycle_not_decoding: "source_lines b \<noteq> Inl (WasmBuildError ''cyclic include while building WASM'')"
  by (auto simp: source_lines_def rmap_Inl dest!: decode_utf8_error)

lemma cycle_not_reading: "source_bytes fs path r \<noteq> Inl (WasmBuildError ''cyclic include while building WASM'')"
  by (auto simp: source_bytes_def split: option.splits node.splits)

lemma cyclic_error:
  "read_flat fs stack p st = Inl (WasmBuildError ''cyclic include while building WASM'') \<Longrightarrow>
     \<forall>s\<in>set stack. (s, resolve_path p) \<in> (include_edges fs)\<^sup>+ \<Longrightarrow>
     \<exists>x\<in>reachable_files fs (insert (resolve_path p) (set stack)). (x, x) \<in> (include_edges fs)\<^sup>+"
  "read_flat_lines fs stack path lines st = Inl (WasmBuildError ''cyclic include while building WASM'') \<Longrightarrow>
     \<forall>s\<in>set stack. (s, path) \<in> (include_edges fs)\<^sup>* \<Longrightarrow> path \<in> set stack \<Longrightarrow> set (targets path lines) \<subseteq> include_edges fs `` {path} \<Longrightarrow>
     \<exists>x\<in>reachable_files fs (set stack). (x, x) \<in> (include_edges fs)\<^sup>+"
proof (induction fs stack p st and fs stack path lines st rule: read_flat_read_flat_lines.induct)
  case (1 fs stack p st)
  let ?x = "resolve_path p"
  show ?case
  proof (cases "?x \<in> set stack")
    case True
    with "1.prems"(2) have "(?x, ?x) \<in> (include_edges fs)\<^sup>+" by blast
    moreover have "?x \<in> reachable_files fs (insert ?x (set stack))" by (auto simp: reachable_files_def)
    ultimately show ?thesis by blast
  next
    case False
    with "1.prems"(1) obtain b lines where r: "?x \<notin> set (seen st)" "\<not> MAX_SOURCE_FILES \<le> length (seen st)"
        "\<not> MAX_INCLUDE_DEPTH \<le> length stack" "\<not> MAX_FLATTENED_SOURCE_BYTES < n_bytes st"
        "source_bytes fs ?x (MAX_FLATTENED_SOURCE_BYTES - n_bytes st) = Inr b" "source_lines b = Inr lines"
        "read_flat_lines fs (stack @ [?x]) ?x lines (st\<lparr>seen := ?x # seen st, n_bytes := n_bytes st + length b\<rparr>)
           = Inl (WasmBuildError ''cyclic include while building WASM'')"
      using cycle_not_decoding cycle_not_reading
      by (auto simp: read_flat.simps [of fs] Let_def rbind_def split: if_splits sum.splits)
    from r(5,6) have "include_list fs ?x = targets ?x lines"
      by (auto simp: source_bytes_Inr include_list_def)
    then have "set (targets ?x lines) \<subseteq> include_edges fs `` {?x}" by (auto simp: include_edges_def)
    with "1.IH" [OF refl False r] "1.prems"(2) show ?thesis by (simp add: trancl_into_rtrancl)
  qed
next
  case (2 fs stack path st)
  then show ?case by simp
next
  case (3 fs stack path line rest st)
  show ?case
  proof (cases "include_of line")
    case None
    with 3 show ?thesis by (auto split: if_splits)
  next
    case (Some i)
    let ?q = "resolve_path (join_path (path_parent path) i)" and ?st = "st\<lparr>n_lines := Suc (n_lines st)\<rparr>"
    from "3.prems"(1) have n: "\<not> MAX_SOURCE_LINES \<le> n_lines st" by (auto split: if_splits)
    from "3.prems"(4) Some have e: "(path, ?q) \<in> include_edges fs" "set (targets path rest) \<subseteq> include_edges fs `` {path}" by auto
    show ?thesis
    proof (cases "read_flat fs stack (join_path (path_parent path) i) ?st")
      case (Inl x)
      with "3.prems"(1) Some n have err: "read_flat fs stack (join_path (path_parent path) i) ?st = Inl (WasmBuildError ''cyclic include while building WASM'')"
        by simp
      have "\<forall>s\<in>set stack. (s, ?q) \<in> (include_edges fs)\<^sup>+" using "3.prems"(2) e(1) by (blast intro: rtrancl_into_trancl1)
      from "3.IH"(1) [OF n Some err this] have "\<exists>x\<in>reachable_files fs (insert ?q (set stack)). (x, x) \<in> (include_edges fs)\<^sup>+" .
      moreover have "reachable_files fs (insert ?q (set stack)) \<subseteq> reachable_files fs (set stack)"
        using e(1) "3.prems"(3) by (auto simp: reachable_files_def intro: converse_rtrancl_into_rtrancl)
      ultimately show ?thesis by blast
    next
      case (Inr st1)
      with "3.prems"(1) Some n have err: "read_flat_lines fs stack path rest st1 = Inl (WasmBuildError ''cyclic include while building WASM'')" by simp
      show ?thesis by (rule "3.IH"(2) [OF n _ err "3.prems"(2,3) e(2)]) (use Some Inr in simp)
    qed
  qed
qed

lemma read_flat_source_Inr:
  "read_flat_source fs path = Inr t \<longleftrightarrow> (\<exists>st. read_flat fs [] path flat_start = Inr st \<and> t = concat (chunks st))"
  by (auto simp: read_flat_source_def flat_start_def rmap_Inr)

section \<open>Properties\<close>

text \<open>
  C21. A source that flattens stays within the limits: its text is no longer than the bytes read,
  which are at most 8 MiB, it has at most 262144 lines and 4096 files, and no file is spliced
  twice.
\<close>

theorem flatten_bounds:
  assumes "read_flat_source fs path = Inr text"
  shows "\<exists>st. read_flat fs [] path flat_start = Inr st \<and> text = concat (chunks st) \<and> length text \<le> n_bytes st \<and>
    n_bytes st \<le> MAX_FLATTENED_SOURCE_BYTES \<and> length (chunks st) \<le> n_lines st \<and> n_lines st \<le> MAX_SOURCE_LINES \<and>
    length (seen st) \<le> MAX_SOURCE_FILES \<and> distinct (seen st)"
proof -
  from assms obtain st where st: "read_flat fs [] path flat_start = Inr st" "text = concat (chunks st)"
    by (auto simp: read_flat_source_Inr)
  from reads_bounded(1) [OF read_flat_reads(1) [OF st(1)]] st show ?thesis
    by (intro exI [of _ st]) (simp add: bounded_growth_def flat_start_def text_length_def)
qed

text \<open>A root that includes two files, one of which includes the other, and a cycle.\<close>

definition include_line :: "string \<Rightarrow> string" where
  "include_line p = ''include '' @ [CHR 0x22] @ p @ [CHR 0x22, CHR 0x0A]"

definition sample_tree :: fs where
  "sample_tree = [(''/s/r'', File (''a'' @ [CHR 0x0A] @ include_line ''m'' @ include_line ''../s/l'') 420),
     (''/s/m'', File (include_line ''l'' @ ''b'' @ [CHR 0x0D, CHR 0x0A]) 420), (''/s/l'', File (''c'' @ [CHR 0x0A]) 420)]"

definition cyclic_tree :: fs where
  "cyclic_tree = [(''/s/r'', File (include_line ''m'') 420), (''/s/m'', File (include_line ''./r'') 420)]"

lemma sample_tree_read: "read_flat_source sample_tree ''/s/r'' = Inr (''a'' @ [CHR 0x0A] @ ''c'' @ [CHR 0x0A] @ ''b'' @ [CHR 0x0A])"
  by code_simp

theorem flatten_bounds_witness:
  "\<exists>st. read_flat sample_tree [] ''/s/r'' flat_start = Inr st \<and> n_bytes st \<le> MAX_FLATTENED_SOURCE_BYTES \<and> distinct (seen st)"
  using flatten_bounds [OF sample_tree_read] by auto

text \<open>
  C22. The files a successful flattening reads are exactly those the root reaches by its include
  lines; each is a readable source, and among them inclusion has no cycle.
\<close>

theorem flatten_reads_closure:
  assumes "read_flat fs [] path flat_start = Inr st"
  shows "set (seen st) = reachable_files fs {resolve_path path} \<and> list_all (is_source fs) (seen st) \<and>
    acyclic (include_edges fs \<inter> set (seen st) \<times> set (seen st))"
proof -
  note r = read_flat_reads(1) [OF assms]
  have "well_founded_files fs (set (seen flat_start) - set [])" by (simp add: well_founded_files_def flat_start_def acyclic_def)
  with reads_graph(1) [OF r] have g: "resolve_path path \<in> set (seen st)" "well_founded_files fs (set (seen st))"
    by (simp_all add: flat_start_def)
  from reads_reached(1) [OF r] have s: "set (seen st) \<subseteq> reachable_files fs {resolve_path path} \<inter> Collect (is_source fs)"
    by (simp add: flat_start_def)
  from g have "reachable_files fs {resolve_path path} \<subseteq> set (seen st)"
    by (intro closed_reachable) (simp_all add: well_founded_files_def)
  with s g(2) show ?thesis by (auto simp: well_founded_files_def list_all_iff)
qed

lemma sample_tree_state:
  "read_flat sample_tree [] ''/s/r'' flat_start = Inr \<lparr>seen = [''/s/l'', ''/s/m'', ''/s/r''], n_bytes = 48, n_lines = 6, chunks = [''a'' @ [CHR 0x0A], ''c'' @ [CHR 0x0A], ''b'' @ [CHR 0x0A]]\<rparr>"
  by code_simp

theorem flatten_reads_closure_witness:
  "reachable_files sample_tree {resolve_path ''/s/r''} = {''/s/l'', ''/s/m'', ''/s/r''}"
  using flatten_reads_closure [OF sample_tree_state] by (simp add: insert_commute)

text \<open>
  The error about a cyclic include is raised only when there is a cycle: some file reachable
  from the root includes itself, directly or through others.
\<close>

theorem cyclic_error_real:
  assumes "read_flat_source fs path = Inl (WasmBuildError ''cyclic include while building WASM'')"
  shows "\<exists>x\<in>reachable_files fs {resolve_path path}. (x, x) \<in> (include_edges fs)\<^sup>+"
  using assms cyclic_error(1) [of fs "[]" path] by (simp add: read_flat_source_def rmap_Inl)

theorem cyclic_error_real_witness:
  "\<exists>x\<in>reachable_files cyclic_tree {resolve_path ''/s/r''}. (x, x) \<in> (include_edges cyclic_tree)\<^sup>+"
  by (rule cyclic_error_real) code_simp

end
