(* ===== verification/WasmExports.thy ===== *)
theory WasmExports
  imports WasmFlat ParScan
begin

text \<open>
  The export scanner \<open>scripts/wasm_export_scan.py\<close>: splitting of parameter lists, types and their
  WebAssembly representation, and the list of exports of a source. Error messages keep their
  fixed part.
\<close>

section \<open>Tables\<close>

definition SCALAR_TYPES :: "(string, string) dict" where
  "SCALAR_TYPES = [(''i8'', ''i32''), (''u8'', ''i32''), (''i16'', ''i32''), (''u16'', ''i32''), (''i32'', ''i32''), (''u32'', ''i32''),
     (''i64'', ''i64''), (''u64'', ''i64''), (''int'', ''i32''), (''char'', ''i64''), (''isize'', ''i32''), (''usize'', ''i32''),
     (''uintptr'', ''i32''), (''f32'', ''f32''), (''f64'', ''f64''), (''bool'', ''i32''), (''void'', ''void'')]"

definition EXPORT_RE :: rx where
  "EXPORT_RE = Seqs [Bol, Spaces0, Lit ''export'', Spaces1, Lit ''fn'', Spaces1, Grp 1 Ident, Spaces0, Chr (CHR ''(''), Grp 2 (Many Dot), Chr (CHR '')''),
     Opt (Seqs [Spaces0, Lit ''->'', Spaces0, Grp 3 (Seq (Cls (\<lambda>c. c \<noteq> CHR ''='')) (Star False (Cls (\<lambda>c. c \<noteq> CHR ''=''))))]), Spaces0,
     Opt (Seqs [Chr (CHR ''=''), Spaces0, Grp 4 (Seq (Cls is_ident_start) (Many (Cls (\<lambda>c. is_ident_part c \<or> c = CHR '':''))))]), Spaces0, Eol]"

definition LINK_NAME_RE :: rx where
  "LINK_NAME_RE = Seqs [Bol, Spaces0, Lit ''@link_name('', Alt (Seqs [Chr (CHR 0x22), Grp 1 (Many (Cls (\<lambda>c. c \<noteq> CHR 0x22))), Chr (CHR 0x22)]) (Grp 2 Ident),
     Chr (CHR '')''), Spaces0, Eol]"

definition MAIN_RE :: rx where
  "MAIN_RE = Seqs [Bol, Spaces0, Lit ''def'', Spaces1, Lit ''main'', Spaces0, Chr (CHR ''(''), Grp 1 (Many Dot), Chr (CHR '')''), Spaces0,
     Opt (Seqs [Lit ''->'', Spaces0, Grp 2 (Seq (Cls (\<lambda>c. c \<noteq> CHR '':'')) (Star False (Cls (\<lambda>c. c \<noteq> CHR '':''))))]), Spaces0, Chr (CHR '':''), Spaces0, Eol]"

section \<open>Splitting\<close>

definition closes :: "char \<Rightarrow> bool" where
  "closes c \<longleftrightarrow> c = CHR '')'' \<or> c = CHR '']'' \<or> c = CHR ''}''"

fun split_depth :: "char \<Rightarrow> qstate \<Rightarrow> int \<Rightarrow> string \<Rightarrow> string \<Rightarrow> string list" where
  "split_depth d q depth acc [] = [strip (rev acc)]"
| "split_depth d q depth acc (c # cs) =
     (if \<not> is_code q c then split_depth d (qnext q c) depth (c # acc) cs
      else if opens c then split_depth d q (depth + 1) (c # acc) cs
      else if closes c then split_depth d q (depth - 1) (c # acc) cs
      else if c = d \<and> depth = 0 then strip (rev acc) # split_depth d q depth [] cs
      else split_depth d q depth (c # acc) cs)"

definition split_top_level :: "char \<Rightarrow> string \<Rightarrow> string list" where
  "split_top_level d text = filter (\<lambda>p. p \<noteq> []) (split_depth d no_quote 0 [] text)"

fun assign_at :: "qstate \<Rightarrow> int \<Rightarrow> string \<Rightarrow> string \<Rightarrow> string \<times> string option" where
  "assign_at q depth acc [] = (strip (rev acc), None)"
| "assign_at q depth acc (c # cs) =
     (if \<not> is_code q c then assign_at (qnext q c) depth (c # acc) cs
      else if opens c then assign_at q (depth + 1) (c # acc) cs
      else if closes c then assign_at q (depth - 1) (c # acc) cs
      else if c = CHR ''='' \<and> depth = 0 then (strip (rev acc), Some (strip cs))
      else assign_at q depth (c # acc) cs)"

definition split_assignment :: "string \<Rightarrow> string \<times> string option" where
  "split_assignment text = assign_at no_quote 0 [] text"

section \<open>Types and parameters\<close>

definition STORAGE_RE :: rx where
  "STORAGE_RE = Seqs [Bol, Alts [Lit ''mutable'', Lit ''lmut'', Lit ''heap'', Lit ''stack'', Lit ''static''], Spaces1]"

definition normalize_type :: "string \<Rightarrow> string" where
  "normalize_type text = filter (\<lambda>c. \<not> is_space c) (re_sub STORAGE_RE (\<lambda>_. []) (strip text))"

record parameter =
  p_name :: string
  p_type :: string
  p_default :: "string option"

definition parse_parameter :: "string \<Rightarrow> parameter result" where
  "parse_parameter text = (case split_assignment text of (declaration, dflt) \<Rightarrow>
     (case split1 (CHR '':'') declaration of
        (_, None) \<Rightarrow> Inl (WasmBuildError ''a parameter without a name/type'')
      | (name, Some type_text) \<Rightarrow>
          if re_fullmatch Ident (strip name) = None then Inl (WasmBuildError ''an invalid parameter name'')
          else Inr \<lparr>p_name = strip name, p_type = normalize_type type_text, p_default = dflt\<rparr>))"

definition abi_for_type :: "bool \<Rightarrow> string \<Rightarrow> (string \<times> string) result" where
  "abi_for_type component type_text = (let normalized = normalize_type type_text in
     if ends_with ''?'' normalized then Inl (WasmBuildError ''type is nullable'')
     else if normalized = ''cstr'' then Inr (''string'', ''i32'')
     else if ends_with ''&'' normalized \<or> ends_with ''&&'' normalized then Inr (''pointer'', ''i32'')
     else case dget SCALAR_TYPES normalized of
         Some w \<Rightarrow> Inr (''scalar'', w)
       | None \<Rightarrow> if component then Inr (''scalar'', ''i32'') else Inl (WasmBuildError ''type is not directly representable''))"

section \<open>Exports\<close>

record bound_parameter = parameter +
  p_binding :: string
  p_wasm_type :: string

record wasm_export =
  e_name :: string
  e_target :: string
  e_parameters :: "bound_parameter list"
  e_return :: string
  e_binding :: string
  e_wasm_type :: string
  e_line :: nat
  e_link_name :: "string option"
  e_implicit :: bool

text \<open>The set \<open>seen\<close> as the list of names, the latest first.\<close>

record scan =
  exports :: "wasm_export list"
  seen_names :: "string list"
  pending_link_name :: "string option"

definition bind_parameter :: "bool \<Rightarrow> parameter \<Rightarrow> bound_parameter result" where
  "bind_parameter component p = rmap (\<lambda>(b, w). parameter.extend p (bound_parameter.fields b w)) (abi_for_type component (p_type p))"

text \<open>The entry of a function: its parameters are parsed, then bound, then its result.\<close>

definition make_export :: "bool \<Rightarrow> string \<Rightarrow> string \<Rightarrow> string \<Rightarrow> string \<Rightarrow> nat \<Rightarrow> string option \<Rightarrow> bool \<Rightarrow> wasm_export result" where
  "make_export component name target raw_parameters raw_return line link implicit =
     (let return_type = normalize_type raw_return in
      rbind (traverse parse_parameter (split_top_level (CHR '','') raw_parameters)) (\<lambda>ps.
      rbind (traverse (bind_parameter component) ps) (\<lambda>parameters.
      rbind (abi_for_type component return_type) (\<lambda>(binding, wasm_type).
        Inr \<lparr>e_name = name, e_target = target, e_parameters = parameters, e_return = return_type, e_binding = binding,
              e_wasm_type = wasm_type, e_line = line, e_link_name = link, e_implicit = implicit\<rparr>))))"

definition scan_line :: "bool \<Rightarrow> nat \<Rightarrow> string \<Rightarrow> scan \<Rightarrow> scan result" where
  "scan_line component line_number line st =
     (case re_match LINK_NAME_RE line of
        Some m \<Rightarrow> Inr (st\<lparr>pending_link_name := (case group_or m 1 [] of [] \<Rightarrow> group m 2 | s \<Rightarrow> Some s)\<rparr>)
      | None \<Rightarrow> (case re_match EXPORT_RE line of
          Some m \<Rightarrow> (let public_name = group_or m 1 [] in
            if public_name \<in> set (seen_names st) then Inl (WasmBuildError ''duplicate WASM export'')
            else rmap (\<lambda>e. st\<lparr>exports := exports st @ [e], pending_link_name := None, seen_names := public_name # seen_names st\<rparr>)
              (make_export component public_name (group_or m 4 public_name) (group_or m 2 []) (group_or m 3 ''void'') line_number (pending_link_name st) False))
        | None \<Rightarrow> (let st1 = (if strip line \<noteq> [] \<and> \<not> starts_with ''#'' (lstrip line) then st\<lparr>pending_link_name := None\<rparr> else st) in
            case re_match MAIN_RE line of
              None \<Rightarrow> Inr st1
            | Some m \<Rightarrow> if ''main'' \<in> set (seen_names st1) then Inr st1
                else rmap (\<lambda>e. st1\<lparr>exports := exports st1 @ [e], seen_names := ''main'' # seen_names st1\<rparr>)
                  (make_export component ''main'' ''main'' (group_or m 1 []) (group_or m 2 ''void'') line_number None True))))"

fun scan_lines :: "bool \<Rightarrow> nat \<Rightarrow> string list \<Rightarrow> scan \<Rightarrow> scan result" where
  "scan_lines component n [] st = Inr st"
| "scan_lines component n (line # rest) st = rbind (scan_line component n line st) (scan_lines component (Suc n) rest)"

definition parse_exports :: "bool \<Rightarrow> string \<Rightarrow> wasm_export list result" where
  "parse_exports component source =
     rbind (scan_lines component 1 (splitlines source) \<lparr>exports = [], seen_names = [], pending_link_name = None\<rparr>) (\<lambda>st.
       if exports st = [] then Inl (WasmBuildError ''WASM source has no exported function'') else Inr (exports st))"

section \<open>Normal types\<close>

lemma run_spaces1_none:
  assumes "list_all (\<lambda>c. \<not> is_space c) (ahead st)"
  shows "run Spaces1 st = []"
  using assms by (cases "ahead st") (auto simp: Spaces1_def Plus_def)

lemma run_then_spaces_none:
  assumes "list_all (\<lambda>c. \<not> is_space c) (ahead st)"
  shows "run (Seq r Spaces1) st = []"
proof -
  have "run Spaces1 t = []" if t: "t \<in> set (run r st)" for t
  proof (rule run_spaces1_none)
    from run_consumes [OF t] obtain w where "w @ ahead t = ahead st"
      by (auto simp: consumes_def append_eq_append_conv2)
    from assms [folded this] show "list_all (\<lambda>c. \<not> is_space c) (ahead t)" by simp
  qed
  then show ?thesis by simp
qed

lemma no_storage_prefix:
  "list_all (\<lambda>c. \<not> is_space c) s \<Longrightarrow> run STORAGE_RE \<lparr>behind = b, ahead = s, caps = []\<rparr> = []"
  using run_then_spaces_none [of "\<lparr>behind = b, ahead = s, caps = []\<rparr>"] by (simp add: STORAGE_RE_def del: Alts.simps)

lemma no_storage_found: "list_all (\<lambda>c. \<not> is_space c) s \<Longrightarrow> find_from STORAGE_RE False b s = None"
  by (induction s arbitrary: b) (simp_all add: no_storage_prefix first_match_def)

definition no_space :: "string \<Rightarrow> bool" where
  "no_space s \<longleftrightarrow> list_all (\<lambda>c. \<not> is_space c) s"

lemma no_space_strip: "no_space s \<Longrightarrow> strip s = s"
  unfolding no_space_def strip_def lstrip_def rstrip_def
  by (metis (mono_tags, lifting) dropWhile_eq_self_iff hd_in_set list_all_iff rev_is_Nil_conv rev_rev_ident set_rev)

lemma normalize_type_fixed: "no_space s \<Longrightarrow> normalize_type s = s"
  by (simp add: normalize_type_def no_space_strip re_sub_id no_storage_found no_space_def filter_id_conv list_all_iff)

lemma normalize_type_no_space: "no_space (normalize_type s)"
  by (simp add: normalize_type_def no_space_def list_all_iff)

lemma normalize_type_idem [simp]: "normalize_type (normalize_type s) = normalize_type s"
  by (simp add: normalize_type_fixed normalize_type_no_space)

section \<open>Bindings\<close>

definition representable :: "bool \<Rightarrow> string \<Rightarrow> string \<Rightarrow> string \<Rightarrow> bool" where
  "representable component ty b w \<longleftrightarrow> no_space ty \<and> \<not> ends_with ''?'' ty \<and>
     (b = ''string'' \<and> ty = ''cstr'' \<and> w = ''i32'' \<or> b = ''pointer'' \<and> ends_with ''&'' ty \<and> w = ''i32'' \<or>
      b = ''scalar'' \<and> ty \<noteq> ''cstr'' \<and> \<not> ends_with ''&'' ty \<and>
        (dget SCALAR_TYPES ty = Some w \<or> component \<and> dget SCALAR_TYPES ty = None \<and> w = ''i32''))"

text \<open>A type has one binding.\<close>

lemma representable_unique: "representable c ty b w \<Longrightarrow> representable c ty b' w' \<Longrightarrow> b' = b \<and> w' = w"
  by (auto simp: representable_def ends_with_def)

lemma ends_with_two: "ends_with ''&&'' s \<Longrightarrow> ends_with ''&'' s"
  unfolding ends_with_iff by (metis append_Cons append_Nil append.assoc)

lemma abi_representable:
  "abi_for_type component (normalize_type t) = Inr (b, w) \<Longrightarrow> representable component (normalize_type t) b w"
  by (auto simp: abi_for_type_def representable_def Let_def normalize_type_no_space split: if_splits option.splits dest: ends_with_two)

definition parameter_ok :: "bool \<Rightarrow> bound_parameter \<Rightarrow> bool" where
  "parameter_ok component p \<longleftrightarrow> ascii_ident (p_name p) \<and> representable component (p_type p) (p_binding p) (p_wasm_type p)"

definition export_ok :: "bool \<Rightarrow> wasm_export \<Rightarrow> bool" where
  "export_ok component e \<longleftrightarrow> list_all (parameter_ok component) (e_parameters e) \<and> representable component (e_return e) (e_binding e) (e_wasm_type e)"

lemma bind_parameter_ok:
  assumes "bind_parameter component p = Inr q" and "parse_parameter text = Inr p"
  shows "parameter_ok component q"
proof -
  from assms(2) obtain name ty where p: "ascii_ident (p_name p)" "p_type p = normalize_type ty"
    by (auto simp: parse_parameter_def simp flip: fullmatch_Ident split: prod.splits option.splits if_splits)
  from assms(1) p(2) obtain b w where "abi_for_type component (p_type p) = Inr (b, w)" "q = parameter.extend p (bound_parameter.fields b w)"
    by (auto simp: bind_parameter_def rmap_Inr)
  with p abi_representable [of component ty b w] show ?thesis
    by (simp add: parameter_ok_def parameter.defs bound_parameter.defs)
qed

lemma make_export_ok:
  assumes "make_export component name target ps ret line link implicit = Inr e"
  shows "export_ok component e \<and> e_name e = name \<and> e_target e = target \<and> e_line e = line \<and> e_link_name e = link \<and> e_implicit e = implicit"
proof -
  from assms obtain qs params b w where m: "traverse parse_parameter (split_top_level (CHR '','') ps) = Inr qs"
      "traverse (bind_parameter component) qs = Inr params" "abi_for_type component (normalize_type ret) = Inr (b, w)"
      "e = \<lparr>e_name = name, e_target = target, e_parameters = params, e_return = normalize_type ret, e_binding = b,
              e_wasm_type = w, e_line = line, e_link_name = link, e_implicit = implicit\<rparr>"
    by (auto simp: make_export_def Let_def rbind_def split: sum.splits)
  have "parameter_ok component q" if q: "q \<in> set params" for q
    using traverse_Inr_set [OF m(2) q] traverse_Inr_set [OF m(1)] bind_parameter_ok by metis
  with m(4) abi_representable [OF m(3)] show ?thesis by (simp add: export_ok_def list_all_iff)
qed

section \<open>The exports of a source\<close>

text \<open>What single lines declare, and the reference list of exports.\<close>

definition link_of :: "string \<Rightarrow> string option option" where
  "link_of line = map_option (\<lambda>m. case group_or m 1 [] of [] \<Rightarrow> group m 2 | s \<Rightarrow> Some s) (re_match LINK_NAME_RE line)"

datatype declared = Link "string option" | Export string | Main | Code | Blank

definition declares :: "string \<Rightarrow> declared" where
  "declares line = (case link_of line of Some l \<Rightarrow> Link l
     | None \<Rightarrow> case re_match EXPORT_RE line of Some m \<Rightarrow> Export (group_or m 1 [])
     | None \<Rightarrow> if re_match MAIN_RE line \<noteq> None then Main
         else if strip line \<noteq> [] \<and> \<not> starts_with ''#'' (lstrip line) then Code else Blank)"

fun link_before :: "string list \<Rightarrow> string option" where
  "link_before [] = None"
| "link_before (line # earlier) = (case declares line of Link l \<Rightarrow> l | Blank \<Rightarrow> link_before earlier | _ \<Rightarrow> None)"

definition names_of :: "declared \<Rightarrow> string list" where
  "names_of d = (case d of Export x \<Rightarrow> [x] | Main \<Rightarrow> [''main''] | _ \<Rightarrow> [])"

definition entry :: "string list \<Rightarrow> string \<Rightarrow> (nat \<times> string \<times> string option \<times> bool) list" where
  "entry before line = (let n = Suc (length before) in case declares line of
     Export x \<Rightarrow> [(n, x, link_before (rev before), False)]
   | Main \<Rightarrow> if ''main'' \<in> set (concat (map (names_of \<circ> declares) before)) then [] else [(n, ''main'', None, True)]
   | _ \<Rightarrow> [])"

definition expected_exports :: "string list \<Rightarrow> (nat \<times> string \<times> string option \<times> bool) list" where
  "expected_exports lines = concat (map (\<lambda>n. entry (take n lines) (lines ! n)) [0..<length lines])"

lemma expected_exports_snoc: "expected_exports (xs @ [l]) = expected_exports xs @ entry xs l"
proof -
  have "map (\<lambda>n. entry (take n (xs @ [l])) ((xs @ [l]) ! n)) [0..<length xs] = map (\<lambda>n. entry (take n xs) (xs ! n)) [0..<length xs]"
    by (simp add: nth_append)
  then have "expected_exports (xs @ [l]) = concat (map (\<lambda>n. entry (take n xs) (xs ! n)) [0..<length xs]) @ entry (take (length xs) (xs @ [l])) ((xs @ [l]) ! length xs)"
    by (simp only: expected_exports_def length_append_singleton upt_Suc_append zero_order map_append concat_append list.map concat.simps append_Nil2)
  then show ?thesis by (simp add: expected_exports_def)
qed

lemma scan_lines_append:
  "scan_lines c n (xs @ ys) st = rbind (scan_lines c n xs st) (scan_lines c (n + length xs) ys)"
  by (induction xs arbitrary: n st) (auto simp: rbind_def split: sum.splits)

definition summary :: "wasm_export \<Rightarrow> nat \<times> string \<times> string option \<times> bool" where
  "summary e = (e_line e, e_name e, e_link_name e, e_implicit e)"

lemma run_after_spaces:
  assumes "t \<in> set (run (Seq Bol (Seq Spaces0 (Seq (Seq (Chr c) q) r))) st)"
  shows "\<exists>w u. list_all is_space w \<and> ahead st = w @ c # u"
  using assms by (auto simp: Spaces0_def Chr_def split: if_splits list.splits dest!: repeat_cls_all) metis

lemma main_line_is_code:
  assumes "re_match MAIN_RE line = Some m"
  shows "strip line \<noteq> [] \<and> \<not> starts_with ''#'' (lstrip line)"
proof -
  from assms have "m \<in> set (run MAIN_RE (start line))" by (auto simp: re_match_def dest: first_match_Some)
  then have "\<exists>w u. list_all is_space w \<and> line = w @ CHR ''d'' # u"
    unfolding MAIN_RE_def Seqs.simps Lit.simps by (auto dest!: run_after_spaces simp: start_def simp del: run.simps)
  then obtain w u where l: "list_all is_space w" "line = w @ CHR ''d'' # u" by blast
  then have "lstrip line = CHR ''d'' # u"
    by (auto simp: lstrip_def dropWhile_append list_all_iff is_space_def)
  moreover have "\<not> is_space (CHR ''d'')" by (simp add: is_space_def)
  then have "rstrip (CHR ''d'' # u) \<noteq> []" by (simp add: rstrip_def)
  ultimately show ?thesis by (simp add: strip_def starts_with_def)
qed

definition scan_ok :: "bool \<Rightarrow> string list \<Rightarrow> scan \<Rightarrow> bool" where
  "scan_ok component lines st \<longleftrightarrow> map summary (exports st) = expected_exports lines \<and> pending_link_name st = link_before (rev lines) \<and>
     set (seen_names st) = set (concat (map (names_of \<circ> declares) lines)) \<and> set (map e_name (exports st)) = set (seen_names st) \<and>
     distinct (map e_name (exports st)) \<and> list_all (export_ok component) (exports st)"

lemma scan_line_ok:
  assumes step: "scan_line component (Suc (length lines)) line st = Inr st'" and ok: "scan_ok component lines st"
  shows "scan_ok component (lines @ [line]) st'"
proof (cases "re_match LINK_NAME_RE line")
  case (Some m)
  then have "declares line = Link (case group_or m 1 [] of [] \<Rightarrow> group m 2 | s \<Rightarrow> Some s)" by (simp add: declares_def link_of_def)
  with step ok Some show ?thesis
    by (auto simp: scan_line_def scan_ok_def expected_exports_snoc entry_def names_of_def)
next
  case noLink: None
  show ?thesis
  proof (cases "re_match EXPORT_RE line")
    case (Some m)
    let ?x = "group_or m 1 []"
    have d: "declares line = Export ?x" using noLink Some by (simp add: declares_def link_of_def)
    from step noLink Some obtain e where e: "?x \<notin> set (seen_names st)"
      "make_export component ?x (group_or m 4 ?x) (group_or m 2 []) (group_or m 3 ''void'') (Suc (length lines)) (pending_link_name st) False = Inr e"
      "st' = st\<lparr>exports := exports st @ [e], pending_link_name := None, seen_names := ?x # seen_names st\<rparr>"
      by (auto simp: scan_line_def Let_def rmap_Inr split: if_splits)
    with ok d make_export_ok [OF e(2)] show ?thesis
      by (auto simp: scan_ok_def expected_exports_snoc entry_def names_of_def summary_def)
  next
    case noExport: None
    show ?thesis
    proof (cases "re_match MAIN_RE line")
      case None
      with step ok noLink noExport show ?thesis
        by (auto simp: scan_line_def Let_def scan_ok_def expected_exports_snoc entry_def names_of_def declares_def link_of_def)
    next
      case (Some m)
      have d: "declares line = Main" using noLink noExport Some by (simp add: declares_def link_of_def)
      show ?thesis
      proof (cases "''main'' \<in> set (seen_names st)")
        case True
        with step ok noLink noExport Some d main_line_is_code [OF Some] show ?thesis
          by (auto simp: scan_line_def Let_def scan_ok_def expected_exports_snoc entry_def names_of_def)
      next
        case False
        with step noLink noExport Some main_line_is_code [OF Some] obtain e where e:
          "make_export component ''main'' ''main'' (group_or m 1 []) (group_or m 2 ''void'') (Suc (length lines)) None True = Inr e"
          "st' = st\<lparr>exports := exports st @ [e], pending_link_name := None, seen_names := ''main'' # seen_names st\<rparr>"
          by (auto simp: scan_line_def Let_def rmap_Inr)
        with ok d False make_export_ok [OF e(1)] show ?thesis
          by (auto simp: scan_ok_def expected_exports_snoc entry_def names_of_def summary_def)
      qed
    qed
  qed
qed

definition scan_start :: scan where
  "scan_start = \<lparr>exports = [], seen_names = [], pending_link_name = None\<rparr>"

lemma scan_lines_ok: "scan_lines component 1 lines scan_start = Inr st \<Longrightarrow> scan_ok component lines st"
proof (induction lines arbitrary: st rule: rev_induct)
  case Nil
  then show ?case by (auto simp: scan_ok_def scan_start_def expected_exports_def)
next
  case (snoc line lines)
  from snoc.prems obtain st1 where "scan_lines component 1 lines scan_start = Inr st1" "scan_line component (Suc (length lines)) line st1 = Inr st"
    by (auto simp: scan_lines_append rbind_def split: sum.splits)
  with snoc.IH scan_line_ok show ?case by blast
qed

lemma parse_exports_ok:
  assumes "parse_exports component source = Inr es"
  shows "es \<noteq> [] \<and> map summary es = expected_exports (splitlines source) \<and> distinct (map e_name es) \<and> list_all (export_ok component) es"
proof -
  from assms obtain st where "scan_lines component 1 (splitlines source) scan_start = Inr st" "es = exports st" "es \<noteq> []"
    by (auto simp: parse_exports_def scan_start_def rbind_def split: sum.splits if_splits)
  with scan_lines_ok [of component "splitlines source" st] show ?thesis by (simp add: scan_ok_def)
qed

section \<open>Names and targets\<close>

definition target_text :: "string \<Rightarrow> bool" where
  "target_text s \<longleftrightarrow> (case s of [] \<Rightarrow> False | c # cs \<Rightarrow> is_ident_start c \<and> list_all (\<lambda>c. is_ident_part c \<or> c = CHR '':'') cs)"

lemma ascii_ident_target: "ascii_ident s \<Longrightarrow> target_text s"
  by (auto simp: ascii_ident_def target_text_def list_all_iff split: list.splits)

lemma export_match_name:
  assumes "re_match EXPORT_RE line = Some m"
  shows "ascii_ident (group_or m 1 [])"
proof -
  have "must_set 1 EXPORT_RE" by (simp add: EXPORT_RE_def)
  from match_sets_group [OF assms this] obtain x where x: "group m 1 = Some x" by auto
  have "ascii_ident x"
  proof (rule match_group [OF assms _ x])
    fix r' u v assume "(1, r') \<in> set (groups EXPORT_RE)" and v: "v \<in> set (run r' u)"
    then have "r' = Ident"
      by (auto simp: EXPORT_RE_def Spaces0_def Spaces1_def Plus_def Dot_def Opt_def Chr_def Ident_def)
    with v consumed_cls_many show "ascii_ident (consumed u v)" by (simp only: Ident_def ascii_ident_def)
  qed
  moreover from this have "x \<noteq> []" by (auto simp: ascii_ident_def)
  ultimately show ?thesis using x by (simp add: group_or_def)
qed

lemma export_match_target:
  assumes "re_match EXPORT_RE line = Some m"
  shows "target_text (group_or m 4 (group_or m 1 []))"
proof (cases "group m 4")
  case None
  with export_match_name [OF assms] show ?thesis by (simp add: group_or_def [of m 4] ascii_ident_target)
next
  case (Some x)
  have "target_text x"
  proof (rule match_group [OF assms _ Some])
    fix r' u v assume "(4, r') \<in> set (groups EXPORT_RE)" and v: "v \<in> set (run r' u)"
    then have "r' = Seq (Cls is_ident_start) (Many (Cls (\<lambda>c. is_ident_part c \<or> c = CHR '':'')))"
      by (auto simp: EXPORT_RE_def Spaces0_def Spaces1_def Plus_def Dot_def Opt_def Chr_def Ident_def)
    with v consumed_cls_many show "target_text (consumed u v)" by (simp only: target_text_def)
  qed
  then show ?thesis using Some by (auto simp: group_or_def target_text_def)
qed

definition named_ok :: "wasm_export \<Rightarrow> bool" where
  "named_ok e \<longleftrightarrow> ascii_ident (e_name e) \<and> target_text (e_target e) \<and> 1 \<le> e_line e"

lemma scan_line_named:
  assumes "scan_line component (Suc n) line st = Inr st'" and "list_all named_ok (exports st)"
  shows "list_all named_ok (exports st')"
proof -
  have main: "ascii_ident ''main''" by code_simp
  show ?thesis
    using assms main export_match_name [of line] export_match_target [of line]
    by (auto simp: scan_line_def Let_def rmap_Inr named_ok_def dest!: make_export_ok intro: ascii_ident_target split: option.splits if_splits)
qed

lemma scan_lines_named:
  "scan_lines component (Suc n) lines st = Inr st' \<Longrightarrow> list_all named_ok (exports st) \<Longrightarrow> list_all named_ok (exports st')"
proof (induction lines arbitrary: n st)
  case (Cons line lines)
  from Cons.prems(1) obtain st1 where "scan_line component (Suc n) line st = Inr st1" "scan_lines component (Suc (Suc n)) lines st1 = Inr st'"
    by (auto simp: rbind_Inr_conv)
  with Cons.IH scan_line_named Cons.prems(2) show ?case by blast
qed simp

lemma parse_exports_named:
  assumes "parse_exports component source = Inr es"
  shows "list_all named_ok es"
proof -
  from assms obtain st where "scan_lines component (Suc 0) (splitlines source) scan_start = Inr st" "es = exports st"
    by (auto simp: parse_exports_def scan_start_def rbind_def split: sum.splits if_splits)
  with scan_lines_named [OF this(1)] show ?thesis by (simp add: scan_start_def)
qed

section \<open>Properties\<close>

text \<open>
  C23. The exports of a source are those its lines declare, in order: every \<open>export fn\<close> line with the
  link name of the closest line before it that is not blank or a comment, and the first
  \<open>def main\<close> when no function of that name was declared before.
\<close>

theorem parse_exports_exact:
  assumes "parse_exports component source = Inr es"
  shows "map summary es = expected_exports (splitlines source)"
  using parse_exports_ok [OF assms] by simp

definition sample_source :: string where
  "sample_source = ''@link_name(g)'' @ [CHR 0x0A] @ ''# c'' @ [CHR 0x0A] @ ''export fn f(a: heap u8&) -> cstr'' @ [CHR 0x0A] @ ''def main():''"

definition sample_exports :: "wasm_export list" where
  "sample_exports =
     [\<lparr>e_name = ''f'', e_target = ''f'', e_parameters = [\<lparr>p_name = ''a'', p_type = ''u8&'', p_default = None, p_binding = ''pointer'', p_wasm_type = ''i32''\<rparr>],
        e_return = ''cstr'', e_binding = ''string'', e_wasm_type = ''i32'', e_line = 3, e_link_name = Some ''g'', e_implicit = False\<rparr>,
      \<lparr>e_name = ''main'', e_target = ''main'', e_parameters = [], e_return = ''void'', e_binding = ''scalar'', e_wasm_type = ''void'',
        e_line = 4, e_link_name = None, e_implicit = True\<rparr>]"

lemma sample_source_parsed: "parse_exports False sample_source = Inr sample_exports"
  by code_simp

theorem parse_exports_exact_witness:
  "expected_exports (splitlines sample_source) = [(3, ''f'', Some ''g'', False), (4, ''main'', None, True)]"
  using parse_exports_exact [OF sample_source_parsed] by (simp add: sample_exports_def summary_def)

text \<open>
  C24. The list is not empty and has no name twice; every parameter has an ASCII identifier as its
  name, and the binding and WebAssembly type of every parameter and result are those of its
  type, of which it has only one: no whitespace, not nullable, a C string as a text, else a reference
  as a pointer, else a scalar of the table (or, for components only, any other name as a 32-bit integer).
\<close>

theorem parse_exports_typed:
  assumes "parse_exports component source = Inr es"
  shows "es \<noteq> [] \<and> distinct (map e_name es) \<and> list_all (export_ok component) es \<and>
    (\<forall>ty b w b' w'. representable component ty b w \<longrightarrow> representable component ty b' w' \<longrightarrow> b' = b \<and> w' = w)"
  using parse_exports_ok [OF assms] representable_unique by blast

theorem parse_exports_typed_witness: "representable False ''u8&'' ''pointer'' ''i32''"
  using parse_exports_typed [OF sample_source_parsed] by (simp add: sample_exports_def export_ok_def parameter_ok_def)

text \<open>
  The splicer does not end the last line of an included file: when that line has no line
  break, the next line of the includer is joined to it, so that an export declared there gets
  another target or is lost.
\<close>

definition one_include :: "string \<Rightarrow> string \<Rightarrow> fs" where
  "one_include contents next_line = [(''/s/r'', File (include_line ''l'' @ next_line) 420), (''/s/l'', File contents 420)]"

definition scan_file :: "fs \<Rightarrow> (string \<times> string) list result" where
  "scan_file fs = rmap (map (\<lambda>e. (e_name e, e_target e))) (rbind (read_flat_source fs ''/s/r'') (parse_exports False))"

theorem unterminated_include:
  "scan_file (one_include (''export fn f() = g'' @ [CHR 0x0A]) ''x'') = Inr [(''f'', ''g'')] \<and>
   scan_file (one_include ''export fn f() = g'' ''x'') = Inr [(''f'', ''gx'')] \<and>
   scan_file (one_include ''export fn f() = g'' ''x y'') = Inl (WasmBuildError ''WASM source has no exported function'')"
  by code_simp

end
