(* ===== verification/WasmClient.thy ===== *)
theory WasmClient
  imports WasmExports PyJson
begin

text \<open>
  \<open>scripts/wasm_export_scan_client.py\<close>: the client of an external export scanner. It builds the
  command, refuses malformed payloads, and sums the memory of the scanner's processes from a process
  table. Running the command and reading the table are arguments. Messages keep their fixed
  part. A payload nested deeper than Python's recursion limit is refused with another message
  than here.
\<close>

section \<open>Limits and tables\<close>

definition MAX_PROCESS_OUTPUT_BYTES :: nat where
  "MAX_PROCESS_OUTPUT_BYTES = 67108864"

definition MAX_EXPORTS :: nat where
  "MAX_EXPORTS = 65536"

definition MAX_PARAMETERS_PER_EXPORT :: nat where
  "MAX_PARAMETERS_PER_EXPORT = 4096"

definition MAX_TOTAL_PARAMETERS :: nat where
  "MAX_TOTAL_PARAMETERS = 16384"

definition MAX_PROCESS_SNAPSHOT_ROWS :: nat where
  "MAX_PROCESS_SNAPSHOT_ROWS = 65536"

definition TARGET_RE :: rx where
  "TARGET_RE = Seq (Cls is_ident_start) (Many (Cls (\<lambda>c. is_ident_part c \<or> c = CHR '':'')))"

definition SCALAR_WASM_TYPES :: "(string, string) dict" where
  "SCALAR_WASM_TYPES = [(''i8'', ''i32''), (''u8'', ''i32''), (''i16'', ''i32''), (''u16'', ''i32''), (''i32'', ''i32''), (''u32'', ''i32''),
     (''i64'', ''i64''), (''u64'', ''i64''), (''int'', ''i32''), (''char'', ''i64''), (''isize'', ''i32''), (''usize'', ''i32''),
     (''uintptr'', ''i32''), (''f32'', ''f32''), (''f64'', ''f64''), (''bool'', ''i32''), (''void'', ''void'')]"

section \<open>Fields\<close>

definition field_error :: "'a result" where
  "field_error = Inl (WasmExportScanClientError ''invalid scanner payload field'')"

definition require :: "bool \<Rightarrow> string \<Rightarrow> unit result" where
  "require b msg = (if b then Inr () else Inl (WasmExportScanClientError msg))"

text \<open>Texts of the model are Latin-1, so they always have a UTF-8 encoding.\<close>

definition require_string :: "bool \<Rightarrow> json \<Rightarrow> string result" where
  "require_string nonempty v = (case v of JStr s \<Rightarrow> if nonempty \<and> s = [] then field_error else Inr s | _ \<Rightarrow> field_error)"

definition require_identifier :: "json \<Rightarrow> string result" where
  "require_identifier v = rbind (require_string True v) (\<lambda>s. if re_fullmatch Ident s = None then field_error else Inr s)"

definition client_abi :: "bool \<Rightarrow> string \<Rightarrow> (string \<times> string) option" where
  "client_abi component type_name =
     (if ends_with ''?'' type_name then None
      else if type_name = ''cstr'' then Some (''string'', ''i32'')
      else if ends_with ''&'' type_name then Some (''pointer'', ''i32'')
      else case dget SCALAR_WASM_TYPES type_name of
          None \<Rightarrow> if component then Some (''scalar'', ''i32'') else None
        | Some w \<Rightarrow> Some (''scalar'', w))"

definition validate_abi :: "bool \<Rightarrow> string \<Rightarrow> json \<Rightarrow> json \<Rightarrow> unit result" where
  "validate_abi component type_name binding wasm_type = (case client_abi component type_name of
     Some (b, w) \<Rightarrow> require (binding = JStr b \<and> wasm_type = JStr w) ''inconsistent scanner payload ABI''
   | None \<Rightarrow> require False ''inconsistent scanner payload ABI'')"

definition is_binding :: "json \<Rightarrow> bool" where
  "is_binding v \<longleftrightarrow> v \<in> set [JStr ''scalar'', JStr ''string'', JStr ''pointer'']"

definition is_wasm_type :: "json \<Rightarrow> bool" where
  "is_wasm_type v \<longleftrightarrow> v \<in> set [JStr ''i32'', JStr ''i64'', JStr ''f32'', JStr ''f64'', JStr ''void'']"

text \<open>\<open>row[k]\<close>, for a key the row has.\<close>

definition at :: "(string \<times> json) list \<Rightarrow> string \<Rightarrow> json" where
  "at row k = (case dget row k of Some v \<Rightarrow> v | None \<Rightarrow> JNull)"

definition bad_field :: string where
  "bad_field = ''invalid scanner payload field''"

section \<open>Exports\<close>

definition validate_parameter :: "bool \<Rightarrow> string list \<Rightarrow> json \<Rightarrow> string result" where
  "validate_parameter component seen_parameter_names parameter = (case parameter of
     JObj p \<Rightarrow>
       rbind (require (dkeys p = [''name'', ''type'', ''default'', ''binding'', ''wasm_type'']) ''invalid scanner payload field order'') (\<lambda>_.
       rbind (require_identifier (at p ''name'')) (\<lambda>parameter_name.
       rbind (require (parameter_name \<notin> set seen_parameter_names) ''duplicate parameter name in scanner payload'') (\<lambda>_.
       rbind (require_string True (at p ''type'')) (\<lambda>parameter_type.
       rbind (if at p ''default'' \<noteq> JNull then require_string False (at p ''default'') else Inr []) (\<lambda>_.
       rbind (require (is_binding (at p ''binding'')) bad_field) (\<lambda>_.
       rbind (require (is_wasm_type (at p ''wasm_type'')) bad_field) (\<lambda>_.
       rbind (validate_abi component parameter_type (at p ''binding'') (at p ''wasm_type'')) (\<lambda>_.
         Inr parameter_name))))))))
   | _ \<Rightarrow> Inl (WasmExportScanClientError ''invalid scanner payload field order''))"

fun validate_parameters :: "bool \<Rightarrow> string list \<Rightarrow> json list \<Rightarrow> unit result" where
  "validate_parameters component names [] = Inr ()"
| "validate_parameters component names (p # ps) =
     rbind (validate_parameter component names p) (\<lambda>name. validate_parameters component (name # names) ps)"

definition expected_keys :: "(string \<times> json) list \<Rightarrow> string list" where
  "expected_keys row = [''name'', ''target'', ''parameters'', ''return'', ''binding'', ''wasm_type'', ''line'']
     @ (if ''link_name'' \<in> set (dkeys row) then [''link_name''] else []) @ (if ''implicit'' \<in> set (dkeys row) then [''implicit''] else [])"

text \<open>One row, given the names and the parameters so far: its name and its number of parameters.\<close>

definition validate_row :: "bool \<Rightarrow> string list \<Rightarrow> nat \<Rightarrow> json \<Rightarrow> (string \<times> nat) result" where
  "validate_row component names counted value = (case value of
     JObj row \<Rightarrow>
       rbind (require (dkeys row = expected_keys row) ''invalid scanner payload field order'') (\<lambda>_.
       rbind (require_identifier (at row ''name'')) (\<lambda>name.
       rbind (require_string True (at row ''target'')) (\<lambda>target.
       rbind (require (re_fullmatch TARGET_RE target \<noteq> None) bad_field) (\<lambda>_.
       rbind (require_string True (at row ''return'')) (\<lambda>return_type.
       rbind (require (name \<notin> set names) ''duplicate export name in scanner payload'') (\<lambda>_.
       rbind (require (is_binding (at row ''binding'')) bad_field) (\<lambda>_.
       rbind (require (is_wasm_type (at row ''wasm_type'')) bad_field) (\<lambda>_.
       rbind (validate_abi component return_type (at row ''binding'') (at row ''wasm_type'')) (\<lambda>_.
       rbind (require (case at row ''line'' of JInt n \<Rightarrow> 1 \<le> n | _ \<Rightarrow> False) bad_field) (\<lambda>_.
       rbind (if ''link_name'' \<in> set (dkeys row) then require_string False (at row ''link_name'') else Inr []) (\<lambda>_.
       rbind (require (''implicit'' \<in> set (dkeys row) \<longrightarrow> at row ''implicit'' = JBool True) bad_field) (\<lambda>_.
       (case at row ''parameters'' of
          JList parameters \<Rightarrow>
            rbind (require (length parameters \<le> MAX_PARAMETERS_PER_EXPORT) bad_field) (\<lambda>_.
            rbind (require (length parameters \<le> MAX_TOTAL_PARAMETERS - counted) bad_field) (\<lambda>_.
            rbind (validate_parameters component [] parameters) (\<lambda>_.
              Inr (name, length parameters))))
        | _ \<Rightarrow> field_error)))))))))))))
   | _ \<Rightarrow> field_error)"

fun validate_rows :: "bool \<Rightarrow> string list \<Rightarrow> nat \<Rightarrow> json list \<Rightarrow> unit result" where
  "validate_rows component names counted [] = Inr ()"
| "validate_rows component names counted (row # rows) =
     rbind (validate_row component names counted row) (\<lambda>(name, n). validate_rows component (name # names) (counted + n) rows)"

definition validate_exports :: "bool \<Rightarrow> json \<Rightarrow> json list result" where
  "validate_exports component value = (case value of
     JList rows \<Rightarrow> if rows = [] \<or> MAX_EXPORTS < length rows then field_error
       else rmap (\<lambda>_. rows) (validate_rows component [] 0 rows)
   | _ \<Rightarrow> field_error)"

section \<open>Payloads\<close>

text \<open>
  \<open>json.loads\<close> with the hook that refuses duplicate keys: the members are kept as they are read,
  and \<open>json_wf\<close> says that no object has a key twice.
\<close>

definition json_pairs :: "string \<Rightarrow> json result" where
  "json_pairs s = rbind (parse_value JObj (Suc (length s)) (skip_ws s)) (\<lambda>(v, r). if skip_ws r = [] then Inr v else json_error)"

definition invalid_json :: "'a result" where
  "invalid_json = Inl (WasmExportScanClientError ''Elisascript scanner returned invalid JSON'')"

definition loads_strict :: "string \<Rightarrow> json result" where
  "loads_strict b = (case rbind (decode_utf8 b) json_pairs of
     Inl e \<Rightarrow> if e = Unmodelled then Inl Unmodelled else invalid_json
   | Inr v \<Rightarrow> if json_wf v then Inr v else invalid_json)"

definition payload_of :: "string \<Rightarrow> json result" where
  "payload_of stdout =
     (let json_bytes = butlast stdout in
      rbind (require (stdout \<noteq> [] \<and> length stdout \<le> MAX_PROCESS_OUTPUT_BYTES \<and> last stdout = CHR 0x0A) ''invalid payload frame'') (\<lambda>_.
      rbind (require (json_bytes \<noteq> [] \<and> CHR 0x0A \<notin> set json_bytes \<and> CHR 0x0D \<notin> set json_bytes) ''invalid payload frame'') (\<lambda>_.
        loads_strict json_bytes)))"

definition utf8_length :: "string \<Rightarrow> nat" where
  "utf8_length s = sum_list (map (\<lambda>c. if code c < 128 then 1 else 2) s)"

text \<open>The shape, the version and the source text, common to both payloads.\<close>

definition payload_source :: "string list \<Rightarrow> string \<Rightarrow> json \<Rightarrow> string result" where
  "payload_source keys shape v = (case v of
     JObj payload \<Rightarrow>
       rbind (require (dkeys payload = keys) shape) (\<lambda>_.
       rbind (require (at payload ''version'' = JInt 1) ''unsupported payload version'') (\<lambda>_.
       rbind (require_string False (at payload ''flattened_source'')) (\<lambda>source.
       rbind (require (utf8_length source \<le> MAX_FLATTENED_SOURCE_BYTES) ''oversized flattened source'') (\<lambda>_.
         Inr source))))
   | _ \<Rightarrow> Inl (WasmExportScanClientError shape))"

definition decode_build_payload :: "bool \<Rightarrow> string \<Rightarrow> (string \<times> json list) result" where
  "decode_build_payload component stdout =
     rbind (payload_of stdout) (\<lambda>v.
     rbind (payload_source [''version'', ''flattened_source'', ''exports''] ''invalid payload shape'' v) (\<lambda>source.
       (case v of JObj payload \<Rightarrow> rmap (Pair source) (validate_exports component (at payload ''exports'')) | _ \<Rightarrow> field_error)))"

definition decode_flatten_payload :: "string \<Rightarrow> string result" where
  "decode_flatten_payload stdout = rbind (payload_of stdout) (payload_source [''version'', ''flattened_source''] ''invalid flatten payload shape'')"

section \<open>The memory of the process tree\<close>

record proc =
  parent :: int
  group_id :: int
  rss_kib :: int

definition row_of :: "string \<Rightarrow> (int \<times> proc) option" where
  "row_of line = (case map py_int10 (split_ws line) of
     [Some pid, Some par, Some grp, Some rss] \<Rightarrow>
       if pid \<le> 0 \<or> par < 0 \<or> grp \<le> 0 \<or> rss < 0 then None else Some (pid, \<lparr>parent = par, group_id = grp, rss_kib = rss\<rparr>)
   | _ \<Rightarrow> None)"

fun process_rows :: "(int, proc) dict \<Rightarrow> string list \<Rightarrow> (int, proc) dict option" where
  "process_rows rows [] = Some rows"
| "process_rows rows (line # rest) =
     (if strip line = [] then process_rows rows rest
      else case row_of line of
          None \<Rightarrow> None
        | Some (pid, p) \<Rightarrow> if dget rows pid \<noteq> None \<or> MAX_PROCESS_SNAPSHOT_ROWS \<le> length rows then None
            else process_rows (rows @ [(pid, p)]) rest)"

definition children_of :: "(int, proc) dict \<Rightarrow> int \<Rightarrow> int list" where
  "children_of rows par = map fst (filter (\<lambda>(_, p). parent p = par) rows)"

text \<open>
  The walk: \<open>pending\<close> with its end first. A set of the source is the list of its elements without
  repetition; the order in which Python iterates it does not matter for the sum.
\<close>

function walk_tree :: "(int, proc) dict \<Rightarrow> int list \<Rightarrow> int list \<Rightarrow> int list" where
  "walk_tree rows owned [] = owned"
| "walk_tree rows owned (par # pending) =
     (let fresh = filter (\<lambda>c. c \<notin> set owned) (remdups (children_of rows par)) in walk_tree rows (owned @ fresh) (rev fresh @ pending))"
  by pat_completeness auto

termination
proof (relation "measure (\<lambda>(rows, owned, pending). 2 * card (set (dkeys rows) - set owned) + length pending)", simp, clarify)
  fix rows :: "(int, proc) dict" and owned pending :: "int list" and par
  let ?fresh = "filter (\<lambda>c. c \<notin> set owned) (remdups (children_of rows par))"
  have sub: "set ?fresh \<subseteq> set (dkeys rows) - set owned" by (auto simp: children_of_def dkeys_def)
  have "card (set (dkeys rows) - set owned) = card (set (dkeys rows) - set (owned @ ?fresh)) + card (set ?fresh)"
    using sub by (subst card_Un_disjoint [symmetric]) (auto intro!: arg_cong [of _ _ card])
  moreover have "card (set ?fresh) = length ?fresh" by (rule distinct_card) simp
  ultimately show "((rows, owned @ ?fresh, rev ?fresh @ pending), rows, owned, par # pending)
      \<in> measure (\<lambda>(rows, owned, pending). 2 * card (set (dkeys rows) - set owned) + length pending)"
    by (simp del: set_filter)
qed

definition group_pids :: "(int, proc) dict \<Rightarrow> int \<Rightarrow> int list" where
  "group_pids rows root_pid = remdups (root_pid # map fst (filter (\<lambda>(_, p). group_id p = root_pid) rows))"

definition rss_of :: "(int, proc) dict \<Rightarrow> int \<Rightarrow> int" where
  "rss_of rows pid = (case dget rows pid of Some p \<Rightarrow> rss_kib p | None \<Rightarrow> 0)"

definition process_tree_rss_bytes :: "int \<Rightarrow> string option \<Rightarrow> int option" where
  "process_tree_rss_bytes root_pid snapshot = (case snapshot of
     None \<Rightarrow> None
   | Some text \<Rightarrow> (case process_rows [] (splitlines text) of
       None \<Rightarrow> None
     | Some rows \<Rightarrow> if dget rows root_pid = None then None
         else (let owned = group_pids rows root_pid in
           Some (sum_list (map (rss_of rows) (walk_tree rows owned (rev owned))) * 1024))))"

section \<open>Running the scanner\<close>

text \<open>The message of a failed run. A byte that has to be replaced when decoding is outside Latin-1.\<close>

definition scanner_failure :: "int \<Rightarrow> string \<Rightarrow> string \<Rightarrow> py_exn" where
  "scanner_failure returncode stdout stderr =
     (let prefix = ''wasm export scan: ''; diagnostic = drop_last 1 (drop (length prefix) stderr);
          general = (if stderr = [] then WasmExportScanClientError (''Elisascript scanner exited with status '' @ show_int returncode)
            else case decode_utf8 stderr of
                Inl _ \<Rightarrow> Unmodelled
              | Inr t \<Rightarrow> WasmExportScanClientError (''Elisascript scanner exited with status '' @ show_int returncode @ '': '' @ rstrip t)) in
      if returncode = 1 \<and> stdout = [] \<and> starts_with prefix stderr \<and> ends_with [CHR 0x0A] stderr \<and> diagnostic \<noteq> [] then
        (case decode_utf8 diagnostic of
           Inr t \<Rightarrow> WasmExportScanClientError t
         | Inl e \<Rightarrow> if e = Unmodelled then Unmodelled else general)
      else general)"

text \<open>\<open>os.access(p, X_OK)\<close> is an argument.\<close>

definition is_file :: "string \<Rightarrow> fs \<Rightarrow> bool" where
  "is_file p fs = (case dget fs p of Some (File b m) \<Rightarrow> True | _ \<Rightarrow> False)"

definition scanner_command :: "fs \<Rightarrow> (string \<Rightarrow> bool) \<Rightarrow> string \<Rightarrow> string \<Rightarrow> string \<Rightarrow> string \<Rightarrow> string list result" where
  "scanner_command fs access_x launcher scanner_script source option =
     (let launcher_path = resolve_path launcher; scanner_path = resolve_path scanner_script in
      rbind (require (list_all (starts_with ''/'') [launcher, scanner_script, source]) ''scanner, script, and source paths must be absolute'') (\<lambda>_.
      rbind (require (exists launcher_path fs \<and> exists scanner_path fs) ''scanner executable or script was not found'') (\<lambda>_.
      rbind (require (is_file launcher_path fs \<and> access_x launcher_path) ''scanner launcher is not an executable file'') (\<lambda>_.
      rbind (require (is_file scanner_path fs) ''scanner script is not a regular file'') (\<lambda>_.
        Inr [launcher_path, scanner_path, option, source])))))"

text \<open>The outcome of a run: its return code and the two outputs.\<close>

definition run_scanner :: "(string list \<Rightarrow> (int \<times> string \<times> string) result) \<Rightarrow> string list \<Rightarrow> string result" where
  "run_scanner capture command = rbind (capture command) (\<lambda>(returncode, stdout, stderr).
     if returncode \<noteq> 0 then Inl (scanner_failure returncode stdout stderr)
     else if stderr \<noteq> [] then Inl (WasmExportScanClientError ''Elisascript scanner wrote unexpected stderr on success'')
     else Inr stdout)"

definition run_export_scan :: "fs \<Rightarrow> (string \<Rightarrow> bool) \<Rightarrow> (string list \<Rightarrow> (int \<times> string \<times> string) result) \<Rightarrow> string \<Rightarrow> string \<Rightarrow> string \<Rightarrow> bool \<Rightarrow> (string \<times> json list) result" where
  "run_export_scan fs access_x capture launcher scanner_script source component =
     rbind (scanner_command fs access_x launcher scanner_script source (if component then ''--build-component-payload'' else ''--build-payload'')) (\<lambda>command.
     rbind (run_scanner capture command) (decode_build_payload component))"

definition run_flatten_source :: "fs \<Rightarrow> (string \<Rightarrow> bool) \<Rightarrow> (string list \<Rightarrow> (int \<times> string \<times> string) result) \<Rightarrow> string \<Rightarrow> string \<Rightarrow> string \<Rightarrow> string result" where
  "run_flatten_source fs access_x capture launcher scanner_script source =
     rbind (scanner_command fs access_x launcher scanner_script source ''--flatten-payload'') (\<lambda>command.
     rbind (run_scanner capture command) decode_flatten_payload)"

section \<open>Accepted rows are exports\<close>

definition opt_json :: "string option \<Rightarrow> json" where
  "opt_json d = (case d of None \<Rightarrow> JNull | Some s \<Rightarrow> JStr s)"

definition parameter_json :: "bound_parameter \<Rightarrow> json" where
  "parameter_json p = JObj [(''name'', JStr (p_name p)), (''type'', JStr (p_type p)), (''default'', opt_json (p_default p)),
     (''binding'', JStr (p_binding p)), (''wasm_type'', JStr (p_wasm_type p))]"

definition export_json :: "wasm_export \<Rightarrow> json" where
  "export_json e = JObj ([(''name'', JStr (e_name e)), (''target'', JStr (e_target e)), (''parameters'', JList (map parameter_json (e_parameters e))),
     (''return'', JStr (e_return e)), (''binding'', JStr (e_binding e)), (''wasm_type'', JStr (e_wasm_type e)), (''line'', JInt (int (e_line e)))]
     @ (case e_link_name e of None \<Rightarrow> [] | Some l \<Rightarrow> [(''link_name'', JStr l)]) @ (if e_implicit e then [(''implicit'', JBool True)] else []))"

definition client_parameter_ok :: "bool \<Rightarrow> bound_parameter \<Rightarrow> bool" where
  "client_parameter_ok component p \<longleftrightarrow> ascii_ident (p_name p) \<and> p_type p \<noteq> [] \<and> client_abi component (p_type p) = Some (p_binding p, p_wasm_type p)"

definition is_target :: "string \<Rightarrow> bool" where
  "is_target s \<longleftrightarrow> re_fullmatch TARGET_RE s \<noteq> None"

definition client_export_ok :: "bool \<Rightarrow> wasm_export \<Rightarrow> bool" where
  "client_export_ok component e \<longleftrightarrow> ascii_ident (e_name e) \<and> e_target e \<noteq> [] \<and> is_target (e_target e) \<and> e_return e \<noteq> [] \<and>
     client_abi component (e_return e) = Some (e_binding e, e_wasm_type e) \<and> 1 \<le> e_line e \<and>
     list_all (client_parameter_ok component) (e_parameters e) \<and> distinct (map p_name (e_parameters e)) \<and> length (e_parameters e) \<le> MAX_PARAMETERS_PER_EXPORT"

lemma require_Inr: "require b m = Inr u \<longleftrightarrow> b"
  by (simp add: require_def)

lemma require_string_Inr: "require_string ne v = Inr s \<longleftrightarrow> v = JStr s \<and> (ne \<longrightarrow> s \<noteq> [])"
  by (auto simp: require_string_def field_error_def split: json.splits)

lemma fullmatch_Ident_None: "re_fullmatch Ident s = None \<longleftrightarrow> \<not> ascii_ident s"
  unfolding fullmatch_Ident [symmetric] by auto

lemma require_identifier_Inr: "require_identifier v = Inr s \<longleftrightarrow> v = JStr s \<and> ascii_ident s"
proof -
  have "ascii_ident s \<Longrightarrow> s \<noteq> []" by (auto simp: ascii_ident_def)
  then show ?thesis
    by (auto simp: require_identifier_def rbind_Inr_conv require_string_Inr field_error_def fullmatch_Ident_None split: if_splits)
qed

lemma client_abi_range: "client_abi c t = Some (b, w) \<Longrightarrow> is_binding (JStr b) \<and> is_wasm_type (JStr w)"
  by (auto simp: client_abi_def is_binding_def is_wasm_type_def SCALAR_WASM_TYPES_def dget_def split: if_splits option.splits)

lemma validate_abi_Inr:
  "validate_abi c t x y = Inr u \<longleftrightarrow> (\<exists>b w. client_abi c t = Some (b, w) \<and> x = JStr b \<and> y = JStr w)"
  by (auto simp: validate_abi_def require_Inr split: option.splits)

lemmas field_iffs = rbind_Inr_conv require_Inr require_string_Inr require_identifier_Inr validate_abi_Inr

lemma at_simps [simp]:
  "at ((k, v) # row) k' = (if k = k' then v else at row k')"
  by (simp add: at_def dget_def)

lemma dkeys_Cons: "dkeys row = k # ks \<longleftrightarrow> (\<exists>v row'. row = (k, v) # row' \<and> dkeys row' = ks)"
  by (cases row) (auto simp: dkeys_def)

lemma dkeys_Nil: "dkeys row = [] \<longleftrightarrow> row = []"
  by (simp add: dkeys_def)

lemma validate_parameter_iff:
  "validate_parameter c names v = Inr x \<longleftrightarrow> (\<exists>p. v = parameter_json p \<and> x = p_name p \<and> x \<notin> set names \<and> client_parameter_ok c p)"
proof
  assume a: "validate_parameter c names v = Inr x"
  then obtain row where v: "v = JObj row" by (auto simp: validate_parameter_def split: json.splits)
  with a obtain ty b w where r: "dkeys row = [''name'', ''type'', ''default'', ''binding'', ''wasm_type'']" "at row ''name'' = JStr x" "ascii_ident x"
      "x \<notin> set names" "at row ''type'' = JStr ty" "ty \<noteq> []" "at row ''default'' = JNull \<or> (\<exists>d. at row ''default'' = JStr d)"
      "client_abi c ty = Some (b, w)" "at row ''binding'' = JStr b" "at row ''wasm_type'' = JStr w"
    by (auto simp: validate_parameter_def field_iffs split: if_splits)
  then obtain d where d: "at row ''default'' = opt_json d" unfolding opt_json_def by (metis option.simps(4,5))
  let ?p = "\<lparr>p_name = x, p_type = ty, p_default = d, p_binding = b, p_wasm_type = w\<rparr>"
  have "v = parameter_json ?p" using r(1,2,5,9,10) d v by (auto simp: dkeys_Cons dkeys_Nil parameter_json_def)
  with r show "\<exists>p. v = parameter_json p \<and> x = p_name p \<and> x \<notin> set names \<and> client_parameter_ok c p"
    by (intro exI [of _ ?p]) (simp add: client_parameter_ok_def)
next
  assume "\<exists>p. v = parameter_json p \<and> x = p_name p \<and> x \<notin> set names \<and> client_parameter_ok c p"
  then obtain p where p: "v = parameter_json p" "x = p_name p" "x \<notin> set names" "client_parameter_ok c p" by blast
  then show "validate_parameter c names v = Inr x"
    using client_abi_range [of c "p_type p" "p_binding p" "p_wasm_type p"]
    by (auto simp: validate_parameter_def parameter_json_def field_iffs client_parameter_ok_def opt_json_def dkeys_def split: option.splits)
qed

lemma validate_parameters_iff:
  "validate_parameters c names vs = Inr () \<longleftrightarrow>
     (\<exists>ps. vs = map parameter_json ps \<and> list_all (client_parameter_ok c) ps \<and> distinct (map p_name ps) \<and> set (map p_name ps) \<inter> set names = {})"
proof (induction vs arbitrary: names)
  case (Cons v vs)
  have "validate_parameters c names (v # vs) = Inr () \<longleftrightarrow>
      (\<exists>p ps. v = parameter_json p \<and> p_name p \<notin> set names \<and> client_parameter_ok c p \<and> vs = map parameter_json ps \<and>
         list_all (client_parameter_ok c) ps \<and> distinct (map p_name ps) \<and> set (map p_name ps) \<inter> set (p_name p # names) = {})"
    by (auto simp: rbind_Inr_conv validate_parameter_iff Cons.IH simp del: set_map)
  also have "\<dots> \<longleftrightarrow> (\<exists>qs. v # vs = map parameter_json qs \<and> list_all (client_parameter_ok c) qs \<and> distinct (map p_name qs) \<and> set (map p_name qs) \<inter> set names = {})"
    (is "?l \<longleftrightarrow> ?r")
  proof
    assume ?l
    then obtain p ps where "v = parameter_json p" "p_name p \<notin> set names" "client_parameter_ok c p" "vs = map parameter_json ps"
      "list_all (client_parameter_ok c) ps" "distinct (map p_name ps)" "set (map p_name ps) \<inter> set (p_name p # names) = {}" by blast
    then show ?r by (intro exI [of _ "p # ps"]) (simp add: disjoint_iff, blast)
  next
    assume ?r
    then obtain qs where q: "v # vs = map parameter_json qs" "list_all (client_parameter_ok c) qs" "distinct (map p_name qs)" "set (map p_name qs) \<inter> set names = {}"
      by (elim exE conjE) (rule that)
    from q(1) obtain p ps where "qs = p # ps" by (cases qs) simp_all
    with q(1) have eq: "v = parameter_json p" "vs = map parameter_json ps" by simp_all
    from q(2-4) \<open>qs = p # ps\<close> have ok: "client_parameter_ok c p" "list_all (client_parameter_ok c) ps" "distinct (map p_name ps)"
        "p_name p \<notin> set names" "set (map p_name ps) \<inter> set (p_name p # names) = {}"
      by (auto simp: disjoint_iff)
    show ?l by (rule exI [of _ p], rule exI [of _ ps]) (intro conjI eq ok)
  qed
  finally show ?case .
qed simp

text \<open>The keys a row may have, and its fields read off in order.\<close>

definition row_tail :: "string option \<Rightarrow> bool \<Rightarrow> (string \<times> json) list" where
  "row_tail link implicit = (case link of None \<Rightarrow> [] | Some l \<Rightarrow> [(''link_name'', JStr l)]) @ (if implicit then [(''implicit'', JBool True)] else [])"

lemma row_tail_iff:
  assumes "dkeys row = (if ''link_name'' \<in> set (dkeys row) then [''link_name''] else []) @ (if ''implicit'' \<in> set (dkeys row) then [''implicit''] else [])"
  shows "(''link_name'' \<in> set (dkeys row) \<longrightarrow> (\<exists>l. at row ''link_name'' = JStr l)) \<and> (''implicit'' \<in> set (dkeys row) \<longrightarrow> at row ''implicit'' = JBool True)
    \<longleftrightarrow> (\<exists>link implicit. row = row_tail link implicit)"
proof (cases "''link_name'' \<in> set (dkeys row)")
  case True
  show ?thesis
  proof (cases "''implicit'' \<in> set (dkeys row)")
    case i: True
    with True assms obtain v w where "row = [(''link_name'', v), (''implicit'', w)]" by (auto simp: dkeys_Cons dkeys_Nil)
    then show ?thesis by (auto simp: row_tail_def dkeys_def split: option.splits intro: exI [of _ "Some _"])
  next
    case False
    with True assms obtain v where "row = [(''link_name'', v)]" by (auto simp: dkeys_Cons dkeys_Nil)
    then show ?thesis by (auto simp: row_tail_def dkeys_def split: option.splits intro: exI [of _ "Some _"])
  qed
next
  case False
  show ?thesis
  proof (cases "''implicit'' \<in> set (dkeys row)")
    case i: True
    with False assms obtain w where "row = [(''implicit'', w)]" by (auto simp: dkeys_Cons dkeys_Nil)
    then show ?thesis by (auto simp: row_tail_def dkeys_def split: option.splits intro: exI [of _ None])
  next
    case i: False
    with False assms have "row = []" by (simp add: dkeys_Nil)
    then show ?thesis by (auto simp: row_tail_def dkeys_def split: option.splits intro: exI [of _ None])
  qed
qed

definition row_head :: "json \<Rightarrow> json \<Rightarrow> json \<Rightarrow> json \<Rightarrow> json \<Rightarrow> json \<Rightarrow> json \<Rightarrow> (string \<times> json) list" where
  "row_head n t ps r b w l = [(''name'', n), (''target'', t), (''parameters'', ps), (''return'', r), (''binding'', b), (''wasm_type'', w), (''line'', l)]"

lemma expected_keys_split:
  "dkeys row = expected_keys row \<longleftrightarrow> (\<exists>n t ps r b w l rest. row = row_head n t ps r b w l @ rest \<and>
     dkeys rest = (if ''link_name'' \<in> set (dkeys rest) then [''link_name''] else []) @ (if ''implicit'' \<in> set (dkeys rest) then [''implicit''] else []))"
proof
  assume a: "dkeys row = expected_keys row"
  then obtain n t ps r b w l rest where row: "row = row_head n t ps r b w l @ rest"
    unfolding expected_keys_def append_Cons dkeys_Cons row_head_def by auto
  from a have "dkeys rest = (if ''link_name'' \<in> set (dkeys rest) then [''link_name''] else []) @ (if ''implicit'' \<in> set (dkeys rest) then [''implicit''] else [])"
    unfolding row by (simp add: expected_keys_def row_head_def dkeys_def)
  with row show "\<exists>n t ps r b w l rest. row = row_head n t ps r b w l @ rest \<and>
     dkeys rest = (if ''link_name'' \<in> set (dkeys rest) then [''link_name''] else []) @ (if ''implicit'' \<in> set (dkeys rest) then [''implicit''] else [])"
    by (intro exI conjI)
next
  assume "\<exists>n t ps r b w l rest. row = row_head n t ps r b w l @ rest \<and>
     dkeys rest = (if ''link_name'' \<in> set (dkeys rest) then [''link_name''] else []) @ (if ''implicit'' \<in> set (dkeys rest) then [''implicit''] else [])"
  then show "dkeys row = expected_keys row"
    by (elim exE conjE) (simp add: expected_keys_def row_head_def dkeys_def)
qed

lemma export_json_row: "export_json e = JObj (row_head (JStr (e_name e)) (JStr (e_target e)) (JList (map parameter_json (e_parameters e))) (JStr (e_return e))
     (JStr (e_binding e)) (JStr (e_wasm_type e)) (JInt (int (e_line e))) @ row_tail (e_link_name e) (e_implicit e))"
  by (simp add: export_json_def row_head_def row_tail_def)

lemma row_tail_keys:
  "dkeys (row_tail link implicit) = (if link = None then [] else [''link_name'']) @ (if implicit then [''implicit''] else [])"
  by (simp add: row_tail_def dkeys_def split: option.splits)

lemma row_head_at [simp]:
  "at (row_head n t ps r b w l @ rest) ''name'' = n" "at (row_head n t ps r b w l @ rest) ''target'' = t"
  "at (row_head n t ps r b w l @ rest) ''parameters'' = ps" "at (row_head n t ps r b w l @ rest) ''return'' = r"
  "at (row_head n t ps r b w l @ rest) ''binding'' = b" "at (row_head n t ps r b w l @ rest) ''wasm_type'' = w"
  "at (row_head n t ps r b w l @ rest) ''line'' = l" "at (row_head n t ps r b w l @ rest) ''link_name'' = at rest ''link_name''"
  "at (row_head n t ps r b w l @ rest) ''implicit'' = at rest ''implicit''"
  "''link_name'' \<in> set (dkeys (row_head n t ps r b w l @ rest)) \<longleftrightarrow> ''link_name'' \<in> set (dkeys rest)"
  "''implicit'' \<in> set (dkeys (row_head n t ps r b w l @ rest)) \<longleftrightarrow> ''implicit'' \<in> set (dkeys rest)"
  by (simp_all add: row_head_def dkeys_def)

lemma validate_row_fields:
  "validate_row c names k (JObj (row_head n t ps r b w l @ rest)) = Inr (x, m) \<longleftrightarrow>
     dkeys (row_head n t ps r b w l @ rest) = expected_keys (row_head n t ps r b w l @ rest) \<and>
     n = JStr x \<and> ascii_ident x \<and> (\<exists>s. t = JStr s \<and> s \<noteq> [] \<and> is_target s) \<and>
     (\<exists>ty x y. r = JStr ty \<and> ty \<noteq> [] \<and> client_abi c ty = Some (x, y) \<and> b = JStr x \<and> w = JStr y) \<and> x \<notin> set names \<and>
     (\<exists>i. l = JInt i \<and> 1 \<le> i) \<and> (''link_name'' \<in> set (dkeys rest) \<longrightarrow> (\<exists>l. at rest ''link_name'' = JStr l)) \<and>
     (''implicit'' \<in> set (dkeys rest) \<longrightarrow> at rest ''implicit'' = JBool True) \<and>
     (\<exists>qs. ps = JList qs \<and> m = length qs \<and> m \<le> MAX_PARAMETERS_PER_EXPORT \<and> m \<le> MAX_TOTAL_PARAMETERS - k \<and> validate_parameters c [] qs = Inr ())"
  (is "?l \<longleftrightarrow> ?r")
proof
  assume a: ?l
  then obtain qs where qs: "ps = JList qs" by (cases ps) (auto simp: validate_row_def rbind_Inr_conv field_error_def)
  from a obtain i where i: "l = JInt i" by (cases l) (auto simp: validate_row_def rbind_Inr_conv require_Inr)
  let ?row = "row_head n t ps r b w l @ rest"
  from a have keys: "expected_keys ?row = dkeys ?row" by (simp add: validate_row_def rbind_Inr_conv require_Inr)
  from a show ?r unfolding qs i
    by (simp add: validate_row_def field_iffs is_target_def keys [unfolded qs i] split: if_splits) blast+
next
  assume ?r
  then obtain s ty bx wx i qs where eq: "n = JStr x" "t = JStr s" "r = JStr ty" "b = JStr bx" "w = JStr wx" "l = JInt i" "ps = JList qs" "m = length qs"
    and ok: "dkeys (row_head n t ps r b w l @ rest) = expected_keys (row_head n t ps r b w l @ rest)" "ascii_ident x" "s \<noteq> []" "is_target s" "ty \<noteq> []"
      "client_abi c ty = Some (bx, wx)" "x \<notin> set names" "1 \<le> i" "''link_name'' \<in> set (dkeys rest) \<longrightarrow> (\<exists>l. at rest ''link_name'' = JStr l)"
      "''implicit'' \<in> set (dkeys rest) \<longrightarrow> at rest ''implicit'' = JBool True" "m \<le> MAX_PARAMETERS_PER_EXPORT" "m \<le> MAX_TOTAL_PARAMETERS - k"
      "validate_parameters c [] qs = Inr ()"
    by blast
  show ?l using ok(2-) client_abi_range [OF ok(6)] ok(1) [symmetric] unfolding eq
    by (simp add: validate_row_def field_iffs is_target_def)
qed

lemma validate_row_iff:
  "validate_row c names k v = Inr (x, m) \<longleftrightarrow> (\<exists>e. v = export_json e \<and> x = e_name e \<and> m = length (e_parameters e) \<and>
     x \<notin> set names \<and> client_export_ok c e \<and> m \<le> MAX_TOTAL_PARAMETERS - k)" (is "?l \<longleftrightarrow> ?r")
proof
  assume a: ?l
  then obtain row where v: "v = JObj row" by (cases v) (auto simp: validate_row_def field_error_def)
  from a have "dkeys row = expected_keys row" unfolding v by (simp add: validate_row_def rbind_Inr_conv require_Inr)
  then obtain n t ps r b w l rest where row: "row = row_head n t ps r b w l @ rest"
    and rest: "dkeys rest = (if ''link_name'' \<in> set (dkeys rest) then [''link_name''] else []) @ (if ''implicit'' \<in> set (dkeys rest) then [''implicit''] else [])"
    unfolding expected_keys_split by blast
  from a [unfolded v row validate_row_fields] obtain s ty bx wx i qs where eq: "n = JStr x" "t = JStr s" "r = JStr ty" "b = JStr bx" "w = JStr wx" "l = JInt i" "ps = JList qs"
    and ok: "ascii_ident x" "s \<noteq> []" "is_target s" "ty \<noteq> []" "client_abi c ty = Some (bx, wx)" "x \<notin> set names" "1 \<le> i"
      "m = length qs" "m \<le> MAX_PARAMETERS_PER_EXPORT" "m \<le> MAX_TOTAL_PARAMETERS - k" "validate_parameters c [] qs = Inr ()"
    and opt: "(''link_name'' \<in> set (dkeys rest) \<longrightarrow> (\<exists>l. at rest ''link_name'' = JStr l)) \<and> (''implicit'' \<in> set (dkeys rest) \<longrightarrow> at rest ''implicit'' = JBool True)"
    by blast
  from opt obtain link implicit where tail: "rest = row_tail link implicit" unfolding row_tail_iff [OF rest] by blast
  from ok(11) obtain params where params: "qs = map parameter_json params" "list_all (client_parameter_ok c) params" "distinct (map p_name params)"
    unfolding validate_parameters_iff by blast
  let ?e = "\<lparr>e_name = x, e_target = s, e_parameters = params, e_return = ty, e_binding = bx, e_wasm_type = wx, e_line = nat i, e_link_name = link, e_implicit = implicit\<rparr>"
  have "v = export_json ?e" using ok(7) by (simp add: v row eq tail params export_json_row)
  with ok params show ?r by (intro exI [of _ ?e]) (simp add: client_export_ok_def)
next
  assume ?r
  then obtain e where e: "v = export_json e" "x = e_name e" "m = length (e_parameters e)" "x \<notin> set names" "client_export_ok c e" "m \<le> MAX_TOTAL_PARAMETERS - k"
    by blast
  let ?rest = "row_tail (e_link_name e) (e_implicit e)"
  have rest: "dkeys ?rest = (if ''link_name'' \<in> set (dkeys ?rest) then [''link_name''] else []) @ (if ''implicit'' \<in> set (dkeys ?rest) then [''implicit''] else [])"
    by (simp add: row_tail_keys)
  have opt: "(''link_name'' \<in> set (dkeys ?rest) \<longrightarrow> (\<exists>l. at ?rest ''link_name'' = JStr l))" "(''implicit'' \<in> set (dkeys ?rest) \<longrightarrow> at ?rest ''implicit'' = JBool True)"
    using row_tail_iff [OF rest] by blast+
  have "validate_parameters c [] (map parameter_json (e_parameters e)) = Inr ()"
    unfolding validate_parameters_iff using e(5) by (intro exI [of _ "e_parameters e"]) (simp add: client_export_ok_def)
  moreover have "dkeys (row_head n t ps r b w l @ ?rest) = expected_keys (row_head n t ps r b w l @ ?rest)" for n t ps r b w l
    unfolding expected_keys_split using rest by blast
  ultimately show ?l using e opt unfolding e(1) export_json_row validate_row_fields by (simp add: client_export_ok_def)
qed

definition parameter_count :: "wasm_export list \<Rightarrow> nat" where
  "parameter_count es = sum_list (map (length \<circ> e_parameters) es)"

lemma validate_rows_iff:
  "k \<le> MAX_TOTAL_PARAMETERS \<Longrightarrow> validate_rows c names k vs = Inr () \<longleftrightarrow>
     (\<exists>es. vs = map export_json es \<and> list_all (client_export_ok c) es \<and> distinct (map e_name es) \<and> set (map e_name es) \<inter> set names = {} \<and>
        k + parameter_count es \<le> MAX_TOTAL_PARAMETERS)"
proof (induction vs arbitrary: names k)
  case Nil
  then show ?case by (simp add: parameter_count_def)
next
  case (Cons v vs)
  show ?case (is "?l \<longleftrightarrow> ?r")
  proof
    assume ?l
    then obtain x m where x: "validate_row c names k v = Inr (x, m)" "validate_rows c (x # names) (k + m) vs = Inr ()"
      by (auto simp: rbind_Inr_conv)
    from x(1) [unfolded validate_row_iff] obtain e where e: "v = export_json e" "x = e_name e" "m = length (e_parameters e)" "x \<notin> set names"
      "client_export_ok c e" "m \<le> MAX_TOTAL_PARAMETERS - k" by (elim exE conjE) (rule that)
    from Cons.prems e(6) have "k + m \<le> MAX_TOTAL_PARAMETERS" by simp
    from x(2) [unfolded Cons.IH [OF this]] obtain es where es: "vs = map export_json es" "list_all (client_export_ok c) es" "distinct (map e_name es)"
      "set (map e_name es) \<inter> set (x # names) = {}" "k + m + parameter_count es \<le> MAX_TOTAL_PARAMETERS" by (elim exE conjE) (rule that)
    from es(4) have "x \<notin> set (map e_name es)" "set (map e_name es) \<inter> set names = {}" by (simp_all add: disjoint_iff) blast
    with e es show ?r by (intro exI [of _ "e # es"]) (simp add: parameter_count_def)
  next
    assume ?r
    then obtain es' where r: "v # vs = map export_json es'" "list_all (client_export_ok c) es'" "distinct (map e_name es')"
      "set (map e_name es') \<inter> set names = {}" "k + parameter_count es' \<le> MAX_TOTAL_PARAMETERS" by (elim exE conjE) (rule that)
    from r(1) obtain e es where es': "es' = e # es" by (cases es') simp_all
    let ?m = "length (e_parameters e)"
    from r(5) have k: "k + ?m \<le> MAX_TOTAL_PARAMETERS" "?m \<le> MAX_TOTAL_PARAMETERS - k" "k + ?m + parameter_count es \<le> MAX_TOTAL_PARAMETERS"
      by (simp_all add: es' parameter_count_def)
    have row: "validate_row c names k v = Inr (e_name e, ?m)"
      unfolding validate_row_iff using r(1,2,4) k(2) by (intro exI [of _ e]) (simp add: es')
    have "validate_rows c (e_name e # names) (k + ?m) vs = Inr ()"
      unfolding Cons.IH [OF k(1)] using r k(3) by (intro exI [of _ es]) (auto simp: es' disjoint_iff)
    with row show ?l by simp
  qed
qed

lemma validate_exports_iff:
  "validate_exports c v = Inr rows \<longleftrightarrow> (\<exists>es. v = JList rows \<and> rows = map export_json es \<and> es \<noteq> [] \<and> length es \<le> MAX_EXPORTS \<and>
     list_all (client_export_ok c) es \<and> distinct (map e_name es) \<and> parameter_count es \<le> MAX_TOTAL_PARAMETERS)"
  using validate_rows_iff [of 0 c "[]"] by (cases v) (auto simp: validate_exports_def field_error_def rmap_Inr)


section \<open>The sum covers the process tree\<close>

definition child_edges :: "(int, proc) dict \<Rightarrow> (int \<times> int) set" where
  "child_edges rows = {(par, pid). pid \<in> set (children_of rows par)}"

lemma walk_tree_exact:
  "set pending \<subseteq> set owned \<Longrightarrow> child_edges rows `` (set owned - set pending) \<subseteq> set owned \<Longrightarrow> distinct owned \<Longrightarrow>
     set (walk_tree rows owned pending) = (child_edges rows)\<^sup>* `` set owned \<and> distinct (walk_tree rows owned pending)"
proof (induction rows owned pending rule: walk_tree.induct)
  case (1 rows owned)
  then have "child_edges rows `` set owned \<subseteq> set owned" by simp
  from Image_closed_trancl [OF this] 1 show ?case by simp
next
  case (2 rows owned par pending)
  let ?fresh = "filter (\<lambda>c. c \<notin> set owned) (remdups (children_of rows par))"
  have fresh: "set ?fresh = set (children_of rows par) - set owned" by auto
  have new: "child_edges rows `` {par} \<subseteq> set (owned @ ?fresh)" by (auto simp: child_edges_def)
  have inv: "set (rev ?fresh @ pending) \<subseteq> set (owned @ ?fresh)" using 2(2) by auto
  have "set (owned @ ?fresh) - set (rev ?fresh @ pending) \<subseteq> (set owned - set (par # pending)) \<union> {par}" by auto
  then have "child_edges rows `` (set (owned @ ?fresh) - set (rev ?fresh @ pending)) \<subseteq> set (owned @ ?fresh)"
    using 2(3) new by (auto simp del: set_filter)
  moreover have "distinct (owned @ ?fresh)" using 2(4) by auto
  ultimately have ih: "set (walk_tree rows (owned @ ?fresh) (rev ?fresh @ pending)) = (child_edges rows)\<^sup>* `` set (owned @ ?fresh)"
      "distinct (walk_tree rows (owned @ ?fresh) (rev ?fresh @ pending))"
    using 2(1) [OF refl inv] by simp_all
  have "par \<in> set owned" using 2(2) by simp
  then have "set ?fresh \<subseteq> (child_edges rows)\<^sup>* `` set owned" unfolding fresh by (auto simp: child_edges_def)
  then have "(child_edges rows)\<^sup>* `` set (owned @ ?fresh) = (child_edges rows)\<^sup>* `` set owned"
    by (auto simp del: set_filter intro: rtrancl_trans)
  with ih show ?case by (simp add: Let_def)
qed

lemma process_rows_iff:
  "distinct (dkeys rows0) \<Longrightarrow> length rows0 \<le> MAX_PROCESS_SNAPSHOT_ROWS \<Longrightarrow>
   process_rows rows0 lines = Some rows \<longleftrightarrow> (\<exists>more. rows = rows0 @ more \<and> map row_of (filter (\<lambda>l. strip l \<noteq> []) lines) = map Some more \<and>
     distinct (dkeys rows) \<and> length rows \<le> MAX_PROCESS_SNAPSHOT_ROWS)"
proof (induction lines arbitrary: rows0)
  case Nil
  then show ?case by auto
next
  case (Cons line lines)
  show ?case
  proof (cases "strip line = []")
    case True
    with Cons show ?thesis by simp
  next
    case False
    show ?thesis
    proof (cases "row_of line")
      case None
      with False show ?thesis by auto
    next
      case (Some row)
      obtain pid p where row: "row = (pid, p)" by (cases row)
      have dup: "dget rows0 pid \<noteq> None \<longleftrightarrow> pid \<in> set (dkeys rows0)" by (simp add: dget_None_conv)
      have r: "map row_of (filter (\<lambda>l. strip l \<noteq> []) (line # lines)) = map Some more \<longleftrightarrow>
            (\<exists>zs. more = (pid, p) # zs \<and> map row_of (filter (\<lambda>l. strip l \<noteq> []) lines) = map Some zs)" for more
          using False Some row by (cases more) auto
      show ?thesis
      proof (cases "pid \<in> set (dkeys rows0) \<or> MAX_PROCESS_SNAPSHOT_ROWS \<le> length rows0")
        case True
        have "\<not> (distinct (dkeys (rows0 @ (pid, p) # more)) \<and> length (rows0 @ (pid, p) # more) \<le> MAX_PROCESS_SNAPSHOT_ROWS)" for more
          using True by (simp add: dkeys_def) linarith
        moreover have "process_rows rows0 (line # lines) = None" using True False Some row dup by simp
        ultimately show ?thesis unfolding r by auto
      next
        case ok: False
        then have "distinct (dkeys (rows0 @ [(pid, p)]))" "length (rows0 @ [(pid, p)]) \<le> MAX_PROCESS_SNAPSHOT_ROWS"
          using Cons.prems by (simp_all add: dkeys_def)
        note ih = Cons.IH [OF this]
        have step: "process_rows rows0 (line # lines) = process_rows (rows0 @ [(pid, p)]) lines" using ok dup False Some row by simp
        have l: "process_rows rows0 (line # lines) = Some rows \<longleftrightarrow> (\<exists>zs. rows = rows0 @ (pid, p) # zs \<and>
            map row_of (filter (\<lambda>l. strip l \<noteq> []) lines) = map Some zs \<and> distinct (dkeys rows) \<and> length rows \<le> MAX_PROCESS_SNAPSHOT_ROWS)"
          unfolding step ih by simp
        show ?thesis unfolding l r by blast
      qed
    qed
  qed
qed

definition tree_pids :: "(int, proc) dict \<Rightarrow> int \<Rightarrow> int set" where
  "tree_pids rows root_pid = (child_edges rows)\<^sup>* `` insert root_pid {pid. \<exists>p. dget rows pid = Some p \<and> group_id p = root_pid}"


section \<open>The reference scanner's exports are accepted\<close>

lemma is_target_text: "is_target s \<longleftrightarrow> target_text s"
  unfolding is_target_def target_text_def TARGET_RE_def fullmatch_cls_many [symmetric] by auto

lemma representable_client:
  assumes "representable c ty b w" "c \<longrightarrow> ty \<noteq> []"
  shows "ty \<noteq> [] \<and> client_abi c ty = Some (b, w)"
proof -
  have tables: "dget SCALAR_WASM_TYPES ty = dget SCALAR_TYPES ty" "dget SCALAR_TYPES [] = None"
    by (simp_all add: SCALAR_TYPES_def SCALAR_WASM_TYPES_def dget_def)
  have "\<not> ends_with ''&'' ''cstr''" "\<not> ends_with ''&'' []" by (simp_all add: ends_with_def)
  with assms tables show ?thesis by (auto simp: representable_def client_abi_def)
qed

text \<open>No type of the signature is the empty text.\<close>

definition typed :: "wasm_export \<Rightarrow> bool" where
  "typed e \<longleftrightarrow> e_return e \<noteq> [] \<and> list_all (\<lambda>p. p_type p \<noteq> []) (e_parameters e)"

lemma scanned_export_ok:
  assumes "export_ok c e" and "named_ok e" and "c \<longrightarrow> typed e"
    and "distinct (map p_name (e_parameters e))" and "length (e_parameters e) \<le> MAX_PARAMETERS_PER_EXPORT"
  shows "client_export_ok c e"
proof -
  have "client_parameter_ok c p" if p: "p \<in> set (e_parameters e)" for p
  proof -
    have "ascii_ident (p_name p)" "representable c (p_type p) (p_binding p) (p_wasm_type p)" "c \<longrightarrow> p_type p \<noteq> []"
      using assms(1,3) p by (auto simp: export_ok_def parameter_ok_def typed_def list_all_iff)
    then show ?thesis using representable_client [of c "p_type p"] by (simp add: client_parameter_ok_def)
  qed
  then have "list_all (client_parameter_ok c) (e_parameters e)" by (simp add: list_all_iff)
  moreover have "e_target e \<noteq> []" using assms(2) by (auto simp: named_ok_def target_text_def)
  ultimately show ?thesis
    using assms representable_client [of c "e_return e" "e_binding e" "e_wasm_type e"]
    by (simp add: client_export_ok_def export_ok_def named_ok_def is_target_text typed_def)
qed

section \<open>Properties\<close>

text \<open>
  C25. The client accepts a list of rows exactly when the rows are those of a non-empty list of at
  most 65536 exports with distinct names and at most 16384 parameters in all, each with a valid
  name, target and line, with the binding and type its signature has, and with at most 4096
  parameters of distinct names.
\<close>

theorem validate_exports_exact:
  "validate_exports component value = Inr rows \<longleftrightarrow> (\<exists>es. value = JList rows \<and> rows = map export_json es \<and> es \<noteq> [] \<and> length es \<le> MAX_EXPORTS \<and>
     list_all (client_export_ok component) es \<and> distinct (map e_name es) \<and> parameter_count es \<le> MAX_TOTAL_PARAMETERS)"
  by (rule validate_exports_iff)

text \<open>
  C26. The client accepts what the reference scanner finds in a source, in the same mode, when it is
  within the client's limits and no export names a parameter twice; for components also no type may be
  left out, which the scanner lets pass and the client does not.
\<close>

theorem scanned_exports_accepted:
  assumes "parse_exports component source = Inr es" and "length es \<le> MAX_EXPORTS" and "parameter_count es \<le> MAX_TOTAL_PARAMETERS"
    and "list_all (\<lambda>e. distinct (map p_name (e_parameters e)) \<and> length (e_parameters e) \<le> MAX_PARAMETERS_PER_EXPORT) es"
    and "component \<longrightarrow> list_all typed es"
  shows "validate_exports component (JList (map export_json es)) = Inr (map export_json es)"
proof -
  from parse_exports_ok [OF assms(1)] have "es \<noteq> []" "distinct (map e_name es)" "list_all (export_ok component) es" by auto
  moreover have "list_all (client_export_ok component) es"
    using calculation(3) parse_exports_named [OF assms(1)] assms(4,5) scanned_export_ok [of component] by (auto simp: list_all_iff)
  ultimately show ?thesis unfolding validate_exports_iff using assms(2,3) by blast
qed

theorem scanned_exports_accepted_witness:
  "validate_exports False (JList (map export_json sample_exports)) = Inr (map export_json sample_exports)"
  by (rule scanned_exports_accepted [OF sample_source_parsed])
    (simp_all add: sample_exports_def parameter_count_def MAX_EXPORTS_def MAX_TOTAL_PARAMETERS_def MAX_PARAMETERS_PER_EXPORT_def)

text \<open>A parameter without a type passes the scanner of components and not the client.\<close>

lemma untyped_parameter_refused:
  "case parse_exports True ''export fn f(a:)'' of
     Inr es \<Rightarrow> \<not> list_all typed es \<and> isl (validate_exports True (JList (map export_json es))) | Inl _ \<Rightarrow> False"
  by code_simp

text \<open>
  C27. A scan that returns ran an existing launcher and script at absolute paths to exit status 0
  without error output, read at most 64 MiB, and gives a source of at most 8 MiB together with
  rows the validation accepts.
\<close>

theorem run_export_scan_safe:
  assumes "run_export_scan fs access_x capture launcher scanner_script source component = Inr (text, rows)"
  shows "\<exists>stdout value. capture [resolve_path launcher, resolve_path scanner_script, if component then ''--build-component-payload'' else ''--build-payload'', source] = Inr (0, stdout, [])
    \<and> is_file (resolve_path launcher) fs \<and> access_x (resolve_path launcher) \<and> is_file (resolve_path scanner_script) fs
    \<and> length stdout \<le> MAX_PROCESS_OUTPUT_BYTES \<and> utf8_length text \<le> MAX_FLATTENED_SOURCE_BYTES \<and> validate_exports component value = Inr rows"
proof -
  let ?cmd = "[resolve_path launcher, resolve_path scanner_script, if component then ''--build-component-payload'' else ''--build-payload'', source]"
  from assms obtain stdout where s: "run_scanner capture ?cmd = Inr stdout" "decode_build_payload component stdout = Inr (text, rows)"
      "is_file (resolve_path launcher) fs" "access_x (resolve_path launcher)" "is_file (resolve_path scanner_script) fs"
    by (auto simp: run_export_scan_def scanner_command_def Let_def rbind_Inr_conv require_Inr)
  from s(1) have c: "capture ?cmd = Inr (0, stdout, [])" by (auto simp: run_scanner_def rbind_Inr_conv split: if_splits)
  from s(2) obtain v where p: "payload_of stdout = Inr v" unfolding decode_build_payload_def by blast
  with s(2) obtain payload where v: "payload_of stdout = Inr v" "payload_source [''version'', ''flattened_source'', ''exports''] ''invalid payload shape'' v = Inr text"
      "validate_exports component (at payload ''exports'') = Inr rows"
    by (cases v) (auto simp: decode_build_payload_def rbind_Inr_conv rmap_Inr field_error_def)
  from v(1) have "length stdout \<le> MAX_PROCESS_OUTPUT_BYTES" by (auto simp: payload_of_def Let_def rbind_Inr_conv require_Inr)
  moreover from v(2) have "utf8_length text \<le> MAX_FLATTENED_SOURCE_BYTES"
    by (auto simp: payload_source_def rbind_Inr_conv require_Inr split: json.splits)
  ultimately show ?thesis using c s(3-5) v(3) by blast
qed

definition sample_payload :: string where
  "sample_payload = ''{'' @ quoted ''version'' @ '':1,'' @ quoted ''flattened_source'' @ '':'' @ quoted ''x'' @ '','' @ quoted ''exports'' @ '':[{''
     @ quoted ''name'' @ '':'' @ quoted ''f'' @ '','' @ quoted ''target'' @ '':'' @ quoted ''g'' @ '','' @ quoted ''parameters'' @ '':[],''
     @ quoted ''return'' @ '':'' @ quoted ''i8'' @ '','' @ quoted ''binding'' @ '':'' @ quoted ''scalar'' @ '',''
     @ quoted ''wasm_type'' @ '':'' @ quoted ''i32'' @ '','' @ quoted ''line'' @ '':1}]}'' @ [CHR 0x0A]"

definition sample_rows :: "json list" where
  "sample_rows = [export_json \<lparr>e_name = ''f'', e_target = ''g'', e_parameters = [], e_return = ''i8'', e_binding = ''scalar'', e_wasm_type = ''i32'',
     e_line = 1, e_link_name = None, e_implicit = False\<rparr>]"

definition sample_files :: fs where
  "sample_files = [(''/b/run'', File [] 493), (''/b/scan'', File [] 420)]"

lemma sample_scan:
  "run_export_scan sample_files (\<lambda>_. True) (\<lambda>_. Inr (0, sample_payload, [])) ''/b/run'' ''/b/../b/scan'' ''/s/r'' False = Inr (''x'', sample_rows)"
  by code_simp

theorem run_export_scan_safe_witness: "\<exists>value. validate_exports False value = Inr sample_rows"
  using run_export_scan_safe [OF sample_scan] by blast

text \<open>
  The memory sampled for the scanner is exact: a number is returned exactly when every line
  that is not blank is a row of four admissible integers, no process is listed twice, there are at
  most 65536 rows and the scanner is one of them; it is then the sum over the processes of the
  scanner's group and all their descendants.
\<close>

theorem process_tree_rss_exact:
  "process_tree_rss_bytes root_pid (Some snapshot) = Some r \<longleftrightarrow>
     (\<exists>rows. map row_of (filter (\<lambda>l. strip l \<noteq> []) (splitlines snapshot)) = map Some rows \<and> distinct (dkeys rows) \<and>
        length rows \<le> MAX_PROCESS_SNAPSHOT_ROWS \<and> root_pid \<in> set (dkeys rows) \<and> r = 1024 * (\<Sum>pid\<in>tree_pids rows root_pid. rss_of rows pid))"
proof -
  have sum: "sum_list (map (rss_of rows) (walk_tree rows (group_pids rows root_pid) (rev (group_pids rows root_pid)))) = (\<Sum>pid\<in>tree_pids rows root_pid. rss_of rows pid)"
    if d: "distinct (dkeys rows)" for rows
  proof -
    have "set (group_pids rows root_pid) = insert root_pid {pid. \<exists>p. dget rows pid = Some p \<and> group_id p = root_pid}"
      using d by (force simp: group_pids_def dget_def dkeys_def map_of_eq_Some_iff)
    moreover have "distinct (group_pids rows root_pid)" by (simp add: group_pids_def)
    ultimately show ?thesis using walk_tree_exact [of "rev (group_pids rows root_pid)" "group_pids rows root_pid" rows]
      by (simp add: tree_pids_def sum_list_distinct_conv_sum_set)
  qed
  have "process_tree_rss_bytes root_pid (Some snapshot) = Some r \<longleftrightarrow> (\<exists>rows. process_rows [] (splitlines snapshot) = Some rows \<and> root_pid \<in> set (dkeys rows) \<and>
      r = 1024 * sum_list (map (rss_of rows) (walk_tree rows (group_pids rows root_pid) (rev (group_pids rows root_pid)))))"
    by (cases "process_rows [] (splitlines snapshot)") (auto simp: process_tree_rss_bytes_def Let_def dget_None_conv)
  then show ?thesis using process_rows_iff [of "[]" "splitlines snapshot"] sum by (auto simp: dkeys_def)
qed

end
