(* ===== verification/WasmFacade.thy ===== *)
theory WasmFacade
  imports WasmExports PyJson "HOL-Library.Word"
begin

text \<open>
  \<open>scripts/wasm_facade.py\<close>: the conversions between JavaScript and WebAssembly values, the text of the
  generated methods and of the TypeScript interface. The constant text of the loader around them
  is not modelled. The meaning of the result conversions is given over 32-bit words.
\<close>

unbundle bit_operations_syntax

section \<open>Conversions\<close>

text \<open>\<open>_normalize_type\<close> is the same code as \<open>normalize_type\<close> of the scanner.\<close>

definition ts_type :: "string \<Rightarrow> bool \<Rightarrow> string" where
  "ts_type type_text parameter = (let normalized = normalize_type type_text in
     if normalized = ''cstr'' then (if parameter then ''string | number'' else ''string'')
     else if normalized \<in> set [''i64'', ''u64'', ''char''] then ''bigint''
     else if normalized = ''bool'' then ''boolean''
     else if normalized = ''void'' then ''void''
     else ''number'')"

definition js_input :: "string \<Rightarrow> string \<Rightarrow> string" where
  "js_input type_text expression = (let normalized = normalize_type type_text in
     if normalized \<in> set [''i64'', ''u64'', ''char''] then ''BigInt('' @ expression @ '')''
     else if normalized = ''bool'' then expression @ '' ? 1 : 0''
     else expression)"

definition js_output :: "string \<Rightarrow> string \<Rightarrow> string" where
  "js_output type_text expression = (let normalized = normalize_type type_text in
     if normalized = ''cstr'' then ''memoryTools.readString('' @ expression @ '')''
     else if normalized = ''bool'' then ''!!('' @ expression @ '')''
     else if normalized = ''i8'' then ''(('' @ expression @ '' << 24) >> 24)''
     else if normalized = ''i16'' then ''(('' @ expression @ '' << 16) >> 16)''
     else if normalized = ''isize'' then ''(('' @ expression @ '') | 0)''
     else if normalized = ''u8'' then ''(('' @ expression @ '') & 0xff)''
     else if normalized = ''u16'' then ''(('' @ expression @ '') & 0xffff)''
     else if normalized \<in> set [''u32'', ''usize'', ''uintptr''] then ''(('' @ expression @ '') >>> 0)''
     else expression)"

section \<open>Methods\<close>

definition nl :: string where "nl = [CHR 0x0A]"
definition dq :: string where "dq = [CHR 0x22]"

definition local_name :: "bound_parameter \<Rightarrow> string" where
  "local_name p = ''__elisa_'' @ p_name p"

definition declaration_line :: "bound_parameter \<Rightarrow> string" where
  "declaration_line p = ''      let '' @ local_name p @ '';''"

definition setup_line :: "bound_parameter \<Rightarrow> string" where
  "setup_line p = ''        '' @ local_name p @ '' = typeof '' @ p_name p @ '' === '' @ dq @ ''string'' @ dq
     @ '' ? memoryTools.writeString('' @ p_name p @ '') : ('' @ p_name p @ '' >>> 0);''"

definition cleanup_line :: "bound_parameter \<Rightarrow> string" where
  "cleanup_line p = ''        if (typeof '' @ p_name p @ '' === '' @ dq @ ''string'' @ dq @ '' && '' @ local_name p
     @ '' !== undefined) memoryTools.free('' @ local_name p @ '');''"

definition raw_argument :: "bound_parameter \<Rightarrow> string" where
  "raw_argument p = (if p_binding p = ''string'' then local_name p else js_input (p_type p) (p_name p))"

definition method_text :: "wasm_export \<Rightarrow> string" where
  "method_text item = (let
       strings = filter (\<lambda>p. p_binding p = ''string'') (e_parameters item);
       args = join '', '' (map p_name (e_parameters item));
       raw_args = join '', '' (map raw_argument (e_parameters item));
       call = ''instance.exports['' @ quoted (e_name item) @ '']('' @ raw_args @ '')'';
       result = js_output (e_return item) call in
     if strings \<noteq> [] then
       ''    '' @ e_name item @ ''('' @ args @ '') {'' @ nl @ join nl (map declaration_line strings)
       @ nl @ ''      try {'' @ nl @ join nl (map setup_line strings) @ nl @ ''        return '' @ result @ '';'' @ nl
       @ ''      }'' @ nl @ ''      finally {'' @ nl @ join nl (map cleanup_line strings) @ nl @ ''      }'' @ nl @ ''    }''
     else ''    '' @ e_name item @ ''('' @ args @ '') { return '' @ result @ ''; }'')"

definition function_block :: "wasm_export list \<Rightarrow> string" where
  "function_block items = join ('','' @ nl) (map method_text items)"

section \<open>The interface\<close>

definition interface_name :: "string \<Rightarrow> string" where
  "interface_name module_name = (let
       stem = map (\<lambda>c. if is_ident_part c \<or> c = CHR ''$'' then c else CHR ''_'') module_name;
       stem1 = (if stem = [] \<or> is_pydigit (hd stem) then ''_'' @ stem else stem) in stem1 @ ''Exports'')"

definition interface_line :: "wasm_export \<Rightarrow> string" where
  "interface_line item = ''  '' @ e_name item @ ''('' @ join '', '' (map (\<lambda>p. p_name p @ '': '' @ ts_type (p_type p) True) (e_parameters item))
     @ ''): '' @ ts_type (e_return item) False @ '';''"

definition interface_lines :: "wasm_export list \<Rightarrow> string" where
  "interface_lines items = join nl (map interface_line items)"

section \<open>The values of the result conversions\<close>

text \<open>
  The JavaScript expressions the conversions build around a call, their text, and their value
  when the call returns a number: the shift and bit operators convert their operand to a 32-bit
  word; only \<open>>>>\<close> reads the result as unsigned.
\<close>

datatype js = Call | ShlSar js nat | OrZero js | AndMask js nat | UshrZero js

fun js_text :: "string \<Rightarrow> js \<Rightarrow> string" where
  "js_text call Call = call"
| "js_text call (ShlSar e n) = ''(('' @ js_text call e @ '' << '' @ show_nat n @ '') >> '' @ show_nat n @ '')''"
| "js_text call (OrZero e) = ''(('' @ js_text call e @ '') | 0)''"
| "js_text call (AndMask e m) = ''(('' @ js_text call e @ '') & 0x'' @ show_base 16 m @ '')''"
| "js_text call (UshrZero e) = ''(('' @ js_text call e @ '') >>> 0)''"

fun js_value :: "int \<Rightarrow> js \<Rightarrow> int" where
  "js_value v Call = v"
| "js_value v (ShlSar e n) = sint (signed_drop_bit n (push_bit n (word_of_int (js_value v e) :: 32 word)))"
| "js_value v (OrZero e) = sint (word_of_int (js_value v e) :: 32 word)"
| "js_value v (AndMask e m) = sint ((word_of_int (js_value v e) :: 32 word) AND word_of_nat m)"
| "js_value v (UshrZero e) = uint (word_of_int (js_value v e) :: 32 word)"

text \<open>What a 32-bit result stands for in the source language.\<close>

definition declared_value :: "string \<Rightarrow> 32 word \<Rightarrow> int" where
  "declared_value ty w =
     (if ty = ''i8'' then sint (ucast w :: 8 word) else if ty = ''i16'' then sint (ucast w :: 16 word)
      else if ty = ''u8'' then uint (ucast w :: 8 word) else if ty = ''u16'' then uint (ucast w :: 16 word)
      else if ty \<in> set [''u32'', ''usize'', ''uintptr''] then uint w else sint w)"

definition integer_types :: "string list" where
  "integer_types = [''i8'', ''i16'', ''i32'', ''int'', ''isize'', ''u8'', ''u16'', ''u32'', ''usize'', ''uintptr'']"

lemma low_signed:
  "sint (signed_drop_bit 24 (push_bit 24 w) :: 32 word) = sint (ucast w :: 8 word)"
  "sint (signed_drop_bit 16 (push_bit 16 w) :: 32 word) = sint (ucast w :: 16 word)"
proof -
  have top: "\<not> Suc k \<le> n \<Longrightarrow> k \<le> n \<Longrightarrow> n = k" for k n :: nat by simp
  have "signed_drop_bit 24 (push_bit 24 w) = (scast (ucast w :: 8 word) :: 32 word)"
    by (rule bit_word_eqI) (auto simp: bit_simps min_def dest: top [of 7, simplified])
  then show "sint (signed_drop_bit 24 (push_bit 24 w) :: 32 word) = sint (ucast w :: 8 word)"
    using sint_ge [of "ucast w :: 8 word"] sint_lt [of "ucast w :: 8 word"] by (simp add: signed_scast_eq signed_take_bit_int_eq_self)
  have "signed_drop_bit 16 (push_bit 16 w) = (scast (ucast w :: 16 word) :: 32 word)"
    by (rule bit_word_eqI) (auto simp: bit_simps min_def dest: top [of 15, simplified])
  then show "sint (signed_drop_bit 16 (push_bit 16 w) :: 32 word) = sint (ucast w :: 16 word)"
    using sint_ge [of "ucast w :: 16 word"] sint_lt [of "ucast w :: 16 word"] by (simp add: signed_scast_eq signed_take_bit_int_eq_self)
qed

lemma sint_small:
  assumes "uint (x :: 32 word) < 2 ^ 31"
  shows "sint x = uint x"
proof -
  have "0 \<le> uint x" by simp
  then have "- (2 ^ 31) \<le> uint x" by (rule order_trans [rotated]) simp
  from signed_take_bit_int_eq_self [OF this assms] show ?thesis by (simp add: sint_uint)
qed

lemma low_masked:
  "sint (w AND 0xff :: 32 word) = uint (ucast w :: 8 word)"
  "sint (w AND 0xffff :: 32 word) = uint (ucast w :: 16 word)"
proof -
  have u: "uint (w AND mask n :: 32 word) = take_bit n (uint w)" for n
    by (simp add: unsigned_take_bit_eq flip: take_bit_eq_mask)
  have "take_bit 8 (uint w) < 2 ^ 31" "take_bit 16 (uint w) < 2 ^ 31"
    using take_bit_int_less_exp [of 8 "uint w"] take_bit_int_less_exp [of 16 "uint w"] by simp_all
  moreover have m: "(0xff :: 32 word) = mask 8" "(0xffff :: 32 word) = mask 16" by (simp_all add: mask_eq_exp_minus_1)
  ultimately show "sint (w AND 0xff :: 32 word) = uint (ucast w :: 8 word)" "sint (w AND 0xffff :: 32 word) = uint (ucast w :: 16 word)"
    by (simp_all only: m sint_small u) (simp_all add: unsigned_ucast_eq)
qed

definition js_conversion :: "string \<Rightarrow> js" where
  "js_conversion ty = (if ty = ''i8'' then ShlSar Call 24 else if ty = ''i16'' then ShlSar Call 16 else if ty = ''isize'' then OrZero Call
     else if ty = ''u8'' then AndMask Call 255 else if ty = ''u16'' then AndMask Call 65535
     else if ty \<in> set [''u32'', ''usize'', ''uintptr''] then UshrZero Call else Call)"

lemma literals: "show_nat 24 = ''24''" "show_nat 16 = ''16''" "show_base 16 255 = ''ff''" "show_base 16 65535 = ''ffff''"
  by code_simp+

lemma js_output_text: "normalize_type ty \<in> set integer_types \<Longrightarrow> js_output ty call = js_text call (js_conversion (normalize_type ty))"
  by (auto simp: integer_types_def js_output_def Let_def js_conversion_def literals)

lemma js_conversion_value: "ty \<in> set integer_types \<Longrightarrow> js_value (sint w) (js_conversion ty) = declared_value ty w"
  by (auto simp: integer_types_def js_conversion_def declared_value_def low_signed low_masked)

text \<open>
  The generated code returns integer results of at most 32 bits faithfully: the text that
  \<open>js_output\<close> puts around a call is an expression whose value, when the call returns any 32-bit
  word, is the number that word stands for at the declared width and sign.
\<close>

theorem js_output_faithful:
  assumes "normalize_type ty \<in> set integer_types"
  shows "\<exists>e. js_output ty call = js_text call e \<and> (\<forall>w. js_value (sint w) e = declared_value (normalize_type ty) w)"
  using js_output_text [OF assms] js_conversion_value [OF assms] by blast

theorem js_output_faithful_witness:
  "\<exists>e. js_output '' i8'' ''f()'' = js_text ''f()'' e \<and> (\<forall>w. js_value (sint w) e = declared_value (normalize_type '' i8'') w)"
  by (rule js_output_faithful) code_simp

end
