(* ===== verification/PyStub.thy ===== *)
theory PyStub
  imports PyJson
begin

text \<open>
  \<open>scripts/pymodule_pyi.py\<close> and \<open>scripts/pymodule_pyi_typing.py\<close>: Python stubs from the description of a
  module. The description is typed: a key that may be missing is an option, and a value of another
  JSON type than the script expects is outside the model. Iterating a set of the script has no
  effect on the result.
\<close>

section \<open>Descriptions\<close>

datatype default_value = NoDefault | OtherDefault | TextDefault string

record stub_field =
  fd_name :: "string option"
  fd_type :: "string option"
  fd_default :: bool       \<comment> \<open>a default that is not null\<close>
  fd_optional :: bool

record stub_parameter =
  pr_name :: "string option"
  pr_type :: "string option"
  pr_mutable :: bool
  pr_default :: default_value

record stub_variant =
  vr_name :: "string option"
  vr_fields :: "stub_field list"

record stub_function =
  fn_name :: "string option"
  fn_parameters :: "stub_parameter list"
  fn_return :: "string option"
  fn_raises :: "string option"
  fn_payload :: "string option"
  fn_variants :: "stub_variant list"

record stub_struct =
  st_name :: "string option"
  st_fields :: "stub_field list"

record stub_constant =
  cn_name :: "string option"
  cn_type :: "string option"

record description =
  d_functions :: "stub_function list"
  d_structs :: "stub_struct list"
  d_constants :: "stub_constant list"

definition get_or :: "'a option \<Rightarrow> 'a \<Rightarrow> 'a" where
  "get_or x d = (case x of None \<Rightarrow> d | Some v \<Rightarrow> v)"

section \<open>Python names and literals\<close>

text \<open>\<open>keyword.kwlist\<close>\<close>

definition kwlist :: "string list" where
  "kwlist = [''False'', ''None'', ''True'', ''and'', ''as'', ''assert'', ''async'', ''await'', ''break'', ''class'', ''continue'', ''def'', ''del'', ''elif'',
     ''else'', ''except'', ''finally'', ''for'', ''from'', ''global'', ''if'', ''import'', ''in'', ''is'', ''lambda'', ''nonlocal'', ''not'', ''or'', ''pass'',
     ''raise'', ''return'', ''try'', ''while'', ''with'', ''yield'']"

definition iskeyword :: "string \<Rightarrow> bool" where
  "iskeyword s \<longleftrightarrow> s \<in> set kwlist"

text \<open>\<open>repr\<close> of a text.\<close>

definition repr_char :: "char \<Rightarrow> char \<Rightarrow> string" where
  "repr_char q c = (let n = code c in
     if c = q \<or> c = CHR 0x5C then [CHR 0x5C, c]
     else if n = 9 then [CHR 0x5C, CHR ''t''] else if n = 10 then [CHR 0x5C, CHR ''n''] else if n = 13 then [CHR 0x5C, CHR ''r'']
     else if n < 32 \<or> 127 \<le> n \<and> n \<le> 160 \<or> n = 173 then [CHR 0x5C, CHR ''x'', digit_char (n div 16), digit_char (n mod 16)]
     else [c])"

definition py_repr :: "string \<Rightarrow> string" where
  "py_repr s = (let q = (if CHR 0x27 \<in> set s \<and> CHR 0x22 \<notin> set s then CHR 0x22 else CHR 0x27)
     in [q] @ concat (map (repr_char q) s) @ [q])"

section \<open>Tables\<close>

definition PRIMITIVES :: "(string, string) dict" where
  "PRIMITIVES = [(''i8'', ''int''), (''i16'', ''int''), (''i32'', ''int''), (''i64'', ''int''), (''int'', ''int''), (''isize'', ''int''), (''char'', ''int''),
     (''u8'', ''int''), (''u16'', ''int''), (''u32'', ''int''), (''u64'', ''int''), (''usize'', ''int''), (''uintptr'', ''int''), (''f32'', ''float''),
     (''f64'', ''float''), (''bool'', ''bool''), (''cstr'', ''str''), (''sview'', ''str''), (''py::Object'', ''Any''), (''void'', ''None'')]"

definition BUILTIN_TYPE_NAMES :: "string list" where
  "BUILTIN_TYPE_NAMES = [''bool'', ''bytes'', ''bytearray'', ''dict'', ''float'', ''int'', ''list'', ''memoryview'', ''object'', ''RuntimeError'', ''set'', ''str'']"

definition TYPING_TYPE_NAMES :: "string list" where
  "TYPING_TYPE_NAMES = [''Any'', ''Final'', ''Iterable'', ''Literal'', ''Mapping'', ''NotRequired'', ''Protocol'', ''Sequence'', ''TypedDict'']"

definition NUMERIC_ELEMENTS :: "string list" where
  "NUMERIC_ELEMENTS = [''i8'', ''i16'', ''i32'', ''i64'', ''int'', ''isize'', ''u8'', ''u16'', ''u32'', ''u64'', ''usize'', ''uintptr'', ''f32'', ''f64'']"

section \<open>Names\<close>

text \<open>An absent context is the empty one.\<close>

definition qualified_type_symbol :: "string \<Rightarrow> (string, string) dict \<Rightarrow> string" where
  "qualified_type_symbol name ctx = (case dget ctx name of None \<Rightarrow> name | Some prefix \<Rightarrow> if prefix = [] then name else prefix @ ''.'' @ name)"

text \<open>The loop ends: each underscore makes the alias longer than before, and the names are finitely many.\<close>

function unique_private_alias :: "string \<Rightarrow> string list \<Rightarrow> string" where
  "unique_private_alias alias reserved = (if alias \<in> set reserved then unique_private_alias (''_'' @ alias) reserved else alias)"
  by pat_completeness auto
termination
proof (relation "measure (\<lambda>(a, reserved). Suc (sum_list (map length reserved)) - length a)", simp, clarsimp)
  fix a :: string and reserved :: "string list"
  assume "a \<in> set reserved"
  then have "length a \<le> sum_list (map length reserved)" by (simp add: member_le_sum_list)
  then show "sum_list (map length reserved) - length a < Suc (sum_list (map length reserved)) - length a" by simp
qed

declare unique_private_alias.simps [simp del]

definition is_ascii_letter :: "char \<Rightarrow> bool" where
  "is_ascii_letter c \<longleftrightarrow> is_upper_az c \<or> is_lower_az c"

definition ascii_identifier :: "string \<Rightarrow> bool" where
  "ascii_identifier name \<longleftrightarrow> (case name of [] \<Rightarrow> False
     | c # cs \<Rightarrow> (c = CHR ''_'' \<or> is_ascii_letter c) \<and> list_all (\<lambda>d. d = CHR ''_'' \<or> is_ascii_letter d \<or> is_digit d) cs \<and> \<not> iskeyword name \<and> name \<noteq> ''__debug__'')"

definition typed_dict_class_safe :: "string \<Rightarrow> string option list \<Rightarrow> bool" where
  "typed_dict_class_safe name field_names \<longleftrightarrow> is_identifier name \<and> \<not> iskeyword name \<and>
     list_all (\<lambda>f. case f of None \<Rightarrow> False | Some n \<Rightarrow> is_identifier n \<and> \<not> iskeyword n) field_names"

definition stub_parameter_name :: "string \<Rightarrow> nat \<Rightarrow> string \<times> string option" where
  "stub_parameter_name name index = (if is_identifier name \<and> \<not> iskeyword name then (name, None) else (''_arg'' @ show_nat index, Some name))"

definition identifier_fragment :: "string \<Rightarrow> string \<Rightarrow> string" where
  "identifier_fragment value fallback = (let
       fragment = map (\<lambda>c. if is_alnum c \<or> c = CHR ''_'' then c else CHR ''_'') value;
       fragment1 = (if fragment = [] \<or> is_pydigit (hd fragment) \<or> iskeyword fragment then ''_'' @ fragment else fragment)
     in if is_identifier fragment1 then fragment1 else fallback)"

text \<open>The candidates \<open>base\<close>, \<open>base_1\<close>, \<open>base_2\<close> and so on; the first that is free is taken.\<close>

definition candidate :: "string \<Rightarrow> nat \<Rightarrow> string" where
  "candidate base k = (if k = 0 then base else base @ ''_'' @ show_nat k)"

lemma candidate_inject: "candidate base j = candidate base k \<longleftrightarrow> j = k"
proof
  assume eq: "candidate base j = candidate base k"
  have "digit_run 10 False 0 (show_nat n) = Some n" for n by (simp add: show_nat_def digit_run_show_base)
  then have "show_nat j = show_nat k \<Longrightarrow> j = k" by (metis option.inject)
  with eq show "j = k" by (auto simp: candidate_def split: if_splits)
qed simp

text \<open>A declared name, together with its protocol for a struct.\<close>

definition owned_names :: "bool \<Rightarrow> string \<Rightarrow> string list" where
  "owned_names struct name = (if struct then [name, name @ ''Input''] else [name])"

definition taken :: "bool \<Rightarrow> string list \<Rightarrow> string \<Rightarrow> bool" where
  "taken struct used name \<longleftrightarrow> list_ex (\<lambda>n. n \<in> set used) (owned_names struct name)"

lemma finite_taken: "finite {j. taken struct used (candidate base j)}"
proof -
  have inj: "inj (candidate base)" "inj (\<lambda>j. candidate base j @ ''Input'')" by (simp_all add: inj_def candidate_inject)
  have "{j. taken struct used (candidate base j)} \<subseteq> candidate base -` set used \<union> (\<lambda>j. candidate base j @ ''Input'') -` set used"
    by (auto simp: taken_def owned_names_def split: if_splits)
  then show ?thesis by (rule finite_subset) (simp add: finite_vimageI inj)
qed

text \<open>The first free candidate from the \<open>k\<close>-th on: only finitely many are taken, so the loop ends.\<close>

function first_free :: "bool \<Rightarrow> string list \<Rightarrow> string \<Rightarrow> nat \<Rightarrow> string" where
  "first_free struct used base k = (if taken struct used (candidate base k) then first_free struct used base (Suc k) else candidate base k)"
  by pat_completeness auto
termination
proof (relation "measure (\<lambda>(struct, used, base, k). card ({j. taken struct used (candidate base j)} \<inter> {k..}))", simp, clarsimp)
  fix struct used base k assume t: "taken struct used (candidate base k)"
  let ?A = "{j. taken struct used (candidate base j)}"
  have "finite (?A \<inter> {k..})" by (rule finite_subset [OF Int_lower1 finite_taken])
  moreover have "?A \<inter> {Suc k..} \<subseteq> ?A \<inter> {k..}" by (rule Int_mono) simp_all
  moreover have "k \<in> ?A \<inter> {k..}" "k \<notin> ?A \<inter> {Suc k..}" using t by simp_all
  ultimately show "card (?A \<inter> {Suc k..}) < card (?A \<inter> {k..})"
    by (intro psubset_card_mono) (simp, blast)
qed

declare first_free.simps [simp del]

lemma first_free_not_taken: "\<not> taken struct used (first_free struct used base k)"
proof (induction struct used base k rule: first_free.induct)
  case (1 struct used base k)
  then show ?case by (subst first_free.simps) simp
qed

definition unique_generated_name :: "string \<Rightarrow> string list \<Rightarrow> string \<times> string list" where
  "unique_generated_name base used = (let name = first_free False used base 0 in (name, name # used))"

section \<open>Types\<close>

fun split_pair_at :: "int \<Rightarrow> string \<Rightarrow> string \<Rightarrow> (string \<times> string) option" where
  "split_pair_at depth acc [] = None"
| "split_pair_at depth acc (c # cs) =
     (if c = CHR ''['' then split_pair_at (depth + 1) (c # acc) cs
      else if c = CHR '']'' then split_pair_at (depth - 1) (c # acc) cs
      else if c = CHR '','' \<and> depth = 0 then Some (rev acc, cs)
      else split_pair_at depth (c # acc) cs)"

definition split_pair :: "string \<Rightarrow> (string \<times> string) option" where
  "split_pair text = split_pair_at 0 [] text"

lemma split_pair_at_length: "split_pair_at depth acc s = Some (a, b) \<Longrightarrow> length a + length b < length acc + length s"
  by (induction depth acc s rule: split_pair_at.induct) (auto split: if_splits)

lemma split_pair_length: "split_pair s = Some (a, b) \<Longrightarrow> length a + length b < length s"
  using split_pair_at_length [of 0 "[]" s a b] by (simp add: split_pair_def)

definition bracketed :: "string \<Rightarrow> string \<Rightarrow> bool" where
  "bracketed prefix t \<longleftrightarrow> starts_with prefix t \<and> ends_with '']'' t"

definition inner :: "string \<Rightarrow> string \<Rightarrow> string" where
  "inner prefix t = drop_last 1 (drop (length prefix) t)"

lemma inner_length: "bracketed prefix t \<Longrightarrow> prefix \<noteq> [] \<Longrightarrow> length (inner prefix t) < length t"
  by (auto simp: bracketed_def inner_def drop_last_def starts_with_def ends_with_def)

definition numeric_view :: "string \<Rightarrow> bool" where
  "numeric_view type_name \<longleftrightarrow> bracketed ''view['' type_name \<and> inner ''view['' type_name \<in> set NUMERIC_ELEMENTS"

function python_type :: "(string, string) dict \<Rightarrow> bool \<Rightarrow> (string, string) dict \<Rightarrow> string \<Rightarrow> string" where
  "python_type known input ctx type_name = (let q = (\<lambda>n. qualified_type_symbol n ctx) in
     if ends_with ''?'' type_name then python_type known input ctx (drop_last 1 type_name) @ '' | None''
     else if type_name \<in> set [''cstr'', ''sview''] \<and> input then q ''str'' @ '' | '' @ q ''bytes''
     else case dget PRIMITIVES type_name of Some p \<Rightarrow> q p
     | None \<Rightarrow> (case (if bracketed ''array['' type_name then split_pair (inner ''array['' type_name) else None) of
         Some (element, _) \<Rightarrow> q (if input then ''Sequence'' else ''list'') @ ''['' @ python_type known input ctx element @ '']''
       | None \<Rightarrow>
         if bracketed ''darray['' type_name then
           (if type_name = ''darray[u8]'' then (if input then join '' | '' [q ''bytes'', q ''bytearray'', q ''memoryview''] else q ''bytes'')
            else q (if input then ''Sequence'' else ''list'') @ ''['' @ python_type known input ctx (inner ''darray['' type_name) @ '']'')
         else if bracketed ''view['' type_name then
           (if input then q ''Sequence'' @ ''['' @ python_type known input ctx (inner ''view['' type_name) @ '']''
               @ (if numeric_view type_name then '' | '' @ q ''Buffer'' else [])
            else if type_name = ''view[u8]'' then q ''bytes''
            else q ''list'' @ ''['' @ python_type known input ctx (inner ''view['' type_name) @ '']'')
         else if bracketed ''set['' type_name then
           q (if input then ''Iterable'' else ''set'') @ ''['' @ python_type known input ctx (inner ''set['' type_name) @ '']''
         else (case (if bracketed ''dict['' type_name then split_pair (inner ''dict['' type_name) else None) of
             Some (key, val) \<Rightarrow> q (if input then ''Mapping'' else ''dict'') @ ''['' @ python_type known input ctx key @ '', '' @ python_type known input ctx val @ '']''
           | None \<Rightarrow> (case dget known type_name of
               None \<Rightarrow> q ''Any''
             | Some struct_name \<Rightarrow> if input then struct_name @ '' | '' @ struct_name @ ''Input'' else struct_name))))"
  by pat_completeness auto
termination
proof (relation "measure (\<lambda>(known, input, ctx, t). length t)")
qed (auto simp: drop_last_def ends_with_def intro: inner_length split: if_splits dest!: split_pair_length dest: inner_length)

declare python_type.simps [simp del]

section \<open>Error payloads\<close>

text \<open>A declaration by a class body, or by a call when a name is not an identifier.\<close>

definition typed_dict_lines :: "(string, string) dict \<Rightarrow> string \<Rightarrow> (string \<times> string) list \<Rightarrow> string list" where
  "typed_dict_lines ctx class_name fs =
     (if typed_dict_class_safe class_name (map (Some \<circ> fst) fs)
      then [''class '' @ class_name @ ''('' @ qualified_type_symbol ''TypedDict'' ctx @ ''):''] @ map (\<lambda>(n, t). ''    '' @ n @ '': '' @ t) fs
      else [class_name @ '' = '' @ qualified_type_symbol ''TypedDict'' ctx @ ''('' @ py_repr class_name @ '', {''
        @ join '', '' (map (\<lambda>(n, t). py_repr n @ '': '' @ t) fs) @ ''})''])"

record payload_state =
  pl_lines :: "string list"
  pl_aliases :: "(string, string) dict"
  pl_used :: "string list"

definition variant_fields :: "(string, string) dict \<Rightarrow> (string, string) dict \<Rightarrow> string \<Rightarrow> stub_variant \<Rightarrow> (string \<times> string) list" where
  "variant_fields known ctx variant_name v = (''variant'', qualified_type_symbol ''Literal'' ctx @ ''['' @ py_repr variant_name @ '']'')
     # map (\<lambda>(i, f). (get_or (fd_name f) (''field_'' @ show_nat i), python_type known False ctx (get_or (fd_type f) []))) (enumerate 0 (vr_fields v))"

text \<open>The variants of one family: the lines, the class names and the names used.\<close>

fun variant_lines :: "(string, string) dict \<Rightarrow> (string, string) dict \<Rightarrow> string \<Rightarrow> nat \<Rightarrow> stub_variant list \<Rightarrow> string list \<Rightarrow> string list \<times> string list \<times> string list" where
  "variant_lines known ctx family_id i [] used = ([], [], used)"
| "variant_lines known ctx family_id i (v # vs) used = (let
       variant_name = get_or (vr_name v) (''Variant'' @ show_nat i);
       variant_id = identifier_fragment variant_name (''Variant'' @ show_nat i);
       (class_name, used1) = unique_generated_name (family_id @ variant_id @ ''Payload'') used;
       (ls, classes, used2) = variant_lines known ctx family_id (Suc i) vs used1
     in (typed_dict_lines ctx class_name (variant_fields known ctx variant_name v) @ [[]] @ ls, class_name # classes, used2))"

text \<open>
  A family is entered in \<open>seen_families\<close> and gets an alias in the same iteration, since every variant
  declares a class: the aliases are the families seen.
\<close>

definition payload_step :: "(string, string) dict \<Rightarrow> (string, string) dict \<Rightarrow> stub_function \<Rightarrow> payload_state \<Rightarrow> payload_state" where
  "payload_step known ctx f st = (case fn_raises f of
     None \<Rightarrow> st
   | Some family \<Rightarrow>
       if fn_payload f \<noteq> Some ''struct'' \<or> family = [] \<or> dget (pl_aliases st) family \<noteq> None \<or> fn_variants f = [] then st
       else (let
           family_id = identifier_fragment family (''Error'' @ show_nat (length (pl_aliases st)));
           (ls, classes, used1) = variant_lines known ctx family_id 0 (fn_variants f) (pl_used st);
           (alias_name, used2) = unique_generated_name (family_id @ ''Payload'') used1
         in \<lparr>pl_lines = pl_lines st @ ls @ [alias_name @ '' = '' @ join '' | '' classes, []],
              pl_aliases = dset family alias_name (pl_aliases st), pl_used = used2\<rparr>))"

definition render_error_payload_types :: "description \<Rightarrow> (string, string) dict \<Rightarrow> (string, string) dict \<Rightarrow> string list \<Rightarrow> payload_state" where
  "render_error_payload_types d known ctx reserved = fold (payload_step known ctx) (d_functions d)
     \<lparr>pl_lines = [], pl_aliases = [], pl_used = reserved @ map snd known @ map (\<lambda>(_, a). a @ ''Input'') known\<rparr>"

definition any_dict :: "(string, string) dict \<Rightarrow> string" where
  "any_dict ctx = qualified_type_symbol ''dict'' ctx @ ''['' @ qualified_type_symbol ''str'' ctx @ '', '' @ qualified_type_symbol ''Any'' ctx @ '']''"

definition annotation_step :: "(string, string) dict \<Rightarrow> (string, string) dict \<Rightarrow> (string, string) dict \<Rightarrow> stub_function \<Rightarrow> (string, string) dict \<Rightarrow> (string, string) dict" where
  "annotation_step known payload_aliases ctx f annotations = (case fn_raises f of
     None \<Rightarrow> annotations
   | Some family \<Rightarrow>
       if family = [] \<or> dget annotations family \<noteq> None then annotations
       else dset family (case fn_payload f of
           None \<Rightarrow> qualified_type_symbol ''None'' ctx
         | Some p \<Rightarrow> if p = ''struct'' then get_or (dget payload_aliases family) (any_dict ctx)
             else if p = [] then qualified_type_symbol ''None'' ctx else python_type known False ctx p) annotations)"

definition render_error_payload_annotations :: "description \<Rightarrow> (string, string) dict \<Rightarrow> (string, string) dict \<Rightarrow> (string, string) dict \<Rightarrow> (string, string) dict" where
  "render_error_payload_annotations d known payload_aliases ctx = fold (annotation_step known payload_aliases ctx) (d_functions d) []"

section \<open>Checking a description\<close>

fun check_parameters :: "bool \<Rightarrow> stub_parameter list \<Rightarrow> unit result" where
  "check_parameters saw_optional [] = Inr ()"
| "check_parameters saw_optional (p # ps) =
     (if pr_default p \<noteq> NoDefault then check_parameters True ps
      else if saw_optional then Inl (ValueError ''a required parameter after a default/nullable parameter'')
      else check_parameters saw_optional ps)"

definition validate_manifest :: "description \<Rightarrow> unit result" where
  "validate_manifest d = rmap (\<lambda>_. ()) (traverse (\<lambda>f. check_parameters False (fn_parameters f)) (d_functions d))"

section \<open>Module names\<close>

definition error_step :: "stub_function \<Rightarrow> (string, string) dict \<Rightarrow> (string, string) dict" where
  "error_step f classes = (case fn_raises f of
     None \<Rightarrow> classes
   | Some family \<Rightarrow> if family = [] \<or> dget classes family \<noteq> None then classes
       else dset family (identifier_fragment family (''ElisaError'' @ show_nat (length classes))) classes)"

definition error_classes :: "description \<Rightarrow> (string, string) dict" where
  "error_classes d = fold error_step (d_functions d) []"

definition given_names :: "string option list \<Rightarrow> string list" where
  "given_names xs = List.map_filter (\<lambda>x. case x of Some n \<Rightarrow> if n = [] then None else Some n | None \<Rightarrow> None) xs"

definition reserved_names :: "description \<Rightarrow> string list" where
  "reserved_names d = given_names (map fn_name (d_functions d) @ map cn_name (d_constants d)) @ map snd (error_classes d) @ [''ElisaError'', ''__all__'']"

definition struct_alias :: "string list \<Rightarrow> string list \<Rightarrow> nat \<Rightarrow> string \<Rightarrow> string" where
  "struct_alias reserved used index name = (let
       numbered = ''_ElisaStruct_'' @ show_nat index;
       readable = (if ascii_identifier name then name else numbered)
     in if taken True (reserved @ used) readable then first_free True (reserved @ used) numbered 0 else readable)"

fun struct_aliases_from :: "string list \<Rightarrow> nat \<Rightarrow> stub_struct list \<Rightarrow> (string, string) dict \<Rightarrow> string list \<Rightarrow> (string, string) dict" where
  "struct_aliases_from reserved index [] aliases used = aliases"
| "struct_aliases_from reserved index (s # ss) aliases used = (let name = get_or (st_name s) [] in
     if name = [] then struct_aliases_from reserved (Suc index) ss aliases used
     else (let a = struct_alias reserved used index name in
       struct_aliases_from reserved (Suc index) ss (dset name a aliases) (owned_names True a @ used)))"

definition struct_aliases :: "description \<Rightarrow> (string, string) dict" where
  "struct_aliases d = struct_aliases_from (reserved_names d) 0 (d_structs d) [] []"

definition uses_buffers :: "description \<Rightarrow> bool" where
  "uses_buffers d \<longleftrightarrow> list_ex (\<lambda>f. list_ex pr_mutable (fn_parameters f)) (d_functions d) \<or>
     list_ex (\<lambda>t. list_ex (\<lambda>e. has_sub (''view['' @ e @ '']'') t) NUMERIC_ELEMENTS)
       (concat (map (\<lambda>f. map (\<lambda>p. get_or (pr_type p) []) (fn_parameters f)) (d_functions d))
        @ concat (map (\<lambda>s. map (\<lambda>f. get_or (fd_type f) []) (st_fields s)) (d_structs d)))"

record aliases =
  al_builtin :: string
  al_typing :: string
  al_buffer :: string
  al_checking :: string
  al_optional :: string

definition all_reserved :: "description \<Rightarrow> string list" where
  "all_reserved d = reserved_names d @ map snd (struct_aliases d)"

definition import_aliases :: "string list \<Rightarrow> aliases" where
  "import_aliases reserved = (let
       b = unique_private_alias ''_elisa_builtins'' reserved;
       t = unique_private_alias ''_elisa_typing'' (reserved @ [b]);
       u = unique_private_alias ''_elisa_buffers'' (reserved @ [b, t]);
       c = unique_private_alias ''_elisa_type_checking'' (reserved @ [u]);
       p = unique_private_alias ''_elisa_optional_typing'' (reserved @ [u, c])
     in \<lparr>al_builtin = b, al_typing = t, al_buffer = u, al_checking = c, al_optional = p\<rparr>)"

definition type_context :: "description \<Rightarrow> aliases \<Rightarrow> (string, string) dict" where
  "type_context d al = (let
       reserved = all_reserved d;
       ctx1 = map (\<lambda>n. (n, al_builtin al)) (filter (\<lambda>n. n \<in> set reserved) BUILTIN_TYPE_NAMES)
         @ map (\<lambda>n. (n, al_typing al)) (filter (\<lambda>n. n \<in> set reserved) TYPING_TYPE_NAMES);
       ctx2 = (if dget ctx1 ''NotRequired'' \<noteq> None then dset ''NotRequired'' (al_optional al) ctx1 else ctx1)
     in if uses_buffers d then dset ''Buffer'' (al_buffer al) ctx2 else ctx2)"

section \<open>The stub\<close>

definition compatibility_imports :: "string \<Rightarrow> string option \<Rightarrow> string list" where
  "compatibility_imports checking optional =
     [''from typing import TYPE_CHECKING as '' @ checking, ''import sys'', ''if sys.version_info >= (3, 11):'',
      (case optional of Some o1 \<Rightarrow> ''    import typing as '' @ o1 | None \<Rightarrow> ''    from typing import NotRequired''),
      ''elif '' @ checking @ '':'',
      (case optional of Some o1 \<Rightarrow> ''    import typing_extensions as '' @ o1 | None \<Rightarrow> ''    from typing_extensions import NotRequired''), []]"

definition buffer_imports :: "string \<Rightarrow> string \<Rightarrow> string list" where
  "buffer_imports module_alias checking =
     [''if sys.version_info >= (3, 12):'', ''    import collections.abc as '' @ module_alias,
      ''elif '' @ checking @ '':'', ''    import typing_extensions as '' @ module_alias, []]"

definition header_lines :: "description \<Rightarrow> aliases \<Rightarrow> (string, string) dict \<Rightarrow> string list" where
  "header_lines d al ctx = (let
       q = (\<lambda>n. qualified_type_symbol n ctx);
       typing_imports = filter (\<lambda>n. n \<notin> set (all_reserved d)) [''Any'', ''Final'', ''Iterable'', ''Literal'', ''Mapping'', ''Protocol'', ''Sequence'', ''TypedDict'']
     in [''from __future__ import annotations'', [], (if typing_imports = [] then [] else ''from typing import '' @ join '', '' typing_imports), []]
       @ compatibility_imports (al_checking al) (if dget ctx ''NotRequired'' \<noteq> None then Some (al_optional al) else None)
       @ (if dget ctx ''Buffer'' \<noteq> None then buffer_imports (al_buffer al) (al_checking al) else [])
       @ (if al_builtin al \<in> set (map snd ctx) then [''import builtins as '' @ al_builtin al] else [])
       @ (if al_typing al \<in> set (map snd ctx) then [''import typing as '' @ al_typing al] else [])
       @ [[], ''class ElisaError('' @ q ''RuntimeError'' @ ''):'', ''    code: '' @ q ''int'', ''    function: '' @ q ''str'',
          ''    parameter: '' @ q ''str'' @ '' | '' @ q ''None'', ''    expected: '' @ q ''str'' @ '' | '' @ q ''None'',
          ''    path: '' @ q ''str'' @ '' | '' @ q ''None'', ''    payload: '' @ q ''Any'', []])"

definition record_field_type :: "(string, string) dict \<Rightarrow> (string, string) dict \<Rightarrow> stub_field \<Rightarrow> string" where
  "record_field_type known ctx f = (let t = python_type known False ctx (get_or (fd_type f) []) in
     if fd_default f \<or> fd_optional f then qualified_type_symbol ''NotRequired'' ctx @ ''['' @ t @ '']'' else t)"

definition protocol_field_line :: "(string, string) dict \<Rightarrow> (string, string) dict \<Rightarrow> stub_field \<Rightarrow> string" where
  "protocol_field_line known ctx f = (let
       n = get_or (fd_name f) ''field'';
       t = python_type known True ctx (get_or (fd_type f) []);
       t1 = (if fd_optional f \<and> \<not> fd_default f \<and> \<not> has_sub '' | None'' t then t @ '' | None'' else t)
     in if fd_default f \<or> fd_optional f then ''    # optional attribute '' @ py_repr n @ '': '' @ t1
        else if is_identifier n \<and> \<not> iskeyword n then ''    '' @ n @ '': '' @ t1
        else ''    # attribute '' @ py_repr n @ '': '' @ t1)"

definition struct_lines :: "(string, string) dict \<Rightarrow> (string, string) dict \<Rightarrow> stub_struct \<Rightarrow> string list" where
  "struct_lines known ctx s = (let name = get_or (st_name s) [] in
     if name = [] then []
     else (let
         fs = st_fields s;
         a = get_or (dget known name) name;
         field_name = (\<lambda>f. get_or (fd_name f) ''field'')
       in (if typed_dict_class_safe a (map fd_name fs)
           then [''class '' @ a @ ''('' @ qualified_type_symbol ''TypedDict'' ctx @ ''):''] @ (if fs = [] then [''    pass''] else [])
             @ map (\<lambda>f. ''    '' @ field_name f @ '': '' @ record_field_type known ctx f) fs
           else [a @ '' = '' @ qualified_type_symbol ''TypedDict'' ctx @ ''('' @ py_repr name @ '', {''
             @ join '', '' (map (\<lambda>f. py_repr (field_name f) @ '': '' @ record_field_type known ctx f) fs) @ ''})''])
         @ [[], ''class '' @ a @ ''Input('' @ qualified_type_symbol ''Protocol'' ctx @ ''):'']
         @ (if list_ex (\<lambda>f. \<not> fd_default f \<and> \<not> fd_optional f) fs then [] else [''    pass''])
         @ map (protocol_field_line known ctx) fs @ [[]]))"

definition constant_lines :: "(string, string) dict \<Rightarrow> (string, string) dict \<Rightarrow> stub_constant list \<Rightarrow> string list" where
  "constant_lines known ctx cs = map (\<lambda>c. get_or (cn_name c) ''constant'' @ '': '' @ qualified_type_symbol ''Final'' ctx @ ''[''
     @ python_type known False ctx (get_or (cn_type c) []) @ '']'') cs @ (if cs = [] then [] else [[]])"

definition parameter_type :: "(string, string) dict \<Rightarrow> (string, string) dict \<Rightarrow> stub_parameter \<Rightarrow> string" where
  "parameter_type known ctx p = (let t = get_or (pr_type p) [] in
     if t \<in> set [''cstr'', ''sview'', ''cstr?'', ''sview?''] then
       qualified_type_symbol ''str'' ctx @ '' | '' @ qualified_type_symbol ''bytes'' ctx @ (if ends_with ''?'' t then '' | None'' else [])
     else if pr_mutable p then qualified_type_symbol ''Buffer'' ctx
     else python_type known True ctx t)"

definition default_suffix :: "stub_parameter \<Rightarrow> string" where
  "default_suffix p = (case pr_default p of
     NoDefault \<Rightarrow> []
   | OtherDefault \<Rightarrow> '' = ...''
   | TextDefault d \<Rightarrow> (let t = get_or (pr_type p) [];
       d1 = (if d = ''{}'' \<and> starts_with ''set['' t then ''set()'' else d);
       d2 = (if d1 = ''[]'' \<and> t = ''darray[u8]'' then ''b'' @ [CHR 0x22, CHR 0x22] else d1)
     in if d2 = ''<unsupported>'' then '' = ...'' else '' = '' @ d2))"

definition function_lines :: "(string, string) dict \<Rightarrow> (string, string) dict \<Rightarrow> (string, string) dict \<Rightarrow> stub_function \<Rightarrow> string list" where
  "function_lines known payload_aliases ctx f = (let
       named = map (\<lambda>(i, p). (stub_parameter_name (get_or (pr_name p) ''value'') i, p)) (enumerate 0 (fn_parameters f));
       parameters = map (\<lambda>((n, _), p). n @ '': '' @ parameter_type known ctx p @ default_suffix p) named;
       renamed = List.map_filter (\<lambda>((n, original), _). map_option (\<lambda>x. ''# '' @ n @ '' represents Elisa parameter '' @ py_repr x) original) named;
       raises = get_or (fn_raises f) []
     in [''def '' @ get_or (fn_name f) ''function'' @ ''('' @ join '', '' parameters @ '') -> '' @ python_type known False ctx (get_or (fn_return f) ''void'') @ '': ...'']
       @ renamed
       @ (if raises = [] then [] else [''# raises '' @ raises] @ (case fn_payload f of
           None \<Rightarrow> []
         | Some p \<Rightarrow> [''# error payload: '' @ (if p = ''struct'' then get_or (dget payload_aliases raises) (any_dict ctx) else python_type known False ctx p)]))
       @ [[]])"

definition exported :: "description \<Rightarrow> string list" where
  "exported d = given_names (map fn_name (d_functions d) @ map cn_name (d_constants d)) @ filter (\<lambda>n. n \<noteq> []) (map snd (error_classes d))
     @ [''ElisaError''] @ filter (\<lambda>n. n \<noteq> []) (map snd (struct_aliases d))"

definition error_class_lines :: "(string, string) dict \<Rightarrow> (string, string) dict \<Rightarrow> (string, string) dict \<Rightarrow> string list" where
  "error_class_lines classes annotations ctx = concat (map (\<lambda>(family, class_name).
     [''class '' @ class_name @ ''(ElisaError):'', ''    payload: '' @ get_or (dget annotations family) (qualified_type_symbol ''Any'' ctx), []]) classes)"

definition render :: "description \<Rightarrow> string result" where
  "render d = rbind (validate_manifest d) (\<lambda>_. let
       known = struct_aliases d;
       al = import_aliases (all_reserved d);
       ctx = type_context d al;
       payloads = render_error_payload_types d known ctx (all_reserved d);
       annotations = render_error_payload_annotations d known (pl_aliases payloads) ctx;
       lines = header_lines d al ctx @ pl_lines payloads @ error_class_lines (error_classes d) annotations ctx
         @ concat (map (struct_lines known ctx) (d_structs d)) @ constant_lines known ctx (d_constants d)
         @ concat (map (function_lines known (pl_aliases payloads) ctx) (d_functions d))
         @ [''__all__: list[str] = ['' @ join '', '' (map quoted (exported d)) @ '']'']
     in Inr (rstrip (join [CHR 0x0A] lines) @ [CHR 0x0A]))"

section \<open>Fresh names\<close>

lemma private_alias_fresh: "unique_private_alias a reserved \<notin> set reserved"
proof (induction a reserved rule: unique_private_alias.induct)
  case (1 a reserved)
  then show ?case by (subst unique_private_alias.simps) simp
qed

text \<open>Aliases with different stems never meet.\<close>

definition stem :: "string \<Rightarrow> string" where
  "stem s = dropWhile (\<lambda>c. c = CHR ''_'') s"

lemma private_alias_stem: "stem (unique_private_alias a reserved) = stem a"
proof (induction a reserved rule: unique_private_alias.induct)
  case (1 a reserved)
  then show ?case by (subst unique_private_alias.simps) (simp add: stem_def)
qed

definition alias_list :: "aliases \<Rightarrow> string list" where
  "alias_list al = [al_builtin al, al_typing al, al_buffer al, al_checking al, al_optional al]"

lemma import_aliases_fresh:
  "distinct (alias_list (import_aliases reserved))" "set (alias_list (import_aliases reserved)) \<inter> set reserved = {}"
proof -
  have "map stem (alias_list (import_aliases reserved)) = [''elisa_builtins'', ''elisa_typing'', ''elisa_buffers'', ''elisa_type_checking'', ''elisa_optional_typing'']"
    unfolding alias_list_def import_aliases_def Let_def by (simp add: private_alias_stem) (simp add: stem_def)
  then have "distinct (map stem (alias_list (import_aliases reserved)))" by simp
  then show "distinct (alias_list (import_aliases reserved))" by (simp add: distinct_map)
  have "unique_private_alias a (reserved @ ys) \<notin> set reserved" for a ys using private_alias_fresh [of a "reserved @ ys"] by simp
  then show "set (alias_list (import_aliases reserved)) \<inter> set reserved = {}"
    by (simp add: alias_list_def import_aliases_def Let_def private_alias_fresh)
qed

definition struct_names :: "(string, string) dict \<Rightarrow> string list" where
  "struct_names known = concat (map (owned_names True) (map snd known))"

lemma set_struct_names_dset: "set (struct_names (dset k v d)) \<subseteq> set (owned_names True v) \<union> set (struct_names d)"
  unfolding dset_def struct_names_def by (induction d) auto

lemma struct_names_dset:
  assumes "distinct (struct_names d)" and "set (owned_names True v) \<inter> set (struct_names d) = {}"
  shows "distinct (struct_names (dset k v d))"
  using assms
proof (induction d)
  case Nil
  then show ?case by (simp add: dset_def struct_names_def owned_names_def)
next
  case (Cons p d)
  obtain l w where p: "p = (l, w)" by (cases p)
  from Cons.prems have ih: "distinct (struct_names (dset k v d))" and dis: "set (owned_names True w) \<inter> set (struct_names d) = {}"
      "distinct (owned_names True w)" "set (owned_names True v) \<inter> set (owned_names True w) = {}" "set (owned_names True v) \<inter> set (struct_names d) = {}" "distinct (struct_names d)"
    using Cons.IH by (auto simp: struct_names_def p)
  show ?case
  proof (cases "l = k")
    case True
    with dis show ?thesis by (simp add: dset_def p struct_names_def) (simp add: owned_names_def)
  next
    case False
    then have "struct_names (dset k v (p # d)) = owned_names True w @ struct_names (dset k v d)" by (simp add: dset_def p struct_names_def)
    with ih dis set_struct_names_dset [of k v d] show ?thesis by auto
  qed
qed

lemma struct_alias_fresh: "set (owned_names True (struct_alias reserved used i name)) \<inter> set (reserved @ used) = {}"
proof -
  have "\<not> taken True (reserved @ used) (struct_alias reserved used i name)"
    by (simp add: struct_alias_def Let_def first_free_not_taken)
  then show ?thesis by (auto simp: taken_def list_ex_iff)
qed

lemma struct_aliases_from_fresh:
  "distinct (struct_names aliases) \<Longrightarrow> set (struct_names aliases) \<subseteq> set used \<Longrightarrow> set used \<inter> set reserved = {} \<Longrightarrow>
     distinct (struct_names (struct_aliases_from reserved i ss aliases used)) \<and> set (struct_names (struct_aliases_from reserved i ss aliases used)) \<inter> set reserved = {}"
proof (induction reserved i ss aliases used rule: struct_aliases_from.induct)
  case (1 reserved i aliases used)
  then show ?case by auto
next
  case (2 reserved i s ss aliases used)
  let ?name = "get_or (st_name s) []"
  let ?a = "struct_alias reserved used i ?name"
  show ?case
  proof (cases "?name = []")
    case True
    with 2 show ?thesis by simp
  next
    case False
    note fresh = struct_alias_fresh [of reserved used i ?name]
    have "distinct (struct_names (dset ?name ?a aliases))" using 2(3,4) fresh by (intro struct_names_dset) auto
    moreover have "set (struct_names (dset ?name ?a aliases)) \<subseteq> set (owned_names True ?a @ used)"
      using set_struct_names_dset [of ?name ?a aliases] 2(4) by auto
    moreover have "set (owned_names True ?a @ used) \<inter> set reserved = {}" using fresh 2(5) by auto
    ultimately show ?thesis using 2(2) [OF refl False refl] False by (simp add: Let_def)
  qed
qed

section \<open>The names a text declares\<close>

text \<open>
  Read off the text: a line that is not blank and not indented declares the name after \<open>class\<close> up to
  the parenthesis, or the name before the assignment.
\<close>

definition declared_name :: "string \<Rightarrow> string" where
  "declared_name line = (if starts_with ''class '' line then takeWhile (\<lambda>c. c \<noteq> CHR ''('') (drop 6 line) else takeWhile (\<lambda>c. c \<noteq> CHR '' '') line)"

definition declarations :: "string list \<Rightarrow> string list" where
  "declarations ls = map declared_name (filter (\<lambda>l. l \<noteq> [] \<and> \<not> starts_with ''    '' l) ls)"

lemma declarations_simps [simp]:
  "declarations [] = []"
  "declarations ([] # ls) = declarations ls"
  "declarations ((''    '' @ t) # ls) = declarations ls"
  "declarations (ks @ ls) = declarations ks @ declarations ls"
  by (simp_all add: declarations_def starts_with_def)

lemma declarations_indented: "(\<And>l. l \<in> set ls \<Longrightarrow> starts_with ''    '' l) \<Longrightarrow> declarations ls = []"
  by (simp add: declarations_def filter_empty_conv)

text \<open>Names of word characters, other than the keyword, are read back.\<close>

definition plain :: "string \<Rightarrow> bool" where
  "plain n \<longleftrightarrow> list_all is_word n \<and> n \<noteq> ''class''"

lemma word_chars: "is_word c \<Longrightarrow> c \<noteq> CHR '' '' \<and> c \<noteq> CHR ''(''"
proof -
  have "\<not> is_word (CHR '' '')" "\<not> is_word (CHR ''('')" by code_simp+
  then show "is_word c \<Longrightarrow> c \<noteq> CHR '' '' \<and> c \<noteq> CHR ''(''" by metis
qed

lemma word_takeWhile:
  "list_all is_word n \<Longrightarrow> takeWhile (\<lambda>c. c \<noteq> CHR ''('') (n @ CHR ''('' # r) = n"
  "list_all is_word n \<Longrightarrow> takeWhile (\<lambda>c. c \<noteq> CHR '' '') (n @ CHR '' '' # r) = n"
  by (induction n) (auto dest: word_chars)

lemma declares_class: "list_all is_word n \<Longrightarrow> declarations ((''class '' @ n @ ''('' @ r) # ls) = n # declarations ls"
  by (simp add: declarations_def declared_name_def starts_with_def word_takeWhile)

lemma declares_assign:
  assumes "plain n"
  shows "declarations ((n @ '' = '' @ r) # ls) = n # declarations ls"
proof -
  have "n = ''class''" if w: "starts_with ''class '' (n @ '' = '' @ r)"
  proof -
    obtain t where "n @ '' = '' @ r = ''class '' @ t" using w unfolding starts_with_iff by blast
    then have "n @ CHR '' '' # (''= '' @ r) = ''class'' @ CHR '' '' # t" by simp
    moreover have "list_all is_word ''class''" by code_simp
    ultimately show ?thesis using word_takeWhile(2) [of n] word_takeWhile(2) [of "''class''"] assms by (metis plain_def)
  qed
  moreover have "\<not> starts_with ''    '' (n @ '' = '' @ r)"
    using assms by (cases n) (auto simp: plain_def starts_with_def dest: word_chars)
  ultimately show ?thesis using assms word_takeWhile(2) [of n "''= '' @ r"] by (auto simp: declarations_def declared_name_def plain_def)
qed

lemma typed_dict_declares: "plain n \<Longrightarrow> declarations (typed_dict_lines ctx n fs) = [n]"
proof -
  assume n: "plain n"
  have "declarations (map (\<lambda>(n, t). ''    '' @ n @ '': '' @ t) fs) = []" by (rule declarations_indented) (auto simp: starts_with_def)
  then show ?thesis using n declares_class [of n "qualified_type_symbol ''TypedDict'' ctx @ ''):''" "map (\<lambda>(n, t). ''    '' @ n @ '': '' @ t) fs"]
      declares_assign [OF n, of "qualified_type_symbol ''TypedDict'' ctx @ ''('' @ py_repr n @ '', {'' @ join '', '' (map (\<lambda>(n, t). py_repr n @ '': '' @ t) fs) @ ''})''" "[]"]
    by (simp add: typed_dict_lines_def plain_def)
qed

section \<open>Payload types\<close>

text \<open>Generated names: word characters, and a capital letter of their own.\<close>

definition payload_name :: "string \<Rightarrow> bool" where
  "payload_name n \<longleftrightarrow> list_all is_word n \<and> CHR ''P'' \<in> set n"

lemma payload_plain: "payload_name n \<Longrightarrow> plain n"
  by (auto simp: payload_name_def plain_def)

lemma show_nat_word: "list_all is_word (show_nat n)"
  using show_base_digits [of n] by (auto simp: show_nat_def list_all_iff is_word_def is_alnum_def is_pydigit_def)

lemma fragment_word: "list_all is_word fallback \<Longrightarrow> list_all is_word (identifier_fragment v fallback)"
  by (auto simp: identifier_fragment_def Let_def list_all_iff is_word_def)

lemma candidate_word: "list_all is_word base \<Longrightarrow> list_all is_word (candidate base k)"
  by (simp add: candidate_def show_nat_word is_word_def)

lemma first_free_candidate: "\<exists>j. first_free struct used base k = candidate base j"
proof (induction struct used base k rule: first_free.induct)
  case (1 struct used base k)
  then show ?case by (subst first_free.simps) auto
qed

text \<open>The names a step declares are new: distinct, and none used before.\<close>

definition adds :: "string list \<Rightarrow> string list \<Rightarrow> string list \<Rightarrow> bool" where
  "adds names used used' \<longleftrightarrow> used' = rev names @ used \<and> distinct names \<and> set names \<inter> set used = {} \<and> list_all payload_name names"

lemma adds_Nil [simp]: "adds [] used used"
  by (simp add: adds_def)

lemma adds_append: "adds ns u v \<Longrightarrow> adds ms v w \<Longrightarrow> adds (ns @ ms) u w"
  by (auto simp: adds_def)

lemma unique_name_adds:
  assumes "unique_generated_name base used = (name, used')" "payload_name base"
  shows "adds [name] used used'"
proof -
  obtain j where j: "first_free False used base 0 = candidate base j" using first_free_candidate by blast
  have "payload_name (candidate base j)" using assms(2) candidate_word [of base j] by (auto simp: payload_name_def candidate_def)
  then show ?thesis using assms(1) j first_free_not_taken [of False used base 0]
    by (auto simp: unique_generated_name_def Let_def adds_def taken_def owned_names_def)
qed

lemma payload_word: "list_all is_word n \<Longrightarrow> payload_name (n @ ''Payload'')"
proof -
  have "list_all is_word ''Payload''" by code_simp
  then show "list_all is_word n \<Longrightarrow> payload_name (n @ ''Payload'')" by (simp add: payload_name_def)
qed

lemma numbered_word: "list_all is_word (''Variant'' @ show_nat i)" "list_all is_word (''Error'' @ show_nat i)" "list_all is_word (''_ElisaStruct_'' @ show_nat i)"
proof -
  have "list_all is_word ''Variant''" "list_all is_word ''Error''" "list_all is_word ''_ElisaStruct_''" by code_simp+
  then show "list_all is_word (''Variant'' @ show_nat i)" "list_all is_word (''Error'' @ show_nat i)" "list_all is_word (''_ElisaStruct_'' @ show_nat i)"
    using show_nat_word [of i] by simp_all
qed

lemma variant_lines_adds:
  "variant_lines known ctx family_id i vs used = (ls, classes, used') \<Longrightarrow> list_all is_word family_id \<Longrightarrow>
     declarations ls = classes \<and> adds classes used used'"
proof (induction known ctx family_id i vs used arbitrary: ls classes used' rule: variant_lines.induct)
  case (2 known ctx family_id i v vs used)
  let ?n = "get_or (vr_name v) (''Variant'' @ show_nat i)"
  let ?id = "identifier_fragment ?n (''Variant'' @ show_nat i)"
  obtain c used1 where c: "unique_generated_name (family_id @ ?id @ ''Payload'') used = (c, used1)" by fastforce
  obtain ls1 cs used2 where r: "variant_lines known ctx family_id (Suc i) vs used1 = (ls1, cs, used2)" by (metis prod.exhaust)
  have "payload_name ((family_id @ ?id) @ ''Payload'')" using 2(3) fragment_word [OF numbered_word(1)] by (intro payload_word) simp
  then have a: "adds [c] used used1" using unique_name_adds [OF c] by simp
  then have "declarations (typed_dict_lines ctx c (variant_fields known ctx ?n v)) = [c]"
    by (intro typed_dict_declares payload_plain) (simp add: adds_def)
  moreover have "declarations ls1 = cs \<and> adds cs used1 used2" using 2(1) [OF refl refl c [symmetric] _ r] 2(3) c by simp
  moreover have "ls = typed_dict_lines ctx c (variant_fields known ctx ?n v) @ [[]] @ ls1" "classes = c # cs" "used' = used2"
    using 2(2) c r by (simp_all add: Let_def)
  ultimately show ?case using adds_append [OF a, of cs used2] by simp
qed simp

lemma payload_step_adds:
  assumes "adds (declarations (pl_lines st)) base (pl_used st)"
  shows "adds (declarations (pl_lines (payload_step known ctx f st))) base (pl_used (payload_step known ctx f st))"
proof (cases "payload_step known ctx f st = st")
  case False
  then obtain family where f: "fn_raises f = Some family"
      "\<not> (fn_payload f \<noteq> Some ''struct'' \<or> family = [] \<or> dget (pl_aliases st) family \<noteq> None \<or> fn_variants f = [])"
    by (auto simp: payload_step_def split: option.splits if_splits)
  let ?id = "identifier_fragment family (''Error'' @ show_nat (length (pl_aliases st)))"
  obtain ls cs used1 where v: "variant_lines known ctx ?id 0 (fn_variants f) (pl_used st) = (ls, cs, used1)" by (metis prod.exhaust)
  obtain a used2 where u: "unique_generated_name (?id @ ''Payload'') used1 = (a, used2)" by fastforce
  have w: "list_all is_word ?id" by (rule fragment_word [OF numbered_word(2)])
  note va = variant_lines_adds [OF v w] and ua = unique_name_adds [OF u payload_word [OF w]]
  have "plain a" using ua by (simp add: adds_def payload_plain)
  then have "declarations [a @ '' = '' @ join '' | '' cs, []] = [a]" using declares_assign [of a "join '' | '' cs" "[[]]"] by simp
  moreover have "payload_step known ctx f st = \<lparr>pl_lines = pl_lines st @ ls @ [a @ '' = '' @ join '' | '' cs, []],
      pl_aliases = dset family a (pl_aliases st), pl_used = used2\<rparr>"
    using f v u by (simp add: payload_step_def Let_def)
  ultimately show ?thesis using adds_append [OF assms adds_append [OF conjunct2 [OF va] ua]] va by simp
qed (use assms in simp)

lemma payload_steps_add:
  "adds (declarations (pl_lines st)) base (pl_used st) \<Longrightarrow>
     adds (declarations (pl_lines (fold (payload_step known ctx) fs st))) base (pl_used (fold (payload_step known ctx) fs st))"
  by (induction fs arbitrary: st) (simp_all add: payload_step_adds)

section \<open>Records\<close>

lemma struct_alias_plain: "plain (struct_alias reserved used i name)"
proof -
  let ?b = "''_ElisaStruct_'' @ show_nat i"
  have n: "plain name" if "ascii_identifier name"
  proof -
    have "list_all is_word name" using that
      by (cases name) (auto simp: ascii_identifier_def is_ascii_letter_def list_all_iff is_word_def is_alnum_def is_alpha_def is_pydigit_def)
    moreover have "iskeyword ''class''" by code_simp
    ultimately show ?thesis using that by (auto simp: plain_def ascii_identifier_def split: list.splits)
  qed
  have c: "plain (candidate ?b k)" for k using candidate_word [OF numbered_word(3)] by (auto simp: plain_def candidate_def)
  have "struct_alias reserved used i name = name \<and> ascii_identifier name \<or> (\<exists>k. struct_alias reserved used i name = candidate ?b k)"
  proof (cases "taken True (reserved @ used) (if ascii_identifier name then name else ?b)")
    case True
    then have "struct_alias reserved used i name = first_free True (reserved @ used) ?b 0" unfolding struct_alias_def Let_def by (simp only: if_True)
    then show ?thesis using first_free_candidate [of True "reserved @ used" ?b 0] by (simp only: simp_thms)
  next
    case False
    then have "struct_alias reserved used i name = (if ascii_identifier name then name else ?b)" unfolding struct_alias_def Let_def by (simp only: if_False)
    moreover have "?b = candidate ?b 0" by (simp add: candidate_def)
    ultimately show ?thesis by (cases "ascii_identifier name") (simp, (simp only: if_False, blast))
  qed
  then show ?thesis using n c by (elim disjE conjE exE) (simp_all only:)
qed

lemma struct_aliases_from_keys:
  "set (dkeys (struct_aliases_from reserved i ss aliases used)) = set (dkeys aliases) \<union> (get_or' ` {s \<in> set ss. get_or' s \<noteq> []})"
  if "get_or' = (\<lambda>s. get_or (st_name s) [])" for get_or'
  using that
  by (induction reserved i ss aliases used rule: struct_aliases_from.induct) (auto simp: Let_def dkeys_dset)

lemma struct_aliases_from_plain:
  "list_all plain (map snd aliases) \<Longrightarrow> distinct (dkeys aliases) \<Longrightarrow>
     list_all plain (map snd (struct_aliases_from reserved i ss aliases used)) \<and> distinct (dkeys (struct_aliases_from reserved i ss aliases used))"
proof (induction reserved i ss aliases used rule: struct_aliases_from.induct)
  case (2 reserved i s ss aliases used)
  have "list_all plain (map snd (dset k a aliases))" if "plain a" for k a
    using 2(3) that unfolding dset_def by (induction aliases) auto
  then show ?case using 2 struct_alias_plain by (auto simp: Let_def dkeys_dset)
qed simp

lemma struct_lines_declare:
  assumes "get_or (st_name s) [] = name" "name \<noteq> []" "dget known name = Some a" "plain a"
  shows "declarations (struct_lines known ctx s) = owned_names True a"
proof -
  let ?fs = "st_fields s"
  have f: "declarations (map (\<lambda>f. ''    '' @ get_or (fd_name f) ''field'' @ '': '' @ record_field_type known ctx f) ?fs) = []"
    "declarations (map (protocol_field_line known ctx) ?fs) = []"
    by (rule declarations_indented; auto simp: protocol_field_line_def Let_def starts_with_def)+
  have "list_all is_word ''Input''" by code_simp
  then have i: "list_all is_word a" "list_all is_word (a @ ''Input'')" using assms(4) by (simp_all add: plain_def)
  have p: "declarations (if b then [] else [''    pass'']) = []" "declarations (if b then [''    pass''] else []) = []" for b
    by (simp_all add: declarations_def starts_with_def)
  show ?thesis
    using assms f p declares_class [OF i(1)] declares_class [OF i(2)] declares_assign [OF assms(4)]
    by (simp add: struct_lines_def Let_def get_or_def owned_names_def)
qed

lemma struct_section_declares:
  "set (declarations (concat (map (struct_lines (struct_aliases d) ctx) (d_structs d)))) = set (struct_names (struct_aliases d))"
proof -
  let ?known = "struct_aliases d" and ?name = "\<lambda>s. get_or (st_name s) []"
  have k: "set (dkeys ?known) = ?name ` {s \<in> set (d_structs d). ?name s \<noteq> []}"
    unfolding struct_aliases_def by (subst struct_aliases_from_keys [OF refl]) (simp add: dkeys_def)
  have p: "list_all plain (map snd ?known)" "distinct (dkeys ?known)"
    using struct_aliases_from_plain [of "[]" "reserved_names d" 0 "d_structs d" "[]"] by (simp_all add: struct_aliases_def dkeys_def)
  have one: "declarations (struct_lines ?known ctx s) = (case dget ?known (?name s) of Some a \<Rightarrow> owned_names True a | None \<Rightarrow> [])" if "s \<in> set (d_structs d)" for s
  proof (cases "?name s = []")
    case True
    then have "dget ?known (?name s) = None" using k by (auto simp: dget_None_conv)
    then show ?thesis using True by (simp add: struct_lines_def)
  next
    case False
    then have "?name s \<in> set (dkeys ?known)" using k that by blast
    then obtain a where a: "dget ?known (?name s) = Some a" unfolding dget_dom [symmetric] by (rule exE)
    then have "plain a" using p(1) dget_in_set [OF a] by (auto simp: list_all_iff)
    then show ?thesis using struct_lines_declare [OF refl False a] a by simp
  qed
  have "set (declarations (concat (map (struct_lines ?known ctx) ss))) = (\<Union>s \<in> set ss. set (declarations (struct_lines ?known ctx s)))" for ss
    by (induction ss) simp_all
  also have "(\<Union>s \<in> set (d_structs d). set (declarations (struct_lines ?known ctx s))) =
      (\<Union>s \<in> set (d_structs d). case dget ?known (?name s) of Some a \<Rightarrow> set (owned_names True a) | None \<Rightarrow> {})"
    using one by (intro SUP_cong) (auto split: option.splits)
  also have "\<dots> = (\<Union>(n, a) \<in> set ?known. set (owned_names True a))"
  proof -
    have "(\<exists>s \<in> set (d_structs d). dget ?known (?name s) = Some a) \<longleftrightarrow> (\<exists>n. (n, a) \<in> set ?known)" for a
    proof
      assume "\<exists>s \<in> set (d_structs d). dget ?known (?name s) = Some a"
      then show "\<exists>n. (n, a) \<in> set ?known" using dget_in_set by fast
    next
      assume "\<exists>n. (n, a) \<in> set ?known"
      then obtain n where n: "(n, a) \<in> set ?known" by blast
      then have "dget ?known n = Some a" using p(2) by (simp add: dget_def dkeys_def)
      moreover have "n \<in> set (dkeys ?known)" using n by (force simp: dkeys_def)
      ultimately show "\<exists>s \<in> set (d_structs d). dget ?known (?name s) = Some a" using k by auto
    qed
    then show ?thesis by (fastforce split: option.splits)
  qed
  also have "\<dots> = set (struct_names ?known)" by (force simp: struct_names_def)
  finally show ?thesis .
qed

section \<open>Import aliases\<close>

lemma private_alias_chars: "set (unique_private_alias a reserved) \<subseteq> insert (CHR ''_'') (set a)"
proof (induction a reserved rule: unique_private_alias.induct)
  case (1 a reserved)
  then show ?case by (subst unique_private_alias.simps) auto
qed

lemma import_aliases_lower: "x \<in> set (alias_list (import_aliases reserved)) \<Longrightarrow> CHR ''P'' \<notin> set x \<and> CHR ''I'' \<notin> set x"
  using private_alias_chars by (fastforce simp: alias_list_def import_aliases_def Let_def)

text \<open>
  C28. The names a stub declares for records, imports and error payloads do not collide, for any
  description. The record section of the text declares exactly the names of the records and of their
  protocols, which are distinct and differ from all names of the module (functions, constants, error
  classes); the five import aliases are distinct and differ from these and from those; and the payload
  section declares distinct names, which differ from all of them. In particular every search for a free
  name ends.
\<close>

theorem stub_names_fresh:
  "let known = struct_aliases d;
       imports = alias_list (import_aliases (all_reserved d));
       records = declarations (concat (map (struct_lines known ctx) (d_structs d)));
       payloads = declarations (pl_lines (render_error_payload_types d known ctx (all_reserved d)))
   in set records = set (struct_names known) \<and> distinct (struct_names known) \<and> set records \<inter> set (reserved_names d) = {} \<and>
      distinct imports \<and> set imports \<inter> (set (reserved_names d) \<union> set records) = {} \<and>
      distinct payloads \<and> set payloads \<inter> (set (reserved_names d) \<union> set records \<union> set imports) = {}"
proof -
  let ?known = "struct_aliases d" and ?imports = "alias_list (import_aliases (all_reserved d))"
  let ?payloads = "render_error_payload_types d ?known ctx (all_reserved d)"
  let ?base = "all_reserved d @ map snd ?known @ map (\<lambda>(_, a). a @ ''Input'') ?known"
  have r: "distinct (struct_names ?known)" "set (struct_names ?known) \<inter> set (reserved_names d) = {}"
    using struct_aliases_from_fresh [of "[]" "[]" "reserved_names d" 0 "d_structs d"] by (simp_all add: struct_aliases_def struct_names_def)
  have b: "set ?base = set (reserved_names d) \<union> set (struct_names ?known)"
    by (force simp: struct_names_def owned_names_def all_reserved_def)
  have p: "adds (declarations (pl_lines ?payloads)) ?base (pl_used ?payloads)"
    unfolding render_error_payload_types_def by (rule payload_steps_add) simp
  have "set ?imports \<inter> set (struct_names ?known) = {}"
    using import_aliases_fresh(2) [of "all_reserved d"] import_aliases_lower [of _ "all_reserved d"]
    by (fastforce simp: struct_names_def owned_names_def all_reserved_def)
  moreover have "set (declarations (pl_lines ?payloads)) \<inter> set ?imports = {}"
    using p import_aliases_lower [of _ "all_reserved d"] by (force simp: adds_def list_all_iff payload_name_def)
  ultimately show ?thesis
    using r b p struct_section_declares [of d ctx] import_aliases_fresh [of "all_reserved d"]
    by (auto simp: Let_def adds_def all_reserved_def)
qed

end
