(* ===== verification/PyFloat.thy ===== *)
theory PyFloat
  imports Complex_Main Prelude
begin

text \<open>
  Python floats: the doubles of IEEE 754, a finite one as an integer times a power of two, with the
  operations the scripts use. A result is the exact one rounded to 53 significant bits, ties to
  even, with gradual underflow and overflow to infinity. The sign of zero is not kept: no operation
  here can tell.
\<close>

section \<open>Values\<close>

datatype pyfloat = Fin int int | PInf | NInf | NaN

fun isfinite :: "pyfloat \<Rightarrow> bool" where
  "isfinite (Fin m e) \<longleftrightarrow> True"
| "isfinite _ \<longleftrightarrow> False"

text \<open>\<open>int.bit_length\<close>.\<close>

fun bitlen :: "nat \<Rightarrow> nat" where
  "bitlen n = (if n = 0 then 0 else Suc (bitlen (n div 2)))"

declare bitlen.simps [simp del]

text \<open>An integer divided by a power of two, to the nearest integer, ties to even.\<close>

definition half_even :: "int \<Rightarrow> nat \<Rightarrow> int" where
  "half_even M k = (let d = 2 ^ k; q = M div d; r = M mod d in if 2 * r < d \<or> 2 * r = d \<and> even q then q else q + 1)"

text \<open>How many of the last bits of \<open>M\<close> times \<open>2 ^ E\<close> are too many: beyond the 53rd, or below the smallest double.\<close>

definition surplus :: "int \<Rightarrow> int \<Rightarrow> int" where
  "surplus M E = max (int (bitlen (nat \<bar>M\<bar>)) - 53) (- 1074 - E)"

text \<open>The double for \<open>M\<close> times \<open>2 ^ E\<close>.\<close>

definition fround :: "int \<Rightarrow> int \<Rightarrow> pyfloat" where
  "fround M E = (let k = surplus M E; m = (if k \<le> 0 then M else half_even M (nat k)); e = (if k \<le> 0 then E else E + k) in
     if m = 0 then Fin 0 0
     else if 1024 < int (bitlen (nat \<bar>m\<bar>)) + e then (if m < 0 then NInf else PInf)
     else Fin m e)"

text \<open>The same length on integers, for evaluation.\<close>

function int_bits :: "int \<Rightarrow> int" where
  "int_bits i = (if i \<le> 0 then 0 else int_bits (i div 2) + 1)"
  by auto

termination
  by (relation "measure nat") auto

declare int_bits.simps [simp del]

lemma bitlen_int_bits: "int (bitlen n) = int_bits (int n)"
proof (induction n rule: bitlen.induct)
  case (1 n)
  then show ?case by (cases "n = 0") (simp_all add: bitlen.simps [of n] bitlen.simps [of 0] int_bits.simps [of "int n"] int_bits.simps [of 0] of_nat_div)
qed

lemma bits_code:
  "surplus M E = max (int_bits \<bar>M\<bar> - 53) (- 1074 - E)"
  "fround M E = (let k = surplus M E; m = (if k \<le> 0 then M else half_even M (nat k)); e = (if k \<le> 0 then E else E + k) in
     if m = 0 then Fin 0 0
     else if 1024 < int_bits \<bar>m\<bar> + e then (if m < 0 then NInf else PInf)
     else Fin m e)"
  by (simp_all add: surplus_def bitlen_int_bits) (simp add: fround_def surplus_def bitlen_int_bits Let_def)

declare bits_code [code]

section \<open>Operations\<close>

text \<open>\<open>float(n)\<close> of an integer raises where the nearest double is infinite.\<close>

definition float_of_int :: "int \<Rightarrow> pyfloat result" where
  "float_of_int n = (let x = fround n 0 in if isfinite x then Inr x else Inl OverflowError)"

text \<open>Two integers of a common exponent.\<close>

definition aligned :: "int \<Rightarrow> int \<Rightarrow> int \<Rightarrow> int" where
  "aligned m e g = m * 2 ^ nat (e - g)"

definition fsub :: "pyfloat \<Rightarrow> pyfloat \<Rightarrow> pyfloat" where
  "fsub x y = (case (x, y) of
     (Fin a e, Fin b f) \<Rightarrow> let g = min e f in fround (aligned a e g - aligned b f g) g
   | (Fin a e, PInf) \<Rightarrow> NInf
   | (Fin a e, NInf) \<Rightarrow> PInf
   | (PInf, Fin b f) \<Rightarrow> PInf
   | (PInf, NInf) \<Rightarrow> PInf
   | (NInf, Fin b f) \<Rightarrow> NInf
   | (NInf, PInf) \<Rightarrow> NInf
   | _ \<Rightarrow> NaN)"

text \<open>Infinite factors do not occur.\<close>

definition fmul :: "pyfloat \<Rightarrow> pyfloat \<Rightarrow> pyfloat" where
  "fmul x y = (case (x, y) of (Fin a e, Fin b f) \<Rightarrow> fround (a * b) (e + f) | _ \<Rightarrow> NaN)"

text \<open>The quotient by a divisor other than zero: 66 bits more than the divisor has, and a last bit for the remainder.\<close>

definition fdiv :: "pyfloat \<Rightarrow> pyfloat \<Rightarrow> pyfloat" where
  "fdiv x y = (case (x, y) of
     (Fin a e, Fin b f) \<Rightarrow> let s = 66 + bitlen (nat \<bar>b\<bar>); n = \<bar>a\<bar> * 2 ^ s;
       q = 2 * (n div \<bar>b\<bar>) + (if n mod \<bar>b\<bar> = 0 then 0 else 1) in
       fround (sgn a * sgn b * q) (e - f - int s - 1)
   | _ \<Rightarrow> NaN)"

definition fabs :: "pyfloat \<Rightarrow> pyfloat" where
  "fabs x = (case x of Fin a e \<Rightarrow> Fin \<bar>a\<bar> e | NInf \<Rightarrow> PInf | _ \<Rightarrow> x)"

definition fle :: "pyfloat \<Rightarrow> pyfloat \<Rightarrow> bool" where
  "fle x y = (case (x, y) of
     (Fin a e, Fin b f) \<Rightarrow> let g = min e f in aligned a e g \<le> aligned b f g
   | (NaN, _) \<Rightarrow> False
   | (_, NaN) \<Rightarrow> False
   | (NInf, _) \<Rightarrow> True
   | (_, PInf) \<Rightarrow> True
   | _ \<Rightarrow> False)"

definition feq :: "pyfloat \<Rightarrow> pyfloat \<Rightarrow> bool" where
  "feq x y \<longleftrightarrow> fle x y \<and> fle y x"

definition flt :: "pyfloat \<Rightarrow> pyfloat \<Rightarrow> bool" where
  "flt x y \<longleftrightarrow> fle x y \<and> \<not> fle y x"

text \<open>\<open>min(x, y)\<close>: the second only when it is smaller.\<close>

definition fmin :: "pyfloat \<Rightarrow> pyfloat \<Rightarrow> pyfloat" where
  "fmin x y = (if flt y x then y else x)"

abbreviation fzero :: pyfloat where
  "fzero \<equiv> Fin 0 0"

section \<open>Exact values\<close>

fun f_val :: "pyfloat \<Rightarrow> real" where
  "f_val (Fin m e) = of_int m * 2 powi e"
| "f_val _ = 0"

text \<open>The finite doubles.\<close>

fun is_double :: "pyfloat \<Rightarrow> bool" where
  "is_double (Fin m e) \<longleftrightarrow> \<bar>m\<bar> \<le> 2 ^ 53 \<and> - 1074 \<le> e"
| "is_double _ \<longleftrightarrow> True"

lemma aligned_val: "g \<le> e \<Longrightarrow> of_int (aligned m e g) * 2 powi g = (of_int m * 2 powi e :: real)"
proof -
  assume "g \<le> e"
  then have "(2::real) powi e = 2 ^ nat (e - g) * 2 powi g"
    by (simp flip: power_int_of_nat power_int_add)
  then show ?thesis by (simp add: aligned_def)
qed

lemma fle_val: "isfinite x \<Longrightarrow> isfinite y \<Longrightarrow> fle x y \<longleftrightarrow> f_val x \<le> f_val y"
proof (cases x; cases y)
  fix a e b f assume x: "x = Fin a e" and y: "y = Fin b f"
  let ?g = "min e f"
  have "fle x y \<longleftrightarrow> of_int (aligned a e ?g) * 2 powi ?g \<le> (of_int (aligned b f ?g) * 2 powi ?g :: real)"
    by (simp add: fle_def x y Let_def)
  then show ?thesis by (simp only: aligned_val min.cobounded1 min.cobounded2 x y f_val.simps)
qed simp_all

lemma fle_refl [simp]: "x \<noteq> NaN \<Longrightarrow> fle x x"
  by (cases x) (simp_all add: fle_def)

lemma bitlen_bounds: "n < 2 ^ bitlen n \<and> (0 < n \<longrightarrow> 2 ^ (bitlen n - 1) \<le> n)"
proof (induction n rule: bitlen.induct)
  case (1 n)
  show ?case
  proof (cases "n \<le> 1")
    case True
    then show ?thesis by (cases n) (auto simp: bitlen.simps)
  next
    case False
    then have b: "bitlen n = Suc (bitlen (n div 2))" "0 < n div 2" by (simp_all add: bitlen.simps [of n])
    then have p: "0 < bitlen (n div 2)" by (simp add: bitlen.simps [of "n div 2"])
    have "n div 2 < 2 ^ bitlen (n div 2)" "2 ^ (bitlen (n div 2) - 1) \<le> n div 2" using 1 b False by auto
    moreover have "(2::nat) ^ bitlen (n div 2) = 2 * 2 ^ (bitlen (n div 2) - 1)" using p by (simp flip: power_Suc)
    ultimately have "n < 2 * 2 ^ bitlen (n div 2)" "2 ^ bitlen (n div 2) \<le> n" by linarith+
    then show ?thesis using b by simp
  qed
qed

lemma half_even_floor: "half_even M k = M div 2 ^ k \<or> half_even M k = M div 2 ^ k + 1 \<and> M mod 2 ^ k \<noteq> 0"
proof -
  have "(0::int) < 2 ^ k" by simp
  then show ?thesis by (auto simp: half_even_def Let_def)
qed

lemma half_even_ge: "c * 2 ^ k \<le> M \<Longrightarrow> c \<le> half_even M k"
proof -
  assume "c * 2 ^ k \<le> M"
  then have "c * 2 ^ k div 2 ^ k \<le> M div 2 ^ k" by (intro zdiv_mono1) simp_all
  then show ?thesis using half_even_floor [of M k] by auto
qed

lemma div_pow_less: "M < c * 2 ^ k \<Longrightarrow> M div 2 ^ k < (c::int)"
proof (rule ccontr)
  assume a: "M < c * 2 ^ k" "\<not> M div 2 ^ k < c"
  then have "c * 2 ^ k \<le> M div 2 ^ k * 2 ^ k" by (intro mult_right_mono) simp_all
  also have "\<dots> \<le> M" using minus_mod_eq_div_mult [of M "2 ^ k"] pos_mod_sign [of "2 ^ k" M] by (simp flip: minus_mod_eq_div_mult)
  finally show False using a(1) by simp
qed

lemma half_even_le: "M \<le> c * 2 ^ k \<Longrightarrow> half_even M k \<le> c"
proof -
  assume a: "M \<le> c * 2 ^ k"
  have "M div 2 ^ k < c" if "M mod 2 ^ k \<noteq> 0"
  proof -
    have "M \<noteq> c * 2 ^ k" using that by auto
    then have "M < c * 2 ^ k" using a by simp
    then show ?thesis by (rule div_pow_less)
  qed
  moreover have "M div 2 ^ k \<le> c" using zdiv_mono1 [OF a, of "2 ^ k"] by simp
  ultimately show ?thesis using half_even_floor [of M k] by auto
qed

lemma abs_bitlen: "\<bar>M\<bar> < 2 ^ bitlen (nat \<bar>M\<bar>)"
proof -
  have "nat \<bar>M\<bar> < 2 ^ bitlen (nat \<bar>M\<bar>)" using bitlen_bounds by blast
  then show ?thesis by (metis nat_less_numeral_power_cancel_iff)
qed

text \<open>Rounding stays among the doubles.\<close>

lemma half_even_small:
  assumes "0 < surplus M E"
  shows "\<bar>half_even M (nat (surplus M E))\<bar> \<le> 2 ^ 53"
proof -
  let ?k = "nat (surplus M E)"
  have "bitlen (nat \<bar>M\<bar>) \<le> 53 + ?k" using assms by (simp add: surplus_def)
  then have "(2::int) ^ bitlen (nat \<bar>M\<bar>) \<le> 2 ^ (53 + ?k)" by (intro power_increasing) simp_all
  then have "\<bar>M\<bar> \<le> 2 ^ 53 * 2 ^ ?k" using abs_bitlen [of M] by (simp only: power_add)
  then have "M \<le> 2 ^ 53 * 2 ^ ?k" "(- (2 ^ 53)) * 2 ^ ?k \<le> M" by linarith+
  from half_even_le [OF this(1)] half_even_ge [OF this(2)] have "half_even M ?k \<le> 2 ^ 53" "- (2 ^ 53) \<le> half_even M ?k" .
  then show ?thesis by linarith
qed

lemma exact_small: "surplus M E \<le> 0 \<Longrightarrow> \<bar>M\<bar> \<le> 2 ^ 53 \<and> - 1074 \<le> E"
proof -
  assume "surplus M E \<le> 0"
  then have b: "bitlen (nat \<bar>M\<bar>) \<le> 53" "- 1074 \<le> E" by (auto simp: surplus_def)
  have "(2::int) ^ bitlen (nat \<bar>M\<bar>) \<le> 2 ^ 53" using b(1) by (intro power_increasing) simp_all
  then show ?thesis using abs_bitlen [of M] b(2) by linarith
qed

lemma fround_double: "is_double (fround M E)"
proof (cases "surplus M E \<le> 0")
  case True
  then show ?thesis using exact_small [OF True] by (simp add: fround_def Let_def)
next
  case False
  have "- 1074 \<le> E + surplus M E" by (simp add: surplus_def)
  then show ?thesis using half_even_small [of M E] False by (simp add: fround_def Let_def)
qed

lemma pow_split: "e \<le> f \<Longrightarrow> (2::real) powi f = 2 ^ nat (f - e) * 2 powi e"
  using aligned_val [of e f 1] by (simp add: aligned_def)

lemma powi_pos: "0 < (of_int m * 2 powi e :: real) \<Longrightarrow> 0 < m"
  by (drule zero_less_mult_pos2) simp_all

text \<open>Rounding a positive number does not take it below a double that it reaches, and not above one that it does not exceed.\<close>

lemma fround_reaches:
  assumes "is_double (Fin m e)" "0 < m" "of_int m * 2 powi e \<le> (of_int M * 2 powi E :: real)"
  shows "fle (Fin m e) (fround M E)"
proof -
  let ?k = "surplus M E"
  let ?r = "half_even M (nat ?k)"
  have "0 < (of_int M * 2 powi E :: real)" using assms(2,3) by (intro less_le_trans [OF _ assms(3)]) simp
  then have M: "0 < M" by (rule powi_pos)
  have r: "of_int m * 2 powi e \<le> (of_int ?r * 2 powi (E + ?k) :: real)" if k: "0 < ?k"
  proof (cases "E + ?k \<le> e")
    case True
    let ?c = "aligned m e (E + ?k)"
    have "of_int (?c * 2 ^ nat ?k) * 2 powi E = (of_int m * 2 powi e :: real)"
      using aligned_val [OF True, of m] pow_split [of E "E + ?k"] k by simp
    then have "?c * 2 ^ nat ?k \<le> M" using assms(3) by (metis mult_le_cancel_right_pos of_int_le_iff zero_less_numeral zero_less_power_int)
    then have "?c \<le> ?r" by (rule half_even_ge)
    then have "of_int ?c * 2 powi (E + ?k) \<le> (of_int ?r * 2 powi (E + ?k) :: real)" by simp
    then show ?thesis by (simp only: aligned_val [OF True])
  next
    case False
    then have b: "?k = int (bitlen (nat \<bar>M\<bar>)) - 53" using assms(1) by (auto simp: surplus_def)
    have "2 ^ (bitlen (nat \<bar>M\<bar>) - 1) \<le> nat \<bar>M\<bar>" using bitlen_bounds [of "nat \<bar>M\<bar>"] M by simp
    moreover have "bitlen (nat \<bar>M\<bar>) - 1 = 52 + nat ?k" using b k by linarith
    ultimately have "2 ^ (52 + nat ?k) \<le> nat \<bar>M\<bar>" by simp
    then have "2 ^ (52 + nat ?k) \<le> M" using M by (metis abs_of_pos numeral_power_le_nat_cancel_iff)
    then have "2 ^ 52 \<le> ?r" by (intro half_even_ge) (simp add: power_add)
    then have "(2::real) ^ 52 * 2 powi (E + ?k) \<le> of_int ?r * 2 powi (E + ?k)"
      by (intro mult_right_mono) (simp_all flip: of_int_power)
    moreover have "of_int m * 2 powi e \<le> (2::real) ^ 53 * 2 powi e"
    proof (intro mult_right_mono)
      have "m \<le> 2 ^ 53" using assms(1) abs_le_iff [of m "2 ^ 53"] by simp
      then show "of_int m \<le> (2::real) ^ 53" by (simp flip: of_int_power)
    qed simp
    moreover have "(2::real) ^ 53 * 2 powi e \<le> 2 ^ 52 * 2 powi (E + ?k)"
    proof -
      have "2 powi (e + 1) \<le> (2::real) powi (E + ?k)" using False by (intro power_int_increasing) auto
      then show ?thesis by (simp add: power_int_add_1)
    qed
    ultimately show ?thesis by linarith
  qed
  show ?thesis
  proof (cases "?k \<le> 0")
    case True
    then have "fround M E = PInf \<or> fround M E = Fin M E" using M by (simp add: fround_def Let_def)
    then show ?thesis using assms(3) fle_val [of "Fin m e" "Fin M E"] by (auto simp: fle_def)
  next
    case False
    have "0 < (of_int ?r * 2 powi (E + ?k) :: real)" using r False assms(2) by (intro less_le_trans [OF _ r]) auto
    then have "0 < ?r" by (rule powi_pos)
    then have "fround M E = PInf \<or> fround M E = Fin ?r (E + ?k)" using False by (simp add: fround_def Let_def)
    then show ?thesis using r False fle_val [of "Fin m e" "Fin ?r (E + ?k)"] by (auto simp: fle_def)
  qed
qed

lemma fsub_reaches:
  assumes "isfinite x" "isfinite y" "isfinite d" "is_double d" "0 < f_val d" "f_val d \<le> f_val x - f_val y"
  shows "fle d (fsub x y)"
proof -
  obtain a e b f m h where s: "x = Fin a e" "y = Fin b f" "d = Fin m h" using assms(1-3) by (cases x; cases y; cases d) auto
  let ?g = "min e f"
  have "of_int (aligned a e ?g - aligned b f ?g) * 2 powi ?g = f_val x - f_val y"
    by (simp add: s left_diff_distrib aligned_val del: of_int_mult)
  moreover have "0 < m" using assms(5) powi_pos by (simp add: s)
  ultimately show ?thesis using fround_reaches [of m h "aligned a e ?g - aligned b f ?g" ?g] assms(4,6)
    by (simp add: s fsub_def Let_def)
qed

text \<open>Rounding a number that is not tiny adds at most one part in \<open>2 ^ 53\<close>.\<close>

lemma half_even_above: "2 * (half_even M k * 2 ^ k) \<le> 2 * M + 2 ^ k"
proof -
  let ?d = "(2::int) ^ k"
  have s: "M div ?d * ?d + M mod ?d = M" "0 \<le> M mod ?d" "0 < ?d" by (simp_all add: div_mult_mod_eq)
  have up: "q * d + r = M \<Longrightarrow> d \<le> 2 * r \<Longrightarrow> 2 * ((q + 1) * d) \<le> 2 * M + d" for q d r :: int
    by (simp add: distrib_right)
  have "2 * ((M div ?d + 1) * ?d) \<le> 2 * M + ?d" if "?d \<le> 2 * (M mod ?d)"
    using up [OF s(1) that] .
  moreover have "q * d + r = M \<Longrightarrow> 0 \<le> r \<Longrightarrow> 0 < d \<Longrightarrow> 2 * (q * d) \<le> 2 * M + d" for q d r :: int by simp
  from this [OF s] have "2 * (M div ?d * ?d) \<le> 2 * M + ?d" .
  ultimately show ?thesis by (auto simp: half_even_def Let_def)
qed

definition rounded :: "int \<Rightarrow> int \<Rightarrow> int \<times> int" where
  "rounded M E = (let k = surplus M E in if k \<le> 0 then (M, E) else (half_even M (nat k), E + k))"

lemma fround_rounded:
  "fround M E = (case rounded M E of (m, e) \<Rightarrow>
     if m = 0 then Fin 0 0 else if 1024 < int (bitlen (nat \<bar>m\<bar>)) + e then (if m < 0 then NInf else PInf) else Fin m e)"
  by (cases "surplus M E \<le> 0") (simp_all add: fround_def rounded_def Let_def)

lemma surplus_normal:
  assumes "2 powi (- 1000) \<le> (of_int M * 2 powi E :: real)" "0 < surplus M E"
  shows "2 ^ 52 * 2 ^ nat (surplus M E) \<le> M"
proof -
  let ?b = "bitlen (nat \<bar>M\<bar>)" and ?k = "nat (surplus M E)"
  have "0 < (of_int M * 2 powi E :: real)" by (rule less_le_trans [OF _ assms(1)]) simp
  then have M: "0 < M" by (rule powi_pos)
  have "real_of_int M < 2 ^ ?b" using abs_bitlen [of M] M of_int_less_iff [where 'a = real, of M "2 ^ ?b"] by simp
  then have "of_int M * 2 powi E < (2::real) ^ ?b * 2 powi E" by (rule mult_strict_right_mono) simp
  also have "\<dots> = 2 powi (int ?b + E)" by (simp add: power_int_add)
  finally have "(2::real) powi (- 1000) < 2 powi (int ?b + E)" using assms(1) by linarith
  then have "- 1000 < int ?b + E" using power_int_increasing [of "int ?b + E" "- 1000" "2::real"] by linarith
  then have "surplus M E = int ?b - 53" using assms(2) unfolding surplus_def by linarith
  then have "?b - 1 = 52 + ?k" using assms(2) by linarith
  moreover have "2 ^ (?b - 1) \<le> nat \<bar>M\<bar>" using bitlen_bounds [of "nat \<bar>M\<bar>"] M by simp
  ultimately have "2 ^ (52 + ?k) \<le> nat \<bar>M\<bar>" by (simp only:)
  then have "2 ^ (52 + ?k) \<le> M" using M by (metis abs_of_pos numeral_power_le_nat_cancel_iff)
  then show ?thesis by (simp only: power_add)
qed

lemma rounded_above:
  assumes "rounded M E = (m, e)" "2 powi (- 1000) \<le> (of_int M * 2 powi E :: real)"
  shows "of_int m * 2 powi e \<le> of_int M * 2 powi E * (1 + 1 / 2 ^ 53 :: real)"
proof (cases "surplus M E \<le> 0")
  case True
  have "0 < (of_int M * 2 powi E :: real)" by (rule less_le_trans [OF _ assms(2)]) simp
  then show ?thesis using assms(1) True by (simp add: rounded_def distrib_left)
next
  case False
  let ?k = "nat (surplus M E)"
  have low: "2 ^ 52 * 2 ^ ?k \<le> M" using surplus_normal [OF assms(2)] False by simp
  have v: "of_int m * 2 powi e = (of_int (half_even M ?k * 2 ^ ?k) * 2 powi E :: real)"
    using assms(1) False pow_split [of E "E + surplus M E"] by (auto simp: rounded_def Let_def)
  have "half_even M ?k * 2 ^ ?k * 2 ^ 53 \<le> M * (2 ^ 53 + 1)" using half_even_above [of M ?k] low by simp
  then have "real_of_int (half_even M ?k * 2 ^ ?k * 2 ^ 53) \<le> of_int (M * (2 ^ 53 + 1))" by (simp only: of_int_le_iff)
  then have "real_of_int (half_even M ?k * 2 ^ ?k) \<le> of_int M * (1 + 1 / 2 ^ 53)" by (simp add: field_simps)
  then have "real_of_int (half_even M ?k * 2 ^ ?k) * 2 powi E \<le> of_int M * (1 + 1 / 2 ^ 53) * 2 powi E" by (rule mult_right_mono) simp
  then show ?thesis unfolding v by (simp only: ac_simps)
qed

text \<open>The least number beyond the doubles.\<close>

definition OVERFLOW :: real where
  "OVERFLOW = 2 powi 1024"

lemma fround_above:
  assumes "fle d (fround M E)" "isfinite d" "2 powi (- 1000) \<le> (of_int M * 2 powi E :: real)"
    and "of_int M * 2 powi E * (1 + 1 / 2 ^ 53) < OVERFLOW"
  shows "f_val d \<le> of_int M * 2 powi E * (1 + 1 / 2 ^ 53)"
proof -
  obtain m e where r: "rounded M E = (m, e)" by fastforce
  note a = rounded_above [OF r assms(3)]
  have "0 < (of_int M * 2 powi E :: real)" by (rule less_le_trans [OF _ assms(3)]) simp
  then have p: "0 \<le> of_int M * 2 powi E * (1 + 1 / 2 ^ 53 :: real)" by (simp add: distrib_left)
  show ?thesis
  proof (cases "0 < m \<and> 1024 < int (bitlen (nat \<bar>m\<bar>)) + e")
    case True
    then have "2 ^ (bitlen (nat \<bar>m\<bar>) - 1) \<le> m" using bitlen_bounds [of "nat \<bar>m\<bar>"] by (metis abs_of_pos numeral_power_le_nat_cancel_iff zero_less_nat_eq)
    then have "(2::real) ^ (bitlen (nat \<bar>m\<bar>) - 1) \<le> of_int m"
      using of_int_le_iff [where 'a = real, of "2 ^ (bitlen (nat \<bar>m\<bar>) - 1)" m] by simp
    then have "(2::real) ^ (bitlen (nat \<bar>m\<bar>) - 1) * 2 powi e \<le> of_int m * 2 powi e" by (rule mult_right_mono) simp
    moreover have "(2::real) powi 1024 \<le> 2 powi (int (bitlen (nat \<bar>m\<bar>) - 1) + e)" using True by (intro power_int_increasing) auto
    moreover have "(2::real) powi (int (bitlen (nat \<bar>m\<bar>) - 1) + e) = 2 ^ (bitlen (nat \<bar>m\<bar>) - 1) * 2 powi e" by (simp add: power_int_add)
    ultimately have "OVERFLOW \<le> of_int m * 2 powi e" unfolding OVERFLOW_def by linarith
    then show ?thesis using a assms(4) by linarith
  next
    case False
    then have "fround M E = Fin 0 0 \<or> fround M E = NInf \<or> fround M E = Fin m e" by (auto simp: fround_rounded r split: if_splits)
    then show ?thesis using assms(1,2) fle_val [of d "Fin 0 0"] fle_val [of d "Fin m e"] a p by (cases d) (auto simp: fle_def)
  qed
qed

lemma fround_nonneg: "0 \<le> M \<Longrightarrow> fle fzero (fround M E)"
proof -
  assume "0 \<le> M"
  then have "0 \<le> (if surplus M E \<le> 0 then M else half_even M (nat (surplus M E)))" using half_even_ge [of 0 "nat (surplus M E)" M] by simp
  then show ?thesis using fle_val [of fzero "Fin _ _"] by (auto simp: fround_def Let_def fle_def aligned_def)
qed

lemma fround_finite_bound:
  assumes "fround M E = Fin m e"
  shows "of_int m * 2 powi e < OVERFLOW"
proof (cases "m \<le> 0")
  case True
  then have "of_int m * 2 powi e \<le> (0::real)" by (simp add: mult_nonpos_nonneg)
  then show ?thesis by (rule le_less_trans) (simp add: OVERFLOW_def)
next
  case False
  then have b: "int (bitlen (nat \<bar>m\<bar>)) + e \<le> 1024" using assms by (auto simp: fround_rounded split: prod.splits if_splits)
  have "real_of_int m < 2 ^ bitlen (nat \<bar>m\<bar>)" using abs_bitlen [of m] False of_int_less_iff [where 'a = real, of m "2 ^ bitlen (nat \<bar>m\<bar>)"] by simp
  then have "of_int m * 2 powi e < (2::real) ^ bitlen (nat \<bar>m\<bar>) * 2 powi e" by (rule mult_strict_right_mono) simp
  also have "\<dots> = 2 powi (int (bitlen (nat \<bar>m\<bar>)) + e)" by (simp add: power_int_add)
  also have "\<dots> \<le> OVERFLOW" unfolding OVERFLOW_def using b by (intro power_int_increasing) auto
  finally show ?thesis .
qed

end
