(* ===== verification/LoadGate.thy ===== *)
theory LoadGate
  imports PyFloat PyText "HOL-Library.Code_Target_Nat"
begin

text \<open>
  The load admission of the benchmark harness, \<open>scripts/bench_load_gate.py\<close>: how many CPUs a run
  may count on, the check of the load against a fifth of them, and the wait for a window of time in
  which every sample passes. What the process sees of the host is an argument, one record for each
  sample; the qualification is its decoded JSON. Messages are kept without the values formatted
  into them, and what is written to the output directory is a list of file names with records.
\<close>

section \<open>The host\<close>

datatype gval = GNull | GBool bool | GInt int | GFloat pyfloat | GStr string | GList "gval list" | GObj "(string \<times> gval) list"

definition gget :: "string \<Rightarrow> gval \<Rightarrow> gval" where
  "gget k v = (case v of GObj kvs \<Rightarrow> (case dget kvs k of Some x \<Rightarrow> x | None \<Rightarrow> GNull) | _ \<Rightarrow> GNull)"

definition has_key :: "string \<Rightarrow> gval \<Rightarrow> bool" where
  "has_key k v = (case v of GObj kvs \<Rightarrow> dget kvs k \<noteq> None | _ \<Rightarrow> False)"

definition gfloat :: "pyfloat option \<Rightarrow> gval" where
  "gfloat x = (case x of Some f \<Rightarrow> GFloat f | None \<Rightarrow> GNull)"

text \<open>
  One look at the host. A quota file and its period file are numbered by the source they belong to,
  since each is read anew. Reading the qualification raises, or gives a text that decodes to a value or
  (\<open>None\<close>) is not JSON. \<open>h_disk\<close> says which writes fail.
\<close>

record host =
  h_machine :: string
  h_affinity :: "int list result"
  h_cgroup :: "string result"
  h_mountinfo :: "string result"
  h_self_ns :: "string result"
  h_init_ns :: "string result"
  h_text :: "nat \<Rightarrow> string \<Rightarrow> string result"
  h_cpus :: "int option"
  h_qualification :: "gval option result"
  h_loadavg :: "(pyfloat \<times> pyfloat \<times> pyfloat) option"
  h_clock :: pyfloat
  h_epoch :: pyfloat
  h_disk :: "string \<Rightarrow> py_exn option"

definition gate :: "bool \<Rightarrow> string \<Rightarrow> unit result" where
  "gate b msg = (if b then Inr () else Inl (LoadGateError msg))"

definition refused :: "(py_exn \<Rightarrow> bool) \<Rightarrow> string \<Rightarrow> 'a result \<Rightarrow> 'a result" where
  "refused P msg m = (case m of Inl e \<Rightarrow> if P e then Inl (LoadGateError msg) else Inl e | Inr x \<Rightarrow> Inr x)"

lemma gate_Inr [simp]: "gate b msg = Inr u \<longleftrightarrow> b"
  by (simp add: gate_def)

lemma refused_Inr [simp]: "refused P msg m = Inr x \<longleftrightarrow> m = Inr x"
  by (auto simp: refused_def split: sum.splits if_splits)

section \<open>CPU entitlement\<close>

definition the_int :: "gval \<Rightarrow> int" where
  "the_int v = (case v of GInt n \<Rightarrow> n | _ \<Rightarrow> 0)"

definition is_int :: "gval \<Rightarrow> bool" where
  "is_int v = (case v of GInt _ \<Rightarrow> True | _ \<Rightarrow> False)"

definition live_affinity :: "host \<Rightarrow> gval \<Rightarrow> int list result" where
  "live_affinity h q =
     rbind (gate (gget ''machine'' q = GStr ''x86_64'' \<and> h_machine h = ''x86_64'') ''Linux benchmark host architecture changed or is unqualified'') (\<lambda>_.
     rbind (refused (\<lambda>e. e = AttributeError \<or> is_os_error e) ''could not read current Linux CPU affinity'' (h_affinity h)) (\<lambda>ids.
     let allowed = sort (remdups ids) in
     case (gget ''allowed_cpu_count'' q, gget ''allowed_cpu_ids'' q) of
       (GInt n, GList vs) \<Rightarrow>
         rbind (gate (list_all is_int vs \<and> int (length vs) = n \<and> distinct vs) ''Linux host qualification is missing a valid CPU affinity set'') (\<lambda>_.
         rbind (gate (int (length allowed) = n \<and> allowed = sort (map the_int vs)) ''current Linux affinity set differs from qualified set'') (\<lambda>_.
         rbind (gate (64 \<le> length allowed) ''current Linux affinity permits too few CPUs'') (\<lambda>_.
         Inr allowed)))
     | _ \<Rightarrow> Inl (LoadGateError ''Linux host qualification is missing a valid CPU affinity set'')))"

text \<open>The identity of the control group; \<open>sha\<close> is SHA-256.\<close>

definition namespace_is :: "gval \<Rightarrow> string \<Rightarrow> string \<Rightarrow> bool" where
  "namespace_is v self init = (case v of GObj kvs \<Rightarrow> dict_eq kvs [(''self'', GStr self), (''init'', GStr init)] | _ \<Rightarrow> False)"

definition live_cgroup :: "(string \<Rightarrow> string) \<Rightarrow> host \<Rightarrow> gval \<Rightarrow> (string, gval) dict result" where
  "live_cgroup sha h q =
     rbind (refused is_os_error ''could not revalidate current Linux cgroup identity''
       (rbind (h_cgroup h) (\<lambda>c. rbind (h_mountinfo h) (\<lambda>m. rbind (h_self_ns h) (\<lambda>s. rbind (h_init_ns h) (\<lambda>i. Inr (splitlines c, m, s, i))))))) (\<lambda>(lines, m, s, i).
     rbind (gate (gget ''cgroup_membership_lines'' q = GList (map GStr lines)) ''current Linux cgroup membership differs from host qualification'') (\<lambda>_.
     rbind (gate (gget ''cgroup_mountinfo_sha256'' q = GStr (sha m)) ''current Linux cgroup mount layout differs from host qualification'') (\<lambda>_.
     rbind (gate (namespace_is (gget ''cgroup_namespace'' q) s i) ''current Linux cgroup namespace differs from host qualification'') (\<lambda>_.
     rbind (gate (s = i) ''Linux benchmark process is in a hidden cgroup namespace'') (\<lambda>_.
     Inr [(''live_cgroup_membership_lines'', GList (map GStr lines)), (''live_cgroup_mountinfo_sha256'', GStr (sha m)),
       (''live_cgroup_namespace'', GObj [(''self'', GStr s), (''init'', GStr i)])])))))"

text \<open>A quota: a number of microseconds for each period, or none.\<close>

datatype quota = Quota int | Unlimited

definition py_int :: "string \<Rightarrow> int result" where
  "py_int s = (case py_int10 s of Some n \<Rightarrow> Inr n | None \<Rightarrow> Inl (ValueError ''invalid literal for int() with base 10''))"

text \<open>\<open>str(v)\<close>, for a path.\<close>

definition gstr :: "gval \<Rightarrow> string result" where
  "gstr v = (case v of GStr s \<Rightarrow> Inr s | GInt n \<Rightarrow> Inr (show_int n) | GBool b \<Rightarrow> Inr (if b then ''True'' else ''False'') | GNull \<Rightarrow> Inr ''None'' | _ \<Rightarrow> Inl Unmodelled)"

definition read_quota :: "host \<Rightarrow> nat \<Rightarrow> gval \<Rightarrow> string \<Rightarrow> (quota \<times> int) result" where
  "read_quota h i source path =
     (if has_key ''period_path'' source then
        rbind (rbind (h_text h (2 * i) path) py_int) (\<lambda>quota.
        rbind (rbind (gstr (gget ''period_path'' source)) (\<lambda>p. rbind (h_text h (2 * i + 1) p) py_int)) (\<lambda>period.
        Inr (Quota quota, period)))
      else rbind (h_text h (2 * i) path) (\<lambda>text. case split_ws text of
          quota # period # _ \<Rightarrow>
            rbind (if quota = ''max'' then Inr Unlimited else rmap Quota (py_int quota)) (\<lambda>quota. rmap (Pair quota) (py_int period))
        | _ \<Rightarrow> Inl (ValueError ''not enough values to unpack'')))"

text \<open>\<open>==\<close> of a number or \<open>max\<close> with a recorded value; an integer and a float are compared exactly.\<close>

definition quota_eq :: "quota \<Rightarrow> gval \<Rightarrow> bool" where
  "quota_eq q v = (case (q, v) of
     (Quota i, GInt j) \<Rightarrow> i = j
   | (Quota i, GFloat f) \<Rightarrow> feq (Fin i 0) f
   | (Unlimited, GStr s) \<Rightarrow> s = ''max''
   | _ \<Rightarrow> False)"

definition TOLERANCE :: pyfloat where
  "TOLERANCE = Fin 4951760157141521 (- 92)"

text \<open>Whether a recorded capacity agrees with a computed one.\<close>

definition near :: "pyfloat \<Rightarrow> gval \<Rightarrow> bool result" where
  "near c v = (case v of
     GInt n \<Rightarrow> rmap (\<lambda>x. \<not> flt TOLERANCE (fabs (fsub c x))) (float_of_int n)
   | GFloat x \<Rightarrow> Inr (isfinite x \<and> \<not> flt TOLERANCE (fabs (fsub c x)))
   | _ \<Rightarrow> Inr False)"

definition agrees :: "pyfloat option \<Rightarrow> gval \<Rightarrow> string \<Rightarrow> unit result" where
  "agrees c v msg = (case c of None \<Rightarrow> gate (v = GNull) msg | Some x \<Rightarrow> rbind (near x v) (\<lambda>b. gate b msg))"

definition reading_error :: "py_exn \<Rightarrow> bool" where
  "reading_error e = (is_os_error e \<or> (case e of ValueError _ \<Rightarrow> True | IndexError \<Rightarrow> True | TypeError \<Rightarrow> True | _ \<Rightarrow> False))"

definition quota_cpus :: "quota \<Rightarrow> int \<Rightarrow> pyfloat option result" where
  "quota_cpus q period = (case q of
     Unlimited \<Rightarrow> Inr None
   | Quota n \<Rightarrow> if n < 0 then Inr None else rbind (float_of_int n) (\<lambda>x. rmap (\<lambda>y. Some (fdiv x y)) (float_of_int period)))"

definition quota_value :: "quota \<Rightarrow> gval" where
  "quota_value q = (case q of Quota n \<Rightarrow> GInt n | Unlimited \<Rightarrow> GStr ''max'')"

definition live_source :: "host \<Rightarrow> nat \<Rightarrow> gval \<Rightarrow> (pyfloat option \<times> gval) result" where
  "live_source h i source = (case source of
     GObj _ \<Rightarrow> (case gget ''quota_path'' source of
       GStr path \<Rightarrow>
         if path = [] then Inl (LoadGateError ''Linux cgroup quota source has no quota path'')
         else rbind (refused reading_error ''could not re-read Linux CPU quota'' (read_quota h i source path)) (\<lambda>(quota, period).
           rbind (gate (quota_eq quota (gget ''quota'' source)) ''Linux CPU quota changed since qualification'') (\<lambda>_.
           rbind (gate (quota_eq (Quota period) (gget ''period'' source) \<and> 0 < period) ''Linux CPU quota period changed or became invalid'') (\<lambda>_.
           rbind (quota_cpus quota period) (\<lambda>cpus.
           rbind (agrees cpus (gget ''cpus'' source) ''Linux CPU quota capacity provenance changed'') (\<lambda>_.
           Inr (cpus, GObj [(''quota_path'', GStr path), (''quota'', quota_value quota), (''period'', GInt period), (''cpus'', gfloat cpus)]))))))
     | _ \<Rightarrow> Inl (LoadGateError ''Linux cgroup quota source has no quota path''))
   | _ \<Rightarrow> Inl (LoadGateError ''Linux cgroup quota source is malformed''))"

fun live_sources :: "host \<Rightarrow> nat \<Rightarrow> gval list \<Rightarrow> (pyfloat option \<times> gval) list result" where
  "live_sources h i [] = Inr []"
| "live_sources h i (s # ss) = rbind (live_source h i s) (\<lambda>x. rbind (live_sources h (Suc i) ss) (\<lambda>xs. Inr (x # xs)))"

definition least_quota :: "pyfloat option list \<Rightarrow> pyfloat option" where
  "least_quota qs = (case [x. Some x \<leftarrow> qs] of [] \<Rightarrow> None | x # xs \<Rightarrow> Some (foldl fmin x xs))"

definition live_linux_capacity :: "(string \<Rightarrow> string) \<Rightarrow> host \<Rightarrow> gval \<Rightarrow> (nat \<times> pyfloat option \<times> (string, gval) dict) result" where
  "live_linux_capacity sha h q =
     rbind (live_affinity h q) (\<lambda>ids.
     rbind (live_cgroup sha h q) (\<lambda>cgroup.
     case gget ''cgroup_quota_sources'' q of
       GList (s # ss) \<Rightarrow>
         rbind (live_sources h 0 (s # ss)) (\<lambda>found.
         let effective = least_quota (map fst found) in
         rbind (agrees effective (gget ''effective_cgroup_cpu_quota'' q) ''Linux effective CPU quota differs from host qualification'') (\<lambda>_.
         rbind (gate (case effective of Some x \<Rightarrow> \<not> flt x (Fin 64 0) | None \<Rightarrow> True) ''current Linux cgroup quota permits too few CPUs'') (\<lambda>_.
         Inr (length ids, effective,
           [(''live_allowed_cpu_count'', GInt (int (length ids))), (''live_allowed_cpu_ids'', GList (map GInt ids)),
            (''live_cgroup_cpu_quota'', gfloat effective), (''live_cgroup_quota_sources'', GList (map snd found))] @ cgroup))))
     | _ \<Rightarrow> Inl (LoadGateError ''Linux host qualification has no cgroup quota provenance'')))"

section \<open>Capacity\<close>

definition load_average :: "host \<Rightarrow> pyfloat option list" where
  "load_average h = (case h_loadavg h of Some (a, b, c) \<Rightarrow> [Some a, Some b, Some c] | None \<Rightarrow> [None, None, None])"

definition first_load :: "pyfloat option list \<Rightarrow> pyfloat option" where
  "first_load ls = (case ls of [] \<Rightarrow> None | x # _ \<Rightarrow> x)"

definition nth_load :: "nat \<Rightarrow> pyfloat option list \<Rightarrow> pyfloat option" where
  "nth_load n ls = (if n < length ls then ls ! n else None)"

text \<open>
  Only an \<open>OSError\<close> of the read and a \<open>JSONDecodeError\<close> become a \<open>LoadGateError\<close>: a text
  that is not UTF-8 raises another \<open>ValueError\<close>, which escapes.
\<close>

definition read_qualification :: "host \<Rightarrow> gval result" where
  "read_qualification h =
     rbind (refused is_os_error ''could not read Linux host qualification'' (h_qualification h)) (\<lambda>q.
     case q of
       None \<Rightarrow> Inl (LoadGateError ''could not read Linux host qualification'')
     | Some (GObj kvs) \<Rightarrow> (let q = GObj kvs in
         rbind (gate ((case gget ''system'' q of GStr s \<Rightarrow> lower s = ''linux'' | _ \<Rightarrow> False) \<and> gget ''qualified'' q = GBool True)
           ''Linux host qualification is missing or failed'') (\<lambda>_. Inr q))
     | Some _ \<Rightarrow> Inl (LoadGateError ''Linux host qualification is not a JSON object''))"

text \<open>The quota that the qualification recorded, when there is one.\<close>

definition recorded_quota :: "gval \<Rightarrow> pyfloat option result" where
  "recorded_quota v =
     (if v = GNull then Inr None
      else rbind (case v of GInt n \<Rightarrow> float_of_int n | GFloat x \<Rightarrow> Inr x | _ \<Rightarrow> Inl (LoadGateError ''Linux host qualification has an invalid cgroup CPU quota'')) (\<lambda>x.
        rbind (gate (isfinite x \<and> \<not> fle x fzero) ''Linux host qualification has an invalid cgroup CPU quota'') (\<lambda>_.
        rbind (gate (\<not> flt x (Fin 64 0)) ''Linux host qualification permits too few cgroup CPUs'') (\<lambda>_.
        Inr (Some x)))))"

definition least_candidate :: "pyfloat \<Rightarrow> pyfloat option \<Rightarrow> pyfloat" where
  "least_candidate x q = (case q of None \<Rightarrow> x | Some y \<Rightarrow> fmin x y)"

definition recorded_capacity :: "gval \<Rightarrow> (string, gval) dict \<Rightarrow> (pyfloat option \<times> (string, gval) dict) result" where
  "recorded_capacity q details = (case gget ''allowed_cpu_count'' q of
     GInt n \<Rightarrow>
       rbind (gate (0 < n) ''Linux host qualification has an invalid affinity CPU count'') (\<lambda>_.
       rbind (gate (64 \<le> n) ''Linux host qualification permits too few affinity CPUs'') (\<lambda>_.
       rbind (float_of_int n) (\<lambda>x.
       rbind (recorded_quota (gget ''effective_cgroup_cpu_quota'' q)) (\<lambda>quota.
       let counted = dset ''allowed_cpu_count'' (GInt n) details in
       Inr (Some (least_candidate x quota), case quota of None \<Rightarrow> counted | Some y \<Rightarrow> dset ''cgroup_cpu_quota'' (GFloat y) counted)))))
   | _ \<Rightarrow> Inl (LoadGateError ''Linux host qualification has an invalid affinity CPU count''))"

definition dict_update :: "('k, 'v) dict \<Rightarrow> ('k, 'v) dict \<Rightarrow> ('k, 'v) dict" where
  "dict_update new d = fold (\<lambda>(k, v). dset k v) new d"

definition live_capacity :: "(string \<Rightarrow> string) \<Rightarrow> host \<Rightarrow> gval \<Rightarrow> (string, gval) dict \<Rightarrow> (pyfloat option \<times> (string, gval) dict) result" where
  "live_capacity sha h q details =
     rbind (live_linux_capacity sha h q) (\<lambda>(allowed, quota, live).
     rbind (float_of_int (int allowed)) (\<lambda>x.
     Inr (Some (least_candidate x quota),
       dset ''cgroup_cpu_quota'' (gfloat quota) (dset ''allowed_cpu_count'' (GInt (int allowed)) (dict_update live details)))))"

definition effective_cpu_capacity :: "(string \<Rightarrow> string) \<Rightarrow> host \<Rightarrow> string \<Rightarrow> bool \<Rightarrow> (pyfloat option \<times> (string, gval) dict) result" where
  "effective_cpu_capacity sha h system require_live_linux =
     (let key = lower system;
          details = [(''system'', GStr system), (''logical_cpu_count'', case h_cpus h of Some n \<Rightarrow> GInt n | None \<Rightarrow> GNull),
            (''allowed_cpu_count'', GNull), (''cgroup_cpu_quota'', GNull)] in
      if key = ''darwin'' then (case h_cpus h of
          Some n \<Rightarrow> if 0 < n then rmap (\<lambda>x. (Some x, details)) (float_of_int n) else Inr (None, details)
        | None \<Rightarrow> Inr (None, details))
      else if key \<noteq> ''linux'' then Inr (None, details)
      else rbind (read_qualification h) (\<lambda>q.
        if require_live_linux then live_capacity sha h q details else recorded_capacity q details))"

section \<open>The check\<close>

definition LOAD_FRACTION :: pyfloat where
  "LOAD_FRACTION = Fin 3602879701896397 (- 54)"

definition load_limit :: "pyfloat option \<Rightarrow> pyfloat option" where
  "load_limit capacity = map_option (fmul LOAD_FRACTION) capacity"

definition gate_passed :: "pyfloat option \<Rightarrow> pyfloat option \<Rightarrow> bool" where
  "gate_passed capacity load1 = (case (capacity, load1) of
     (Some c, Some l) \<Rightarrow> isfinite c \<and> flt fzero c \<and> isfinite l \<and> fle l (fmul LOAD_FRACTION c)
   | _ \<Rightarrow> False)"

text \<open>What was measured: the capacity, its details and the message when there is none.\<close>

definition measured :: "(string \<Rightarrow> string) \<Rightarrow> host \<Rightarrow> string \<Rightarrow> bool \<Rightarrow> (pyfloat option \<times> (string, gval) dict \<times> string option) result" where
  "measured sha h system live = (case effective_cpu_capacity sha h system live of
     Inl (LoadGateError msg) \<Rightarrow> Inr (None, [(''system'', GStr system)], Some msg)
   | Inl e \<Rightarrow> Inl e
   | Inr (c, details) \<Rightarrow> Inr (c, details, None))"

definition load_record :: "pyfloat option list \<Rightarrow> pyfloat option \<Rightarrow> (string, gval) dict" where
  "load_record load capacity = [(''load1'', gfloat (first_load load)), (''load5'', gfloat (nth_load 1 load)), (''load15'', gfloat (nth_load 2 load)),
     (''effective_cpu_capacity'', gfloat capacity), (''load1_limit'', gfloat (load_limit capacity)), (''passed'', GBool (gate_passed capacity (first_load load)))]"

definition with_error :: "string option \<Rightarrow> (string, gval) dict \<Rightarrow> (string, gval) dict" where
  "with_error msg d = (case msg of None \<Rightarrow> d | Some e \<Rightarrow> dset ''capacity_error'' (GStr e) d)"

type_synonym written = "(string \<times> gval) list"

definition write_file :: "host \<Rightarrow> string \<Rightarrow> gval \<Rightarrow> written \<Rightarrow> unit result \<times> written" where
  "write_file h name content out = (case h_disk h name of Some e \<Rightarrow> (Inl e, out) | None \<Rightarrow> (Inr (), out @ [(name, content)]))"

definition raise_after :: "host \<Rightarrow> string \<Rightarrow> written \<Rightarrow> 'a result \<times> written" where
  "raise_after h reason out = (case write_file h ''ABORTED.txt'' (GStr reason) out of
     (Inl e, out) \<Rightarrow> (Inl e, out)
   | (Inr _, out) \<Rightarrow> (Inl (LoadGateError reason), out))"

definition check_load_gate :: "(string \<Rightarrow> string) \<Rightarrow> host \<Rightarrow> pyfloat option list \<Rightarrow> string \<Rightarrow> string \<Rightarrow> bool \<Rightarrow> bool \<Rightarrow> (string, gval) dict result \<times> written" where
  "check_load_gate sha h load stage system preflight live = (case measured sha h system live of
     Inl e \<Rightarrow> (Inl e, [])
   | Inr (capacity, details, capacity_error) \<Rightarrow>
       (let record = with_error capacity_error (dict_update ((''stage'', GStr stage) # load_record load capacity) details) in
        case write_file h (if preflight then ''preflight_load_admission.json'' else ''load_gate_checks.jsonl'') (GObj record) [] of
          (Inl e, out) \<Rightarrow> (Inl e, out)
        | (Inr _, out) \<Rightarrow>
            if gate_passed capacity (first_load load) then (Inr record, out)
            else raise_after h (case capacity_error of Some e \<Rightarrow> e | None \<Rightarrow> ''load1 exceeds its limit or is unavailable'') out))"

definition gate_main :: "(string \<Rightarrow> string) \<Rightarrow> host \<Rightarrow> string list \<Rightarrow> int result \<times> written" where
  "gate_main sha h arguments =
     (if length arguments \<notin> {4, 5} \<or> arguments ! 0 \<noteq> ''preflight'' \<or> length arguments = 5 \<and> arguments ! 4 \<noteq> ''--require-live'' then (Inr 2, [])
      else (case check_load_gate sha h (load_average h) ''before benchmark preflight builds'' (arguments ! 3) True (length arguments = 5) of
          (Inl (LoadGateError _), out) \<Rightarrow> (Inr 2, out)
        | (Inl e, out) \<Rightarrow> (Inl e, out)
        | (Inr _, out) \<Rightarrow> (Inr 0, out)))"

section \<open>The wait\<close>

record wait_args =
  wa_system :: string
  wa_stage :: string
  wa_stable :: pyfloat
  wa_interval :: pyfloat
  wa_max :: pyfloat
  wa_live :: bool

record wait_state =
  ws_previous :: "pyfloat option"
  ws_stable :: "pyfloat option"
  ws_count :: nat
  ws_sleeps :: "pyfloat list"
  ws_out :: written

definition positive :: "pyfloat \<Rightarrow> bool" where
  "positive x \<longleftrightarrow> isfinite x \<and> \<not> fle x fzero"

definition valid_args :: "wait_args \<Rightarrow> bool" where
  "valid_args a \<longleftrightarrow> positive (wa_stable a) \<and> positive (wa_interval a) \<and> positive (wa_max a)"

definition gap :: "wait_args \<Rightarrow> pyfloat \<Rightarrow> pyfloat \<Rightarrow> bool" where
  "gap a previous sampled \<longleftrightarrow> flt (fmul (wa_interval a) (Fin 3 (- 1))) (fsub sampled previous)"

text \<open>The start of the stable window after a sample.\<close>

definition window_after :: "wait_args \<Rightarrow> bool \<Rightarrow> pyfloat \<Rightarrow> wait_state \<Rightarrow> pyfloat option" where
  "window_after a passed sampled st =
     (let kept = (case ws_previous st of Some p \<Rightarrow> if gap a p sampled then None else ws_stable st | None \<Rightarrow> ws_stable st) in
      if passed then (case kept of None \<Rightarrow> Some sampled | Some t \<Rightarrow> Some t) else None)"

definition stable_for :: "pyfloat \<Rightarrow> pyfloat option \<Rightarrow> pyfloat" where
  "stable_for sampled since = (case since of Some t \<Rightarrow> fsub sampled t | None \<Rightarrow> fzero)"

definition sample_record :: "wait_args \<Rightarrow> host \<Rightarrow> nat \<Rightarrow> pyfloat option \<Rightarrow> (string, gval) dict \<Rightarrow> string option \<Rightarrow> pyfloat \<Rightarrow> bool \<Rightarrow> (string, gval) dict" where
  "sample_record a h count capacity details capacity_error steady sustained =
     with_error capacity_error (dict_update ([(''stage'', GStr (wa_stage a)), (''sample_number'', GInt (int count)), (''sampled_at_epoch_seconds'', GFloat (h_epoch h))] @
       load_record (load_average h) capacity @
       [(''consecutive_below_limit_seconds'', GFloat steady), (''required_stable_seconds'', GFloat (wa_stable a)),
        (''sample_interval_seconds'', GFloat (wa_interval a)), (''sustained_gate_passed'', GBool sustained)]) details)"

definition summary_record :: "wait_args \<Rightarrow> nat \<Rightarrow> pyfloat \<Rightarrow> (string, gval) dict \<Rightarrow> (string, gval) dict" where
  "summary_record a count elapsed record =
     dict_update [(''sample_count'', GInt (int count)), (''waited_seconds'', GFloat elapsed), (''max_wait_seconds'', GFloat (wa_max a))] record"

text \<open>What follows a sample: the summary, an error, or (\<open>None\<close>) a sleep and another sample.\<close>

definition after_sample :: "wait_args \<Rightarrow> host \<Rightarrow> pyfloat \<Rightarrow> pyfloat option \<Rightarrow> string option \<Rightarrow> bool \<Rightarrow> (string, gval) dict \<Rightarrow> wait_state \<Rightarrow>
    (string, gval) dict result option \<times> wait_state" where
  "after_sample a h elapsed capacity capacity_error sustained record st =
     (if sustained then
        (let summary = summary_record a (ws_count st) elapsed record in
         case write_file h ''load_gate_sustained_admission.json'' (GObj summary) (ws_out st) of
           (Inl e, out) \<Rightarrow> (Some (Inl e), st\<lparr>ws_out := out\<rparr>)
         | (Inr _, out) \<Rightarrow> (Some (Inr summary), st\<lparr>ws_out := out\<rparr>))
      else if capacity_error \<noteq> None \<or> capacity = None then
        (case raise_after h (case capacity_error of Some e \<Rightarrow> e | None \<Rightarrow> ''effective CPU capacity is unavailable'') (ws_out st) of
           (r, out) \<Rightarrow> (Some r, st\<lparr>ws_out := out\<rparr>))
      else if fle (wa_max a) elapsed then
        (case raise_after h ''no qualifying window'' (ws_out st) of (r, out) \<Rightarrow> (Some r, st\<lparr>ws_out := out\<rparr>))
      else
        (let nap = fmin (wa_interval a) (fsub (wa_max a) elapsed); st = st\<lparr>ws_previous := Some (h_clock h)\<rparr> in
         if flt nap fzero then (Some (Inl (ValueError ''sleep length must be non-negative'')), st)
         else (None, st\<lparr>ws_sleeps := ws_sleeps st @ [nap]\<rparr>)))"

definition wait_sample :: "(string \<Rightarrow> string) \<Rightarrow> wait_args \<Rightarrow> pyfloat \<Rightarrow> host \<Rightarrow> wait_state \<Rightarrow> (string, gval) dict result option \<times> wait_state" where
  "wait_sample sha a started h st = (case measured sha h (wa_system a) (wa_live a) of
     Inl e \<Rightarrow> (Some (Inl e), st)
   | Inr (capacity, details, capacity_error) \<Rightarrow>
       (let sampled = h_clock h;
            passed = gate_passed capacity (first_load (load_average h));
            since = window_after a passed sampled st;
            steady = stable_for sampled since;
            count = Suc (ws_count st);
            elapsed = fsub sampled started;
            sustained = (passed \<and> fle (wa_stable a) steady \<and> fle elapsed (wa_max a));
            record = sample_record a h count capacity details capacity_error steady sustained;
            st = st\<lparr>ws_stable := since, ws_count := count\<rparr> in
        case write_file h ''load_gate_sustained_admission.jsonl'' (GObj record) (ws_out st) of
          (Inl e, out) \<Rightarrow> (Some (Inl e), st)
        | (Inr _, out) \<Rightarrow> after_sample a h elapsed capacity capacity_error sustained record (st\<lparr>ws_out := out\<rparr>)))"

partial_function (option) wait_from ::
    "(string \<Rightarrow> string) \<Rightarrow> wait_args \<Rightarrow> pyfloat \<Rightarrow> (nat \<Rightarrow> host) \<Rightarrow> nat \<Rightarrow> wait_state \<Rightarrow> ((string, gval) dict result \<times> wait_state) option" where
  [code]: "wait_from sha a started obs n st = (case wait_sample sha a started (obs n) st of
     (Some r, st) \<Rightarrow> Some (r, st)
   | (None, st) \<Rightarrow> wait_from sha a started obs (Suc n) st)"

definition first_state :: wait_state where
  "first_state = \<lparr>ws_previous = None, ws_stable = None, ws_count = 0, ws_sleeps = [], ws_out = []\<rparr>"

text \<open>\<open>start\<close> is the host when the call starts, \<open>obs n\<close> at sample \<open>n\<close>.\<close>

definition wait_for_sustained_load_gate :: "(string \<Rightarrow> string) \<Rightarrow> wait_args \<Rightarrow> host \<Rightarrow> (nat \<Rightarrow> host) \<Rightarrow> ((string, gval) dict result \<times> wait_state) option" where
  "wait_for_sustained_load_gate sha a start obs =
     (if \<not> valid_args a then Some (Inl (ValueError ''sustained load gate durations must be finite and positive''), first_state)
      else (case h_disk start ''.'' of
          Some e \<Rightarrow> Some (Inl e, first_state)
        | None \<Rightarrow> wait_from sha a (h_clock start) obs 0 first_state))"

section \<open>Enough CPUs\<close>

text \<open>What the capacities compared against have in common.\<close>

definition ample :: "pyfloat \<Rightarrow> bool" where
  "ample x \<longleftrightarrow> isfinite x \<and> fle (Fin 64 0) x"

lemma float_of_int_ample: "float_of_int n = Inr x \<Longrightarrow> 64 \<le> n \<Longrightarrow> ample x"
  using fround_reaches [of 64 0 n 0] by (auto simp: float_of_int_def Let_def ample_def split: if_splits)

lemma not_less_ample: "isfinite x \<Longrightarrow> \<not> flt x (Fin 64 0) \<Longrightarrow> ample x"
  using fle_val [of x "Fin 64 0"] fle_val [of "Fin 64 0" x] by (auto simp: flt_def ample_def)

lemma least_candidate_ample:
  assumes "ample x" "\<And>y. q = Some y \<Longrightarrow> ample y" "f_val x < OVERFLOW"
  shows "ample (least_candidate x q) \<and> f_val (least_candidate x q) < OVERFLOW"
proof (cases q)
  case (Some y)
  then have "flt y x \<Longrightarrow> f_val y \<le> f_val x" using assms(1,2) fle_val [of y x] by (simp add: flt_def ample_def)
  then show ?thesis using assms Some by (auto simp: least_candidate_def fmin_def)
qed (simp add: least_candidate_def assms)

lemma fround_not_NaN: "fround M E \<noteq> NaN"
  by (simp add: fround_def Let_def)

lemma float_of_int_finite: "float_of_int n = Inr x \<Longrightarrow> isfinite x"
  by (auto simp: float_of_int_def Let_def split: if_splits)

lemma float_of_int_bound: "float_of_int n = Inr x \<Longrightarrow> f_val x < OVERFLOW"
  using fround_finite_bound [of n 0] by (cases x) (auto simp: float_of_int_def Let_def split: if_splits)

text \<open>A computed quota that agrees with a recorded one is finite.\<close>

lemma near_finite: "near c v = Inr True \<Longrightarrow> c \<noteq> NaN \<Longrightarrow> isfinite c"
proof -
  assume a: "near c v = Inr True" "c \<noteq> NaN"
  then obtain x where "isfinite x" "\<not> flt TOLERANCE (fabs (fsub c x))"
    by (auto simp: near_def rmap_Inr dest: float_of_int_finite split: gval.splits)
  then show ?thesis using a(2) by (cases c; cases x) (auto simp: fsub_def fabs_def flt_def fle_def TOLERANCE_def)
qed

lemma quota_cpus_not_NaN: "quota_cpus q p = Inr (Some x) \<Longrightarrow> x \<noteq> NaN"
proof -
  assume "quota_cpus q p = Inr (Some x)"
  then obtain a b where "isfinite a" "isfinite b" "x = fdiv a b"
    unfolding quota_cpus_def rmap_Inr using float_of_int_finite by (fastforce simp: rmap_Inr split: quota.splits if_splits)
  then show ?thesis by (cases a; cases b) (auto simp: fdiv_def Let_def fround_not_NaN)
qed

lemma agrees_finite: "agrees (Some x) v msg = Inr u \<Longrightarrow> x \<noteq> NaN \<Longrightarrow> isfinite x"
  using near_finite by (auto simp: agrees_def)

lemma live_sources_finite: "live_sources h i ss = Inr found \<Longrightarrow> Some x \<in> fst ` set found \<Longrightarrow> isfinite x"
proof (induction ss arbitrary: i found)
  case (Cons s ss)
  obtain y g ys where f: "live_source h i s = Inr (y, g)" "live_sources h (Suc i) ss = Inr ys" "found = (y, g) # ys"
    using Cons.prems(1) by auto
  have "isfinite x" if "y = Some x"
    using f(1) that agrees_finite quota_cpus_not_NaN by (auto simp: live_source_def split: gval.splits if_splits)
  then show ?case using Cons.IH [OF f(2)] Cons.prems(2) f(3) by auto
qed simp

lemma foldl_fmin: "foldl fmin x xs \<in> set (x # xs)"
  by (induction xs arbitrary: x) (auto simp: fmin_def)

lemma least_quota_in: "least_quota qs = Some x \<Longrightarrow> Some x \<in> set qs"
proof -
  assume a: "least_quota qs = Some x"
  then obtain y ys where l: "[x. Some x \<leftarrow> qs] = y # ys" "x = foldl fmin y ys"
    by (auto simp: least_quota_def split: list.splits)
  have "x \<in> set [x. Some x \<leftarrow> qs]" using foldl_fmin [of y ys] by (simp add: l)
  then show ?thesis by (auto split: option.splits)
qed

lemma live_linux_ample:
  assumes "live_linux_capacity sha h q = Inr (n, quota, d)"
  shows "64 \<le> n \<and> (\<forall>x. quota = Some x \<longrightarrow> ample x)"
proof -
  obtain ids cg s ss found where l: "live_affinity h q = Inr ids" "live_sources h 0 (s # ss) = Inr found" "n = length ids"
    "quota = least_quota (map fst found)" "case quota of Some x \<Rightarrow> \<not> flt x (Fin 64 0) | None \<Rightarrow> True"
    using assms unfolding live_linux_capacity_def Let_def by (auto split: gval.splits list.splits simp del: live_sources.simps)
  have "64 \<le> n" using l(1,3) by (auto simp: live_affinity_def Let_def split: gval.splits)
  moreover have "ample x" if x: "quota = Some x" for x
  proof (rule not_less_ample)
    have "Some x \<in> fst ` set found" using least_quota_in [of "map fst found" x] x l(4) by simp
    then show "isfinite x" by (rule live_sources_finite [OF l(2)])
    show "\<not> flt x (Fin 64 0)" using l(5) x by simp
  qed
  ultimately show ?thesis by blast
qed

lemma recorded_quota_ample: "recorded_quota v = Inr (Some x) \<Longrightarrow> ample x"
  using not_less_ample by (auto simp: recorded_quota_def split: if_splits)

lemma linux_capacity:
  assumes "lower system = ''linux''" "effective_cpu_capacity sha h system live = Inr (c, d)"
  shows "\<exists>x. c = Some x \<and> ample x \<and> f_val x < OVERFLOW"
proof -
  have "\<exists>q dd. live_capacity sha h q dd = Inr (c, d) \<or> recorded_capacity q dd = Inr (c, d)"
    using assms unfolding effective_cpu_capacity_def Let_def by (auto split: if_splits) blast+
  then consider q dd where "live_capacity sha h q dd = Inr (c, d)" | q dd where "recorded_capacity q dd = Inr (c, d)" by blast
  then show ?thesis
  proof cases
    case 1
    then obtain n quota l x where "live_linux_capacity sha h q = Inr (n, quota, l)" "float_of_int (int n) = Inr x" "c = Some (least_candidate x quota)"
      by (auto simp: live_capacity_def)
    then show ?thesis using live_linux_ample float_of_int_ample [of "int n" x] least_candidate_ample [of x quota] float_of_int_bound by auto
  next
    case 2
    then obtain n quota x where "64 \<le> n" "float_of_int n = Inr x" "recorded_quota (gget ''effective_cgroup_cpu_quota'' q) = Inr quota" "c = Some (least_candidate x quota)"
      by (auto simp: recorded_capacity_def Let_def split: gval.splits)
    then show ?thesis using float_of_int_ample [of n x] recorded_quota_ample least_candidate_ample [of x quota] float_of_int_bound [of n x] by blast
  qed
qed

text \<open>
  C39. On Linux every capacity that is reported, from the recorded qualification or from the live
  host, is a finite number of at least 64 CPUs: a host that grants fewer, by affinity or by quota,
  is refused with an error instead.
\<close>

theorem linux_capacity_ample:
  assumes "lower system = ''linux''" "effective_cpu_capacity sha h system live = Inr (c, d)"
  shows "\<exists>x. c = Some x \<and> isfinite x \<and> fle (Fin 64 0) x"
  using linux_capacity [OF assms] by (auto simp: ample_def)
section \<open>The verdict\<close>

lemma dget_dict_update: "dget (dict_update new d) k = (case dget (rev new) k of Some v \<Rightarrow> Some v | None \<Rightarrow> dget d k)"
proof (induction new arbitrary: d)
  case (Cons x new)
  obtain j v where x: "x = (j, v)" by fastforce
  have "dget (dict_update (x # new) d) k = dget (dict_update new (dset j v d)) k" by (simp add: dict_update_def x)
  also have "\<dots> = (case dget (rev new) k of Some u \<Rightarrow> Some u | None \<Rightarrow> if k = j then Some v else dget d k)" by (simp only: Cons.IH dict_laws)
  also have "\<dots> = (case dget (rev (x # new)) k of Some u \<Rightarrow> Some u | None \<Rightarrow> dget d k)"
    by (simp add: dget_def x map_add_def split: option.split)
  finally show ?case .
qed (simp add: dict_update_def)

text \<open>A capacity that is reported at all, on any system, is a finite number of at least one CPU.\<close>

lemma capacity_range:
  assumes "effective_cpu_capacity sha h system live = Inr (Some c, d)"
  shows "isfinite c \<and> 1 \<le> f_val c \<and> f_val c < OVERFLOW"
proof (cases "lower system = ''linux''")
  case True
  then show ?thesis using linux_capacity [OF True assms] fle_val [of "Fin 64 0" c] by (auto simp: ample_def)
next
  case False
  then obtain n where n: "0 < n" "float_of_int n = Inr c"
    using assms by (auto simp: effective_cpu_capacity_def Let_def rmap_Inr split: if_splits option.splits)
  then have "fle (Fin 1 0) c" using fround_reaches [of 1 0 n 0] by (auto simp: float_of_int_def Let_def split: if_splits)
  then show ?thesis using float_of_int_finite [OF n(2)] float_of_int_bound [OF n(2)] fle_val [of "Fin 1 0" c] by simp
qed

lemma fraction_val: "of_int (3602879701896397 * a) * 2 powi (- 54 + e) = f_val (Fin a e) / 5 * (1 + 1 / 2 ^ 54)"
proof -
  have "(2::real) powi (- 54 + e) = 2 powi (- 54) * 2 powi e" by (rule power_int_add) simp
  then have "(2::real) powi (- 54 + e) = 2 powi e / 2 ^ 54" by (simp only: power_int_minus power_int_numeral divide_inverse mult.commute)
  then show ?thesis by (simp add: field_simps)
qed

text \<open>The comparison in doubles, read as one of real numbers: it is exact up to the rounding of the limit.\<close>

lemma gate_passed_real:
  assumes "isfinite c" "1 \<le> f_val c" "f_val c < OVERFLOW" "isfinite l" "is_double l"
  shows "f_val l \<le> f_val c / 5 \<Longrightarrow> gate_passed (Some c) (Some l)"
    and "gate_passed (Some c) (Some l) \<Longrightarrow> f_val l \<le> f_val c / 5 * (1 + 1 / 2 ^ 52)"
proof -
  obtain a e where c: "c = Fin a e" using assms(1) by (cases c) auto
  let ?M = "3602879701896397 * a" and ?E = "- 54 + e"
  have v: "of_int ?M * 2 powi ?E = f_val c / 5 * (1 + 1 / 2 ^ 54)" unfolding c by (rule fraction_val)
  have a: "0 < a" using assms(2) powi_pos [of a e] by (simp add: c)
  have m: "fmul LOAD_FRACTION c = fround ?M ?E" by (simp add: fmul_def LOAD_FRACTION_def c)
  have g: "gate_passed (Some c) (Some l) = fle l (fround ?M ?E)"
    using assms fle_val [of fzero c] fle_val [of c fzero] by (simp add: gate_passed_def m flt_def)
  show "gate_passed (Some c) (Some l)" if low: "f_val l \<le> f_val c / 5"
  proof (cases "0 < f_val l")
    case True
    obtain x f where l: "l = Fin x f" using assms(4) by (cases l) auto
    have "f_val l \<le> of_int ?M * 2 powi ?E" using low assms(2) unfolding v by (simp add: distrib_left)
    then show ?thesis using fround_reaches [of x f ?M ?E] True assms(5) powi_pos [of x f] unfolding g by (simp add: l)
  next
    case False
    then show ?thesis using fround_nonneg [of ?M ?E] a assms(4) fle_val unfolding g
      by (cases "fround ?M ?E"; cases l) (auto simp: fle_def [of _ PInf] fle_def [of _ NInf] fle_def [of _ NaN])
  qed
  show "f_val l \<le> f_val c / 5 * (1 + 1 / 2 ^ 52)" if "gate_passed (Some c) (Some l)"
  proof -
    have s: "f_val c / 5 * (1 + 1 / 2 ^ 54) * (1 + 1 / 2 ^ 53) \<le> f_val c / 5 * (1 + 1 / 2 ^ 52)"
      using assms(2) by (simp add: mult.assoc)
    have "(2::real) powi (- 1000) \<le> 2 powi (- 3)" by (intro power_int_increasing) auto
    then have "(2::real) powi (- 1000) \<le> f_val c / 5 * (1 + 1 / 2 ^ 54)" using assms(2) by (simp add: power_int_minus distrib_left)
    moreover have "f_val c / 5 * (1 + 1 / 2 ^ 52) < OVERFLOW" using assms(2,3) by (simp add: distrib_left)
    ultimately show ?thesis using fround_above [of l ?M ?E] that assms(4) s unfolding g v by linarith
  qed
qed

text \<open>The two ways in which the check ends once it has measured, with all that it wrote.\<close>

definition check_file :: "bool \<Rightarrow> string" where
  "check_file preflight = (if preflight then ''preflight_load_admission.json'' else ''load_gate_checks.jsonl'')"

definition record_of :: "pyfloat option list \<Rightarrow> pyfloat option \<Rightarrow> bool \<Rightarrow> (string, gval) dict \<Rightarrow> bool" where
  "record_of load capacity passed record \<longleftrightarrow> dget record ''passed'' = Some (GBool passed) \<and>
     dget record ''load1'' = Some (gfloat (first_load load)) \<and> dget record ''effective_cpu_capacity'' = Some (gfloat capacity)"

definition admits :: "bool \<Rightarrow> pyfloat option list \<Rightarrow> pyfloat option \<Rightarrow> (string, gval) dict result \<times> written \<Rightarrow> bool" where
  "admits preflight load capacity answer \<longleftrightarrow>
     (\<exists>record. record_of load capacity True record \<and> answer = (Inr record, [(check_file preflight, GObj record)]))"

definition aborts :: "bool \<Rightarrow> pyfloat option list \<Rightarrow> pyfloat option \<Rightarrow> string \<Rightarrow> (string, gval) dict result \<times> written \<Rightarrow> bool" where
  "aborts preflight load capacity reason answer \<longleftrightarrow> (\<exists>record. record_of load capacity False record \<and>
     answer = (Inl (LoadGateError reason), [(check_file preflight, GObj record), (''ABORTED.txt'', GStr reason)]))"

lemma record_of_record: "record_of load c (gate_passed c (first_load load)) (with_error e (dict_update ((''stage'', GStr stage) # load_record load c) d))"
proof -
  have "dget (dict_update ((''stage'', GStr stage) # load_record load c) d) k = (case dget (rev ((''stage'', GStr stage) # load_record load c)) k of Some v \<Rightarrow> Some v | None \<Rightarrow> dget d k)" for k
    by (rule dget_dict_update)
  then show ?thesis by (cases e) (simp_all add: record_of_def with_error_def dget_def [of "_ # _"] load_record_def)
qed

lemma check_measured:
  assumes "measured sha h system live = Inr (c, d, e)" "\<And>f. h_disk h f = None"
  shows "if gate_passed c (first_load load) then admits preflight load c (check_load_gate sha h load stage system preflight live)
    else aborts preflight load c (case e of Some m \<Rightarrow> m | None \<Rightarrow> ''load1 exceeds its limit or is unavailable'') (check_load_gate sha h load stage system preflight live)"
  using record_of_record [of load c e stage d]
  by (auto simp: check_load_gate_def assms write_file_def raise_after_def Let_def admits_def aborts_def check_file_def)

text \<open>
  C40. When the output directory can be written, what the check does follows from the capacity and the
  load. An error of the measurement other than a \<open>LoadGateError\<close> escapes, with nothing written; with a
  \<open>LoadGateError\<close>, without a capacity, or without a finite load, it writes the record of a failed
  check and the abort notice, and raises. With both, a load of at most a fifth of the capacity, as real
  numbers, is admitted with its record as all that is written, and one that is above it by more than
  one part in \<open>2 ^ 52\<close> is aborted, whichever way the limit is rounded.
\<close>

theorem check_load_gate_exact:
  assumes "\<And>f. h_disk h f = None" "\<And>l. first_load load = Some l \<Longrightarrow> is_double l"
  shows "let answer = check_load_gate sha h load stage system preflight live in
    case effective_cpu_capacity sha h system live of
      Inl e \<Rightarrow> (case e of LoadGateError msg \<Rightarrow> aborts preflight load None msg answer | _ \<Rightarrow> answer = (Inl e, []))
    | Inr (capacity, _) \<Rightarrow> (case (capacity, first_load load) of
        (Some c, Some l) \<Rightarrow> if isfinite l then
            (f_val l \<le> f_val c / 5 \<longrightarrow> admits preflight load capacity answer) \<and>
            (f_val c / 5 * (1 + 1 / 2 ^ 52) < f_val l \<longrightarrow> (\<exists>reason. aborts preflight load capacity reason answer))
          else \<exists>reason. aborts preflight load capacity reason answer
      | _ \<Rightarrow> \<exists>reason. aborts preflight load capacity reason answer)"
proof (cases "effective_cpu_capacity sha h system live")
  case (Inl e)
  have f: "\<not> gate_passed None x" for x by (simp add: gate_passed_def)
  show ?thesis
    using Inl f check_measured [of sha h system live None _ _ load preflight stage, OF _ assms(1)]
    by (cases e) (auto simp: measured_def check_load_gate_def Let_def)
next
  case (Inr m)
  obtain c d where m: "m = (c, d)" by fastforce
  have k: "if gate_passed c (first_load load) then admits preflight load c (check_load_gate sha h load stage system preflight live)
    else \<exists>reason. aborts preflight load c reason (check_load_gate sha h load stage system preflight live)"
    using check_measured [of sha h system live c d None load preflight stage, OF _ assms(1)] by (auto simp: measured_def Inr m split: if_splits)
  show ?thesis
  proof (cases "c = None \<or> first_load load = None")
    case True
    then have "\<not> gate_passed c (first_load load)" by (auto simp: gate_passed_def split: option.splits)
    then show ?thesis using k True by (auto simp: Inr m Let_def split: option.splits)
  next
    case False
    then obtain x l where x: "c = Some x" "first_load load = Some l" by auto
    have r: "isfinite x" "1 \<le> f_val x" "f_val x < OVERFLOW" using capacity_range [of sha h system live x d] Inr m x(1) by auto
    note g = gate_passed_real [OF r _ assms(2) [OF x(2)]]
    have "\<not> isfinite l \<Longrightarrow> \<not> gate_passed c (first_load load)" by (simp add: gate_passed_def x)
    then show ?thesis using k g by (auto simp: Inr m x Let_def split: if_splits)
  qed
qed

section \<open>The window\<close>

definition sample_passes :: "(string \<Rightarrow> string) \<Rightarrow> wait_args \<Rightarrow> host \<Rightarrow> bool" where
  "sample_passes sha a h = (case measured sha h (wa_system a) (wa_live a) of
     Inr (c, _, _) \<Rightarrow> gate_passed c (first_load (load_average h)) | Inl _ \<Rightarrow> False)"

text \<open>The samples from \<open>j\<close> to \<open>n\<close> all pass, and none comes too late after the one before.\<close>

definition steady :: "(string \<Rightarrow> string) \<Rightarrow> wait_args \<Rightarrow> (nat \<Rightarrow> host) \<Rightarrow> nat \<Rightarrow> nat \<Rightarrow> bool" where
  "steady sha a obs j n \<longleftrightarrow> j \<le> n \<and> (\<forall>i. j \<le> i \<and> i \<le> n \<longrightarrow> sample_passes sha a (obs i)) \<and>
     (\<forall>i. j \<le> i \<and> i < n \<longrightarrow> \<not> gap a (h_clock (obs i)) (h_clock (obs (Suc i))))"

lemma steady_single: "sample_passes sha a (obs n) \<Longrightarrow> steady sha a obs n n"
  by (auto simp: steady_def le_antisym)

lemma steady_Suc:
  "steady sha a obs j n \<Longrightarrow> sample_passes sha a (obs (Suc n)) \<Longrightarrow> \<not> gap a (h_clock (obs n)) (h_clock (obs (Suc n))) \<Longrightarrow> steady sha a obs j (Suc n)"
  by (auto simp: steady_def le_Suc_eq less_Suc_eq)

text \<open>Before sample \<open>n\<close>: the window that is kept is steady up to the sample before.\<close>

definition window_inv :: "(string \<Rightarrow> string) \<Rightarrow> wait_args \<Rightarrow> (nat \<Rightarrow> host) \<Rightarrow> nat \<Rightarrow> wait_state \<Rightarrow> bool" where
  "window_inv sha a obs n st \<longleftrightarrow> ws_count st = n \<and>
     ws_previous st = (if n = 0 then None else Some (h_clock (obs (n - 1)))) \<and>
     (\<forall>t. ws_stable st = Some t \<longrightarrow> 0 < n \<and> (\<exists>j. t = h_clock (obs j) \<and> steady sha a obs j (n - 1)))"

lemma window_after_steady:
  assumes "window_inv sha a obs n st" "window_after a (sample_passes sha a (obs n)) (h_clock (obs n)) st = Some t"
  shows "\<exists>j. t = h_clock (obs j) \<and> steady sha a obs j n"
proof -
  have p: "sample_passes sha a (obs n)" using assms(2) by (auto simp: window_after_def Let_def split: if_splits)
  note single = steady_single [of sha a obs n, OF p]
  show ?thesis
  proof (cases n)
    case 0
    then have "t = h_clock (obs n)" using assms p by (auto simp: window_inv_def window_after_def Let_def)
    then show ?thesis using single by blast
  next
    case (Suc m)
    then have "t = h_clock (obs n) \<or> ws_stable st = Some t \<and> \<not> gap a (h_clock (obs m)) (h_clock (obs (Suc m)))"
      using assms by (auto simp: window_inv_def window_after_def Let_def p split: option.splits if_splits)
    moreover have "\<exists>j. t = h_clock (obs j) \<and> steady sha a obs j m" if "ws_stable st = Some t"
      using assms(1) that Suc by (auto simp: window_inv_def)
    ultimately show ?thesis using single steady_Suc [of sha a obs _ m] p unfolding Suc by blast
  qed
qed

text \<open>One sample: it ends with a sustained window, ends otherwise, or keeps the invariant.\<close>

lemma after_sample_cases:
  assumes "after_sample a h elapsed c e sustained record st = (r, st1)"
  shows "ws_count st1 = ws_count st \<and> ws_stable st1 = ws_stable st \<and>
    (case r of None \<Rightarrow> \<not> fle (wa_max a) elapsed \<and> ws_previous st1 = Some (h_clock h) | Some (Inr _) \<Rightarrow> sustained | _ \<Rightarrow> True)"
  using assms
  by (auto simp: after_sample_def Let_def raise_after_def split: if_splits prod.splits sum.splits)

lemma wait_sample_cases:
  assumes "wait_sample sha a started h st = (r, st1)"
  shows "ws_count st1 \<le> Suc (ws_count st) \<and> (case r of
      None \<Rightarrow> \<not> fle (wa_max a) (fsub (h_clock h) started) \<and> ws_count st1 = Suc (ws_count st) \<and> ws_previous st1 = Some (h_clock h) \<and>
        ws_stable st1 = window_after a (sample_passes sha a h) (h_clock h) st
    | Some (Inr _) \<Rightarrow> ws_count st1 = Suc (ws_count st) \<and> fle (fsub (h_clock h) started) (wa_max a) \<and> sample_passes sha a h \<and>
        fle (wa_stable a) (stable_for (h_clock h) (window_after a (sample_passes sha a h) (h_clock h) st))
    | _ \<Rightarrow> True)"
proof (cases "measured sha h (wa_system a) (wa_live a)")
  case (Inl e)
  then show ?thesis using assms by (auto simp: wait_sample_def)
next
  case (Inr m)
  obtain c d e where m: "m = (c, d, e)" by (cases m)
  have p: "gate_passed c (first_load (load_average h)) = sample_passes sha a h" by (simp add: sample_passes_def Inr m)
  show ?thesis
    using assms by (auto simp: wait_sample_def Inr m p Let_def write_file_def dest!: after_sample_cases split: option.splits sum.splits)
qed

lemma window_inv_step:
  assumes "window_inv sha a obs n st" "wait_sample sha a started (obs n) st = (None, st1)"
  shows "window_inv sha a obs (Suc n) st1"
  using wait_sample_cases [OF assms(2)] window_after_steady [OF assms(1)] assms(1) by (auto simp: window_inv_def)

definition admitted_at :: "(string \<Rightarrow> string) \<Rightarrow> wait_args \<Rightarrow> pyfloat \<Rightarrow> (nat \<Rightarrow> host) \<Rightarrow> nat \<Rightarrow> bool" where
  "admitted_at sha a started obs n \<longleftrightarrow> fle (fsub (h_clock (obs n)) started) (wa_max a) \<and>
     (\<exists>j. steady sha a obs j n \<and> fle (wa_stable a) (fsub (h_clock (obs n)) (h_clock (obs j))))"

lemma wait_from_admitted:
  assumes "wait_from sha a started obs n st = Some y"
  shows "window_inv sha a obs n st \<longrightarrow> isl (fst y) \<or> 0 < ws_count (snd y) \<and> admitted_at sha a started obs (ws_count (snd y) - 1)"
  using assms
proof (induct sha a started obs n st y rule: wait_from.raw_induct [rotated, consumes 1])
  case (1 f sha a started obs n st y)
  obtain r st1 where s: "wait_sample sha a started (obs n) st = (r, st1)" by fastforce
  note c = wait_sample_cases [OF s]
  show ?case
  proof (cases r)
    case None
    then show ?thesis using 1(2) 1(1) [of sha a started obs "Suc n" st1 y] window_inv_step [of sha a obs n st started st1] s by simp
  next
    case (Some x)
    then have y: "y = (x, st1)" using 1(2) s by simp
    show ?thesis
    proof (cases x)
      case (Inr v)
      show ?thesis
      proof
        assume w: "window_inv sha a obs n st"
        note d = c [unfolded Some Inr, simplified]
        have n: "ws_count st1 = Suc n" using d w by (simp add: window_inv_def)
        obtain t where t: "window_after a (sample_passes sha a (obs n)) (h_clock (obs n)) st = Some t"
          using d by (auto simp: window_after_def Let_def split: option.splits)
        from window_after_steady [OF w t] obtain j where "t = h_clock (obs j)" "steady sha a obs j n" by blast
        then have "admitted_at sha a started obs n" using d t by (auto simp: admitted_at_def stable_for_def)
        then show "isl (fst y) \<or> 0 < ws_count (snd y) \<and> admitted_at sha a started obs (ws_count (snd y) - 1)" using n y by simp
      qed
    qed (simp add: y)
  qed
qed

lemma first_inv: "window_inv sha a obs 0 first_state"
  by (simp add: window_inv_def first_state_def)

text \<open>
  C38. A wait that admits the benchmark does so at a sample that ends a stable window: some earlier
  sample opens it, every sample from there on passes, no two successive ones are more than one and a
  half intervals apart, the window is as long as required, and the whole wait stayed within its limit.
\<close>

theorem wait_admits_window:
  assumes "wait_for_sustained_load_gate sha a start obs = Some (Inr summary, st)"
  shows "\<exists>j n. ws_count st = Suc n \<and> j \<le> n \<and>
    (\<forall>i. j \<le> i \<and> i \<le> n \<longrightarrow> sample_passes sha a (obs i)) \<and>
    (\<forall>i. j \<le> i \<and> i < n \<longrightarrow> \<not> gap a (h_clock (obs i)) (h_clock (obs (Suc i)))) \<and>
    fle (wa_stable a) (fsub (h_clock (obs n)) (h_clock (obs j))) \<and>
    fle (fsub (h_clock (obs n)) (h_clock start)) (wa_max a)"
proof -
  have "wait_from sha a (h_clock start) obs 0 first_state = Some (Inr summary, st)"
    using assms by (auto simp: wait_for_sustained_load_gate_def split: if_splits option.splits)
  from wait_from_admitted [OF this] have a: "0 < ws_count st" "admitted_at sha a (h_clock start) obs (ws_count st - 1)"
    using first_inv [of sha a obs] by auto
  then obtain n where n: "ws_count st = Suc n" by (cases "ws_count st") auto
  then obtain j where "steady sha a obs j n" "fle (wa_stable a) (fsub (h_clock (obs n)) (h_clock (obs j)))"
    "fle (fsub (h_clock (obs n)) (h_clock start)) (wa_max a)" using a(2) by (auto simp: admitted_at_def)
  then show ?thesis using n unfolding steady_def by blast
qed

section \<open>The wait ends\<close>

lemma wait_from_ends:
  assumes "fle (wa_max a) (fsub (h_clock (obs N)) started)" "n \<le> N" "ws_count st \<le> n"
  shows "\<exists>r st1. wait_from sha a started obs n st = Some (r, st1) \<and> ws_count st1 \<le> Suc N"
  using assms(2,3)
proof (induction "N - n" arbitrary: n st)
  case 0
  obtain r st1 where s: "wait_sample sha a started (obs n) st = (r, st1)" by fastforce
  have "n = N" using 0 by simp
  then have "r \<noteq> None" using wait_sample_cases [OF s] assms(1) by (cases r) simp_all
  then show ?case using s wait_sample_cases [OF s] 0 \<open>n = N\<close> by (auto simp: wait_from.simps [of sha a started obs N])
next
  case (Suc m)
  obtain r st1 where s: "wait_sample sha a started (obs n) st = (r, st1)" by fastforce
  note c = wait_sample_cases [OF s]
  show ?case
  proof (cases r)
    case None
    then have "\<exists>r st2. wait_from sha a started obs (Suc n) st1 = Some (r, st2) \<and> ws_count st2 \<le> Suc N"
      using Suc(1) [of "Suc n" st1] Suc(2-4) c by simp
    then show ?thesis using None s by (simp add: wait_from.simps [of sha a started obs n])
  next
    case (Some x)
    then show ?thesis using s c Suc(3,4) by (simp add: wait_from.simps [of sha a started obs n])
  qed
qed

text \<open>
  C37. The wait always ends once the clock has reached the limit: when it has at sample \<open>N\<close>, by the
  exact difference to the start, some answer (an admission or an error) comes after at most that
  sample. The rounding of the elapsed time cannot make the loop miss its limit.
\<close>

theorem wait_ends:
  assumes "isfinite (h_clock start)" "isfinite (h_clock (obs N))" "is_double (wa_max a)"
    and "f_val (wa_max a) \<le> f_val (h_clock (obs N)) - f_val (h_clock start)"
  shows "\<exists>r st. wait_for_sustained_load_gate sha a start obs = Some (r, st) \<and> ws_count st \<le> Suc N"
proof (cases "valid_args a")
  case True
  then have m: "isfinite (wa_max a)" "0 < f_val (wa_max a)"
    using fle_val [of "wa_max a" fzero] by (auto simp: valid_args_def positive_def)
  have "fle (wa_max a) (fsub (h_clock (obs N)) (h_clock start))"
    by (rule fsub_reaches [OF assms(2,1) m(1) assms(3) m(2) assms(4)])
  from wait_from_ends [of a obs N "h_clock start" 0 first_state sha, OF this] True show ?thesis
    by (auto simp: wait_for_sustained_load_gate_def first_state_def split: option.splits)
qed (simp add: wait_for_sustained_load_gate_def first_state_def)

section \<open>The sleeps\<close>

lemma remaining_nonneg: "isfinite m \<Longrightarrow> \<not> fle m x \<Longrightarrow> fsub m x = NaN \<or> fle fzero (fsub m x)"
proof (cases m; cases x)
  fix a e b f assume s: "m = Fin a e" "x = Fin b f" and "\<not> fle m x"
  then have "0 \<le> aligned a e (min e f) - aligned b f (min e f)" by (simp add: fle_def Let_def)
  from fround_nonneg [OF this] show ?thesis by (simp add: fsub_def s Let_def)
qed (auto simp: fsub_def fle_def)

text \<open>A sleep is never negative, so \<open>time.sleep\<close> does not raise, and it is at most an interval.\<close>

lemma nap_bounds:
  assumes "valid_args a" "\<not> fle (wa_max a) elapsed"
  shows "fle fzero (fmin (wa_interval a) (fsub (wa_max a) elapsed)) \<and> fle (fmin (wa_interval a) (fsub (wa_max a) elapsed)) (wa_interval a)"
proof -
  let ?i = "wa_interval a" and ?r = "fsub (wa_max a) elapsed"
  have i: "isfinite ?i" "fle fzero ?i" "fle ?i ?i"
    using assms(1) fle_val [of ?i fzero] fle_val [of fzero ?i] fle_val [of ?i ?i] by (auto simp: valid_args_def positive_def)
  have "?r = NaN \<or> fle fzero ?r" using remaining_nonneg assms by (auto simp: valid_args_def positive_def)
  then show ?thesis using i by (auto simp: fmin_def flt_def fle_def)
qed

lemma wait_from_sleeps:
  assumes "wait_from sha a started obs n st = Some y"
  shows "valid_args a \<longrightarrow> list_all (\<lambda>s. fle fzero s \<and> fle s (wa_interval a)) (ws_sleeps st) \<longrightarrow>
    list_all (\<lambda>s. fle fzero s \<and> fle s (wa_interval a)) (ws_sleeps (snd y))"
  using assms
proof (induct sha a started obs n st y rule: wait_from.raw_induct [rotated, consumes 1])
  case (1 f sha a started obs n st y)
  obtain r st1 where s: "wait_sample sha a started (obs n) st = (r, st1)" by fastforce
  have p: "valid_args a \<Longrightarrow> list_all (\<lambda>s. fle fzero s \<and> fle s (wa_interval a)) (ws_sleeps st) \<Longrightarrow> list_all (\<lambda>s. fle fzero s \<and> fle s (wa_interval a)) (ws_sleeps st1)"
    using s nap_bounds [of a "fsub (h_clock (obs n)) started"]
    by (auto simp: wait_sample_def after_sample_def Let_def write_file_def raise_after_def split: sum.splits prod.splits option.splits if_splits)
  then show ?case using 1(1) [of sha a started obs "Suc n" st1 y] 1(2) s by (cases r) auto
qed

section \<open>A host\<close>

definition demo_host :: "int \<Rightarrow> int \<Rightarrow> host" where
  "demo_host load t = \<lparr>h_machine = ''arm64'', h_affinity = Inl AttributeError, h_cgroup = Inl FileNotFoundError, h_mountinfo = Inl FileNotFoundError,
     h_self_ns = Inl FileNotFoundError, h_init_ns = Inl FileNotFoundError, h_text = (\<lambda>_ _. Inl FileNotFoundError), h_cpus = Some 10,
     h_qualification = Inr (Some (GObj [(''system'', GStr ''Linux''), (''qualified'', GBool True), (''allowed_cpu_count'', GInt 96), (''effective_cgroup_cpu_quota'', GFloat (Fin 161 (- 1)))])),
     h_loadavg = Some (Fin load 0, Fin 3 0, Fin 4 0), h_clock = Fin t 0, h_epoch = Fin t 0, h_disk = (\<lambda>_. None)\<rparr>"

definition demo_args :: wait_args where
  "demo_args = \<lparr>wa_system = ''Darwin'', wa_stage = ''s'', wa_stable = Fin 1 0, wa_interval = Fin 1 0, wa_max = Fin 9 0, wa_live = False\<rparr>"

text \<open>Three samples, of which the first fails.\<close>

definition demo_obs :: "nat \<Rightarrow> host" where
  "demo_obs n = demo_host (if n = 0 then 3 else 1) (int n)"

definition demo_sample :: "nat \<Rightarrow> wait_state \<Rightarrow> (string, gval) dict result option \<times> wait_state" where
  "demo_sample n st = wait_sample id demo_args (Fin 0 0) (demo_obs n) st"

lemma demo_samples:
  "fst (demo_sample 0 first_state) = None" "fst (demo_sample 1 (snd (demo_sample 0 first_state))) = None"
  "case fst (demo_sample 2 (snd (demo_sample 1 (snd (demo_sample 0 first_state))))) of Some (Inr v) \<Rightarrow> True | _ \<Rightarrow> False"
  by code_simp+

lemma wait_from_next: "fst (wait_sample sha a started (obs n) st) = None \<Longrightarrow>
    wait_from sha a started obs n st = wait_from sha a started obs (Suc n) (snd (wait_sample sha a started (obs n) st))"
  by (subst wait_from.simps) (auto split: prod.splits option.splits)

lemma wait_from_last: "fst (wait_sample sha a started (obs n) st) = Some r \<Longrightarrow> wait_from sha a started obs n st = Some (r, snd (wait_sample sha a started (obs n) st))"
  by (subst wait_from.simps) (auto split: prod.splits option.splits)

theorem linux_capacity_ample_witness:
  "\<exists>c d x. effective_cpu_capacity id (demo_host 1 0) ''Linux'' False = Inr (c, d) \<and> c = Some x \<and> fle (Fin 64 0) x"
proof -
  let ?r = "effective_cpu_capacity id (demo_host 1 0) ''Linux'' False"
  have "\<not> isl ?r" by code_simp
  then obtain c d where r: "?r = Inr (c, d)" by (cases ?r) auto
  have "lower ''Linux'' = ''linux''" by code_simp
  from linux_capacity_ample [OF this r] r show ?thesis by blast
qed

theorem check_load_gate_exact_witness:
  "admits True [Some (Fin 2 0)] (Some (Fin 10 0)) (check_load_gate id (demo_host 2 0) [Some (Fin 2 0)] ''s'' ''Darwin'' True False)"
proof -
  have "case effective_cpu_capacity id (demo_host 2 0) ''Darwin'' False of Inr (c, _) \<Rightarrow> c = Some (Fin 10 0) | Inl _ \<Rightarrow> False" by code_simp
  then obtain d where e: "effective_cpu_capacity id (demo_host 2 0) ''Darwin'' False = Inr (Some (Fin 10 0), d)" by (auto split: sum.splits)
  have "h_disk (demo_host 2 0) f = None" for f by (simp add: demo_host_def)
  moreover have "is_double l" if "first_load [Some (Fin 2 0)] = Some l" for l using that by (auto simp: first_load_def)
  ultimately show ?thesis using check_load_gate_exact [of "demo_host 2 0" "[Some (Fin 2 0)]" id "''s''" "''Darwin''" True False]
    by (simp add: e first_load_def Let_def)
qed

theorem wait_admits_window_witness:
  "\<exists>v st. wait_for_sustained_load_gate id demo_args (demo_host 1 0) demo_obs = Some (Inr v, st) \<and>
     (\<exists>j n. ws_count st = Suc n \<and> j \<le> n \<and> (\<forall>i. j \<le> i \<and> i \<le> n \<longrightarrow> i \<noteq> 0))"
proof -
  obtain v where "fst (demo_sample 2 (snd (demo_sample 1 (snd (demo_sample 0 first_state))))) = Some (Inr v)"
    using demo_samples(3) by (auto split: option.splits sum.splits)
  then obtain st where "wait_from id demo_args (Fin 0 0) demo_obs 0 first_state = Some (Inr v, st)"
    using demo_samples(1,2) unfolding demo_sample_def by (simp add: wait_from_next wait_from_last eval_nat_numeral)
  moreover have "valid_args demo_args" by code_simp
  ultimately have w: "wait_for_sustained_load_gate id demo_args (demo_host 1 0) demo_obs = Some (Inr v, st)"
    by (simp add: wait_for_sustained_load_gate_def demo_host_def)
  have p: "\<not> sample_passes id demo_args (demo_obs 0)" by code_simp
  from wait_admits_window [OF w] obtain j n where n: "ws_count st = Suc n" "j \<le> n" "\<forall>i. j \<le> i \<and> i \<le> n \<longrightarrow> sample_passes id demo_args (demo_obs i)"
    by blast
  then have "\<forall>i. j \<le> i \<and> i \<le> n \<longrightarrow> i \<noteq> 0" using p by metis
  with w n(1,2) show ?thesis by blast
qed

theorem wait_ends_witness:
  "\<exists>r st. wait_for_sustained_load_gate id demo_args (demo_host 9 0) (\<lambda>n. demo_host 9 (int n)) = Some (r, st) \<and> ws_count st \<le> 10"
  using wait_ends [of "demo_host 9 0" "\<lambda>n. demo_host 9 (int n)" 9 demo_args id] by (simp add: demo_host_def demo_args_def)

end
