(* ===== verification/Spec2Isabelle.thy ===== *)
theory Spec2Isabelle
  imports EasmLockstep EasmPreserve EasmTemplate EasmOracle EasmRelation ParTypes ParDispatch ShardBatch ObjPublish ObjMain WasmClient WasmFacade PyStub LoadGate
begin

text \<open>
  \<^bold>\<open>The Python tooling of the Elisa compiler.\<close>

  The repository holds a compiler written in Elisa and the Python programs under
  \<open>src/scripts\<close> that the build trusts: provers for hand-written machine code, the generator that
  decides which semantic passes may run concurrently, the caches that replay compiled shards and
  whole objects, the scanner and generator behind the WebAssembly bindings, the generator of Python
  stubs, and the gate that admits benchmarks on a quiet host. This library models those programs.

  \<^bold>\<open>Foundations.\<close>
  \<^item> \<open>Prelude\<close>: the exceptions the scripts raise (\<open>py_exn\<close>), the type \<open>result\<close> that carries them,
    insertion-ordered dictionaries. The locale \<open>dictionary\<close> states the laws of lookup after update
    and deletion; \<open>pyd\<close> interprets it on \<open>dget\<close>, \<open>dset\<close>, \<open>ddel\<close>.
  \<^item> \<open>PyText\<close>: the \<open>str\<close> methods the scripts call, on characters of Latin-1.
  \<^item> \<open>PyRegex\<close>: patterns as values of \<open>rx\<close> and a backtracking matcher that lists the match states in
    Python's order of preference, so the first one is the match Python reports.
  \<^item> \<open>PyJson\<close>: JSON values, the canonical printer, the reader, and that reading gives back what was
    printed.
  \<^item> \<open>PyFs\<close>: a file system as a dictionary from normalised paths to files and directories, the system
    calls on it, and actions that may raise. The locale \<open>tree_store\<close> has the laws of moving and
    removing trees, interpreted as \<open>fs_store\<close>. \<open>FsUndo\<close>: undoing a run of creations restores the
    original file system.
  \<^item> \<open>Kernel\<close>: names bound to inodes, symbolic links, and other processes. Before each call of the
    process the next event of a schedule runs: a change by others, and whether the call then fails.
    The locale \<open>rely\<close> has the rules by which composed actions stay within a relation that the others
    obey; it is interpreted for \<open>evolves\<close> (\<open>evo\<close>) and for \<open>spares\<close> (\<open>spa\<close>).
  \<^item> \<open>PyFloat\<close>: Python floats as integers times powers of two, rounded to 53 bits with ties to even;
    a rounded result reaches every double that the exact one reaches and exceeds the exact one by at
    most one part in \<open>2 ^ 53\<close>.

  \<^bold>\<open>EASM verification\<close> (hand-written assembly, \<open>scripts/easm_*.py\<close>).
  \<^item> \<open>EasmSymbolic\<close> is \<open>easm_lockstep_symbolic.py\<close>: operands, terms, the symbolic state, one
    definition for each group of instructions, \<open>encode\<close> with its join points, the pair scanner,
    \<open>prove\<close>. The SMT solver is an argument.
  \<^item> \<open>EasmMachine\<close> is the specification: the meaning of terms over 64-bit words and an inductive
    step relation for the instructions, with its determinism. \<open>EasmSound\<close> proves that each
    instruction group, each forward branch and each merge keeps the symbolic state in agreement with
    the machine. \<open>EasmLockstep\<close> concludes that a disciplined body halts with the encoded values and
    that a proved pair computes equal outputs when these are 64-bit registers, and shows where the
    encoder is not exact.
  \<^item> \<open>EasmPreserve\<close> is \<open>easm_preserve_parametric.py\<close>: the contract scanner, the symbolic stack, the
    query; a register reported as proved is restored on a machine with a frame of words.
  \<^item> \<open>EasmTemplate\<close> is \<open>easm_assemble_template.py\<close>: template parser, encodings, differing byte runs,
    the image with its patches; the assembler is an argument.
  \<^item> \<open>EasmOracle\<close> is \<open>easm_lockstep_oracle.py\<close>: scanner, gate, verdicts; \<open>EasmRelation\<close> is
    \<open>easm_relation_property.py\<close>: bodies generated from a list of random draws, the undefined-read
    check, the comparison with the verifier. Running native code is an argument of both. What the gate
    admits is compared with the writers of the flags of the instruction set, on every path of a body.

  \<^bold>\<open>Concurrent semantic passes\<close> (\<open>scripts/semantic_parallel_gen.py\<close>).
  \<^item> \<open>ParScan\<close>: comments, quotes, argument splitting, delimiters, table calls, match arms.
  \<^item> \<open>ParTypes\<close>: which types are copied by value and which may hold mutable storage. Each walk over
    aliases and records is proved equivalent to an inductive derivation, so it ends and decides it.
  \<^item> \<open>ParPlan\<close>: append-only passes as a closure of the call graph, the existing batches, the pipeline,
    the planned runs, its rewriting, the whitelist and its round trip.
  \<^item> \<open>ParDispatch\<close>: reading and writing the dispatcher, the chunks, the audit and both modes of the
    command. The facts about each function that the source audit collects with regular expressions
    are a record argument.

  \<^bold>\<open>The shard cache\<close> (\<open>scripts/stage1_shard_cache.py\<close>).
  \<^item> \<open>ShardCache\<close>: options, tickets, keys, manifests, bundles, staging, publication, restoration and
    the lemmas on publication. The digest is a function argument; random names are a supply in the
    state.
  \<^item> \<open>ShardRestore\<close>: what a hit leaves at the targets and that a miss leaves nothing behind.
  \<^item> \<open>ShardBatch\<close>: requests, status lines, the batch invocation with its rollback, request handlers
    and command dispatch. Output paths of a request are compared after resolving them in a working
    directory, which is an argument; the file system itself is keyed by resolved paths. The locale \<open>ticket_validator\<close> states what a restoration relies on; it is
    interpreted for the single ticket (\<open>single\<close>) and for the memo of the batch (\<open>batched\<close>).

  \<^bold>\<open>The object cache\<close> (\<open>scripts/stage1_object_cache.py\<close>), on \<open>Kernel\<close>.
  \<^item> \<open>ObjKey\<close>: the environment key and the job count. \<open>ObjMain\<close>: the attested linker and the command.
  \<^item> \<open>ObjFile\<close>: opening, reading, writing and copying regular files, fingerprints. A read or a copy that
    returns saw one moment of the file, although others may write to it or replace it meanwhile.
  \<^item> \<open>ObjDeps\<close>: dependency records, the compiler's report, the index file; an accepted index is current.
  \<^item> \<open>ObjStore\<close>: attributes, the state of an output path, restoration and publication. The locale
    \<open>own_field\<close> collects which fields of the process an action leaves alone, interpreted for what was
    published (\<open>pub\<close>) and for the admission flag (\<open>adm\<close>); a miss has published nothing.
  \<^item> \<open>ObjRestore\<close>: a hit has published what the metadata describes, provided others leave the private
    staging files alone. \<open>ObjPublish\<close>: the metadata of an entry appears last.
  \<^item> What is relied on of others: a change of an inode gives it a later change time, and inode numbers
    are not reused while the process runs (\<open>evolves\<close>): two changes within one tick of a coarse
    clock are outside the guarantee; the bytes and names of staging files are not
    touched (\<open>leaves\<close>). Nothing else is assumed, and any call may fail at any time.

  \<^bold>\<open>WebAssembly exports\<close> (\<open>scripts/wasm_export_scan.py\<close>, \<open>scripts/wasm_export_scan_client.py\<close>,
  \<open>scripts/wasm_facade.py\<close>).
  \<^item> \<open>WasmFlat\<close>: the include splicer. Its successful readings are an inductive relation; by rule
    induction the files read are the reachable ones, without cycle, and the text is bounded.
  \<^item> \<open>WasmExports\<close>: parameter lists, types, bindings and the line scanner, against a reference list
    of what each line declares.
  \<^item> \<open>WasmClient\<close>: the client of the external scanner. Its validation accepts exactly the rows of
    well-formed exports, and all that the reference scanner produces within its limits, for components
    when no type is left out; the
    memory it samples is the sum over the scanner's process tree. Running the scanner is an argument.
  \<^item> \<open>WasmFacade\<close>: value conversions, generated methods and interface lines; the conversions of
    results are given a meaning over 32-bit words and shown to keep the declared width and sign.

  \<^bold>\<open>Python stubs\<close> (\<open>scripts/pymodule_pyi.py\<close>, \<open>scripts/pymodule_pyi_typing.py\<close>).
  \<^item> \<open>PyStub\<close>: the renderer over a typed description: names, types, payload types, records, functions.
    The searches for a free name end because only finitely many candidates are taken, and the names
    that are read off the rendered records and payloads do not collide.

  \<^bold>\<open>Benchmark admission\<close> (\<open>scripts/bench_load_gate.py\<close>).
  \<^item> \<open>LoadGate\<close>: CPU entitlement, the load check, the wait for a stable window. The host is an argument,
    one record for each sample. A load is admitted up to a fifth of the capacity, as real numbers and up
    to rounding; an admission after a wait ends a window of passing samples, and the wait ends once the
    clock has reached its limit.

  \<^bold>\<open>Fuel and bounds.\<close> Loops that walk text or lists are structural recursion. \<open>repeat\<close> of the
  matcher is bounded by the length of the text ahead, since each further iteration consumes a
  character. The closures, type walks and the process walk carry a measure on the finite set of known
  names; the splicer carries one on the include depth the source allows; the loops that read and copy
  files carry one on the events left and the bytes left. The wait of the load gate may go on for ever
  when the clock stands still, so it is a partial function. Limits of
  the source (shards, manifest size) are constants of the model. Machine words are
  \<open>64 word\<close>; Python integers are \<open>int\<close> or \<open>nat\<close>.

  \<^bold>\<open>Not modelled.\<close> Text outside Latin-1; flushing to disk; argument parsing and the text of messages
  with values formatted into them. The shard cache is modelled for one process without symbolic
  links; of the object cache, a write of a buffer and the resolution of a path are one call each, and
  the times of directories are not kept. The parts that are only subprocess, socket or debugger
  traffic (provenance records, the WebAssembly driver, fuzz drivers) have no logic separate from
  their input and output. The source rewriting tools are an open extension. The compiler itself is
  written in Elisa and is outside this library.
\<close>

end
